(* ===== verification/Prelude.thy ===== *)
theory Prelude
  imports Main "HOL-Library.Word" "HOL-Library.Monad_Syntax"
begin

text \<open>
  Shared material of the development: the machine types of the Go sources, the
  wrap-around of Go's \<open>int\<close>, slicing with its run-time panic, the big-endian
  integer layouts of \<open>encoding/binary\<close>, CRC-32C (\<open>hash/crc32\<close>), and the generic
  lemmas on lists and folds that the component theories use.

  Conventions. A Go integer of width \<open>w\<close>, signed or not, is a \<open>w word\<close>; the signed
  reading is \<^const>\<open>sint\<close> and a conversion between \<open>intN\<close> and \<open>uintN\<close> is the identity.
  A Go \<open>int\<close> used as a position is an \<^typ>\<open>int\<close> kept in range by \<open>wrap64\<close>.  A Go \<open>string\<close>
  or \<open>[]byte\<close> is a list of bytes; where the source tells \<open>nil\<close> from an empty slice the
  model uses \<^typ>\<open>'a option\<close>.  A run-time panic is the value \<^const>\<open>None\<close> of an
  option-returning operation.
\<close>

unbundle bit_operations_syntax

named_theorems put_bytes \<open>what an encoder operation appends\<close>
named_theorems roundtrip \<open>decoding what was just encoded\<close>

section \<open>Machine types\<close>

type_synonym byte = "8 word"
type_synonym bytes = "byte list"
type_synonym u16 = "16 word"
type_synonym u32 = "32 word"
type_synonym u64 = "64 word"
type_synonym i8 = "8 word"
type_synonym i16 = "16 word"
type_synonym i32 = "32 word"
type_synonym i64 = "64 word"
type_synonym gostring = "byte list"

definition gostr :: "string \<Rightarrow> gostring" where
  "gostr s = map of_char s"

lemma sint_inject: "sint a = sint b \<Longrightarrow> a = (b :: 'a::len word)"
  by (rule signed_word_eqI)

lemma sint_word_of_nat:
  assumes "n < 2 ^ (LENGTH('l) - 1)"
  shows "sint (word_of_nat n :: 'l::len word) = int n"
proof -
  have "int n < 2 ^ (LENGTH('l) - 1)"
    using assms by (metis of_nat_less_iff of_nat_numeral of_nat_power)
  moreover have "- (2 ^ (LENGTH('l) - 1)) \<le> int n"
    by (rule order_trans [of _ 0]) simp_all
  ultimately show ?thesis
    by (simp add: signed_of_nat signed_take_bit_int_eq_self)
qed

lemma unat_word_of_nat: "n < 2 ^ LENGTH('l) \<Longrightarrow> unat (word_of_nat n :: 'l::len word) = n"
  by (simp add: unsigned_of_nat take_bit_nat_eq_self)

lemma uint_word_of_nat: "n < 2 ^ LENGTH('l) \<Longrightarrow> uint (word_of_nat n :: 'l::len word) = int n"
  by (simp add: unsigned_of_nat take_bit_nat_eq_self)

text \<open>Wrap-around of a 64-bit Go \<open>int\<close> (two's complement).\<close>

definition wrap64 :: "int \<Rightarrow> int" where
  "wrap64 x = signed_take_bit 63 x"

lemma wrap64_id [simp]: "- (2 ^ 63) \<le> x \<Longrightarrow> x < 2 ^ 63 \<Longrightarrow> wrap64 x = x"
  by (simp add: wrap64_def signed_take_bit_int_eq_self)

lemma wrap64_range: "- (2 ^ 63) \<le> wrap64 x \<and> wrap64 x < 2 ^ 63"
  using signed_take_bit_int_greater_eq_minus_exp [of 63 x]
    signed_take_bit_int_less_exp [of 63 x] by (simp add: wrap64_def)

text \<open>
  A bound on buffer lengths under which no position computed from them wraps.  Go's
  slices are limited by the address space, far below it.
\<close>

definition fits :: "'a list \<Rightarrow> bool" where
  "fits xs \<longleftrightarrow> length xs < 2 ^ 62"

lemma fits_length: "fits xs \<Longrightarrow> int (length xs) < 2 ^ 62"
  by (simp add: fits_def)

lemma fits_append: "fits (xs @ ys) \<longleftrightarrow> length xs + length ys < 2 ^ 62"
  by (simp add: fits_def)

section \<open>Slices\<close>

text \<open>\<open>xs[i:j]\<close>, a panic outside \<open>0 \<le> i \<le> j \<le> len\<close>.\<close>

definition go_slice :: "'a list \<Rightarrow> int \<Rightarrow> int \<Rightarrow> 'a list option" where
  "go_slice xs i j =
     (if 0 \<le> i \<and> i \<le> j \<and> j \<le> int (length xs)
      then Some (take (nat (j - i)) (drop (nat i) xs)) else None)"

text \<open>\<open>xs[i:]\<close>.\<close>

definition go_slice_from :: "'a list \<Rightarrow> int \<Rightarrow> 'a list option" where
  "go_slice_from xs i = go_slice xs i (int (length xs))"

text \<open>\<open>xs[i]\<close>.\<close>

definition go_index :: "'a list \<Rightarrow> int \<Rightarrow> 'a option" where
  "go_index xs i = (if 0 \<le> i \<and> i < int (length xs) then Some (xs ! nat i) else None)"

lemma go_slice_mid [simp]:
  "n = int (length xs) \<Longrightarrow>
   go_slice (pre @ xs @ post) (int (length pre)) (int (length pre) + n) = Some xs"
  by (simp add: go_slice_def)

lemma go_slice_from_mid [simp]:
  "go_slice_from (pre @ post) (int (length pre)) = Some post"
  by (simp add: go_slice_from_def go_slice_def)

lemma go_slice_Some_length:
  "go_slice xs i j = Some ys \<Longrightarrow> int (length ys) = j - i"
  by (auto simp: go_slice_def split: if_splits)

section \<open>Big-endian integers (\<open>encoding/binary\<close>)\<close>

definition be16 :: "u16 \<Rightarrow> bytes" where
  "be16 v = [ucast (drop_bit 8 v), ucast v]"

definition be32 :: "u32 \<Rightarrow> bytes" where
  "be32 v = [ucast (drop_bit 24 v), ucast (drop_bit 16 v), ucast (drop_bit 8 v), ucast v]"

definition be64 :: "u64 \<Rightarrow> bytes" where
  "be64 v =
     [ucast (drop_bit 56 v), ucast (drop_bit 48 v), ucast (drop_bit 40 v), ucast (drop_bit 32 v),
      ucast (drop_bit 24 v), ucast (drop_bit 16 v), ucast (drop_bit 8 v), ucast v]"

text \<open>
  Reading is only ever done on a slice that holds enough bytes; the sources read a prefix
  of a longer slice, so the readers ignore what follows.
\<close>

fun get16 :: "bytes \<Rightarrow> u16" where
  "get16 (a # b # _) = push_bit 8 (ucast a) OR ucast b"
| "get16 _ = 0"

fun get32 :: "bytes \<Rightarrow> u32" where
  "get32 (a # b # c # d # _) =
     push_bit 24 (ucast a) OR push_bit 16 (ucast b) OR push_bit 8 (ucast c) OR ucast d"
| "get32 _ = 0"

fun get64 :: "bytes \<Rightarrow> u64" where
  "get64 (a # b # c # d # e # f # g # h # _) =
     push_bit 56 (ucast a) OR push_bit 48 (ucast b) OR push_bit 40 (ucast c) OR
     push_bit 32 (ucast d) OR push_bit 24 (ucast e) OR push_bit 16 (ucast f) OR
     push_bit 8 (ucast g) OR ucast h"
| "get64 _ = 0"

lemma length_be [simp]: "length (be16 v) = 2" "length (be32 w) = 4" "length (be64 x) = 8"
  by (simp_all add: be16_def be32_def be64_def)

lemma be_not_Nil [simp]: "be16 v \<noteq> []" "be32 w \<noteq> []" "be64 x \<noteq> []"
  by (simp_all add: be16_def be32_def be64_def)

text \<open>Reassembling a word byte by byte, from the low end.\<close>

lemma byte_of_word:
  "(ucast (ucast (drop_bit k v) :: byte) :: 'a::len word) = take_bit 8 (drop_bit k (v :: 'a word))"
  by (rule bit_word_eqI) (auto simp: bit_simps)

lemma low_byte_of_word:
  "(ucast (ucast v :: byte) :: 'a::len word) = take_bit 8 (v :: 'a word)"
  by (rule bit_word_eqI) (auto simp: bit_simps)

lemma join_bits:
  "k + m = l \<Longrightarrow> push_bit k (take_bit m (drop_bit k v)) OR take_bit k v = take_bit l (v :: 'a::len word)"
  by (rule bit_word_eqI) (auto simp: bit_simps)

lemmas join_bytes = byte_of_word low_byte_of_word join_bits take_bit_word_eq_self

lemma get16_be16 [simp]: "get16 (be16 v @ rest) = v"
  by (simp add: be16_def join_bytes)

lemma get32_be32 [simp]: "get32 (be32 v @ rest) = v"
  by (simp add: be32_def join_bytes)

lemma get64_be64 [simp]: "get64 (be64 v @ rest) = v"
  by (simp add: be64_def join_bytes)

lemma get_be [simp]: "get16 (be16 v) = v" "get32 (be32 w) = w" "get64 (be64 x) = x"
  using get16_be16 [of v "[]"] get32_be32 [of w "[]"] get64_be64 [of x "[]"] by simp_all

section \<open>CRC-32C (\<open>hash/crc32\<close>, Castagnoli table)\<close>

text \<open>One bit of the reflected polynomial division, the table entry of a byte, \<open>crc32.Update\<close>
  and \<open>crc32.Checksum\<close>.\<close>

definition crc_bit :: "u32 \<Rightarrow> u32" where
  "crc_bit c = (if c AND 1 = 1 then drop_bit 1 c XOR 0x82F63B78 else drop_bit 1 c)"

primrec crc_bits :: "nat \<Rightarrow> u32 \<Rightarrow> u32" where
  "crc_bits 0 c = c"
| "crc_bits (Suc n) c = crc_bits n (crc_bit c)"

definition crc_table :: "byte \<Rightarrow> u32" where
  "crc_table b = crc_bits 8 (ucast b)"

primrec crc_update :: "bytes \<Rightarrow> u32 \<Rightarrow> u32" where
  "crc_update [] c = c"
| "crc_update (v # vs) c = crc_update vs (crc_table (ucast c XOR v) XOR drop_bit 8 c)"

definition crc32c :: "bytes \<Rightarrow> u32" where
  "crc32c data = NOT (crc_update data (NOT 0))"

text \<open>The check value of the algorithm, on the digits 1 to 9.\<close>

lemma crc_bits_8:
  "crc_bits 8 c = crc_bit (crc_bit (crc_bit (crc_bit (crc_bit (crc_bit (crc_bit (crc_bit c)))))))"
  by (simp add: numeral_eq_Suc)

lemma crc32c_init: "crc32c data = crc_update data 0xFFFFFFFF XOR 0xFFFFFFFF"
proof -
  have "NOT x = x XOR - 1" for x :: u32
    by (rule bit_word_eqI) (simp add: bit_simps)
  moreover have "(- 1 :: u32) = 0xFFFFFFFF" by simp
  ultimately show ?thesis by (simp add: crc32c_def)
qed

lemma crc32c_check: "crc32c [0x31, 0x32, 0x33, 0x34, 0x35, 0x36, 0x37, 0x38, 0x39] = 0xE3069283"
  by (simp add: crc32c_init crc_table_def crc_bits_8 crc_bit_def)

text \<open>
  The division is linear, so that a table step is eight bit steps; each is injective.  Two
  inputs of equal length that differ in one byte have different checksums.
\<close>

lemma crc_bit_alt: "crc_bit c = (if bit c 0 then drop_bit 1 c XOR 0x82F63B78 else drop_bit 1 c)"
  by (simp add: crc_bit_def and_one_eq bit_0 odd_iff_mod_2_eq_one)

lemma crc_bit_xor: "crc_bit (a XOR b) = crc_bit a XOR crc_bit b"
  by (simp add: crc_bit_alt bit_simps drop_bit_xor ac_simps flip: xor.assoc)

lemma crc_bits_xor: "crc_bits n (a XOR b) = crc_bits n a XOR crc_bits n b"
  by (induction n arbitrary: a b) (simp_all add: crc_bit_xor)

lemma crc_bits_high: "(\<And>i. i < n \<Longrightarrow> \<not> bit c i) \<Longrightarrow> crc_bits n c = drop_bit n c"
proof (induction n arbitrary: c)
  case 0
  then show ?case by simp
next
  case (Suc n)
  have "\<not> bit c 0" using Suc.prems [of 0] by simp
  then have "crc_bit c = drop_bit 1 c" by (simp add: crc_bit_alt)
  moreover have "crc_bits n (drop_bit 1 c) = drop_bit n (drop_bit 1 c)"
    by (rule Suc.IH) (use Suc.prems in \<open>auto simp: bit_simps\<close>)
  ultimately show ?case by (simp add: drop_bit_drop_bit)
qed

lemma crc_bit_high: "bit (crc_bit c) 31 \<longleftrightarrow> bit c 0"
  by (auto simp: crc_bit_alt bit_simps dest: bit_imp_le_length)

lemma xor_cancel: "a XOR c = b XOR c \<longleftrightarrow> a = (b :: 'a::len word)"
  by (metis xor.assoc xor_self_eq xor.right_neutral)

lemma xor_cancel_left: "c XOR a = c XOR b \<longleftrightarrow> a = (b :: 'a::len word)"
  using xor_cancel [of a c b] by (simp add: ac_simps)

lemma crc_bit_inj: "crc_bit a = crc_bit b \<Longrightarrow> a = b"
proof -
  assume eq: "crc_bit a = crc_bit b"
  then have low: "bit a 0 \<longleftrightarrow> bit b 0" using crc_bit_high by metis
  with eq have "drop_bit 1 a = drop_bit 1 b"
    by (auto simp: crc_bit_alt xor_cancel split: if_splits)
  then have "bit (drop_bit 1 a) n \<longleftrightarrow> bit (drop_bit 1 b) n" for n
    by simp
  then have high: "bit a (Suc n) \<longleftrightarrow> bit b (Suc n)" for n
    by (simp add: bit_simps)
  show "a = b"
  proof (rule bit_word_eqI)
    fix n show "bit a n \<longleftrightarrow> bit b n"
      using low high by (cases n) simp_all
  qed
qed

lemma crc_bits_inj: "crc_bits n a = crc_bits n b \<Longrightarrow> a = b"
  by (induction n arbitrary: a b) (auto dest: crc_bit_inj)

lemma crc_step_bits: "crc_table (ucast c XOR v) XOR drop_bit 8 c = crc_bits 8 (c XOR ucast v)"
proof -
  let ?low = "ucast (ucast c XOR v) :: u32" and ?high = "c XOR take_bit 8 c"
  have "c XOR ucast v = ?low XOR ?high"
    by (rule bit_word_eqI) (auto simp: bit_simps)
  moreover have "crc_bits 8 ?high = drop_bit 8 ?high"
    by (rule crc_bits_high) (simp add: bit_simps)
  moreover have "drop_bit 8 ?high = drop_bit 8 c"
    by (rule bit_word_eqI) (auto simp: bit_simps)
  ultimately show ?thesis
    by (simp add: crc_bits_xor crc_table_def)
qed

lemma crc_update_inj: "crc_update vs a = crc_update vs b \<Longrightarrow> a = b"
proof (induction vs arbitrary: a b)
  case (Cons v vs)
  then have "crc_bits 8 (a XOR ucast v) = crc_bits 8 (b XOR ucast v)"
    by (simp add: crc_step_bits)
  then have "a XOR ucast v = b XOR ucast v"
    by (rule crc_bits_inj)
  then show ?case
    by (simp add: xor_cancel)
qed simp

lemma crc_update_append: "crc_update (xs @ ys) c = crc_update ys (crc_update xs c)"
  by (induction xs arbitrary: c) simp_all

lemma crc32c_one_byte:
  assumes "v \<noteq> w"
  shows "crc32c (xs @ v # ys) \<noteq> crc32c (xs @ w # ys)"
proof
  assume "crc32c (xs @ v # ys) = crc32c (xs @ w # ys)"
  then have "crc_update (v # ys) (crc_update xs (NOT 0)) = crc_update (w # ys) (crc_update xs (NOT 0))"
    by (simp add: crc32c_def crc_update_append)
  then have "crc_bits 8 (crc_update xs (NOT 0) XOR ucast v) = crc_bits 8 (crc_update xs (NOT 0) XOR ucast w)"
    unfolding crc_update.simps crc_step_bits by (rule crc_update_inj)
  then have "crc_update xs (NOT 0) XOR ucast v = crc_update xs (NOT 0) XOR (ucast w :: u32)"
    by (rule crc_bits_inj)
  then have "(ucast v :: u32) = ucast w"
    by (simp add: xor_cancel_left)
  then have "(ucast (ucast v :: u32) :: byte) = ucast (ucast w :: u32)"
    by simp
  moreover have "(ucast (ucast x :: u32) :: byte) = x" for x
    by (rule bit_word_eqI) (auto simp: bit_simps)
  ultimately have "v = w" by simp
  with assms show False by simp
qed

end
