(* ===== verification/Varint.thy ===== *)
theory Varint
  imports Prelude
begin

text \<open>
  Variable-length integers of Go's \<open>encoding/binary\<close>, which \<open>internal/protocol\<close> and
  \<open>internal/log\<close> call: base-128 groups, low group first (\<open>PutUvarint\<close>, \<open>Uvarint\<close>), and
  the zigzag mapping of signed values (\<open>PutVarint\<close>, \<open>Varint\<close>).  Proved: reading back
  what was written, whatever follows it, and the ten-byte bound on a written value.
\<close>

section \<open>Writing and reading\<close>

lemma unat_drop7: "unat (drop_bit 7 (x :: u64)) = unat x div 128"
  by (simp add: drop_bit_eq_div unat_div)

function put_uvarint :: "u64 \<Rightarrow> bytes" where
  "put_uvarint x =
     (if x \<ge> 0x80 then (ucast x OR 0x80) # put_uvarint (drop_bit 7 x) else [ucast x])"
  by pat_completeness auto

termination
  by (relation "measure unat") (auto simp: unat_drop7 word_le_nat_alt)

declare put_uvarint.simps [simp del]

lemma put_uvarint_more: "x \<ge> 0x80 \<Longrightarrow> put_uvarint x = (ucast x OR 0x80) # put_uvarint (drop_bit 7 x)"
  by (simp add: put_uvarint.simps [of x])

lemma put_uvarint_last: "\<not> x \<ge> 0x80 \<Longrightarrow> put_uvarint x = [ucast x]"
  by (simp add: put_uvarint.simps [of x])

text \<open>
  \<open>Uvarint\<close>: the value and the number of bytes read; a count of 0 means the buffer ended
  first, a negative count an overflow (\<open>MaxVarintLen64\<close> is 10).
\<close>

fun uvarint_loop :: "bytes \<Rightarrow> nat \<Rightarrow> u64 \<Rightarrow> nat \<Rightarrow> u64 \<times> int" where
  "uvarint_loop [] i x s = (0, 0)"
| "uvarint_loop (b # bs) i x s =
     (if i = 10 then (0, - (int i + 1))
      else if b < 0x80 then
        (if i = 9 \<and> b > 1 then (0, - (int i + 1)) else (x OR push_bit s (ucast b), int i + 1))
      else uvarint_loop bs (i + 1) (x OR push_bit s (ucast (b AND 0x7f))) (s + 7))"

definition uvarint :: "bytes \<Rightarrow> u64 \<times> int" where
  "uvarint buf = uvarint_loop buf 0 0 0"

definition zigzag :: "i64 \<Rightarrow> u64" where
  "zigzag x = (let ux = push_bit 1 x in if sint x < 0 then NOT ux else ux)"

definition unzigzag :: "u64 \<Rightarrow> i64" where
  "unzigzag ux = (let x = drop_bit 1 ux in if ux AND 1 \<noteq> 0 then NOT x else x)"

definition put_varint :: "i64 \<Rightarrow> bytes" where
  "put_varint x = put_uvarint (zigzag x)"

definition varint :: "bytes \<Rightarrow> i64 \<times> int" where
  "varint buf = (let (ux, n) = uvarint buf in (unzigzag ux, n))"

section \<open>Reading back\<close>

lemma cont_low: "ucast ((ucast v OR 0x80) AND 0x7f :: byte) = take_bit 7 (v :: u64)"
proof -
  have "(ucast v OR 0x80) AND 0x7f = take_bit 7 (ucast v OR 0x80 :: byte)"
    by (simp add: take_bit_eq_mask mask_eq_exp_minus_1)
  also have "\<dots> = take_bit 7 (ucast v)"
    by (simp add: take_bit_or)
  finally show ?thesis
    by (auto simp: bit_simps intro!: bit_word_eqI)
qed

lemma cont_high: "\<not> (ucast (v :: u64) OR 0x80 :: byte) < 0x80"
  using le_word_or1 [of "0x80 :: byte" "ucast v"] by (simp add: not_less)

lemma last_byte:
  assumes "v < (0x80 :: u64)"
  shows "ucast (ucast v :: byte) = v" "unat (ucast v :: byte) = unat v" "(ucast v :: byte) < 0x80"
proof -
  have v: "unat v < 128" using assms by (simp add: word_less_nat_alt)
  show u: "unat (ucast v :: byte) = unat v"
    using v by (simp add: unsigned_ucast_eq take_bit_nat_eq_self)
  show "ucast (ucast v :: byte) = v"
    using v by (simp add: low_byte_of_word word_unat_eq_iff unsigned_take_bit_eq take_bit_nat_eq_self)
  show "(ucast v :: byte) < 0x80" using u v by (simp add: word_less_nat_alt)
qed

lemma push_split: "push_bit s (take_bit 7 v) OR push_bit (s + 7) (drop_bit 7 v) = push_bit s (v :: u64)"
proof -
  have "take_bit 7 v OR push_bit 7 (drop_bit 7 v) = v"
    using join_bits [of 7 64 71 v] by (simp add: take_bit_word_eq_self or.commute)
  then show ?thesis
    by (metis push_bit_or push_bit_push_bit)
qed

text \<open>After the first group the rest of the value fits in seven bits less.\<close>

lemma drop7_bound:
  assumes "v \<ge> (0x80 :: u64)" and "i \<le> 9" and "unat v < 2 ^ (64 - 7 * i)"
  shows "i \<le> 8" and "unat (drop_bit 7 v) < 2 ^ (64 - 7 * (i + 1))"
proof -
  have v: "128 \<le> unat v" using assms(1) by (simp add: word_le_nat_alt)
  show i8: "i \<le> 8"
  proof (rule ccontr)
    assume "\<not> i \<le> 8"
    with assms(2) have "i = 9" by simp
    with assms(3) v show False by simp
  qed
  define e where "e = 64 - 7 * (i + 1)"
  have e: "64 - 7 * i = 7 + e" using i8 by (simp add: e_def)
  have "unat v < 2 ^ e * 128"
    using assms(3) unfolding e power_add by simp
  then show "unat (drop_bit 7 v) < 2 ^ (64 - 7 * (i + 1))"
    unfolding unat_drop7 e_def [symmetric] by (rule less_mult_imp_div_less)
qed

lemma uvarint_loop_put:
  "i \<le> 9 \<Longrightarrow> s = 7 * i \<Longrightarrow> unat v < 2 ^ (64 - 7 * i) \<Longrightarrow>
   uvarint_loop (put_uvarint v @ rest) i x s =
     (x OR push_bit s v, int i + int (length (put_uvarint v)))"
proof (induction v arbitrary: i x s rule: put_uvarint.induct)
  case (1 v)
  show ?case
  proof (cases "v \<ge> 0x80")
    case True
    note b = drop7_bound [OF True "1.prems"(1,3)]
    show ?thesis
      using "1.IH" [OF True, of "i + 1" "s + 7"] b "1.prems"(2) push_split [of s v]
      by (simp add: put_uvarint_more [OF True] cont_low cont_high or.assoc)
  next
    case False
    then have v: "v < 0x80" by simp
    have "i = 9 \<Longrightarrow> \<not> (ucast v :: byte) > 1"
      using "1.prems"(3) last_byte(2) [OF v] by (simp add: word_less_nat_alt not_less)
    with v "1.prems"(1) show ?thesis
      by (simp add: put_uvarint_last [OF False] last_byte)
  qed
qed

lemma unat_bound: "unat (v :: u64) < 2 ^ (64 - 7 * 0)"
  using unsigned_less [of v, where 'a = nat] by simp

lemma uvarint_put_uvarint [simp]:
  "uvarint (put_uvarint v @ rest) = (v, int (length (put_uvarint v)))"
  using uvarint_loop_put [OF _ _ unat_bound, of 0 v rest 0] by (simp add: uvarint_def)

lemma put_uvarint_not_Nil [simp]: "put_uvarint v \<noteq> []"
  by (simp add: put_uvarint.simps [of v])

lemma length_put_uvarint_bound:
  "i \<le> 9 \<Longrightarrow> unat v < 2 ^ (64 - 7 * i) \<Longrightarrow> length (put_uvarint v) \<le> 10 - i"
proof (induction v arbitrary: i rule: put_uvarint.induct)
  case (1 v)
  show ?case
  proof (cases "v \<ge> 0x80")
    case True
    note b = drop7_bound [OF True "1.prems"]
    from "1.IH" [OF True _ b(2)] b(1) show ?thesis
      by (simp add: put_uvarint_more [OF True])
  next
    case False
    with "1.prems" show ?thesis by (simp add: put_uvarint_last)
  qed
qed

lemma length_put_uvarint: "length (put_uvarint v) \<le> 10"
  using length_put_uvarint_bound [OF _ unat_bound] by simp

lemma and_one_iff_bit: "(u AND 1 \<noteq> 0) \<longleftrightarrow> bit (u :: u64) 0"
  by (simp add: and_one_eq bit_0 odd_iff_mod_2_eq_one)

lemma sint_neg_iff_bit: "sint (x :: i64) < 0 \<longleftrightarrow> bit x 63"
  using bit_last_iff [of x] by simp

lemma bit_zigzag: "bit (zigzag x) n \<longleftrightarrow> n < 64 \<and> ((1 \<le> n \<and> bit x (n - 1)) \<noteq> bit x 63)"
  unfolding zigzag_def Let_def sint_neg_iff_bit
  by (cases "bit x 63"; simp only: if_True if_False bit_simps possible_bit_word) auto

lemma bit_unzigzag: "bit (unzigzag u) n \<longleftrightarrow> n < 64 \<and> (bit u (1 + n) \<noteq> bit u 0)"
  unfolding unzigzag_def Let_def and_one_iff_bit
  by (cases "bit u 0"; simp only: if_True if_False bit_simps possible_bit_word) (auto dest: bit_imp_le_length)

lemma unzigzag_zigzag [simp]: "unzigzag (zigzag x) = x"
proof (rule bit_word_eqI)
  fix n assume "n < LENGTH(64)"
  then show "bit (unzigzag (zigzag x)) n = bit x n"
    by (cases "n = 63") (auto simp: bit_zigzag bit_unzigzag)
qed

lemma varint_put_varint [simp]:
  "varint (put_varint v @ rest) = (v, int (length (put_varint v)))"
  by (simp add: varint_def put_varint_def)

lemma put_varint_not_Nil [simp]: "put_varint v \<noteq> []"
  by (simp add: put_varint_def)

lemma length_put_varint_le: "length (put_varint v) \<le> 10"
  by (simp add: put_varint_def length_put_uvarint)

end
