(* ===== verification/Wire.thy ===== *)
theory Wire
  imports Varint
begin

text \<open>
  The byte-level codec of \<open>internal/protocol\<close>: the append-only \<open>Encoder\<close>
  (\<open>encoder.go\<close>) and the cursor \<open>Decoder\<close> with its sticky error (\<open>decoder.go\<close>).

  A decoder operation returns its value with the new decoder; \<^const>\<open>None\<close> is a run-time
  panic (a slice expression out of range), which is not the sticky error.  Positions are
  Go \<open>int\<close>s and wrap.  The locale \<open>codec\<close> states what a reader promises about bytes a
  writer produced, and carries the one induction over repeated elements.
\<close>

section \<open>Encoder\<close>

record Encoder =
  e_b :: bytes

definition NewEncoder :: Encoder where
  "NewEncoder = \<lparr>e_b = []\<rparr>"

definition PutInt8 :: "Encoder \<Rightarrow> i8 \<Rightarrow> Encoder" where
  "PutInt8 e v = e\<lparr>e_b := e_b e @ [v]\<rparr>"

definition PutInt16 :: "Encoder \<Rightarrow> i16 \<Rightarrow> Encoder" where
  "PutInt16 e v = e\<lparr>e_b := e_b e @ be16 v\<rparr>"

definition PutInt32 :: "Encoder \<Rightarrow> i32 \<Rightarrow> Encoder" where
  "PutInt32 e v = e\<lparr>e_b := e_b e @ be32 v\<rparr>"

definition PutInt64 :: "Encoder \<Rightarrow> i64 \<Rightarrow> Encoder" where
  "PutInt64 e v = e\<lparr>e_b := e_b e @ be64 v\<rparr>"

definition PutUint32 :: "Encoder \<Rightarrow> u32 \<Rightarrow> Encoder" where
  "PutUint32 e v = e\<lparr>e_b := e_b e @ be32 v\<rparr>"

definition PutBool :: "Encoder \<Rightarrow> bool \<Rightarrow> Encoder" where
  "PutBool e v = (if v then e\<lparr>e_b := e_b e @ [1]\<rparr> else e\<lparr>e_b := e_b e @ [0]\<rparr>)"

definition PutUvarint :: "Encoder \<Rightarrow> u64 \<Rightarrow> Encoder" where
  "PutUvarint e v = e\<lparr>e_b := e_b e @ put_uvarint v\<rparr>"

definition PutVarint :: "Encoder \<Rightarrow> i64 \<Rightarrow> Encoder" where
  "PutVarint e v = e\<lparr>e_b := e_b e @ put_varint v\<rparr>"

definition PutRawBytes :: "Encoder \<Rightarrow> bytes \<Rightarrow> Encoder" where
  "PutRawBytes e b = e\<lparr>e_b := e_b e @ b\<rparr>"

text \<open>\<open>int16(len(s))\<close>, \<open>int32(len(b))\<close> and \<open>uint64(len(s)) + 1\<close> truncate or wrap.\<close>

definition PutString :: "Encoder \<Rightarrow> gostring \<Rightarrow> Encoder" where
  "PutString e s =
     (let e = PutInt16 e (word_of_nat (length s)) in e\<lparr>e_b := e_b e @ s\<rparr>)"

definition PutNullableString :: "Encoder \<Rightarrow> gostring option \<Rightarrow> Encoder" where
  "PutNullableString e s = (case s of None \<Rightarrow> PutInt16 e (- 1) | Some t \<Rightarrow> PutString e t)"

definition PutCompactString :: "Encoder \<Rightarrow> gostring \<Rightarrow> Encoder" where
  "PutCompactString e s =
     (let e = PutUvarint e (word_of_nat (length s) + 1) in e\<lparr>e_b := e_b e @ s\<rparr>)"

definition PutCompactNullableString :: "Encoder \<Rightarrow> gostring option \<Rightarrow> Encoder" where
  "PutCompactNullableString e s =
     (case s of None \<Rightarrow> PutUvarint e 0 | Some t \<Rightarrow> PutCompactString e t)"

definition PutBytes :: "Encoder \<Rightarrow> bytes \<Rightarrow> Encoder" where
  "PutBytes e b =
     (let e = PutInt32 e (word_of_nat (length b)) in e\<lparr>e_b := e_b e @ b\<rparr>)"

definition PutNullableBytes :: "Encoder \<Rightarrow> bytes option \<Rightarrow> Encoder" where
  "PutNullableBytes e b = (case b of None \<Rightarrow> PutInt32 e (- 1) | Some c \<Rightarrow> PutBytes e c)"

definition PutCompactBytes :: "Encoder \<Rightarrow> bytes \<Rightarrow> Encoder" where
  "PutCompactBytes e b =
     (let e = PutUvarint e (word_of_nat (length b) + 1) in e\<lparr>e_b := e_b e @ b\<rparr>)"

definition PutArrayLen :: "Encoder \<Rightarrow> i32 \<Rightarrow> Encoder" where
  "PutArrayLen e n = PutInt32 e n"

definition PutCompactArrayLen :: "Encoder \<Rightarrow> nat \<Rightarrow> Encoder" where
  "PutCompactArrayLen e n = PutUvarint e (word_of_nat n + 1)"

definition PutTaggedFields :: "Encoder \<Rightarrow> Encoder" where
  "PutTaggedFields e = PutUvarint e 0"

definition ReserveInt32 :: "Encoder \<Rightarrow> int \<times> Encoder" where
  "ReserveInt32 e = (int (length (e_b e)), e\<lparr>e_b := e_b e @ [0, 0, 0, 0]\<rparr>)"

text \<open>\<open>FillInt32\<close> writes through \<open>e.b[pos:]\<close>: a panic when fewer than four bytes are there.\<close>

definition FillInt32 :: "Encoder \<Rightarrow> int \<Rightarrow> i32 \<Rightarrow> Encoder option" where
  "FillInt32 e pos v =
     do {
       s \<leftarrow> go_slice_from (e_b e) pos;
       if length s < 4 then None
       else Some (e\<lparr>e_b := take (nat pos) (e_b e) @ be32 v @ drop 4 s\<rparr>)
     }"

definition Bytes :: "Encoder \<Rightarrow> bytes" where
  "Bytes e = e_b e"

definition Len :: "Encoder \<Rightarrow> int" where
  "Len e = int (length (e_b e))"

definition Reset :: "Encoder \<Rightarrow> Encoder" where
  "Reset e = e\<lparr>e_b := []\<rparr>"

text \<open>The bytes each variable-length operation appends.\<close>

definition str_bytes :: "gostring \<Rightarrow> bytes" where
  "str_bytes s = be16 (word_of_nat (length s)) @ s"

definition nstr_bytes :: "gostring option \<Rightarrow> bytes" where
  "nstr_bytes s = (case s of None \<Rightarrow> be16 (- 1) | Some t \<Rightarrow> str_bytes t)"

definition cstr_bytes :: "gostring \<Rightarrow> bytes" where
  "cstr_bytes s = put_uvarint (word_of_nat (length s) + 1) @ s"

definition cnstr_bytes :: "gostring option \<Rightarrow> bytes" where
  "cnstr_bytes s = (case s of None \<Rightarrow> put_uvarint 0 | Some t \<Rightarrow> cstr_bytes t)"

definition nbytes_bytes :: "bytes option \<Rightarrow> bytes" where
  "nbytes_bytes b =
     (case b of None \<Rightarrow> be32 (- 1) | Some c \<Rightarrow> be32 (word_of_nat (length c)) @ c)"

lemma put_bytes_lemmas [put_bytes]:
  "e_b NewEncoder = []"
  "e_b (PutInt8 e v8) = e_b e @ [v8]"
  "e_b (PutInt16 e v16) = e_b e @ be16 v16"
  "e_b (PutInt32 e v32) = e_b e @ be32 v32"
  "e_b (PutInt64 e v64) = e_b e @ be64 v64"
  "e_b (PutUint32 e v32) = e_b e @ be32 v32"
  "e_b (PutBool e b) = e_b e @ [if b then 1 else 0]"
  "e_b (PutUvarint e u) = e_b e @ put_uvarint u"
  "e_b (PutVarint e v64) = e_b e @ put_varint v64"
  "e_b (PutRawBytes e bs) = e_b e @ bs"
  "e_b (PutString e s) = e_b e @ str_bytes s"
  "e_b (PutNullableString e ns) = e_b e @ nstr_bytes ns"
  "e_b (PutCompactString e s) = e_b e @ cstr_bytes s"
  "e_b (PutCompactNullableString e ns) = e_b e @ cnstr_bytes ns"
  "e_b (PutBytes e bs) = e_b e @ be32 (word_of_nat (length bs)) @ bs"
  "e_b (PutNullableBytes e nb) = e_b e @ nbytes_bytes nb"
  "e_b (PutArrayLen e v32) = e_b e @ be32 v32"
  "e_b (PutCompactArrayLen e n) = e_b e @ put_uvarint (word_of_nat n + 1)"
  "e_b (PutTaggedFields e) = e_b e @ put_uvarint 0"
  by (simp_all add: NewEncoder_def PutInt8_def PutInt16_def PutInt32_def PutInt64_def PutUint32_def
      PutBool_def PutUvarint_def PutVarint_def PutRawBytes_def PutString_def str_bytes_def
      PutNullableString_def nstr_bytes_def PutCompactString_def cstr_bytes_def
      PutCompactNullableString_def cnstr_bytes_def PutBytes_def PutNullableBytes_def
      nbytes_bytes_def PutArrayLen_def PutCompactArrayLen_def PutTaggedFields_def
      split: option.splits)

text \<open>
  The array idiom of every message: the length as an INT32, then a loop over the elements.
\<close>

definition PutArray :: "(Encoder \<Rightarrow> 'a \<Rightarrow> Encoder) \<Rightarrow> Encoder \<Rightarrow> 'a list \<Rightarrow> Encoder" where
  "PutArray put e xs = foldl put (PutArrayLen e (word_of_nat (length xs))) xs"

definition array_bytes :: "('a \<Rightarrow> bytes) \<Rightarrow> 'a list \<Rightarrow> bytes" where
  "array_bytes put xs = be32 (word_of_nat (length xs)) @ concat (map put xs)"

text \<open>A \<open>for\<close> loop that appends once per element appends the concatenation.\<close>

lemma foldl_put:
  assumes "\<And>e x. e_b (f e x) = e_b e @ g x"
  shows "e_b (foldl f e xs) = e_b e @ concat (map g xs)"
  by (induction xs arbitrary: e) (simp_all add: assms)

lemma e_b_PutArray:
  assumes "\<And>e x. e_b (f e x) = e_b e @ g x"
  shows "e_b (PutArray f e xs) = e_b e @ array_bytes g xs"
  by (simp add: PutArray_def array_bytes_def foldl_put [OF assms] put_bytes)

text \<open>A field present from some version on.\<close>

definition bytes_if :: "bool \<Rightarrow> bytes \<Rightarrow> bytes" where
  "bytes_if b xs = (if b then xs else [])"

text \<open>Reserving four bytes and filling them later is writing the value first.\<close>

lemma fill_reserved:
  assumes "ReserveInt32 e = (pos, e')"
  shows "FillInt32 (PutRawBytes e' body) pos v = Some (PutRawBytes (PutInt32 e v) body)"
  using assms
  by (auto simp: ReserveInt32_def FillInt32_def PutRawBytes_def PutInt32_def go_slice_from_def go_slice_def)

section \<open>Decoder\<close>

datatype DecodeError =
    ShortBuffer int int int \<comment> \<open>bytes needed, offset, buffer length\<close>
  | UvarintFailed int
  | VarintFailed int

record Decoder =
  d_buf :: bytes
  d_pos :: int
  d_err :: "DecodeError option"

definition NewDecoder :: "bytes \<Rightarrow> Decoder" where
  "NewDecoder buf = \<lparr>d_buf = buf, d_pos = 0, d_err = None\<rparr>"

definition Remaining :: "Decoder \<Rightarrow> int" where
  "Remaining d = wrap64 (int (length (d_buf d)) - d_pos d)"

definition Offset :: "Decoder \<Rightarrow> int" where
  "Offset d = d_pos d"

definition require :: "Decoder \<Rightarrow> int \<Rightarrow> bool \<times> Decoder" where
  "require d n =
     (if d_err d \<noteq> None then (False, d)
      else if wrap64 (d_pos d + n) > int (length (d_buf d))
      then (False, d\<lparr>d_err := Some (ShortBuffer n (d_pos d) (int (length (d_buf d))))\<rparr>)
      else (True, d))"

definition advance :: "Decoder \<Rightarrow> int \<Rightarrow> Decoder" where
  "advance d n = d\<lparr>d_pos := wrap64 (d_pos d + n)\<rparr>"

text \<open>\<open>binary.BigEndian.UintN(b)\<close> panics when \<open>b\<close> is too short.\<close>

definition be_Uint16 :: "bytes \<Rightarrow> u16 option" where
  "be_Uint16 b = (if length b < 2 then None else Some (get16 b))"

definition be_Uint32 :: "bytes \<Rightarrow> u32 option" where
  "be_Uint32 b = (if length b < 4 then None else Some (get32 b))"

definition be_Uint64 :: "bytes \<Rightarrow> u64 option" where
  "be_Uint64 b = (if length b < 8 then None else Some (get64 b))"

definition Int8 :: "Decoder \<Rightarrow> (i8 \<times> Decoder) option" where
  "Int8 d =
     (let (ok, d) = require d 1 in
      if \<not> ok then Some (0, d)
      else do { v \<leftarrow> go_index (d_buf d) (d_pos d); Some (v, advance d 1) })"

definition Int16 :: "Decoder \<Rightarrow> (i16 \<times> Decoder) option" where
  "Int16 d =
     (let (ok, d) = require d 2 in
      if \<not> ok then Some (0, d)
      else do { s \<leftarrow> go_slice_from (d_buf d) (d_pos d); v \<leftarrow> be_Uint16 s; Some (v, advance d 2) })"

definition Int32 :: "Decoder \<Rightarrow> (i32 \<times> Decoder) option" where
  "Int32 d =
     (let (ok, d) = require d 4 in
      if \<not> ok then Some (0, d)
      else do { s \<leftarrow> go_slice_from (d_buf d) (d_pos d); v \<leftarrow> be_Uint32 s; Some (v, advance d 4) })"

definition Int64 :: "Decoder \<Rightarrow> (i64 \<times> Decoder) option" where
  "Int64 d =
     (let (ok, d) = require d 8 in
      if \<not> ok then Some (0, d)
      else do { s \<leftarrow> go_slice_from (d_buf d) (d_pos d); v \<leftarrow> be_Uint64 s; Some (v, advance d 8) })"

definition Uint32 :: "Decoder \<Rightarrow> (u32 \<times> Decoder) option" where
  "Uint32 d =
     (let (ok, d) = require d 4 in
      if \<not> ok then Some (0, d)
      else do { s \<leftarrow> go_slice_from (d_buf d) (d_pos d); v \<leftarrow> be_Uint32 s; Some (v, advance d 4) })"

definition Bool :: "Decoder \<Rightarrow> (bool \<times> Decoder) option" where
  "Bool d = do { (v, d) \<leftarrow> Int8 d; Some (v \<noteq> 0, d) }"

definition Uvarint :: "Decoder \<Rightarrow> (u64 \<times> Decoder) option" where
  "Uvarint d =
     (if d_err d \<noteq> None then Some (0, d)
      else do {
        s \<leftarrow> go_slice_from (d_buf d) (d_pos d);
        let (v, n) = uvarint s in
        if n \<le> 0 then Some (0, d\<lparr>d_err := Some (UvarintFailed (d_pos d))\<rparr>)
        else Some (v, advance d n)
      })"

definition Varint :: "Decoder \<Rightarrow> (i64 \<times> Decoder) option" where
  "Varint d =
     (if d_err d \<noteq> None then Some (0, d)
      else do {
        s \<leftarrow> go_slice_from (d_buf d) (d_pos d);
        let (v, n) = varint s in
        if n \<le> 0 then Some (0, d\<lparr>d_err := Some (VarintFailed (d_pos d))\<rparr>)
        else Some (v, advance d n)
      })"

text \<open>The read shared by the string and byte operations: \<open>require\<close>, slice, advance.\<close>

definition take_span :: "Decoder \<Rightarrow> int \<Rightarrow> (bytes option \<times> Decoder) option" where
  "take_span d n =
     (let (ok, d) = require d n in
      if \<not> ok then Some (None, d)
      else do { s \<leftarrow> go_slice (d_buf d) (d_pos d) (wrap64 (d_pos d + n)); Some (Some s, advance d n) })"

definition String :: "Decoder \<Rightarrow> (gostring \<times> Decoder) option" where
  "String d =
     do {
       (v, d) \<leftarrow> Int16 d;
       let n = sint v in
       if d_err d \<noteq> None \<or> n < 0 then Some ([], d)
       else do { (s, d) \<leftarrow> take_span d n; Some (case s of None \<Rightarrow> [] | Some t \<Rightarrow> t, d) }
     }"

definition NullableString :: "Decoder \<Rightarrow> (gostring option \<times> Decoder) option" where
  "NullableString d =
     do {
       (n, d) \<leftarrow> Int16 d;
       if d_err d \<noteq> None then Some (None, d)
       else if sint n < 0 then Some (None, d)
       else take_span d (sint n)
     }"

definition CompactString :: "Decoder \<Rightarrow> (gostring \<times> Decoder) option" where
  "CompactString d =
     do {
       (raw, d) \<leftarrow> Uvarint d;
       if d_err d \<noteq> None then Some ([], d)
       else if raw = 0 then Some ([], d)
       else do {
         (s, d) \<leftarrow> take_span d (wrap64 (sint raw - 1));
         Some (case s of None \<Rightarrow> [] | Some t \<Rightarrow> t, d)
       }
     }"

definition CompactNullableString :: "Decoder \<Rightarrow> (gostring option \<times> Decoder) option" where
  "CompactNullableString d =
     do {
       (raw, d) \<leftarrow> Uvarint d;
       if d_err d \<noteq> None then Some (None, d)
       else if raw = 0 then Some (None, d)
       else take_span d (wrap64 (sint raw - 1))
     }"

definition NullableBytes :: "Decoder \<Rightarrow> (bytes option \<times> Decoder) option" where
  "NullableBytes d =
     do {
       (n, d) \<leftarrow> Int32 d;
       if d_err d \<noteq> None then Some (None, d)
       else if sint n < 0 then Some (None, d)
       else take_span d (sint n)
     }"

definition RawBytes :: "Decoder \<Rightarrow> int \<Rightarrow> (bytes option \<times> Decoder) option" where
  "RawBytes d n = take_span d n"

definition ArrayLen :: "Decoder \<Rightarrow> (i32 \<times> Decoder) option" where
  "ArrayLen d = Int32 d"

definition CompactArrayLen :: "Decoder \<Rightarrow> (int \<times> Decoder) option" where
  "CompactArrayLen d =
     do {
       (v, d) \<leftarrow> Uvarint d;
       if v = 0 then Some (- 1, d) else Some (wrap64 (sint v - 1), d)
     }"

fun discard_tagged :: "nat \<Rightarrow> Decoder \<Rightarrow> Decoder option" where
  "discard_tagged 0 d = Some d"
| "discard_tagged (Suc k) d =
     do {
       (_, d) \<leftarrow> Uvarint d;
       (len, d) \<leftarrow> Uvarint d;
       (let (ok, d) = require d (sint len) in
        if \<not> ok then Some d else discard_tagged k (advance d (sint len)))
     }"

definition DiscardTaggedFields :: "Decoder \<Rightarrow> Decoder option" where
  "DiscardTaggedFields d =
     (if d_err d \<noteq> None then Some d
      else do { (numFields, d) \<leftarrow> Uvarint d; discard_tagged (unat numFields) d })"

text \<open>\<open>for i := range xs\<close> over a slice of \<open>n\<close> elements that the body fills in.\<close>

fun decode_n :: "nat \<Rightarrow> (Decoder \<Rightarrow> ('a \<times> Decoder) option) \<Rightarrow> Decoder \<Rightarrow> ('a list \<times> Decoder) option" where
  "decode_n 0 f d = Some ([], d)"
| "decode_n (Suc n) f d = do { (x, d) \<leftarrow> f d; (xs, d) \<leftarrow> decode_n n f d; Some (x # xs, d) }"

text \<open>A field that older versions lack, with the value it then has.\<close>

definition read_if :: "bool \<Rightarrow> (Decoder \<Rightarrow> ('a \<times> Decoder) option) \<Rightarrow> 'a \<Rightarrow> Decoder \<Rightarrow> ('a \<times> Decoder) option" where
  "read_if b get z d = (if b then get d else Some (z, d))"

text \<open>\<open>n := max(d.ArrayLen(), 0); xs := make([]T, n)\<close> and the loop that fills \<open>xs\<close>.\<close>

definition decode_array :: "(Decoder \<Rightarrow> ('a \<times> Decoder) option) \<Rightarrow> Decoder \<Rightarrow> ('a list \<times> Decoder) option" where
  "decode_array get d = do { (n, d) \<leftarrow> ArrayLen d; decode_n (nat (max (sint n) 0)) get d }"

section \<open>A decoder between what was read and what is left\<close>

definition dec_at :: "bytes \<Rightarrow> bytes \<Rightarrow> Decoder" where
  "dec_at pre post = \<lparr>d_buf = pre @ post, d_pos = int (length pre), d_err = None\<rparr>"

lemma NewDecoder_at: "NewDecoder b = dec_at [] b"
  by (simp add: NewDecoder_def dec_at_def)

lemma Offset_at [simp]: "Offset (dec_at pre post) = int (length pre)"
  by (simp add: Offset_def dec_at_def)

lemma d_err_at [simp]: "d_err (dec_at pre post) = None"
  by (simp add: dec_at_def)

lemma wrap64_len: "fits (pre @ xs @ post) \<Longrightarrow>
    wrap64 (int (length pre) + int (length xs)) = int (length pre) + int (length xs)"
  by (rule wrap64_id) (auto simp: fits_def)

lemma require_at:
  assumes "fits (pre @ xs @ post)" and "n = int (length xs)"
  shows "require (dec_at pre (xs @ post)) n = (True, dec_at pre (xs @ post))"
  using assms wrap64_len [OF assms(1)] by (simp add: require_def dec_at_def)

lemma advance_at:
  assumes "fits (pre @ xs @ post)" and "n = int (length xs)"
  shows "advance (dec_at pre (xs @ post)) n = dec_at (pre @ xs) post"
  using assms wrap64_len [OF assms(1)] by (simp add: advance_def dec_at_def)

lemma take_span_at:
  assumes "fits (pre @ xs @ post)" and "n = int (length xs)"
  shows "take_span (dec_at pre (xs @ post)) n = Some (Some xs, dec_at (pre @ xs) post)"
proof -
  have "wrap64 (int (length pre) + n) = int (length pre) + n"
    using wrap64_len [OF assms(1)] assms(2) by simp
  then show ?thesis
    by (simp add: take_span_def require_at [OF assms] advance_at [OF assms])
      (simp add: dec_at_def assms(2))
qed

section \<open>The codec interface\<close>

text \<open>
  What a reader \<open>get\<close> promises about the bytes of a writer \<open>put\<close>: wherever they stand in
  a buffer, it consumes exactly them and yields \<open>view x\<close>, the part of \<open>x\<close> the wire format
  carries, provided \<open>x\<close> is representable (\<open>okv x\<close>).
\<close>

locale codec =
  fixes put :: "'a \<Rightarrow> bytes"
    and get :: "Decoder \<Rightarrow> ('b \<times> Decoder) option"
    and okv :: "'a \<Rightarrow> bool"
    and view :: "'a \<Rightarrow> 'b"
  assumes get_put: "okv x \<Longrightarrow> fits (pre @ put x @ post) \<Longrightarrow>
    get (dec_at pre (put x @ post)) = Some (view x, dec_at (pre @ put x) post)"
begin

lemma decode_n_put:
  "list_all okv xs \<Longrightarrow> fits (pre @ concat (map put xs) @ post) \<Longrightarrow> n = length xs \<Longrightarrow>
   decode_n n get (dec_at pre (concat (map put xs) @ post)) =
     Some (map view xs, dec_at (pre @ concat (map put xs)) post)"
proof (induction xs arbitrary: pre n)
  case Nil
  then show ?case by simp
next
  case (Cons x xs)
  have f: "fits (pre @ put x @ concat (map put xs) @ post)"
    using Cons.prems(2) by simp
  have "decode_n (length xs) get (dec_at (pre @ put x) (concat (map put xs) @ post)) =
      Some (map view xs, dec_at ((pre @ put x) @ concat (map put xs)) post)"
    by (rule Cons.IH) (use Cons.prems f in auto)
  then show ?case
    using Cons.prems(1,3) get_put [OF _ f] by simp
qed

lemma get_put_new:
  "okv x \<Longrightarrow> fits (put x @ post) \<Longrightarrow>
   get (NewDecoder (put x @ post)) = Some (view x, dec_at (put x) post)"
  using get_put [of x "[]" post] by (simp add: NewDecoder_at)

end

lemma Int8_at [roundtrip]:
  "fits (pre @ [v] @ post) \<Longrightarrow> Int8 (dec_at pre (v # post)) = Some (v, dec_at (pre @ [v]) post)"
  using require_at [of pre "[v]" post 1] advance_at [of pre "[v]" post 1]
  by (simp add: Int8_def) (simp add: go_index_def dec_at_def)

lemma Int16_at [roundtrip]:
  "fits (pre @ be16 v @ post) \<Longrightarrow> Int16 (dec_at pre (be16 v @ post)) = Some (v, dec_at (pre @ be16 v) post)"
  using require_at [of pre "be16 v" post 2] advance_at [of pre "be16 v" post 2]
  by (simp add: Int16_def be_Uint16_def) (simp add: dec_at_def)

lemma Int32_at [roundtrip]:
  "fits (pre @ be32 v @ post) \<Longrightarrow> Int32 (dec_at pre (be32 v @ post)) = Some (v, dec_at (pre @ be32 v) post)"
  using require_at [of pre "be32 v" post 4] advance_at [of pre "be32 v" post 4]
  by (simp add: Int32_def be_Uint32_def) (simp add: dec_at_def)

lemma Uint32_at [roundtrip]:
  "fits (pre @ be32 v @ post) \<Longrightarrow> Uint32 (dec_at pre (be32 v @ post)) = Some (v, dec_at (pre @ be32 v) post)"
  using require_at [of pre "be32 v" post 4] advance_at [of pre "be32 v" post 4]
  by (simp add: Uint32_def be_Uint32_def) (simp add: dec_at_def)

lemma Int64_at [roundtrip]:
  "fits (pre @ be64 v @ post) \<Longrightarrow> Int64 (dec_at pre (be64 v @ post)) = Some (v, dec_at (pre @ be64 v) post)"
  using require_at [of pre "be64 v" post 8] advance_at [of pre "be64 v" post 8]
  by (simp add: Int64_def be_Uint64_def) (simp add: dec_at_def)

lemma ArrayLen_at [roundtrip]:
  "fits (pre @ be32 v @ post) \<Longrightarrow> ArrayLen (dec_at pre (be32 v @ post)) = Some (v, dec_at (pre @ be32 v) post)"
  by (simp add: ArrayLen_def Int32_at)

lemma Bool_at [roundtrip]:
  "fits (pre @ [v] @ post) \<Longrightarrow> Bool (dec_at pre (v # post)) = Some (v \<noteq> 0, dec_at (pre @ [v]) post)"
  by (simp add: Bool_def Int8_at)

lemma Uvarint_at [roundtrip]:
  "fits (pre @ put_uvarint v @ post) \<Longrightarrow>
   Uvarint (dec_at pre (put_uvarint v @ post)) = Some (v, dec_at (pre @ put_uvarint v) post)"
  using advance_at [of pre "put_uvarint v" post "int (length (put_uvarint v))"]
  by (simp add: Uvarint_def) (simp add: dec_at_def)

lemma Varint_at [roundtrip]:
  "fits (pre @ put_varint v @ post) \<Longrightarrow>
   Varint (dec_at pre (put_varint v @ post)) = Some (v, dec_at (pre @ put_varint v) post)"
  using advance_at [of pre "put_varint v" post "int (length (put_varint v))"]
  by (simp add: Varint_def) (simp add: dec_at_def)

text \<open>What the length prefixes can carry.\<close>

definition ok_str :: "gostring \<Rightarrow> bool" where
  "ok_str s \<longleftrightarrow> length s < 2 ^ 15"

definition ok_nstr :: "gostring option \<Rightarrow> bool" where
  "ok_nstr s = (case s of None \<Rightarrow> True | Some t \<Rightarrow> ok_str t)"

definition ok_bytes :: "bytes \<Rightarrow> bool" where
  "ok_bytes b \<longleftrightarrow> length b < 2 ^ 31"

definition ok_nbytes :: "bytes option \<Rightarrow> bool" where
  "ok_nbytes b = (case b of None \<Rightarrow> True | Some c \<Rightarrow> ok_bytes c)"

definition ok_len :: "'a list \<Rightarrow> bool" where
  "ok_len xs \<longleftrightarrow> length xs < 2 ^ 31"

lemma sint_len [simp]:
  "ok_str s \<Longrightarrow> sint (word_of_nat (length s) :: i16) = int (length s)"
  "ok_bytes b \<Longrightarrow> sint (word_of_nat (length b) :: i32) = int (length b)"
  "ok_len xs \<Longrightarrow> sint (word_of_nat (length xs) :: i32) = int (length xs)"
  by (simp_all add: ok_str_def ok_bytes_def ok_len_def sint_word_of_nat)

text \<open>\<open>uint64(len) + 1\<close>, read back as \<open>int(raw) - 1\<close>.\<close>

lemma compact_len:
  assumes "n < 2 ^ 62"
  shows "(word_of_nat n + 1 :: u64) \<noteq> 0" and "wrap64 (sint (word_of_nat n + 1 :: u64) - 1) = int n"
proof -
  have "sint (word_of_nat (Suc n) :: u64) = int (Suc n)"
    by (rule sint_word_of_nat) (use assms in simp)
  then have s: "sint (word_of_nat n + 1 :: u64) = int n + 1"
    by (simp add: add.commute)
  then show "(word_of_nat n + 1 :: u64) \<noteq> 0"
    by (metis add.commute of_nat_Suc of_nat_eq_0_iff signed_0 nat.distinct(1))
  have "wrap64 (int n) = int n"
    by (rule wrap64_id) (use assms in simp_all)
  with s show "wrap64 (sint (word_of_nat n + 1 :: u64) - 1) = int n"
    by simp
qed

context codec
begin

lemma array: "codec (array_bytes put) (decode_array get) (\<lambda>xs. ok_len xs \<and> list_all okv xs) (map view)"
proof unfold_locales
  fix xs pre post
  assume ok: "ok_len xs \<and> list_all okv xs"
    and f: "fits (pre @ array_bytes put xs @ post)"
  then have f': "fits (pre @ be32 (word_of_nat (length xs)) @ concat (map put xs) @ post)"
    by (simp add: array_bytes_def)
  then show "decode_array get (dec_at pre (array_bytes put xs @ post)) =
      Some (map view xs, dec_at (pre @ array_bytes put xs) post)"
    using ok decode_n_put [of xs "pre @ be32 (word_of_nat (length xs))" post]
    by (simp add: decode_array_def array_bytes_def ArrayLen_at)
qed

lemma read_if_at:
  "okv x \<Longrightarrow> fits (pre @ bytes_if b (put x) @ post) \<Longrightarrow>
   read_if b get z (dec_at pre (bytes_if b (put x) @ post)) =
     Some (if b then view x else z, dec_at (pre @ bytes_if b (put x)) post)"
  by (cases b) (simp_all add: read_if_def bytes_if_def get_put)

end

lemma compact_fits:
  "fits (pre @ cstr_bytes s @ post) \<Longrightarrow> length s < 2 ^ 62"
  by (simp add: fits_def cstr_bytes_def)

lemma String_at [roundtrip]:
  assumes "ok_str s" and "fits (pre @ str_bytes s @ post)"
  shows "String (dec_at pre (str_bytes s @ post)) = Some (s, dec_at (pre @ str_bytes s) post)"
proof -
  have f: "fits (pre @ be16 (word_of_nat (length s)) @ s @ post)"
    using assms(2) by (simp add: str_bytes_def)
  then show ?thesis
    using assms(1) take_span_at [of "pre @ be16 (word_of_nat (length s))" s post "int (length s)"]
    by (simp add: String_def str_bytes_def Int16_at)
qed

lemma NullableString_at [roundtrip]:
  assumes "ok_nstr s" and "fits (pre @ nstr_bytes s @ post)"
  shows "NullableString (dec_at pre (nstr_bytes s @ post)) = Some (s, dec_at (pre @ nstr_bytes s) post)"
proof (cases s)
  case None
  then show ?thesis using assms(2) by (simp add: NullableString_def nstr_bytes_def Int16_at)
next
  case (Some t)
  then have f: "fits (pre @ be16 (word_of_nat (length t)) @ t @ post)" and t: "ok_str t"
    using assms by (simp_all add: nstr_bytes_def str_bytes_def ok_nstr_def)
  then show ?thesis
    using Some take_span_at [of "pre @ be16 (word_of_nat (length t))" t post "int (length t)"]
    by (simp add: NullableString_def nstr_bytes_def str_bytes_def Int16_at)
qed

lemma NullableBytes_at [roundtrip]:
  assumes "ok_nbytes b" and "fits (pre @ nbytes_bytes b @ post)"
  shows "NullableBytes (dec_at pre (nbytes_bytes b @ post)) = Some (b, dec_at (pre @ nbytes_bytes b) post)"
proof (cases b)
  case None
  then show ?thesis using assms(2) by (simp add: NullableBytes_def nbytes_bytes_def Int32_at)
next
  case (Some c)
  then have f: "fits (pre @ be32 (word_of_nat (length c)) @ c @ post)" and t: "ok_bytes c"
    using assms by (simp_all add: nbytes_bytes_def ok_nbytes_def)
  then show ?thesis
    using Some take_span_at [of "pre @ be32 (word_of_nat (length c))" c post "int (length c)"]
    by (simp add: NullableBytes_def nbytes_bytes_def Int32_at)
qed

lemma CompactString_at [roundtrip]:
  assumes "fits (pre @ cstr_bytes s @ post)"
  shows "CompactString (dec_at pre (cstr_bytes s @ post)) = Some (s, dec_at (pre @ cstr_bytes s) post)"
proof -
  let ?n = "put_uvarint (word_of_nat (length s) + 1)"
  note l = compact_len [OF compact_fits [OF assms]]
  have f: "fits (pre @ ?n @ s @ post)"
    using assms by (simp add: cstr_bytes_def)
  then show ?thesis
    using l take_span_at [of "pre @ ?n" s post "int (length s)"]
    by (simp add: CompactString_def cstr_bytes_def Uvarint_at)
qed

lemma CompactNullableString_at [roundtrip]:
  assumes "fits (pre @ cnstr_bytes s @ post)"
  shows "CompactNullableString (dec_at pre (cnstr_bytes s @ post)) = Some (s, dec_at (pre @ cnstr_bytes s) post)"
proof (cases s)
  case None
  then show ?thesis using assms by (simp add: CompactNullableString_def cnstr_bytes_def Uvarint_at)
next
  case (Some t)
  let ?n = "put_uvarint (word_of_nat (length t) + 1)"
  have f': "fits (pre @ cstr_bytes t @ post)"
    using assms Some by (simp add: cnstr_bytes_def)
  note l = compact_len [OF compact_fits [OF f']]
  have f: "fits (pre @ ?n @ t @ post)"
    using f' by (simp add: cstr_bytes_def)
  then show ?thesis
    using Some l take_span_at [of "pre @ ?n" t post "int (length t)"]
    by (simp add: CompactNullableString_def cnstr_bytes_def cstr_bytes_def Uvarint_at)
qed

lemma CompactArrayLen_at [roundtrip]:
  assumes "n < 2 ^ 62" and "fits (pre @ put_uvarint (word_of_nat n + 1) @ post)"
  shows "CompactArrayLen (dec_at pre (put_uvarint (word_of_nat n + 1) @ post)) =
    Some (int n, dec_at (pre @ put_uvarint (word_of_nat n + 1)) post)"
  using assms compact_len [OF assms(1)] by (simp add: CompactArrayLen_def Uvarint_at)

lemma DiscardTaggedFields_at [roundtrip]:
  "fits (pre @ put_uvarint 0 @ post) \<Longrightarrow>
   DiscardTaggedFields (dec_at pre (put_uvarint 0 @ post)) = Some (dec_at (pre @ put_uvarint 0) post)"
  by (simp add: DiscardTaggedFields_def Uvarint_at)

interpretation int8: codec "\<lambda>v. [v]" Int8 "\<lambda>_. True" id
  by unfold_locales (simp add: Int8_at)

interpretation boolean: codec "\<lambda>b. [if b then 1 else 0]" Bool "\<lambda>_. True" id
  by unfold_locales (simp add: Bool_at)

interpretation int16: codec be16 Int16 "\<lambda>_. True" id
  by unfold_locales (simp add: Int16_at)

interpretation int32: codec be32 Int32 "\<lambda>_. True" id
  by unfold_locales (simp add: Int32_at)

interpretation int64: codec be64 Int64 "\<lambda>_. True" id
  by unfold_locales (simp add: Int64_at)

interpretation gostring: codec str_bytes String ok_str id
  by unfold_locales (simp add: String_at)

interpretation nullable_string: codec nstr_bytes NullableString ok_nstr id
  by unfold_locales (simp add: NullableString_at)

interpretation nullable_bytes: codec nbytes_bytes NullableBytes ok_nbytes id
  by unfold_locales (simp add: NullableBytes_at)

interpretation compact_string: codec cstr_bytes CompactString "\<lambda>_. True" id
  by unfold_locales (simp add: CompactString_at)

interpretation compact_nullable_string: codec cnstr_bytes CompactNullableString "\<lambda>_. True" id
  by unfold_locales (simp add: CompactNullableString_at)

interpretation uvarints: codec put_uvarint Uvarint "\<lambda>_. True" id
  by unfold_locales (simp add: Uvarint_at)

interpretation varints: codec put_varint Varint "\<lambda>_. True" id
  by unfold_locales (simp add: Varint_at)

lemma list_all_True [simp]: "list_all (\<lambda>_. True) xs"
  by (simp add: list_all_iff)

interpretation int32s: codec "array_bytes be32" "decode_array Int32" ok_len id
  using int32.array by simp

interpretation int64s: codec "array_bytes be64" "decode_array Int64" ok_len id
  using int64.array by simp

interpretation gostrings: codec "array_bytes str_bytes" "decode_array String" "\<lambda>xs. ok_len xs \<and> list_all ok_str xs" id
  using gostring.array by simp

lemmas read_if_lemmas [roundtrip] =
  int8.read_if_at [simplified] boolean.read_if_at [simplified] int16.read_if_at [simplified]
  int32.read_if_at [simplified] int64.read_if_at [simplified] gostring.read_if_at [simplified]
  nullable_string.read_if_at [simplified] int32s.read_if_at [simplified]

lemmas array_lemmas [roundtrip] = int32s.get_put [simplified] gostrings.get_put [simplified]

end
