(* ===== verification/Reader.thy ===== *)
theory Reader
  imports Wire
begin

text \<open>
  Panic freedom of the decoder.  \<open>dec_wf\<close> is the invariant of a decoder whose position
  lies inside its buffer; the locale \<open>reader\<close> is the contract of an operation that from
  such a decoder never panics and leaves such a decoder on the same buffer.  The contract
  is closed under sequencing, branching and repetition, so the request decoders inherit it.
  The fixed-width and length-prefixed reads keep the contract; \<open>CompactString\<close> and
  \<open>DiscardTaggedFields\<close>, which trust a 64-bit length from the wire, do not
  (\<open>CompactString_panics\<close>, \<open>DiscardTaggedFields_rewinds\<close>).
\<close>

definition dec_wf :: "Decoder \<Rightarrow> bool" where
  "dec_wf d \<longleftrightarrow> 0 \<le> d_pos d \<and> d_pos d \<le> int (length (d_buf d)) \<and> fits (d_buf d)"

lemma dec_wf_new [simp]: "fits b \<Longrightarrow> dec_wf (NewDecoder b)"
  by (simp add: dec_wf_def NewDecoder_def)

locale reader =
  fixes get :: "Decoder \<Rightarrow> ('a \<times> Decoder) option"
  assumes runs: "dec_wf d \<Longrightarrow>
    \<exists>v d'. get d = Some (v, d') \<and> dec_wf d' \<and> d_buf d' = d_buf d \<and> d_pos d \<le> d_pos d'"
begin

lemma no_panic: "fits b \<Longrightarrow> get (NewDecoder b) \<noteq> None"
  using runs [of "NewDecoder b"] by fastforce

lemma result_wf: "dec_wf d \<Longrightarrow> get d = Some (v, d') \<Longrightarrow> dec_wf d' \<and> d_buf d' = d_buf d \<and> d_pos d \<le> d_pos d'"
  using runs [of d] by auto

lemma repeated: "reader (decode_n n get)"
proof (induction n)
  case 0
  show ?case by unfold_locales simp
next
  case (Suc n)
  show ?case
  proof unfold_locales
    fix d assume "dec_wf d"
    then obtain v d1 where 1: "get d = Some (v, d1)" "dec_wf d1" "d_buf d1 = d_buf d" "d_pos d \<le> d_pos d1"
      using runs by blast
    then obtain vs d2 where "decode_n n get d1 = Some (vs, d2)" "dec_wf d2" "d_buf d2 = d_buf d1" "d_pos d1 \<le> d_pos d2"
      using reader.runs [OF Suc] by blast
    with 1 show "\<exists>v d'. decode_n (Suc n) get d = Some (v, d') \<and> dec_wf d' \<and> d_buf d' = d_buf d \<and> d_pos d \<le> d_pos d'"
      by auto
  qed
qed

end

section \<open>Closure of the contract\<close>

lemma reader_return [intro]: "reader (\<lambda>d. Some (v, d))"
  by unfold_locales simp

lemma reader_bind [intro]:
  assumes "reader f" and "\<And>x. reader (g x)"
  shows "reader (\<lambda>d. do { (x, d) \<leftarrow> f d; g x d })"
proof unfold_locales
  fix d assume "dec_wf d"
  then obtain x d1 where 1: "f d = Some (x, d1)" "dec_wf d1" "d_buf d1 = d_buf d" "d_pos d \<le> d_pos d1"
    using reader.runs [OF assms(1)] by blast
  then obtain y d2 where "g x d1 = Some (y, d2)" "dec_wf d2" "d_buf d2 = d_buf d1" "d_pos d1 \<le> d_pos d2"
    using reader.runs [OF assms(2)] by blast
  with 1 show "\<exists>v d'. (do { (x, d) \<leftarrow> f d; g x d }) = Some (v, d') \<and> dec_wf d' \<and> d_buf d' = d_buf d \<and> d_pos d \<le> d_pos d'"
    by auto
qed

lemma reader_if [intro]: "reader f \<Longrightarrow> reader g \<Longrightarrow> reader (\<lambda>d. if b then f d else g d)"
  by (cases b) simp_all

lemma reader_if_state:
  assumes "reader f" and "reader g"
  shows "reader (\<lambda>d. if P d then f d else g d)"
  by unfold_locales (use reader.runs [OF assms(1)] reader.runs [OF assms(2)] in auto)

lemma reader_if_known:
  "(b \<Longrightarrow> reader f) \<Longrightarrow> (\<not> b \<Longrightarrow> reader g) \<Longrightarrow> reader (\<lambda>d. if b then f d else g d)"
  by (cases b) simp_all

section \<open>The reads that keep it\<close>

lemma require_False: "require d n = (False, d') \<Longrightarrow> dec_wf d \<Longrightarrow> dec_wf d' \<and> d_buf d' = d_buf d \<and> d_pos d' = d_pos d"
  by (auto simp: require_def dec_wf_def split: if_splits)

lemma require_True:
  assumes "require d n = (True, d')" "dec_wf d" "0 \<le> n" "n < 2 ^ 62"
  shows "d' = d" and "d_pos d + n \<le> int (length (d_buf d))" and "wrap64 (d_pos d + n) = d_pos d + n"
proof -
  have "wrap64 (d_pos d + n) = d_pos d + n"
    by (rule wrap64_id) (use assms in \<open>auto simp: dec_wf_def fits_def\<close>)
  then show "d' = d" "d_pos d + n \<le> int (length (d_buf d))" "wrap64 (d_pos d + n) = d_pos d + n"
    using assms(1) by (auto simp: require_def split: if_splits)
qed

lemma reader_span:
  assumes "\<And>d. get d = (let (ok, d) = require d n in if \<not> ok then Some (z, d)
      else do { s \<leftarrow> f d; Some (s, advance d n) })"
    and "0 \<le> n" "n < 2 ^ 62"
    and "\<And>d. dec_wf d \<Longrightarrow> d_pos d + n \<le> int (length (d_buf d)) \<Longrightarrow> f d \<noteq> None"
  shows "reader get"
proof unfold_locales
  fix d assume wf: "dec_wf d"
  obtain ok d1 where r: "require d n = (ok, d1)" by fastforce
  show "\<exists>v d'. get d = Some (v, d') \<and> dec_wf d' \<and> d_buf d' = d_buf d \<and> d_pos d \<le> d_pos d'"
  proof (cases ok)
    case False
    with r wf require_False [of d n d1] show ?thesis by (auto simp: assms(1))
  next
    case True
    with r have "require d n = (True, d1)" by simp
    note t = require_True [OF this wf assms(2,3)]
    with assms(4) [OF wf] obtain s where "f d = Some s" by auto
    with r True t wf assms(2) show ?thesis
      by (auto simp: assms(1) advance_def dec_wf_def)
  qed
qed

lemma slice_from_ok: "dec_wf d \<Longrightarrow> go_slice_from (d_buf d) (d_pos d) = Some (drop (nat (d_pos d)) (d_buf d))"
  by (simp add: dec_wf_def go_slice_from_def go_slice_def)

lemma slice_from_long:
  "dec_wf d \<Longrightarrow> d_pos d + int k \<le> int (length (d_buf d)) \<Longrightarrow> k \<le> length (d_buf d) - nat (d_pos d)"
  unfolding dec_wf_def by arith

lemma reader_fixed:
  assumes "\<And>d. get d = (let (ok, d) = require d (int k) in if \<not> ok then Some (0, d)
      else do { s \<leftarrow> go_slice_from (d_buf d) (d_pos d); v \<leftarrow> rd s; Some (v, advance d (int k)) })"
    and "k \<le> 8" and "\<And>s. k \<le> length s \<Longrightarrow> rd s \<noteq> None"
  shows "reader get"
proof (rule reader_span [of get "int k" 0 "\<lambda>d. do { s \<leftarrow> go_slice_from (d_buf d) (d_pos d); rd s }"])
  fix d :: Decoder assume "dec_wf d" "d_pos d + int k \<le> int (length (d_buf d))"
  then show "(do { s \<leftarrow> go_slice_from (d_buf d) (d_pos d); rd s }) \<noteq> None"
    using assms(3) slice_from_long [of d k] by (simp add: slice_from_ok del: not_None_eq)
qed (use assms(1,2) in \<open>simp_all add: bind_assoc split: prod.splits\<close>)

interpretation r_Int8: reader Int8
  by (rule reader_span [of _ 1 0 "\<lambda>d. go_index (d_buf d) (d_pos d)"])
    (auto simp: Int8_def dec_wf_def go_index_def)

interpretation r_Int16: reader Int16
  by (rule reader_fixed [of _ 2 be_Uint16]) (simp_all add: Int16_def be_Uint16_def split: prod.splits)

interpretation r_Int32: reader Int32
  by (rule reader_fixed [of _ 4 be_Uint32]) (simp_all add: Int32_def be_Uint32_def split: prod.splits)

interpretation r_Int64: reader Int64
  by (rule reader_fixed [of _ 8 be_Uint64]) (simp_all add: Int64_def be_Uint64_def split: prod.splits)

interpretation r_Uint32: reader Uint32
  by (rule reader_fixed [of _ 4 be_Uint32]) (simp_all add: Uint32_def be_Uint32_def split: prod.splits)

lemma reader_take_span: "0 \<le> n \<Longrightarrow> n < 2 ^ 62 \<Longrightarrow> reader (\<lambda>d. take_span d n)"
proof (rule reader_span [of _ n None "\<lambda>d. do { s \<leftarrow> go_slice (d_buf d) (d_pos d) (wrap64 (d_pos d + n)); Some (Some s) }"])
  fix d :: Decoder
  assume n: "0 \<le> n" "n < 2 ^ 62" and d: "dec_wf d" "d_pos d + n \<le> int (length (d_buf d))"
  have "wrap64 (d_pos d + n) = d_pos d + n"
    by (rule wrap64_id) (use n d in \<open>auto simp: dec_wf_def fits_def\<close>)
  then show "(do { s \<leftarrow> go_slice (d_buf d) (d_pos d) (wrap64 (d_pos d + n)); Some (Some s) }) \<noteq> None"
    using n d by (simp add: go_slice_def dec_wf_def)
qed (simp_all add: take_span_def bind_assoc split: prod.splits)

lemma sint_lt62: "sint (v :: 'l::len word) < 2 ^ 62" if "LENGTH('l) \<le> 62"
proof -
  have "sint v < 2 ^ (LENGTH('l) - 1)" by (rule sint_lt)
  also have "\<dots> \<le> 2 ^ 62" by (rule power_increasing) (use that in auto)
  finally show ?thesis .
qed

interpretation r_Bool: reader Bool
  unfolding Bool_def by (intro reader_bind reader_return r_Int8.reader_axioms)

interpretation r_ArrayLen: reader ArrayLen
  unfolding ArrayLen_def by (rule r_Int32.reader_axioms)

lemma uvarint_loop_bound: "uvarint_loop bs i x s = (v, n) \<Longrightarrow> n \<le> int i + int (length bs)"
proof (induction bs i x s rule: uvarint_loop.induct)
  case (2 b bs i x s)
  show ?case
    using "2.prems" "2.IH" by (auto split: if_splits)
qed simp

lemma uvarint_bound: "uvarint bs = (v, n) \<Longrightarrow> n \<le> int (length bs)"
  using uvarint_loop_bound [of bs 0 0 0] by (simp add: uvarint_def)

lemma varint_bound: "varint bs = (v, n) \<Longrightarrow> n \<le> int (length bs)"
  by (auto simp: varint_def split: prod.splits dest: uvarint_bound)

lemma reader_varlen:
  assumes "\<And>d. get d = (if d_err d \<noteq> None then Some (0, d)
      else do {
        s \<leftarrow> go_slice_from (d_buf d) (d_pos d);
        let (v, n) = f s in
        if n \<le> 0 then Some (0, d\<lparr>d_err := Some (er (d_pos d))\<rparr>) else Some (v, advance d n) })"
    and "\<And>bs v n. f bs = (v, n) \<Longrightarrow> n \<le> int (length bs)"
  shows "reader get"
proof unfold_locales
  fix d assume wf: "dec_wf d"
  let ?s = "drop (nat (d_pos d)) (d_buf d)"
  obtain v n where f: "f ?s = (v, n)" by fastforce
  have n: "n \<le> int (length (d_buf d)) - d_pos d"
    using assms(2) [OF f] wf by (simp add: dec_wf_def of_nat_diff nat_le_iff)
  have w: "n > 0 \<Longrightarrow> wrap64 (d_pos d + n) = d_pos d + n"
    by (rule wrap64_id) (use n wf in \<open>auto simp: dec_wf_def fits_def\<close>)
  show "\<exists>v d'. get d = Some (v, d') \<and> dec_wf d' \<and> d_buf d' = d_buf d \<and> d_pos d \<le> d_pos d'"
    using wf f n w
    by (auto simp: assms(1) slice_from_ok advance_def dec_wf_def)
qed

interpretation r_Uvarint: reader Uvarint
  by (rule reader_varlen [of _ uvarint UvarintFailed]) (auto simp: Uvarint_def dest: uvarint_bound)

interpretation r_Varint: reader Varint
  by (rule reader_varlen [of _ varint VarintFailed]) (auto simp: Varint_def dest: varint_bound)

text \<open>Reads guarded by a non-negative 16- or 32-bit length.\<close>

lemma reader_guarded_span:
  "LENGTH('l::len) \<le> 62 \<Longrightarrow>
   reader (\<lambda>d. if P d then Some (None, d) else if sint (n :: 'l word) < 0 then Some (None, d) else take_span d (sint n))"
  by (intro reader_if_known [of "sint n < 0"] reader_if_state reader_return reader_take_span sint_lt62) auto

interpretation r_NullableString: reader NullableString
  unfolding NullableString_def
  by (intro reader_bind r_Int16.reader_axioms reader_guarded_span) simp

interpretation r_NullableBytes: reader NullableBytes
  unfolding NullableBytes_def
  by (intro reader_bind r_Int32.reader_axioms reader_guarded_span) simp

interpretation r_String: reader String
proof -
  have "reader (\<lambda>d. do { (v, d) \<leftarrow> Int16 d;
       if d_err d \<noteq> None \<or> sint v < 0 then Some ([], d)
       else do { (s, d) \<leftarrow> take_span d (sint v); Some (case s of None \<Rightarrow> [] | Some t \<Rightarrow> t, d) } })"
  proof (intro reader_bind r_Int16.reader_axioms)
    fix v :: i16
    show "reader (\<lambda>d. if d_err d \<noteq> None \<or> sint v < 0 then Some ([], d)
       else do { (s, d) \<leftarrow> take_span d (sint v); Some (case s of None \<Rightarrow> [] | Some t \<Rightarrow> t, d) })"
      by (cases "sint v < 0")
        (auto intro!: reader_if_state reader_return reader_bind reader_take_span sint_lt62)
  qed
  then show "reader String"
    unfolding String_def Let_def .
qed

text \<open>Optional fields and arrays of such reads.\<close>

lemma reader_read_if: "reader f \<Longrightarrow> reader (read_if b f z)"
  unfolding read_if_def by (cases b) (auto simp: reader_return)

lemma reader_array: "reader f \<Longrightarrow> reader (decode_array f)"
  unfolding decode_array_def by (intro reader_bind r_ArrayLen.reader_axioms reader.repeated)

text \<open>The bundle that reduces a request decoder to its field reads.\<close>

lemmas reader_rules =
  reader_bind reader_return reader_read_if reader_array reader_if_known
  r_Int8.reader_axioms r_Int16.reader_axioms r_Int32.reader_axioms r_Int64.reader_axioms
  r_Bool.reader_axioms r_ArrayLen.reader_axioms r_String.reader_axioms
  r_NullableString.reader_axioms r_NullableBytes.reader_axioms r_Uvarint.reader_axioms

section \<open>The reads that do not\<close>

text \<open>
  A compact string whose announced length is \<open>2 ^ 63\<close>: \<open>int(raw) - 1\<close> wraps to the largest
  \<open>int\<close>, the bound check wraps again and passes, and the slice expression panics.
\<close>

lemma wrap64_period: "wrap64 (x + 2 ^ 64) = wrap64 x"
  unfolding wrap64_def by (simp add: signed_take_bit_eq_iff_take_bit_eq take_bit_eq_mod)

lemma CompactString_panics:
  assumes "fits (pre @ put_uvarint (2 ^ 63) @ post)"
  shows "CompactString (dec_at pre (put_uvarint (2 ^ 63) @ post)) = None"
proof -
  define l where "l = put_uvarint (2 ^ 63)"
  define p where "p = int (length pre) + int (length l)"
  have p: "0 < p" "p < 2 ^ 62"
    using assms put_uvarint_not_Nil [of "2 ^ 63"] unfolding p_def l_def fits_def
    by (simp_all add: add_nonneg_pos del: put_uvarint_not_Nil) 
  have "wrap64 (p + (2 ^ 63 - 1)) = wrap64 ((p - 1 - 2 ^ 63) + 2 ^ 64)"
    by (simp add: algebra_simps)
  also have "\<dots> = p - 1 - 2 ^ 63"
    unfolding wrap64_period by (rule wrap64_id) (use p in simp_all)
  finally have neg: "wrap64 (p + (2 ^ 63 - 1)) = p - 1 - 2 ^ 63" .
  have w: "wrap64 (sint (2 ^ 63 :: u64) - 1) = 2 ^ 63 - 1"
    by (simp add: wrap64_def)
  have "take_span (dec_at (pre @ l) post) (2 ^ 63 - 1) = None"
    using p neg by (simp add: take_span_def require_def dec_at_def go_slice_def p_def)
  with w show ?thesis
    using Uvarint_at [OF assms] by (simp add: CompactString_def flip: l_def del: power_numeral)
qed

text \<open>
  A tagged field whose announced size is negative as an \<open>int\<close>: the bound check passes and the
  position moves backwards, possibly before the start of the buffer.
\<close>

lemma DiscardTaggedFields_rewinds:
  assumes f: "fits (pre @ put_uvarint 1 @ put_uvarint 0 @ put_uvarint len @ post)" (is "fits (_ @ ?a @ ?b @ ?c @ _)")
    and neg: "sint len < 0"
  shows "DiscardTaggedFields (dec_at pre (put_uvarint 1 @ put_uvarint 0 @ put_uvarint len @ post)) =
    Some ((dec_at (pre @ put_uvarint 1 @ put_uvarint 0 @ put_uvarint len) post)
      \<lparr>d_pos := int (length (pre @ put_uvarint 1 @ put_uvarint 0 @ put_uvarint len)) + sint len\<rparr>)"
proof -
  let ?q = "pre @ ?a @ ?b @ ?c"
  have u: "Uvarint (dec_at pre (?a @ ?b @ ?c @ post)) = Some (1, dec_at (pre @ ?a) (?b @ ?c @ post))"
    "Uvarint (dec_at (pre @ ?a) (?b @ ?c @ post)) = Some (0, dec_at (pre @ ?a @ ?b) (?c @ post))"
    "Uvarint (dec_at (pre @ ?a @ ?b) (?c @ post)) = Some (len, dec_at ?q post)"
    using f Uvarint_at [of pre 1 "?b @ ?c @ post"] Uvarint_at [of "pre @ ?a" 0 "?c @ post"]
      Uvarint_at [of "pre @ ?a @ ?b" len post] by simp_all
  have "- (2 ^ 63) \<le> sint len"
    using sint_ge [of len] by simp
  moreover have "int (length ?q) < 2 ^ 62"
    using f by (simp add: fits_def)
  ultimately have w: "wrap64 (int (length ?q) + sint len) = int (length ?q) + sint len"
    by (intro wrap64_id) (use neg in simp_all)
  then have "require (dec_at ?q post) (sint len) = (True, dec_at ?q post)"
    using neg by (simp add: require_def dec_at_def)
  moreover have "unat (1 :: u64) = Suc 0"
    by simp
  ultimately show ?thesis
    using w u by (simp add: DiscardTaggedFields_def advance_def) (simp add: dec_at_def)
qed

end
