(* ===== verification/Api.thy ===== *)
theory Api
  imports Reader
begin

text \<open>
  \<open>api_key.go\<close>, \<open>api_versions.go\<close> and \<open>header.go\<close>: the API keys with the versions the broker
  advertises, the header version of each request and response, the ApiVersions response
  bodies, and the request and response headers.  A header that was encoded is parsed back
  with the body that follows it; a non-flexible header never panics the parser, a flexible
  one can.
\<close>

section \<open>API keys\<close>

definition APIKeyProduce :: i16 where "APIKeyProduce = 0"
definition APIKeyFetch :: i16 where "APIKeyFetch = 1"
definition APIKeyListOffsets :: i16 where "APIKeyListOffsets = 2"
definition APIKeyMetadata :: i16 where "APIKeyMetadata = 3"
definition APIKeyOffsetsForLeaderEpoch :: i16 where "APIKeyOffsetsForLeaderEpoch = 23"
definition APIKeyApiVersions :: i16 where "APIKeyApiVersions = 18"
definition ErrCodeUnsupportedVersion :: i16 where "ErrCodeUnsupportedVersion = 35"

lemmas api_keys = APIKeyProduce_def APIKeyFetch_def APIKeyListOffsets_def APIKeyMetadata_def
  APIKeyOffsetsForLeaderEpoch_def APIKeyApiVersions_def

record APIVersion =
  av_Key :: i16
  av_MinVersion :: i16
  av_MaxVersion :: i16

definition SupportedAPIVersions :: "APIVersion list" where
  "SupportedAPIVersions =
     [\<lparr>av_Key = APIKeyProduce, av_MinVersion = 3, av_MaxVersion = 8\<rparr>,
      \<lparr>av_Key = APIKeyFetch, av_MinVersion = 4, av_MaxVersion = 11\<rparr>,
      \<lparr>av_Key = APIKeyListOffsets, av_MinVersion = 1, av_MaxVersion = 5\<rparr>,
      \<lparr>av_Key = APIKeyMetadata, av_MinVersion = 0, av_MaxVersion = 8\<rparr>,
      \<lparr>av_Key = APIKeyOffsetsForLeaderEpoch, av_MinVersion = 2, av_MaxVersion = 4\<rparr>,
      \<lparr>av_Key = APIKeyApiVersions, av_MinVersion = 0, av_MaxVersion = 3\<rparr>]"

definition RequestHeaderVersion :: "i16 \<Rightarrow> i16 \<Rightarrow> i16" where
  "RequestHeaderVersion apiKey apiVersion =
     (if apiKey = APIKeyApiVersions then (if sint apiVersion \<ge> 3 then 2 else 1)
      else if apiKey = APIKeyProduce then (if sint apiVersion \<ge> 9 then 2 else 1)
      else if apiKey = APIKeyFetch then (if sint apiVersion \<ge> 12 then 2 else 1)
      else if apiKey = APIKeyMetadata then (if sint apiVersion \<ge> 9 then 2 else 1)
      else if apiKey = APIKeyOffsetsForLeaderEpoch then (if sint apiVersion \<ge> 4 then 2 else 1)
      else 1)"

definition ResponseHeaderVersion :: "i16 \<Rightarrow> i16 \<Rightarrow> i16" where
  "ResponseHeaderVersion apiKey apiVersion =
     (if apiKey = APIKeyApiVersions then 0
      else if apiKey = APIKeyProduce then (if sint apiVersion \<ge> 9 then 1 else 0)
      else if apiKey = APIKeyFetch then (if sint apiVersion \<ge> 12 then 1 else 0)
      else if apiKey = APIKeyMetadata then (if sint apiVersion \<ge> 9 then 1 else 0)
      else if apiKey = APIKeyOffsetsForLeaderEpoch then (if sint apiVersion \<ge> 4 then 1 else 0)
      else 0)"

section \<open>ApiVersions responses\<close>

definition put_APIVersion :: "Encoder \<Rightarrow> APIVersion \<Rightarrow> Encoder" where
  "put_APIVersion e v =
     (let e = PutInt16 e (av_Key v);
          e = PutInt16 e (av_MinVersion v)
      in PutInt16 e (av_MaxVersion v))"

definition EncodeApiVersionsResponseV0 :: "i16 \<Rightarrow> bytes" where
  "EncodeApiVersionsResponseV0 errorCode =
     (let e = NewEncoder;
          e = PutInt16 e errorCode;
          e = PutArrayLen e (word_of_nat (length SupportedAPIVersions));
          e = foldl put_APIVersion e SupportedAPIVersions
      in Bytes e)"

definition EncodeApiVersionsResponseV3 :: "i16 \<Rightarrow> bytes" where
  "EncodeApiVersionsResponseV3 errorCode =
     (let e = NewEncoder;
          e = PutInt16 e errorCode;
          e = PutCompactArrayLen e (length SupportedAPIVersions);
          e = foldl (\<lambda>e v. PutTaggedFields (put_APIVersion e v)) e SupportedAPIVersions;
          e = PutInt32 e 0;
          e = PutTaggedFields e
      in Bytes e)"

section \<open>Headers\<close>

record RequestHeader =
  rh_APIKey :: i16
  rh_APIVersion :: i16
  rh_CorrelationID :: i32
  rh_ClientID :: "gostring option"

definition EncodeRequestHeader :: "Encoder \<Rightarrow> i16 \<Rightarrow> i16 \<Rightarrow> i32 \<Rightarrow> gostring option \<Rightarrow> Encoder" where
  "EncodeRequestHeader e apiKey apiVersion correlationID clientID =
     (let e = PutInt16 e apiKey;
          e = PutInt16 e apiVersion;
          e = PutInt32 e correlationID;
          headerVersion = RequestHeaderVersion apiKey apiVersion;
          e = (if sint headerVersion \<ge> 1 then PutNullableString e clientID else e);
          e = (if sint headerVersion \<ge> 2 then PutTaggedFields e else e)
      in e)"

text \<open>
  A parser returns the decode error (\<^const>\<open>Inl\<close>) or the header with the rest of the message;
  \<^const>\<open>None\<close> is a panic.
\<close>

definition ParseRequestHeader :: "bytes \<Rightarrow> (DecodeError + RequestHeader \<times> bytes) option" where
  "ParseRequestHeader msg =
     do {
       let d = NewDecoder msg;
       (key, d) \<leftarrow> Int16 d;
       (version, d) \<leftarrow> Int16 d;
       (correlation, d) \<leftarrow> Int32 d;
       let headerVersion = RequestHeaderVersion key version;
       (client, d) \<leftarrow> read_if (sint headerVersion \<ge> 1) NullableString None d;
       d \<leftarrow> (if sint headerVersion \<ge> 2 then DiscardTaggedFields d else Some d);
       (case d_err d of
          Some err \<Rightarrow> Some (Inl err)
        | None \<Rightarrow> do {
            body \<leftarrow> go_slice_from msg (Offset d);
            Some (Inr (\<lparr>rh_APIKey = key, rh_APIVersion = version, rh_CorrelationID = correlation,
                        rh_ClientID = client\<rparr>, body)) })
     }"

definition ParseResponseHeader :: "bytes \<Rightarrow> i16 \<Rightarrow> i16 \<Rightarrow> (DecodeError + i32 \<times> bytes) option" where
  "ParseResponseHeader msg apiKey apiVersion =
     do {
       let d = NewDecoder msg;
       (correlationID, d) \<leftarrow> Int32 d;
       d \<leftarrow> (if sint (ResponseHeaderVersion apiKey apiVersion) \<ge> 1 then DiscardTaggedFields d else Some d);
       (case d_err d of
          Some err \<Rightarrow> Some (Inl err)
        | None \<Rightarrow> do {
            body \<leftarrow> go_slice_from msg (Offset d);
            Some (Inr (correlationID, body)) })
     }"

definition WriteResponseHeader :: "Encoder \<Rightarrow> i32 \<Rightarrow> i16 \<Rightarrow> i16 \<Rightarrow> Encoder" where
  "WriteResponseHeader e correlationID apiKey apiVersion =
     (let e = PutInt32 e correlationID in
      if sint (ResponseHeaderVersion apiKey apiVersion) \<ge> 1 then PutTaggedFields e else e)"

section \<open>Round trips\<close>

definition request_header_bytes :: "i16 \<Rightarrow> i16 \<Rightarrow> i32 \<Rightarrow> gostring option \<Rightarrow> bytes" where
  "request_header_bytes k v c cl =
     be16 k @ be16 v @ be32 c @ nstr_bytes cl @ bytes_if (RequestHeaderVersion k v = 2) (put_uvarint 0)"

lemma RequestHeaderVersion_ge1 [simp]: "1 \<le> sint (RequestHeaderVersion k v)"
  by (simp add: RequestHeaderVersion_def)

lemma RequestHeaderVersion_ge2: "2 \<le> sint (RequestHeaderVersion k v) \<longleftrightarrow> RequestHeaderVersion k v = 2"
  by (simp add: RequestHeaderVersion_def)

lemma e_b_EncodeRequestHeader [put_bytes]:
  "e_b (EncodeRequestHeader e k v c cl) = e_b e @ request_header_bytes k v c cl"
  by (simp add: EncodeRequestHeader_def request_header_bytes_def bytes_if_def RequestHeaderVersion_ge2 put_bytes)

lemma ParseRequestHeader_bytes:
  assumes ok: "ok_nstr cl" and f: "fits (request_header_bytes k v c cl @ body)"
  shows "ParseRequestHeader (request_header_bytes k v c cl @ body) =
    Some (Inr (\<lparr>rh_APIKey = k, rh_APIVersion = v, rh_CorrelationID = c, rh_ClientID = cl\<rparr>, body))"
proof -
  let ?h = "be16 k @ be16 v @ be32 c @ nstr_bytes cl"
  let ?t = "bytes_if (RequestHeaderVersion k v = 2) (put_uvarint 0)"
  have f': "fits (?h @ ?t @ body)"
    using f by (simp add: request_header_bytes_def)
  have tag: "(if RequestHeaderVersion k v = 2 then DiscardTaggedFields (dec_at ?h (?t @ body))
      else Some (dec_at ?h (?t @ body))) = Some (dec_at (?h @ ?t) body)"
    using f' DiscardTaggedFields_at [of ?h body] by (simp add: bytes_if_def split: if_splits)
  have "go_slice_from ((?h @ ?t) @ body) (int (length (?h @ ?t))) = Some body"
    by (rule go_slice_from_mid)
  with tag show ?thesis
    using ok f' Int16_at [of "[]" k "be16 v @ be32 c @ nstr_bytes cl @ ?t @ body"]
    by (simp add: ParseRequestHeader_def request_header_bytes_def NewDecoder_at roundtrip
        RequestHeaderVersion_ge2 read_if_def)
qed

lemma ResponseHeaderVersion_ge1: "1 \<le> sint (ResponseHeaderVersion k v) \<longleftrightarrow> ResponseHeaderVersion k v = 1"
  by (simp add: ResponseHeaderVersion_def)

definition response_header_bytes :: "i32 \<Rightarrow> i16 \<Rightarrow> i16 \<Rightarrow> bytes" where
  "response_header_bytes c k v = be32 c @ bytes_if (ResponseHeaderVersion k v = 1) (put_uvarint 0)"

lemma e_b_WriteResponseHeader [put_bytes]:
  "e_b (WriteResponseHeader e c k v) = e_b e @ response_header_bytes c k v"
  by (simp add: WriteResponseHeader_def response_header_bytes_def bytes_if_def ResponseHeaderVersion_ge1 put_bytes)

lemma ParseResponseHeader_bytes:
  assumes f: "fits (response_header_bytes c k v @ body)"
  shows "ParseResponseHeader (response_header_bytes c k v @ body) k v = Some (Inr (c, body))"
proof -
  let ?t = "bytes_if (ResponseHeaderVersion k v = 1) (put_uvarint 0)"
  have f': "fits (be32 c @ ?t @ body)"
    using f by (simp add: response_header_bytes_def)
  have tag: "(if ResponseHeaderVersion k v = 1 then DiscardTaggedFields (dec_at (be32 c) (?t @ body))
      else Some (dec_at (be32 c) (?t @ body))) = Some (dec_at (be32 c @ ?t) body)"
    using f' DiscardTaggedFields_at [of "be32 c" body] by (simp add: bytes_if_def split: if_splits)
  have "go_slice_from ((be32 c @ ?t) @ body) (int (length (be32 c @ ?t))) = Some body"
    by (rule go_slice_from_mid)
  with tag show ?thesis
    using f' Int32_at [of "[]" c "?t @ body"]
    by (simp add: ParseResponseHeader_def response_header_bytes_def NewDecoder_at ResponseHeaderVersion_ge1)
qed

section \<open>Panics\<close>

text \<open>The part of \<open>ParseRequestHeader\<close> before the tagged fields.\<close>

definition header_fields :: "Decoder \<Rightarrow> ((i16 \<times> i16 \<times> i32 \<times> gostring option) \<times> Decoder) option" where
  "header_fields d =
     do {
       (key, d) \<leftarrow> Int16 d;
       (version, d) \<leftarrow> Int16 d;
       (correlation, d) \<leftarrow> Int32 d;
       (client, d) \<leftarrow> NullableString d;
       Some ((key, version, correlation, client), d)
     }"

interpretation r_header_fields: reader header_fields
  unfolding header_fields_def by (intro reader_rules)

lemma header_fields_parse:
  assumes "header_fields (NewDecoder msg) = Some ((k, v, c, cl), d)"
    and "RequestHeaderVersion k v \<noteq> 2"
  shows "ParseRequestHeader msg =
    (case d_err d of
       Some err \<Rightarrow> Some (Inl err)
     | None \<Rightarrow> do { body \<leftarrow> go_slice_from msg (Offset d);
         Some (Inr (\<lparr>rh_APIKey = k, rh_APIVersion = v, rh_CorrelationID = c, rh_ClientID = cl\<rparr>, body)) })"
  using assms
  by (auto simp: header_fields_def ParseRequestHeader_def read_if_def RequestHeaderVersion_ge2
      split: bind_splits prod.splits)

text \<open>A header whose version is not flexible is parsed or refused, whatever the bytes.\<close>

lemma ParseRequestHeader_total:
  assumes f: "fits msg"
    and h: "header_fields (NewDecoder msg) = Some ((k, v, c, cl), d)"
    and nf: "RequestHeaderVersion k v \<noteq> 2"
  shows "ParseRequestHeader msg \<noteq> None"
proof -
  have "dec_wf d" "d_buf d = msg"
    using r_header_fields.result_wf [OF dec_wf_new [OF f] h] by (simp_all add: NewDecoder_def)
  then have "go_slice_from msg (Offset d) \<noteq> None"
    by (auto simp: go_slice_from_def go_slice_def Offset_def dec_wf_def)
  then show ?thesis
    by (auto simp: header_fields_parse [OF h nf] split: option.splits)
qed

text \<open>A flexible header with one tagged field of negative size makes the final slice panic.\<close>

lemma ParseRequestHeader_panics:
  assumes fl: "RequestHeaderVersion k v = 2"
    and f: "fits (be16 k @ be16 v @ be32 c @ be16 (- 1) @ put_uvarint 1 @ put_uvarint 0 @ put_uvarint len @ rest)"
    and neg: "int (length (be16 k @ be16 v @ be32 c @ be16 (- 1) @ put_uvarint 1 @ put_uvarint 0 @ put_uvarint len)) + sint len < 0"
  shows "ParseRequestHeader (be16 k @ be16 v @ be32 c @ be16 (- 1) @ put_uvarint 1 @ put_uvarint 0 @ put_uvarint len @ rest) = None"
proof -
  let ?h = "be16 k @ be16 v @ be32 c @ nstr_bytes None"
  let ?t = "put_uvarint 1 @ put_uvarint 0 @ put_uvarint len"
  have f': "fits (?h @ ?t @ rest)"
    using f by (simp add: nstr_bytes_def)
  have "sint len < 0"
    using neg by simp
  then have tag: "DiscardTaggedFields (dec_at ?h (?t @ rest)) =
      Some ((dec_at (?h @ ?t) rest)\<lparr>d_pos := int (length (?h @ ?t)) + sint len\<rparr>)"
    using DiscardTaggedFields_rewinds [of ?h len rest] f' by simp
  have "go_slice_from m (int (length (?h @ ?t)) + sint len) = None" for m :: bytes
    using neg by (simp add: go_slice_from_def go_slice_def nstr_bytes_def)
  with tag have "ParseRequestHeader (?h @ ?t @ rest) = None"
    using f' fl Int16_at [of "[]" k "be16 v @ be32 c @ nstr_bytes None @ ?t @ rest"]
    by (simp add: ParseRequestHeader_def NewDecoder_at roundtrip RequestHeaderVersion_ge2 read_if_def
        ok_nstr_def Offset_def)
  then show ?thesis by (simp add: nstr_bytes_def)
qed

section \<open>The advertised versions\<close>

text \<open>A reader of the v3 body, as a client of the protocol would write it.\<close>

definition get_APIVersion :: "Decoder \<Rightarrow> (APIVersion \<times> Decoder) option" where
  "get_APIVersion d =
     do {
       (k, d) \<leftarrow> Int16 d; (mn, d) \<leftarrow> Int16 d; (mx, d) \<leftarrow> Int16 d;
       Some (\<lparr>av_Key = k, av_MinVersion = mn, av_MaxVersion = mx\<rparr>, d)
     }"

definition apiversion_bytes :: "APIVersion \<Rightarrow> bytes" where
  "apiversion_bytes v = be16 (av_Key v) @ be16 (av_MinVersion v) @ be16 (av_MaxVersion v)"

lemma e_b_put_APIVersion [put_bytes]: "e_b (put_APIVersion e v) = e_b e @ apiversion_bytes v"
  by (simp add: put_APIVersion_def apiversion_bytes_def put_bytes)

interpretation api_version: codec apiversion_bytes get_APIVersion "\<lambda>_. True" id
  by unfold_locales (simp add: apiversion_bytes_def get_APIVersion_def roundtrip)

lemma EncodeApiVersionsResponseV0_bytes:
  "EncodeApiVersionsResponseV0 err = be16 err @ array_bytes apiversion_bytes SupportedAPIVersions"
  using foldl_put [of put_APIVersion apiversion_bytes]
  by (simp add: EncodeApiVersionsResponseV0_def Bytes_def put_bytes array_bytes_def)

end
