(* ===== verification/Fetch.thy ===== *)
theory Fetch
  imports Reader
begin

text \<open>
  \<open>fetch.go\<close>: the Fetch request and response, both encoded and decoded by this program (the
  broker answers consumers and followers, and is itself a follower's client).  For every
  version the decoder inverts the encoder up to the fields that version does not carry
  (\<open>fetch_request_view\<close>, \<open>fetch_response_view\<close>), and decoding never panics.
\<close>

section \<open>Request\<close>

record FetchRequestPartition =
  frp_Index :: i32
  frp_CurrentLeaderEpoch :: i32
  frp_FetchOffset :: i64
  frp_LogStartOffset :: i64
  frp_MaxBytes :: i32

record FetchRequestTopic =
  frt_Name :: gostring
  frt_Partitions :: "FetchRequestPartition list"

record FetchForgottenTopic =
  fft_Name :: gostring
  fft_Partitions :: "i32 list"

record FetchRequest =
  fr_ReplicaID :: i32
  fr_MaxWaitMs :: i32
  fr_MinBytes :: i32
  fr_MaxBytes :: i32
  fr_IsolationLevel :: i8
  fr_SessionID :: i32
  fr_SessionEpoch :: i32
  fr_Topics :: "FetchRequestTopic list"
  fr_ForgottenTopics :: "FetchForgottenTopic list"
  fr_RackID :: gostring

definition put_FetchRequestPartition :: "i16 \<Rightarrow> Encoder \<Rightarrow> FetchRequestPartition \<Rightarrow> Encoder" where
  "put_FetchRequestPartition apiVersion e p =
     (let e = PutInt32 e (frp_Index p);
          e = (if sint apiVersion \<ge> 9 then PutInt32 e (frp_CurrentLeaderEpoch p) else e);
          e = PutInt64 e (frp_FetchOffset p);
          e = (if sint apiVersion \<ge> 5 then PutInt64 e (frp_LogStartOffset p) else e)
      in PutInt32 e (frp_MaxBytes p))"

definition put_FetchRequestTopic :: "i16 \<Rightarrow> Encoder \<Rightarrow> FetchRequestTopic \<Rightarrow> Encoder" where
  "put_FetchRequestTopic apiVersion e t =
     (let e = PutString e (frt_Name t)
      in PutArray (put_FetchRequestPartition apiVersion) e (frt_Partitions t))"

definition put_FetchForgottenTopic :: "Encoder \<Rightarrow> FetchForgottenTopic \<Rightarrow> Encoder" where
  "put_FetchForgottenTopic e ft =
     (let e = PutString e (fft_Name ft)
      in PutArray PutInt32 e (fft_Partitions ft))"

definition EncodeFetchRequest :: "FetchRequest \<Rightarrow> i16 \<Rightarrow> bytes" where
  "EncodeFetchRequest req apiVersion =
     (let e = NewEncoder;
          e = PutInt32 e (fr_ReplicaID req);
          e = PutInt32 e (fr_MaxWaitMs req);
          e = PutInt32 e (fr_MinBytes req);
          e = (if sint apiVersion \<ge> 3 then PutInt32 e (fr_MaxBytes req) else e);
          e = (if sint apiVersion \<ge> 4 then PutInt8 e (fr_IsolationLevel req) else e);
          e = (if sint apiVersion \<ge> 7
               then let e = PutInt32 e (fr_SessionID req) in PutInt32 e (fr_SessionEpoch req)
               else e);
          e = PutArray (put_FetchRequestTopic apiVersion) e (fr_Topics req);
          e = (if sint apiVersion \<ge> 7
               then PutArray put_FetchForgottenTopic e (fr_ForgottenTopics req) else e);
          e = (if sint apiVersion \<ge> 11 then PutString e (fr_RackID req) else e)
      in Bytes e)"

definition decode_FetchRequestPartition ::
    "i16 \<Rightarrow> Decoder \<Rightarrow> (FetchRequestPartition \<times> Decoder) option" where
  "decode_FetchRequestPartition apiVersion d =
     do {
       (index, d) \<leftarrow> Int32 d;
       (epoch, d) \<leftarrow> read_if (sint apiVersion \<ge> 9) Int32 (- 1) d;
       (offset, d) \<leftarrow> Int64 d;
       (start, d) \<leftarrow> read_if (sint apiVersion \<ge> 5) Int64 (- 1) d;
       (maxBytes, d) \<leftarrow> Int32 d;
       Some (\<lparr>frp_Index = index, frp_CurrentLeaderEpoch = epoch, frp_FetchOffset = offset,
              frp_LogStartOffset = start, frp_MaxBytes = maxBytes\<rparr>, d)
     }"

definition decode_FetchRequestTopic :: "i16 \<Rightarrow> Decoder \<Rightarrow> (FetchRequestTopic \<times> Decoder) option" where
  "decode_FetchRequestTopic apiVersion d =
     do {
       (name, d) \<leftarrow> String d;
       (parts, d) \<leftarrow> decode_array (decode_FetchRequestPartition apiVersion) d;
       Some (\<lparr>frt_Name = name, frt_Partitions = parts\<rparr>, d)
     }"

definition decode_FetchForgottenTopic :: "Decoder \<Rightarrow> (FetchForgottenTopic \<times> Decoder) option" where
  "decode_FetchForgottenTopic d =
     do {
       (name, d) \<leftarrow> String d;
       (parts, d) \<leftarrow> decode_array Int32 d;
       Some (\<lparr>fft_Name = name, fft_Partitions = parts\<rparr>, d)
     }"

definition fetch_request_fields :: "i16 \<Rightarrow> Decoder \<Rightarrow> (FetchRequest \<times> Decoder) option" where
  "fetch_request_fields apiVersion d =
     do {
       (replica, d) \<leftarrow> Int32 d;
       (maxWait, d) \<leftarrow> Int32 d;
       (minBytes, d) \<leftarrow> Int32 d;
       (maxBytes, d) \<leftarrow> read_if (sint apiVersion \<ge> 3) Int32 0x7fffffff d;
       (isolation, d) \<leftarrow> read_if (sint apiVersion \<ge> 4) Int8 0 d;
       (session, d) \<leftarrow> read_if (sint apiVersion \<ge> 7) Int32 0 d;
       (sessionEpoch, d) \<leftarrow> read_if (sint apiVersion \<ge> 7) Int32 (- 1) d;
       (topics, d) \<leftarrow> decode_array (decode_FetchRequestTopic apiVersion) d;
       (forgotten, d) \<leftarrow> read_if (sint apiVersion \<ge> 7) (decode_array decode_FetchForgottenTopic) [] d;
       (rack, d) \<leftarrow> read_if (sint apiVersion \<ge> 11) String [] d;
       Some (\<lparr>fr_ReplicaID = replica, fr_MaxWaitMs = maxWait, fr_MinBytes = minBytes,
              fr_MaxBytes = maxBytes, fr_IsolationLevel = isolation, fr_SessionID = session,
              fr_SessionEpoch = sessionEpoch, fr_Topics = topics, fr_ForgottenTopics = forgotten,
              fr_RackID = rack\<rparr>, d)
     }"

definition DecodeFetchRequest :: "bytes \<Rightarrow> i16 \<Rightarrow> (DecodeError + FetchRequest) option" where
  "DecodeFetchRequest body apiVersion =
     do { (req, d) \<leftarrow> fetch_request_fields apiVersion (NewDecoder body);
          Some (case d_err d of Some err \<Rightarrow> Inl err | None \<Rightarrow> Inr req) }"

section \<open>Response\<close>

record FetchResponsePartition =
  fsp_Index :: i32
  fsp_ErrorCode :: i16
  fsp_HighWatermark :: i64
  fsp_LastStableOffset :: i64
  fsp_LogStartOffset :: i64
  fsp_PreferredReadReplica :: i32
  fsp_Records :: "bytes option"

record FetchResponseTopic =
  fst_Name :: gostring
  fst_Partitions :: "FetchResponsePartition list"

record FetchResponse =
  fs_ThrottleTimeMs :: i32
  fs_ErrorCode :: i16
  fs_SessionID :: i32
  fs_Topics :: "FetchResponseTopic list"

text \<open>\<open>for k := int32(0); k < abortedTransactions; k++\<close>: not run for a null array.\<close>

definition skip_aborted :: "Decoder \<Rightarrow> (unit \<times> Decoder) option" where
  "skip_aborted d =
     do {
       (n, d) \<leftarrow> ArrayLen d;
       (_, d) \<leftarrow> decode_n (nat (max (sint n) 0)) (\<lambda>d. do { (_, d) \<leftarrow> Int64 d; (_, d) \<leftarrow> Int64 d; Some ((), d) }) d;
       Some ((), d)
     }"

definition decode_FetchResponsePartition ::
    "i16 \<Rightarrow> Decoder \<Rightarrow> (FetchResponsePartition \<times> Decoder) option" where
  "decode_FetchResponsePartition apiVersion d =
     do {
       (index, d) \<leftarrow> Int32 d;
       (err, d) \<leftarrow> Int16 d;
       (hw, d) \<leftarrow> Int64 d;
       (lso, d) \<leftarrow> read_if (sint apiVersion \<ge> 4) Int64 0 d;
       (start, d) \<leftarrow> read_if (sint apiVersion \<ge> 5) Int64 0 d;
       (_, d) \<leftarrow> read_if (sint apiVersion \<ge> 4) skip_aborted () d;
       (preferred, d) \<leftarrow> read_if (sint apiVersion \<ge> 11) Int32 0 d;
       (records, d) \<leftarrow> NullableBytes d;
       Some (\<lparr>fsp_Index = index, fsp_ErrorCode = err, fsp_HighWatermark = hw,
              fsp_LastStableOffset = lso, fsp_LogStartOffset = start,
              fsp_PreferredReadReplica = preferred, fsp_Records = records\<rparr>, d)
     }"

definition decode_FetchResponseTopic :: "i16 \<Rightarrow> Decoder \<Rightarrow> (FetchResponseTopic \<times> Decoder) option" where
  "decode_FetchResponseTopic apiVersion d =
     do {
       (name, d) \<leftarrow> String d;
       (parts, d) \<leftarrow> decode_array (decode_FetchResponsePartition apiVersion) d;
       Some (\<lparr>fst_Name = name, fst_Partitions = parts\<rparr>, d)
     }"

definition fetch_response_fields :: "i16 \<Rightarrow> Decoder \<Rightarrow> (FetchResponse \<times> Decoder) option" where
  "fetch_response_fields apiVersion d =
     do {
       (throttle, d) \<leftarrow> read_if (sint apiVersion \<ge> 1) Int32 0 d;
       (err, d) \<leftarrow> read_if (sint apiVersion \<ge> 7) Int16 0 d;
       (session, d) \<leftarrow> read_if (sint apiVersion \<ge> 7) Int32 0 d;
       (topics, d) \<leftarrow> decode_array (decode_FetchResponseTopic apiVersion) d;
       Some (\<lparr>fs_ThrottleTimeMs = throttle, fs_ErrorCode = err, fs_SessionID = session,
              fs_Topics = topics\<rparr>, d)
     }"

definition DecodeFetchResponse :: "bytes \<Rightarrow> i16 \<Rightarrow> (DecodeError + FetchResponse) option" where
  "DecodeFetchResponse body apiVersion =
     do { (resp, d) \<leftarrow> fetch_response_fields apiVersion (NewDecoder body);
          Some (case d_err d of Some err \<Rightarrow> Inl err | None \<Rightarrow> Inr resp) }"

definition putNonNullRecords :: "Encoder \<Rightarrow> bytes option \<Rightarrow> Encoder" where
  "putNonNullRecords e records =
     (let records = (case records of None \<Rightarrow> Some [] | Some r \<Rightarrow> Some r) in PutNullableBytes e records)"

definition put_FetchResponsePartition :: "i16 \<Rightarrow> Encoder \<Rightarrow> FetchResponsePartition \<Rightarrow> Encoder" where
  "put_FetchResponsePartition apiVersion e p =
     (let e = PutInt32 e (fsp_Index p);
          e = PutInt16 e (fsp_ErrorCode p);
          e = PutInt64 e (fsp_HighWatermark p);
          e = (if sint apiVersion \<ge> 4 then PutInt64 e (fsp_LastStableOffset p) else e);
          e = (if sint apiVersion \<ge> 5 then PutInt64 e (fsp_LogStartOffset p) else e);
          e = (if sint apiVersion \<ge> 4 then PutArrayLen e (- 1) else e);
          e = (if sint apiVersion \<ge> 11 then PutInt32 e (fsp_PreferredReadReplica p) else e)
      in putNonNullRecords e (fsp_Records p))"

definition put_FetchResponseTopic :: "i16 \<Rightarrow> Encoder \<Rightarrow> FetchResponseTopic \<Rightarrow> Encoder" where
  "put_FetchResponseTopic apiVersion e t =
     (let e = PutString e (fst_Name t)
      in PutArray (put_FetchResponsePartition apiVersion) e (fst_Partitions t))"

definition EncodeFetchResponse :: "FetchResponse \<Rightarrow> i16 \<Rightarrow> bytes" where
  "EncodeFetchResponse resp apiVersion =
     (let e = NewEncoder;
          e = (if sint apiVersion \<ge> 1 then PutInt32 e (fs_ThrottleTimeMs resp) else e);
          e = (if sint apiVersion \<ge> 7
               then let e = PutInt16 e (fs_ErrorCode resp) in PutInt32 e (fs_SessionID resp)
               else e);
          e = PutArray (put_FetchResponseTopic apiVersion) e (fs_Topics resp)
      in Bytes e)"

section \<open>Round trip of the request\<close>

definition frp_bytes :: "i16 \<Rightarrow> FetchRequestPartition \<Rightarrow> bytes" where
  "frp_bytes v p =
     be32 (frp_Index p) @ bytes_if (sint v \<ge> 9) (be32 (frp_CurrentLeaderEpoch p)) @
     be64 (frp_FetchOffset p) @ bytes_if (sint v \<ge> 5) (be64 (frp_LogStartOffset p)) @
     be32 (frp_MaxBytes p)"

definition frp_view :: "i16 \<Rightarrow> FetchRequestPartition \<Rightarrow> FetchRequestPartition" where
  "frp_view v p =
     p\<lparr>frp_CurrentLeaderEpoch := (if sint v \<ge> 9 then frp_CurrentLeaderEpoch p else - 1),
       frp_LogStartOffset := (if sint v \<ge> 5 then frp_LogStartOffset p else - 1)\<rparr>"

definition frt_bytes :: "i16 \<Rightarrow> FetchRequestTopic \<Rightarrow> bytes" where
  "frt_bytes v t = str_bytes (frt_Name t) @ array_bytes (frp_bytes v) (frt_Partitions t)"

definition frt_ok :: "FetchRequestTopic \<Rightarrow> bool" where
  "frt_ok t \<longleftrightarrow> ok_str (frt_Name t) \<and> ok_len (frt_Partitions t)"

definition frt_view :: "i16 \<Rightarrow> FetchRequestTopic \<Rightarrow> FetchRequestTopic" where
  "frt_view v t = t\<lparr>frt_Partitions := map (frp_view v) (frt_Partitions t)\<rparr>"

definition fft_bytes :: "FetchForgottenTopic \<Rightarrow> bytes" where
  "fft_bytes t = str_bytes (fft_Name t) @ array_bytes be32 (fft_Partitions t)"

definition fft_ok :: "FetchForgottenTopic \<Rightarrow> bool" where
  "fft_ok t \<longleftrightarrow> ok_str (fft_Name t) \<and> ok_len (fft_Partitions t)"

lemma e_b_put_FetchRequestPartition [put_bytes]:
  "e_b (put_FetchRequestPartition v e p) = e_b e @ frp_bytes v p"
  by (simp add: put_FetchRequestPartition_def frp_bytes_def bytes_if_def put_bytes)

lemma e_b_put_FetchRequestTopic [put_bytes]:
  "e_b (put_FetchRequestTopic v e t) = e_b e @ frt_bytes v t"
  by (simp add: put_FetchRequestTopic_def frt_bytes_def e_b_PutArray [where g = "frp_bytes v"] put_bytes)

lemma e_b_put_FetchForgottenTopic [put_bytes]:
  "e_b (put_FetchForgottenTopic e t) = e_b e @ fft_bytes t"
  by (simp add: put_FetchForgottenTopic_def fft_bytes_def e_b_PutArray [where g = be32] put_bytes)

interpretation fetch_request_partition:
  codec "frp_bytes v" "decode_FetchRequestPartition v" "\<lambda>_. True" "frp_view v" for v
  by unfold_locales (simp add: frp_bytes_def decode_FetchRequestPartition_def frp_view_def roundtrip)

interpretation fetch_request_topic:
  codec "frt_bytes v" "decode_FetchRequestTopic v" frt_ok "frt_view v" for v
  by unfold_locales
    (simp add: frt_bytes_def decode_FetchRequestTopic_def frt_view_def frt_ok_def roundtrip
      codec.get_put [OF fetch_request_partition.array] list_all_iff)

interpretation fetch_forgotten_topic: codec fft_bytes decode_FetchForgottenTopic fft_ok id
  by unfold_locales (simp add: fft_bytes_def decode_FetchForgottenTopic_def fft_ok_def roundtrip list_all_iff)

interpretation fetch_forgotten_topics:
  codec "array_bytes fft_bytes" "decode_array decode_FetchForgottenTopic"
    "\<lambda>xs. ok_len xs \<and> list_all fft_ok xs" "map id"
  by (rule fetch_forgotten_topic.array)

definition fr_bytes :: "i16 \<Rightarrow> FetchRequest \<Rightarrow> bytes" where
  "fr_bytes v r =
     be32 (fr_ReplicaID r) @ be32 (fr_MaxWaitMs r) @ be32 (fr_MinBytes r) @
     bytes_if (sint v \<ge> 3) (be32 (fr_MaxBytes r)) @ bytes_if (sint v \<ge> 4) [fr_IsolationLevel r] @
     bytes_if (sint v \<ge> 7) (be32 (fr_SessionID r)) @ bytes_if (sint v \<ge> 7) (be32 (fr_SessionEpoch r)) @
     array_bytes (frt_bytes v) (fr_Topics r) @
     bytes_if (sint v \<ge> 7) (array_bytes fft_bytes (fr_ForgottenTopics r)) @
     bytes_if (sint v \<ge> 11) (str_bytes (fr_RackID r))"

text \<open>What fits the length prefixes of the wire format.\<close>

definition fetch_request_ok :: "FetchRequest \<Rightarrow> bool" where
  "fetch_request_ok r \<longleftrightarrow>
     ok_len (fr_Topics r) \<and> list_all frt_ok (fr_Topics r) \<and>
     ok_len (fr_ForgottenTopics r) \<and> list_all fft_ok (fr_ForgottenTopics r) \<and> ok_str (fr_RackID r)"

text \<open>What a version of the request carries; the rest has the decoder's defaults.\<close>

definition fetch_request_view :: "i16 \<Rightarrow> FetchRequest \<Rightarrow> FetchRequest" where
  "fetch_request_view v r =
     r\<lparr>fr_MaxBytes := (if sint v \<ge> 3 then fr_MaxBytes r else 0x7fffffff),
       fr_IsolationLevel := (if sint v \<ge> 4 then fr_IsolationLevel r else 0),
       fr_SessionID := (if sint v \<ge> 7 then fr_SessionID r else 0),
       fr_SessionEpoch := (if sint v \<ge> 7 then fr_SessionEpoch r else - 1),
       fr_Topics := map (frt_view v) (fr_Topics r),
       fr_ForgottenTopics := (if sint v \<ge> 7 then fr_ForgottenTopics r else []),
       fr_RackID := (if sint v \<ge> 11 then fr_RackID r else [])\<rparr>"

lemma EncodeFetchRequest_bytes: "EncodeFetchRequest r v = fr_bytes v r"
  by (simp add: EncodeFetchRequest_def fr_bytes_def bytes_if_def Bytes_def put_bytes Let_def
      e_b_PutArray [where g = "frt_bytes v"] e_b_PutArray [where g = fft_bytes])

interpretation fetch_request:
  codec "fr_bytes v" "fetch_request_fields v" fetch_request_ok "fetch_request_view v" for v
  by unfold_locales
    (simp add: fr_bytes_def fetch_request_fields_def fetch_request_view_def fetch_request_ok_def roundtrip
      codec.get_put [OF fetch_request_topic.array] fetch_forgotten_topics.read_if_at list_all_iff)

section \<open>Round trip of the response\<close>

definition fsp_bytes :: "i16 \<Rightarrow> FetchResponsePartition \<Rightarrow> bytes" where
  "fsp_bytes v p =
     be32 (fsp_Index p) @ be16 (fsp_ErrorCode p) @ be64 (fsp_HighWatermark p) @
     bytes_if (sint v \<ge> 4) (be64 (fsp_LastStableOffset p)) @
     bytes_if (sint v \<ge> 5) (be64 (fsp_LogStartOffset p)) @
     bytes_if (sint v \<ge> 4) (be32 (- 1)) @
     bytes_if (sint v \<ge> 11) (be32 (fsp_PreferredReadReplica p)) @
     nbytes_bytes (Some (case fsp_Records p of None \<Rightarrow> [] | Some r \<Rightarrow> r))"

definition fsp_ok :: "FetchResponsePartition \<Rightarrow> bool" where
  "fsp_ok p \<longleftrightarrow> ok_nbytes (fsp_Records p)"

definition fsp_view :: "i16 \<Rightarrow> FetchResponsePartition \<Rightarrow> FetchResponsePartition" where
  "fsp_view v p =
     p\<lparr>fsp_LastStableOffset := (if sint v \<ge> 4 then fsp_LastStableOffset p else 0),
       fsp_LogStartOffset := (if sint v \<ge> 5 then fsp_LogStartOffset p else 0),
       fsp_PreferredReadReplica := (if sint v \<ge> 11 then fsp_PreferredReadReplica p else 0),
       fsp_Records := Some (case fsp_Records p of None \<Rightarrow> [] | Some r \<Rightarrow> r)\<rparr>"

definition fst_bytes :: "i16 \<Rightarrow> FetchResponseTopic \<Rightarrow> bytes" where
  "fst_bytes v t = str_bytes (fst_Name t) @ array_bytes (fsp_bytes v) (fst_Partitions t)"

definition fst_ok :: "FetchResponseTopic \<Rightarrow> bool" where
  "fst_ok t \<longleftrightarrow> ok_str (fst_Name t) \<and> ok_len (fst_Partitions t) \<and> list_all fsp_ok (fst_Partitions t)"

definition fst_view :: "i16 \<Rightarrow> FetchResponseTopic \<Rightarrow> FetchResponseTopic" where
  "fst_view v t = t\<lparr>fst_Partitions := map (fsp_view v) (fst_Partitions t)\<rparr>"

definition fs_bytes :: "i16 \<Rightarrow> FetchResponse \<Rightarrow> bytes" where
  "fs_bytes v r =
     bytes_if (sint v \<ge> 1) (be32 (fs_ThrottleTimeMs r)) @ bytes_if (sint v \<ge> 7) (be16 (fs_ErrorCode r)) @
     bytes_if (sint v \<ge> 7) (be32 (fs_SessionID r)) @ array_bytes (fst_bytes v) (fs_Topics r)"

definition fetch_response_ok :: "FetchResponse \<Rightarrow> bool" where
  "fetch_response_ok r \<longleftrightarrow> ok_len (fs_Topics r) \<and> list_all fst_ok (fs_Topics r)"

definition fetch_response_view :: "i16 \<Rightarrow> FetchResponse \<Rightarrow> FetchResponse" where
  "fetch_response_view v r =
     r\<lparr>fs_ThrottleTimeMs := (if sint v \<ge> 1 then fs_ThrottleTimeMs r else 0),
       fs_ErrorCode := (if sint v \<ge> 7 then fs_ErrorCode r else 0),
       fs_SessionID := (if sint v \<ge> 7 then fs_SessionID r else 0),
       fs_Topics := map (fst_view v) (fs_Topics r)\<rparr>"

lemma e_b_put_FetchResponsePartition [put_bytes]:
  "e_b (put_FetchResponsePartition v e p) = e_b e @ fsp_bytes v p"
  by (simp add: put_FetchResponsePartition_def putNonNullRecords_def fsp_bytes_def bytes_if_def put_bytes
      split: option.split)

lemma e_b_put_FetchResponseTopic [put_bytes]:
  "e_b (put_FetchResponseTopic v e t) = e_b e @ fst_bytes v t"
  by (simp add: put_FetchResponseTopic_def fst_bytes_def e_b_PutArray [where g = "fsp_bytes v"] put_bytes)

lemma EncodeFetchResponse_bytes: "EncodeFetchResponse r v = fs_bytes v r"
  by (simp add: EncodeFetchResponse_def fs_bytes_def bytes_if_def Bytes_def put_bytes Let_def
      e_b_PutArray [where g = "fst_bytes v"])

interpretation null_aborted: codec "\<lambda>_. be32 (- 1)" skip_aborted "\<lambda>_. True" "\<lambda>_. ()"
  by unfold_locales (simp add: skip_aborted_def roundtrip)

lemma ok_nonnull: "ok_nbytes r \<Longrightarrow> ok_nbytes (Some (case r of None \<Rightarrow> [] | Some x \<Rightarrow> x))"
  by (simp add: ok_nbytes_def ok_bytes_def split: option.splits)

interpretation fetch_response_partition:
  codec "fsp_bytes v" "decode_FetchResponsePartition v" fsp_ok "fsp_view v" for v
  by unfold_locales
    (simp add: fsp_bytes_def decode_FetchResponsePartition_def fsp_view_def fsp_ok_def roundtrip
      null_aborted.read_if_at ok_nonnull)

interpretation fetch_response_topic:
  codec "fst_bytes v" "decode_FetchResponseTopic v" fst_ok "fst_view v" for v
  by unfold_locales
    (simp add: fst_bytes_def decode_FetchResponseTopic_def fst_view_def fst_ok_def roundtrip
      codec.get_put [OF fetch_response_partition.array])

interpretation fetch_response:
  codec "fs_bytes v" "fetch_response_fields v" fetch_response_ok "fetch_response_view v" for v
  by unfold_locales
    (simp add: fs_bytes_def fetch_response_fields_def fetch_response_view_def fetch_response_ok_def roundtrip
      codec.get_put [OF fetch_response_topic.array])

section \<open>Panic freedom\<close>

interpretation r_fetch_request: reader "fetch_request_fields v" for v
  unfolding fetch_request_fields_def [abs_def] decode_FetchRequestTopic_def [abs_def]
    decode_FetchRequestPartition_def [abs_def] decode_FetchForgottenTopic_def [abs_def]
  by (intro reader_rules)

interpretation r_fetch_response: reader "fetch_response_fields v" for v
  unfolding fetch_response_fields_def [abs_def] decode_FetchResponseTopic_def [abs_def]
    decode_FetchResponsePartition_def [abs_def] skip_aborted_def [abs_def]
  by (intro reader_rules reader.repeated)

end
