(* ===== verification/Produce.thy ===== *)
theory Produce
  imports Reader
begin

text \<open>
  \<open>produce.go\<close>: decoding a Produce request and encoding its response.  The other direction of
  each is the client's, so the layouts \<open>pr_bytes\<close> (request) and the reader
  \<open>client_ProduceResponse\<close> (response) are written after the version table at the head of the
  file; the program's functions are shown to agree with them.
\<close>

section \<open>Request\<close>

record ProduceRequestPartition =
  prp_Index :: i32
  prp_Records :: "bytes option"

record ProduceRequestTopic =
  prt_Name :: gostring
  prt_Partitions :: "ProduceRequestPartition list"

record ProduceRequest =
  pr_TransactionalID :: "gostring option"
  pr_Acks :: i16
  pr_TimeoutMs :: i32
  pr_Topics :: "ProduceRequestTopic list"

definition decode_ProduceRequestPartition :: "Decoder \<Rightarrow> (ProduceRequestPartition \<times> Decoder) option" where
  "decode_ProduceRequestPartition d =
     do {
       (index, d) \<leftarrow> Int32 d;
       (records, d) \<leftarrow> NullableBytes d;
       Some (\<lparr>prp_Index = index, prp_Records = records\<rparr>, d)
     }"

definition decode_ProduceRequestTopic :: "Decoder \<Rightarrow> (ProduceRequestTopic \<times> Decoder) option" where
  "decode_ProduceRequestTopic d =
     do {
       (name, d) \<leftarrow> String d;
       (parts, d) \<leftarrow> decode_array decode_ProduceRequestPartition d;
       Some (\<lparr>prt_Name = name, prt_Partitions = parts\<rparr>, d)
     }"

definition produce_request_fields :: "Decoder \<Rightarrow> (ProduceRequest \<times> Decoder) option" where
  "produce_request_fields d =
     do {
       (txn, d) \<leftarrow> NullableString d;
       (acks, d) \<leftarrow> Int16 d;
       (timeout, d) \<leftarrow> Int32 d;
       (topics, d) \<leftarrow> decode_array decode_ProduceRequestTopic d;
       Some (\<lparr>pr_TransactionalID = txn, pr_Acks = acks, pr_TimeoutMs = timeout, pr_Topics = topics\<rparr>, d)
     }"

definition DecodeProduceRequest :: "bytes \<Rightarrow> i16 \<Rightarrow> (DecodeError + ProduceRequest) option" where
  "DecodeProduceRequest body apiVersion =
     do { (req, d) \<leftarrow> produce_request_fields (NewDecoder body);
          Some (case d_err d of Some err \<Rightarrow> Inl err | None \<Rightarrow> Inr req) }"

section \<open>Response\<close>

record ProduceRecordError =
  pre_BatchIndex :: i32
  pre_Message :: "gostring option"

record ProduceResponsePartition =
  psp_Index :: i32
  psp_ErrorCode :: i16
  psp_BaseOffset :: i64
  psp_LogAppendTime :: i64
  psp_LogStartOffset :: i64
  psp_RecordErrors :: "ProduceRecordError list"
  psp_ErrorMessage :: "gostring option"

record ProduceResponseTopic =
  pst_Name :: gostring
  pst_Partitions :: "ProduceResponsePartition list"

record ProduceResponse =
  ps_Topics :: "ProduceResponseTopic list"
  ps_ThrottleTime :: i32

definition put_ProduceRecordError :: "Encoder \<Rightarrow> ProduceRecordError \<Rightarrow> Encoder" where
  "put_ProduceRecordError e re =
     (let e = PutInt32 e (pre_BatchIndex re) in PutNullableString e (pre_Message re))"

definition put_ProduceResponsePartition :: "i16 \<Rightarrow> Encoder \<Rightarrow> ProduceResponsePartition \<Rightarrow> Encoder" where
  "put_ProduceResponsePartition apiVersion e p =
     (let e = PutInt32 e (psp_Index p);
          e = PutInt16 e (psp_ErrorCode p);
          e = PutInt64 e (psp_BaseOffset p);
          e = (if sint apiVersion \<ge> 2 then PutInt64 e (psp_LogAppendTime p) else e);
          e = (if sint apiVersion \<ge> 5 then PutInt64 e (psp_LogStartOffset p) else e);
          e = (if sint apiVersion \<ge> 8
               then let e = PutArray put_ProduceRecordError e (psp_RecordErrors p)
                    in PutNullableString e (psp_ErrorMessage p)
               else e)
      in e)"

definition put_ProduceResponseTopic :: "i16 \<Rightarrow> Encoder \<Rightarrow> ProduceResponseTopic \<Rightarrow> Encoder" where
  "put_ProduceResponseTopic apiVersion e t =
     (let e = PutString e (pst_Name t)
      in PutArray (put_ProduceResponsePartition apiVersion) e (pst_Partitions t))"

definition EncodeProduceResponse :: "ProduceResponse \<Rightarrow> i16 \<Rightarrow> bytes" where
  "EncodeProduceResponse resp apiVersion =
     (let e = NewEncoder;
          e = PutArray (put_ProduceResponseTopic apiVersion) e (ps_Topics resp);
          e = (if sint apiVersion \<ge> 1 then PutInt32 e (ps_ThrottleTime resp) else e)
      in Bytes e)"

section \<open>Decoding a request as a client lays it out\<close>

definition prp_bytes :: "ProduceRequestPartition \<Rightarrow> bytes" where
  "prp_bytes p = be32 (prp_Index p) @ nbytes_bytes (prp_Records p)"

definition prt_bytes :: "ProduceRequestTopic \<Rightarrow> bytes" where
  "prt_bytes t = str_bytes (prt_Name t) @ array_bytes prp_bytes (prt_Partitions t)"

definition pr_bytes :: "ProduceRequest \<Rightarrow> bytes" where
  "pr_bytes r =
     nstr_bytes (pr_TransactionalID r) @ be16 (pr_Acks r) @ be32 (pr_TimeoutMs r) @
     array_bytes prt_bytes (pr_Topics r)"

definition prp_ok :: "ProduceRequestPartition \<Rightarrow> bool" where
  "prp_ok p \<longleftrightarrow> ok_nbytes (prp_Records p)"

definition prt_ok :: "ProduceRequestTopic \<Rightarrow> bool" where
  "prt_ok t \<longleftrightarrow> ok_str (prt_Name t) \<and> ok_len (prt_Partitions t) \<and> list_all prp_ok (prt_Partitions t)"

definition produce_request_ok :: "ProduceRequest \<Rightarrow> bool" where
  "produce_request_ok r \<longleftrightarrow>
     ok_nstr (pr_TransactionalID r) \<and> ok_len (pr_Topics r) \<and> list_all prt_ok (pr_Topics r)"

interpretation produce_request_partition: codec prp_bytes decode_ProduceRequestPartition prp_ok id
  by unfold_locales (simp add: prp_bytes_def decode_ProduceRequestPartition_def prp_ok_def roundtrip)

interpretation produce_request_topic: codec prt_bytes decode_ProduceRequestTopic prt_ok id
  by unfold_locales
    (simp add: prt_bytes_def decode_ProduceRequestTopic_def prt_ok_def roundtrip
      codec.get_put [OF produce_request_partition.array])

interpretation produce_request: codec pr_bytes produce_request_fields produce_request_ok id
  by unfold_locales
    (simp add: pr_bytes_def produce_request_fields_def produce_request_ok_def roundtrip
      codec.get_put [OF produce_request_topic.array])

interpretation r_produce_request: reader produce_request_fields
  unfolding produce_request_fields_def [abs_def] decode_ProduceRequestTopic_def [abs_def]
    decode_ProduceRequestPartition_def [abs_def]
  by (intro reader_rules)

section \<open>Reading a response as a client does\<close>

definition client_ProduceRecordError :: "Decoder \<Rightarrow> (ProduceRecordError \<times> Decoder) option" where
  "client_ProduceRecordError d =
     do { (i, d) \<leftarrow> Int32 d; (m, d) \<leftarrow> NullableString d; Some (\<lparr>pre_BatchIndex = i, pre_Message = m\<rparr>, d) }"

definition client_ProduceResponsePartition :: "i16 \<Rightarrow> Decoder \<Rightarrow> (ProduceResponsePartition \<times> Decoder) option" where
  "client_ProduceResponsePartition v d =
     do {
       (index, d) \<leftarrow> Int32 d;
       (err, d) \<leftarrow> Int16 d;
       (base, d) \<leftarrow> Int64 d;
       (time, d) \<leftarrow> read_if (sint v \<ge> 2) Int64 (- 1) d;
       (start, d) \<leftarrow> read_if (sint v \<ge> 5) Int64 (- 1) d;
       (errs, d) \<leftarrow> read_if (sint v \<ge> 8) (decode_array client_ProduceRecordError) [] d;
       (msg, d) \<leftarrow> read_if (sint v \<ge> 8) NullableString None d;
       Some (\<lparr>psp_Index = index, psp_ErrorCode = err, psp_BaseOffset = base, psp_LogAppendTime = time,
              psp_LogStartOffset = start, psp_RecordErrors = errs, psp_ErrorMessage = msg\<rparr>, d)
     }"

definition client_ProduceResponseTopic :: "i16 \<Rightarrow> Decoder \<Rightarrow> (ProduceResponseTopic \<times> Decoder) option" where
  "client_ProduceResponseTopic v d =
     do { (name, d) \<leftarrow> String d; (ps, d) \<leftarrow> decode_array (client_ProduceResponsePartition v) d;
          Some (\<lparr>pst_Name = name, pst_Partitions = ps\<rparr>, d) }"

definition client_ProduceResponse :: "i16 \<Rightarrow> Decoder \<Rightarrow> (ProduceResponse \<times> Decoder) option" where
  "client_ProduceResponse v d =
     do { (ts, d) \<leftarrow> decode_array (client_ProduceResponseTopic v) d;
          (th, d) \<leftarrow> read_if (sint v \<ge> 1) Int32 0 d;
          Some (\<lparr>ps_Topics = ts, ps_ThrottleTime = th\<rparr>, d) }"

definition pre_bytes :: "ProduceRecordError \<Rightarrow> bytes" where
  "pre_bytes x = be32 (pre_BatchIndex x) @ nstr_bytes (pre_Message x)"

definition psp_bytes :: "i16 \<Rightarrow> ProduceResponsePartition \<Rightarrow> bytes" where
  "psp_bytes v p =
     be32 (psp_Index p) @ be16 (psp_ErrorCode p) @ be64 (psp_BaseOffset p) @
     bytes_if (sint v \<ge> 2) (be64 (psp_LogAppendTime p)) @
     bytes_if (sint v \<ge> 5) (be64 (psp_LogStartOffset p)) @
     bytes_if (sint v \<ge> 8) (array_bytes pre_bytes (psp_RecordErrors p)) @
     bytes_if (sint v \<ge> 8) (nstr_bytes (psp_ErrorMessage p))"

definition pst_bytes :: "i16 \<Rightarrow> ProduceResponseTopic \<Rightarrow> bytes" where
  "pst_bytes v t = str_bytes (pst_Name t) @ array_bytes (psp_bytes v) (pst_Partitions t)"

definition ps_bytes :: "i16 \<Rightarrow> ProduceResponse \<Rightarrow> bytes" where
  "ps_bytes v r = array_bytes (pst_bytes v) (ps_Topics r) @ bytes_if (sint v \<ge> 1) (be32 (ps_ThrottleTime r))"

definition pre_ok :: "ProduceRecordError \<Rightarrow> bool" where
  "pre_ok x \<longleftrightarrow> ok_nstr (pre_Message x)"

definition psp_ok :: "ProduceResponsePartition \<Rightarrow> bool" where
  "psp_ok p \<longleftrightarrow> ok_len (psp_RecordErrors p) \<and> list_all pre_ok (psp_RecordErrors p) \<and> ok_nstr (psp_ErrorMessage p)"

definition pst_ok :: "ProduceResponseTopic \<Rightarrow> bool" where
  "pst_ok t \<longleftrightarrow> ok_str (pst_Name t) \<and> ok_len (pst_Partitions t) \<and> list_all psp_ok (pst_Partitions t)"

definition produce_response_ok :: "ProduceResponse \<Rightarrow> bool" where
  "produce_response_ok r \<longleftrightarrow> ok_len (ps_Topics r) \<and> list_all pst_ok (ps_Topics r)"

definition psp_view :: "i16 \<Rightarrow> ProduceResponsePartition \<Rightarrow> ProduceResponsePartition" where
  "psp_view v p =
     p\<lparr>psp_LogAppendTime := (if sint v \<ge> 2 then psp_LogAppendTime p else - 1),
       psp_LogStartOffset := (if sint v \<ge> 5 then psp_LogStartOffset p else - 1),
       psp_RecordErrors := (if sint v \<ge> 8 then psp_RecordErrors p else []),
       psp_ErrorMessage := (if sint v \<ge> 8 then psp_ErrorMessage p else None)\<rparr>"

definition pst_view :: "i16 \<Rightarrow> ProduceResponseTopic \<Rightarrow> ProduceResponseTopic" where
  "pst_view v t = t\<lparr>pst_Partitions := map (psp_view v) (pst_Partitions t)\<rparr>"

definition produce_response_view :: "i16 \<Rightarrow> ProduceResponse \<Rightarrow> ProduceResponse" where
  "produce_response_view v r =
     r\<lparr>ps_Topics := map (pst_view v) (ps_Topics r),
       ps_ThrottleTime := (if sint v \<ge> 1 then ps_ThrottleTime r else 0)\<rparr>"

lemma e_b_put_ProduceRecordError [put_bytes]: "e_b (put_ProduceRecordError e x) = e_b e @ pre_bytes x"
  by (simp add: put_ProduceRecordError_def pre_bytes_def put_bytes)

lemma e_b_put_ProduceResponsePartition [put_bytes]:
  "e_b (put_ProduceResponsePartition v e p) = e_b e @ psp_bytes v p"
  by (simp add: put_ProduceResponsePartition_def psp_bytes_def bytes_if_def Let_def put_bytes
      e_b_PutArray [where g = pre_bytes])

lemma e_b_put_ProduceResponseTopic [put_bytes]:
  "e_b (put_ProduceResponseTopic v e t) = e_b e @ pst_bytes v t"
  by (simp add: put_ProduceResponseTopic_def pst_bytes_def put_bytes e_b_PutArray [where g = "psp_bytes v"])

lemma EncodeProduceResponse_bytes: "EncodeProduceResponse r v = ps_bytes v r"
  by (simp add: EncodeProduceResponse_def ps_bytes_def bytes_if_def Bytes_def put_bytes
      e_b_PutArray [where g = "pst_bytes v"])

interpretation produce_record_error: codec pre_bytes client_ProduceRecordError pre_ok id
  by unfold_locales (simp add: pre_bytes_def client_ProduceRecordError_def pre_ok_def roundtrip)

interpretation produce_record_errors:
  codec "array_bytes pre_bytes" "decode_array client_ProduceRecordError"
    "\<lambda>xs. ok_len xs \<and> list_all pre_ok xs" "map id"
  by (rule produce_record_error.array)

interpretation produce_response_partition:
  codec "psp_bytes v" "client_ProduceResponsePartition v" psp_ok "psp_view v" for v
  by unfold_locales
    (simp add: psp_bytes_def client_ProduceResponsePartition_def psp_view_def psp_ok_def roundtrip
      produce_record_errors.read_if_at)

interpretation produce_response_topic:
  codec "pst_bytes v" "client_ProduceResponseTopic v" pst_ok "pst_view v" for v
  by unfold_locales
    (simp add: pst_bytes_def client_ProduceResponseTopic_def pst_view_def pst_ok_def roundtrip
      codec.get_put [OF produce_response_partition.array])

interpretation produce_response:
  codec "ps_bytes v" "client_ProduceResponse v" produce_response_ok "produce_response_view v" for v
  by unfold_locales
    (simp add: ps_bytes_def client_ProduceResponse_def produce_response_view_def produce_response_ok_def roundtrip
      codec.get_put [OF produce_response_topic.array])

end
