(* ===== verification/ListOffsets.thy ===== *)
theory ListOffsets
  imports Reader
begin

text \<open>
  \<open>list_offsets.go\<close>: decoding a ListOffsets request and encoding its response, against the
  layouts in the comment at the head of that file.
\<close>

section \<open>Request\<close>

record ListOffsetsRequestPartition =
  lrp_Index :: i32
  lrp_CurrentLeaderEpoch :: i32
  lrp_Timestamp :: i64

record ListOffsetsRequestTopic =
  lrt_Name :: gostring
  lrt_Partitions :: "ListOffsetsRequestPartition list"

record ListOffsetsRequest =
  lr_ReplicaID :: i32
  lr_IsolationLevel :: i8
  lr_Topics :: "ListOffsetsRequestTopic list"

definition decode_ListOffsetsRequestPartition ::
    "i16 \<Rightarrow> Decoder \<Rightarrow> (ListOffsetsRequestPartition \<times> Decoder) option" where
  "decode_ListOffsetsRequestPartition apiVersion d =
     do {
       (index, d) \<leftarrow> Int32 d;
       (epoch, d) \<leftarrow> read_if (sint apiVersion \<ge> 4) Int32 (- 1) d;
       (ts, d) \<leftarrow> Int64 d;
       Some (\<lparr>lrp_Index = index, lrp_CurrentLeaderEpoch = epoch, lrp_Timestamp = ts\<rparr>, d)
     }"

definition decode_ListOffsetsRequestTopic ::
    "i16 \<Rightarrow> Decoder \<Rightarrow> (ListOffsetsRequestTopic \<times> Decoder) option" where
  "decode_ListOffsetsRequestTopic apiVersion d =
     do {
       (name, d) \<leftarrow> String d;
       (parts, d) \<leftarrow> decode_array (decode_ListOffsetsRequestPartition apiVersion) d;
       Some (\<lparr>lrt_Name = name, lrt_Partitions = parts\<rparr>, d)
     }"

definition list_offsets_request_fields :: "i16 \<Rightarrow> Decoder \<Rightarrow> (ListOffsetsRequest \<times> Decoder) option" where
  "list_offsets_request_fields apiVersion d =
     do {
       (replica, d) \<leftarrow> Int32 d;
       (isolation, d) \<leftarrow> read_if (sint apiVersion \<ge> 2) Int8 0 d;
       (topics, d) \<leftarrow> decode_array (decode_ListOffsetsRequestTopic apiVersion) d;
       Some (\<lparr>lr_ReplicaID = replica, lr_IsolationLevel = isolation, lr_Topics = topics\<rparr>, d)
     }"

definition DecodeListOffsetsRequest :: "bytes \<Rightarrow> i16 \<Rightarrow> (DecodeError + ListOffsetsRequest) option" where
  "DecodeListOffsetsRequest body apiVersion =
     do { (req, d) \<leftarrow> list_offsets_request_fields apiVersion (NewDecoder body);
          Some (case d_err d of Some err \<Rightarrow> Inl err | None \<Rightarrow> Inr req) }"

section \<open>Response\<close>

record ListOffsetsResponsePartition =
  lsp_Index :: i32
  lsp_ErrorCode :: i16
  lsp_Timestamp :: i64
  lsp_Offset :: i64
  lsp_LeaderEpoch :: i32

record ListOffsetsResponseTopic =
  lst_Name :: gostring
  lst_Partitions :: "ListOffsetsResponsePartition list"

record ListOffsetsResponse =
  ls_ThrottleTimeMs :: i32
  ls_Topics :: "ListOffsetsResponseTopic list"

definition put_ListOffsetsResponsePartition :: "i16 \<Rightarrow> Encoder \<Rightarrow> ListOffsetsResponsePartition \<Rightarrow> Encoder" where
  "put_ListOffsetsResponsePartition apiVersion e p =
     (let e = PutInt32 e (lsp_Index p);
          e = PutInt16 e (lsp_ErrorCode p);
          e = PutInt64 e (lsp_Timestamp p);
          e = PutInt64 e (lsp_Offset p)
      in if sint apiVersion \<ge> 4 then PutInt32 e (lsp_LeaderEpoch p) else e)"

definition put_ListOffsetsResponseTopic :: "i16 \<Rightarrow> Encoder \<Rightarrow> ListOffsetsResponseTopic \<Rightarrow> Encoder" where
  "put_ListOffsetsResponseTopic apiVersion e t =
     (let e = PutString e (lst_Name t)
      in PutArray (put_ListOffsetsResponsePartition apiVersion) e (lst_Partitions t))"

definition EncodeListOffsetsResponse :: "ListOffsetsResponse \<Rightarrow> i16 \<Rightarrow> bytes" where
  "EncodeListOffsetsResponse resp apiVersion =
     (let e = NewEncoder;
          e = (if sint apiVersion \<ge> 2 then PutInt32 e (ls_ThrottleTimeMs resp) else e);
          e = PutArray (put_ListOffsetsResponseTopic apiVersion) e (ls_Topics resp)
      in Bytes e)"

section \<open>Decoding a request as a client lays it out\<close>

definition lrp_bytes :: "i16 \<Rightarrow> ListOffsetsRequestPartition \<Rightarrow> bytes" where
  "lrp_bytes v p =
     be32 (lrp_Index p) @ bytes_if (sint v \<ge> 4) (be32 (lrp_CurrentLeaderEpoch p)) @ be64 (lrp_Timestamp p)"

definition lrt_bytes :: "i16 \<Rightarrow> ListOffsetsRequestTopic \<Rightarrow> bytes" where
  "lrt_bytes v t = str_bytes (lrt_Name t) @ array_bytes (lrp_bytes v) (lrt_Partitions t)"

definition lr_bytes :: "i16 \<Rightarrow> ListOffsetsRequest \<Rightarrow> bytes" where
  "lr_bytes v r =
     be32 (lr_ReplicaID r) @ bytes_if (sint v \<ge> 2) [lr_IsolationLevel r] @ array_bytes (lrt_bytes v) (lr_Topics r)"

definition lrt_ok :: "ListOffsetsRequestTopic \<Rightarrow> bool" where
  "lrt_ok t \<longleftrightarrow> ok_str (lrt_Name t) \<and> ok_len (lrt_Partitions t)"

definition list_offsets_request_ok :: "ListOffsetsRequest \<Rightarrow> bool" where
  "list_offsets_request_ok r \<longleftrightarrow> ok_len (lr_Topics r) \<and> list_all lrt_ok (lr_Topics r)"

definition lrp_view :: "i16 \<Rightarrow> ListOffsetsRequestPartition \<Rightarrow> ListOffsetsRequestPartition" where
  "lrp_view v p = p\<lparr>lrp_CurrentLeaderEpoch := (if sint v \<ge> 4 then lrp_CurrentLeaderEpoch p else - 1)\<rparr>"

definition lrt_view :: "i16 \<Rightarrow> ListOffsetsRequestTopic \<Rightarrow> ListOffsetsRequestTopic" where
  "lrt_view v t = t\<lparr>lrt_Partitions := map (lrp_view v) (lrt_Partitions t)\<rparr>"

definition list_offsets_request_view :: "i16 \<Rightarrow> ListOffsetsRequest \<Rightarrow> ListOffsetsRequest" where
  "list_offsets_request_view v r =
     r\<lparr>lr_IsolationLevel := (if sint v \<ge> 2 then lr_IsolationLevel r else 0),
       lr_Topics := map (lrt_view v) (lr_Topics r)\<rparr>"

interpretation list_offsets_request_partition:
  codec "lrp_bytes v" "decode_ListOffsetsRequestPartition v" "\<lambda>_. True" "lrp_view v" for v
  by unfold_locales (simp add: lrp_bytes_def decode_ListOffsetsRequestPartition_def lrp_view_def roundtrip)

interpretation list_offsets_request_topic:
  codec "lrt_bytes v" "decode_ListOffsetsRequestTopic v" lrt_ok "lrt_view v" for v
  by unfold_locales
    (simp add: lrt_bytes_def decode_ListOffsetsRequestTopic_def lrt_view_def lrt_ok_def roundtrip
      codec.get_put [OF list_offsets_request_partition.array] list_all_iff)

interpretation list_offsets_request:
  codec "lr_bytes v" "list_offsets_request_fields v" list_offsets_request_ok "list_offsets_request_view v" for v
  by unfold_locales
    (simp add: lr_bytes_def list_offsets_request_fields_def list_offsets_request_view_def
      list_offsets_request_ok_def roundtrip codec.get_put [OF list_offsets_request_topic.array])

interpretation r_list_offsets_request: reader "list_offsets_request_fields v" for v
  unfolding list_offsets_request_fields_def [abs_def] decode_ListOffsetsRequestTopic_def [abs_def]
    decode_ListOffsetsRequestPartition_def [abs_def]
  by (intro reader_rules)

section \<open>Reading a response as a client does\<close>

definition client_ListOffsetsResponsePartition ::
    "i16 \<Rightarrow> Decoder \<Rightarrow> (ListOffsetsResponsePartition \<times> Decoder) option" where
  "client_ListOffsetsResponsePartition v d =
     do {
       (index, d) \<leftarrow> Int32 d;
       (err, d) \<leftarrow> Int16 d;
       (ts, d) \<leftarrow> Int64 d;
       (off, d) \<leftarrow> Int64 d;
       (epoch, d) \<leftarrow> read_if (sint v \<ge> 4) Int32 (- 1) d;
       Some (\<lparr>lsp_Index = index, lsp_ErrorCode = err, lsp_Timestamp = ts, lsp_Offset = off,
              lsp_LeaderEpoch = epoch\<rparr>, d)
     }"

definition client_ListOffsetsResponseTopic :: "i16 \<Rightarrow> Decoder \<Rightarrow> (ListOffsetsResponseTopic \<times> Decoder) option" where
  "client_ListOffsetsResponseTopic v d =
     do { (name, d) \<leftarrow> String d; (ps, d) \<leftarrow> decode_array (client_ListOffsetsResponsePartition v) d;
          Some (\<lparr>lst_Name = name, lst_Partitions = ps\<rparr>, d) }"

definition client_ListOffsetsResponse :: "i16 \<Rightarrow> Decoder \<Rightarrow> (ListOffsetsResponse \<times> Decoder) option" where
  "client_ListOffsetsResponse v d =
     do { (th, d) \<leftarrow> read_if (sint v \<ge> 2) Int32 0 d;
          (ts, d) \<leftarrow> decode_array (client_ListOffsetsResponseTopic v) d;
          Some (\<lparr>ls_ThrottleTimeMs = th, ls_Topics = ts\<rparr>, d) }"

definition lsp_bytes :: "i16 \<Rightarrow> ListOffsetsResponsePartition \<Rightarrow> bytes" where
  "lsp_bytes v p =
     be32 (lsp_Index p) @ be16 (lsp_ErrorCode p) @ be64 (lsp_Timestamp p) @ be64 (lsp_Offset p) @
     bytes_if (sint v \<ge> 4) (be32 (lsp_LeaderEpoch p))"

definition lst_bytes :: "i16 \<Rightarrow> ListOffsetsResponseTopic \<Rightarrow> bytes" where
  "lst_bytes v t = str_bytes (lst_Name t) @ array_bytes (lsp_bytes v) (lst_Partitions t)"

definition ls_bytes :: "i16 \<Rightarrow> ListOffsetsResponse \<Rightarrow> bytes" where
  "ls_bytes v r = bytes_if (sint v \<ge> 2) (be32 (ls_ThrottleTimeMs r)) @ array_bytes (lst_bytes v) (ls_Topics r)"

definition lst_ok :: "ListOffsetsResponseTopic \<Rightarrow> bool" where
  "lst_ok t \<longleftrightarrow> ok_str (lst_Name t) \<and> ok_len (lst_Partitions t)"

definition list_offsets_response_ok :: "ListOffsetsResponse \<Rightarrow> bool" where
  "list_offsets_response_ok r \<longleftrightarrow> ok_len (ls_Topics r) \<and> list_all lst_ok (ls_Topics r)"

definition lsp_view :: "i16 \<Rightarrow> ListOffsetsResponsePartition \<Rightarrow> ListOffsetsResponsePartition" where
  "lsp_view v p = p\<lparr>lsp_LeaderEpoch := (if sint v \<ge> 4 then lsp_LeaderEpoch p else - 1)\<rparr>"

definition lst_view :: "i16 \<Rightarrow> ListOffsetsResponseTopic \<Rightarrow> ListOffsetsResponseTopic" where
  "lst_view v t = t\<lparr>lst_Partitions := map (lsp_view v) (lst_Partitions t)\<rparr>"

definition list_offsets_response_view :: "i16 \<Rightarrow> ListOffsetsResponse \<Rightarrow> ListOffsetsResponse" where
  "list_offsets_response_view v r =
     r\<lparr>ls_ThrottleTimeMs := (if sint v \<ge> 2 then ls_ThrottleTimeMs r else 0),
       ls_Topics := map (lst_view v) (ls_Topics r)\<rparr>"

lemma e_b_put_ListOffsetsResponsePartition [put_bytes]:
  "e_b (put_ListOffsetsResponsePartition v e p) = e_b e @ lsp_bytes v p"
  by (simp add: put_ListOffsetsResponsePartition_def lsp_bytes_def bytes_if_def put_bytes)

lemma e_b_put_ListOffsetsResponseTopic [put_bytes]:
  "e_b (put_ListOffsetsResponseTopic v e t) = e_b e @ lst_bytes v t"
  by (simp add: put_ListOffsetsResponseTopic_def lst_bytes_def put_bytes e_b_PutArray [where g = "lsp_bytes v"])

lemma EncodeListOffsetsResponse_bytes: "EncodeListOffsetsResponse r v = ls_bytes v r"
  by (simp add: EncodeListOffsetsResponse_def ls_bytes_def bytes_if_def Bytes_def put_bytes
      e_b_PutArray [where g = "lst_bytes v"])

interpretation list_offsets_response_partition:
  codec "lsp_bytes v" "client_ListOffsetsResponsePartition v" "\<lambda>_. True" "lsp_view v" for v
  by unfold_locales (simp add: lsp_bytes_def client_ListOffsetsResponsePartition_def lsp_view_def roundtrip)

interpretation list_offsets_response_topic:
  codec "lst_bytes v" "client_ListOffsetsResponseTopic v" lst_ok "lst_view v" for v
  by unfold_locales
    (simp add: lst_bytes_def client_ListOffsetsResponseTopic_def lst_view_def lst_ok_def roundtrip
      codec.get_put [OF list_offsets_response_partition.array] list_all_iff)

interpretation list_offsets_response:
  codec "ls_bytes v" "client_ListOffsetsResponse v" list_offsets_response_ok "list_offsets_response_view v" for v
  by unfold_locales
    (simp add: ls_bytes_def client_ListOffsetsResponse_def list_offsets_response_view_def
      list_offsets_response_ok_def roundtrip codec.get_put [OF list_offsets_response_topic.array])

end
