(* ===== verification/Metadata.thy ===== *)
theory Metadata
  imports Reader
begin

text \<open>
  \<open>metadata.go\<close>: decoding a Metadata request, where a null topic array (and, in version 0, an
  empty one) means every topic, and encoding the response, against the version table at the
  head of that file.
\<close>

section \<open>Request\<close>

record MetadataRequest =
  mr_AllTopics :: bool
  mr_Topics :: "gostring list"
  mr_AllowAutoTopicCreation :: bool
  mr_IncludeClusterAuthorizedOperations :: bool
  mr_IncludeTopicAuthorizedOperations :: bool

definition metadata_topics :: "i16 \<Rightarrow> Decoder \<Rightarrow> ((bool \<times> gostring list) \<times> Decoder) option" where
  "metadata_topics apiVersion d =
     do {
       (numTopics, d) \<leftarrow> ArrayLen d;
       if sint numTopics < 0 then Some ((True, []), d)
       else if numTopics = 0 \<and> apiVersion = 0 then Some ((True, []), d)
       else do { (topics, d) \<leftarrow> decode_n (nat (sint numTopics)) String d; Some ((False, topics), d) }
     }"

definition metadata_request_fields :: "i16 \<Rightarrow> Decoder \<Rightarrow> (MetadataRequest \<times> Decoder) option" where
  "metadata_request_fields apiVersion d =
     do {
       (ts, d) \<leftarrow> metadata_topics apiVersion d;
       (auto, d) \<leftarrow> read_if (sint apiVersion \<ge> 4) Bool True d;
       (cl, d) \<leftarrow> read_if (apiVersion = 8) Bool False d;
       (tp, d) \<leftarrow> read_if (sint apiVersion \<ge> 8) Bool False d;
       Some (\<lparr>mr_AllTopics = fst ts, mr_Topics = snd ts, mr_AllowAutoTopicCreation = auto,
              mr_IncludeClusterAuthorizedOperations = cl,
              mr_IncludeTopicAuthorizedOperations = tp\<rparr>, d)
     }"

definition DecodeMetadataRequest :: "bytes \<Rightarrow> i16 \<Rightarrow> (DecodeError + MetadataRequest) option" where
  "DecodeMetadataRequest body apiVersion =
     do { (req, d) \<leftarrow> metadata_request_fields apiVersion (NewDecoder body);
          Some (case d_err d of Some err \<Rightarrow> Inl err | None \<Rightarrow> Inr req) }"

section \<open>Response\<close>

definition noAuthorizedOperations :: i32 where
  "noAuthorizedOperations = - 2147483648"

record MetadataBroker =
  mb_NodeID :: i32
  mb_Host :: gostring
  mb_Port :: i32
  mb_Rack :: "gostring option"

record MetadataPartitionResponse =
  mp_ErrorCode :: i16
  mp_PartitionIndex :: i32
  mp_LeaderID :: i32
  mp_LeaderEpoch :: i32
  mp_ReplicaNodes :: "i32 list"
  mp_ISRNodes :: "i32 list"
  mp_OfflineReplicas :: "i32 list"

record MetadataTopicResponse =
  mt_ErrorCode :: i16
  mt_Name :: gostring
  mt_IsInternal :: bool
  mt_Partitions :: "MetadataPartitionResponse list"

record MetadataResponse =
  ms_ThrottleTimeMs :: i32
  ms_Brokers :: "MetadataBroker list"
  ms_ClusterID :: "gostring option"
  ms_ControllerID :: i32
  ms_Topics :: "MetadataTopicResponse list"

definition put_MetadataBroker :: "i16 \<Rightarrow> Encoder \<Rightarrow> MetadataBroker \<Rightarrow> Encoder" where
  "put_MetadataBroker apiVersion e b =
     (let e = PutInt32 e (mb_NodeID b);
          e = PutString e (mb_Host b);
          e = PutInt32 e (mb_Port b)
      in if sint apiVersion \<ge> 1 then PutNullableString e (mb_Rack b) else e)"

definition put_MetadataPartition :: "i16 \<Rightarrow> Encoder \<Rightarrow> MetadataPartitionResponse \<Rightarrow> Encoder" where
  "put_MetadataPartition apiVersion e p =
     (let e = PutInt16 e (mp_ErrorCode p);
          e = PutInt32 e (mp_PartitionIndex p);
          e = PutInt32 e (mp_LeaderID p);
          e = (if sint apiVersion \<ge> 7 then PutInt32 e (mp_LeaderEpoch p) else e);
          e = PutArray PutInt32 e (mp_ReplicaNodes p);
          e = PutArray PutInt32 e (mp_ISRNodes p)
      in if sint apiVersion \<ge> 5 then PutArray PutInt32 e (mp_OfflineReplicas p) else e)"

definition put_MetadataTopic :: "i16 \<Rightarrow> Encoder \<Rightarrow> MetadataTopicResponse \<Rightarrow> Encoder" where
  "put_MetadataTopic apiVersion e t =
     (let e = PutInt16 e (mt_ErrorCode t);
          e = PutString e (mt_Name t);
          e = (if sint apiVersion \<ge> 1 then PutBool e (mt_IsInternal t) else e);
          e = PutArray (put_MetadataPartition apiVersion) e (mt_Partitions t)
      in if sint apiVersion \<ge> 8 then PutInt32 e noAuthorizedOperations else e)"

definition EncodeMetadataResponse :: "MetadataResponse \<Rightarrow> i16 \<Rightarrow> bytes" where
  "EncodeMetadataResponse resp apiVersion =
     (let e = NewEncoder;
          e = (if sint apiVersion \<ge> 3 then PutInt32 e (ms_ThrottleTimeMs resp) else e);
          e = PutArray (put_MetadataBroker apiVersion) e (ms_Brokers resp);
          e = (if sint apiVersion \<ge> 2 then PutNullableString e (ms_ClusterID resp) else e);
          e = (if sint apiVersion \<ge> 1 then PutInt32 e (ms_ControllerID resp) else e);
          e = PutArray (put_MetadataTopic apiVersion) e (ms_Topics resp);
          e = (if apiVersion = 8 then PutInt32 e noAuthorizedOperations else e)
      in Bytes e)"

section \<open>Decoding a request as a client lays it out\<close>

text \<open>\<open>None\<close> asks for all topics: a null array, from version 1 on.\<close>

definition mr_topic_bytes :: "gostring list option \<Rightarrow> bytes" where
  "mr_topic_bytes ts = (case ts of None \<Rightarrow> be32 (- 1) | Some xs \<Rightarrow> array_bytes str_bytes xs)"

definition mr_bytes :: "i16 \<Rightarrow> gostring list option \<times> bool \<times> bool \<times> bool \<Rightarrow> bytes" where
  "mr_bytes v = (\<lambda>(ts, auto, cl, tp).
     mr_topic_bytes ts @ bytes_if (sint v \<ge> 4) [if auto then 1 else 0] @
     bytes_if (v = 8) [if cl then 1 else 0] @ bytes_if (sint v \<ge> 8) [if tp then 1 else 0])"

definition mr_ok :: "gostring list option \<times> bool \<times> bool \<times> bool \<Rightarrow> bool" where
  "mr_ok = (\<lambda>(ts, _). case ts of None \<Rightarrow> True | Some xs \<Rightarrow> ok_len xs \<and> list_all ok_str xs)"

definition mr_view :: "i16 \<Rightarrow> gostring list option \<times> bool \<times> bool \<times> bool \<Rightarrow> MetadataRequest" where
  "mr_view v = (\<lambda>(ts, auto, cl, tp).
     \<lparr>mr_AllTopics = (ts = None \<or> ts = Some [] \<and> v = 0),
      mr_Topics = (case ts of None \<Rightarrow> [] | Some xs \<Rightarrow> xs),
      mr_AllowAutoTopicCreation = (sint v \<ge> 4 \<longrightarrow> auto),
      mr_IncludeClusterAuthorizedOperations = (v = 8 \<and> cl),
      mr_IncludeTopicAuthorizedOperations = (sint v \<ge> 8 \<and> tp)\<rparr>)"

lemma word_of_length_zero: "ok_len xs \<Longrightarrow> (word_of_nat (length xs) :: i32) = 0 \<longleftrightarrow> xs = []"
  using sint_len(3) [of xs] by (cases "xs = []") (auto dest: arg_cong [where f = sint] simp del: sint_len(3))

lemma metadata_topics_at:
  assumes ok: "case ts of None \<Rightarrow> True | Some xs \<Rightarrow> ok_len xs \<and> list_all ok_str xs"
    and f: "fits (pre @ mr_topic_bytes ts @ post)"
  shows "metadata_topics v (dec_at pre (mr_topic_bytes ts @ post)) =
    Some ((ts = None \<or> ts = Some [] \<and> v = 0, case ts of None \<Rightarrow> [] | Some xs \<Rightarrow> xs),
      dec_at (pre @ mr_topic_bytes ts) post)"
proof (cases ts)
  case None
  then show ?thesis using f by (simp add: metadata_topics_def mr_topic_bytes_def roundtrip)
next
  case (Some xs)
  let ?n = "be32 (word_of_nat (length xs))"
  have f': "fits (pre @ ?n @ concat (map str_bytes xs) @ post)" and ok': "ok_len xs" "list_all ok_str xs"
    using Some f ok by (simp_all add: mr_topic_bytes_def array_bytes_def)
  then show ?thesis
    using Some gostring.decode_n_put [of xs "pre @ ?n" post]
    by (cases "xs = []")
      (simp_all add: metadata_topics_def mr_topic_bytes_def array_bytes_def roundtrip word_of_length_zero)
qed

interpretation metadata_request: codec "mr_bytes v" "metadata_request_fields v" mr_ok "mr_view v" for v
  by unfold_locales
    (auto simp: mr_bytes_def metadata_request_fields_def mr_ok_def mr_view_def metadata_topics_at roundtrip)

interpretation r_metadata_request: reader "metadata_request_fields v" for v
  unfolding metadata_request_fields_def [abs_def] metadata_topics_def [abs_def]
  by (intro reader_rules reader.repeated)

section \<open>Reading a response as a client does\<close>

definition client_MetadataBroker :: "i16 \<Rightarrow> Decoder \<Rightarrow> (MetadataBroker \<times> Decoder) option" where
  "client_MetadataBroker v d =
     do {
       (n, d) \<leftarrow> Int32 d; (h, d) \<leftarrow> String d; (p, d) \<leftarrow> Int32 d;
       (r, d) \<leftarrow> read_if (sint v \<ge> 1) NullableString None d;
       Some (\<lparr>mb_NodeID = n, mb_Host = h, mb_Port = p, mb_Rack = r\<rparr>, d)
     }"

definition client_MetadataPartition :: "i16 \<Rightarrow> Decoder \<Rightarrow> (MetadataPartitionResponse \<times> Decoder) option" where
  "client_MetadataPartition v d =
     do {
       (err, d) \<leftarrow> Int16 d; (i, d) \<leftarrow> Int32 d; (l, d) \<leftarrow> Int32 d;
       (le, d) \<leftarrow> read_if (sint v \<ge> 7) Int32 (- 1) d;
       (rs, d) \<leftarrow> decode_array Int32 d;
       (isr, d) \<leftarrow> decode_array Int32 d;
       (off, d) \<leftarrow> read_if (sint v \<ge> 5) (decode_array Int32) [] d;
       Some (\<lparr>mp_ErrorCode = err, mp_PartitionIndex = i, mp_LeaderID = l, mp_LeaderEpoch = le,
              mp_ReplicaNodes = rs, mp_ISRNodes = isr, mp_OfflineReplicas = off\<rparr>, d)
     }"

definition client_MetadataTopic :: "i16 \<Rightarrow> Decoder \<Rightarrow> (MetadataTopicResponse \<times> Decoder) option" where
  "client_MetadataTopic v d =
     do {
       (err, d) \<leftarrow> Int16 d; (n, d) \<leftarrow> String d;
       (int, d) \<leftarrow> read_if (sint v \<ge> 1) Bool False d;
       (ps, d) \<leftarrow> decode_array (client_MetadataPartition v) d;
       (_, d) \<leftarrow> read_if (sint v \<ge> 8) Int32 0 d;
       Some (\<lparr>mt_ErrorCode = err, mt_Name = n, mt_IsInternal = int, mt_Partitions = ps\<rparr>, d)
     }"

definition client_MetadataResponse :: "i16 \<Rightarrow> Decoder \<Rightarrow> (MetadataResponse \<times> Decoder) option" where
  "client_MetadataResponse v d =
     do {
       (th, d) \<leftarrow> read_if (sint v \<ge> 3) Int32 0 d;
       (bs, d) \<leftarrow> decode_array (client_MetadataBroker v) d;
       (cl, d) \<leftarrow> read_if (sint v \<ge> 2) NullableString None d;
       (co, d) \<leftarrow> read_if (sint v \<ge> 1) Int32 (- 1) d;
       (ts, d) \<leftarrow> decode_array (client_MetadataTopic v) d;
       (_, d) \<leftarrow> read_if (v = 8) Int32 0 d;
       Some (\<lparr>ms_ThrottleTimeMs = th, ms_Brokers = bs, ms_ClusterID = cl, ms_ControllerID = co,
              ms_Topics = ts\<rparr>, d)
     }"

definition mb_bytes :: "i16 \<Rightarrow> MetadataBroker \<Rightarrow> bytes" where
  "mb_bytes v b =
     be32 (mb_NodeID b) @ str_bytes (mb_Host b) @ be32 (mb_Port b) @ bytes_if (sint v \<ge> 1) (nstr_bytes (mb_Rack b))"

definition mp_bytes :: "i16 \<Rightarrow> MetadataPartitionResponse \<Rightarrow> bytes" where
  "mp_bytes v p =
     be16 (mp_ErrorCode p) @ be32 (mp_PartitionIndex p) @ be32 (mp_LeaderID p) @
     bytes_if (sint v \<ge> 7) (be32 (mp_LeaderEpoch p)) @
     array_bytes be32 (mp_ReplicaNodes p) @ array_bytes be32 (mp_ISRNodes p) @
     bytes_if (sint v \<ge> 5) (array_bytes be32 (mp_OfflineReplicas p))"

definition mt_bytes :: "i16 \<Rightarrow> MetadataTopicResponse \<Rightarrow> bytes" where
  "mt_bytes v t =
     be16 (mt_ErrorCode t) @ str_bytes (mt_Name t) @
     bytes_if (sint v \<ge> 1) [if mt_IsInternal t then 1 else 0] @
     array_bytes (mp_bytes v) (mt_Partitions t) @ bytes_if (sint v \<ge> 8) (be32 noAuthorizedOperations)"

definition ms_bytes :: "i16 \<Rightarrow> MetadataResponse \<Rightarrow> bytes" where
  "ms_bytes v r =
     bytes_if (sint v \<ge> 3) (be32 (ms_ThrottleTimeMs r)) @ array_bytes (mb_bytes v) (ms_Brokers r) @
     bytes_if (sint v \<ge> 2) (nstr_bytes (ms_ClusterID r)) @ bytes_if (sint v \<ge> 1) (be32 (ms_ControllerID r)) @
     array_bytes (mt_bytes v) (ms_Topics r) @ bytes_if (v = 8) (be32 noAuthorizedOperations)"

definition mb_ok :: "MetadataBroker \<Rightarrow> bool" where
  "mb_ok b \<longleftrightarrow> ok_str (mb_Host b) \<and> ok_nstr (mb_Rack b)"

definition mp_ok :: "MetadataPartitionResponse \<Rightarrow> bool" where
  "mp_ok p \<longleftrightarrow> ok_len (mp_ReplicaNodes p) \<and> ok_len (mp_ISRNodes p) \<and> ok_len (mp_OfflineReplicas p)"

definition mt_ok :: "MetadataTopicResponse \<Rightarrow> bool" where
  "mt_ok t \<longleftrightarrow> ok_str (mt_Name t) \<and> ok_len (mt_Partitions t) \<and> list_all mp_ok (mt_Partitions t)"

definition metadata_response_ok :: "MetadataResponse \<Rightarrow> bool" where
  "metadata_response_ok r \<longleftrightarrow>
     ok_len (ms_Brokers r) \<and> list_all mb_ok (ms_Brokers r) \<and> ok_nstr (ms_ClusterID r) \<and>
     ok_len (ms_Topics r) \<and> list_all mt_ok (ms_Topics r)"

definition mb_view :: "i16 \<Rightarrow> MetadataBroker \<Rightarrow> MetadataBroker" where
  "mb_view v b = b\<lparr>mb_Rack := (if sint v \<ge> 1 then mb_Rack b else None)\<rparr>"

definition mp_view :: "i16 \<Rightarrow> MetadataPartitionResponse \<Rightarrow> MetadataPartitionResponse" where
  "mp_view v p =
     p\<lparr>mp_LeaderEpoch := (if sint v \<ge> 7 then mp_LeaderEpoch p else - 1),
       mp_OfflineReplicas := (if sint v \<ge> 5 then mp_OfflineReplicas p else [])\<rparr>"

definition mt_view :: "i16 \<Rightarrow> MetadataTopicResponse \<Rightarrow> MetadataTopicResponse" where
  "mt_view v t =
     t\<lparr>mt_IsInternal := (if sint v \<ge> 1 then mt_IsInternal t else False),
       mt_Partitions := map (mp_view v) (mt_Partitions t)\<rparr>"

definition metadata_response_view :: "i16 \<Rightarrow> MetadataResponse \<Rightarrow> MetadataResponse" where
  "metadata_response_view v r =
     r\<lparr>ms_ThrottleTimeMs := (if sint v \<ge> 3 then ms_ThrottleTimeMs r else 0),
       ms_Brokers := map (mb_view v) (ms_Brokers r),
       ms_ClusterID := (if sint v \<ge> 2 then ms_ClusterID r else None),
       ms_ControllerID := (if sint v \<ge> 1 then ms_ControllerID r else - 1),
       ms_Topics := map (mt_view v) (ms_Topics r)\<rparr>"

lemma e_b_put_MetadataBroker [put_bytes]: "e_b (put_MetadataBroker v e b) = e_b e @ mb_bytes v b"
  by (simp add: put_MetadataBroker_def mb_bytes_def bytes_if_def put_bytes)

lemma e_b_put_MetadataPartition [put_bytes]: "e_b (put_MetadataPartition v e p) = e_b e @ mp_bytes v p"
  by (simp add: put_MetadataPartition_def mp_bytes_def bytes_if_def put_bytes e_b_PutArray [where g = be32])

lemma e_b_put_MetadataTopic [put_bytes]: "e_b (put_MetadataTopic v e t) = e_b e @ mt_bytes v t"
  by (simp add: put_MetadataTopic_def mt_bytes_def bytes_if_def put_bytes e_b_PutArray [where g = "mp_bytes v"])

lemma EncodeMetadataResponse_bytes: "EncodeMetadataResponse r v = ms_bytes v r"
  by (simp add: EncodeMetadataResponse_def ms_bytes_def bytes_if_def Bytes_def put_bytes
      e_b_PutArray [where g = "mb_bytes v"] e_b_PutArray [where g = "mt_bytes v"])

interpretation metadata_broker: codec "mb_bytes v" "client_MetadataBroker v" mb_ok "mb_view v" for v
  by unfold_locales (simp add: mb_bytes_def client_MetadataBroker_def mb_view_def mb_ok_def roundtrip)

interpretation metadata_partition: codec "mp_bytes v" "client_MetadataPartition v" mp_ok "mp_view v" for v
  by unfold_locales
    (simp add: mp_bytes_def client_MetadataPartition_def mp_view_def mp_ok_def roundtrip)

interpretation metadata_topic: codec "mt_bytes v" "client_MetadataTopic v" mt_ok "mt_view v" for v
  by unfold_locales
    (simp add: mt_bytes_def client_MetadataTopic_def mt_view_def mt_ok_def roundtrip
      codec.get_put [OF metadata_partition.array])

interpretation metadata_response:
  codec "ms_bytes v" "client_MetadataResponse v" metadata_response_ok "metadata_response_view v" for v
  by unfold_locales
    (simp add: ms_bytes_def client_MetadataResponse_def metadata_response_view_def metadata_response_ok_def
      roundtrip codec.get_put [OF metadata_broker.array] codec.get_put [OF metadata_topic.array])

end
