(* ===== verification/OffsetsForLeaderEpoch.thy ===== *)
theory OffsetsForLeaderEpoch
  imports Reader
begin

text \<open>
  \<open>offsets_for_leader_epoch.go\<close>: the request a follower sends to find where its log diverges
  from the leader's, and the answer; versions 2 and 3 use the classic encoding, version 4
  the flexible one.  The decoders invert the encoders in both.
\<close>

section \<open>The two encodings\<close>

definition decodeOFLEArrayLen :: "Decoder \<Rightarrow> bool \<Rightarrow> (i32 \<times> Decoder) option" where
  "decodeOFLEArrayLen d flexible =
     (if flexible
      then do { (n, d) \<leftarrow> CompactArrayLen d; Some (word_of_int (max n 0), d) }
      else do { (n, d) \<leftarrow> ArrayLen d; Some (if sint n < 0 then 0 else n, d) })"

definition decodeOFLEString :: "Decoder \<Rightarrow> bool \<Rightarrow> (gostring \<times> Decoder) option" where
  "decodeOFLEString d flexible = (if flexible then CompactString d else String d)"

definition encodeOFLEArrayLen :: "Encoder \<Rightarrow> nat \<Rightarrow> bool \<Rightarrow> Encoder" where
  "encodeOFLEArrayLen e n flexible =
     (if flexible then PutCompactArrayLen e n else PutArrayLen e (word_of_nat n))"

definition encodeOFLEString :: "Encoder \<Rightarrow> gostring \<Rightarrow> bool \<Rightarrow> Encoder" where
  "encodeOFLEString e s flexible = (if flexible then PutCompactString e s else PutString e s)"

text \<open>\<open>make([]T, n)\<close> panics when \<open>n\<close> is negative (the compact length is cut to 32 bits).\<close>

definition make_len :: "i32 \<Rightarrow> nat option" where
  "make_len n = (if sint n < 0 then None else Some (nat (sint n)))"

definition decode_OFLE_array ::
    "bool \<Rightarrow> (Decoder \<Rightarrow> ('a \<times> Decoder) option) \<Rightarrow> Decoder \<Rightarrow> ('a list \<times> Decoder) option" where
  "decode_OFLE_array flexible get d =
     do { (n, d) \<leftarrow> decodeOFLEArrayLen d flexible; k \<leftarrow> make_len n; decode_n k get d }"

definition put_OFLE_array :: "bool \<Rightarrow> (Encoder \<Rightarrow> 'a \<Rightarrow> Encoder) \<Rightarrow> Encoder \<Rightarrow> 'a list \<Rightarrow> Encoder" where
  "put_OFLE_array flexible put e xs = foldl put (encodeOFLEArrayLen e (length xs) flexible) xs"

section \<open>Request\<close>

record OFLERequestPartition =
  orp_Index :: i32
  orp_CurrentLeaderEpoch :: i32
  orp_LeaderEpoch :: i32

record OFLERequestTopic =
  ort_Name :: gostring
  ort_Partitions :: "OFLERequestPartition list"

record OFLERequest =
  or_ReplicaID :: i32
  or_Topics :: "OFLERequestTopic list"

definition put_OFLERequestPartition :: "bool \<Rightarrow> Encoder \<Rightarrow> OFLERequestPartition \<Rightarrow> Encoder" where
  "put_OFLERequestPartition flexible e p =
     (let e = PutInt32 e (orp_Index p);
          e = PutInt32 e (orp_CurrentLeaderEpoch p);
          e = PutInt32 e (orp_LeaderEpoch p)
      in if flexible then PutTaggedFields e else e)"

definition put_OFLERequestTopic :: "bool \<Rightarrow> Encoder \<Rightarrow> OFLERequestTopic \<Rightarrow> Encoder" where
  "put_OFLERequestTopic flexible e t =
     (let e = encodeOFLEString e (ort_Name t) flexible;
          e = put_OFLE_array flexible (put_OFLERequestPartition flexible) e (ort_Partitions t)
      in if flexible then PutTaggedFields e else e)"

definition EncodeOffsetsForLeaderEpochRequest :: "OFLERequest \<Rightarrow> i16 \<Rightarrow> bytes" where
  "EncodeOffsetsForLeaderEpochRequest req apiVersion =
     (let flexible = (sint apiVersion \<ge> 4);
          e = NewEncoder;
          e = (if sint apiVersion \<ge> 3 then PutInt32 e (or_ReplicaID req) else e);
          e = put_OFLE_array flexible (put_OFLERequestTopic flexible) e (or_Topics req);
          e = (if flexible then PutTaggedFields e else e)
      in Bytes e)"

definition tagged_if :: "bool \<Rightarrow> Decoder \<Rightarrow> (unit \<times> Decoder) option" where
  "tagged_if flexible d =
     (if flexible then do { d \<leftarrow> DiscardTaggedFields d; Some ((), d) } else Some ((), d))"

definition decode_OFLERequestPartition :: "bool \<Rightarrow> Decoder \<Rightarrow> (OFLERequestPartition \<times> Decoder) option" where
  "decode_OFLERequestPartition flexible d =
     do {
       (index, d) \<leftarrow> Int32 d;
       (current, d) \<leftarrow> Int32 d;
       (epoch, d) \<leftarrow> Int32 d;
       (_, d) \<leftarrow> tagged_if flexible d;
       Some (\<lparr>orp_Index = index, orp_CurrentLeaderEpoch = current, orp_LeaderEpoch = epoch\<rparr>, d)
     }"

definition decode_OFLERequestTopic :: "bool \<Rightarrow> Decoder \<Rightarrow> (OFLERequestTopic \<times> Decoder) option" where
  "decode_OFLERequestTopic flexible d =
     do {
       (name, d) \<leftarrow> decodeOFLEString d flexible;
       (parts, d) \<leftarrow> decode_OFLE_array flexible (decode_OFLERequestPartition flexible) d;
       (_, d) \<leftarrow> tagged_if flexible d;
       Some (\<lparr>ort_Name = name, ort_Partitions = parts\<rparr>, d)
     }"

definition ofle_request_fields :: "i16 \<Rightarrow> Decoder \<Rightarrow> (OFLERequest \<times> Decoder) option" where
  "ofle_request_fields apiVersion d =
     do {
       let flexible = (sint apiVersion \<ge> 4);
       (replica, d) \<leftarrow> read_if (sint apiVersion \<ge> 3) Int32 (- 2) d;
       (topics, d) \<leftarrow> decode_OFLE_array flexible (decode_OFLERequestTopic flexible) d;
       (_, d) \<leftarrow> tagged_if flexible d;
       Some (\<lparr>or_ReplicaID = replica, or_Topics = topics\<rparr>, d)
     }"

definition DecodeOffsetsForLeaderEpochRequest :: "bytes \<Rightarrow> i16 \<Rightarrow> (DecodeError + OFLERequest) option" where
  "DecodeOffsetsForLeaderEpochRequest body apiVersion =
     do { (req, d) \<leftarrow> ofle_request_fields apiVersion (NewDecoder body);
          Some (case d_err d of Some err \<Rightarrow> Inl err | None \<Rightarrow> Inr req) }"

section \<open>Response\<close>

record OFLEResponsePartition =
  osp_ErrorCode :: i16
  osp_Index :: i32
  osp_LeaderEpoch :: i32
  osp_EndOffset :: i64

record OFLEResponseTopic =
  ost_Name :: gostring
  ost_Partitions :: "OFLEResponsePartition list"

record OFLEResponse =
  os_ThrottleTimeMs :: i32
  os_Topics :: "OFLEResponseTopic list"

definition put_OFLEResponsePartition :: "bool \<Rightarrow> Encoder \<Rightarrow> OFLEResponsePartition \<Rightarrow> Encoder" where
  "put_OFLEResponsePartition flexible e p =
     (let e = PutInt16 e (osp_ErrorCode p);
          e = PutInt32 e (osp_Index p);
          e = PutInt32 e (osp_LeaderEpoch p);
          e = PutInt64 e (osp_EndOffset p)
      in if flexible then PutTaggedFields e else e)"

definition put_OFLEResponseTopic :: "bool \<Rightarrow> Encoder \<Rightarrow> OFLEResponseTopic \<Rightarrow> Encoder" where
  "put_OFLEResponseTopic flexible e t =
     (let e = (if flexible then PutCompactString e (ost_Name t) else PutString e (ost_Name t));
          e = (if flexible then PutCompactArrayLen e (length (ost_Partitions t))
               else PutArrayLen e (word_of_nat (length (ost_Partitions t))));
          e = foldl (put_OFLEResponsePartition flexible) e (ost_Partitions t)
      in if flexible then PutTaggedFields e else e)"

definition EncodeOffsetsForLeaderEpochResponse :: "OFLEResponse \<Rightarrow> i16 \<Rightarrow> bytes" where
  "EncodeOffsetsForLeaderEpochResponse resp apiVersion =
     (let flexible = (sint apiVersion \<ge> 4);
          e = NewEncoder;
          e = PutInt32 e (os_ThrottleTimeMs resp);
          e = (if flexible then PutCompactArrayLen e (length (os_Topics resp))
               else PutArrayLen e (word_of_nat (length (os_Topics resp))));
          e = foldl (put_OFLEResponseTopic flexible) e (os_Topics resp);
          e = (if flexible then PutTaggedFields e else e)
      in Bytes e)"

definition decode_OFLEResponsePartition :: "bool \<Rightarrow> Decoder \<Rightarrow> (OFLEResponsePartition \<times> Decoder) option" where
  "decode_OFLEResponsePartition flexible d =
     do {
       (err, d) \<leftarrow> Int16 d;
       (index, d) \<leftarrow> Int32 d;
       (epoch, d) \<leftarrow> Int32 d;
       (endOffset, d) \<leftarrow> Int64 d;
       (_, d) \<leftarrow> tagged_if flexible d;
       Some (\<lparr>osp_ErrorCode = err, osp_Index = index, osp_LeaderEpoch = epoch, osp_EndOffset = endOffset\<rparr>, d)
     }"

definition decode_OFLEResponseTopic :: "bool \<Rightarrow> Decoder \<Rightarrow> (OFLEResponseTopic \<times> Decoder) option" where
  "decode_OFLEResponseTopic flexible d =
     do {
       (name, d) \<leftarrow> decodeOFLEString d flexible;
       (parts, d) \<leftarrow> decode_OFLE_array flexible (decode_OFLEResponsePartition flexible) d;
       (_, d) \<leftarrow> tagged_if flexible d;
       Some (\<lparr>ost_Name = name, ost_Partitions = parts\<rparr>, d)
     }"

definition ofle_response_fields :: "i16 \<Rightarrow> Decoder \<Rightarrow> (OFLEResponse \<times> Decoder) option" where
  "ofle_response_fields apiVersion d =
     do {
       let flexible = (sint apiVersion \<ge> 4);
       (throttle, d) \<leftarrow> Int32 d;
       (topics, d) \<leftarrow> decode_OFLE_array flexible (decode_OFLEResponseTopic flexible) d;
       (_, d) \<leftarrow> tagged_if flexible d;
       Some (\<lparr>os_ThrottleTimeMs = throttle, os_Topics = topics\<rparr>, d)
     }"

definition DecodeOffsetsForLeaderEpochResponse :: "bytes \<Rightarrow> i16 \<Rightarrow> (DecodeError + OFLEResponse) option" where
  "DecodeOffsetsForLeaderEpochResponse body apiVersion =
     do { (resp, d) \<leftarrow> ofle_response_fields apiVersion (NewDecoder body);
          Some (case d_err d of Some err \<Rightarrow> Inl err | None \<Rightarrow> Inr resp) }"

section \<open>The encodings as codecs\<close>

definition ofle_len_bytes :: "bool \<Rightarrow> nat \<Rightarrow> bytes" where
  "ofle_len_bytes fl n = (if fl then put_uvarint (word_of_nat n + 1) else be32 (word_of_nat n))"

definition ofle_array_bytes :: "bool \<Rightarrow> ('a \<Rightarrow> bytes) \<Rightarrow> 'a list \<Rightarrow> bytes" where
  "ofle_array_bytes fl put xs = ofle_len_bytes fl (length xs) @ concat (map put xs)"

definition ofle_str_bytes :: "bool \<Rightarrow> gostring \<Rightarrow> bytes" where
  "ofle_str_bytes fl s = (if fl then cstr_bytes s else str_bytes s)"

definition tag_bytes :: "bool \<Rightarrow> bytes" where
  "tag_bytes fl = bytes_if fl (put_uvarint 0)"

lemma e_b_encodeOFLE [put_bytes]:
  "e_b (encodeOFLEArrayLen e n fl) = e_b e @ ofle_len_bytes fl n"
  "e_b (encodeOFLEString e s fl) = e_b e @ ofle_str_bytes fl s"
  "e_b (if fl then PutTaggedFields e else e) = e_b e @ tag_bytes fl"
  "e_b (if fl then PutCompactString e s else PutString e s) = e_b e @ ofle_str_bytes fl s"
  "e_b (if fl then PutCompactArrayLen e n else PutArrayLen e (word_of_nat n)) = e_b e @ ofle_len_bytes fl n"
  by (simp_all add: encodeOFLEArrayLen_def encodeOFLEString_def ofle_len_bytes_def ofle_str_bytes_def
      tag_bytes_def bytes_if_def put_bytes)

lemma foldl_OFLE:
  assumes "\<And>e x. e_b (f e x) = e_b e @ g x"
  shows "e_b (put_OFLE_array fl f e xs) = e_b e @ ofle_array_bytes fl g xs"
  by (simp add: put_OFLE_array_def ofle_array_bytes_def foldl_put [OF assms] put_bytes)

lemma decodeOFLEArrayLen_at [roundtrip]:
  assumes "n < 2 ^ 31" and "fits (pre @ ofle_len_bytes fl n @ post)"
  shows "decodeOFLEArrayLen (dec_at pre (ofle_len_bytes fl n @ post)) fl =
    Some (word_of_nat n, dec_at (pre @ ofle_len_bytes fl n) post)"
  using assms CompactArrayLen_at [of n pre post] ArrayLen_at [of pre "word_of_nat n" post]
    sint_word_of_nat [of n, where 'l = 32]
  by (cases fl) (simp_all add: decodeOFLEArrayLen_def ofle_len_bytes_def)

lemma decodeOFLEString_at [roundtrip]:
  assumes "ok_str s" and "fits (pre @ ofle_str_bytes fl s @ post)"
  shows "decodeOFLEString (dec_at pre (ofle_str_bytes fl s @ post)) fl =
    Some (s, dec_at (pre @ ofle_str_bytes fl s) post)"
  using assms by (cases fl) (simp_all add: decodeOFLEString_def ofle_str_bytes_def roundtrip)

lemma tagged_if_at [roundtrip]:
  "fits (pre @ tag_bytes fl @ post) \<Longrightarrow>
   tagged_if fl (dec_at pre (tag_bytes fl @ post)) = Some ((), dec_at (pre @ tag_bytes fl) post)"
  by (cases fl) (simp_all add: tagged_if_def tag_bytes_def bytes_if_def roundtrip)

context codec
begin

lemma ofle_array:
  assumes ok: "ok_len xs" "list_all okv xs" and f: "fits (pre @ ofle_array_bytes fl put xs @ post)"
  shows "decode_OFLE_array fl get (dec_at pre (ofle_array_bytes fl put xs @ post)) =
    Some (map view xs, dec_at (pre @ ofle_array_bytes fl put xs) post)"
proof -
  let ?n = "ofle_len_bytes fl (length xs)"
  have f': "fits (pre @ ?n @ concat (map put xs) @ post)"
    using f by (simp add: ofle_array_bytes_def)
  have "length xs < 2 ^ 31"
    using ok(1) by (simp add: ok_len_def)
  then show ?thesis
    using f' ok decode_n_put [of xs "pre @ ?n" post]
    by (simp add: decode_OFLE_array_def ofle_array_bytes_def make_len_def roundtrip)
qed

end

section \<open>Round trips\<close>

definition orp_bytes :: "bool \<Rightarrow> OFLERequestPartition \<Rightarrow> bytes" where
  "orp_bytes fl p =
     be32 (orp_Index p) @ be32 (orp_CurrentLeaderEpoch p) @ be32 (orp_LeaderEpoch p) @ tag_bytes fl"

definition ort_bytes :: "bool \<Rightarrow> OFLERequestTopic \<Rightarrow> bytes" where
  "ort_bytes fl t =
     ofle_str_bytes fl (ort_Name t) @ ofle_array_bytes fl (orp_bytes fl) (ort_Partitions t) @ tag_bytes fl"

definition ort_ok :: "OFLERequestTopic \<Rightarrow> bool" where
  "ort_ok t \<longleftrightarrow> ok_str (ort_Name t) \<and> ok_len (ort_Partitions t)"

definition or_bytes :: "i16 \<Rightarrow> OFLERequest \<Rightarrow> bytes" where
  "or_bytes v r =
     bytes_if (sint v \<ge> 3) (be32 (or_ReplicaID r)) @
     ofle_array_bytes (sint v \<ge> 4) (ort_bytes (sint v \<ge> 4)) (or_Topics r) @ tag_bytes (sint v \<ge> 4)"

definition ofle_request_ok :: "OFLERequest \<Rightarrow> bool" where
  "ofle_request_ok r \<longleftrightarrow> ok_len (or_Topics r) \<and> list_all ort_ok (or_Topics r)"

definition ofle_request_view :: "i16 \<Rightarrow> OFLERequest \<Rightarrow> OFLERequest" where
  "ofle_request_view v r = r\<lparr>or_ReplicaID := (if sint v \<ge> 3 then or_ReplicaID r else - 2)\<rparr>"

lemma e_b_put_OFLERequestPartition [put_bytes]:
  "e_b (put_OFLERequestPartition fl e p) = e_b e @ orp_bytes fl p"
  by (simp add: put_OFLERequestPartition_def orp_bytes_def Let_def put_bytes)

lemma e_b_put_OFLERequestTopic [put_bytes]:
  "e_b (put_OFLERequestTopic fl e t) = e_b e @ ort_bytes fl t"
  by (simp add: put_OFLERequestTopic_def ort_bytes_def Let_def put_bytes foldl_OFLE [where g = "orp_bytes fl"])

lemma EncodeOFLERequest_bytes: "EncodeOffsetsForLeaderEpochRequest r v = or_bytes v r"
  by (simp add: EncodeOffsetsForLeaderEpochRequest_def or_bytes_def Let_def Bytes_def put_bytes
      foldl_OFLE [where g = "ort_bytes (4 \<le> sint v)"] del: if_split) (simp add: bytes_if_def put_bytes)

interpretation ofle_request_partition:
  codec "orp_bytes fl" "decode_OFLERequestPartition fl" "\<lambda>_. True" id for fl
  by unfold_locales (simp add: orp_bytes_def decode_OFLERequestPartition_def roundtrip)

interpretation ofle_request_topic: codec "ort_bytes fl" "decode_OFLERequestTopic fl" ort_ok id for fl
  by unfold_locales
    (simp add: ort_bytes_def decode_OFLERequestTopic_def ort_ok_def roundtrip ofle_request_partition.ofle_array)

interpretation ofle_request:
  codec "or_bytes v" "ofle_request_fields v" ofle_request_ok "ofle_request_view v" for v
  by unfold_locales
    (simp add: or_bytes_def ofle_request_fields_def Let_def ofle_request_ok_def ofle_request_view_def roundtrip
      ofle_request_topic.ofle_array)

definition osp_bytes :: "bool \<Rightarrow> OFLEResponsePartition \<Rightarrow> bytes" where
  "osp_bytes fl p =
     be16 (osp_ErrorCode p) @ be32 (osp_Index p) @ be32 (osp_LeaderEpoch p) @ be64 (osp_EndOffset p) @ tag_bytes fl"

definition ost_bytes :: "bool \<Rightarrow> OFLEResponseTopic \<Rightarrow> bytes" where
  "ost_bytes fl t =
     ofle_str_bytes fl (ost_Name t) @ ofle_array_bytes fl (osp_bytes fl) (ost_Partitions t) @ tag_bytes fl"

definition ost_ok :: "OFLEResponseTopic \<Rightarrow> bool" where
  "ost_ok t \<longleftrightarrow> ok_str (ost_Name t) \<and> ok_len (ost_Partitions t)"

definition os_bytes :: "i16 \<Rightarrow> OFLEResponse \<Rightarrow> bytes" where
  "os_bytes v r =
     be32 (os_ThrottleTimeMs r) @
     ofle_array_bytes (sint v \<ge> 4) (ost_bytes (sint v \<ge> 4)) (os_Topics r) @ tag_bytes (sint v \<ge> 4)"

definition ofle_response_ok :: "OFLEResponse \<Rightarrow> bool" where
  "ofle_response_ok r \<longleftrightarrow> ok_len (os_Topics r) \<and> list_all ost_ok (os_Topics r)"

lemma e_b_put_OFLEResponsePartition [put_bytes]:
  "e_b (put_OFLEResponsePartition fl e p) = e_b e @ osp_bytes fl p"
  by (simp add: put_OFLEResponsePartition_def osp_bytes_def Let_def put_bytes)

lemma e_b_put_OFLEResponseTopic [put_bytes]:
  "e_b (put_OFLEResponseTopic fl e t) = e_b e @ ost_bytes fl t"
  using foldl_put [of "put_OFLEResponsePartition fl" "osp_bytes fl"]
  by (simp add: put_OFLEResponseTopic_def ost_bytes_def Let_def put_bytes ofle_array_bytes_def del: if_split)

lemma EncodeOFLEResponse_bytes: "EncodeOffsetsForLeaderEpochResponse r v = os_bytes v r"
  using foldl_put [of "put_OFLEResponseTopic (4 \<le> sint v)" "ost_bytes (4 \<le> sint v)"]
  by (simp add: EncodeOffsetsForLeaderEpochResponse_def os_bytes_def Let_def Bytes_def put_bytes
      ofle_array_bytes_def del: if_split)

interpretation ofle_response_partition:
  codec "osp_bytes fl" "decode_OFLEResponsePartition fl" "\<lambda>_. True" id for fl
  by unfold_locales (simp add: osp_bytes_def decode_OFLEResponsePartition_def roundtrip)

interpretation ofle_response_topic: codec "ost_bytes fl" "decode_OFLEResponseTopic fl" ost_ok id for fl
  by unfold_locales
    (simp add: ost_bytes_def decode_OFLEResponseTopic_def ost_ok_def roundtrip ofle_response_partition.ofle_array)

interpretation ofle_response: codec "os_bytes v" "ofle_response_fields v" ofle_response_ok id for v
  by unfold_locales
    (simp add: os_bytes_def ofle_response_fields_def Let_def ofle_response_ok_def roundtrip
      ofle_response_topic.ofle_array)

section \<open>Panic freedom of the classic encoding\<close>

lemma reader_OFLE_array_classic:
  assumes "reader f"
  shows "reader (decode_OFLE_array False f)"
proof -
  have "decode_OFLE_array False f = (\<lambda>d. do { (n, d) \<leftarrow> ArrayLen d; decode_n (nat (max (sint n) 0)) f d })"
    by (rule ext) (auto simp: decode_OFLE_array_def decodeOFLEArrayLen_def make_len_def max_def
        split: bind_splits prod.splits)
  then show ?thesis
    using reader_array [OF assms] unfolding decode_array_def [abs_def] by simp
qed

interpretation r_ofle_request_classic: reader "decode_OFLE_array False (decode_OFLERequestTopic False)"
  unfolding decode_OFLERequestTopic_def [abs_def] decode_OFLERequestPartition_def [abs_def]
    decodeOFLEString_def tagged_if_def if_False
  by (intro reader_rules reader_OFLE_array_classic)

end
