(* ===== verification/RecordBatch.thy ===== *)
theory RecordBatch
  imports Reader
begin

text \<open>
  \<open>record_batch.go\<close> and \<open>types.go\<close>: the record batch format (magic 2) as it is written by
  \<open>EncodeRecordBatch\<close> and read by \<open>DecodeRecordBatch\<close>.  The reader inverts the writer on any
  sequence of batches, and a batch of which one byte covered by the checksum changed is
  refused.  The reader also has inputs that make it panic; they are stated at the end.
\<close>

section \<open>Types and constants\<close>

record Message =
  m_Key :: "bytes option"
  m_Value :: "bytes option"
  m_Timestamp :: i64

record Batch =
  b_FirstOffset :: u64
  b_Attributes :: u16
  b_FirstTimestamp :: i64
  b_MaxTimestamp :: i64
  b_LastOffsetDelta :: u32
  b_Messages :: "Message list"

definition recordBatchHeaderSize :: int where "recordBatchHeaderSize = 61"
definition recordBatchLengthOffset :: int where "recordBatchLengthOffset = 8"
definition recordBatchBodyOffset :: int where "recordBatchBodyOffset = 21"
definition recordBatchPrefixSize :: int where "recordBatchPrefixSize = 12"

datatype BatchError =
    BatchTooShort nat
  | BatchNeeds int nat
  | UnsupportedMagic i8
  | CrcMismatch
  | BodyError DecodeError
  | RecordError nat DecodeError

section \<open>Writing\<close>

definition put_field :: "Encoder \<Rightarrow> bytes option \<Rightarrow> Encoder" where
  "put_field body f =
     (case f of
        None \<Rightarrow> PutVarint body (- 1)
      | Some b \<Rightarrow> PutRawBytes (PutVarint body (word_of_nat (length b))) b)"

definition encodeRecord :: "Message \<Rightarrow> nat \<Rightarrow> i64 \<Rightarrow> bytes" where
  "encodeRecord msg index baseTimestamp =
     (let body = NewEncoder;
          body = PutInt8 body 0;
          body = PutVarint body (m_Timestamp msg - baseTimestamp);
          body = PutVarint body (word_of_nat index);
          body = put_field body (m_Key msg);
          body = put_field body (m_Value msg);
          body = PutVarint body 0;
          rec = NewEncoder;
          rec = PutVarint rec (word_of_int (Len body));
          rec = PutRawBytes rec (Bytes body)
      in Bytes rec)"

definition encode_records :: "Batch \<Rightarrow> Encoder" where
  "encode_records batch =
     foldl (\<lambda>records (i, msg). PutRawBytes records (encodeRecord msg i (b_FirstTimestamp batch)))
       NewEncoder (enumerate 0 (b_Messages batch))"

definition EncodeRecordBatch :: "Batch \<Rightarrow> i32 \<Rightarrow> bytes" where
  "EncodeRecordBatch batch leaderEpoch =
     (let records = encode_records batch;
          body = NewEncoder;
          body = PutInt16 body (b_Attributes batch);
          body = PutInt32 body (b_LastOffsetDelta batch);
          body = PutInt64 body (b_FirstTimestamp batch);
          body = PutInt64 body (b_MaxTimestamp batch);
          body = PutInt64 body (- 1);
          body = PutInt16 body (- 1);
          body = PutInt32 body (- 1);
          body = PutInt32 body (word_of_nat (length (b_Messages batch)));
          body = PutRawBytes body (Bytes records);
          bodyData = Bytes body;
          crc = crc32c bodyData;
          batchLength = 4 + 1 + 4 + length bodyData;
          out = NewEncoder;
          out = PutInt64 out (b_FirstOffset batch);
          out = PutInt32 out (word_of_nat batchLength);
          out = PutInt32 out leaderEpoch;
          out = PutInt8 out 2;
          out = PutUint32 out crc;
          out = PutRawBytes out bodyData
      in Bytes out)"

section \<open>Reading\<close>

text \<open>\<open>n := bd.Varint(); if n >= 0 { x = bd.RawBytes(int(n)) }\<close>\<close>

definition get_field :: "Decoder \<Rightarrow> (bytes option \<times> Decoder) option" where
  "get_field d =
     do { (n, d) \<leftarrow> Varint d; if sint n \<ge> 0 then RawBytes d (sint n) else Some (None, d) }"

definition skip_header :: "Decoder \<Rightarrow> (unit \<times> Decoder) option" where
  "skip_header d = do { (_, d) \<leftarrow> get_field d; (_, d) \<leftarrow> get_field d; Some ((), d) }"

definition decode_record :: "i64 \<Rightarrow> Decoder \<Rightarrow> (Message \<times> Decoder) option" where
  "decode_record baseTimestamp bd =
     do {
       (_, bd) \<leftarrow> Varint bd;
       (_, bd) \<leftarrow> Int8 bd;
       (tsDelta, bd) \<leftarrow> Varint bd;
       (_, bd) \<leftarrow> Varint bd;
       (key, bd) \<leftarrow> get_field bd;
       (val, bd) \<leftarrow> get_field bd;
       (headerCount, bd) \<leftarrow> Varint bd;
       (_, bd) \<leftarrow> decode_n (nat (max (sint headerCount) 0)) skip_header bd;
       Some (\<lparr>m_Key = key, m_Value = val, m_Timestamp = baseTimestamp + tsDelta\<rparr>, bd)
     }"

text \<open>The loop over the records; it stops at the first error.\<close>

fun decode_records :: "i64 \<Rightarrow> nat \<Rightarrow> nat \<Rightarrow> Decoder \<Rightarrow> (BatchError + Message list) option" where
  "decode_records ts i 0 bd = Some (Inr [])"
| "decode_records ts i (Suc n) bd =
     do {
       (m, bd) \<leftarrow> decode_record ts bd;
       (case d_err bd of
          Some e \<Rightarrow> Some (Inl (RecordError i e))
        | None \<Rightarrow> do {
            r \<leftarrow> decode_records ts (Suc i) n bd;
            Some (case r of Inl e \<Rightarrow> Inl e | Inr ms \<Rightarrow> Inr (m # ms)) })
     }"

definition decode_body :: "i64 \<Rightarrow> bytes \<Rightarrow> (BatchError + Batch) option" where
  "decode_body baseOffset bodyBytes =
     do {
       let bd = NewDecoder bodyBytes;
       (attributes, bd) \<leftarrow> Int16 bd;
       (lastOffsetDelta, bd) \<leftarrow> Int32 bd;
       (baseTimestamp, bd) \<leftarrow> Int64 bd;
       (maxTimestamp, bd) \<leftarrow> Int64 bd;
       (_, bd) \<leftarrow> Int64 bd;
       (_, bd) \<leftarrow> Int16 bd;
       (_, bd) \<leftarrow> Int32 bd;
       (recordCount, bd) \<leftarrow> Int32 bd;
       (case d_err bd of
          Some e \<Rightarrow> Some (Inl (BodyError e))
        | None \<Rightarrow>
            if sint recordCount < 0 then None
            else do {
              r \<leftarrow> decode_records baseTimestamp 0 (nat (sint recordCount)) bd;
              Some (case r of
                 Inl e \<Rightarrow> Inl e
               | Inr messages \<Rightarrow> Inr
                   \<lparr>b_FirstOffset = baseOffset, b_Attributes = attributes, b_FirstTimestamp = baseTimestamp,
                    b_MaxTimestamp = maxTimestamp, b_LastOffsetDelta = lastOffsetDelta,
                    b_Messages = messages\<rparr>) })
     }"

definition decodeOneRecordBatch :: "bytes \<Rightarrow> (BatchError + Batch \<times> int) option" where
  "decodeOneRecordBatch data =
     (if length data < 12 then Some (Inl (BatchTooShort (length data)))
      else do {
        let d = NewDecoder data;
        (baseOffset, d) \<leftarrow> Int64 d;
        (batchLength, d) \<leftarrow> Int32 d;
        let totalSize = 12 + sint batchLength;
        if int (length data) < totalSize then Some (Inl (BatchNeeds totalSize (length data)))
        else do {
          (_, d) \<leftarrow> Int32 d;
          (magic, d) \<leftarrow> Int8 d;
          if magic \<noteq> 2 then Some (Inl (UnsupportedMagic magic))
          else do {
            (storedCRC, d) \<leftarrow> Uint32 d;
            bodyBytes \<leftarrow> go_slice data recordBatchBodyOffset totalSize;
            if crc32c bodyBytes \<noteq> storedCRC then Some (Inl CrcMismatch)
            else do {
              r \<leftarrow> decode_body baseOffset bodyBytes;
              Some (case r of Inl e \<Rightarrow> Inl e | Inr b \<Rightarrow> Inr (b, totalSize)) }}}})"

lemma decodeOneRecordBatch_consumes:
  "decodeOneRecordBatch data = Some (Inr (b, n)) \<Longrightarrow> 21 \<le> n \<and> n \<le> int (length data)"
  by (auto simp: decodeOneRecordBatch_def Let_def go_slice_def recordBatchBodyOffset_def
      split: bind_splits prod.splits if_splits sum.splits)

text \<open>
  The loop over \<open>data[pos:]\<close>: the batches decoded so far, with the error that stopped it and its
  position.  It ends because a decoded batch takes at least 21 bytes.
\<close>

function decode_batches ::
    "bytes \<Rightarrow> int \<Rightarrow> Batch list \<Rightarrow> (Batch list \<times> (int \<times> BatchError) option) option" where
  "decode_batches data pos batches =
     (if pos < int (length data)
      then (case go_slice_from data pos of
              None \<Rightarrow> None
            | Some rest \<Rightarrow>
                (case decodeOneRecordBatch rest of
                   None \<Rightarrow> None
                 | Some (Inl e) \<Rightarrow> Some (batches, Some (pos, e))
                 | Some (Inr (b, consumed)) \<Rightarrow> decode_batches data (pos + consumed) (batches @ [b])))
      else Some (batches, None))"
  by pat_completeness auto

termination
  by (relation "measure (\<lambda>(data, pos, _). nat (int (length data) - pos))")
    (auto dest!: decodeOneRecordBatch_consumes)

definition DecodeRecordBatch :: "bytes \<Rightarrow> (Batch list \<times> (int \<times> BatchError) option) option" where
  "DecodeRecordBatch data = decode_batches data 0 []"

declare decode_batches.simps [simp del]

section \<open>Reading back what was written\<close>

definition field_bytes :: "bytes option \<Rightarrow> bytes" where
  "field_bytes f = (case f of None \<Rightarrow> put_varint (- 1) | Some b \<Rightarrow> put_varint (word_of_nat (length b)) @ b)"

definition record_body :: "i64 \<Rightarrow> nat \<times> Message \<Rightarrow> bytes" where
  "record_body ts = (\<lambda>(i, m).
     [0] @ put_varint (m_Timestamp m - ts) @ put_varint (word_of_nat i) @
     field_bytes (m_Key m) @ field_bytes (m_Value m) @ put_varint 0)"

definition record_bytes :: "i64 \<Rightarrow> nat \<times> Message \<Rightarrow> bytes" where
  "record_bytes ts x = put_varint (word_of_nat (length (record_body ts x))) @ record_body ts x"

lemma e_b_put_field [put_bytes]: "e_b (put_field e f) = e_b e @ field_bytes f"
  by (simp add: put_field_def field_bytes_def put_bytes split: option.split)

lemma encodeRecord_bytes: "encodeRecord m i ts = record_bytes ts (i, m)"
  by (simp add: encodeRecord_def record_bytes_def record_body_def Bytes_def Len_def put_bytes Let_def
      add.assoc)

lemma get_field_at [roundtrip]:
  assumes "fits (pre @ field_bytes f @ post)"
  shows "get_field (dec_at pre (field_bytes f @ post)) = Some (f, dec_at (pre @ field_bytes f) post)"
proof (cases f)
  case None
  then show ?thesis using assms by (simp add: get_field_def field_bytes_def roundtrip)
next
  case (Some b)
  let ?n = "put_varint (word_of_nat (length b))"
  have f: "fits (pre @ ?n @ b @ post)"
    using assms Some by (simp add: field_bytes_def)
  then have "length b < 2 ^ 62"
    by (simp add: fits_def)
  then have "sint (word_of_nat (length b) :: i64) = int (length b)"
    by (simp add: sint_word_of_nat)
  with f Some show ?thesis
    using take_span_at [of "pre @ ?n" b post "int (length b)"]
    by (simp add: get_field_def field_bytes_def RawBytes_def roundtrip)
qed

interpretation record_codec: codec "record_bytes ts" "decode_record ts" "\<lambda>_. True" snd for ts
  by unfold_locales (auto simp: record_bytes_def record_body_def decode_record_def roundtrip)

lemma decode_records_put:
  "fits (pre @ concat (map (record_bytes ts) xs) @ post) \<Longrightarrow> n = length xs \<Longrightarrow>
   decode_records ts i n (dec_at pre (concat (map (record_bytes ts) xs) @ post)) = Some (Inr (map snd xs))"
proof (induction xs arbitrary: pre i n)
  case (Cons x xs)
  have f: "fits (pre @ record_bytes ts x @ concat (map (record_bytes ts) xs) @ post)"
    using Cons.prems(1) by simp
  have "decode_records ts (Suc i) (length xs)
      (dec_at (pre @ record_bytes ts x) (concat (map (record_bytes ts) xs) @ post)) = Some (Inr (map snd xs))"
    by (rule Cons.IH) (use f in simp_all)
  then show ?case
    using Cons.prems(2) record_codec.get_put [OF _ f] by simp
qed simp

definition batch_records :: "Batch \<Rightarrow> bytes" where
  "batch_records b = concat (map (record_bytes (b_FirstTimestamp b)) (enumerate 0 (b_Messages b)))"

definition batch_body :: "Batch \<Rightarrow> bytes" where
  "batch_body b =
     be16 (b_Attributes b) @ be32 (b_LastOffsetDelta b) @ be64 (b_FirstTimestamp b) @
     be64 (b_MaxTimestamp b) @ be64 (- 1) @ be16 (- 1) @ be32 (- 1) @
     be32 (word_of_nat (length (b_Messages b))) @ batch_records b"

definition batch_prefix :: "Batch \<Rightarrow> i32 \<Rightarrow> bytes" where
  "batch_prefix b epoch =
     be64 (b_FirstOffset b) @ be32 (word_of_nat (9 + length (batch_body b))) @ be32 epoch @ [2]"

lemma encode_records_bytes: "e_b (encode_records b) = batch_records b"
proof -
  have "e_b (foldl (\<lambda>records (i, msg). PutRawBytes records (encodeRecord msg i (b_FirstTimestamp b))) e xs) =
      e_b e @ concat (map (record_bytes (b_FirstTimestamp b)) xs)" for e xs
    by (rule foldl_put) (auto simp: put_bytes encodeRecord_bytes)
  then show ?thesis
    by (simp add: encode_records_def batch_records_def put_bytes)
qed

lemma EncodeRecordBatch_bytes:
  "EncodeRecordBatch b epoch = batch_prefix b epoch @ be32 (crc32c (batch_body b)) @ batch_body b"
  by (simp add: EncodeRecordBatch_def batch_prefix_def batch_body_def Bytes_def Let_def put_bytes
      encode_records_bytes)

lemma length_batch_prefix [simp]: "length (batch_prefix b epoch) = 17"
  by (simp add: batch_prefix_def)

lemma length_EncodeRecordBatch: "length (EncodeRecordBatch b epoch) = 21 + length (batch_body b)"
  by (simp add: EncodeRecordBatch_bytes)

text \<open>A batch whose length and record count fit the format.\<close>

definition batch_ok :: "Batch \<Rightarrow> bool" where
  "batch_ok b \<longleftrightarrow> 9 + length (batch_body b) < 2 ^ 31 \<and> ok_len (b_Messages b)"

lemma decode_body_bytes:
  assumes "batch_ok b"
  shows "decode_body (b_FirstOffset b) (batch_body b) = Some (Inr b)"
proof -
  have f: "fits (batch_body b)" and n: "ok_len (b_Messages b)"
    using assms by (simp_all add: batch_ok_def fits_def)
  let ?h = "be16 (b_Attributes b) @ be32 (b_LastOffsetDelta b) @ be64 (b_FirstTimestamp b) @
     be64 (b_MaxTimestamp b) @ be64 (- 1) @ be16 (- 1) @ be32 (- 1) @
     be32 (word_of_nat (length (b_Messages b)))"
  have "decode_records (b_FirstTimestamp b) 0 (length (b_Messages b)) (dec_at ?h (batch_records b)) =
      Some (Inr (b_Messages b))"
    using f decode_records_put [of ?h "b_FirstTimestamp b" "enumerate 0 (b_Messages b)" "[]"]
    by (simp add: batch_records_def batch_body_def)
  with f n show ?thesis
    using Int16_at [of "[]" "b_Attributes b"]
    by (simp add: decode_body_def batch_body_def NewDecoder_at roundtrip)
qed

text \<open>The fields before the body, for any stored checksum and any body of the announced size.\<close>

lemma decodeOneRecordBatch_head:
  assumes body: "length body = length (batch_body b)" and ok: "9 + length body < 2 ^ 31"
    and f: "fits (batch_prefix b epoch @ be32 crc @ body @ rest)"
  shows "decodeOneRecordBatch (batch_prefix b epoch @ be32 crc @ body @ rest) =
    (if crc32c body \<noteq> crc then Some (Inl CrcMismatch)
     else do { r \<leftarrow> decode_body (b_FirstOffset b) body;
               Some (case r of Inl e \<Rightarrow> Inl e | Inr b \<Rightarrow> Inr (b, 21 + int (length body))) })"
proof -
  let ?p = "batch_prefix b epoch @ be32 crc"
  have sz: "sint (word_of_nat (9 + length body) :: i32) = 9 + int (length body)"
    using ok by (simp add: sint_word_of_nat del: of_nat_add)
  have "go_slice (?p @ body @ rest) (int (length ?p)) (int (length ?p) + int (length body)) = Some body"
    by (rule go_slice_mid) simp
  then have "go_slice (batch_prefix b epoch @ be32 crc @ body @ rest) 21 (21 + int (length body)) = Some body"
    by simp
  with f sz show ?thesis
    using Int64_at [of "[]" "b_FirstOffset b"]
    by (simp add: decodeOneRecordBatch_def batch_prefix_def body NewDecoder_at roundtrip
        recordBatchBodyOffset_def Let_def cong: sum.case_cong)
qed

lemma decodeOneRecordBatch_encoded:
  assumes "batch_ok b" and "fits (EncodeRecordBatch b epoch @ rest)"
  shows "decodeOneRecordBatch (EncodeRecordBatch b epoch @ rest) =
    Some (Inr (b, int (length (EncodeRecordBatch b epoch))))"
proof -
  have ok: "9 + length (batch_body b) < 2 ^ 31"
    using assms(1) by (simp add: batch_ok_def)
  have f: "fits (batch_prefix b epoch @ be32 (crc32c (batch_body b)) @ batch_body b @ rest)"
    using assms(2) by (simp add: EncodeRecordBatch_bytes)
  show ?thesis
    using decodeOneRecordBatch_head [OF refl ok f] decode_body_bytes [OF assms(1)]
    by (simp add: EncodeRecordBatch_bytes)
qed

lemma decode_batches_encoded:
  assumes "list_all (\<lambda>(b, _). batch_ok b) xs"
    and "fits (pre @ concat (map (\<lambda>(b, e). EncodeRecordBatch b e) xs))"
  shows "decode_batches (pre @ concat (map (\<lambda>(b, e). EncodeRecordBatch b e) xs)) (int (length pre)) acc =
    Some (acc @ map fst xs, None)"
  using assms
proof (induction xs arbitrary: pre acc)
  case Nil
  then show ?case by (simp add: decode_batches.simps)
next
  case (Cons x xs)
  obtain b e where x: "x = (b, e)" by fastforce
  let ?E = "EncodeRecordBatch b e" and ?R = "concat (map (\<lambda>(b, e). EncodeRecordBatch b e) xs)"
  have one: "decodeOneRecordBatch (?E @ ?R) = Some (Inr (b, int (length ?E)))"
    using Cons.prems x by (intro decodeOneRecordBatch_encoded) (auto simp: fits_def)
  have len: "0 < length ?E"
    by (simp add: length_EncodeRecordBatch)
  have "decode_batches ((pre @ ?E) @ ?R) (int (length (pre @ ?E))) (acc @ [b]) = Some ((acc @ [b]) @ map fst xs, None)"
    by (rule Cons.IH) (use Cons.prems x in simp_all)
  then show ?case
    using one len x by (subst decode_batches.simps) (simp add: add_pos_nonneg)
qed

section \<open>Corruption\<close>

lemma decodeOneRecordBatch_corrupt:
  assumes ok: "batch_ok b" and body: "batch_body b = xs @ v # ys" and "w \<noteq> v"
    and f: "fits (EncodeRecordBatch b epoch @ rest)"
  shows "decodeOneRecordBatch
      (batch_prefix b epoch @ be32 (crc32c (batch_body b)) @ (xs @ w # ys) @ rest) = Some (Inl CrcMismatch)"
proof -
  have "crc32c (xs @ w # ys) \<noteq> crc32c (batch_body b)"
    using crc32c_one_byte [OF \<open>w \<noteq> v\<close>] body by simp
  moreover have "fits (batch_prefix b epoch @ be32 (crc32c (batch_body b)) @ (xs @ w # ys) @ rest)"
    using f body by (simp add: EncodeRecordBatch_bytes fits_def)
  ultimately show ?thesis
    using ok body by (subst decodeOneRecordBatch_head) (simp_all add: batch_ok_def)
qed

section \<open>Panics\<close>

text \<open>
  A magic byte of 2 with a length field below 9, and a negative record count under a valid
  checksum, are run-time panics.
\<close>

lemma decodeOneRecordBatch_short_panics:
  assumes "sint len < 9" and "0 \<le> 12 + sint len" and "fits (be64 off @ be32 len @ be32 epoch @ [2] @ be32 crc @ rest)"
  shows "decodeOneRecordBatch (be64 off @ be32 len @ be32 epoch @ [2] @ be32 crc @ rest) = None"
  using assms Int64_at [of "[]" off]
  by (simp add: decodeOneRecordBatch_def NewDecoder_at roundtrip recordBatchBodyOffset_def Let_def go_slice_def)

end
