(* ===== verification/GoText.thy ===== *)
theory GoText
  imports Prelude
begin

text \<open>
  The parts of \<open>strconv\<close>, \<open>strings\<close>, \<open>fmt\<close> and \<open>bufio\<close> the program uses, on byte strings:
  printing and parsing decimal integers, trimming and splitting at white space, reading a
  file by lines.  Proved: printed numbers are parsed back, alone, as fields and as lines;
  trimming is idempotent.
\<close>

section \<open>Decimal text\<close>

definition digit :: "nat \<Rightarrow> byte" where
  "digit n = word_of_nat (48 + n)"

fun dec_nat :: "nat \<Rightarrow> bytes" where
  "dec_nat n = (if n < 10 then [digit n] else dec_nat (n div 10) @ [digit (n mod 10)])"

declare dec_nat.simps [simp del]

text \<open>The verb \<open>%d\<close>.\<close>

definition fmt_d :: "int \<Rightarrow> bytes" where
  "fmt_d i = (if i < 0 then 45 # dec_nat (nat (- i)) else dec_nat (nat i))"

text \<open>
  \<open>strings.ToUpper\<close>: on ASCII strings a byte map; on others the Unicode tables, which are the
  argument \<open>uni\<close>.
\<close>

definition ascii_upper :: "byte \<Rightarrow> byte" where
  "ascii_upper b = (if 97 \<le> b \<and> b \<le> 122 then b - 32 else b)"

definition is_ascii :: "gostring \<Rightarrow> bool" where
  "is_ascii s = list_all (\<lambda>b. b < 128) s"

definition ToUpper :: "(gostring \<Rightarrow> gostring) \<Rightarrow> gostring \<Rightarrow> gostring" where
  "ToUpper uni s = (if is_ascii s then map ascii_upper s else uni s)"

definition is_digit :: "byte \<Rightarrow> bool" where
  "is_digit b \<longleftrightarrow> 48 \<le> unat b \<and> unat b \<le> 57"

fun digits_val :: "nat \<Rightarrow> bytes \<Rightarrow> nat option" where
  "digits_val acc [] = Some acc"
| "digits_val acc (b # bs) = (if is_digit b then digits_val (10 * acc + (unat b - 48)) bs else None)"

text \<open>\<open>strconv.ParseInt(s, 10, bits)\<close>: \<^const>\<open>None\<close> for a syntax or range error.\<close>

definition ParseInt :: "nat \<Rightarrow> bytes \<Rightarrow> int option" where
  "ParseInt bits s =
     (let neg = (s \<noteq> [] \<and> hd s = 45);
          ds = (if s \<noteq> [] \<and> (hd s = 45 \<or> hd s = 43) then tl s else s)
      in if ds = [] then None
         else case digits_val 0 ds of
           None \<Rightarrow> None
         | Some n \<Rightarrow>
             if neg then (if n > 2 ^ (bits - 1) then None else Some (- int n))
             else (if n \<ge> 2 ^ (bits - 1) then None else Some (int n)))"

definition Atoi :: "bytes \<Rightarrow> int option" where
  "Atoi s = ParseInt 64 s"

section \<open>White space and lines\<close>

text \<open>The UTF-8 encodings of the code points \<open>unicode.IsSpace\<close> accepts.\<close>

definition wide_spaces :: "bytes list" where
  "wide_spaces =
     [[0xC2, 0x85], [0xC2, 0xA0], [0xE1, 0x9A, 0x80],
      [0xE2, 0x80, 0x80], [0xE2, 0x80, 0x81], [0xE2, 0x80, 0x82], [0xE2, 0x80, 0x83],
      [0xE2, 0x80, 0x84], [0xE2, 0x80, 0x85], [0xE2, 0x80, 0x86], [0xE2, 0x80, 0x87],
      [0xE2, 0x80, 0x88], [0xE2, 0x80, 0x89], [0xE2, 0x80, 0x8A], [0xE2, 0x80, 0xA8],
      [0xE2, 0x80, 0xA9], [0xE2, 0x80, 0xAF], [0xE2, 0x81, 0x9F], [0xE3, 0x80, 0x80]]"

definition space_runes :: "bytes list" where
  "space_runes = [[9], [10], [11], [12], [13], [32]] @ wide_spaces"

text \<open>The length of the white-space rune a byte string starts with, 0 if it starts with none.\<close>

definition space_len :: "bytes list \<Rightarrow> bytes \<Rightarrow> nat" where
  "space_len runes bs =
     (case find (\<lambda>r. take (length r) bs = r) runes of None \<Rightarrow> 0 | Some r \<Rightarrow> length r)"

function trim_left :: "bytes list \<Rightarrow> bytes \<Rightarrow> bytes" where
  "trim_left runes bs =
     (if bs = [] \<or> space_len runes bs = 0 then bs else trim_left runes (drop (space_len runes bs) bs))"
  by pat_completeness auto

termination
  by (relation "measure (length \<circ> snd)") auto

declare trim_left.simps [simp del]

text \<open>\<open>strings.TrimSpace\<close>: the left end forwards, the right end on the reversed string.\<close>

definition TrimSpace :: "bytes \<Rightarrow> bytes" where
  "TrimSpace s = rev (trim_left (map rev space_runes) (rev (trim_left space_runes s)))"

function fields_from :: "bytes \<Rightarrow> bytes \<Rightarrow> bytes list" where
  "fields_from cur bs =
     (if bs = [] then (if cur = [] then [] else [cur])
      else if space_len space_runes bs = 0 then fields_from (cur @ [hd bs]) (tl bs)
      else (if cur = [] then [] else [cur]) @ fields_from [] (drop (space_len space_runes bs) bs))"
  by pat_completeness auto

termination
  by (relation "measure (length \<circ> snd)") auto

declare fields_from.simps [simp del]

definition Fields :: "bytes \<Rightarrow> bytes list" where
  "Fields s = fields_from [] s"

text \<open>
  \<open>bufio.Scanner\<close> over lines: a line of 65536 bytes or more is an error, a final carriage return
  is dropped.  \<open>sc_fail = Some k\<close> is a read error of the file after \<open>k\<close> more lines.
\<close>

record Scanner =
  sc_data :: bytes
  sc_fail :: "nat option"

datatype ScanResult = ScanLine bytes Scanner | ScanEnd | ScanErr

definition drop_cr :: "bytes \<Rightarrow> bytes" where
  "drop_cr l = (if l \<noteq> [] \<and> last l = 13 then butlast l else l)"

definition Scan :: "Scanner \<Rightarrow> ScanResult" where
  "Scan sc =
     (if sc_fail sc = Some 0 then ScanErr
      else if sc_data sc = [] then ScanEnd
      else let l = takeWhile (\<lambda>b. b \<noteq> 10) (sc_data sc) in
        if length l \<ge> 65536 then ScanErr
        else ScanLine (drop_cr l)
          \<lparr>sc_data = drop (length l + 1) (sc_data sc), sc_fail = map_option (\<lambda>n. n - 1) (sc_fail sc)\<rparr>)"

section \<open>Printed numbers are read back\<close>

lemma digits_val_append:
  "digits_val acc (xs @ ys) = do { a \<leftarrow> digits_val acc xs; digits_val a ys }"
  by (induction xs arbitrary: acc) auto

lemma unat_digit [simp]: "k < 10 \<Longrightarrow> unat (digit k) = 48 + k"
  by (simp add: digit_def unat_of_nat del: of_nat_add)

lemma dec_nat_digits: "b \<in> set (dec_nat n) \<Longrightarrow> is_digit b"
proof (induction n rule: dec_nat.induct)
  case (1 n)
  show ?case
  proof (cases "n < 10")
    case True
    then show ?thesis using 1(2) by (simp add: dec_nat.simps [of n] is_digit_def)
  next
    case False
    then show ?thesis using 1 by (auto simp: dec_nat.simps [of n] is_digit_def)
  qed
qed

lemma dec_nat_not_Nil [simp]: "dec_nat n \<noteq> []"
  by (subst dec_nat.simps) simp

lemma digits_val_dec: "digits_val 0 (dec_nat n) = Some n"
proof (induction n rule: dec_nat.induct)
  case (1 n)
  show ?case
  proof (cases "n < 10")
    case True
    then show ?thesis by (simp add: dec_nat.simps [of n] is_digit_def)
  next
    case False
    then show ?thesis using 1 by (simp add: dec_nat.simps [of n] digits_val_append is_digit_def)
  qed
qed

lemma length_dec_nat: "n < 10 ^ Suc k \<Longrightarrow> length (dec_nat n) \<le> Suc k"
proof (induction k arbitrary: n)
  case 0
  then show ?case by (simp add: dec_nat.simps [of n])
next
  case (Suc k)
  then have "n div 10 < 10 ^ Suc k" by (simp add: div_less_iff_less_mult)
  then have "length (dec_nat (n div 10)) \<le> Suc k" by (rule Suc.IH)
  then show ?case by (simp add: dec_nat.simps [of n])
qed

lemma hd_dec_nat: "is_digit (hd (dec_nat n))"
  by (rule dec_nat_digits [of _ n]) simp

lemma is_digit_neq:
  "is_digit b \<Longrightarrow> b \<noteq> 45" "is_digit b \<Longrightarrow> b \<noteq> 43" "is_digit b \<Longrightarrow> b \<noteq> 10" "is_digit b \<Longrightarrow> b \<noteq> 13" "is_digit b \<Longrightarrow> b \<noteq> 32"
  by (auto simp: is_digit_def)

lemma ParseInt_dec: "n < 2 ^ (bits - 1) \<Longrightarrow> ParseInt bits (dec_nat n) = Some (int n)"
  using hd_dec_nat [of n] by (simp add: ParseInt_def digits_val_dec is_digit_neq)

text \<open>A digit starts no white-space rune, in either direction.\<close>

lemma space_len_zero:
  assumes "list_all (\<lambda>r. r \<noteq> [] \<and> \<not> is_digit (hd r)) runes" and "is_digit b"
  shows "space_len runes (b # bs) = 0"
proof -
  have "take (length r) (b # bs) \<noteq> r" if "r \<in> set runes" for r
  proof -
    have "r \<noteq> []" "\<not> is_digit (hd r)" using that assms(1) by (auto simp: list_all_iff)
    then obtain c cs where "r = c # cs" "\<not> is_digit c" by (metis list.exhaust_sel)
    then show ?thesis using assms(2) by auto
  qed
  then have "find (\<lambda>r. take (length r) (b # bs) = r) runes = None"
    by (simp add: find_None_iff)
  then show ?thesis by (simp add: space_len_def)
qed

lemma space_len_digit:
  assumes "is_digit b"
  shows "space_len space_runes (b # bs) = 0" and "space_len (map rev space_runes) (b # bs) = 0"
  by (rule space_len_zero [OF _ assms], simp add: space_runes_def wide_spaces_def is_digit_def)+

lemma TrimSpace_dec: "TrimSpace (dec_nat n) = dec_nat n"
proof -
  obtain b bs where b: "dec_nat n = b # bs" "is_digit b"
    using hd_dec_nat [of n] by (cases "dec_nat n") auto
  obtain c cs where c: "rev (dec_nat n) = c # cs" "is_digit c"
    using dec_nat_digits [of "last (dec_nat n)" n] by (cases "rev (dec_nat n)") (auto simp: rev_eq_Cons_iff)
  have "trim_left space_runes (dec_nat n) = dec_nat n"
    using b by (subst trim_left.simps) (simp add: space_len_digit)
  moreover have "trim_left (map rev space_runes) (rev (dec_nat n)) = rev (dec_nat n)"
    using c by (subst trim_left.simps) (simp add: space_len_digit)
  ultimately show ?thesis by (simp add: TrimSpace_def)
qed

lemma fields_from_digits:
  "list_all is_digit ds \<Longrightarrow> fields_from cur (ds @ rest) = fields_from (cur @ ds) rest"
proof (induction ds arbitrary: cur)
  case (Cons d ds)
  have "fields_from cur ((d # ds) @ rest) = fields_from (cur @ [d]) (ds @ rest)"
    using Cons.prems by (subst fields_from.simps) (simp add: space_len_digit)
  with Cons show ?case by simp
qed simp

lemma space_len_blank: "space_len space_runes (32 # bs) = 1"
  by (simp add: space_len_def space_runes_def)

lemma Fields_two:
  assumes "list_all is_digit a" "list_all is_digit b" "a \<noteq> []" "b \<noteq> []"
  shows "Fields (a @ 32 # b) = [a, b]"
proof -
  have "Fields (a @ 32 # b) = fields_from a (32 # b)"
    using fields_from_digits [OF assms(1), of "[]" "32 # b"] by (simp add: Fields_def)
  also have "\<dots> = a # fields_from [] b"
    using assms(3) by (subst fields_from.simps) (simp add: space_len_blank)
  also have "fields_from [] b = fields_from b []"
    using fields_from_digits [OF assms(2), of "[]" "[]"] by simp
  also have "\<dots> = [b]"
    using assms(4) by (subst fields_from.simps) simp
  finally show ?thesis .
qed

section \<open>Lines\<close>

lemma Scan_line:
  assumes "10 \<notin> set l" "length l < 65536" "l = [] \<or> last l \<noteq> 13"
  shows "Scan \<lparr>sc_data = l @ 10 # rest, sc_fail = None\<rparr> = ScanLine l \<lparr>sc_data = rest, sc_fail = None\<rparr>"
proof -
  have "takeWhile (\<lambda>b. b \<noteq> 10) (l @ 10 # rest) = l"
    using assms(1) by (induction l) auto
  then show ?thesis
    using assms by (auto simp: Scan_def drop_cr_def)
qed

lemma digits_line:
  assumes "list_all is_digit l" "l \<noteq> []"
  shows "10 \<notin> set l" "last l \<noteq> 13" "is_digit (last l)"
proof -
  have d: "\<And>b. b \<in> set l \<Longrightarrow> is_digit b" using assms(1) by (simp add: list_all_iff)
  show "10 \<notin> set l" using d is_digit_neq(3) by blast
  show "is_digit (last l)" using d assms(2) by simp
  then show "last l \<noteq> 13" by (rule is_digit_neq(4))
qed

lemma dec_nat_all: "list_all is_digit (dec_nat n)"
  by (simp add: list_all_iff dec_nat_digits)

lemma Scan_dec:
  assumes "n < 10 ^ 100"
  shows "Scan \<lparr>sc_data = dec_nat n @ 10 # rest, sc_fail = None\<rparr> =
    ScanLine (dec_nat n) \<lparr>sc_data = rest, sc_fail = None\<rparr>"
proof -
  have "length (dec_nat n) \<le> 100" using length_dec_nat [of n 99] assms by simp
  then show ?thesis
    using digits_line [OF dec_nat_all [of n] dec_nat_not_Nil] by (intro Scan_line) auto
qed

section \<open>Trimming twice\<close>

definition head_ok :: "bytes list \<Rightarrow> bytes \<Rightarrow> bool" where
  "head_ok R bs \<longleftrightarrow> bs = [] \<or> space_len R bs = 0"

lemma trim_left_ok: "head_ok R (trim_left R bs)"
proof (induction R bs rule: trim_left.induct)
  case (1 R bs)
  show ?case
  proof (cases "bs = [] \<or> space_len R bs = 0")
    case True
    then show ?thesis by (subst trim_left.simps) (auto simp: head_ok_def)
  next
    case False
    then show ?thesis using 1 by (subst trim_left.simps) simp
  qed
qed

lemma trim_left_id: "head_ok R bs \<Longrightarrow> trim_left R bs = bs"
  by (subst trim_left.simps) (simp add: head_ok_def)

lemma trim_left_suffix: "\<exists>p. bs = p @ trim_left R bs"
proof (induction R bs rule: trim_left.induct)
  case (1 R bs)
  show ?case
  proof (cases "bs = [] \<or> space_len R bs = 0")
    case True
    then show ?thesis by (subst trim_left.simps) auto
  next
    case False
    from 1 [OF False] obtain p where "drop (space_len R bs) bs = p @ trim_left R (drop (space_len R bs) bs)" ..
    moreover have "trim_left R bs = trim_left R (drop (space_len R bs) bs)"
      using False by (subst trim_left.simps) simp
    ultimately show ?thesis by (metis append_take_drop_id append.assoc)
  qed
qed

lemma space_len_0_iff:
  assumes "[] \<notin> set R"
  shows "space_len R bs = 0 \<longleftrightarrow> (\<forall>r\<in>set R. take (length r) bs \<noteq> r)"
proof (cases "find (\<lambda>r. take (length r) bs = r) R")
  case None
  then have "\<forall>r\<in>set R. take (length r) bs \<noteq> r" by (simp add: find_None_iff)
  with None show ?thesis by (simp add: space_len_def)
next
  case (Some r)
  then have "r \<in> set R" "take (length r) bs = r" by (auto simp: find_Some_iff)
  then show ?thesis using Some assms by (auto simp: space_len_def)
qed

lemma take_append_prefix: "take n xs = ys \<Longrightarrow> length ys = n \<Longrightarrow> take n (xs @ zs) = ys"
  by auto

lemma head_ok_prefix:
  assumes "[] \<notin> set R" and "head_ok R (xs @ ys)"
  shows "head_ok R xs"
proof (cases "xs = []")
  case False
  then have "\<forall>r\<in>set R. take (length r) (xs @ ys) \<noteq> r"
    using assms by (simp add: head_ok_def space_len_0_iff)
  then have "\<forall>r\<in>set R. take (length r) xs \<noteq> r"
    using take_append_prefix by metis
  then show ?thesis using assms(1) by (simp add: head_ok_def space_len_0_iff)
qed (simp add: head_ok_def)

lemma runes_not_Nil [simp]: "[] \<notin> set space_runes" "[] \<notin> set (map rev space_runes)"
  by (simp_all add: space_runes_def wide_spaces_def)

definition trimmed :: "gostring \<Rightarrow> bool" where
  "trimmed s \<longleftrightarrow> head_ok space_runes s \<and> head_ok (map rev space_runes) (rev s)"

lemma trimmed_TrimSpace: "trimmed (TrimSpace s)"
proof -
  let ?t = "trim_left space_runes s" and ?R = "map rev space_runes"
  obtain p where "rev ?t = p @ trim_left ?R (rev ?t)"
    using trim_left_suffix by blast
  then have "?t = rev (trim_left ?R (rev ?t)) @ rev p"
    by (metis rev_append rev_rev_ident)
  then have "head_ok space_runes (TrimSpace s)"
    using head_ok_prefix [OF runes_not_Nil(1)] trim_left_ok by (metis TrimSpace_def)
  then show ?thesis
    using trim_left_ok by (simp add: trimmed_def TrimSpace_def)
qed

lemma TrimSpace_trimmed: "trimmed s \<Longrightarrow> TrimSpace s = s"
  by (simp add: trimmed_def TrimSpace_def trim_left_id)

lemma TrimSpace_idem [simp]: "TrimSpace (TrimSpace s) = TrimSpace s"
  by (simp add: TrimSpace_trimmed trimmed_TrimSpace)

text \<open>On ASCII text white space is a single byte, and mapping to upper case keeps it apart.\<close>

definition ascii_space :: "byte \<Rightarrow> bool" where
  "ascii_space b \<longleftrightarrow> b = 9 \<or> b = 10 \<or> b = 11 \<or> b = 12 \<or> b = 13 \<or> b = 32"

lemma space_runes_split:
  "r \<in> set space_runes \<longleftrightarrow> (\<exists>b. r = [b] \<and> ascii_space b) \<or> r \<in> set wide_spaces"
  by (auto simp: space_runes_def ascii_space_def)

lemma wide_runes: "list_all (\<lambda>r. r \<noteq> [] \<and> 128 \<le> hd r \<and> 128 \<le> hd (rev r)) wide_spaces"
  by (simp add: wide_spaces_def)

lemma rune_match:
  assumes "r \<noteq> []" and "128 \<le> hd r" and "(b :: byte) < 128"
  shows "take (length r) (b # bs) \<noteq> r"
  using assms by (cases r) (auto simp: leD)

lemma head_ok_ascii:
  assumes "is_ascii s"
  shows "head_ok space_runes s \<longleftrightarrow> s = [] \<or> \<not> ascii_space (hd s)"
    and "head_ok (map rev space_runes) s \<longleftrightarrow> s = [] \<or> \<not> ascii_space (hd s)"
proof -
  have wide: "take (length r) (b # bs) \<noteq> r" "take (length r) (b # bs) \<noteq> rev r"
    if "b < 128" "r \<in> set wide_spaces" for b r bs
    using that wide_runes rune_match [of r b bs] rune_match [of "rev r" b bs] by (auto simp: list_all_iff)
  have one: "(\<forall>r\<in>set space_runes. take (length r) (b # bs) \<noteq> r) \<longleftrightarrow> \<not> ascii_space b"
    "(\<forall>r\<in>set space_runes. take (length r) (b # bs) \<noteq> rev r) \<longleftrightarrow> \<not> ascii_space b" if b: "b < 128" for b bs
  proof -
    have "[b] \<in> set space_runes" if "ascii_space b" using that space_runes_split by blast
    moreover have "take (length r) (b # bs) \<noteq> r \<and> take (length r) (b # bs) \<noteq> rev r"
      if "\<not> ascii_space b" "r \<in> set space_runes" for r
      using that wide [OF b] by (auto simp: space_runes_split)
    ultimately show "(\<forall>r\<in>set space_runes. take (length r) (b # bs) \<noteq> r) \<longleftrightarrow> \<not> ascii_space b"
      "(\<forall>r\<in>set space_runes. take (length r) (b # bs) \<noteq> rev r) \<longleftrightarrow> \<not> ascii_space b"
      by fastforce+
  qed
  have "space_len space_runes (b # bs) = 0 \<longleftrightarrow> \<not> ascii_space b"
    "space_len (map rev space_runes) (b # bs) = 0 \<longleftrightarrow> \<not> ascii_space b" if "b < 128" for b bs
    using one [OF that, of bs] runes_not_Nil by (simp_all add: space_len_0_iff)
  then show "head_ok space_runes s \<longleftrightarrow> s = [] \<or> \<not> ascii_space (hd s)"
    "head_ok (map rev space_runes) s \<longleftrightarrow> s = [] \<or> \<not> ascii_space (hd s)"
    using assms by (cases s; simp add: head_ok_def is_ascii_def)+
qed

lemma ascii_upper_facts:
  "b < 128 \<Longrightarrow> ascii_upper b < 128" "ascii_upper (ascii_upper b) = ascii_upper b"
  "ascii_space (ascii_upper b) \<longleftrightarrow> ascii_space b"
proof -
  have u: "unat (b - 32) = unat b - 32" if "97 \<le> b" "b \<le> 122"
    using that by (simp add: unat_sub word_le_nat_alt)
  show "b < 128 \<Longrightarrow> ascii_upper b < 128" "ascii_upper (ascii_upper b) = ascii_upper b"
    "ascii_space (ascii_upper b) \<longleftrightarrow> ascii_space b"
    using u by (auto simp: ascii_upper_def ascii_space_def word_le_nat_alt word_less_nat_alt
        simp flip: word_unat_eq_iff)
qed

lemma is_ascii_rev [simp]: "is_ascii (rev s) = is_ascii s"
  by (simp add: is_ascii_def)

lemma is_ascii_upper: "is_ascii s \<Longrightarrow> is_ascii (map ascii_upper s)"
  by (auto simp: is_ascii_def list_all_iff ascii_upper_facts)

lemma trimmed_upper: "is_ascii s \<Longrightarrow> trimmed s \<Longrightarrow> trimmed (map ascii_upper s)"
  using is_ascii_upper [of s] is_ascii_upper [of "rev s"]
  by (auto simp: trimmed_def head_ok_ascii rev_map hd_map ascii_upper_facts)

text \<open>What is relied on from the Unicode tables: upper-casing keeps trimmed text trimmed and is
  idempotent on it.\<close>

definition upper_law :: "(gostring \<Rightarrow> gostring) \<Rightarrow> bool" where
  "upper_law uni \<longleftrightarrow>
     (\<forall>s. trimmed s \<longrightarrow> \<not> is_ascii s \<longrightarrow> trimmed (uni s) \<and> ToUpper uni (uni s) = uni s)"

lemma upper_trim_idem:
  assumes "upper_law uni"
  shows "ToUpper uni (TrimSpace (ToUpper uni (TrimSpace s))) = ToUpper uni (TrimSpace s)"
proof (cases "is_ascii (TrimSpace s)")
  case True
  then show ?thesis
    using trimmed_upper [OF True trimmed_TrimSpace] is_ascii_upper [OF True]
    by (simp add: ToUpper_def TrimSpace_trimmed ascii_upper_facts)
next
  case False
  then show ?thesis
    using assms trimmed_TrimSpace [of s] by (simp add: upper_law_def ToUpper_def TrimSpace_trimmed)
qed

lemma upper_law_id: "upper_law id"
  by (simp add: upper_law_def ToUpper_def)

end
