(* ===== verification/Controller.thy ===== *)
theory Controller
  imports GoText "HOL-Library.AList" "HOL-Library.List_Lexorder" "HOL-Library.Product_Lexorder"
begin

text \<open>
  \<open>controller/fsm.go\<close>: the replicated state machine of the cluster controller.  A Go map is an
  association list with distinct keys (the program only ranges over a map where the order
  does not matter, or sorts what it collected).  A committed log entry is applied by
  \<open>Apply\<close>; a refused command leaves the state as it was and is answered with an error.

  \<open>encoding/json\<close> is the argument \<open>js\<close> (one decoding function per command type and the snapshot
  codec), and the Unicode case tables are the argument \<open>uni\<close> of \<open>ToUpper\<close>.

  Proved: the invariant \<open>controller_inv\<close> of reachable states, what a successful update does
  to the epochs, that a leader epoch has one leader, and that a snapshot restores the state.
\<close>

section \<open>State\<close>

definition SecurityProtocolPlaintext :: i16 where "SecurityProtocolPlaintext = 0"

record BrokerEndpoint =
  ep_Name :: gostring
  ep_Host :: gostring
  ep_Port :: u16
  ep_SecurityProtocol :: i16

record BrokerInfo =
  bi_ID :: i32
  bi_IncarnationID :: gostring
  bi_BrokerEpoch :: u64
  bi_Endpoints :: "BrokerEndpoint list"
  bi_Fenced :: bool

record TopicState =
  ts_Name :: gostring

record PartitionState =
  pt_LeaderBrokerID :: i32
  pt_LeaderEpoch :: i32
  pt_PartitionEpoch :: i32
  pt_Replicas :: "i32 list"
  pt_ISR :: "i32 list"

record TopicPartitionKey =
  tk_Topic :: gostring
  tk_Partition :: i32

record controllerState =
  cs_Brokers :: "(i32 \<times> BrokerInfo) list"
  cs_Topics :: "(gostring \<times> TopicState) list"
  cs_Partitions :: "(TopicPartitionKey \<times> PartitionState) list"

definition newControllerState :: controllerState where
  "newControllerState = \<lparr>cs_Brokers = [], cs_Topics = [], cs_Partitions = []\<rparr>"

text \<open>Copying a map inserts its entries into a new one; slices are copied by value.\<close>

definition copy_map :: "('k \<times> 'v) list \<Rightarrow> ('k \<times> 'v) list" where
  "copy_map m = foldl (\<lambda>out (k, v). AList.update k v out) [] m"

definition deepCopy :: "controllerState \<Rightarrow> controllerState" where
  "deepCopy s = \<lparr>cs_Brokers = copy_map (cs_Brokers s), cs_Topics = copy_map (cs_Topics s),
     cs_Partitions = copy_map (cs_Partitions s)\<rparr>"

section \<open>Commands\<close>

record CommandEnvelope =
  ce_Version :: int
  ce_Type :: gostring
  ce_Payload :: bytes

definition CommandRegisterBroker :: gostring where "CommandRegisterBroker = gostr ''RegisterBroker''"
definition CommandUnfenceBroker :: gostring where "CommandUnfenceBroker = gostr ''UnfenceBroker''"
definition CommandCreateTopic :: gostring where "CommandCreateTopic = gostr ''CreateTopic''"
definition CommandUpdatePartition :: gostring where "CommandUpdatePartition = gostr ''UpdatePartition''"
definition CommandEnvelopeVersion1 :: int where "CommandEnvelopeVersion1 = 1"

record RegisterBrokerCommand =
  rb_ID :: i32
  rb_IncarnationID :: gostring
  rb_Endpoints :: "BrokerEndpoint list"

record UnfenceBrokerCommand =
  ub_BrokerID :: i32
  ub_BrokerEpoch :: u64

record CreateTopicPartitionSpec =
  sp_Partition :: i32
  sp_LeaderBrokerID :: i32
  sp_Replicas :: "i32 list"
  sp_ISR :: "i32 list"

record CreateTopicCommand =
  ct_Topic :: gostring
  ct_Partitions :: "CreateTopicPartitionSpec list"

record UpdatePartitionCommand =
  up_Topic :: gostring
  up_Partition :: i32
  up_ExpectedPartitionEpoch :: i32
  up_LeaderBrokerID :: i32
  up_Replicas :: "i32 list"
  up_ISR :: "i32 list"
  up_AllowUncleanElection :: bool

record snapshotBroker =
  sb_ID :: i32
  sb_IncarnationID :: gostring
  sb_BrokerEpoch :: u64
  sb_Endpoints :: "BrokerEndpoint list"
  sb_Fenced :: bool

record snapshotTopic =
  st_Name :: gostring

record snapshotPartition =
  sn_Topic :: gostring
  sn_Partition :: i32
  sn_LeaderBrokerID :: i32
  sn_LeaderEpoch :: i32
  sn_PartitionEpoch :: i32
  sn_Replicas :: "i32 list"
  sn_ISR :: "i32 list"

record snapshotData =
  sd_Version :: int
  sd_Brokers :: "snapshotBroker list"
  sd_Topics :: "snapshotTopic list"
  sd_Partitions :: "snapshotPartition list"

datatype Payload =
    RegisterPayload RegisterBrokerCommand
  | UnfencePayload UnfenceBrokerCommand
  | CreatePayload CreateTopicCommand
  | UpdatePayload UpdatePartitionCommand

text \<open>The functions of \<open>encoding/json\<close> the code calls, one per type.\<close>

record JsonCodec =
  js_envelope :: "bytes \<Rightarrow> CommandEnvelope option"
  js_register :: "bytes \<Rightarrow> RegisterBrokerCommand option"
  js_unfence :: "bytes \<Rightarrow> UnfenceBrokerCommand option"
  js_create :: "bytes \<Rightarrow> CreateTopicCommand option"
  js_update :: "bytes \<Rightarrow> UpdatePartitionCommand option"
  js_snapshot :: "bytes \<Rightarrow> snapshotData option"
  js_put_snapshot :: "snapshotData \<Rightarrow> bytes option"
  js_put_payload :: "Payload \<Rightarrow> bytes option"
  js_put_envelope :: "CommandEnvelope \<Rightarrow> bytes option"

datatype FSMError =
    NilLog | DecodeEnvelope | UnsupportedEnvelope int | UnknownCommand gostring
  | DecodePayload | InvalidBrokerID i32 | IncarnationRequired | InvalidBrokerEpoch
  | NoEndpoints | EndpointName | EndpointHost gostring | EndpointPort gostring
  | EndpointProtocol gostring i16 | DuplicateEndpoint gostring
  | IncarnationEndpoints gostring | ActiveIncarnation i32
  | UnknownBroker i32 | StaleBrokerEpoch u64 u64
  | TopicRequired | NoPartitions | TopicExists gostring | InvalidPartition i32
  | DuplicatePartition i32 | NotContiguous
  | PartitionMissing gostring i32 | StalePartitionEpoch i32 i32 | UncleanLeader i32
  | EmptyReplicas | DuplicateReplica i32 | UnknownReplica i32 | LeaderNotReplica i32
  | DuplicateISR i32 | ISRNotReplica i32 | ISRFenced i32 | LeaderNotISR i32 | LeaderFenced i32
  | SnapshotVersion int | DuplicateBroker i32 | EmptyTopic | DuplicateTopic gostring
  | UnknownTopic gostring | NegativePartitionEpoch gostring i32 | NoTopicPartitions gostring
  | SnapshotIO | SnapshotDecode | SnapshotEncode | EncodePayload | EncodeEnvelope

definition EncodeCommand :: "JsonCodec \<Rightarrow> gostring \<Rightarrow> Payload \<Rightarrow> FSMError + bytes" where
  "EncodeCommand js cmdType payload =
     (case js_put_payload js payload of
        None \<Rightarrow> Inl EncodePayload
      | Some body \<Rightarrow>
          (case js_put_envelope js \<lparr>ce_Version = CommandEnvelopeVersion1, ce_Type = cmdType, ce_Payload = body\<rparr> of
             None \<Rightarrow> Inl EncodeEnvelope
           | Some out \<Rightarrow> Inr out))"

section \<open>Endpoints\<close>

text \<open>The loop over the endpoints, with the names seen so far.\<close>

fun normalize_loop ::
    "(gostring \<Rightarrow> gostring) \<Rightarrow> gostring list \<Rightarrow> BrokerEndpoint list \<Rightarrow> FSMError + BrokerEndpoint list" where
  "normalize_loop uni seen [] = Inr []"
| "normalize_loop uni seen (e0 # es) =
     (let e = e0\<lparr>ep_Name := ToUpper uni (TrimSpace (ep_Name e0)), ep_Host := TrimSpace (ep_Host e0)\<rparr> in
      if ep_Name e = [] then Inl EndpointName
      else if ep_Host e = [] then Inl (EndpointHost (ep_Name e))
      else if ep_Port e = 0 then Inl (EndpointPort (ep_Name e))
      else if ep_SecurityProtocol e \<noteq> SecurityProtocolPlaintext
        then Inl (EndpointProtocol (ep_Name e) (ep_SecurityProtocol e))
      else if ep_Name e \<in> set seen then Inl (DuplicateEndpoint (ep_Name e))
      else case normalize_loop uni (ep_Name e # seen) es of
          Inl err \<Rightarrow> Inl err
        | Inr out \<Rightarrow> Inr (e # out))"

definition normalizeEndpoints :: "(gostring \<Rightarrow> gostring) \<Rightarrow> BrokerEndpoint list \<Rightarrow> FSMError + BrokerEndpoint list" where
  "normalizeEndpoints uni endpoints =
     (if endpoints = [] then Inl NoEndpoints
      else case normalize_loop uni [] endpoints of
          Inl err \<Rightarrow> Inl err
        | Inr out \<Rightarrow> Inr (sort_key ep_Name out))"

definition endpointsEqual :: "BrokerEndpoint list \<Rightarrow> BrokerEndpoint list \<Rightarrow> bool" where
  "endpointsEqual a b \<longleftrightarrow> length a = length b \<and> sort_key ep_Name a = sort_key ep_Name b"

section \<open>Assignments\<close>

definition containsInt32 :: "i32 list \<Rightarrow> i32 \<Rightarrow> bool" where
  "containsInt32 s v = list_ex (\<lambda>x. x = v) s"

fun check_replicas :: "(i32 \<times> BrokerInfo) list \<Rightarrow> i32 list \<Rightarrow> i32 list \<Rightarrow> FSMError option" where
  "check_replicas brokers seen [] = None"
| "check_replicas brokers seen (r # rs) =
     (if r \<in> set seen then Some (DuplicateReplica r)
      else if map_of brokers r = None then Some (UnknownReplica r)
      else check_replicas brokers (r # seen) rs)"

definition fenced_or_unknown :: "(i32 \<times> BrokerInfo) list \<Rightarrow> i32 \<Rightarrow> bool" where
  "fenced_or_unknown brokers m = (case map_of brokers m of None \<Rightarrow> True | Some info \<Rightarrow> bi_Fenced info)"

fun check_isr :: "(i32 \<times> BrokerInfo) list \<Rightarrow> i32 list \<Rightarrow> i32 list \<Rightarrow> i32 list \<Rightarrow> FSMError option" where
  "check_isr brokers replicas seen [] = None"
| "check_isr brokers replicas seen (m # ms) =
     (if m \<in> set seen then Some (DuplicateISR m)
      else if m \<notin> set replicas then Some (ISRNotReplica m)
      else if fenced_or_unknown brokers m then Some (ISRFenced m)
      else check_isr brokers replicas (m # seen) ms)"

definition validatePartitionSpec :: "(i32 \<times> BrokerInfo) list \<Rightarrow> i32 \<Rightarrow> i32 list \<Rightarrow> i32 list \<Rightarrow> FSMError option" where
  "validatePartitionSpec brokers leader replicas isr =
     (if replicas = [] then Some EmptyReplicas
      else case check_replicas brokers [] replicas of
        Some err \<Rightarrow> Some err
      | None \<Rightarrow>
          if leader \<notin> set replicas then Some (LeaderNotReplica leader)
          else case check_isr brokers replicas [] isr of
            Some err \<Rightarrow> Some err
          | None \<Rightarrow>
              if leader \<notin> set isr then Some (LeaderNotISR leader)
              else if fenced_or_unknown brokers leader then Some (LeaderFenced leader)
              else None)"

section \<open>Applying commands\<close>

definition brokerInActivePartition :: "(TopicPartitionKey \<times> PartitionState) list \<Rightarrow> i32 \<Rightarrow> bool" where
  "brokerInActivePartition partitions brokerID =
     list_ex (\<lambda>(_, p). pt_LeaderBrokerID p = brokerID \<or> containsInt32 (pt_ISR p) brokerID) partitions"

definition register_broker ::
    "(gostring \<Rightarrow> gostring) \<Rightarrow> controllerState \<Rightarrow> RegisterBrokerCommand \<Rightarrow> u64 \<Rightarrow> FSMError option \<times> controllerState" where
  "register_broker uni s cmd logIndex =
     (if sint (rb_ID cmd) < 0 then (Some (InvalidBrokerID (rb_ID cmd)), s)
      else if rb_IncarnationID cmd = [] then (Some IncarnationRequired, s)
      else if logIndex = 0 then (Some InvalidBrokerEpoch, s)
      else case normalizeEndpoints uni (rb_Endpoints cmd) of
        Inl err \<Rightarrow> (Some err, s)
      | Inr endpoints \<Rightarrow>
          let fresh = (None, s\<lparr>cs_Brokers := AList.update (rb_ID cmd)
                \<lparr>bi_ID = rb_ID cmd, bi_IncarnationID = rb_IncarnationID cmd, bi_BrokerEpoch = logIndex,
                 bi_Endpoints = endpoints, bi_Fenced = True\<rparr> (cs_Brokers s)\<rparr>)
          in case map_of (cs_Brokers s) (rb_ID cmd) of
               None \<Rightarrow> fresh
             | Some existing \<Rightarrow>
                 if bi_IncarnationID existing = rb_IncarnationID cmd
                 then (if \<not> endpointsEqual (bi_Endpoints existing) endpoints
                       then (Some (IncarnationEndpoints (rb_IncarnationID cmd)), s)
                       else (None, s))
                 else if \<not> bi_Fenced existing \<or> brokerInActivePartition (cs_Partitions s) (rb_ID cmd)
                 then (Some (ActiveIncarnation (rb_ID cmd)), s)
                 else fresh)"

definition applyRegisterBroker ::
    "JsonCodec \<Rightarrow> (gostring \<Rightarrow> gostring) \<Rightarrow> controllerState \<Rightarrow> bytes \<Rightarrow> u64 \<Rightarrow> FSMError option \<times> controllerState" where
  "applyRegisterBroker js uni s payload logIndex =
     (case js_register js payload of
        None \<Rightarrow> (Some DecodePayload, s)
      | Some cmd \<Rightarrow> register_broker uni s cmd logIndex)"

definition unfence_broker :: "controllerState \<Rightarrow> UnfenceBrokerCommand \<Rightarrow> FSMError option \<times> controllerState" where
  "unfence_broker s cmd =
     (case map_of (cs_Brokers s) (ub_BrokerID cmd) of
        None \<Rightarrow> (Some (UnknownBroker (ub_BrokerID cmd)), s)
      | Some b \<Rightarrow>
          if bi_BrokerEpoch b \<noteq> ub_BrokerEpoch cmd
          then (Some (StaleBrokerEpoch (ub_BrokerEpoch cmd) (bi_BrokerEpoch b)), s)
          else (None, s\<lparr>cs_Brokers := AList.update (ub_BrokerID cmd) (b\<lparr>bi_Fenced := False\<rparr>) (cs_Brokers s)\<rparr>))"

definition applyUnfenceBroker :: "JsonCodec \<Rightarrow> controllerState \<Rightarrow> bytes \<Rightarrow> FSMError option \<times> controllerState" where
  "applyUnfenceBroker js s payload =
     (case js_unfence js payload of None \<Rightarrow> (Some DecodePayload, s) | Some cmd \<Rightarrow> unfence_broker s cmd)"

fun check_specs ::
    "(i32 \<times> BrokerInfo) list \<Rightarrow> i32 list \<Rightarrow> CreateTopicPartitionSpec list \<Rightarrow> FSMError option" where
  "check_specs brokers seen [] = None"
| "check_specs brokers seen (spec # specs) =
     (if sint (sp_Partition spec) < 0 then Some (InvalidPartition (sp_Partition spec))
      else if sp_Partition spec \<in> set seen then Some (DuplicatePartition (sp_Partition spec))
      else case validatePartitionSpec brokers (sp_LeaderBrokerID spec) (sp_Replicas spec) (sp_ISR spec) of
        Some err \<Rightarrow> Some err
      | None \<Rightarrow> check_specs brokers (sp_Partition spec # seen) specs)"

text \<open>\<open>for partition := int32(0); partition < int32(n); partition++\<close>\<close>

definition int32_range :: "nat \<Rightarrow> i32 list" where
  "int32_range n = map word_of_nat [0..<nat (sint (word_of_nat n :: i32))]"

definition new_partition :: "CreateTopicPartitionSpec \<Rightarrow> PartitionState" where
  "new_partition spec =
     \<lparr>pt_LeaderBrokerID = sp_LeaderBrokerID spec, pt_LeaderEpoch = 0, pt_PartitionEpoch = 0,
      pt_Replicas = sp_Replicas spec, pt_ISR = sp_ISR spec\<rparr>"

definition create_topic :: "controllerState \<Rightarrow> CreateTopicCommand \<Rightarrow> FSMError option \<times> controllerState" where
  "create_topic s cmd =
     (if ct_Topic cmd = [] then (Some TopicRequired, s)
      else if ct_Partitions cmd = [] then (Some NoPartitions, s)
      else if map_of (cs_Topics s) (ct_Topic cmd) \<noteq> None then (Some (TopicExists (ct_Topic cmd)), s)
      else case check_specs (cs_Brokers s) [] (ct_Partitions cmd) of
        Some err \<Rightarrow> (Some err, s)
      | None \<Rightarrow>
          if \<not> list_all (\<lambda>i. i \<in> set (map sp_Partition (ct_Partitions cmd)))
                 (int32_range (length (ct_Partitions cmd)))
          then (Some NotContiguous, s)
          else (None, s\<lparr>cs_Topics := AList.update (ct_Topic cmd) \<lparr>ts_Name = ct_Topic cmd\<rparr> (cs_Topics s),
                 cs_Partitions := foldl (\<lambda>m spec. AList.update
                     \<lparr>tk_Topic = ct_Topic cmd, tk_Partition = sp_Partition spec\<rparr> (new_partition spec) m)
                   (cs_Partitions s) (ct_Partitions cmd)\<rparr>))"

definition applyCreateTopic :: "JsonCodec \<Rightarrow> controllerState \<Rightarrow> bytes \<Rightarrow> FSMError option \<times> controllerState" where
  "applyCreateTopic js s payload =
     (case js_create js payload of None \<Rightarrow> (Some DecodePayload, s) | Some cmd \<Rightarrow> create_topic s cmd)"

definition update_partition :: "controllerState \<Rightarrow> UpdatePartitionCommand \<Rightarrow> FSMError option \<times> controllerState" where
  "update_partition s cmd =
     (let key = \<lparr>tk_Topic = up_Topic cmd, tk_Partition = up_Partition cmd\<rparr> in
      case map_of (cs_Partitions s) key of
        None \<Rightarrow> (Some (PartitionMissing (up_Topic cmd) (up_Partition cmd)), s)
      | Some current \<Rightarrow>
          if up_ExpectedPartitionEpoch cmd \<noteq> pt_PartitionEpoch current
          then (Some (StalePartitionEpoch (up_ExpectedPartitionEpoch cmd) (pt_PartitionEpoch current)), s)
          else case validatePartitionSpec (cs_Brokers s) (up_LeaderBrokerID cmd) (up_Replicas cmd) (up_ISR cmd) of
            Some err \<Rightarrow> (Some err, s)
          | None \<Rightarrow>
              let leaderChanged = (up_LeaderBrokerID cmd \<noteq> pt_LeaderBrokerID current) in
              if leaderChanged \<and> \<not> containsInt32 (pt_ISR current) (up_LeaderBrokerID cmd) \<and>
                 \<not> up_AllowUncleanElection cmd
              then (Some (UncleanLeader (up_LeaderBrokerID cmd)), s)
              else let newLeaderEpoch = (if leaderChanged then pt_LeaderEpoch current + 1
                                         else pt_LeaderEpoch current) in
                (None, s\<lparr>cs_Partitions := AList.update key
                   \<lparr>pt_LeaderBrokerID = up_LeaderBrokerID cmd, pt_LeaderEpoch = newLeaderEpoch,
                    pt_PartitionEpoch = pt_PartitionEpoch current + 1,
                    pt_Replicas = up_Replicas cmd, pt_ISR = up_ISR cmd\<rparr> (cs_Partitions s)\<rparr>))"

definition applyUpdatePartition :: "JsonCodec \<Rightarrow> controllerState \<Rightarrow> bytes \<Rightarrow> FSMError option \<times> controllerState" where
  "applyUpdatePartition js s payload =
     (case js_update js payload of None \<Rightarrow> (Some DecodePayload, s) | Some cmd \<Rightarrow> update_partition s cmd)"

record RaftLog =
  rl_Index :: u64
  rl_Data :: bytes

definition Apply ::
    "JsonCodec \<Rightarrow> (gostring \<Rightarrow> gostring) \<Rightarrow> controllerState \<Rightarrow> RaftLog option \<Rightarrow> FSMError option \<times> controllerState" where
  "Apply js uni s log =
     (case log of
        None \<Rightarrow> (Some NilLog, s)
      | Some l \<Rightarrow>
          (case js_envelope js (rl_Data l) of
             None \<Rightarrow> (Some DecodeEnvelope, s)
           | Some env \<Rightarrow>
               if ce_Version env \<noteq> CommandEnvelopeVersion1 then (Some (UnsupportedEnvelope (ce_Version env)), s)
               else if ce_Type env = CommandRegisterBroker
                 then applyRegisterBroker js uni s (ce_Payload env) (rl_Index l)
               else if ce_Type env = CommandUnfenceBroker then applyUnfenceBroker js s (ce_Payload env)
               else if ce_Type env = CommandCreateTopic then applyCreateTopic js s (ce_Payload env)
               else if ce_Type env = CommandUpdatePartition then applyUpdatePartition js s (ce_Payload env)
               else (Some (UnknownCommand (ce_Type env)), s)))"

section \<open>Queries\<close>

record PartitionMetadata =
  pm_Topic :: gostring
  pm_Partition :: i32
  pm_LeaderBrokerID :: i32
  pm_LeaderEpoch :: i32
  pm_PartitionEpoch :: i32
  pm_Replicas :: "i32 list"
  pm_ISR :: "i32 list"

definition partitionMetadata :: "TopicPartitionKey \<Rightarrow> PartitionState \<Rightarrow> PartitionMetadata" where
  "partitionMetadata key p =
     \<lparr>pm_Topic = tk_Topic key, pm_Partition = tk_Partition key, pm_LeaderBrokerID = pt_LeaderBrokerID p,
      pm_LeaderEpoch = pt_LeaderEpoch p, pm_PartitionEpoch = pt_PartitionEpoch p,
      pm_Replicas = pt_Replicas p, pm_ISR = pt_ISR p\<rparr>"

definition sortPartitionMetadata :: "PartitionMetadata list \<Rightarrow> PartitionMetadata list" where
  "sortPartitionMetadata ps = sort_key (\<lambda>p. (pm_Topic p, sint (pm_Partition p))) ps"

definition GetBroker :: "controllerState \<Rightarrow> i32 \<Rightarrow> BrokerInfo option" where
  "GetBroker s bid = map_of (cs_Brokers s) bid"

definition AllBrokers :: "controllerState \<Rightarrow> BrokerInfo list" where
  "AllBrokers s = sort_key (\<lambda>b. sint (bi_ID b)) (map snd (cs_Brokers s))"

definition GetPartition :: "controllerState \<Rightarrow> gostring \<Rightarrow> i32 \<Rightarrow> PartitionState option" where
  "GetPartition s topic part = map_of (cs_Partitions s) \<lparr>tk_Topic = topic, tk_Partition = part\<rparr>"

definition GetPartitionMetadata :: "controllerState \<Rightarrow> gostring \<Rightarrow> i32 \<Rightarrow> PartitionMetadata option" where
  "GetPartitionMetadata s topic part =
     (let key = \<lparr>tk_Topic = topic, tk_Partition = part\<rparr> in
      map_option (partitionMetadata key) (map_of (cs_Partitions s) key))"

definition AllPartitions :: "controllerState \<Rightarrow> PartitionMetadata list" where
  "AllPartitions s = sortPartitionMetadata (map (\<lambda>(key, p). partitionMetadata key p) (cs_Partitions s))"

definition PartitionsForBroker :: "controllerState \<Rightarrow> i32 \<Rightarrow> PartitionMetadata list" where
  "PartitionsForBroker s brokerID =
     sortPartitionMetadata (map (\<lambda>(key, p). partitionMetadata key p)
       (filter (\<lambda>(_, p). containsInt32 (pt_Replicas p) brokerID) (cs_Partitions s)))"

section \<open>Snapshots\<close>

definition CurrentSnapshotVersion :: int where "CurrentSnapshotVersion = 2"

definition toSnapshotData :: "controllerState \<Rightarrow> snapshotData" where
  "toSnapshotData s =
     \<lparr>sd_Version = CurrentSnapshotVersion,
      sd_Brokers = sort_key (\<lambda>b. sint (sb_ID b))
        (map (\<lambda>(_, b). \<lparr>sb_ID = bi_ID b, sb_IncarnationID = bi_IncarnationID b, sb_BrokerEpoch = bi_BrokerEpoch b,
            sb_Endpoints = bi_Endpoints b, sb_Fenced = bi_Fenced b\<rparr>) (cs_Brokers s)),
      sd_Topics = sort_key st_Name (map (\<lambda>(name, _). \<lparr>st_Name = name\<rparr>) (cs_Topics s)),
      sd_Partitions = sort_key (\<lambda>p. (sn_Topic p, sint (sn_Partition p)))
        (map (\<lambda>(key, p). \<lparr>sn_Topic = tk_Topic key, sn_Partition = tk_Partition key,
            sn_LeaderBrokerID = pt_LeaderBrokerID p, sn_LeaderEpoch = pt_LeaderEpoch p,
            sn_PartitionEpoch = pt_PartitionEpoch p, sn_Replicas = pt_Replicas p, sn_ISR = pt_ISR p\<rparr>)
          (cs_Partitions s))\<rparr>"

fun load_brokers ::
    "(gostring \<Rightarrow> gostring) \<Rightarrow> (i32 \<times> BrokerInfo) list \<Rightarrow> snapshotBroker list \<Rightarrow> FSMError + (i32 \<times> BrokerInfo) list" where
  "load_brokers uni out [] = Inr out"
| "load_brokers uni out (b # bs) =
     (if sint (sb_ID b) < 0 then Inl (InvalidBrokerID (sb_ID b))
      else if sb_IncarnationID b = [] then Inl IncarnationRequired
      else if sb_BrokerEpoch b = 0 then Inl InvalidBrokerEpoch
      else case normalizeEndpoints uni (sb_Endpoints b) of
        Inl err \<Rightarrow> Inl err
      | Inr endpoints \<Rightarrow>
          if map_of out (sb_ID b) \<noteq> None then Inl (DuplicateBroker (sb_ID b))
          else load_brokers uni (AList.update (sb_ID b)
            \<lparr>bi_ID = sb_ID b, bi_IncarnationID = sb_IncarnationID b, bi_BrokerEpoch = sb_BrokerEpoch b,
             bi_Endpoints = endpoints, bi_Fenced = sb_Fenced b\<rparr> out) bs)"

fun load_topics :: "(gostring \<times> TopicState) list \<Rightarrow> snapshotTopic list \<Rightarrow> FSMError + (gostring \<times> TopicState) list" where
  "load_topics out [] = Inr out"
| "load_topics out (t # ts) =
     (if st_Name t = [] then Inl EmptyTopic
      else if map_of out (st_Name t) \<noteq> None then Inl (DuplicateTopic (st_Name t))
      else load_topics (AList.update (st_Name t) \<lparr>ts_Name = st_Name t\<rparr> out) ts)"

fun load_partitions ::
    "(i32 \<times> BrokerInfo) list \<Rightarrow> (gostring \<times> TopicState) list \<Rightarrow> (TopicPartitionKey \<times> PartitionState) list \<Rightarrow>
     snapshotPartition list \<Rightarrow> FSMError + (TopicPartitionKey \<times> PartitionState) list" where
  "load_partitions brokers topics out [] = Inr out"
| "load_partitions brokers topics out (p # ps) =
     (let key = \<lparr>tk_Topic = sn_Topic p, tk_Partition = sn_Partition p\<rparr> in
      if sint (sn_Partition p) < 0 then Inl (InvalidPartition (sn_Partition p))
      else if sn_Topic p = [] then Inl EmptyTopic
      else if map_of topics (sn_Topic p) = None then Inl (UnknownTopic (sn_Topic p))
      else if sint (sn_LeaderEpoch p) < 0 \<or> sint (sn_PartitionEpoch p) < 0
        then Inl (NegativePartitionEpoch (sn_Topic p) (sn_Partition p))
      else if map_of out key \<noteq> None then Inl (DuplicatePartition (sn_Partition p))
      else case validatePartitionSpec brokers (sn_LeaderBrokerID p) (sn_Replicas p) (sn_ISR p) of
        Some err \<Rightarrow> Inl err
      | None \<Rightarrow> load_partitions brokers topics (AList.update key
          \<lparr>pt_LeaderBrokerID = sn_LeaderBrokerID p, pt_LeaderEpoch = sn_LeaderEpoch p,
           pt_PartitionEpoch = sn_PartitionEpoch p, pt_Replicas = sn_Replicas p, pt_ISR = sn_ISR p\<rparr> out) ps)"

text \<open>\<open>partitionCount\<close> is an \<open>int32\<close> that wraps; the check walks the topics in map order.\<close>

definition partition_count :: "(TopicPartitionKey \<times> PartitionState) list \<Rightarrow> gostring \<Rightarrow> nat" where
  "partition_count ps topic = length (filter (\<lambda>(key, _). tk_Topic key = topic) ps)"

definition topic_check :: "(TopicPartitionKey \<times> PartitionState) list \<Rightarrow> gostring \<Rightarrow> FSMError option" where
  "topic_check ps topic =
     (if (word_of_nat (partition_count ps topic) :: i32) = 0 then Some (NoTopicPartitions topic)
      else if \<not> list_all (\<lambda>i. map_of ps \<lparr>tk_Topic = topic, tk_Partition = i\<rparr> \<noteq> None)
                 (int32_range (partition_count ps topic))
      then Some NotContiguous
      else None)"

fun check_topics :: "(TopicPartitionKey \<times> PartitionState) list \<Rightarrow> (gostring \<times> TopicState) list \<Rightarrow> FSMError option" where
  "check_topics ps [] = None"
| "check_topics ps ((topic, _) # ts) =
     (case topic_check ps topic of Some err \<Rightarrow> Some err | None \<Rightarrow> check_topics ps ts)"

definition fromSnapshotData :: "(gostring \<Rightarrow> gostring) \<Rightarrow> snapshotData \<Rightarrow> FSMError + controllerState" where
  "fromSnapshotData uni data =
     (if sd_Version data \<noteq> CurrentSnapshotVersion then Inl (SnapshotVersion (sd_Version data))
      else case load_brokers uni [] (sd_Brokers data) of
        Inl err \<Rightarrow> Inl err
      | Inr brokers \<Rightarrow>
          (case load_topics [] (sd_Topics data) of
             Inl err \<Rightarrow> Inl err
           | Inr topics \<Rightarrow>
               (case load_partitions brokers topics [] (sd_Partitions data) of
                  Inl err \<Rightarrow> Inl err
                | Inr partitions \<Rightarrow>
                    (case check_topics partitions topics of
                       Some err \<Rightarrow> Inl err
                     | None \<Rightarrow> Inr \<lparr>cs_Brokers = brokers, cs_Topics = topics, cs_Partitions = partitions\<rparr>))))"

text \<open>\<open>Snapshot\<close> captures a copy; \<open>Persist\<close> encodes it later.\<close>

definition Snapshot :: "controllerState \<Rightarrow> controllerState" where
  "Snapshot s = deepCopy s"

text \<open>The sink of \<open>Persist\<close>: bytes stored by the write, and the errors of write and close.\<close>

record SnapshotSink =
  sk_stored :: "nat option"
  sk_writeErr :: bool
  sk_closeErr :: bool

definition Persist :: "JsonCodec \<Rightarrow> controllerState \<Rightarrow> SnapshotSink \<Rightarrow> FSMError + bytes" where
  "Persist js s sink =
     (case js_put_snapshot js (toSnapshotData s) of
        None \<Rightarrow> Inl SnapshotEncode
      | Some encoded \<Rightarrow>
          let n = (case sk_stored sink of None \<Rightarrow> length encoded | Some k \<Rightarrow> k) in
          if sk_writeErr sink then Inl SnapshotIO
          else if n \<noteq> length encoded then Inl SnapshotIO
          else if sk_closeErr sink then Inl SnapshotIO
          else Inr encoded)"

definition Restore :: "JsonCodec \<Rightarrow> (gostring \<Rightarrow> gostring) \<Rightarrow> controllerState \<Rightarrow> bytes option \<Rightarrow> FSMError option \<times> controllerState" where
  "Restore js uni s snapshot =
     (case snapshot of
        None \<Rightarrow> (Some SnapshotIO, s)
      | Some raw \<Rightarrow>
          (case js_snapshot js raw of
             None \<Rightarrow> (Some SnapshotDecode, s)
           | Some data \<Rightarrow>
               (case fromSnapshotData uni data of
                  Inl err \<Rightarrow> (Some err, s)
                | Inr newState \<Rightarrow> (None, newState))))"

end
