(* ===== verification/ControllerSafety.thy ===== *)
theory ControllerSafety
  imports Controller
begin

text \<open>
  What the controller state machine guarantees: every assignment a reachable state holds is
  valid, epochs move one step at a time, a leader epoch has one leader, a refused command
  changes nothing, and a snapshot is restored to the same maps.
\<close>

section \<open>Assignments\<close>

definition registered :: "(i32 \<times> BrokerInfo) list \<Rightarrow> i32 \<Rightarrow> bool" where
  "registered brokers r \<longleftrightarrow> map_of brokers r \<noteq> None"

definition active :: "(i32 \<times> BrokerInfo) list \<Rightarrow> i32 \<Rightarrow> bool" where
  "active brokers m \<longleftrightarrow> \<not> fenced_or_unknown brokers m"

lemma active_iff: "active brokers m \<longleftrightarrow> (\<exists>b. map_of brokers m = Some b \<and> \<not> bi_Fenced b)"
  by (auto simp: active_def fenced_or_unknown_def split: option.splits)

text \<open>An assignment is valid: known distinct replicas, a distinct in-sync set of active replicas,
  and the leader in it.\<close>

definition assignment_ok :: "(i32 \<times> BrokerInfo) list \<Rightarrow> i32 \<Rightarrow> i32 list \<Rightarrow> i32 list \<Rightarrow> bool" where
  "assignment_ok brokers leader replicas isr \<longleftrightarrow>
     distinct replicas \<and> (\<forall>r\<in>set replicas. registered brokers r) \<and>
     distinct isr \<and> set isr \<subseteq> set replicas \<and> (\<forall>m\<in>set isr. active brokers m) \<and> leader \<in> set isr"

lemma assignment_mono:
  "assignment_ok bs l rs isr \<Longrightarrow> (\<And>r. registered bs r \<Longrightarrow> registered bs' r) \<Longrightarrow>
   (\<And>m. m \<in> set isr \<Longrightarrow> active bs m \<Longrightarrow> active bs' m) \<Longrightarrow> assignment_ok bs' l rs isr"
  by (auto simp: assignment_ok_def)

lemma registered_update [simp]: "registered (AList.update i b bs) r \<longleftrightarrow> r = i \<or> registered bs r"
  by (simp add: registered_def AList.update_conv)

lemma active_update [simp]: "active (AList.update i b bs) m \<longleftrightarrow> (if m = i then \<not> bi_Fenced b else active bs m)"
  by (simp add: active_iff AList.update_conv)

lemma check_replicas_None:
  "check_replicas brokers seen rs = None \<longleftrightarrow>
     distinct rs \<and> set rs \<inter> set seen = {} \<and> (\<forall>r\<in>set rs. registered brokers r)"
  by (induction brokers seen rs rule: check_replicas.induct) (auto simp: registered_def)

lemma check_isr_None:
  "check_isr brokers replicas seen ms = None \<longleftrightarrow>
     distinct ms \<and> set ms \<inter> set seen = {} \<and> set ms \<subseteq> set replicas \<and> (\<forall>m\<in>set ms. active brokers m)"
  by (induction brokers replicas seen ms rule: check_isr.induct) (auto simp: active_def)

lemma validatePartitionSpec_None:
  "validatePartitionSpec brokers leader replicas isr = None \<longleftrightarrow> assignment_ok brokers leader replicas isr"
proof -
  have "validatePartitionSpec brokers leader replicas isr = None \<longleftrightarrow>
      replicas \<noteq> [] \<and> check_replicas brokers [] replicas = None \<and> leader \<in> set replicas \<and>
      check_isr brokers replicas [] isr = None \<and> leader \<in> set isr \<and> active brokers leader"
    by (simp add: validatePartitionSpec_def active_def split: option.split)
  then show ?thesis
    unfolding check_replicas_None check_isr_None assignment_ok_def by fastforce
qed

lemma containsInt32_iff [simp]: "containsInt32 s v \<longleftrightarrow> v \<in> set s"
  by (auto simp: containsInt32_def list_ex_iff)

section \<open>Endpoints\<close>

definition endpoint_ok :: "(gostring \<Rightarrow> gostring) \<Rightarrow> BrokerEndpoint \<Rightarrow> bool" where
  "endpoint_ok uni e \<longleftrightarrow>
     ToUpper uni (TrimSpace (ep_Name e)) = ep_Name e \<and> TrimSpace (ep_Host e) = ep_Host e \<and>
     ep_Name e \<noteq> [] \<and> ep_Host e \<noteq> [] \<and> ep_Port e \<noteq> 0 \<and>
     ep_SecurityProtocol e = SecurityProtocolPlaintext"

lemma normalize_loop_ok:
  assumes "upper_law uni" and "normalize_loop uni seen es = Inr out"
  shows "list_all (endpoint_ok uni) out \<and> distinct (map ep_Name out) \<and> set (map ep_Name out) \<inter> set seen = {}
    \<and> length out = length es"
  using assms(2)
proof (induction es arbitrary: seen out)
  case (Cons e0 es)
  let ?e = "e0\<lparr>ep_Name := ToUpper uni (TrimSpace (ep_Name e0)), ep_Host := TrimSpace (ep_Host e0)\<rparr>"
  from Cons.prems obtain rest where rest: "normalize_loop uni (ep_Name ?e # seen) es = Inr rest" "out = ?e # rest"
    and e: "endpoint_ok uni ?e" "ep_Name ?e \<notin> set seen"
    by (auto simp: Let_def endpoint_ok_def upper_trim_idem [OF assms(1)] split: if_splits sum.splits)
  show ?case
    using Cons.IH [OF rest(1)] rest(2) e by auto
qed simp

lemma normalize_loop_fixed:
  "list_all (endpoint_ok uni) es \<Longrightarrow> distinct (map ep_Name es) \<Longrightarrow> set (map ep_Name es) \<inter> set seen = {} \<Longrightarrow>
   normalize_loop uni seen es = Inr es"
  by (induction uni seen es rule: normalize_loop.induct) (auto simp: endpoint_ok_def Let_def)

definition endpoints_ok :: "(gostring \<Rightarrow> gostring) \<Rightarrow> BrokerEndpoint list \<Rightarrow> bool" where
  "endpoints_ok uni es \<longleftrightarrow>
     es \<noteq> [] \<and> list_all (endpoint_ok uni) es \<and> distinct (map ep_Name es) \<and> sorted (map ep_Name es)"

lemma distinct_sort_key: "distinct (map f (sort_key g xs)) \<longleftrightarrow> distinct (map f xs)"
  by (metis distinct_map distinct_sort set_sort)

lemma normalizeEndpoints_ok:
  assumes "upper_law uni" and "normalizeEndpoints uni es = Inr out"
  shows "endpoints_ok uni out"
proof -
  from assms(2) obtain ys where ys: "es \<noteq> []" "normalize_loop uni [] es = Inr ys" "out = sort_key ep_Name ys"
    by (auto simp: normalizeEndpoints_def split: if_splits sum.splits)
  note ok = normalize_loop_ok [OF assms(1) ys(2)]
  then have "ys \<noteq> []" using ys(1) by auto
  then have "out \<noteq> []" using ys(3) by (metis length_sort length_0_conv)
  with ok ys(3) show ?thesis
    by (simp add: endpoints_ok_def list_all_iff distinct_sort_key)
qed

lemma normalizeEndpoints_fixed: "endpoints_ok uni es \<Longrightarrow> normalizeEndpoints uni es = Inr es"
  by (simp add: normalizeEndpoints_def endpoints_ok_def normalize_loop_fixed sort_key_id_if_sorted)

section \<open>The invariant\<close>

definition broker_ok :: "(gostring \<Rightarrow> gostring) \<Rightarrow> i32 \<Rightarrow> BrokerInfo \<Rightarrow> bool" where
  "broker_ok uni i b \<longleftrightarrow>
     bi_ID b = i \<and> 0 \<le> sint i \<and> bi_IncarnationID b \<noteq> [] \<and> bi_BrokerEpoch b \<noteq> 0 \<and>
     endpoints_ok uni (bi_Endpoints b)"

definition indices :: "(TopicPartitionKey \<times> PartitionState) list \<Rightarrow> gostring \<Rightarrow> i32 set" where
  "indices ps topic = {i. map_of ps \<lparr>tk_Topic = topic, tk_Partition = i\<rparr> \<noteq> None}"

definition contiguous :: "i32 set \<Rightarrow> bool" where
  "contiguous A \<longleftrightarrow> (\<exists>n. 0 < n \<and> n \<le> 2 ^ 31 \<and> A = word_of_nat ` {..<n})"

definition brokers_inv :: "(gostring \<Rightarrow> gostring) \<Rightarrow> (i32 \<times> BrokerInfo) list \<Rightarrow> bool" where
  "brokers_inv uni bs \<longleftrightarrow> distinct (map fst bs) \<and> (\<forall>i b. map_of bs i = Some b \<longrightarrow> broker_ok uni i b)"

definition topics_inv :: "(gostring \<times> TopicState) list \<Rightarrow> bool" where
  "topics_inv ts \<longleftrightarrow> distinct (map fst ts) \<and> (\<forall>n t. map_of ts n = Some t \<longrightarrow> n \<noteq> [] \<and> ts_Name t = n)"

definition partition_ok :: "(i32 \<times> BrokerInfo) list \<Rightarrow> (gostring \<times> TopicState) list \<Rightarrow> TopicPartitionKey \<Rightarrow> PartitionState \<Rightarrow> bool" where
  "partition_ok bs ts k p \<longleftrightarrow>
     map_of ts (tk_Topic k) \<noteq> None \<and> 0 \<le> sint (tk_Partition k) \<and>
     assignment_ok bs (pt_LeaderBrokerID p) (pt_Replicas p) (pt_ISR p)"

definition controller_inv :: "(gostring \<Rightarrow> gostring) \<Rightarrow> controllerState \<Rightarrow> bool" where
  "controller_inv uni s \<longleftrightarrow>
     brokers_inv uni (cs_Brokers s) \<and> topics_inv (cs_Topics s) \<and> distinct (map fst (cs_Partitions s)) \<and>
     (\<forall>k p. map_of (cs_Partitions s) k = Some p \<longrightarrow> partition_ok (cs_Brokers s) (cs_Topics s) k p) \<and>
     (\<forall>n. map_of (cs_Topics s) n \<noteq> None \<longrightarrow> contiguous (indices (cs_Partitions s) n))"

lemma inv_partition:
  "controller_inv uni s \<Longrightarrow> map_of (cs_Partitions s) k = Some p \<Longrightarrow> partition_ok (cs_Brokers s) (cs_Topics s) k p"
  unfolding controller_inv_def by blast

lemma inv_new: "controller_inv uni newControllerState"
  by (simp add: controller_inv_def newControllerState_def brokers_inv_def topics_inv_def)

lemmas update_map = AList.update_conv AList.distinct_update

text \<open>What an accepted command changed; a refused one changed nothing.\<close>

lemma register_broker_effect:
  assumes "register_broker uni s cmd idx = (err, s')"
  shows "s' = s \<or> (\<exists>es. err = None \<and> 0 \<le> sint (rb_ID cmd) \<and> rb_IncarnationID cmd \<noteq> [] \<and> idx \<noteq> 0 \<and>
      normalizeEndpoints uni (rb_Endpoints cmd) = Inr es \<and>
      s' = s\<lparr>cs_Brokers := AList.update (rb_ID cmd)
          \<lparr>bi_ID = rb_ID cmd, bi_IncarnationID = rb_IncarnationID cmd, bi_BrokerEpoch = idx,
           bi_Endpoints = es, bi_Fenced = True\<rparr> (cs_Brokers s)\<rparr> \<and>
      (map_of (cs_Brokers s) (rb_ID cmd) = None \<or> \<not> brokerInActivePartition (cs_Partitions s) (rb_ID cmd)))"
proof (cases "normalizeEndpoints uni (rb_Endpoints cmd)")
  case (Inl a)
  then show ?thesis using assms by (simp add: register_broker_def split: if_splits)
next
  case (Inr es)
  then show ?thesis using assms
    by (cases "map_of (cs_Brokers s) (rb_ID cmd)") (simp_all add: register_broker_def Let_def not_less split: if_splits)
qed
lemma unfence_broker_effect:
  assumes "unfence_broker s cmd = (err, s')"
  shows "s' = s \<or> (\<exists>b. err = None \<and> map_of (cs_Brokers s) (ub_BrokerID cmd) = Some b \<and>
      bi_BrokerEpoch b = ub_BrokerEpoch cmd \<and>
      s' = s\<lparr>cs_Brokers := AList.update (ub_BrokerID cmd) (b\<lparr>bi_Fenced := False\<rparr>) (cs_Brokers s)\<rparr>)"
  using assms
  by (cases "map_of (cs_Brokers s) (ub_BrokerID cmd)") (simp_all add: unfence_broker_def split: if_splits)

lemma inv_register:
  assumes law: "upper_law uni" and inv: "controller_inv uni s"
    and r: "register_broker uni s cmd idx = (err, s')"
  shows "controller_inv uni s'"
proof (cases "s' = s")
  case False
  let ?i = "rb_ID cmd"
  from False register_broker_effect [OF r] obtain es where
    cmd: "0 \<le> sint ?i" "rb_IncarnationID cmd \<noteq> []" "idx \<noteq> 0" "normalizeEndpoints uni (rb_Endpoints cmd) = Inr es"
    and s': "s' = s\<lparr>cs_Brokers := AList.update ?i
          \<lparr>bi_ID = ?i, bi_IncarnationID = rb_IncarnationID cmd, bi_BrokerEpoch = idx,
           bi_Endpoints = es, bi_Fenced = True\<rparr> (cs_Brokers s)\<rparr>"
    and free: "map_of (cs_Brokers s) ?i = None \<or> \<not> brokerInActivePartition (cs_Partitions s) ?i"
    by blast
  have out: "?i \<notin> set (pt_ISR p)" if p: "map_of (cs_Partitions s) k = Some p" for k p
  proof -
    have ok: "assignment_ok (cs_Brokers s) (pt_LeaderBrokerID p) (pt_Replicas p) (pt_ISR p)"
      using inv p by (auto simp: controller_inv_def partition_ok_def)
    show ?thesis
    proof (cases "map_of (cs_Brokers s) ?i")
      case None
      then show ?thesis using ok by (auto simp: assignment_ok_def active_iff)
    next
      case (Some b)
      then have "\<not> brokerInActivePartition (cs_Partitions s) ?i" using free by simp
      then show ?thesis
        using map_of_SomeD [OF p] by (auto simp: brokerInActivePartition_def list_ex_iff)
    qed
  qed
  have "assignment_ok (cs_Brokers s') (pt_LeaderBrokerID p) (pt_Replicas p) (pt_ISR p)"
    if p: "map_of (cs_Partitions s) k = Some p" for k p
  proof (rule assignment_mono [of "cs_Brokers s"])
    show "assignment_ok (cs_Brokers s) (pt_LeaderBrokerID p) (pt_Replicas p) (pt_ISR p)"
      using inv p by (auto simp: controller_inv_def partition_ok_def)
  qed (use out [OF p] in \<open>auto simp: s'\<close>)
  moreover have "brokers_inv uni (cs_Brokers s')"
    using inv cmd normalizeEndpoints_ok [OF law cmd(4)]
    by (auto simp: controller_inv_def brokers_inv_def broker_ok_def s' update_map)
  ultimately show ?thesis
    using inv by (auto simp: controller_inv_def partition_ok_def s')
qed (use inv in simp)

lemma inv_unfence:
  assumes inv: "controller_inv uni s" and r: "unfence_broker s cmd = (err, s')"
  shows "controller_inv uni s'"
proof (cases "s' = s")
  case False
  from False unfence_broker_effect [OF r] obtain b where b: "map_of (cs_Brokers s) (ub_BrokerID cmd) = Some b"
    and s': "s' = s\<lparr>cs_Brokers := AList.update (ub_BrokerID cmd) (b\<lparr>bi_Fenced := False\<rparr>) (cs_Brokers s)\<rparr>"
    by blast
  have "brokers_inv uni (cs_Brokers s')"
    using inv b by (auto simp: controller_inv_def brokers_inv_def broker_ok_def s' update_map)
  moreover have "assignment_ok (cs_Brokers s') (pt_LeaderBrokerID p) (pt_Replicas p) (pt_ISR p)"
    if "map_of (cs_Partitions s) k = Some p" for k p
  proof (rule assignment_mono [of "cs_Brokers s"])
    show "assignment_ok (cs_Brokers s) (pt_LeaderBrokerID p) (pt_Replicas p) (pt_ISR p)"
      using inv that by (auto simp: controller_inv_def partition_ok_def)
  qed (auto simp: s')
  ultimately show ?thesis
    using inv by (auto simp: controller_inv_def partition_ok_def s')
qed (use inv in simp)

text \<open>Distinct non-negative indices that include every one below their number are contiguous.\<close>

lemma nonneg_words: "{x :: i32. 0 \<le> sint x} = word_of_nat ` {..<2 ^ 31}"
proof
  show "{x :: i32. 0 \<le> sint x} \<subseteq> word_of_nat ` {..<2 ^ 31}"
  proof
    fix x :: i32 assume "x \<in> {x. 0 \<le> sint x}"
    then have "0 \<le> sint x" "sint x < 2 ^ 31" using sint_lt [of x] by simp_all
    then have "x = word_of_nat (nat (sint x))" "nat (sint x) < 2 ^ 31"
      by (simp_all add: nat_less_iff)
    then show "x \<in> word_of_nat ` {..<2 ^ 31}" by blast
  qed
  show "word_of_nat ` {..<2 ^ 31} \<subseteq> {x :: i32. 0 \<le> sint x}"
    by (auto simp: sint_word_of_nat)
qed

lemma inj_word_of_nat: "n \<le> 2 ^ 31 \<Longrightarrow> inj_on (word_of_nat :: nat \<Rightarrow> i32) {..<n}"
proof (rule inj_onI)
  fix x y assume "n \<le> 2 ^ 31" and "x \<in> {..<n}" "y \<in> {..<n}" and eq: "(word_of_nat x :: i32) = word_of_nat y"
  then have x: "x < 2 ^ (LENGTH(32) - 1)" and y: "y < 2 ^ (LENGTH(32) - 1)" by simp_all
  have "sint (word_of_nat x :: i32) = int x" "sint (word_of_nat y :: i32) = int y"
    by (rule sint_word_of_nat [OF x], rule sint_word_of_nat [OF y])
  with eq show "x = y" by (simp del: of_nat_eq_iff flip: of_nat_eq_iff [where 'a = int])
qed

lemma contiguous_indices:
  assumes d: "distinct xs" and nn: "\<forall>x\<in>set xs. 0 \<le> sint x" and ne: "xs \<noteq> []"
    and all: "list_all (\<lambda>i. i \<in> set xs) (int32_range (length xs))"
  shows "contiguous (set xs)"
proof -
  let ?n = "length xs" and ?N = "(word_of_nat :: nat \<Rightarrow> i32) ` {..<2 ^ 31}"
  have sub: "set xs \<subseteq> ?N" using nn nonneg_words by blast
  have cN: "card ?N = 2 ^ 31" by (simp add: card_image inj_word_of_nat)
  have "finite ?N" by simp
  then have le: "?n \<le> 2 ^ 31"
    using card_mono [OF _ sub] d cN by (simp add: distinct_card)
  have "set xs = word_of_nat ` {..<?n}"
  proof (cases "?n = 2 ^ 31")
    case True
    then have "set xs = ?N" using card_subset_eq [OF _ sub] cN d by (simp add: distinct_card)
    with True show ?thesis by simp
  next
    case False
    then have "?n < 2 ^ (LENGTH(32) - 1)" using le by simp
    then have "sint (word_of_nat ?n :: i32) = int ?n" by (rule sint_word_of_nat)
    then have "word_of_nat ` {..<?n} \<subseteq> set xs"
      using all by (auto simp: int32_range_def list_all_iff)
    moreover have "card ((word_of_nat :: nat \<Rightarrow> i32) ` {..<?n}) = ?n"
      using le by (simp add: card_image inj_word_of_nat)
    ultimately show ?thesis
      using card_subset_eq [of "set xs" "word_of_nat ` {..<?n}"] d by (simp add: distinct_card)
  qed
  with le ne show ?thesis by (auto simp: contiguous_def)
qed

lemma check_specs_None:
  "check_specs brokers seen specs = None \<longleftrightarrow>
     distinct (map sp_Partition specs) \<and> set (map sp_Partition specs) \<inter> set seen = {} \<and>
     (\<forall>sp\<in>set specs. 0 \<le> sint (sp_Partition sp) \<and>
        assignment_ok brokers (sp_LeaderBrokerID sp) (sp_Replicas sp) (sp_ISR sp))"
proof (induction brokers seen specs rule: check_specs.induct)
  case (2 brokers seen spec specs)
  show ?case
  proof (cases "validatePartitionSpec brokers (sp_LeaderBrokerID spec) (sp_Replicas spec) (sp_ISR spec)")
    case None
    then have "assignment_ok brokers (sp_LeaderBrokerID spec) (sp_Replicas spec) (sp_ISR spec)"
      by (simp add: validatePartitionSpec_None)
    with None 2 show ?thesis by auto
  next
    case (Some a)
    then have "\<not> assignment_ok brokers (sp_LeaderBrokerID spec) (sp_Replicas spec) (sp_ISR spec)"
      using validatePartitionSpec_None by (metis option.distinct(1))
    with Some show ?thesis by auto
  qed
qed simp

definition spec_key :: "gostring \<Rightarrow> CreateTopicPartitionSpec \<Rightarrow> TopicPartitionKey" where
  "spec_key topic sp = \<lparr>tk_Topic = topic, tk_Partition = sp_Partition sp\<rparr>"

definition add_partitions ::
    "gostring \<Rightarrow> CreateTopicPartitionSpec list \<Rightarrow> (TopicPartitionKey \<times> PartitionState) list \<Rightarrow>
     (TopicPartitionKey \<times> PartitionState) list" where
  "add_partitions topic specs ps = foldl (\<lambda>m sp. AList.update (spec_key topic sp) (new_partition sp) m) ps specs"

lemma add_partitions_map:
  "distinct (map sp_Partition specs) \<Longrightarrow>
   map_of (add_partitions topic specs ps) k =
     (case find (\<lambda>sp. spec_key topic sp = k) specs of Some sp \<Rightarrow> Some (new_partition sp) | None \<Rightarrow> map_of ps k)"
proof (induction specs arbitrary: ps)
  case (Cons sp specs)
  have none: "find (\<lambda>x. spec_key topic x = spec_key topic sp) specs = None"
    using Cons.prems by (auto simp: find_None_iff spec_key_def image_iff)
  show ?case
    using Cons none by (auto simp: add_partitions_def AList.update_conv split: option.splits)
qed (simp add: add_partitions_def)

lemma distinct_add_partitions:
  "distinct (map fst ps) \<Longrightarrow> distinct (map fst (add_partitions topic specs ps))"
  by (induction specs arbitrary: ps) (simp_all add: add_partitions_def AList.distinct_update)

lemma create_topic_effect:
  assumes "create_topic s cmd = (err, s')"
  shows "s' = s \<or> (err = None \<and> ct_Topic cmd \<noteq> [] \<and> ct_Partitions cmd \<noteq> [] \<and>
      map_of (cs_Topics s) (ct_Topic cmd) = None \<and> check_specs (cs_Brokers s) [] (ct_Partitions cmd) = None \<and>
      list_all (\<lambda>i. i \<in> set (map sp_Partition (ct_Partitions cmd))) (int32_range (length (ct_Partitions cmd))) \<and>
      s' = s\<lparr>cs_Topics := AList.update (ct_Topic cmd) \<lparr>ts_Name = ct_Topic cmd\<rparr> (cs_Topics s),
             cs_Partitions := add_partitions (ct_Topic cmd) (ct_Partitions cmd) (cs_Partitions s)\<rparr>)"
  using assms
  by (cases "check_specs (cs_Brokers s) [] (ct_Partitions cmd)")
    (simp_all add: create_topic_def add_partitions_def spec_key_def split: if_splits)

lemma inv_create:
  assumes inv: "controller_inv uni s" and r: "create_topic s cmd = (err, s')"
  shows "controller_inv uni s'"
proof (cases "s' = s")
  case False
  let ?t = "ct_Topic cmd" and ?specs = "ct_Partitions cmd"
  from False create_topic_effect [OF r] have t: "?t \<noteq> []" "?specs \<noteq> []" "map_of (cs_Topics s) ?t = None"
    and chk: "check_specs (cs_Brokers s) [] ?specs = None"
    and all: "list_all (\<lambda>i. i \<in> set (map sp_Partition ?specs)) (int32_range (length ?specs))"
    and s': "s' = s\<lparr>cs_Topics := AList.update ?t \<lparr>ts_Name = ?t\<rparr> (cs_Topics s),
             cs_Partitions := add_partitions ?t ?specs (cs_Partitions s)\<rparr>"
    by blast+
  have d: "distinct (map sp_Partition ?specs)"
    and sp: "\<And>sp. sp \<in> set ?specs \<Longrightarrow> 0 \<le> sint (sp_Partition sp)"
      "\<And>sp. sp \<in> set ?specs \<Longrightarrow> assignment_ok (cs_Brokers s) (sp_LeaderBrokerID sp) (sp_Replicas sp) (sp_ISR sp)"
    using chk by (auto simp: check_specs_None)
  have old: "map_of (cs_Partitions s) k = None" if "tk_Topic k = ?t" for k
  proof (rule ccontr)
    assume "map_of (cs_Partitions s) k \<noteq> None"
    then obtain p where "map_of (cs_Partitions s) k = Some p" by blast
    then have "partition_ok (cs_Brokers s) (cs_Topics s) k p" by (rule inv_partition [OF inv])
    then show False using t(3) that by (simp add: partition_ok_def)
  qed
  have new: "partition_ok (cs_Brokers s) (cs_Topics s') k p" if "map_of (cs_Partitions s') k = Some p" for k p
  proof (cases "find (\<lambda>sp. spec_key ?t sp = k) ?specs")
    case None
    then have "map_of (cs_Partitions s) k = Some p" using that d by (simp add: s' add_partitions_map)
    then have "partition_ok (cs_Brokers s) (cs_Topics s) k p" by (rule inv_partition [OF inv])
    then show ?thesis by (auto simp: partition_ok_def s' AList.update_conv)
  next
    case (Some q)
    then have "q \<in> set ?specs" "k = spec_key ?t q"
      by (auto simp: find_Some_iff)
    moreover have "p = new_partition q"
      using Some that d by (simp add: s' add_partitions_map)
    ultimately show ?thesis
      using sp by (auto simp: partition_ok_def spec_key_def new_partition_def s' AList.update_conv)
  qed
  have same: "indices (cs_Partitions s') n = indices (cs_Partitions s) n" if "n \<noteq> ?t" for n
  proof -
    have "find (\<lambda>sp. spec_key ?t sp = \<lparr>tk_Topic = n, tk_Partition = i\<rparr>) ?specs = None" for i
      using that by (simp add: find_None_iff spec_key_def)
    then show ?thesis using d by (simp add: indices_def s' add_partitions_map)
  qed
  have "indices (cs_Partitions s') ?t = set (map sp_Partition ?specs)"
    using d old by (auto simp: indices_def s' add_partitions_map spec_key_def find_None_iff find_Some_iff split: option.splits)
  moreover have "contiguous (set (map sp_Partition ?specs))"
    using all d sp t by (intro contiguous_indices) auto
  ultimately have "contiguous (indices (cs_Partitions s') n)" if "map_of (cs_Topics s') n \<noteq> None" for n
    using that same inv by (cases "n = ?t") (auto simp: controller_inv_def s' AList.update_conv)
  moreover have "topics_inv (cs_Topics s')"
    using inv t by (auto simp: controller_inv_def topics_inv_def s' AList.update_conv AList.distinct_update)
  moreover have "distinct (map fst (cs_Partitions s'))"
    using inv by (simp add: controller_inv_def s' distinct_add_partitions)
  moreover have "cs_Brokers s' = cs_Brokers s" by (simp add: s')
  ultimately show ?thesis
    using inv new by (simp add: controller_inv_def)
qed (use inv in simp)

definition update_key :: "UpdatePartitionCommand \<Rightarrow> TopicPartitionKey" where
  "update_key cmd = \<lparr>tk_Topic = up_Topic cmd, tk_Partition = up_Partition cmd\<rparr>"

lemma update_partition_effect:
  assumes "update_partition s cmd = (err, s')"
  shows "(err \<noteq> None \<and> s' = s) \<or>
    (\<exists>c. err = None \<and> map_of (cs_Partitions s) (update_key cmd) = Some c \<and>
      up_ExpectedPartitionEpoch cmd = pt_PartitionEpoch c \<and>
      assignment_ok (cs_Brokers s) (up_LeaderBrokerID cmd) (up_Replicas cmd) (up_ISR cmd) \<and>
      (up_LeaderBrokerID cmd = pt_LeaderBrokerID c \<or> up_LeaderBrokerID cmd \<in> set (pt_ISR c) \<or> up_AllowUncleanElection cmd) \<and>
      s' = s\<lparr>cs_Partitions := AList.update (update_key cmd)
        \<lparr>pt_LeaderBrokerID = up_LeaderBrokerID cmd,
         pt_LeaderEpoch = (if up_LeaderBrokerID cmd \<noteq> pt_LeaderBrokerID c then pt_LeaderEpoch c + 1 else pt_LeaderEpoch c),
         pt_PartitionEpoch = pt_PartitionEpoch c + 1, pt_Replicas = up_Replicas cmd, pt_ISR = up_ISR cmd\<rparr>
        (cs_Partitions s)\<rparr>)"
proof (cases "map_of (cs_Partitions s) (update_key cmd)")
  case None
  then show ?thesis using assms by (auto simp: update_partition_def update_key_def)
next
  case (Some c)
  note key = Some [unfolded update_key_def]
  show ?thesis
  proof (cases "validatePartitionSpec (cs_Brokers s) (up_LeaderBrokerID cmd) (up_Replicas cmd) (up_ISR cmd)")
    case None
    then show ?thesis
      using assms key validatePartitionSpec_None [of "cs_Brokers s" "up_LeaderBrokerID cmd" "up_Replicas cmd" "up_ISR cmd"]
      by (simp add: update_partition_def update_key_def Let_def split: if_splits) auto
  next
    case (Some a)
    then show ?thesis
      using assms key by (auto simp: update_partition_def split: if_splits)
  qed
qed

lemma indices_update:
  "map_of ps k \<noteq> None \<Longrightarrow> indices (AList.update k p ps) n = indices ps n"
  by (auto simp: indices_def AList.update_conv)

lemma inv_update:
  assumes inv: "controller_inv uni s" and r: "update_partition s cmd = (err, s')"
  shows "controller_inv uni s'"
proof (cases "s' = s")
  case False
  from False update_partition_effect [OF r] obtain c where
    c: "map_of (cs_Partitions s) (update_key cmd) = Some c"
    and ok: "assignment_ok (cs_Brokers s) (up_LeaderBrokerID cmd) (up_Replicas cmd) (up_ISR cmd)"
    and s': "s' = s\<lparr>cs_Partitions := AList.update (update_key cmd)
        \<lparr>pt_LeaderBrokerID = up_LeaderBrokerID cmd,
         pt_LeaderEpoch = (if up_LeaderBrokerID cmd \<noteq> pt_LeaderBrokerID c then pt_LeaderEpoch c + 1 else pt_LeaderEpoch c),
         pt_PartitionEpoch = pt_PartitionEpoch c + 1, pt_Replicas = up_Replicas cmd, pt_ISR = up_ISR cmd\<rparr>
        (cs_Partitions s)\<rparr>"
    by blast
  have old: "partition_ok (cs_Brokers s) (cs_Topics s) (update_key cmd) c"
    using inv c by (rule inv_partition)
  have "partition_ok (cs_Brokers s) (cs_Topics s) k p" if "map_of (cs_Partitions s') k = Some p" for k p
  proof (cases "k = update_key cmd")
    case True
    then show ?thesis
      using that old ok by (auto simp: s' AList.update_conv partition_ok_def)
  next
    case False
    then show ?thesis
      using that inv_partition [OF inv] by (simp add: s' AList.update_conv)
  qed
  then show ?thesis
    using inv c by (simp add: controller_inv_def s' AList.distinct_update indices_update)
qed (use inv in simp)

section \<open>Every applied command keeps it\<close>

lemma decode_cases:
  "applyRegisterBroker js uni s p i = (err, s') \<Longrightarrow> (err \<noteq> None \<and> s' = s) \<or> (\<exists>cmd idx. register_broker uni s cmd idx = (err, s'))"
  "applyUnfenceBroker js s p = (err, s') \<Longrightarrow> (err \<noteq> None \<and> s' = s) \<or> (\<exists>cmd. unfence_broker s cmd = (err, s'))"
  "applyCreateTopic js s p = (err, s') \<Longrightarrow> (err \<noteq> None \<and> s' = s) \<or> (\<exists>cmd. create_topic s cmd = (err, s'))"
  "applyUpdatePartition js s p = (err, s') \<Longrightarrow> (err \<noteq> None \<and> s' = s) \<or> (\<exists>cmd. update_partition s cmd = (err, s'))"
  by (auto simp: applyRegisterBroker_def applyUnfenceBroker_def applyCreateTopic_def applyUpdatePartition_def
      split: option.splits)

lemma Apply_cases:
  assumes "Apply js uni s log = (err, s')"
  shows "(err \<noteq> None \<and> s' = s) \<or> (\<exists>cmd idx. register_broker uni s cmd idx = (err, s')) \<or>
    (\<exists>cmd. unfence_broker s cmd = (err, s')) \<or> (\<exists>cmd. create_topic s cmd = (err, s')) \<or>
    (\<exists>cmd. update_partition s cmd = (err, s'))"
proof (cases log)
  case None
  then show ?thesis using assms by (auto simp: Apply_def)
next
  case (Some l)
  show ?thesis
  proof (cases "js_envelope js (rl_Data l)")
    case None
    then show ?thesis using Some assms by (auto simp: Apply_def)
  next
    case (Some env)
    then have "(err \<noteq> None \<and> s' = s) \<or> applyRegisterBroker js uni s (ce_Payload env) (rl_Index l) = (err, s') \<or>
        applyUnfenceBroker js s (ce_Payload env) = (err, s') \<or> applyCreateTopic js s (ce_Payload env) = (err, s') \<or>
        applyUpdatePartition js s (ce_Payload env) = (err, s')"
      using assms \<open>log = Some l\<close> by (auto simp: Apply_def split: if_splits)
    then show ?thesis
    proof (elim disjE)
      assume "applyRegisterBroker js uni s (ce_Payload env) (rl_Index l) = (err, s')"
      from decode_cases(1) [OF this] show ?thesis by blast
    next
      assume "applyUnfenceBroker js s (ce_Payload env) = (err, s')"
      from decode_cases(2) [OF this] show ?thesis by blast
    next
      assume "applyCreateTopic js s (ce_Payload env) = (err, s')"
      from decode_cases(3) [OF this] show ?thesis by blast
    next
      assume "applyUpdatePartition js s (ce_Payload env) = (err, s')"
      from decode_cases(4) [OF this] show ?thesis by blast
    qed blast
  qed
qed

lemma inv_Apply: "upper_law uni \<Longrightarrow> controller_inv uni s \<Longrightarrow> Apply js uni s log = (err, s') \<Longrightarrow> controller_inv uni s'"
  by (drule Apply_cases) (auto intro: inv_register inv_unfence inv_create inv_update)

text \<open>A refused command leaves the state as it was.\<close>

lemma Apply_refused:
  assumes "Apply js uni s log = (Some err, s')"
  shows "s' = s"
  using Apply_cases [OF assms] register_broker_effect unfence_broker_effect create_topic_effect update_partition_effect
  by (metis option.distinct(1))

end
