(* ===== verification/ControllerRuns.thy ===== *)
theory ControllerRuns
  imports ControllerSafety
begin

text \<open>
  Runs of the controller state machine: how the epochs of a partition move along a sequence
  of log entries, what restoring a snapshot establishes, and the reachable states.
\<close>

section \<open>Epochs\<close>

text \<open>
  One applied command either leaves a partition as it was, or is an update of it: the
  partition epoch moves by one, and the leader epoch by one exactly when the leader changes.
\<close>

definition state_step :: "PartitionState \<Rightarrow> PartitionState \<Rightarrow> bool" where
  "state_step p q \<longleftrightarrow>
     q = p \<or>
     (pt_PartitionEpoch q = pt_PartitionEpoch p + 1 \<and>
      pt_LeaderEpoch q = (if pt_LeaderBrokerID q \<noteq> pt_LeaderBrokerID p then pt_LeaderEpoch p + 1 else pt_LeaderEpoch p))"

lemma create_topic_keeps:
  assumes inv: "controller_inv uni s" and p: "map_of (cs_Partitions s) k = Some p"
    and r: "create_topic s cmd = (err, s')"
  shows "map_of (cs_Partitions s') k = Some p"
proof (cases "s' = s")
  case False
  with create_topic_effect [OF r] have t: "map_of (cs_Topics s) (ct_Topic cmd) = None"
    and d: "check_specs (cs_Brokers s) [] (ct_Partitions cmd) = None"
    and s': "cs_Partitions s' = add_partitions (ct_Topic cmd) (ct_Partitions cmd) (cs_Partitions s)"
    by auto
  have "tk_Topic k \<noteq> ct_Topic cmd"
    using inv_partition [OF inv p] t by (auto simp: partition_ok_def)
  then have "find (\<lambda>sp. spec_key (ct_Topic cmd) sp = k) (ct_Partitions cmd) = None"
    by (auto simp: find_None_iff spec_key_def)
  with d p show ?thesis by (simp add: s' add_partitions_map check_specs_None)
qed (use p in simp)

lemma register_keeps: "register_broker uni s cmd i = (err, s') \<Longrightarrow> cs_Partitions s' = cs_Partitions s"
  by (drule register_broker_effect) auto

lemma unfence_keeps: "unfence_broker s cmd = (err, s') \<Longrightarrow> cs_Partitions s' = cs_Partitions s"
  by (drule unfence_broker_effect) auto

lemma update_partition_step:
  assumes p: "map_of (cs_Partitions s) k = Some p" and r: "update_partition s cmd = (err, s')"
  shows "\<exists>q. map_of (cs_Partitions s') k = Some q \<and> state_step p q"
proof (cases "s' = s")
  case False
  with update_partition_effect [OF r] obtain c where c: "map_of (cs_Partitions s) (update_key cmd) = Some c"
    and s': "s' = s\<lparr>cs_Partitions := AList.update (update_key cmd)
        \<lparr>pt_LeaderBrokerID = up_LeaderBrokerID cmd,
         pt_LeaderEpoch = (if up_LeaderBrokerID cmd \<noteq> pt_LeaderBrokerID c then pt_LeaderEpoch c + 1 else pt_LeaderEpoch c),
         pt_PartitionEpoch = pt_PartitionEpoch c + 1, pt_Replicas = up_Replicas cmd, pt_ISR = up_ISR cmd\<rparr>
        (cs_Partitions s)\<rparr>" by blast
  show ?thesis
  proof (cases "k = update_key cmd")
    case True
    then show ?thesis using p c by (simp add: s' AList.update_conv state_step_def)
  next
    case False
    then show ?thesis using p by (simp add: s' AList.update_conv state_step_def)
  qed
qed (use p in \<open>simp add: state_step_def\<close>)

lemma Apply_partition_step:
  assumes inv: "controller_inv uni s" and p: "map_of (cs_Partitions s) k = Some p"
    and r: "Apply js uni s log = (err, s')"
  shows "\<exists>q. map_of (cs_Partitions s') k = Some q \<and> state_step p q"
proof -
  have same: ?thesis if "cs_Partitions s' = cs_Partitions s"
    using that p by (simp add: state_step_def)
  from Apply_cases [OF r] show ?thesis
  proof (elim disjE exE conjE)
    fix cmd assume "update_partition s cmd = (err, s')"
    then show ?thesis by (rule update_partition_step [OF p])
  next
    fix cmd assume "create_topic s cmd = (err, s')"
    from create_topic_keeps [OF inv p this] show ?thesis by (simp add: state_step_def)
  next
    fix cmd idx assume "register_broker uni s cmd idx = (err, s')"
    then show ?thesis by (intro same register_keeps)
  next
    fix cmd assume "unfence_broker s cmd = (err, s')"
    then show ?thesis by (intro same unfence_keeps)
  qed (intro same, simp)
qed

text \<open>Applying a sequence of log entries.\<close>

definition run :: "JsonCodec \<Rightarrow> (gostring \<Rightarrow> gostring) \<Rightarrow> controllerState \<Rightarrow> RaftLog list \<Rightarrow> controllerState" where
  "run js uni s logs = foldl (\<lambda>s l. snd (Apply js uni s (Some l))) s logs"

lemma run_Cons: "run js uni s (l # ls) = run js uni (snd (Apply js uni s (Some l))) ls"
  by (simp add: run_def)

lemma inv_run: "upper_law uni \<Longrightarrow> controller_inv uni s \<Longrightarrow> controller_inv uni (run js uni s logs)"
proof (induction logs arbitrary: s)
  case (Cons l logs)
  obtain err s1 where s1: "Apply js uni s (Some l) = (err, s1)" by fastforce
  then show ?case
    using Cons.IH [OF Cons.prems(1) inv_Apply [OF Cons.prems s1]] by (simp add: run_Cons)
qed (simp add: run_def)

definition epochs_moved :: "PartitionState \<Rightarrow> PartitionState \<Rightarrow> nat \<Rightarrow> nat \<Rightarrow> bool" where
  "epochs_moved p q n m \<longleftrightarrow>
     n \<le> m \<and> pt_LeaderEpoch q = pt_LeaderEpoch p + word_of_nat n \<and>
     pt_PartitionEpoch q = pt_PartitionEpoch p + word_of_nat m \<and>
     (n = 0 \<longrightarrow> pt_LeaderBrokerID q = pt_LeaderBrokerID p) \<and> (m = 0 \<longrightarrow> q = p)"

lemma partition_step_moved:
  assumes "state_step p q"
  shows "\<exists>n m. m \<le> 1 \<and> epochs_moved p q n m"
proof (cases "q = p")
  case True
  then show ?thesis by (intro exI [of _ 0]) (simp add: epochs_moved_def)
next
  case False
  then show ?thesis
    using assms
    by (intro exI [of _ "if pt_LeaderBrokerID q = pt_LeaderBrokerID p then 0 else 1"] exI [of _ 1])
      (simp add: state_step_def epochs_moved_def)
qed

lemma epochs_moved_trans:
  "epochs_moved p q n m \<Longrightarrow> epochs_moved q r n' m' \<Longrightarrow> epochs_moved p r (n + n') (m + m')"
  by (auto simp: epochs_moved_def add.assoc)

lemma run_epochs:
  assumes "upper_law uni" and "controller_inv uni s" and "map_of (cs_Partitions s) k = Some p"
  shows "\<exists>q n m. map_of (cs_Partitions (run js uni s logs)) k = Some q \<and> m \<le> length logs \<and> epochs_moved p q n m"
  using assms(2,3)
proof (induction logs arbitrary: s p)
  case Nil
  then show ?case by (intro exI [of _ p] exI [of _ 0]) (simp add: run_def epochs_moved_def)
next
  case (Cons l logs)
  obtain err s1 where s1: "Apply js uni s (Some l) = (err, s1)" by fastforce
  obtain p1 where p1: "map_of (cs_Partitions s1) k = Some p1" and st: "state_step p p1"
    using Apply_partition_step [OF Cons.prems s1] by blast
  obtain n1 m1 where 1: "m1 \<le> 1" "epochs_moved p p1 n1 m1"
    using partition_step_moved [OF st] by blast
  obtain q n m where 2: "map_of (cs_Partitions (run js uni s1 logs)) k = Some q" "m \<le> length logs" "epochs_moved p1 q n m"
    using Cons.IH [OF inv_Apply [OF assms(1) Cons.prems(1) s1] p1] by blast
  have "run js uni s (l # logs) = run js uni s1 logs" using s1 by (simp add: run_Cons)
  moreover have "m1 + m \<le> length (l # logs)" using 1(1) 2(2) by simp
  ultimately show ?case using 2(1) epochs_moved_trans [OF 1(2) 2(3)] by metis
qed

lemma word_add_nat_same: "(a :: i32) + word_of_nat n = a \<Longrightarrow> n < 2 ^ 32 \<Longrightarrow> n = 0"
  by (auto simp: word_of_nat_eq_0_iff dest: dvd_imp_le)

section \<open>Restoring\<close>

lemma brokers_inv_update: "brokers_inv uni bs \<Longrightarrow> broker_ok uni i b \<Longrightarrow> brokers_inv uni (AList.update i b bs)"
  by (simp add: brokers_inv_def update_map)

lemma guard_Inr: "((if P then Inl e else x) = Inr r) = (\<not> P \<and> x = Inr r)"
  by simp

lemma guard_option_Inr: "((case x of None \<Rightarrow> y | Some e \<Rightarrow> Inl e) = Inr r) = (x = None \<and> y = Inr r)"
  by (cases x) simp_all

lemma guard_sum_Inr: "((case x of Inl e \<Rightarrow> Inl e | Inr y \<Rightarrow> f y) = Inr r) = (\<exists>y. x = Inr y \<and> f y = Inr r)"
  by (cases x) simp_all

lemmas guards = guard_Inr guard_option_Inr guard_sum_Inr not_less de_Morgan_disj not_not

definition snapshot_broker :: "snapshotBroker \<Rightarrow> BrokerEndpoint list \<Rightarrow> BrokerInfo" where
  "snapshot_broker b es = \<lparr>bi_ID = sb_ID b, bi_IncarnationID = sb_IncarnationID b, bi_BrokerEpoch = sb_BrokerEpoch b,
     bi_Endpoints = es, bi_Fenced = sb_Fenced b\<rparr>"

lemma load_brokers_Cons:
  "load_brokers uni out (b # bs) = Inr r \<longleftrightarrow>
     0 \<le> sint (sb_ID b) \<and> sb_IncarnationID b \<noteq> [] \<and> sb_BrokerEpoch b \<noteq> 0 \<and> map_of out (sb_ID b) = None \<and>
     (\<exists>es. normalizeEndpoints uni (sb_Endpoints b) = Inr es \<and>
        load_brokers uni (AList.update (sb_ID b) (snapshot_broker b es) out) bs = Inr r)"
  unfolding load_brokers.simps guards snapshot_broker_def by blast

lemma load_brokers_inv:
  assumes law: "upper_law uni"
  shows "load_brokers uni out bs = Inr r \<Longrightarrow> brokers_inv uni out \<Longrightarrow> brokers_inv uni r"
proof (induction bs arbitrary: out)
  case (Cons b bs)
  from Cons.prems(1) [unfolded load_brokers_Cons] obtain es
    where es: "normalizeEndpoints uni (sb_Endpoints b) = Inr es"
      and rest: "load_brokers uni (AList.update (sb_ID b) (snapshot_broker b es) out) bs = Inr r"
      and b: "0 \<le> sint (sb_ID b)" "sb_IncarnationID b \<noteq> []" "sb_BrokerEpoch b \<noteq> 0" by blast
  from b normalizeEndpoints_ok [OF law es] have "broker_ok uni (sb_ID b) (snapshot_broker b es)"
    by (simp add: broker_ok_def snapshot_broker_def)
  from Cons.IH [OF rest brokers_inv_update [OF Cons.prems(2) this]] show ?case .
qed simp

lemma topics_inv_update: "topics_inv ts \<Longrightarrow> n \<noteq> [] \<Longrightarrow> topics_inv (AList.update n \<lparr>ts_Name = n\<rparr> ts)"
  by (simp add: topics_inv_def update_map)

lemma load_topics_Cons:
  "load_topics out (t # ts) = Inr r \<longleftrightarrow>
     st_Name t \<noteq> [] \<and> map_of out (st_Name t) = None \<and>
     load_topics (AList.update (st_Name t) \<lparr>ts_Name = st_Name t\<rparr> out) ts = Inr r"
  unfolding load_topics.simps guards by blast

lemma load_topics_inv: "load_topics out ts = Inr r \<Longrightarrow> topics_inv out \<Longrightarrow> topics_inv r"
proof (induction ts arbitrary: out)
  case (Cons t ts)
  from Cons.prems(1) [unfolded load_topics_Cons] have "st_Name t \<noteq> []"
    and rest: "load_topics (AList.update (st_Name t) \<lparr>ts_Name = st_Name t\<rparr> out) ts = Inr r" by blast+
  from Cons.IH [OF rest topics_inv_update [OF Cons.prems(2) this(1)]] show ?case .
qed simp

definition partitions_ok :: "(i32 \<times> BrokerInfo) list \<Rightarrow> (gostring \<times> TopicState) list \<Rightarrow> (TopicPartitionKey \<times> PartitionState) list \<Rightarrow> bool" where
  "partitions_ok bs ts ps \<longleftrightarrow>
     distinct (map fst ps) \<and> (\<forall>k p. map_of ps k = Some p \<longrightarrow> partition_ok bs ts k p)"

lemma partitions_ok_update:
  "partitions_ok bs ts ps \<Longrightarrow> partition_ok bs ts k p \<Longrightarrow> partitions_ok bs ts (AList.update k p ps)"
  by (simp add: partitions_ok_def update_map)

definition snapshot_key :: "snapshotPartition \<Rightarrow> TopicPartitionKey" where
  "snapshot_key p = \<lparr>tk_Topic = sn_Topic p, tk_Partition = sn_Partition p\<rparr>"

definition snapshot_partition :: "snapshotPartition \<Rightarrow> PartitionState" where
  "snapshot_partition p = \<lparr>pt_LeaderBrokerID = sn_LeaderBrokerID p, pt_LeaderEpoch = sn_LeaderEpoch p,
     pt_PartitionEpoch = sn_PartitionEpoch p, pt_Replicas = sn_Replicas p, pt_ISR = sn_ISR p\<rparr>"

text \<open>A partition of a snapshot is accepted exactly when it is valid and its key is new.\<close>

definition snapshot_ok :: "(i32 \<times> BrokerInfo) list \<Rightarrow> (gostring \<times> TopicState) list \<Rightarrow> snapshotPartition \<Rightarrow> bool" where
  "snapshot_ok bs ts p \<longleftrightarrow>
     0 \<le> sint (sn_Partition p) \<and> sn_Topic p \<noteq> [] \<and> map_of ts (sn_Topic p) \<noteq> None \<and>
     0 \<le> sint (sn_LeaderEpoch p) \<and> 0 \<le> sint (sn_PartitionEpoch p) \<and>
     assignment_ok bs (sn_LeaderBrokerID p) (sn_Replicas p) (sn_ISR p)"

lemma load_partitions_Cons:
  "load_partitions bs ts out (p # ps) = Inr r \<longleftrightarrow>
     snapshot_ok bs ts p \<and> map_of out (snapshot_key p) = None \<and>
     load_partitions bs ts (AList.update (snapshot_key p) (snapshot_partition p) out) ps = Inr r"
  unfolding load_partitions.simps Let_def guards validatePartitionSpec_None
    snapshot_ok_def snapshot_key_def snapshot_partition_def
  by blast

lemma load_partitions_inv:
  "load_partitions bs ts out ps = Inr r \<Longrightarrow> partitions_ok bs ts out \<Longrightarrow> partitions_ok bs ts r"
proof (induction ps arbitrary: out)
  case (Cons p ps)
  from Cons.prems(1) [unfolded load_partitions_Cons] have p: "snapshot_ok bs ts p"
    and rest: "load_partitions bs ts (AList.update (snapshot_key p) (snapshot_partition p) out) ps = Inr r" by blast+
  from p have "partition_ok bs ts (snapshot_key p) (snapshot_partition p)"
    by (simp add: partition_ok_def snapshot_ok_def snapshot_key_def snapshot_partition_def)
  from Cons.IH [OF rest partitions_ok_update [OF Cons.prems(2) this]] show ?case .
qed simp

definition numbers :: "(TopicPartitionKey \<times> PartitionState) list \<Rightarrow> gostring \<Rightarrow> i32 list" where
  "numbers ps topic = map (\<lambda>(k, _). tk_Partition k) (filter (\<lambda>(k, _). tk_Topic k = topic) ps)"

lemma set_numbers: "set (numbers ps topic) = indices ps topic"
proof -
  have "i \<in> set (numbers ps topic) \<longleftrightarrow> \<lparr>tk_Topic = topic, tk_Partition = i\<rparr> \<in> fst ` set ps" for i
    by (force simp: numbers_def)
  then show ?thesis by (auto simp: indices_def map_of_eq_None_iff simp del: not_None_eq)
qed

lemma distinct_numbers:
  assumes "distinct (map fst ps)"
  shows "distinct (numbers ps topic)"
proof -
  have eq: "numbers ps topic = map tk_Partition (filter (\<lambda>k. tk_Topic k = topic) (map fst ps))"
    unfolding numbers_def filter_map map_map by (simp add: case_prod_beta' comp_def)
  have "inj_on tk_Partition {k :: TopicPartitionKey. tk_Topic k = topic}"
    by (rule inj_onI, rule TopicPartitionKey.equality) simp_all
  then show ?thesis
    unfolding eq distinct_map [of tk_Partition]
    by (intro conjI distinct_filter assms) (erule inj_on_subset, auto)
qed

lemma length_numbers: "length (numbers ps topic) = partition_count ps topic"
  by (simp add: numbers_def partition_count_def)

lemma topic_check_contiguous:
  assumes "topic_check ps topic = None" and ok: "partitions_ok bs ts ps"
  shows "contiguous (indices ps topic)"
proof -
  have c: "(word_of_nat (partition_count ps topic) :: i32) \<noteq> 0"
    and all: "list_all (\<lambda>i. map_of ps \<lparr>tk_Topic = topic, tk_Partition = i\<rparr> \<noteq> None)
                 (int32_range (partition_count ps topic))"
    using assms(1) unfolding topic_check_def by (auto split: if_splits)
  have "distinct (numbers ps topic)" using ok by (simp add: partitions_ok_def distinct_numbers)
  moreover have "\<forall>i\<in>set (numbers ps topic). 0 \<le> sint i"
    using ok unfolding set_numbers indices_def partitions_ok_def partition_ok_def by fastforce
  moreover have "numbers ps topic \<noteq> []" using c by (auto simp flip: length_numbers)
  moreover have "list_all (\<lambda>i. i \<in> set (numbers ps topic)) (int32_range (length (numbers ps topic)))"
    using all unfolding set_numbers length_numbers indices_def by simp
  ultimately show ?thesis using contiguous_indices [of "numbers ps topic"] by (simp add: set_numbers)
qed

lemma check_topics_None: "check_topics ps ts = None \<longleftrightarrow> (\<forall>n\<in>fst ` set ts. topic_check ps n = None)"
  by (induction ts) (auto split: option.splits)

lemma fromSnapshotData_Inr:
  "fromSnapshotData uni data = Inr s \<longleftrightarrow>
     sd_Version data = CurrentSnapshotVersion \<and> load_brokers uni [] (sd_Brokers data) = Inr (cs_Brokers s) \<and>
     load_topics [] (sd_Topics data) = Inr (cs_Topics s) \<and>
     load_partitions (cs_Brokers s) (cs_Topics s) [] (sd_Partitions data) = Inr (cs_Partitions s) \<and>
     check_topics (cs_Partitions s) (cs_Topics s) = None"
  unfolding fromSnapshotData_def guards sum.inject
  by (cases s) (simp only: controllerState.simps controllerState.ext_inject, blast)

lemma inv_fromSnapshotData:
  assumes "upper_law uni" and "fromSnapshotData uni data = Inr s"
  shows "controller_inv uni s"
proof -
  note f = assms(2) [unfolded fromSnapshotData_Inr]
  have b: "brokers_inv uni (cs_Brokers s)"
    by (rule load_brokers_inv [OF assms(1), of "[]" "sd_Brokers data"]) (use f in \<open>simp_all add: brokers_inv_def\<close>)
  have t: "topics_inv (cs_Topics s)"
    by (rule load_topics_inv [of "[]" "sd_Topics data"]) (use f in \<open>simp_all add: topics_inv_def\<close>)
  have p: "partitions_ok (cs_Brokers s) (cs_Topics s) (cs_Partitions s)"
    by (rule load_partitions_inv [of _ _ "[]" "sd_Partitions data"]) (use f in \<open>simp_all add: partitions_ok_def\<close>)
  have "contiguous (indices (cs_Partitions s) n)" if "map_of (cs_Topics s) n \<noteq> None" for n
  proof (rule topic_check_contiguous [OF _ p])
    have "n \<in> fst ` set (cs_Topics s)" using that by (simp only: map_of_eq_None_iff not_not)
    moreover have "check_topics (cs_Partitions s) (cs_Topics s) = None" using f by blast
    ultimately show "topic_check (cs_Partitions s) n = None" unfolding check_topics_None by (rule bspec [rotated])
  qed
  then show ?thesis
    unfolding controller_inv_def by (intro conjI b t allI impI) (use p in \<open>simp_all only: partitions_ok_def\<close>)
qed

text \<open>Loading entries with new keys appends them, in order.\<close>

lemma update_new: "map_of xs k = None \<Longrightarrow> AList.update k v xs = xs @ [(k, v)]"
  by (induction xs) (auto split: if_splits)

definition broker_entry :: "snapshotBroker \<Rightarrow> i32 \<times> BrokerInfo" where
  "broker_entry b = (sb_ID b, snapshot_broker b (sb_Endpoints b))"

definition snapshot_broker_ok :: "(gostring \<Rightarrow> gostring) \<Rightarrow> snapshotBroker \<Rightarrow> bool" where
  "snapshot_broker_ok uni b \<longleftrightarrow> 0 \<le> sint (sb_ID b) \<and> sb_IncarnationID b \<noteq> [] \<and> sb_BrokerEpoch b \<noteq> 0 \<and>
     endpoints_ok uni (sb_Endpoints b)"

lemma load_brokers_all:
  "list_all (snapshot_broker_ok uni) bs \<Longrightarrow> distinct (map sb_ID bs) \<Longrightarrow> \<forall>b\<in>set bs. map_of out (sb_ID b) = None \<Longrightarrow>
   load_brokers uni out bs = Inr (out @ map broker_entry bs)"
proof (induction bs arbitrary: out)
  case (Cons b bs)
  let ?out = "AList.update (sb_ID b) (snapshot_broker b (sb_Endpoints b)) out"
  have out: "?out = out @ [broker_entry b]" using Cons.prems(3) by (simp add: update_new broker_entry_def)
  have "load_brokers uni ?out bs = Inr (?out @ map broker_entry bs)"
    using Cons.prems by (intro Cons.IH) (auto simp: AList.update_conv image_iff)
  with out have rest: "load_brokers uni ?out bs = Inr (out @ map broker_entry (b # bs))" by simp
  from Cons.prems normalizeEndpoints_fixed rest show ?case
    unfolding load_brokers_Cons snapshot_broker_ok_def by auto
qed simp

definition topic_entry :: "snapshotTopic \<Rightarrow> gostring \<times> TopicState" where
  "topic_entry t = (st_Name t, \<lparr>ts_Name = st_Name t\<rparr>)"

lemma load_topics_all:
  "\<forall>t\<in>set ts. st_Name t \<noteq> [] \<and> map_of out (st_Name t) = None \<Longrightarrow> distinct (map st_Name ts) \<Longrightarrow>
   load_topics out ts = Inr (out @ map topic_entry ts)"
proof (induction ts arbitrary: out)
  case (Cons t ts)
  let ?out = "AList.update (st_Name t) \<lparr>ts_Name = st_Name t\<rparr> out"
  have "load_topics ?out ts = Inr (?out @ map topic_entry ts)"
    using Cons.prems by (intro Cons.IH) (auto simp: AList.update_conv image_iff)
  moreover have "?out = out @ [topic_entry t]" using Cons.prems by (simp add: update_new topic_entry_def)
  ultimately show ?case using Cons.prems unfolding load_topics_Cons by simp
qed simp

definition partition_entry :: "snapshotPartition \<Rightarrow> TopicPartitionKey \<times> PartitionState" where
  "partition_entry p = (snapshot_key p, snapshot_partition p)"

lemma load_partitions_all:
  "list_all (snapshot_ok bs ts) ps \<Longrightarrow> distinct (map snapshot_key ps) \<Longrightarrow>
   \<forall>p\<in>set ps. map_of out (snapshot_key p) = None \<Longrightarrow>
   load_partitions bs ts out ps = Inr (out @ map partition_entry ps)"
proof (induction ps arbitrary: out)
  case (Cons p ps)
  let ?out = "AList.update (snapshot_key p) (snapshot_partition p) out"
  have "load_partitions bs ts ?out ps = Inr (?out @ map partition_entry ps)"
    using Cons.prems by (intro Cons.IH) (auto simp: AList.update_conv image_iff)
  moreover have "?out = out @ [partition_entry p]" using Cons.prems by (simp add: update_new partition_entry_def)
  ultimately show ?case using Cons.prems unfolding load_partitions_Cons by simp
qed simp

lemma topic_check_accepts:
  assumes d: "distinct (map fst ps)" and c: "contiguous (indices ps topic)"
  shows "topic_check ps topic = None"
proof -
  from c obtain n where n: "0 < n" "n \<le> 2 ^ 31" and A: "indices ps topic = word_of_nat ` {..<n}"
    by (auto simp: contiguous_def)
  have "partition_count ps topic = card (indices ps topic)"
    using distinct_card [OF distinct_numbers [OF d, of topic]] by (simp add: set_numbers length_numbers)
  also have "\<dots> = n" using n by (simp add: A card_image inj_word_of_nat)
  finally have cnt: "partition_count ps topic = n" .
  have ne: "(word_of_nat n :: i32) \<noteq> 0" using n by (auto simp: word_of_nat_eq_0_iff dest: dvd_imp_le)
  have "list_all (\<lambda>i. i \<in> indices ps topic) (int32_range n)"
  proof (cases "n = 2 ^ 31")
    case True
    then have "int32_range n = []" by (simp add: int32_range_def)
    then show ?thesis by simp
  next
    case False
    with n have "n < 2 ^ (LENGTH(32) - 1)" by simp
    then have "sint (word_of_nat n :: i32) = int n" by (rule sint_word_of_nat)
    then show ?thesis by (auto simp: int32_range_def list_all_iff A)
  qed
  then show ?thesis unfolding topic_check_def cnt using ne by (simp add: indices_def)
qed

section \<open>Snapshots\<close>

text \<open>
  Sorting what was collected from a map and loading it again gives the same map.
\<close>

lemma reload:
  assumes "\<And>x. x \<in> set xs \<Longrightarrow> g (f x) = x" and d: "distinct (map fst xs)"
  shows "distinct (map fst (map g (sort_key h (map f xs))))" and "map_of (map g (sort_key h (map f xs))) = map_of xs"
proof -
  have set: "set (map g (sort_key h (map f xs))) = set xs"
    using assms(1) by (auto simp: image_iff intro: rev_image_eqI)
  have "map (fst \<circ> g) (map f xs) = map fst xs" using assms(1) by (simp add: comp_def)
  with d have "distinct (map (fst \<circ> g) (map f xs))" by (simp only:)
  then have "distinct (map (fst \<circ> g) (sort_key h (map f xs)))" by (simp only: distinct_sort_key)
  then show d': "distinct (map fst (map g (sort_key h (map f xs))))" by (simp only: map_map)
  show "map_of (map g (sort_key h (map f xs))) = map_of xs"
    using map_of_inject_set [OF d' d] set by (simp only:)
qed

definition from_broker :: "i32 \<times> BrokerInfo \<Rightarrow> snapshotBroker" where
  "from_broker = (\<lambda>(_, b). \<lparr>sb_ID = bi_ID b, sb_IncarnationID = bi_IncarnationID b, sb_BrokerEpoch = bi_BrokerEpoch b,
     sb_Endpoints = bi_Endpoints b, sb_Fenced = bi_Fenced b\<rparr>)"

definition from_topic :: "gostring \<times> TopicState \<Rightarrow> snapshotTopic" where
  "from_topic = (\<lambda>(name, _). \<lparr>st_Name = name\<rparr>)"

definition from_partition :: "TopicPartitionKey \<times> PartitionState \<Rightarrow> snapshotPartition" where
  "from_partition = (\<lambda>(key, p). \<lparr>sn_Topic = tk_Topic key, sn_Partition = tk_Partition key,
     sn_LeaderBrokerID = pt_LeaderBrokerID p, sn_LeaderEpoch = pt_LeaderEpoch p,
     sn_PartitionEpoch = pt_PartitionEpoch p, sn_Replicas = pt_Replicas p, sn_ISR = pt_ISR p\<rparr>)"

lemma toSnapshotData_parts:
  "sd_Version (toSnapshotData s) = CurrentSnapshotVersion"
  "sd_Brokers (toSnapshotData s) = sort_key (\<lambda>b. sint (sb_ID b)) (map from_broker (cs_Brokers s))"
  "sd_Topics (toSnapshotData s) = sort_key st_Name (map from_topic (cs_Topics s))"
  "sd_Partitions (toSnapshotData s) =
     sort_key (\<lambda>p. (sn_Topic p, sint (sn_Partition p))) (map from_partition (cs_Partitions s))"
  by (simp_all add: toSnapshotData_def from_broker_def from_topic_def from_partition_def)

lemma map_ofI: "distinct (map fst xs) \<Longrightarrow> (k, v) \<in> set xs \<Longrightarrow> map_of xs k = Some v"
  by (rule map_of_is_SomeI)

lemma inv_broker:
  assumes "brokers_inv uni bs" and "x \<in> set bs"
  shows "broker_ok uni (fst x) (snd x)"
  using assms map_ofI [of bs "fst x" "snd x"] unfolding brokers_inv_def prod.collapse by blast

lemma inv_topic:
  assumes "topics_inv ts" and "x \<in> set ts"
  shows "fst x \<noteq> [] \<and> ts_Name (snd x) = fst x"
  using assms map_ofI [of ts "fst x" "snd x"] unfolding topics_inv_def prod.collapse by blast

lemma broker_back: "broker_ok uni (fst x) (snd x) \<Longrightarrow> broker_entry (from_broker x) = x"
  by (cases x) (simp add: broker_entry_def from_broker_def snapshot_broker_def broker_ok_def)

lemma topic_back: "ts_Name (snd x) = fst x \<Longrightarrow> topic_entry (from_topic x) = x"
  by (cases x) (simp add: topic_entry_def from_topic_def)

lemma partition_back: "partition_entry (from_partition x) = x"
  by (cases x) (simp add: partition_entry_def from_partition_def snapshot_key_def snapshot_partition_def)

text \<open>Two states with the same maps, and the epochs a snapshot can carry.\<close>

definition same_maps :: "controllerState \<Rightarrow> controllerState \<Rightarrow> bool" where
  "same_maps s s' \<longleftrightarrow> map_of (cs_Brokers s') = map_of (cs_Brokers s) \<and> map_of (cs_Topics s') = map_of (cs_Topics s) \<and>
     map_of (cs_Partitions s') = map_of (cs_Partitions s)"

definition epochs_nonneg :: "controllerState \<Rightarrow> bool" where
  "epochs_nonneg s \<longleftrightarrow> list_all (\<lambda>(_, p). 0 \<le> sint (pt_LeaderEpoch p) \<and> 0 \<le> sint (pt_PartitionEpoch p)) (cs_Partitions s)"

lemma assignment_same: "map_of bs' = map_of bs \<Longrightarrow> assignment_ok bs' = assignment_ok bs"
  by (simp add: assignment_ok_def registered_def active_def fenced_or_unknown_def fun_eq_iff)

lemma snapshot_ok_from:
  assumes inv: "controller_inv uni s" and nn: "epochs_nonneg s" and z: "z \<in> set (cs_Partitions s)"
    and b: "map_of bs = map_of (cs_Brokers s)" and t: "map_of ts = map_of (cs_Topics s)"
  shows "snapshot_ok bs ts (from_partition z)"
proof -
  obtain k p where kp: "z = (k, p)" by fastforce
  have "map_of (cs_Partitions s) k = Some p"
    using inv z by (simp add: controller_inv_def kp)
  from inv_partition [OF inv this] have ok: "partition_ok (cs_Brokers s) (cs_Topics s) k p" .
  then obtain tt where "map_of (cs_Topics s) (tk_Topic k) = Some tt" by (auto simp: partition_ok_def)
  then have "tk_Topic k \<noteq> []" using inv by (auto simp: controller_inv_def topics_inv_def)
  moreover have "0 \<le> sint (pt_LeaderEpoch p) \<and> 0 \<le> sint (pt_PartitionEpoch p)"
    using nn z by (auto simp: epochs_nonneg_def kp list_all_iff)
  ultimately show ?thesis
    using ok by (simp add: snapshot_ok_def from_partition_def kp partition_ok_def assignment_same [OF b] t)
qed

lemma fromSnapshotData_toSnapshotData:
  assumes inv: "controller_inv uni s" and nn: "epochs_nonneg s"
  shows "\<exists>s'. fromSnapshotData uni (toSnapshotData s) = Inr s' \<and> same_maps s s'"
proof -
  let ?bs = "sd_Brokers (toSnapshotData s)" and ?ts = "sd_Topics (toSnapshotData s)"
    and ?ps = "sd_Partitions (toSnapshotData s)"
  from inv have bi: "brokers_inv uni (cs_Brokers s)" and ti: "topics_inv (cs_Topics s)"
    and d: "distinct (map fst (cs_Brokers s))" "distinct (map fst (cs_Topics s))" "distinct (map fst (cs_Partitions s))"
    by (simp_all add: controller_inv_def brokers_inv_def topics_inv_def)
  note rb = reload [of _ broker_entry from_broker, OF broker_back [OF inv_broker [OF bi]] d(1),
      of "\<lambda>b. sint (sb_ID b)", folded toSnapshotData_parts(2)]
  have te: "\<And>x. x \<in> set (cs_Topics s) \<Longrightarrow> topic_entry (from_topic x) = x"
    using topic_back inv_topic [OF ti] by blast
  note rt = reload [of _ topic_entry from_topic, OF te d(2), of st_Name, folded toSnapshotData_parts(3)]
  note rp = reload [of _ partition_entry from_partition, OF partition_back d(3),
      of "\<lambda>p. (sn_Topic p, sint (sn_Partition p))", folded toSnapshotData_parts(4)]
  have "list_all (snapshot_broker_ok uni) ?bs"
    using inv_broker [OF bi] by (auto simp: list_all_iff toSnapshotData_parts snapshot_broker_ok_def from_broker_def broker_ok_def)
  then have b: "load_brokers uni [] ?bs = Inr (map broker_entry ?bs)"
    using load_brokers_all [of uni ?bs "[]"] rb(1) by (simp add: broker_entry_def comp_def)
  have "\<forall>t\<in>set ?ts. st_Name t \<noteq> []"
    using inv_topic [OF ti] by (auto simp: toSnapshotData_parts from_topic_def)
  then have t: "load_topics [] ?ts = Inr (map topic_entry ?ts)"
    using load_topics_all [of ?ts "[]"] rt(1) by (simp add: topic_entry_def comp_def)
  have "list_all (snapshot_ok (map broker_entry ?bs) (map topic_entry ?ts)) ?ps"
    using snapshot_ok_from [OF inv nn _ rb(2) rt(2)] by (auto simp: list_all_iff toSnapshotData_parts)
  then have p: "load_partitions (map broker_entry ?bs) (map topic_entry ?ts) [] ?ps = Inr (map partition_entry ?ps)"
    using load_partitions_all [of "map broker_entry ?bs" "map topic_entry ?ts" ?ps "[]"] rp(1)
    by (simp add: partition_entry_def comp_def)
  have "check_topics (map partition_entry ?ps) (map topic_entry ?ts) = None"
    unfolding check_topics_None
  proof
    fix n assume "n \<in> fst ` set (map topic_entry ?ts)"
    then have "map_of (map topic_entry ?ts) n \<noteq> None" by (simp only: map_of_eq_None_iff not_not)
    then have "map_of (cs_Topics s) n \<noteq> None" by (simp only: rt(2) not_False_eq_True)
    then have "contiguous (indices (cs_Partitions s) n)" using inv unfolding controller_inv_def by blast
    then have "contiguous (indices (map partition_entry ?ps) n)" unfolding indices_def rp(2) .
    then show "topic_check (map partition_entry ?ps) n = None" by (rule topic_check_accepts [OF rp(1)])
  qed
  then have "fromSnapshotData uni (toSnapshotData s) =
      Inr \<lparr>cs_Brokers = map broker_entry ?bs, cs_Topics = map topic_entry ?ts, cs_Partitions = map partition_entry ?ps\<rparr>"
    using b t p unfolding fromSnapshotData_Inr by (simp add: toSnapshotData_parts(1))
  then show ?thesis using rb(2) rt(2) rp(2) by (intro exI conjI) (assumption, simp add: same_maps_def)
qed

lemma copy_map_append:
  "distinct (map fst (xs @ ys)) \<Longrightarrow> foldl (\<lambda>out (k, v). AList.update k v out) xs ys = xs @ ys"
proof (induction ys arbitrary: xs)
  case (Cons y ys)
  obtain k v where y: "y = (k, v)" by fastforce
  have "map_of xs k = None" using Cons.prems y by (auto simp: map_of_eq_None_iff)
  then show ?case using Cons.IH [of "xs @ [y]"] Cons.prems by (simp add: y update_new)
qed simp

lemma copy_map_same: "distinct (map fst m) \<Longrightarrow> copy_map m = m"
  using copy_map_append [of "[]" m] by (simp add: copy_map_def)

lemma deepCopy_same:
  "distinct (map fst (cs_Brokers s)) \<Longrightarrow> distinct (map fst (cs_Topics s)) \<Longrightarrow> distinct (map fst (cs_Partitions s)) \<Longrightarrow>
   deepCopy s = s"
  by (simp add: deepCopy_def copy_map_same)

lemma Persist_Restore:
  assumes "controller_inv uni s" and "epochs_nonneg s"
    and codec: "\<And>raw. js_put_snapshot js (toSnapshotData s) = Some raw \<Longrightarrow> js_snapshot js raw = Some (toSnapshotData s)"
    and raw: "Persist js (Snapshot s) sink = Inr raw"
  shows "\<exists>s'. Restore js uni s0 (Some raw) = (None, s') \<and> same_maps s s'"
proof -
  from assms(1) have "Snapshot s = s" by (simp add: Snapshot_def deepCopy_same controller_inv_def brokers_inv_def topics_inv_def)
  with raw have "js_put_snapshot js (toSnapshotData s) = Some raw"
    by (cases "js_put_snapshot js (toSnapshotData s)") (simp_all add: Persist_def Let_def split: if_splits)
  from codec [OF this] have "js_snapshot js raw = Some (toSnapshotData s)" .
  with fromSnapshotData_toSnapshotData [OF assms(1,2)] show ?thesis by (auto simp: Restore_def)
qed

lemma Restore_cases:
  "Restore js uni s snap = (err, s') \<Longrightarrow> (err \<noteq> None \<and> s' = s) \<or> (\<exists>data. err = None \<and> fromSnapshotData uni data = Inr s')"
  by (auto simp: Restore_def split: option.splits sum.splits)

section \<open>Reachable states\<close>

text \<open>The state machine starts empty, applies committed entries and may be restored from a snapshot.\<close>

inductive reachable :: "JsonCodec \<Rightarrow> (gostring \<Rightarrow> gostring) \<Rightarrow> controllerState \<Rightarrow> bool" for js uni where
  start: "reachable js uni newControllerState"
| apply_log: "reachable js uni s \<Longrightarrow> Apply js uni s log = (err, s') \<Longrightarrow> reachable js uni s'"
| restore: "reachable js uni s \<Longrightarrow> Restore js uni s snap = (err, s') \<Longrightarrow> reachable js uni s'"

lemma reachable_inv: "reachable js uni s \<Longrightarrow> upper_law uni \<Longrightarrow> controller_inv uni s"
proof (induction rule: reachable.induct)
  case (restore s snap err s')
  then show ?case using Restore_cases [OF restore.hyps(2)] inv_fromSnapshotData by blast
qed (auto intro: inv_new inv_Apply)

section \<open>Leadership\<close>

lemma one_leader_per_epoch:
  assumes "upper_law uni" and "controller_inv uni s" and "map_of (cs_Partitions s) k = Some p"
    and "length logs < 2 ^ 32" and "map_of (cs_Partitions (run js uni s logs)) k = Some q"
    and "pt_LeaderEpoch q = pt_LeaderEpoch p"
  shows "pt_LeaderBrokerID q = pt_LeaderBrokerID p"
proof -
  obtain n m where m: "m \<le> length logs" and em: "epochs_moved p q n m"
    using run_epochs [OF assms(1-3), of js logs] assms(5) by auto
  then have "n < 2 ^ 32" using assms(4) by (simp add: epochs_moved_def)
  with em assms(6) have "n = 0" using word_add_nat_same by (metis epochs_moved_def)
  with em show ?thesis by (simp add: epochs_moved_def)
qed

lemma same_partition_epoch:
  assumes "upper_law uni" and "controller_inv uni s" and "map_of (cs_Partitions s) k = Some p"
    and "length logs < 2 ^ 32" and "map_of (cs_Partitions (run js uni s logs)) k = Some q"
    and "pt_PartitionEpoch q = pt_PartitionEpoch p"
  shows "q = p"
proof -
  obtain n m where m: "m \<le> length logs" and em: "epochs_moved p q n m"
    using run_epochs [OF assms(1-3), of js logs] assms(5) by auto
  then have "m < 2 ^ 32" using assms(4) by simp
  with em assms(6) have "m = 0" using word_add_nat_same by (metis epochs_moved_def)
  with em show ?thesis by (simp add: epochs_moved_def)
qed

section \<open>Registrations of an unfenced broker\<close>

text \<open>No command fences a broker again, so an unfenced registration is never replaced.\<close>

lemma register_unfenced_same:
  assumes b: "map_of (cs_Brokers s) i = Some b" "\<not> bi_Fenced b" and r: "register_broker uni s cmd idx = (err, s')"
  shows "map_of (cs_Brokers s') i = Some b"
proof (cases "rb_ID cmd = i")
  case True
  then show ?thesis
    using b r by (cases "normalizeEndpoints uni (rb_Endpoints cmd)") (simp_all add: register_broker_def Let_def split: if_splits)
next
  case False
  with register_broker_effect [OF r] b show ?thesis by (auto simp: AList.update_conv)
qed

lemma unfence_unfenced_same:
  assumes b: "map_of (cs_Brokers s) i = Some b" "\<not> bi_Fenced b" and r: "unfence_broker s cmd = (err, s')"
  shows "map_of (cs_Brokers s') i = Some b"
  using unfence_broker_effect [OF r] b by (auto simp: AList.update_conv)

lemma Apply_unfenced_same:
  assumes b: "map_of (cs_Brokers s) i = Some b" "\<not> bi_Fenced b" and r: "Apply js uni s log = (err, s')"
  shows "map_of (cs_Brokers s') i = Some b"
proof -
  from Apply_cases [OF r] show ?thesis
  proof (elim disjE exE conjE)
    fix cmd assume "create_topic s cmd = (err, s')"
    from create_topic_effect [OF this] b show ?thesis by auto
  next
    fix cmd assume "update_partition s cmd = (err, s')"
    from update_partition_effect [OF this] b show ?thesis by auto
  qed (use b register_unfenced_same unfence_unfenced_same in blast)+
qed

lemma run_unfenced_same:
  "map_of (cs_Brokers s) i = Some b \<Longrightarrow> \<not> bi_Fenced b \<Longrightarrow> map_of (cs_Brokers (run js uni s logs)) i = Some b"
proof (induction logs arbitrary: s)
  case (Cons l logs)
  obtain err s1 where s1: "Apply js uni s (Some l) = (err, s1)" by fastforce
  from Cons.IH [OF Apply_unfenced_same [OF Cons.prems s1] Cons.prems(2)] s1 show ?case by (simp add: run_Cons)
qed (simp add: run_def)

lemma register_unfenced_refused:
  assumes b: "map_of (cs_Brokers s) i = Some b" "\<not> bi_Fenced b"
    and c: "rb_ID cmd = i" and inc: "rb_IncarnationID cmd \<noteq> bi_IncarnationID b"
  shows "\<exists>err. register_broker uni s cmd idx = (Some err, s)"
  using assms by (cases "normalizeEndpoints uni (rb_Endpoints cmd)") (simp_all add: register_broker_def Let_def)

text \<open>When an update is accepted, and what it does then.\<close>

lemma update_partition_accepts:
  "update_partition s cmd = (None, s') \<longleftrightarrow>
    (\<exists>c. map_of (cs_Partitions s) (update_key cmd) = Some c \<and>
      up_ExpectedPartitionEpoch cmd = pt_PartitionEpoch c \<and>
      assignment_ok (cs_Brokers s) (up_LeaderBrokerID cmd) (up_Replicas cmd) (up_ISR cmd) \<and>
      (up_LeaderBrokerID cmd = pt_LeaderBrokerID c \<or> up_LeaderBrokerID cmd \<in> set (pt_ISR c) \<or> up_AllowUncleanElection cmd) \<and>
      s' = s\<lparr>cs_Partitions := AList.update (update_key cmd)
        \<lparr>pt_LeaderBrokerID = up_LeaderBrokerID cmd,
         pt_LeaderEpoch = (if up_LeaderBrokerID cmd \<noteq> pt_LeaderBrokerID c then pt_LeaderEpoch c + 1 else pt_LeaderEpoch c),
         pt_PartitionEpoch = pt_PartitionEpoch c + 1, pt_Replicas = up_Replicas cmd, pt_ISR = up_ISR cmd\<rparr>
        (cs_Partitions s)\<rparr>)" (is "?L \<longleftrightarrow> ?R")
proof
  show "?L \<Longrightarrow> ?R" using update_partition_effect [of s cmd None s'] by simp
  assume ?R
  then obtain c where c: "map_of (cs_Partitions s) (update_key cmd) = Some c"
      "up_ExpectedPartitionEpoch cmd = pt_PartitionEpoch c"
    and v: "assignment_ok (cs_Brokers s) (up_LeaderBrokerID cmd) (up_Replicas cmd) (up_ISR cmd)"
    and l: "up_LeaderBrokerID cmd = pt_LeaderBrokerID c \<or> up_LeaderBrokerID cmd \<in> set (pt_ISR c) \<or> up_AllowUncleanElection cmd"
    and s': "s' = s\<lparr>cs_Partitions := AList.update (update_key cmd)
        \<lparr>pt_LeaderBrokerID = up_LeaderBrokerID cmd,
         pt_LeaderEpoch = (if up_LeaderBrokerID cmd \<noteq> pt_LeaderBrokerID c then pt_LeaderEpoch c + 1 else pt_LeaderEpoch c),
         pt_PartitionEpoch = pt_PartitionEpoch c + 1, pt_Replicas = up_Replicas cmd, pt_ISR = up_ISR cmd\<rparr>
        (cs_Partitions s)\<rparr>" by blast
  from v have "validatePartitionSpec (cs_Brokers s) (up_LeaderBrokerID cmd) (up_Replicas cmd) (up_ISR cmd) = None"
    by (simp only: validatePartitionSpec_None)
  with c l show ?L by (auto simp: update_partition_def update_key_def Let_def s')
qed

section \<open>Encoded commands\<close>

text \<open>
  The commands as operations of the state machine, and the law of \<open>encoding/json\<close> for one
  command: what was encoded for it is decoded to it.
\<close>

fun command_type :: "Payload \<Rightarrow> gostring" where
  "command_type (RegisterPayload _) = CommandRegisterBroker"
| "command_type (UnfencePayload _) = CommandUnfenceBroker"
| "command_type (CreatePayload _) = CommandCreateTopic"
| "command_type (UpdatePayload _) = CommandUpdatePartition"

fun perform :: "(gostring \<Rightarrow> gostring) \<Rightarrow> controllerState \<Rightarrow> u64 \<Rightarrow> Payload \<Rightarrow> FSMError option \<times> controllerState" where
  "perform uni s idx (RegisterPayload c) = register_broker uni s c idx"
| "perform uni s idx (UnfencePayload c) = unfence_broker s c"
| "perform uni s idx (CreatePayload c) = create_topic s c"
| "perform uni s idx (UpdatePayload c) = update_partition s c"

fun json_payload :: "JsonCodec \<Rightarrow> Payload \<Rightarrow> bytes \<Rightarrow> bool" where
  "json_payload js (RegisterPayload c) body \<longleftrightarrow> js_register js body = Some c"
| "json_payload js (UnfencePayload c) body \<longleftrightarrow> js_unfence js body = Some c"
| "json_payload js (CreatePayload c) body \<longleftrightarrow> js_create js body = Some c"
| "json_payload js (UpdatePayload c) body \<longleftrightarrow> js_update js body = Some c"

definition json_law :: "JsonCodec \<Rightarrow> Payload \<Rightarrow> bool" where
  "json_law js c \<longleftrightarrow>
     (\<forall>body. js_put_payload js c = Some body \<longrightarrow> json_payload js c body \<and>
       (let env = \<lparr>ce_Version = CommandEnvelopeVersion1, ce_Type = command_type c, ce_Payload = body\<rparr> in
        \<forall>out. js_put_envelope js env = Some out \<longrightarrow> js_envelope js out = Some env))"

lemma command_types_distinct:
  "CommandRegisterBroker \<noteq> CommandUnfenceBroker"
  "CommandRegisterBroker \<noteq> CommandCreateTopic"
  "CommandRegisterBroker \<noteq> CommandUpdatePartition"
  "CommandUnfenceBroker \<noteq> CommandRegisterBroker"
  "CommandUnfenceBroker \<noteq> CommandCreateTopic"
  "CommandUnfenceBroker \<noteq> CommandUpdatePartition"
  "CommandCreateTopic \<noteq> CommandRegisterBroker"
  "CommandCreateTopic \<noteq> CommandUnfenceBroker"
  "CommandCreateTopic \<noteq> CommandUpdatePartition"
  "CommandUpdatePartition \<noteq> CommandRegisterBroker"
  "CommandUpdatePartition \<noteq> CommandUnfenceBroker"
  "CommandUpdatePartition \<noteq> CommandCreateTopic"
  by (simp_all add: CommandRegisterBroker_def CommandUnfenceBroker_def CommandCreateTopic_def CommandUpdatePartition_def gostr_def)

lemma Apply_encoded:
  assumes "json_law js c" and "EncodeCommand js (command_type c) c = Inr data"
  shows "Apply js uni s (Some \<lparr>rl_Index = idx, rl_Data = data\<rparr>) = perform uni s idx c"
proof -
  obtain body where body: "js_put_payload js c = Some body" and
    out: "js_put_envelope js \<lparr>ce_Version = CommandEnvelopeVersion1, ce_Type = command_type c, ce_Payload = body\<rparr> = Some data"
    using assms(2) by (auto simp: EncodeCommand_def split: option.splits)
  with assms(1) have "json_payload js c body"
    and "js_envelope js data = Some \<lparr>ce_Version = CommandEnvelopeVersion1, ce_Type = command_type c, ce_Payload = body\<rparr>"
    by (auto simp: json_law_def Let_def)
  then show ?thesis
    by (cases c) (simp_all add: command_types_distinct Apply_def applyRegisterBroker_def applyUnfenceBroker_def applyCreateTopic_def applyUpdatePartition_def)
qed

section \<open>Queries\<close>

definition metadata_key :: "PartitionMetadata \<Rightarrow> gostring \<times> int" where
  "metadata_key m = (pm_Topic m, sint (pm_Partition m))"

lemma PartitionsForBroker_exact:
  assumes "distinct (map fst (cs_Partitions s))"
  shows "m \<in> set (PartitionsForBroker s b) \<longleftrightarrow>
     GetPartitionMetadata s (pm_Topic m) (pm_Partition m) = Some m \<and> b \<in> set (pm_Replicas m)"
proof -
  have key: "\<lparr>tk_Topic = pm_Topic m, tk_Partition = pm_Partition m\<rparr> = k" if "m = partitionMetadata k p" for k p
    using that by (cases k) (simp add: partitionMetadata_def)
  have "m \<in> set (PartitionsForBroker s b) \<longleftrightarrow>
      (\<exists>k p. map_of (cs_Partitions s) k = Some p \<and> b \<in> set (pt_Replicas p) \<and> m = partitionMetadata k p)"
    unfolding PartitionsForBroker_def sortPartitionMetadata_def using map_of_eq_Some_iff [OF assms]
    by (auto simp: image_iff)
  also have "\<dots> \<longleftrightarrow> (\<exists>p. map_of (cs_Partitions s) \<lparr>tk_Topic = pm_Topic m, tk_Partition = pm_Partition m\<rparr> = Some p \<and>
      b \<in> set (pt_Replicas p) \<and> m = partitionMetadata \<lparr>tk_Topic = pm_Topic m, tk_Partition = pm_Partition m\<rparr> p)"
    by (rule iffI) (use key in \<open>metis\<close>, blast)
  also have "\<dots> \<longleftrightarrow> GetPartitionMetadata s (pm_Topic m) (pm_Partition m) = Some m \<and> b \<in> set (pm_Replicas m)"
    by (simp add: GetPartitionMetadata_def Let_def) (metis PartitionMetadata.select_convs(6) partitionMetadata_def)
  finally show ?thesis .
qed

lemma PartitionsForBroker_sorted: "sorted (map metadata_key (PartitionsForBroker s b))"
  by (simp add: PartitionsForBroker_def sortPartitionMetadata_def metadata_key_def [abs_def])

end
