(* ===== verification/Files.thy ===== *)
theory Files
  imports Prelude
begin

text \<open>
  Files as the storage layer uses them: the content is a list of bytes, read and written at a
  position, and cut or extended by \<open>Truncate\<close>.  A read that would pass the end of the file
  reports an error (\<open>io.EOF\<close>), as does a negative position.
\<close>

definition ReadAt :: "bytes \<Rightarrow> int \<Rightarrow> nat \<Rightarrow> bytes option" where
  "ReadAt file pos n =
     (if pos < 0 then None
      else if n = 0 then Some []
      else if pos + int n \<le> int (length file) then Some (take n (drop (nat pos) file)) else None)"

definition FileTruncate :: "bytes \<Rightarrow> nat \<Rightarrow> bytes" where
  "FileTruncate file n = take n file @ replicate (n - length file) 0"

definition WriteAt :: "bytes \<Rightarrow> nat \<Rightarrow> bytes \<Rightarrow> bytes" where
  "WriteAt file pos bs =
     take pos file @ replicate (pos - length file) 0 @ bs @ drop (pos + length bs) file"

text \<open>Overwriting a part of a buffer: \<open>PutUint32(buf[i:i+4], v)\<close> and the like.\<close>

definition blit :: "bytes \<Rightarrow> nat \<Rightarrow> bytes \<Rightarrow> bytes" where
  "blit buf i bs = take i buf @ bs @ drop (i + length bs) buf"

lemma ReadAt_mid:
  "n = length xs \<Longrightarrow> pos = int (length pre) \<Longrightarrow> ReadAt (pre @ xs @ post) pos n = Some xs"
  by (auto simp: ReadAt_def)

lemma ReadAt_prefix:
  assumes "n \<le> length xs" and "pos = int (length pre)"
  shows "ReadAt (pre @ xs @ post) pos n = Some (take n xs)"
  using ReadAt_mid [of n "take n xs" pos pre "drop n xs @ post"] assms
  by (simp flip: append_assoc [of "take n xs"])

lemma ReadAt_past: "0 < n \<Longrightarrow> int (length file) < pos + int n \<Longrightarrow> ReadAt file pos n = None"
  by (simp add: ReadAt_def)

lemma ReadAt_Some_iff:
  "0 < n \<Longrightarrow> ReadAt file pos n = Some bs \<longleftrightarrow>
     0 \<le> pos \<and> pos + int n \<le> int (length file) \<and> bs = take n (drop (nat pos) file)"
  by (auto simp: ReadAt_def)

lemma length_ReadAt: "ReadAt file pos n = Some bs \<Longrightarrow> length bs = n"
  by (auto simp: ReadAt_def split: if_splits)

lemma FileTruncate_take [simp]: "n \<le> length file \<Longrightarrow> FileTruncate file n = take n file"
  by (simp add: FileTruncate_def)

lemma length_FileTruncate [simp]: "length (FileTruncate file n) = n"
  by (simp add: FileTruncate_def)

lemma take_WriteAt:
  "pos \<le> length file \<Longrightarrow> take (pos + length bs) (WriteAt file pos bs) = take pos file @ bs"
  by (simp add: WriteAt_def)

lemma take_WriteAt_le: "m \<le> pos \<Longrightarrow> pos \<le> length file \<Longrightarrow> take m (WriteAt file pos bs) = take m file"
  by (simp add: WriteAt_def min_def)

lemma length_WriteAt: "pos \<le> length file \<Longrightarrow> length (WriteAt file pos bs) = max (length file) (pos + length bs)"
  by (simp add: WriteAt_def max_def)

lemma length_blit [simp]: "i + length bs \<le> length buf \<Longrightarrow> length (blit buf i bs) = length buf"
  by (simp add: blit_def)

lemma blit_mid: "length old = length new \<Longrightarrow> blit (pre @ old @ post) (length pre) new = pre @ new @ post"
  by (simp add: blit_def)

end
