(* ===== verification/BatchCodec.thy ===== *)
theory BatchCodec
  imports RawBatch
begin

text \<open>
  \<open>segment.go\<close>, the encoder and decoder of the internal append and read path.  The encoder writes
  the same bytes as the protocol encoder of \<open>record_batch.go\<close>, the size computed beforehand is
  the size written, what is written is accepted by \<open>validateRawBatch\<close>, and \<open>decodeBatch\<close> reads
  it back.

  A result of \<open>decodeBatch\<close> is \<^const>\<open>None\<close> for a panic, and an error or a batch otherwise;
  \<open>andThen\<close> sequences such results.
\<close>

section \<open>Writing\<close>

definition zigzag_shift :: "i64 \<Rightarrow> u64" where
  "zigzag_shift v = push_bit 1 v XOR signed_drop_bit 63 v"

function varint_size_loop :: "u64 \<Rightarrow> int \<Rightarrow> int" where
  "varint_size_loop u n = (if u \<ge> 0x80 then varint_size_loop (drop_bit 7 u) (n + 1) else n)"
  by pat_completeness auto
termination
  by (relation "measure (\<lambda>(u, _). unat u)") (auto simp: unat_drop7 word_le_nat_alt)

declare varint_size_loop.simps [simp del]

definition varintSize :: "i64 \<Rightarrow> int" where
  "varintSize v = varint_size_loop (zigzag_shift v) 1"

definition go_len :: "bytes option \<Rightarrow> int" where
  "go_len f = (case f of None \<Rightarrow> 0 | Some b \<Rightarrow> int (length b))"

definition record_size :: "i64 \<Rightarrow> nat \<Rightarrow> Message \<Rightarrow> int" where
  "record_size firstTimestamp i msg =
     (let tsDelta = m_Timestamp msg - firstTimestamp;
          bodySize = 1 + varintSize tsDelta + varintSize (word_of_nat i) + 1 + go_len (m_Key msg);
          bodySize = (case m_Key msg of
              None \<Rightarrow> bodySize - 1 + varintSize (- 1)
            | Some k \<Rightarrow> bodySize + (varintSize (word_of_nat (length k)) - 1));
          bodySize = (case m_Value msg of
              None \<Rightarrow> bodySize + varintSize (- 1)
            | Some v \<Rightarrow> bodySize + (varintSize (word_of_nat (length v)) + int (length v)));
          bodySize = bodySize + 1
      in varintSize (word_of_int bodySize) + bodySize)"

definition encodedBatchSize :: "Batch \<Rightarrow> int" where
  "encodedBatchSize batch =
     foldl (\<lambda>total (i, msg). total + record_size (b_FirstTimestamp batch) i msg)
       (int recordBatchOverhead) (enumerate 0 (b_Messages batch))"

definition append_field :: "bytes \<Rightarrow> bytes option \<Rightarrow> bytes" where
  "append_field body f =
     (case f of None \<Rightarrow> body @ put_varint (- 1) | Some b \<Rightarrow> body @ put_varint (word_of_nat (length b)) @ b)"

definition appendRecord :: "bytes \<Rightarrow> Message \<Rightarrow> i64 \<Rightarrow> i64 \<Rightarrow> bytes" where
  "appendRecord dst msg offsetDelta baseTimestamp =
     (let tsDelta = m_Timestamp msg - baseTimestamp;
          body = [0];
          body = body @ put_varint tsDelta;
          body = body @ put_varint offsetDelta;
          body = append_field body (m_Key msg);
          body = append_field body (m_Value msg);
          body = body @ put_varint 0;
          dst = dst @ put_varint (word_of_nat (length body))
      in dst @ body)"

definition encodeBatch :: "Batch \<Rightarrow> i32 \<Rightarrow> bytes" where
  "encodeBatch batch leaderEpoch =
     (let recBuf = foldl (\<lambda>buf (i, msg). appendRecord buf msg (word_of_nat i) (b_FirstTimestamp batch))
            [] (enumerate 0 (b_Messages batch));
          crcBody = be16 (b_Attributes batch);
          crcBody = crcBody @ be32 (b_LastOffsetDelta batch);
          crcBody = crcBody @ be64 (b_FirstTimestamp batch);
          crcBody = crcBody @ be64 (b_MaxTimestamp batch);
          crcBody = crcBody @ be64 0xFFFFFFFFFFFFFFFF;
          crcBody = crcBody @ be16 0xFFFF;
          crcBody = crcBody @ be32 0xFFFFFFFF;
          crcBody = crcBody @ be32 (word_of_nat (length (b_Messages batch)));
          crcBody = crcBody @ recBuf;
          checksum = crc32c crcBody;
          batchLength = 4 + 1 + 4 + length crcBody
      in be64 (b_FirstOffset batch) @ be32 (word_of_nat batchLength) @ be32 leaderEpoch @ [2] @
         be32 checksum @ crcBody)"

lemma append_field_bytes: "append_field body f = body @ field_bytes f"
  by (simp add: append_field_def field_bytes_def split: option.split)

lemma appendRecord_bytes: "appendRecord dst m (word_of_nat i) ts = dst @ record_bytes ts (i, m)"
  by (simp add: appendRecord_def record_bytes_def record_body_def append_field_bytes Let_def add.assoc)

lemma foldl_appendRecord:
  "foldl (\<lambda>buf (i, msg). appendRecord buf msg (word_of_nat i) ts) buf xs = buf @ concat (map (record_bytes ts) xs)"
  by (induction xs arbitrary: buf) (auto simp: appendRecord_bytes)

lemma ones: "(- 1 :: u64) = 0xFFFFFFFFFFFFFFFF" "(- 1 :: u16) = 0xFFFF" "(- 1 :: u32) = 0xFFFFFFFF"
  by simp_all

lemma encodeBatch_eq: "encodeBatch b epoch = EncodeRecordBatch b epoch"
  by (simp add: encodeBatch_def EncodeRecordBatch_bytes batch_prefix_def batch_body_def batch_records_def
      foldl_appendRecord Let_def ones)

section \<open>Sizes\<close>

lemma zigzag_shift_eq: "zigzag_shift v = zigzag v"
proof (rule bit_word_eqI)
  fix n assume n: "n < LENGTH(64)"
  then have s: "bit (signed_drop_bit 63 v) n = bit v 63"
    by (cases "n = 0") (simp_all add: bit_signed_drop_bit_iff)
  from n show "bit (zigzag_shift v) n = bit (zigzag v) n"
    unfolding zigzag_shift_def bit_zigzag bit_xor_iff s bit_push_bit_iff by auto
qed

lemma varint_size_loop_length: "varint_size_loop u n = n - 1 + int (length (put_uvarint u))"
proof (induction u n rule: varint_size_loop.induct)
  case (1 u n)
  show ?case
  proof (cases "u \<ge> 0x80")
    case True
    then have "varint_size_loop u n = varint_size_loop (drop_bit 7 u) (n + 1)"
      by (subst varint_size_loop.simps) (simp only: if_True)
    also have "\<dots> = n + 1 - 1 + int (length (put_uvarint (drop_bit 7 u)))" by (rule "1.IH" [OF True])
    finally show ?thesis by (simp add: put_uvarint_more [OF True])
  next
    case False
    then have "varint_size_loop u n = n" by (subst varint_size_loop.simps) (simp only: if_False)
    then show ?thesis by (simp add: put_uvarint_last [OF False])
  qed
qed

lemma varintSize_length: "varintSize v = int (length (put_varint v))"
  by (simp add: varintSize_def varint_size_loop_length zigzag_shift_eq put_varint_def)

lemma length_put_varint_0: "length (put_varint 0) = 1"
  by (simp add: put_varint_def zigzag_def put_uvarint_last)

lemma record_size_length: "record_size ts i m = int (length (record_bytes ts (i, m)))"
proof -
  let ?n = "length (record_body ts (i, m))"
  have "record_size ts i m = varintSize (word_of_int (int ?n)) + int ?n"
    by (cases "m_Key m"; cases "m_Value m")
      (simp_all add: record_size_def record_body_def field_bytes_def go_len_def varintSize_length
        length_put_varint_0 Let_def del: of_nat_add of_int_of_nat_eq, simp_all add: add_ac)
  then show ?thesis by (simp add: record_bytes_def varintSize_length)
qed

lemma foldl_sum: "foldl (\<lambda>total x. total + f x) (a :: int) xs = a + sum_list (map f xs)"
  by (induction xs arbitrary: a) (simp_all add: add.assoc)

lemma length_concat_int: "int (length (concat (map f xs))) = sum_list (map (\<lambda>x. int (length (f x))) xs)"
  by (induction xs) simp_all

lemma encodedBatchSize_length: "encodedBatchSize b = int (length (encodeBatch b epoch))"
proof -
  have "encodedBatchSize b = 61 + int (length (batch_records b))"
    by (simp add: encodedBatchSize_def case_prod_beta' foldl_sum recordBatchOverhead_def batch_records_def
        length_concat_int record_size_length)
  then show ?thesis
    by (simp add: encodeBatch_eq length_EncodeRecordBatch batch_body_def)
qed

section \<open>Reading\<close>

definition andThen :: "('e + 'a) option \<Rightarrow> ('a \<Rightarrow> ('e + 'b) option) \<Rightarrow> ('e + 'b) option" where
  "andThen x f = (case x of None \<Rightarrow> None | Some (Inl e) \<Rightarrow> Some (Inl e) | Some (Inr a) \<Rightarrow> f a)"

lemma andThen_simps [simp]:
  "andThen None f = None" "andThen (Some (Inl e)) f = Some (Inl e)" "andThen (Some (Inr a)) f = f a"
  by (simp_all add: andThen_def)

text \<open>\<open>v, n := binary.Varint(data[pos:]); if n <= 0 { return error }; pos += n\<close>\<close>

definition varint_at :: "bytes \<Rightarrow> int \<Rightarrow> (LogError + i64 \<times> int) option" where
  "varint_at data pos =
     (case go_slice_from data pos of
        None \<Rightarrow> None
      | Some rest \<Rightarrow> let (v, n) = varint rest in
          if n \<le> 0 then Some (Inl OtherError) else Some (Inr (v, wrap64 (pos + n))))"

definition field_at :: "bytes \<Rightarrow> int \<Rightarrow> int \<Rightarrow> (LogError + bytes option \<times> int) option" where
  "field_at data totalSize pos =
     andThen (varint_at data pos) (\<lambda>(n, pos).
       if sint n \<ge> 0
       then let stop = wrap64 (pos + sint n) in
         if stop > totalSize then Some (Inl OtherError)
         else (case go_slice data pos stop of None \<Rightarrow> None | Some b \<Rightarrow> Some (Inr (Some b, stop)))
       else Some (Inr (None, pos)))"

fun skip_headers :: "nat \<Rightarrow> bytes \<Rightarrow> int \<Rightarrow> (LogError + int) option" where
  "skip_headers 0 data pos = Some (Inr pos)"
| "skip_headers (Suc h) data pos =
     andThen (varint_at data pos) (\<lambda>(hkLen, pos).
       let pos = (if sint hkLen > 0 then wrap64 (pos + sint hkLen) else pos) in
       andThen (varint_at data pos) (\<lambda>(hvLen, pos).
         let pos = (if sint hvLen > 0 then wrap64 (pos + sint hvLen) else pos) in
         skip_headers h data pos))"

definition record_at :: "bytes \<Rightarrow> int \<Rightarrow> i64 \<Rightarrow> int \<Rightarrow> (LogError + Message \<times> int) option" where
  "record_at data totalSize firstTimestamp pos =
     (if pos \<ge> totalSize then Some (Inl OtherError)
      else andThen (varint_at data pos) (\<lambda>(recLen, pos).
        if wrap64 (pos + sint recLen) > totalSize then Some (Inl OtherError)
        else if pos \<ge> totalSize then Some (Inl OtherError)
        else let pos = wrap64 (pos + 1) in
        andThen (varint_at data pos) (\<lambda>(tsDelta, pos).
        andThen (varint_at data pos) (\<lambda>(_, pos).
        andThen (field_at data totalSize pos) (\<lambda>(key, pos).
        andThen (field_at data totalSize pos) (\<lambda>(val, pos).
        andThen (varint_at data pos) (\<lambda>(hdrCount, pos).
        andThen (skip_headers (nat (sint hdrCount)) data pos) (\<lambda>pos.
          Some (Inr (\<lparr>m_Key = key, m_Value = val, m_Timestamp = firstTimestamp + tsDelta\<rparr>, pos))))))))))"

fun records_at :: "nat \<Rightarrow> bytes \<Rightarrow> int \<Rightarrow> i64 \<Rightarrow> int \<Rightarrow> (LogError + Message list) option" where
  "records_at 0 data totalSize ts pos = Some (Inr [])"
| "records_at (Suc n) data totalSize ts pos =
     andThen (record_at data totalSize ts pos) (\<lambda>(m, pos).
     andThen (records_at n data totalSize ts pos) (\<lambda>ms. Some (Inr (m # ms))))"

definition decodeBatch :: "bytes \<Rightarrow> (LogError + Batch) option" where
  "decodeBatch data =
     (if length data < recordBatchOverhead then Some (Inl OtherError)
      else let totalSize = 12 + uint (hdr_len data) in
        if int (length data) < totalSize then Some (Inl OtherError)
        else if data ! 16 \<noteq> 2 then Some (Inl OtherError)
        else (case go_slice data 21 totalSize of
            None \<Rightarrow> None
          | Some body \<Rightarrow>
              if crc32c body \<noteq> hdr_crc data then Some (Inl OtherError)
              else let ts = get64 (drop 27 data) in
                andThen (records_at (unat (hdr_count data)) data totalSize ts 61) (\<lambda>messages.
                  Some (Inr \<lparr>b_FirstOffset = hdr_base data, b_Attributes = get16 (drop 21 data),
                    b_FirstTimestamp = ts, b_MaxTimestamp = get64 (drop 35 data),
                    b_LastOffsetDelta = hdr_lod data, b_Messages = messages\<rparr>))))"

section \<open>Reading back\<close>

lemma varint_at_put:
  assumes "fits (pre @ put_varint v @ post)" and "pos = int (length pre)"
  shows "varint_at (pre @ put_varint v @ post) pos = Some (Inr (v, int (length (pre @ put_varint v))))"
proof -
  have "0 < length (put_varint v)" by (simp only: length_greater_0_conv put_varint_not_Nil simp_thms)
  moreover have "wrap64 (int (length pre) + int (length (put_varint v))) = int (length pre) + int (length (put_varint v))"
    using assms by (intro wrap64_id) (simp_all add: fits_def)
  ultimately show ?thesis using assms(2) by (simp add: varint_at_def)
qed

lemma field_at_put:
  assumes f: "fits (pre @ field_bytes x @ post)" and pos: "pos = int (length pre)"
    and t: "int (length (pre @ field_bytes x)) \<le> totalSize"
  shows "field_at (pre @ field_bytes x @ post) totalSize pos = Some (Inr (x, int (length (pre @ field_bytes x))))"
proof (cases x)
  case None
  then show ?thesis using f pos by (simp add: field_at_def field_bytes_def varint_at_put)
next
  case (Some b)
  let ?n = "put_varint (word_of_nat (length b))"
  have f': "fits (pre @ ?n @ b @ post)" using f Some by (simp add: field_bytes_def)
  then have "length b < 2 ^ 62" by (simp add: fits_def)
  then have s: "sint (word_of_nat (length b) :: i64) = int (length b)" by (simp add: sint_word_of_nat)
  have w: "wrap64 (int (length (pre @ ?n)) + int (length b)) = int (length (pre @ ?n)) + int (length b)"
    using f' by (intro wrap64_id) (simp_all add: fits_def)
  have sl: "go_slice ((pre @ ?n) @ b @ post) (int (length (pre @ ?n))) (int (length (pre @ ?n)) + int (length b)) = Some b"
    by (rule go_slice_mid) simp
  show ?thesis
    using Some t pos w sl varint_at_put [OF f' refl] s by (simp add: field_at_def field_bytes_def Let_def add.assoc)
qed

lemma record_at_put:
  assumes f: "fits (pre @ record_bytes ts (i, m) @ post)" and pos: "pos = int (length pre)"
    and t: "int (length (pre @ record_bytes ts (i, m))) \<le> totalSize"
  shows "record_at (pre @ record_bytes ts (i, m) @ post) totalSize ts pos =
    Some (Inr (m, int (length (pre @ record_bytes ts (i, m)))))"
proof -
  let ?L = "put_varint (word_of_nat (length (record_body ts (i, m))))"
  let ?T = "put_varint (m_Timestamp m - ts)" and ?O = "put_varint (word_of_nat i)"
  let ?K = "field_bytes (m_Key m)" and ?V = "field_bytes (m_Value m)" and ?H = "put_varint 0"
  let ?data = "pre @ record_bytes ts (i, m) @ post"
  have body: "record_body ts (i, m) = 0 # ?T @ ?O @ ?K @ ?V @ ?H" by (simp add: record_body_def)
  have data: "?data = pre @ ?L @ [0] @ ?T @ ?O @ ?K @ ?V @ ?H @ post" by (simp add: record_bytes_def body)
  have fd: "fits ?data" by (rule f)
  have len: "length (record_body ts (i, m)) < 2 ^ 62" using f by (simp add: record_bytes_def fits_def)
  then have s: "sint (word_of_nat (length (record_body ts (i, m))) :: i64) = int (length (record_body ts (i, m)))"
    by (simp add: sint_word_of_nat)
  have v1: "varint_at ?data (int (length pre)) = Some (Inr (word_of_nat (length (record_body ts (i, m))), int (length (pre @ ?L))))"
    using varint_at_put [of pre "word_of_nat (length (record_body ts (i, m)))"] fd unfolding data by simp
  have v2: "varint_at ?data (int (length (pre @ ?L @ [0]))) = Some (Inr (m_Timestamp m - ts, int (length (pre @ ?L @ [0] @ ?T))))"
    using varint_at_put [of "pre @ ?L @ [0]" "m_Timestamp m - ts"] fd unfolding data by simp
  have v3: "varint_at ?data (int (length (pre @ ?L @ [0] @ ?T))) = Some (Inr (word_of_nat i, int (length (pre @ ?L @ [0] @ ?T @ ?O))))"
    using varint_at_put [of "pre @ ?L @ [0] @ ?T" "word_of_nat i"] fd unfolding data by simp
  have v4: "field_at ?data totalSize (int (length (pre @ ?L @ [0] @ ?T @ ?O))) =
      Some (Inr (m_Key m, int (length (pre @ ?L @ [0] @ ?T @ ?O @ ?K))))"
    using field_at_put [of "pre @ ?L @ [0] @ ?T @ ?O" "m_Key m" "?V @ ?H @ post" _ totalSize] fd t
    unfolding data by (simp add: record_bytes_def body)
  have v5: "field_at ?data totalSize (int (length (pre @ ?L @ [0] @ ?T @ ?O @ ?K))) =
      Some (Inr (m_Value m, int (length (pre @ ?L @ [0] @ ?T @ ?O @ ?K @ ?V))))"
    using field_at_put [of "pre @ ?L @ [0] @ ?T @ ?O @ ?K" "m_Value m" "?H @ post" _ totalSize] fd t
    unfolding data by (simp add: record_bytes_def body)
  have v6: "varint_at ?data (int (length (pre @ ?L @ [0] @ ?T @ ?O @ ?K @ ?V))) =
      Some (Inr (0, int (length (pre @ ?L @ [0] @ ?T @ ?O @ ?K @ ?V @ ?H))))"
    using varint_at_put [of "pre @ ?L @ [0] @ ?T @ ?O @ ?K @ ?V" 0] fd unfolding data by simp
  have w: "wrap64 (int (length (pre @ ?L)) + int (length (record_body ts (i, m)))) =
      int (length (pre @ ?L)) + int (length (record_body ts (i, m)))"
    "wrap64 (int (length (pre @ ?L)) + 1) = int (length (pre @ ?L @ [0]))"
    using fd by (auto intro!: wrap64_id simp: fits_def data body)
  have b1: "\<not> int (length pre) \<ge> totalSize" "\<not> int (length (pre @ ?L)) \<ge> totalSize"
    "\<not> int (length (pre @ ?L)) + int (length (record_body ts (i, m))) > totalSize"
    using t by (simp_all add: record_bytes_def body)
  have fin: "int (length (pre @ ?L @ [0] @ ?T @ ?O @ ?K @ ?V @ ?H)) = int (length (pre @ record_bytes ts (i, m)))"
    by (simp add: record_bytes_def body)
  show ?thesis
    unfolding record_at_def pos if_not_P [OF b1(1)] v1 andThen_simps prod.case s w(1) if_not_P [OF b1(3)] if_not_P [OF b1(2)]
      Let_def w(2) v2 v3 v4 v5 v6 fin by simp
qed

lemma records_at_put:
  assumes "fits (pre @ concat (map (record_bytes ts) xs) @ post)"
    and "int (length (pre @ concat (map (record_bytes ts) xs))) \<le> totalSize"
  shows "records_at (length xs) (pre @ concat (map (record_bytes ts) xs) @ post) totalSize ts (int (length pre)) =
    Some (Inr (map snd xs))"
  using assms
proof (induction xs arbitrary: pre)
  case (Cons x xs)
  obtain i m where x: "x = (i, m)" by fastforce
  let ?R = "concat (map (record_bytes ts) xs)"
  have "record_at (pre @ record_bytes ts (i, m) @ ?R @ post) totalSize ts (int (length pre)) =
      Some (Inr (m, int (length (pre @ record_bytes ts (i, m)))))"
    by (rule record_at_put) (use Cons.prems x in simp_all)
  moreover have "records_at (length xs) ((pre @ record_bytes ts (i, m)) @ ?R @ post) totalSize ts
      (int (length (pre @ record_bytes ts (i, m)))) = Some (Inr (map snd xs))"
    by (rule Cons.IH) (use Cons.prems x in simp_all)
  ultimately show ?case using x by simp
qed simp

lemma hdr_encoded:
  "hdr_base (encodeBatch b epoch) = b_FirstOffset b" "hdr_epoch (encodeBatch b epoch) = epoch"
  "hdr_len (encodeBatch b epoch) = word_of_nat (9 + length (batch_body b))"
  "encodeBatch b epoch ! 16 = 2" "hdr_crc (encodeBatch b epoch) = crc32c (batch_body b)"
  "drop 21 (encodeBatch b epoch) = batch_body b"
  "hdr_lod (encodeBatch b epoch) = b_LastOffsetDelta b"
  "hdr_count (encodeBatch b epoch) = word_of_nat (length (b_Messages b))"
  "get16 (batch_body b) = b_Attributes b"
  "get64 (drop 27 (encodeBatch b epoch)) = b_FirstTimestamp b"
  "get64 (drop 35 (encodeBatch b epoch)) = b_MaxTimestamp b"
  by (simp_all add: encodeBatch_eq EncodeRecordBatch_bytes batch_prefix_def hdr_base_def hdr_epoch_def hdr_len_def
      hdr_crc_def hdr_lod_def hdr_count_def nth_append batch_body_def)

lemma length_encodeBatch: "length (encodeBatch b epoch) = 21 + length (batch_body b)"
  by (simp add: encodeBatch_eq length_EncodeRecordBatch)

lemma length_batch_body: "length (batch_body b) = 40 + length (batch_records b)"
  by (simp add: batch_body_def)

lemma decodeBatch_encodeBatch:
  assumes "batch_ok b"
  shows "decodeBatch (encodeBatch b epoch) = Some (Inr b)"
proof -
  let ?E = "encodeBatch b epoch" and ?n = "length (batch_body b)"
  have ok: "9 + ?n < 2 ^ 31" "length (b_Messages b) < 2 ^ 31" using assms by (simp_all add: batch_ok_def ok_len_def)
  have sz: "12 + uint (hdr_len ?E) = int (length ?E)"
    using ok by (simp add: hdr_encoded length_encodeBatch uint_word_of_nat del: of_nat_add)
  have cnt: "unat (hdr_count ?E) = length (b_Messages b)"
    using ok by (simp add: hdr_encoded unat_word_of_nat)
  have slice: "go_slice ?E 21 (int (length ?E)) = Some (batch_body b)"
    using hdr_encoded(6) [of b epoch] by (simp add: go_slice_def length_encodeBatch nat_diff_distrib)
  have split: "?E = take 61 ?E @ batch_records b"
  proof -
    have "drop 40 (drop 21 ?E) = batch_records b" by (simp only: hdr_encoded) (simp add: batch_body_def)
    then have "drop 61 ?E = batch_records b" by simp
    then show ?thesis by (metis append_take_drop_id)
  qed
  have len: "length (take 61 ?E) = 61" by (simp add: length_encodeBatch length_batch_body)
  have "records_at (length (enumerate 0 (b_Messages b))) (take 61 ?E @ concat (map (record_bytes (b_FirstTimestamp b)) (enumerate 0 (b_Messages b))) @ [])
      (int (length ?E)) (b_FirstTimestamp b) (int (length (take 61 ?E))) = Some (Inr (map snd (enumerate 0 (b_Messages b))))"
    by (rule records_at_put)
      (use ok len in \<open>simp_all add: fits_def batch_records_def [symmetric] length_encodeBatch length_batch_body\<close>)
  then have rec: "records_at (length (b_Messages b)) ?E (int (length ?E)) (b_FirstTimestamp b) 61 = Some (Inr (b_Messages b))"
    using split len by (simp add: batch_records_def [symmetric])
  show ?thesis
    unfolding decodeBatch_def Let_def sz slice cnt
    using rec by (simp add: recordBatchOverhead_def length_encodeBatch length_batch_body hdr_encoded)
qed

lemma raw_ok_encodeBatch:
  assumes "batch_ok b" and "b_Messages b \<noteq> []" and "b_LastOffsetDelta b = word_of_nat (length (b_Messages b) - 1)"
  shows "raw_ok (encodeBatch b epoch)"
proof -
  have ok: "9 + length (batch_body b) < 2 ^ 31" "length (b_Messages b) < 2 ^ 31" using assms(1) by (simp_all add: batch_ok_def ok_len_def)
  have n: "0 < length (b_Messages b)" using assms(2) by simp
  have s1: "sint (word_of_nat (9 + length (batch_body b)) :: i32) = int (9 + length (batch_body b))"
    by (rule sint_word_of_nat) (use ok in simp)
  have s2: "sint (word_of_nat (length (b_Messages b)) :: i32) = int (length (b_Messages b))"
    by (rule sint_word_of_nat) (use ok in simp)
  have s3: "sint (word_of_nat (length (b_Messages b) - 1) :: i32) = int (length (b_Messages b) - 1)"
    by (rule sint_word_of_nat) (use ok in simp)
  have d: "(word_of_nat (length (b_Messages b)) - 1 :: i32) = word_of_nat (length (b_Messages b) - Suc 0)"
    using n by (cases "length (b_Messages b)") simp_all
  show ?thesis
    unfolding raw_ok_def hdr_encoded length_encodeBatch assms(3) s1 s2 s3
    by (intro conjI) (use n d in \<open>simp_all add: length_batch_body\<close>)
qed

end
