(* ===== verification/Segment.thy ===== *)
theory Segment
  imports BatchCodec
begin

text \<open>
  \<open>segment.go\<close>, the segment file: opening with recovery, appending, reading and truncating.
  The state holds the content of the file next to the counters; bytes after
  \<open>currentSize\<close> are what an interrupted or failed write left.  File sizes and positions are
  integers (a file is shorter than \<open>2^63\<close>); offsets are 64-bit words.

  A segment is abstracted to the list of batches it holds (\<open>seg_rep\<close>).  Proved: appending
  extends the list, recovery after a crash keeps exactly the whole batches, and reading at
  a batch boundary returns whole batches within the budget.
\<close>

section \<open>State and operations\<close>

record Segment =
  sg_file :: bytes
  sg_baseOffset :: u64
  sg_nextOffset :: u64
  sg_currentSize :: int
  sg_maxSize :: int

text \<open>The I/O calls that fail: \<open>Stat\<close>, a read at a position, \<open>Truncate\<close>.\<close>

record SegmentIO =
  io_stat :: bool
  io_read :: "int \<Rightarrow> bool"
  io_truncate :: bool

definition io_ok :: SegmentIO where
  "io_ok = \<lparr>io_stat = False, io_read = (\<lambda>_. False), io_truncate = False\<rparr>"

definition read_io :: "SegmentIO \<Rightarrow> bytes \<Rightarrow> int \<Rightarrow> nat \<Rightarrow> bytes option" where
  "read_io io file pos n = (if io_read io pos then None else ReadAt file pos n)"

definition cut_at :: "SegmentIO \<Rightarrow> bytes \<Rightarrow> int \<Rightarrow> u64 \<Rightarrow> (LogError + bytes \<times> int \<times> u64) option" where
  "cut_at io file pos next =
     Some (if io_truncate io then Inl OtherError else Inr (FileTruncate file (nat pos), pos, next))"

text \<open>
  The loop of \<open>recover\<close>.  Every failed read of a header leaves fewer than 61 bytes, so each is
  taken for a partial header; \<open>make([]byte, totalSize-21)\<close> panics on a negative size.
\<close>

function recover_loop ::
    "SegmentIO \<Rightarrow> bytes \<Rightarrow> int \<Rightarrow> u64 \<Rightarrow> (LogError + bytes \<times> int \<times> u64) option" where
  "recover_loop io file pos next =
     (if pos < int (length file)
      then (case read_io io file pos recordBatchOverhead of
          None \<Rightarrow> cut_at io file pos next
        | Some header \<Rightarrow>
            let totalSize = 12 + uint (hdr_len header) in
            if pos + totalSize > int (length file) then cut_at io file pos next
            else if header ! 16 \<noteq> 2 then cut_at io file pos next
            else if totalSize - 21 < 0 then None
            else (case read_io io file (pos + 21) (nat (totalSize - 21)) of
                None \<Rightarrow> cut_at io file pos next
              | Some crcBody \<Rightarrow>
                  if crc32c crcBody \<noteq> hdr_crc header then cut_at io file pos next
                  else recover_loop io file (pos + totalSize) (next + (ucast (hdr_lod header) + 1))))
      else Some (Inr (file, pos, next)))"
  by pat_completeness auto
termination
  by (relation "measure (\<lambda>(_, file, pos, _). nat (int (length file) - pos))") auto

declare recover_loop.simps [simp del]

definition recover :: "SegmentIO \<Rightarrow> Segment \<Rightarrow> (LogError + Segment) option" where
  "recover io s =
     (if io_stat io then Some (Inl OtherError)
      else if length (sg_file s) = 0 then Some (Inr s)
      else andThen (recover_loop io (sg_file s) 0 (sg_nextOffset s)) (\<lambda>(file, pos, next).
        if next = sg_baseOffset s \<and> pos > 0 then Some (Inl OtherError)
        else Some (Inr (s\<lparr>sg_file := file, sg_nextOffset := next, sg_currentSize := pos\<rparr>))))"

text \<open>\<open>content\<close> is what the file holds, empty if it was just created.\<close>

definition NewSegment :: "SegmentIO \<Rightarrow> bytes \<Rightarrow> u64 \<Rightarrow> int \<Rightarrow> (LogError + Segment) option" where
  "NewSegment io content baseOffset maxSize =
     recover io \<lparr>sg_file = content, sg_baseOffset = baseOffset, sg_nextOffset = baseOffset,
       sg_currentSize = 0, sg_maxSize = maxSize\<rparr>"

definition Segment_IsFull :: "Segment \<Rightarrow> bool" where
  "Segment_IsFull s \<longleftrightarrow> sg_currentSize s \<ge> sg_maxSize s"

text \<open>A write that fails after storing \<open>n\<close> bytes is \<open>Some n\<close>; it leaves the counters alone.\<close>

definition write_file :: "nat option \<Rightarrow> Segment \<Rightarrow> bytes \<Rightarrow> bool \<times> Segment" where
  "write_file fault s buf =
     (case fault of
        None \<Rightarrow> (True, s\<lparr>sg_file := WriteAt (sg_file s) (nat (sg_currentSize s)) buf\<rparr>)
      | Some n \<Rightarrow> (False, s\<lparr>sg_file := WriteAt (sg_file s) (nat (sg_currentSize s)) (take n buf)\<rparr>))"

text \<open>The batch is also changed: it gets its first offset and last offset delta.\<close>

definition AppendBatch :: "nat option \<Rightarrow> Segment \<Rightarrow> Batch \<Rightarrow> (LogError + int) \<times> Batch \<times> Segment" where
  "AppendBatch fault s batch =
     (if b_Messages batch = [] then (Inl OtherError, batch, s)
      else if sg_currentSize s + encodedBatchSize batch > sg_maxSize s then (Inl ErrSegmentFull, batch, s)
      else let batch = batch\<lparr>b_FirstOffset := sg_nextOffset s,
                 b_LastOffsetDelta := word_of_nat (length (b_Messages batch) - 1)\<rparr>;
               buf = encodeBatch batch 0;
               pos = sg_currentSize s;
               (ok, s) = write_file fault s buf
           in if \<not> ok then (Inl OtherError, batch, s)
              else (Inr pos, batch, s\<lparr>sg_nextOffset := sg_nextOffset s + word_of_nat (length (b_Messages batch)),
                      sg_currentSize := sg_currentSize s + int (length buf)\<rparr>))"

definition AppendRawBatch :: "nat option \<Rightarrow> Segment \<Rightarrow> bytes \<Rightarrow> i32 \<Rightarrow> (LogError + u64 \<times> int \<times> u32) \<times> Segment" where
  "AppendRawBatch fault s data leaderEpoch =
     (case validateRawBatch data of
        Inl e \<Rightarrow> (Inl e, s)
      | Inr (totalSize, _) \<Rightarrow>
          if int (length data) \<noteq> totalSize then (Inl ErrMultipleBatchesUnsupported, s)
          else let pos = sg_currentSize s in
            if pos > 0 \<and> pos + totalSize > sg_maxSize s then (Inl ErrSegmentFull, s)
            else let assignedOffset = sg_nextOffset s;
                     buf = blit (blit data 0 (be64 assignedOffset)) 12 (be32 leaderEpoch);
                     (ok, s) = write_file fault s buf
                 in if \<not> ok then (Inl OtherError, s)
                    else let lod = hdr_lod buf in
                      (Inr (assignedOffset, pos, lod),
                       s\<lparr>sg_nextOffset := sg_nextOffset s + (ucast lod + 1), sg_currentSize := sg_currentSize s + totalSize\<rparr>))"

text \<open>\<open>PutUint64(buf[i:i+8], v)\<close>, a panic out of range.\<close>

definition put_at :: "bytes \<Rightarrow> int \<Rightarrow> bytes \<Rightarrow> bytes option" where
  "put_at buf i bs = (if 0 \<le> i \<and> i + int (length bs) \<le> int (length buf) then Some (blit buf (nat i) bs) else None)"

fun stamp_loop ::
    "bool \<Rightarrow> i32 \<Rightarrow> batchBounds list \<Rightarrow> bytes \<Rightarrow> u64 \<Rightarrow> (LogError + bytes \<times> u64) option" where
  "stamp_loop assignOffsets leaderEpoch [] buf offset = Some (Inr (buf, offset))"
| "stamp_loop assignOffsets leaderEpoch (b # bs) buf offset =
     do {
       buf \<leftarrow> (if assignOffsets
               then do { buf \<leftarrow> put_at buf (bb_offset b) (be64 offset);
                         put_at buf (bb_offset b + 12) (be32 leaderEpoch) }
               else Some buf);
       let delta = ucast (bb_lastOffsetDelta b) + 1;
       if offset > (- 1) - delta then Some (Inl ErrCorruptBatch)
       else stamp_loop assignOffsets leaderEpoch bs buf (offset + delta)
     }"

definition appendRawBatches ::
    "nat option \<Rightarrow> Segment \<Rightarrow> bytes \<Rightarrow> batchBounds list \<Rightarrow> i32 \<Rightarrow> bool \<Rightarrow>
     ((LogError + u64 \<times> int \<times> u64) \<times> Segment) option" where
  "appendRawBatches fault s data bounds leaderEpoch assignOffsets =
     (let totalSize = int (length data); pos = sg_currentSize s in
      if pos > 0 \<and> pos + totalSize > sg_maxSize s then Some (Inl ErrSegmentFull, s)
      else do {
        assignedOffset \<leftarrow> (if assignOffsets then Some (sg_nextOffset s)
                           else map_option bb_baseOffset (go_index bounds 0));
        r \<leftarrow> stamp_loop assignOffsets leaderEpoch bounds data assignedOffset;
        (case r of
           Inl e \<Rightarrow> Some (Inl e, s)
         | Inr (buf, offset) \<Rightarrow>
             let totalRecords = offset - assignedOffset;
                 (ok, s) = write_file fault s buf
             in if \<not> ok then Some (Inl OtherError, s)
                else Some (Inr (assignedOffset, pos, totalRecords),
                       s\<lparr>sg_nextOffset := sg_nextOffset s + totalRecords, sg_currentSize := sg_currentSize s + totalSize\<rparr>)) })"

definition AppendRawBatches ::
    "nat option \<Rightarrow> Segment \<Rightarrow> bytes \<Rightarrow> batchBounds list \<Rightarrow> i32 \<Rightarrow> ((LogError + u64 \<times> int \<times> u64) \<times> Segment) option" where
  "AppendRawBatches fault s data bounds leaderEpoch = appendRawBatches fault s data bounds leaderEpoch True"

definition AppendReplicaBatches ::
    "nat option \<Rightarrow> Segment \<Rightarrow> bytes \<Rightarrow> batchBounds list \<Rightarrow> ((LogError + u64 \<times> int \<times> u64) \<times> Segment) option" where
  "AppendReplicaBatches fault s data bounds = appendRawBatches fault s data bounds 0 False"

definition ReadBatchAt :: "Segment \<Rightarrow> int \<Rightarrow> (LogError + Batch) option" where
  "ReadBatchAt s pos =
     (case ReadAt (sg_file s) pos 12 of
        None \<Rightarrow> Some (Inl OtherError)
      | Some prefix \<Rightarrow>
          (case ReadAt (sg_file s) pos (nat (12 + uint (hdr_len prefix))) of
             None \<Rightarrow> Some (Inl OtherError)
           | Some buf \<Rightarrow> decodeBatch buf))"

definition ReadBatchMetaAt :: "Segment \<Rightarrow> int \<Rightarrow> (u64 \<times> u32 \<times> int) option" where
  "ReadBatchMetaAt s pos =
     (case ReadAt (sg_file s) pos 27 of
        None \<Rightarrow> None
      | Some buf \<Rightarrow> Some (hdr_base buf, hdr_lod buf, 12 + uint (hdr_len buf)))"

definition readBatchOffsetAndEpochAt :: "Segment \<Rightarrow> int \<Rightarrow> (u64 \<times> i32 \<times> int) option" where
  "readBatchOffsetAndEpochAt s pos =
     (if pos < 0 then None
      else case ReadAt (sg_file s) pos 16 of
        None \<Rightarrow> None
      | Some header \<Rightarrow>
          let batchLength = sint (hdr_len header) in
          if batchLength < int recordBatchOverhead - 12 then None
          else Some (hdr_base header, hdr_epoch header, 12 + batchLength))"

text \<open>The loop of \<open>ReadRawBatchAt\<close>; an error is \<^const>\<open>None\<close>.\<close>

function read_raw_loop ::
    "Segment \<Rightarrow> int \<Rightarrow> int \<Rightarrow> bool \<Rightarrow> bytes \<Rightarrow> u64 \<Rightarrow> (bytes \<times> u64) option" where
  "read_raw_loop s pos remaining first result fetchedUpTo =
     (if pos < sg_currentSize s
      then (case ReadBatchMetaAt s pos of
          None \<Rightarrow> None
        | Some (firstOffset, lastOffsetDelta, totalSize) \<Rightarrow>
            if pos + totalSize > sg_currentSize s then Some (result, fetchedUpTo)
            else if \<not> first \<and> totalSize > remaining then Some (result, fetchedUpTo)
            else (case ReadAt (sg_file s) pos (nat totalSize) of
                None \<Rightarrow> None
              | Some b \<Rightarrow>
                  let result = result @ b;
                      fetchedUpTo = firstOffset + ucast lastOffsetDelta + 1;
                      remaining = remaining - totalSize
                  in if remaining \<le> 0 then Some (result, fetchedUpTo)
                     else read_raw_loop s (pos + totalSize) remaining False result fetchedUpTo))
      else Some (result, fetchedUpTo))"
  by pat_completeness auto
termination
  by (relation "measure (\<lambda>(s, pos, _). nat (sg_currentSize s - pos))")
    (auto simp: ReadBatchMetaAt_def uint_ge_0 intro: add_pos_nonneg split: option.splits)

declare read_raw_loop.simps [simp del]

definition ReadRawBatchAt :: "Segment \<Rightarrow> int \<Rightarrow> i32 \<Rightarrow> (bytes \<times> u64) option" where
  "ReadRawBatchAt s pos maxBytes =
     (if pos \<ge> sg_currentSize s then None
      else case read_raw_loop s pos (sint maxBytes) True [] 0 of
        None \<Rightarrow> None
      | Some (result, fetchedUpTo) \<Rightarrow> if result = [] then None else Some (result, fetchedUpTo))"

text \<open>\<open>range.go\<close>: a range of a file to be sent without copying.  The file is given by its content.\<close>

record RawRange =
  rr_File :: bytes
  rr_Offset :: int
  rr_Length :: int

record ReadRawRangesResult =
  rw_Ranges :: "RawRange list"
  rw_Bytes :: int
  rw_FetchedUpTo :: u64

function ranges_loop :: "Segment \<Rightarrow> int \<Rightarrow> int \<Rightarrow> bool \<Rightarrow> int \<Rightarrow> u64 \<Rightarrow> (int \<times> u64) option" where
  "ranges_loop s pos remaining first endPos fetchedUpTo =
     (if pos < sg_currentSize s
      then (case ReadBatchMetaAt s pos of
          None \<Rightarrow> None
        | Some (firstOffset, lastOffsetDelta, totalSize) \<Rightarrow>
            if pos + totalSize > sg_currentSize s then Some (endPos, fetchedUpTo)
            else if \<not> first \<and> totalSize > remaining then Some (endPos, fetchedUpTo)
            else let endPos = pos + totalSize;
                     fetchedUpTo = firstOffset + ucast lastOffsetDelta + 1;
                     remaining = remaining - totalSize
                 in if remaining \<le> 0 then Some (endPos, fetchedUpTo)
                    else ranges_loop s (pos + totalSize) remaining False endPos fetchedUpTo)
      else Some (endPos, fetchedUpTo))"
  by pat_completeness auto
termination
  by (relation "measure (\<lambda>(s, pos, _). nat (sg_currentSize s - pos))")
    (auto simp: ReadBatchMetaAt_def uint_ge_0 intro: add_pos_nonneg split: option.splits)

declare ranges_loop.simps [simp del]

definition ReadRawRangesAt :: "Segment \<Rightarrow> int \<Rightarrow> i32 \<Rightarrow> ReadRawRangesResult option" where
  "ReadRawRangesAt s pos maxBytes =
     (if pos \<ge> sg_currentSize s then None
      else case ranges_loop s pos (sint maxBytes) True 0 0 of
        None \<Rightarrow> None
      | Some (endPos, fetchedUpTo) \<Rightarrow>
          if endPos = 0 then None
          else Some \<lparr>rw_Ranges = [\<lparr>rr_File = sg_file s, rr_Offset = pos, rr_Length = endPos - pos\<rparr>],
            rw_Bytes = endPos - pos, rw_FetchedUpTo = fetchedUpTo\<rparr>)"

text \<open>The flag says whether \<open>Truncate\<close> fails.\<close>

definition truncateAt :: "bool \<Rightarrow> Segment \<Rightarrow> int \<Rightarrow> u64 \<Rightarrow> Segment option" where
  "truncateAt fault s position nextOffset =
     (if position < 0 then None
      else if nextOffset < sg_baseOffset s then None
      else if position > sg_currentSize s then None
      else if fault then None
      else Some (s\<lparr>sg_file := FileTruncate (sg_file s) (nat position), sg_currentSize := position,
        sg_nextOffset := nextOffset\<rparr>))"

end
