(* ===== verification/SegmentRep.thy ===== *)
theory SegmentRep
  imports Segment
begin

text \<open>
  What a segment holds, as a list of batches with consecutive offsets, and how the
  operations of \<^theory_text>\<open>Segment\<close> act on that list.
\<close>

section \<open>Batches with consecutive offsets\<close>

definition records :: "bytes \<Rightarrow> nat" where
  "records b = unat (hdr_lod b) + 1"

definition total_records :: "bytes list \<Rightarrow> nat" where
  "total_records bs = sum_list (map records bs)"

lemma total_simps [simp]: "total_records [] = 0" "total_records (b # bs) = records b + total_records bs" "total_records (xs @ ys) = total_records xs + total_records ys"
  by (simp_all add: total_records_def)

lemma records_pos [simp]: "0 < records b"
  by (simp add: records_def)

lemma total_pos: "bs \<noteq> [] \<Longrightarrow> 0 < total_records bs"
  by (cases bs) simp_all

fun chain :: "nat \<Rightarrow> bytes list \<Rightarrow> bool" where
  "chain o' [] \<longleftrightarrow> True"
| "chain o' (b # bs) \<longleftrightarrow> unat (hdr_base b) = o' \<and> chain (o' + records b) bs"

lemma chain_append [simp]: "chain o' (xs @ ys) \<longleftrightarrow> chain o' xs \<and> chain (o' + total_records xs) ys"
  by (induction xs arbitrary: o') (simp_all add: add.assoc)

definition batches_ok :: "nat \<Rightarrow> bytes list \<Rightarrow> bool" where
  "batches_ok o' bs \<longleftrightarrow> list_all raw_ok bs \<and> chain o' bs \<and> o' + total_records bs < 2 ^ 64"

lemma batches_ok_append:
  "batches_ok o' (xs @ ys) \<longleftrightarrow> batches_ok o' xs \<and> batches_ok (o' + total_records xs) ys"
  by (auto simp: batches_ok_def add.assoc)

lemma uint_nonneg: "0 \<le> sint w \<Longrightarrow> uint w = sint (w :: 'a::len word)"
proof -
  assume "0 \<le> sint w"
  moreover have "sint w < 2 ^ LENGTH('a)"
    using sint_lt [of w] by (rule less_le_trans) simp
  ultimately show ?thesis
    unfolding uint_sint by (simp add: take_bit_int_eq_self)
qed

lemma raw_ok_uint: "raw_ok b \<Longrightarrow> 12 + uint (hdr_len b) = int (length b)"
  using uint_nonneg [of "hdr_len b"] by (simp add: raw_ok_def)

lemma take_hdr: "raw_ok b \<Longrightarrow> 27 \<le> n \<Longrightarrow> n \<le> 61 \<Longrightarrow>
    hdr_base (take n b) = hdr_base b \<and> hdr_lod (take n b) = hdr_lod b \<and> hdr_len (take n b) = hdr_len b"
  using hdr_take [of n b] by (simp add: raw_ok_def)

section \<open>The abstraction\<close>

definition seg_rep :: "Segment \<Rightarrow> bytes list \<Rightarrow> bool" where
  "seg_rep s bs \<longleftrightarrow>
     batches_ok (unat (sg_baseOffset s)) bs \<and>
     unat (sg_nextOffset s) = unat (sg_baseOffset s) + total_records bs \<and>
     sg_currentSize s = int (length (concat bs)) \<and>
     length (concat bs) \<le> length (sg_file s) \<and> take (length (concat bs)) (sg_file s) = concat bs"

lemma seg_rep_file:
  assumes "seg_rep s bs"
  obtains rest where "sg_file s = concat bs @ rest"
  using assms by (metis append_take_drop_id seg_rep_def)

text \<open>The header of the batch at a boundary.\<close>

lemma meta_at:
  assumes "seg_rep s (xs @ b # ys)"
  shows "ReadBatchMetaAt s (int (length (concat xs))) = Some (hdr_base b, hdr_lod b, int (length b))"
proof -
  obtain rest where f: "sg_file s = concat (xs @ b # ys) @ rest" using assms by (rule seg_rep_file)
  have b: "raw_ok b" using assms by (simp add: seg_rep_def batches_ok_def)
  have "ReadAt (concat xs @ b @ (concat ys @ rest)) (int (length (concat xs))) 27 = Some (take 27 b)"
    using b by (intro ReadAt_prefix) (simp_all add: raw_ok_def)
  then show ?thesis
    using f take_hdr [OF b, of 27] raw_ok_uint [OF b] by (simp add: ReadBatchMetaAt_def)
qed

lemma read_at:
  assumes "seg_rep s (xs @ b # ys)"
  shows "ReadAt (sg_file s) (int (length (concat xs))) (length b) = Some b"
proof -
  obtain rest where f: "sg_file s = concat (xs @ b # ys) @ rest" using assms by (rule seg_rep_file)
  then show ?thesis using ReadAt_mid [of "length b" b "int (length (concat xs))" "concat xs" "concat ys @ rest"] by simp
qed

section \<open>Recovery\<close>

text \<open>A torn tail: what is left of a batch whose write was interrupted.\<close>

definition torn :: "bytes \<Rightarrow> bool" where
  "torn t \<longleftrightarrow> (\<exists>b n. raw_ok b \<and> n < length b \<and> t = take n b)"

lemma torn_Nil [simp]: "raw_ok b \<Longrightarrow> torn []"
  unfolding torn_def by (intro exI [of _ b] exI [of _ 0]) (auto dest: raw_ok_length)

lemma recover_tail:
  assumes "torn tail \<or> tail = []"
  shows "recover_loop io_ok (pre @ tail) (int (length pre)) next = Some (Inr (pre, int (length pre), next))"
proof (cases "tail = []")
  case True
  then show ?thesis by (simp add: recover_loop.simps)
next
  case False
  with assms obtain b n where b: "raw_ok b" "n < length b" "tail = take n b" by (auto simp: torn_def)
  show ?thesis
  proof (cases "length tail < 61")
    case True
    then have "ReadAt (pre @ tail) (int (length pre)) 61 = None" by (intro ReadAt_past) simp_all
    then show ?thesis
      using False by (subst recover_loop.simps) (simp add: read_io_def io_ok_def recordBatchOverhead_def cut_at_def)
  next
    case ge: False
    then have n: "61 \<le> n" using b by simp
    have "ReadAt (pre @ tail @ []) (int (length pre)) 61 = Some (take 61 tail)"
      using ge by (intro ReadAt_prefix) simp_all
    moreover have "take 61 tail = take 61 b" using b(3) n by (simp add: min_def)
    moreover have "12 + uint (hdr_len (take 61 b)) = int (length b)"
      using take_hdr [OF b(1), of 61] raw_ok_uint [OF b(1)] by simp
    moreover have "length tail < length b" using b by simp
    ultimately show ?thesis
      using False by (subst recover_loop.simps) (simp add: read_io_def io_ok_def recordBatchOverhead_def cut_at_def Let_def)
  qed
qed

lemma recover_step:
  assumes b: "raw_ok b"
  shows "recover_loop io_ok (pre @ b @ post) (int (length pre)) next =
    recover_loop io_ok (pre @ b @ post) (int (length (pre @ b))) (next + (ucast (hdr_lod b) + 1))"
proof -
  have len: "61 \<le> length b" using b by (rule raw_ok_length)
  have "ReadAt (pre @ b @ post) (int (length pre)) 61 = Some (take 61 b)"
    using len by (intro ReadAt_prefix) simp_all
  moreover have "ReadAt ((pre @ take 21 b) @ drop 21 b @ post) (int (length pre) + 21) (length b - 21) = Some (drop 21 b)"
    using len by (intro ReadAt_mid) simp_all
  then have "ReadAt (pre @ b @ post) (int (length pre) + 21) (length b - 21) = Some (drop 21 b)"
    by (simp flip: append_assoc [of "take 21 b"])
  moreover have "hdr_crc (take 61 b) = hdr_crc b" "take 61 b ! 16 = b ! 16"
    using hdr_take(4) [OF len] by simp_all
  moreover have "nat (int (length b) - 21) = length b - 21" by simp
  ultimately show ?thesis
    using len b raw_ok_uint [OF b] take_hdr [OF b, of 61]
    by (subst recover_loop.simps) (simp add: read_io_def io_ok_def recordBatchOverhead_def Let_def raw_ok_def add.assoc)
qed

lemma word_records: "ucast (hdr_lod b) + 1 = (word_of_nat (records b) :: u64)"
  by (simp add: records_def)

lemma unat_add_nat: "unat (a :: u64) + n < 2 ^ 64 \<Longrightarrow> unat (a + word_of_nat n) = unat a + n"
proof -
  assume "unat a + n < 2 ^ 64"
  moreover from this have "unat (word_of_nat n :: u64) = n" by (intro unat_word_of_nat) simp
  ultimately show ?thesis using unat_add_lem [of a "word_of_nat n"] by simp
qed

lemma recover_batches:
  assumes "list_all raw_ok bs" and "torn tail \<or> tail = []"
  shows "recover_loop io_ok (pre @ concat bs @ tail) (int (length pre)) next =
    Some (Inr (pre @ concat bs, int (length (pre @ concat bs)), next + word_of_nat (total_records bs)))"
  using assms(1)
proof (induction bs arbitrary: pre "next")
  case Nil
  then show ?case using recover_tail [OF assms(2), of pre "next"] by simp
next
  case (Cons b bs)
  have "recover_loop io_ok (pre @ b @ concat bs @ tail) (int (length pre)) next =
      recover_loop io_ok ((pre @ b) @ concat bs @ tail) (int (length (pre @ b))) (next + word_of_nat (records b))"
    using Cons.prems by (subst recover_step) (simp_all add: word_records)
  also have "\<dots> = Some (Inr ((pre @ b) @ concat bs, int (length ((pre @ b) @ concat bs)),
      next + word_of_nat (records b) + word_of_nat (total_records bs)))"
    by (rule Cons.IH) (use Cons.prems in simp)
  finally show ?case by (simp add: add.assoc)
qed

lemma NewSegment_recovers:
  assumes ok: "batches_ok (unat base) bs" and tail: "torn tail \<or> tail = []"
  shows "\<exists>s. NewSegment io_ok (concat bs @ tail) base maxSize = Some (Inr s) \<and> sg_baseOffset s = base \<and>
    sg_maxSize s = maxSize \<and> sg_file s = concat bs \<and> seg_rep s bs"
proof (cases "concat bs @ tail = []")
  case True
  then have "bs = []" using ok by (cases bs) (auto simp: batches_ok_def dest: raw_ok_length)
  with True ok show ?thesis
    by (simp add: NewSegment_def recover_def io_ok_def seg_rep_def)
next
  case False
  let ?next = "base + word_of_nat (total_records bs)"
  have "list_all raw_ok bs" and lt: "unat base + total_records bs < 2 ^ 64" using ok by (simp_all add: batches_ok_def)
  from recover_batches [OF this(1) tail, of "[]" base]
  have loop: "recover_loop io_ok (concat bs @ tail) 0 base = Some (Inr (concat bs, int (length (concat bs)), ?next))"
    by simp
  have nx: "unat ?next = unat base + total_records bs" by (rule unat_add_nat [OF lt])
  have "\<not> (?next = base \<and> int (length (concat bs)) > 0)"
  proof
    assume a: "?next = base \<and> int (length (concat bs)) > 0"
    then have "bs \<noteq> []" by auto
    then show False using nx a total_pos [of bs] by simp
  qed
  then show ?thesis
    using False loop nx ok by (auto simp: NewSegment_def recover_def io_ok_def seg_rep_def)
qed

section \<open>Appending\<close>

fun stamp_all :: "nat \<Rightarrow> i32 \<Rightarrow> bytes list \<Rightarrow> bytes list" where
  "stamp_all o' epoch [] = []"
| "stamp_all o' epoch (b # bs) = stamp (word_of_nat o') epoch b # stamp_all (o' + records b) epoch bs"

lemma records_stamp [simp]: "16 \<le> length b \<Longrightarrow> records (stamp off epoch b) = records b"
  by (simp add: records_def hdr_stamp)

lemma raw_ok_16: "raw_ok b \<Longrightarrow> 16 \<le> length b"
  by (drule raw_ok_length) simp

lemma stamp_all_ok:
  "list_all raw_ok bs \<Longrightarrow> o' + total_records bs < 2 ^ 64 \<Longrightarrow>
   batches_ok o' (stamp_all o' epoch bs) \<and> total_records (stamp_all o' epoch bs) = total_records bs \<and>
   length (concat (stamp_all o' epoch bs)) = length (concat bs)"
proof (induction bs arbitrary: o')
  case (Cons b bs)
  then have b: "raw_ok b" "16 \<le> length b" by (auto intro: raw_ok_16)
  have o': "o' < 2 ^ 64" using Cons.prems(2) by simp
  have IH: "batches_ok (o' + records b) (stamp_all (o' + records b) epoch bs) \<and>
      total_records (stamp_all (o' + records b) epoch bs) = total_records bs \<and>
      length (concat (stamp_all (o' + records b) epoch bs)) = length (concat bs)"
    by (rule Cons.IH) (use Cons.prems in simp_all)
  then show ?case
    using b o' raw_ok_stamp [OF b(1)] by (simp add: batches_ok_def hdr_stamp unat_word_of_nat)
qed (simp add: batches_ok_def)

lemma max_minus: "(offset :: u64) > (- 1) - d \<longleftrightarrow> 2 ^ 64 \<le> unat offset + unat d"
proof -
  have m: "unat (- 1 :: u64) = 2 ^ 64 - 1" by (simp add: unsigned_minus_1_eq_mask mask_eq_exp_minus_1)
  have "unat ((- 1) - d) = 2 ^ 64 - 1 - unat d"
    using unat_sub [of d "- 1"] m by simp
  moreover have "unat d < 2 ^ 64" using unsigned_less [of d] by simp
  ultimately show ?thesis unfolding word_less_nat_alt by linarith
qed

lemma unat_delta: "unat (ucast (hdr_lod b) + 1 :: u64) = records b"
proof -
  have "records b < 2 ^ 64" using unsigned_less [of "hdr_lod b", where 'a = nat] by (simp add: records_def)
  then show ?thesis unfolding word_records by (simp add: unat_word_of_nat)
qed

text \<open>The loop over the bounds of the batches \<open>ds\<close>, with or without stamping them.\<close>

lemma stamp_loop_assign:
  assumes "list_all raw_ok ds" and "o' + total_records ds < 2 ^ 64" and "start = int (length pre)"
  shows "stamp_loop True epoch (bounds_from start ds) (pre @ concat ds @ post) (word_of_nat o') =
    Some (Inr (pre @ concat (stamp_all o' epoch ds) @ post, word_of_nat (o' + total_records ds)))"
  using assms
proof (induction ds arbitrary: pre o' start)
  case (Cons b ds)
  then have b: "raw_ok b" "16 \<le> length b" by (auto intro: raw_ok_16)
  have o': "unat (word_of_nat o' :: u64) = o'" using Cons.prems(2) by (intro unat_word_of_nat) simp
  let ?buf = "pre @ b @ concat ds @ post"
  have p1: "put_at ?buf (int (length pre)) (be64 (word_of_nat o')) = Some (blit ?buf (length pre) (be64 (word_of_nat o')))"
    using b by (simp add: put_at_def)
  have p2: "put_at (blit ?buf (length pre) (be64 (word_of_nat o'))) (int (length pre) + 12) (be32 epoch) =
      Some (pre @ stamp (word_of_nat o') epoch b @ concat ds @ post)"
    using b blit_stamp [OF b(2), of pre "concat ds @ post" "word_of_nat o'" epoch] by (simp add: put_at_def nat_add_distrib)
  have nov: "\<not> (word_of_nat o' :: u64) > (- 1) - (ucast (hdr_lod b) + 1)"
    unfolding max_minus unat_delta o' using Cons.prems(2) by simp
  have nx: "(word_of_nat o' :: u64) + (ucast (hdr_lod b) + 1) = word_of_nat (o' + records b)"
    by (simp add: word_records)
  have "stamp_loop True epoch (bounds_from (start + int (length b)) ds)
      ((pre @ stamp (word_of_nat o') epoch b) @ concat ds @ post) (word_of_nat (o' + records b)) =
      Some (Inr ((pre @ stamp (word_of_nat o') epoch b) @ concat (stamp_all (o' + records b) epoch ds) @ post,
        word_of_nat (o' + records b + total_records ds)))"
    by (rule Cons.IH) (use Cons.prems b in simp_all)
  then show ?case
    using p1 p2 nov nx Cons.prems(3) by (simp add: Let_def add.assoc del: of_nat_add)
qed simp

lemma stamp_loop_keep:
  assumes "o' + total_records ds < 2 ^ 64"
  shows "stamp_loop False epoch (bounds_from start ds) buf (word_of_nat o') = Some (Inr (buf, word_of_nat (o' + total_records ds)))"
  using assms
proof (induction ds arbitrary: o' start)
  case (Cons b ds)
  have o': "unat (word_of_nat o' :: u64) = o'" using Cons.prems by (intro unat_word_of_nat) simp
  have nov: "\<not> (word_of_nat o' :: u64) > (- 1) - (ucast (hdr_lod b) + 1)"
    unfolding max_minus unat_delta o' using Cons.prems by simp
  have nx: "(word_of_nat o' :: u64) + (ucast (hdr_lod b) + 1) = word_of_nat (o' + records b)"
    by (simp add: word_records)
  show ?case using nov nx Cons.IH [of "o' + records b"] Cons.prems by (simp add: Let_def add.assoc del: of_nat_add)
qed simp

text \<open>A write, complete or not, leaves the batches that are counted.\<close>

lemma write_file_keeps:
  assumes "seg_rep s bs" and "write_file fault s buf = (ok, s')"
  shows "seg_rep s' bs" and "sg_baseOffset s' = sg_baseOffset s" and "sg_maxSize s' = sg_maxSize s"
    and "sg_nextOffset s' = sg_nextOffset s" and "sg_currentSize s' = sg_currentSize s"
  using assms
  by (auto simp: write_file_def seg_rep_def take_WriteAt_le length_WriteAt split: option.splits)

lemma seg_rep_write:
  assumes rep: "seg_rep s bs" and ds: "batches_ok (unat (sg_nextOffset s)) ds"
  shows "seg_rep (s\<lparr>sg_file := WriteAt (sg_file s) (nat (sg_currentSize s)) (concat ds),
      sg_nextOffset := sg_nextOffset s + word_of_nat (total_records ds),
      sg_currentSize := sg_currentSize s + int (length (concat ds))\<rparr>) (bs @ ds)"
proof -
  have "unat (sg_nextOffset s + word_of_nat (total_records ds)) = unat (sg_nextOffset s) + total_records ds"
    by (rule unat_add_nat) (use ds in \<open>simp add: batches_ok_def\<close>)
  moreover have "take (length (concat bs) + length (concat ds)) (WriteAt (sg_file s) (length (concat bs)) (concat ds)) = concat bs @ concat ds"
    using rep take_WriteAt [of "length (concat bs)" "sg_file s" "concat ds"] by (simp add: seg_rep_def)
  ultimately show ?thesis
    using rep ds by (auto simp: seg_rep_def batches_ok_append length_WriteAt)
qed

text \<open>Appending what a producer sent.\<close>

definition fits_segment :: "Segment \<Rightarrow> nat \<Rightarrow> bool" where
  "fits_segment s n \<longleftrightarrow> \<not> (sg_currentSize s > 0 \<and> sg_currentSize s + int n > sg_maxSize s)"

lemma AppendRawBatches_full:
  "\<not> fits_segment s (length data) \<Longrightarrow> appendRawBatches fault s data bounds epoch assign = Some (Inl ErrSegmentFull, s)"
  by (simp add: appendRawBatches_def fits_segment_def)

lemma AppendRawBatches_rep:
  assumes rep: "seg_rep s bs" and ds: "list_all raw_ok ds" and lt: "unat (sg_nextOffset s) + total_records ds < 2 ^ 64"
    and fit: "fits_segment s (length (concat ds))"
  shows "\<exists>s'. AppendRawBatches None s (concat ds) (bounds_from 0 ds) epoch =
      Some (Inr (sg_nextOffset s, sg_currentSize s, word_of_nat (total_records ds)), s') \<and>
    sg_baseOffset s' = sg_baseOffset s \<and> sg_maxSize s' = sg_maxSize s \<and>
    seg_rep s' (bs @ stamp_all (unat (sg_nextOffset s)) epoch ds)"
proof -
  let ?n = "unat (sg_nextOffset s)" and ?S = "stamp_all (unat (sg_nextOffset s)) epoch ds"
  note st = stamp_all_ok [OF ds lt, of epoch]
  have loop: "stamp_loop True epoch (bounds_from 0 ds) (concat ds) (sg_nextOffset s) =
      Some (Inr (concat ?S, word_of_nat (?n + total_records ds)))"
    using stamp_loop_assign [OF ds lt, of 0 "[]" epoch "[]"] by simp
  have rep': "seg_rep (s\<lparr>sg_file := WriteAt (sg_file s) (nat (sg_currentSize s)) (concat ?S),
      sg_nextOffset := sg_nextOffset s + word_of_nat (total_records ds),
      sg_currentSize := sg_currentSize s + int (length (concat ds))\<rparr>) (bs @ ?S)"
    using seg_rep_write [OF rep, of ?S] st by simp
  have "word_of_nat (?n + total_records ds) - sg_nextOffset s = word_of_nat (total_records ds)" by simp
  then show ?thesis
    using fit loop rep'
    by (auto simp: AppendRawBatches_def appendRawBatches_def fits_segment_def write_file_def Let_def)
qed

text \<open>Appending what a leader sent: the offsets must follow on, and nothing is stamped.\<close>

text \<open>When the write fails after some bytes, the call that would have succeeded returns an error.\<close>

lemma appendRawBatches_fault:
  assumes "appendRawBatches None s data bounds epoch assign = Some (Inr r, s')"
  shows "\<exists>s''. appendRawBatches (Some k) s data bounds epoch assign = Some (Inl OtherError, s'')"
  using assms
  by (auto simp: appendRawBatches_def write_file_def Let_def split: if_splits option.splits sum.splits prod.splits bind_splits)

lemmas AppendRawBatches_fault = appendRawBatches_fault [where assign = True, folded AppendRawBatches_def]

lemma AppendReplicaBatches_rep:
  assumes rep: "seg_rep s bs" and ds: "batches_ok (unat (sg_nextOffset s)) ds" and ne: "ds \<noteq> []"
    and fit: "fits_segment s (length (concat ds))"
  shows "\<exists>s'. AppendReplicaBatches None s (concat ds) (bounds_from 0 ds) =
      Some (Inr (sg_nextOffset s, sg_currentSize s, word_of_nat (total_records ds)), s') \<and>
    sg_baseOffset s' = sg_baseOffset s \<and> sg_maxSize s' = sg_maxSize s \<and> seg_rep s' (bs @ ds)"
proof -
  let ?n = "unat (sg_nextOffset s)"
  obtain d ds' where d: "ds = d # ds'" using ne by (cases ds) auto
  then have "hdr_base d = sg_nextOffset s" using ds by (simp add: batches_ok_def word_unat_eq_iff)
  then have i: "map_option bb_baseOffset (go_index (bounds_from 0 ds) 0) = Some (sg_nextOffset s)"
    by (simp add: d go_index_def)
  have lt: "?n + total_records ds < 2 ^ 64" using ds by (simp add: batches_ok_def)
  have loop: "stamp_loop False 0 (bounds_from 0 ds) (concat ds) (sg_nextOffset s) =
      Some (Inr (concat ds, word_of_nat (?n + total_records ds)))"
    using stamp_loop_keep [OF lt, of 0 0 "concat ds"] by simp
  have "word_of_nat (?n + total_records ds) - sg_nextOffset s = word_of_nat (total_records ds)" by simp
  then show ?thesis
    using fit loop i seg_rep_write [OF rep ds]
    by (auto simp: AppendReplicaBatches_def appendRawBatches_def fits_segment_def write_file_def Let_def)
qed

text \<open>Whatever an append reports, an error leaves the batches as they were.\<close>

lemma appendRawBatches_error:
  assumes rep: "seg_rep s bs" and r: "appendRawBatches fault s data bounds epoch assign = Some (Inl e, s')"
  shows "seg_rep s' bs \<and> sg_baseOffset s' = sg_baseOffset s \<and> sg_maxSize s' = sg_maxSize s"
proof -
  have w: "write_file fault s buf = (ok, s'') \<Longrightarrow> seg_rep s'' bs \<and> sg_baseOffset s'' = sg_baseOffset s \<and> sg_maxSize s'' = sg_maxSize s" for buf ok s''
    using write_file_keeps [OF rep] by blast
  show ?thesis
    using r rep
    by (auto simp: appendRawBatches_def Let_def dest!: w split: if_splits option.splits sum.splits prod.splits bind_splits)
qed

section \<open>Reading\<close>

text \<open>The reference: the first batch, and the following ones while they fit the budget.\<close>

fun fetch_more :: "int \<Rightarrow> bytes list \<Rightarrow> bytes list" where
  "fetch_more r [] = []"
| "fetch_more r (b # bs) = (if int (length b) \<le> r then b # fetch_more (r - int (length b)) bs else [])"

fun fetch_batches :: "int \<Rightarrow> bytes list \<Rightarrow> bytes list" where
  "fetch_batches r [] = []"
| "fetch_batches r (b # bs) = b # fetch_more (r - int (length b)) bs"

lemma fetch_more_none: "list_all raw_ok bs \<Longrightarrow> r \<le> 0 \<Longrightarrow> fetch_more r bs = []"
  by (cases bs) (auto dest: raw_ok_length)

lemma fetch_more_prefix: "\<exists>rest. bs = fetch_more r bs @ rest"
  by (induction r bs rule: fetch_more.induct) auto

lemma fetch_more_maximal:
  "bs = fetch_more r bs @ rest \<Longrightarrow> rest \<noteq> [] \<Longrightarrow> int (length (concat (fetch_more r bs))) + int (length (hd rest)) > r"
  by (induction r bs rule: fetch_more.induct) (auto split: if_splits)

lemma fetch_more_size: "0 \<le> r \<Longrightarrow> int (length (concat (fetch_more r bs))) \<le> r"
  by (induction r bs rule: fetch_more.induct) auto

definition offset_after :: "bytes \<Rightarrow> u64" where
  "offset_after b = hdr_base b + ucast (hdr_lod b) + 1"

lemma seg_size: "seg_rep s bs \<Longrightarrow> sg_currentSize s = int (length (concat bs))"
  by (simp add: seg_rep_def)

lemma seg_bounds:
  assumes "seg_rep s (xs @ y # ys)"
  shows "int (length (concat xs)) < sg_currentSize s" "int (length (concat xs)) + int (length y) \<le> sg_currentSize s" "y \<noteq> []"
proof -
  have "raw_ok y" using assms by (simp add: seg_rep_def batches_ok_def)
  then have y: "61 \<le> length y" by (rule raw_ok_length)
  then show "y \<noteq> []" by auto
  have "sg_currentSize s = int (length (concat xs)) + int (length y) + int (length (concat ys))"
    using seg_size [OF assms] by simp
  then show "int (length (concat xs)) < sg_currentSize s" "int (length (concat xs)) + int (length y) \<le> sg_currentSize s"
    using y by linarith+
qed

lemma read_raw_loop_more:
  assumes "seg_rep s (xs @ ys)" and "xs \<noteq> []" and "0 < r"
  shows "read_raw_loop s (int (length (concat xs))) r False acc (offset_after (last xs)) =
    Some (acc @ concat (fetch_more r ys), offset_after (last (xs @ fetch_more r ys)))"
  using assms
proof (induction ys arbitrary: xs r acc)
  case Nil
  then show ?case using seg_size [OF Nil.prems(1)] by (simp add: read_raw_loop.simps)
next
  case (Cons y ys)
  note m = meta_at [OF Cons.prems(1)] and rd = read_at [OF Cons.prems(1)] and sz = seg_bounds [OF Cons.prems(1)]
  have y: "list_all raw_ok ys" using Cons.prems(1) by (simp add: seg_rep_def batches_ok_def)
  show ?case
  proof (cases "int (length y) \<le> r")
    case False
    then show ?thesis using m sz by (subst read_raw_loop.simps) simp
  next
    case True
    show ?thesis
    proof (cases "r - int (length y) \<le> 0")
      case stop: True
      then show ?thesis
        using m rd sz True fetch_more_none [OF y stop]
        by (subst read_raw_loop.simps) (simp add: Let_def offset_after_def)
    next
      case False
      have "read_raw_loop s (int (length (concat (xs @ [y])))) (r - int (length y)) False (acc @ y) (offset_after (last (xs @ [y]))) =
          Some ((acc @ y) @ concat (fetch_more (r - int (length y)) ys),
            offset_after (last ((xs @ [y]) @ fetch_more (r - int (length y)) ys)))"
        by (rule Cons.IH) (use Cons.prems False in simp_all)
      then show ?thesis
        using m rd sz True False by (subst read_raw_loop.simps) (simp add: Let_def offset_after_def)
    qed
  qed
qed

lemma ReadRawBatchAt_rep:
  assumes rep: "seg_rep s (xs @ y # ys)"
  shows "ReadRawBatchAt s (int (length (concat xs))) maxBytes =
    Some (concat (fetch_batches (sint maxBytes) (y # ys)), offset_after (last (fetch_batches (sint maxBytes) (y # ys))))"
proof -
  let ?r = "sint maxBytes - int (length y)"
  note m = meta_at [OF rep] and rd = read_at [OF rep] and sz = seg_bounds [OF rep]
  have y: "list_all raw_ok ys" using rep by (simp add: seg_rep_def batches_ok_def)
  have "read_raw_loop s (int (length (concat xs))) (sint maxBytes) True [] 0 =
      Some (concat (fetch_batches (sint maxBytes) (y # ys)), offset_after (last (fetch_batches (sint maxBytes) (y # ys))))"
  proof (cases "?r \<le> 0")
    case True
    then show ?thesis
      using m rd sz fetch_more_none [OF y True] by (subst read_raw_loop.simps) (simp add: Let_def offset_after_def)
  next
    case False
    then have "read_raw_loop s (int (length (concat (xs @ [y])))) ?r False y (offset_after (last (xs @ [y]))) =
        Some (y @ concat (fetch_more ?r ys), offset_after (last ((xs @ [y]) @ fetch_more ?r ys)))"
      by (intro read_raw_loop_more) (use rep in simp_all)
    moreover have "last ((xs @ [y]) @ fetch_more ?r ys) = last (y # fetch_more ?r ys)" by (simp add: last_append)
    ultimately show ?thesis
      using m rd sz False by (subst read_raw_loop.simps) (simp add: Let_def offset_after_def)
  qed
  then show ?thesis using sz by (simp add: ReadRawBatchAt_def)
qed

text \<open>
  The copying and the zero-copy read agree: the range of the second holds the bytes of the
  first.  This needs no assumption on the content of the file.
\<close>

definition span :: "Segment \<Rightarrow> int \<Rightarrow> int \<Rightarrow> bytes" where
  "span s a b = take (nat (b - a)) (drop (nat a) (sg_file s))"

lemma span_append:
  assumes "0 \<le> a" "a \<le> b" "0 \<le> n" "b + n \<le> int (length (sg_file s))"
    and "ReadAt (sg_file s) b (nat n) = Some x"
  shows "span s a b @ x = span s a (b + n)"
proof -
  have x: "x = take (nat n) (drop (nat b) (sg_file s))"
    using assms by (auto simp: ReadAt_def split: if_splits)
  have "nat (b + n - a) = nat (b - a) + nat n" "nat b = nat (b - a) + nat a" using assms by auto
  then show ?thesis unfolding span_def x by (simp only: take_add drop_drop)
qed

definition loops_match :: "Segment \<Rightarrow> int \<Rightarrow> (bytes \<times> u64) option \<Rightarrow> (int \<times> u64) option \<Rightarrow> bool" where
  "loops_match s a x y \<longleftrightarrow>
     (case (x, y) of
        (None, None) \<Rightarrow> True
      | (Some (res, u), Some (e, v)) \<Rightarrow> u = v \<and> (res = [] \<and> e = 0 \<or> a < e \<and> e \<le> int (length (sg_file s)) \<and> res = span s a e)
      | _ \<Rightarrow> False)"

lemma loops_agree:
  assumes len: "sg_currentSize s \<le> int (length (sg_file s))" and a: "0 \<le> a"
  shows "a \<le> pos \<Longrightarrow> pos \<le> int (length (sg_file s)) \<Longrightarrow> res = span s a pos \<Longrightarrow> e = (if first then 0 else pos) \<Longrightarrow> (first \<longleftrightarrow> pos = a) \<Longrightarrow>
    loops_match s a (read_raw_loop s pos r first res u) (ranges_loop s pos r first e u)"
proof (induction "nat (sg_currentSize s - pos)" arbitrary: pos r first res e u rule: less_induct)
  case less
  have stop: "loops_match s a (Some (res, u)) (Some (e, u))"
    using less.prems by (cases first) (auto simp: loops_match_def span_def)
  show ?case
  proof (cases "pos < sg_currentSize s")
    case False
    then show ?thesis using stop by (simp add: read_raw_loop.simps ranges_loop.simps)
  next
    case lt: True
    show ?thesis
    proof (cases "ReadBatchMetaAt s pos")
      case None
      then show ?thesis using lt by (simp add: read_raw_loop.simps ranges_loop.simps loops_match_def)
    next
      case (Some m)
      obtain off lod n where m: "m = (off, lod, n)" using prod_cases3 by blast
      have n: "12 \<le> n" using Some m by (auto simp: ReadBatchMetaAt_def split: option.splits)
      show ?thesis
      proof (cases "pos + n > sg_currentSize s \<or> (\<not> first \<and> n > r)")
        case True
        then show ?thesis using stop lt Some m by (auto simp: read_raw_loop.simps [of s pos] ranges_loop.simps [of s pos])
      next
        case go: False
        then have fit: "pos + n \<le> int (length (sg_file s))" using len by simp
        obtain x where x: "ReadAt (sg_file s) pos (nat n) = Some x"
          using n fit less.prems(1) a by (simp add: ReadAt_def)
        have sp: "res @ x = span s a (pos + n)"
          using span_append [OF a less.prems(1) _ fit x] n less.prems(3) by simp
        let ?u = "off + ucast lod + 1"
        have nil: "loops_match s a (Some (res @ x, ?u)) (Some (pos + n, ?u))"
          using sp n fit less.prems(1) by (simp add: loops_match_def)
        have "loops_match s a (read_raw_loop s (pos + n) (r - n) False (res @ x) ?u) (ranges_loop s (pos + n) (r - n) False (pos + n) ?u)"
          by (rule less.hyps) (use lt n sp fit less.prems(1) a in auto)
        with nil show ?thesis
          using lt Some m x go by (auto simp: read_raw_loop.simps [of s pos] ranges_loop.simps [of s pos] Let_def)
      qed
    qed
  qed
qed

lemma ReadRawRangesAt_eq:
  assumes len: "sg_currentSize s \<le> int (length (sg_file s))"
  shows "ReadRawRangesAt s pos maxBytes =
    map_option (\<lambda>(res, upTo). \<lparr>rw_Ranges = [\<lparr>rr_File = sg_file s, rr_Offset = pos, rr_Length = int (length res)\<rparr>],
       rw_Bytes = int (length res), rw_FetchedUpTo = upTo\<rparr>) (ReadRawBatchAt s pos maxBytes)"
    (is "_ = map_option ?f _")
    and "ReadRawBatchAt s pos maxBytes = Some (res, upTo) \<Longrightarrow> ReadAt (sg_file s) pos (length res) = Some res"
proof -
  have both: "ReadRawRangesAt s pos maxBytes = map_option ?f (ReadRawBatchAt s pos maxBytes) \<and>
    (\<forall>res upTo. ReadRawBatchAt s pos maxBytes = Some (res, upTo) \<longrightarrow> ReadAt (sg_file s) pos (length res) = Some res)"
  proof (cases "pos < 0 \<or> pos \<ge> sg_currentSize s")
    case True
    then show ?thesis
      by (auto simp: ReadRawRangesAt_def ReadRawBatchAt_def read_raw_loop.simps [of s pos] ranges_loop.simps [of s pos]
          ReadBatchMetaAt_def ReadAt_def)
  next
    case False
    then have p: "0 \<le> pos" "pos < sg_currentSize s" by auto
    have "loops_match s pos (read_raw_loop s pos (sint maxBytes) True [] 0) (ranges_loop s pos (sint maxBytes) True 0 0)"
      by (rule loops_agree [OF len p(1)]) (use p len in \<open>auto simp: span_def\<close>)
    moreover have "int (length (span s pos e)) = e - pos \<and> ReadAt (sg_file s) pos (nat (e - pos)) = Some (span s pos e)"
      if "pos < e" "e \<le> int (length (sg_file s))" for e
      using that p by (simp add: span_def ReadAt_def)
    ultimately show ?thesis
      using p by (auto simp: loops_match_def ReadRawRangesAt_def ReadRawBatchAt_def span_def split: option.splits prod.splits)
  qed
  show "ReadRawRangesAt s pos maxBytes = map_option ?f (ReadRawBatchAt s pos maxBytes)" using both by blast
  show "ReadRawBatchAt s pos maxBytes = Some (res, upTo) \<Longrightarrow> ReadAt (sg_file s) pos (length res) = Some res" using both by blast
qed

lemma epoch_at:
  assumes "seg_rep s (xs @ b # ys)"
  shows "readBatchOffsetAndEpochAt s (int (length (concat xs))) = Some (hdr_base b, hdr_epoch b, int (length b))"
proof -
  obtain rest where f: "sg_file s = concat (xs @ b # ys) @ rest" using assms by (rule seg_rep_file)
  have b: "raw_ok b" using assms by (simp add: seg_rep_def batches_ok_def)
  then have len: "16 \<le> length b" by (rule raw_ok_16)
  have "ReadAt (concat xs @ b @ (concat ys @ rest)) (int (length (concat xs))) 16 = Some (take 16 b)"
    using len by (intro ReadAt_prefix) simp_all
  then show ?thesis
    using f hdr_take [OF len] b by (simp add: readBatchOffsetAndEpochAt_def recordBatchOverhead_def Let_def raw_ok_def)
qed

lemma ReadBatchAt_rep:
  assumes "seg_rep s (xs @ b # ys)"
  shows "ReadBatchAt s (int (length (concat xs))) = decodeBatch b"
proof -
  obtain rest where f: "sg_file s = concat (xs @ b # ys) @ rest" using assms by (rule seg_rep_file)
  have b: "raw_ok b" using assms by (simp add: seg_rep_def batches_ok_def)
  then have len: "12 \<le> length b" by (drule_tac raw_ok_length) simp
  have "ReadAt (concat xs @ b @ (concat ys @ rest)) (int (length (concat xs))) 12 = Some (take 12 b)"
    using len by (intro ReadAt_prefix) simp_all
  then show ?thesis
    using f hdr_take(2) [OF len] raw_ok_uint [OF b] read_at [OF assms] by (simp add: ReadBatchAt_def)
qed

section \<open>Truncating\<close>

lemma truncateAt_rep:
  assumes rep: "seg_rep s (xs @ ys)" and off: "unat off = unat (sg_baseOffset s) + total_records xs"
  shows "\<exists>s'. truncateAt False s (int (length (concat xs))) off = Some s' \<and> sg_baseOffset s' = sg_baseOffset s \<and>
    sg_maxSize s' = sg_maxSize s \<and> seg_rep s' xs"
proof -
  obtain rest where f: "sg_file s = concat (xs @ ys) @ rest" using rep by (rule seg_rep_file)
  have "\<not> off < sg_baseOffset s" using off by (simp add: word_less_nat_alt)
  then show ?thesis
    using rep f off by (auto simp: truncateAt_def seg_rep_def batches_ok_append)
qed

section \<open>The internal append path\<close>

definition assigned :: "Segment \<Rightarrow> Batch \<Rightarrow> Batch" where
  "assigned s batch = batch\<lparr>b_FirstOffset := sg_nextOffset s,
     b_LastOffsetDelta := word_of_nat (length (b_Messages batch) - 1)\<rparr>"

lemma AppendBatch_rep:
  assumes rep: "seg_rep s bs" and ok: "batch_ok (assigned s batch)" and ne: "b_Messages batch \<noteq> []"
    and fit: "sg_currentSize s + encodedBatchSize batch \<le> sg_maxSize s"
    and lt: "unat (sg_nextOffset s) + length (b_Messages batch) < 2 ^ 64"
  shows "\<exists>s'. AppendBatch None s batch = (Inr (sg_currentSize s), assigned s batch, s') \<and>
    sg_baseOffset s' = sg_baseOffset s \<and> sg_maxSize s' = sg_maxSize s \<and> seg_rep s' (bs @ [encodeBatch (assigned s batch) 0])"
proof -
  let ?b = "assigned s batch"
  have b: "b_Messages ?b = b_Messages batch" "b_FirstOffset ?b = sg_nextOffset s"
    "b_LastOffsetDelta ?b = word_of_nat (length (b_Messages batch) - 1)" by (simp_all add: assigned_def)
  have n: "length (b_Messages batch) < 2 ^ 31" using ok by (simp add: batch_ok_def ok_len_def b)
  then have "records (encodeBatch ?b 0) = length (b_Messages batch)"
    using ne by (simp add: records_def hdr_encoded b unat_word_of_nat)
  then have d: "batches_ok (unat (sg_nextOffset s)) [encodeBatch ?b 0]" "total_records [encodeBatch ?b 0] = length (b_Messages batch)"
    using raw_ok_encodeBatch [of ?b 0] ok ne lt by (simp_all add: batches_ok_def hdr_encoded b)
  have "AppendBatch None s batch = (Inr (sg_currentSize s), ?b, s\<lparr>sg_file := WriteAt (sg_file s) (nat (sg_currentSize s)) (encodeBatch ?b 0),
      sg_nextOffset := sg_nextOffset s + word_of_nat (length (b_Messages batch)),
      sg_currentSize := sg_currentSize s + int (length (encodeBatch ?b 0))\<rparr>)"
    using fit ne by (simp add: AppendBatch_def assigned_def write_file_def Let_def)
  then show ?thesis using seg_rep_write [OF rep d(1)] d(2) by simp
qed

lemma AppendRawBatch_rep:
  assumes rep: "seg_rep s bs" and ok: "raw_ok data" and fit: "fits_segment s (length data)"
    and lt: "unat (sg_nextOffset s) + records data < 2 ^ 64"
  shows "\<exists>s'. AppendRawBatch None s data epoch = (Inr (sg_nextOffset s, sg_currentSize s, hdr_lod data), s') \<and>
    sg_baseOffset s' = sg_baseOffset s \<and> seg_rep s' (bs @ [stamp (sg_nextOffset s) epoch data])"
proof -
  let ?d = "stamp (sg_nextOffset s) epoch data"
  have len: "16 \<le> length data" using ok by (rule raw_ok_16)
  have b: "blit (blit data 0 (be64 (sg_nextOffset s))) 12 (be32 epoch) = ?d"
    using blit_stamp [OF len, of "[]" "[]" "sg_nextOffset s" epoch] by simp
  have d: "batches_ok (unat (sg_nextOffset s)) [?d]" using raw_ok_stamp [OF ok] lt len by (simp add: batches_ok_def hdr_stamp)
  have "validateRawBatch data = Inr (int (length data), hdr_lod data)"
    using validateRawBatch_append [OF ok, of "[]"] by simp
  then show ?thesis
    using seg_rep_write [OF rep d] fit len b
    by (auto simp: AppendRawBatch_def fits_segment_def write_file_def Let_def hdr_stamp word_records)
qed

end
