(* ===== verification/Index.thy ===== *)
theory Index
  imports Files
begin

text \<open>
  \<open>index.go\<close>: the sparse offset index of a segment, 12-byte entries (relative offset, file
  position) in a memory map of fixed size.  The map is a byte list of length \<open>maxBytes\<close>; the
  entries it holds are its abstraction.  Proved: a write appends one entry, and the binary
  search of \<open>Lookup\<close> finds the entry a linear search would.
\<close>

section \<open>State and operations\<close>

definition indexEntrySize :: int where "indexEntrySize = 12"
definition defaultIndexMaxBytes :: int where "defaultIndexMaxBytes = 1024 * 1024"

record Index =
  ix_mmap :: bytes
  ix_baseOffset :: u64
  ix_size :: int
  ix_maxBytes :: int

datatype IndexError = PreallocateFailed | IndexFull int int | BelowBase u64 u64

definition Index_Reset :: "Index \<Rightarrow> Index" where
  "Index_Reset idx = idx\<lparr>ix_size := 0\<rparr>"

definition Index_IsFull :: "Index \<Rightarrow> bool" where
  "Index_IsFull idx \<longleftrightarrow> ix_size idx + indexEntrySize > ix_maxBytes idx"

text \<open>The fields of the entry at a position of the map.\<close>

definition rel_at :: "bytes \<Rightarrow> int \<Rightarrow> u32" where
  "rel_at mmap pos = get32 (drop (nat pos) mmap)"

definition pos_at :: "bytes \<Rightarrow> int \<Rightarrow> u64" where
  "pos_at mmap pos = get64 (drop (nat (pos + 4)) mmap)"

function recover_size :: "bytes \<Rightarrow> int \<Rightarrow> int \<Rightarrow> int" where
  "recover_size mmap maxBytes pos =
     (if pos + indexEntrySize \<le> maxBytes
      then if pos > 0 \<and> rel_at mmap pos = 0 \<and> pos_at mmap pos = 0 then pos
           else recover_size mmap maxBytes (pos + indexEntrySize)
      else pos)"
  by pat_completeness auto
termination
  by (relation "measure (\<lambda>(_, m, p). nat (m - p))") (auto simp: indexEntrySize_def)

declare recover_size.simps [simp del]

definition recoverSize :: "Index \<Rightarrow> int" where
  "recoverSize idx = recover_size (ix_mmap idx) (ix_maxBytes idx) 0"

text \<open>\<open>content\<close> is what the index file holds, empty if it was just created; the flag says whether
  pre-allocating or mapping it fails.\<close>

definition NewIndex :: "bytes \<Rightarrow> u64 \<Rightarrow> int \<Rightarrow> bool \<Rightarrow> IndexError + Index" where
  "NewIndex content baseOffset maxBytes0 fault =
     (let maxBytes = (if maxBytes0 = 0 then defaultIndexMaxBytes else maxBytes0) in
      if maxBytes < 0 \<or> fault then Inl PreallocateFailed
      else let idx = \<lparr>ix_mmap = FileTruncate content (nat maxBytes), ix_baseOffset = baseOffset,
                      ix_size = 0, ix_maxBytes = maxBytes\<rparr>
           in Inr (if length content > 0 then idx\<lparr>ix_size := recoverSize idx\<rparr> else idx))"

definition Index_Write :: "Index \<Rightarrow> u64 \<Rightarrow> int \<Rightarrow> IndexError + Index" where
  "Index_Write idx offset filePos =
     (if Index_IsFull idx then Inl (IndexFull (ix_size idx) (ix_maxBytes idx))
      else let cur = ix_size idx;
               relOffset = (ucast (offset - ix_baseOffset idx) :: u32);
               mmap = blit (ix_mmap idx) (nat cur) (be32 relOffset);
               mmap = blit mmap (nat (cur + 4)) (be64 (word_of_int filePos))
           in Inr (idx\<lparr>ix_mmap := mmap, ix_size := cur + indexEntrySize\<rparr>))"

function lookup_loop :: "bytes \<Rightarrow> u32 \<Rightarrow> int \<Rightarrow> int \<Rightarrow> int \<Rightarrow> int" where
  "lookup_loop mmap relTarget low high result =
     (if low \<le> high
      then let mid = (low + high) div 2 in
           if rel_at mmap (mid * indexEntrySize) \<le> relTarget
           then lookup_loop mmap relTarget (mid + 1) high mid
           else lookup_loop mmap relTarget low (mid - 1) result
      else result)"
  by pat_completeness auto
termination
  by (relation "measure (\<lambda>(_, _, low, high, _). nat (high - low + 1))") auto

declare lookup_loop.simps [simp del]

definition Lookup :: "Index \<Rightarrow> u64 \<Rightarrow> IndexError + int" where
  "Lookup idx offset =
     (let curSize = ix_size idx in
      if curSize = 0 then Inr 0
      else if offset < ix_baseOffset idx then Inl (BelowBase offset (ix_baseOffset idx))
      else let relTarget = (ucast (offset - ix_baseOffset idx) :: u32);
               numEntries = curSize div indexEntrySize;
               result = lookup_loop (ix_mmap idx) relTarget 0 (numEntries - 1) 0
           in Inr (sint (pos_at (ix_mmap idx) (result * indexEntrySize))))"

text \<open>\<open>Close\<close> cuts the file to the part that was written.\<close>

definition Index_Close :: "Index \<Rightarrow> bytes" where
  "Index_Close idx = FileTruncate (ix_mmap idx) (nat (ix_size idx))"

section \<open>Entries\<close>

type_synonym entry = "u32 \<times> u64"

definition entry_bytes :: "entry \<Rightarrow> bytes" where
  "entry_bytes = (\<lambda>(r, p). be32 r @ be64 p)"

lemma entry_bytes_pair [simp]: "entry_bytes (r, p) = be32 r @ be64 p"
  by (simp add: entry_bytes_def)

lemma length_entry_bytes [simp]: "length (entry_bytes e) = 12"
  by (simp add: entry_bytes_def split: prod.split)

lemma length_entries [simp]: "length (concat (map entry_bytes es)) = 12 * length es"
  by (induction es) simp_all

definition idx_rep :: "Index \<Rightarrow> entry list \<Rightarrow> bool" where
  "idx_rep idx es \<longleftrightarrow>
     ix_size idx = 12 * int (length es) \<and> ix_size idx \<le> ix_maxBytes idx \<and>
     int (length (ix_mmap idx)) = ix_maxBytes idx \<and>
     take (12 * length es) (ix_mmap idx) = concat (map entry_bytes es)"

lemma idx_rep_reset: "idx_rep idx es \<Longrightarrow> idx_rep (Index_Reset idx) []"
  by (simp add: idx_rep_def Index_Reset_def)

lemma entry_at:
  assumes "idx_rep idx es" and "i < length es"
  shows "rel_at (ix_mmap idx) (int i * indexEntrySize) = fst (es ! i)"
    and "pos_at (ix_mmap idx) (int i * indexEntrySize) = snd (es ! i)"
proof -
  define post where "post = drop (12 * length es) (ix_mmap idx)"
  let ?tail = "concat (map entry_bytes (drop (Suc i) es)) @ post"
  have "ix_mmap idx = concat (map entry_bytes es) @ post"
    using assms(1) append_take_drop_id [of "12 * length es" "ix_mmap idx"] by (simp add: post_def idx_rep_def)
  moreover have "concat (map entry_bytes es) =
      concat (map entry_bytes (take i es)) @ entry_bytes (es ! i) @ concat (map entry_bytes (drop (Suc i) es))"
    by (subst id_take_nth_drop [OF assms(2)]) simp
  ultimately have m: "ix_mmap idx = concat (map entry_bytes (take i es)) @ entry_bytes (es ! i) @ ?tail"
    by simp
  have len: "length (concat (map entry_bytes (take i es))) = 12 * i"
    using assms(2) by simp
  have d: "drop (12 * i) (ix_mmap idx) = entry_bytes (es ! i) @ ?tail"
    by (subst m) (simp add: len del: length_entries)
  then show "rel_at (ix_mmap idx) (int i * indexEntrySize) = fst (es ! i)"
    by (simp add: rel_at_def indexEntrySize_def nat_mult_distrib mult.commute entry_bytes_def split: prod.split)
  have "drop (12 * i + 4) (ix_mmap idx) = drop 4 (drop (12 * i) (ix_mmap idx))" by (simp add: add.commute)
  also have "\<dots> = drop 4 (entry_bytes (es ! i) @ ?tail)" by (simp only: d)
  also have "\<dots> = be64 (snd (es ! i)) @ ?tail"
    by (simp add: entry_bytes_def split: prod.split)
  finally show "pos_at (ix_mmap idx) (int i * indexEntrySize) = snd (es ! i)"
    by (simp add: pos_at_def indexEntrySize_def nat_add_distrib nat_mult_distrib mult.commute)
qed

lemma idx_rep_Write:
  assumes rep: "idx_rep idx es" and full: "\<not> Index_IsFull idx"
  shows "\<exists>idx'. Index_Write idx offset filePos = Inr idx' \<and> ix_baseOffset idx' = ix_baseOffset idx \<and>
    ix_maxBytes idx' = ix_maxBytes idx \<and>
    idx_rep idx' (es @ [(ucast (offset - ix_baseOffset idx), word_of_int filePos)])"
proof -
  let ?n = "12 * length es" and ?m = "ix_mmap idx"
  let ?r = "ucast (offset - ix_baseOffset idx) :: u32" and ?p = "word_of_int filePos :: u64"
  have sz: "ix_size idx = int ?n" and len: "?n + 12 \<le> length ?m"
    using rep full by (simp_all add: idx_rep_def Index_IsFull_def indexEntrySize_def)
  have "?m = take ?n ?m @ take 12 (drop ?n ?m) @ drop 12 (drop ?n ?m)" by (simp only: append_take_drop_id)
  then have m: "?m = concat (map entry_bytes es) @ take 12 (drop ?n ?m) @ drop (?n + 12) ?m"
    using rep by (simp add: idx_rep_def add.commute)
  define old where "old = take 12 (drop ?n ?m)"
  have old: "length old = 12" using len by (simp add: old_def)
  define post where "post = drop (?n + 12) ?m"
  have "?m = concat (map entry_bytes es) @ old @ post" using m by (simp only: old_def post_def)
  then have m': "?m = concat (map entry_bytes es) @ take 4 old @ drop 4 old @ post"
    by (metis append_assoc append_take_drop_id)
  have b1: "blit ?m ?n (be32 ?r) = concat (map entry_bytes es) @ be32 ?r @ drop 4 old @ post"
    using blit_mid [of "take 4 old" "be32 ?r" "concat (map entry_bytes es)" "drop 4 old @ post"] old m' by simp
  have b2: "blit (blit ?m ?n (be32 ?r)) (?n + 4) (be64 ?p) = concat (map entry_bytes es) @ be32 ?r @ be64 ?p @ post"
    using blit_mid [of "drop 4 old" "be64 ?p" "concat (map entry_bytes es) @ be32 ?r" post] old b1 by simp
  have len': "length (concat (map entry_bytes es) @ be32 ?r @ be64 ?p @ post) = length ?m"
    using len by (simp add: post_def)
  have w: "Index_Write idx offset filePos =
      Inr (idx\<lparr>ix_mmap := concat (map entry_bytes es) @ be32 ?r @ be64 ?p @ post, ix_size := int ?n + 12\<rparr>)"
    using full b2 by (simp add: Index_Write_def Let_def sz indexEntrySize_def nat_add_distrib nat_mult_distrib)
  moreover have "idx_rep (idx\<lparr>ix_mmap := concat (map entry_bytes es) @ be32 ?r @ be64 ?p @ post, ix_size := int ?n + 12\<rparr>)
      (es @ [(?r, ?p)])"
    using rep len len' by (simp add: idx_rep_def)
  ultimately show ?thesis by auto
qed

section \<open>Searching\<close>

text \<open>Linear search: the last entry not above the target.\<close>

definition last_le :: "entry list \<Rightarrow> u32 \<Rightarrow> nat" where
  "last_le es r = length (takeWhile (\<lambda>e. fst e \<le> r) es) - 1"

lemma takeWhile_length_iff:
  assumes "sorted (map fst es)" and "i < length es"
  shows "fst (es ! i) \<le> r \<longleftrightarrow> i < length (takeWhile (\<lambda>e. fst e \<le> r) es)"
proof -
  have "fst (es ! i) \<le> r \<Longrightarrow> i < length (takeWhile (\<lambda>e. fst e \<le> r) es)" for r
    using assms
  proof (induction es arbitrary: i)
    case (Cons e es)
    show ?case
    proof (cases i)
      case (Suc j)
      then have "fst e \<le> fst (es ! j)" "fst (es ! j) \<le> r" using Cons.prems by auto
      then have "fst e \<le> r" by simp
      then show ?thesis using Cons.IH [of j] Cons.prems Suc by simp
    qed (use Cons.prems in simp)
  qed simp
  moreover have "i < length (takeWhile (\<lambda>e. fst e \<le> r) es) \<Longrightarrow> fst (es ! i) \<le> r"
    using nth_length_takeWhile [of "\<lambda>e. fst e \<le> r" es] by (metis nth_mem set_takeWhileD takeWhile_nth)
  ultimately show ?thesis by blast
qed

lemma lookup_loop_correct:
  assumes rep: "idx_rep idx es" and s: "sorted (map fst es)"
    and k: "k = length (takeWhile (\<lambda>e. fst e \<le> r) es)"
  shows "0 \<le> low \<Longrightarrow> high < int (length es) \<Longrightarrow> low \<le> int k \<Longrightarrow> int k \<le> high + 1 \<Longrightarrow>
    result = (if low = 0 then 0 else low - 1) \<Longrightarrow>
    lookup_loop (ix_mmap idx) r low high result = int (k - 1)"
proof (induction "nat (high - low + 1)" arbitrary: low high result rule: less_induct)
  case less
  show ?case
  proof (cases "low \<le> high")
    case True
    define mid where "mid = (low + high) div 2"
    have mid: "low \<le> mid" "mid \<le> high" using True by (auto simp: mid_def)
    then have i: "nat mid < length es" "int (nat mid) = mid" using less.prems by auto
    have e: "rel_at (ix_mmap idx) (mid * indexEntrySize) = fst (es ! nat mid)"
      using entry_at(1) [OF rep i(1)] i(2) by simp
    have c: "fst (es ! nat mid) \<le> r \<longleftrightarrow> mid < int k"
      using takeWhile_length_iff [OF s i(1), of r] mid less.prems(1) by (simp add: k nat_less_iff)
    show ?thesis
    proof (cases "mid < int k")
      case True
      have "lookup_loop (ix_mmap idx) r (mid + 1) high mid = int (k - 1)"
        by (rule less.hyps) (use less.prems mid True in auto)
      then show ?thesis using True \<open>low \<le> high\<close> e c by (simp add: lookup_loop.simps [of _ _ low] Let_def mid_def)
    next
      case False
      have "lookup_loop (ix_mmap idx) r low (mid - 1) result = int (k - 1)"
        by (rule less.hyps) (use less.prems mid \<open>low \<le> high\<close> False in auto)
      then show ?thesis using False \<open>low \<le> high\<close> e c by (simp add: lookup_loop.simps [of _ _ low] Let_def mid_def)
    qed
  next
    case False
    then have "low = int k" using less.prems by linarith
    moreover have "lookup_loop (ix_mmap idx) r low high result = result"
      using False by (simp add: lookup_loop.simps [of _ _ low])
    ultimately show ?thesis using less.prems(5) by auto
  qed
qed

lemma Lookup_linear:
  assumes rep: "idx_rep idx es" and s: "sorted (map fst es)" and ne: "es \<noteq> []"
    and off: "ix_baseOffset idx \<le> offset"
  shows "Lookup idx offset = Inr (sint (snd (es ! last_le es (ucast (offset - ix_baseOffset idx)))))"
proof -
  let ?r = "ucast (offset - ix_baseOffset idx) :: u32"
  define k where "k = length (takeWhile (\<lambda>e. fst e \<le> ?r) es)"
  have k: "k \<le> length es" by (simp add: k_def length_takeWhile_le)
  have sz: "ix_size idx = 12 * int (length es)" using rep by (simp add: idx_rep_def)
  then have n: "ix_size idx div indexEntrySize = int (length es)" "ix_size idx \<noteq> 0"
    using ne by (simp_all add: indexEntrySize_def)
  have "lookup_loop (ix_mmap idx) ?r 0 (int (length es) - 1) 0 = int (k - 1)"
    by (rule lookup_loop_correct [OF rep s k_def]) (use k ne in simp_all)
  moreover have "k - 1 < length es" using k ne by (cases es) auto
  ultimately show ?thesis
    using entry_at(2) [OF rep, of "k - 1"] off n by (simp add: Lookup_def Let_def last_le_def k_def not_less)
qed

lemma Lookup_empty: "idx_rep idx [] \<Longrightarrow> Lookup idx offset = Inr 0"
  by (simp add: Lookup_def idx_rep_def)

section \<open>Reopening\<close>

text \<open>
  Closing cuts the file to its entries and opening finds them again: every entry but the
  first is different from (0, 0), because file positions grow.
\<close>

lemma get_zeros: "4 \<le> m \<Longrightarrow> get32 (replicate m 0) = 0" "8 \<le> m \<Longrightarrow> get64 (replicate m 0) = 0"
proof -
  have split: "k \<le> m \<Longrightarrow> replicate m (0 :: byte) = replicate k 0 @ replicate (m - k) 0" for k m
    by (simp flip: replicate_add)
  have z: "replicate 4 (0 :: byte) = [0, 0, 0, 0]" "replicate 8 (0 :: byte) = [0, 0, 0, 0, 0, 0, 0, 0]"
    by (simp_all add: numeral_eq_Suc)
  show "4 \<le> m \<Longrightarrow> get32 (replicate m 0) = 0" by (subst split [of 4]) (simp_all add: z)
  show "8 \<le> m \<Longrightarrow> get64 (replicate m 0) = 0" by (subst split [of 8]) (simp_all add: z)
qed

lemma recover_size_stop:
  assumes rep: "idx_rep idx es" and nz: "\<forall>e\<in>set (tl es). e \<noteq> (0, 0)"
    and stop: "es \<noteq> []" "12 * int (length es) + 12 \<le> ix_maxBytes idx \<Longrightarrow> drop (12 * length es) (ix_mmap idx) = replicate m 0"
  shows "i \<le> length es \<Longrightarrow> recover_size (ix_mmap idx) (ix_maxBytes idx) (12 * int i) = 12 * int (length es)"
proof (induction "length es - i" arbitrary: i)
  case 0
  then have i: "i = length es" by simp
  show ?case
  proof (cases "12 * int (length es) + 12 \<le> ix_maxBytes idx")
    case True
    then have d: "drop (12 * length es) (ix_mmap idx) = replicate m 0" by (rule stop(2))
    have "12 * length es + 12 \<le> length (ix_mmap idx)" using rep True by (simp add: idx_rep_def)
    then have m: "12 \<le> m" using arg_cong [OF d, of length] by simp
    have "rel_at (ix_mmap idx) (12 * int i) = get32 (replicate m 0)"
      using d i by (simp add: rel_at_def nat_mult_distrib)
    also have "\<dots> = 0" using m by (simp add: get_zeros)
    finally have r: "rel_at (ix_mmap idx) (12 * int i) = 0" .
    have "pos_at (ix_mmap idx) (12 * int i) = get64 (drop 4 (replicate m 0))"
      using d i by (simp add: pos_at_def nat_add_distrib nat_mult_distrib add.commute [of _ 4] flip: drop_drop)
    also have "\<dots> = 0" using m by (simp add: get_zeros)
    finally have "pos_at (ix_mmap idx) (12 * int i) = 0" .
    with r show ?thesis
      using stop(1) i by (subst recover_size.simps) (simp add: indexEntrySize_def)
  next
    case False
    then show ?thesis by (simp add: i recover_size.simps indexEntrySize_def)
  qed
next
  case (Suc n)
  then have i: "i < length es" by simp
  then have room: "12 * int i + 12 \<le> ix_maxBytes idx" using rep by (simp add: idx_rep_def)
  have at: "rel_at (ix_mmap idx) (12 * int i) = fst (es ! i)" "pos_at (ix_mmap idx) (12 * int i) = snd (es ! i)"
    using entry_at [OF rep i] by (simp_all add: indexEntrySize_def mult.commute)
  have "i > 0 \<Longrightarrow> es ! i \<noteq> (0, 0)"
    using nz i by (cases es) (auto simp: nth_Cons' in_set_conv_nth)
  then have "\<not> (12 * int i > 0 \<and> rel_at (ix_mmap idx) (12 * int i) = 0 \<and> pos_at (ix_mmap idx) (12 * int i) = 0)"
    using at by (auto simp: prod_eq_iff)
  then show ?case
    using Suc.hyps(1) [of "Suc i"] Suc.hyps(2) i room
    by (subst recover_size.simps) (auto simp: indexEntrySize_def algebra_simps)
qed

lemma idx_rep_NewIndex:
  assumes "0 < maxBytes"
  shows "\<exists>idx. NewIndex content base maxBytes False = Inr idx \<and> ix_baseOffset idx = base \<and> ix_maxBytes idx = maxBytes \<and>
    idx_rep (Index_Reset idx) []"
  using assms by (simp add: NewIndex_def Let_def Index_Reset_def idx_rep_def)

lemma reopen:
  assumes rep: "idx_rep idx es" and nz: "\<forall>e\<in>set (tl es). e \<noteq> (0, 0)" and pos: "0 < ix_maxBytes idx"
  shows "\<exists>idx'. NewIndex (Index_Close idx) base (ix_maxBytes idx) False = Inr idx' \<and> ix_baseOffset idx' = base \<and> idx_rep idx' es"
proof -
  let ?E = "concat (map entry_bytes es)" and ?M = "nat (ix_maxBytes idx)"
  have sz: "nat (ix_size idx) = 12 * length es" and len: "12 * length es \<le> ?M" "12 * length es \<le> length (ix_mmap idx)"
    using rep by (auto simp: idx_rep_def)
  then have c: "Index_Close idx = ?E" using rep by (simp add: Index_Close_def idx_rep_def)
  define idx0 where "idx0 = \<lparr>ix_mmap = ?E @ replicate (?M - 12 * length es) 0, ix_baseOffset = base,
    ix_size = 12 * int (length es), ix_maxBytes = ix_maxBytes idx\<rparr>"
  have r0: "idx_rep idx0 es" using len pos by (simp add: idx_rep_def idx0_def)
  have m: "FileTruncate ?E ?M = ?E @ replicate (?M - 12 * length es) 0"
    using len by (simp add: FileTruncate_def)
  show ?thesis
  proof (cases "es = []")
    case True
    then show ?thesis using pos r0 m by (simp add: c NewIndex_def Let_def idx_rep_def idx0_def)
  next
    case False
    have ne: "length ?E \<noteq> 0" using False by simp
    have "recover_size (ix_mmap idx0) (ix_maxBytes idx0) (12 * int 0) = 12 * int (length es)"
      by (rule recover_size_stop [OF r0 nz False, of "?M - 12 * length es"]) (simp_all add: idx0_def)
    then have "NewIndex ?E base (ix_maxBytes idx) False = Inr idx0"
      using ne pos m by (simp add: NewIndex_def Let_def recoverSize_def idx0_def del: concat_eq_Nil_conv)
    with r0 c show ?thesis by (auto simp: idx0_def)
  qed
qed

end
