(* ===== verification/EpochCache.thy ===== *)
theory EpochCache
  imports Prelude
begin

text \<open>
  \<open>epoch_cache.go\<close>: the leader-epoch history of a partition, a list of (epoch, first offset)
  entries kept strictly increasing in both.  The invariant is kept by every operation; the
  lookups are characterised against the history read as a function from offsets to epochs.
\<close>

section \<open>State and operations\<close>

record EpochEntry =
  ee_Epoch :: i32
  ee_StartOffset :: u64

record EpochEndOffset =
  eo_Epoch :: i32
  eo_EndOffset :: u64

record LeaderEpochCache =
  lec_entries :: "EpochEntry list"

datatype EpochError = NegativeEpoch i32

definition NewLeaderEpochCache :: LeaderEpochCache where
  "NewLeaderEpochCache = \<lparr>lec_entries = []\<rparr>"

text \<open>The result says whether the cache changed.\<close>

definition Assign :: "LeaderEpochCache \<Rightarrow> i32 \<Rightarrow> u64 \<Rightarrow> EpochError + bool \<times> LeaderEpochCache" where
  "Assign c epoch startOffset =
     (if sint epoch < 0 then Inl (NegativeEpoch epoch)
      else let new = \<lparr>ee_Epoch = epoch, ee_StartOffset = startOffset\<rparr>; es = lec_entries c in
        if es = [] then Inr (True, c\<lparr>lec_entries := es @ [new]\<rparr>)
        else let l = last es in
          if epoch = ee_Epoch l \<and> startOffset \<ge> ee_StartOffset l then Inr (False, c)
          else if sint epoch > sint (ee_Epoch l) \<and> startOffset > ee_StartOffset l
            then Inr (True, c\<lparr>lec_entries := es @ [new]\<rparr>)
          else let kept = takeWhile (\<lambda>e. \<not> (sint (ee_Epoch e) \<ge> sint epoch \<or> ee_StartOffset e \<ge> startOffset)) es
            in Inr (True, c\<lparr>lec_entries := kept @ [new]\<rparr>))"

definition TruncateFromEnd :: "LeaderEpochCache \<Rightarrow> u64 \<Rightarrow> bool \<times> LeaderEpochCache" where
  "TruncateFromEnd c offset =
     (let kept = takeWhile (\<lambda>e. ee_StartOffset e < offset) (lec_entries c) in
      if length kept = length (lec_entries c) then (False, c) else (True, c\<lparr>lec_entries := kept\<rparr>))"

definition TruncateAfter :: "LeaderEpochCache \<Rightarrow> u64 \<Rightarrow> bool \<times> LeaderEpochCache" where
  "TruncateAfter c offset =
     (let kept = takeWhile (\<lambda>e. ee_StartOffset e \<le> offset) (lec_entries c) in
      if length kept = length (lec_entries c) then (False, c) else (True, c\<lparr>lec_entries := kept\<rparr>))"

fun epoch_scan :: "EpochEntry list \<Rightarrow> u64 \<Rightarrow> i32 option \<Rightarrow> i32 option" where
  "epoch_scan [] offset found = found"
| "epoch_scan (e # es) offset found =
     (if ee_StartOffset e > offset then found else epoch_scan es offset (Some (ee_Epoch e)))"

definition EpochForOffset :: "LeaderEpochCache \<Rightarrow> u64 \<Rightarrow> i32 option" where
  "EpochForOffset c offset = epoch_scan (lec_entries c) offset None"

text \<open>The loop over \<open>i = n - 1, ..., 0\<close>; \<open>c.entries[i+1]\<close> is a panic out of range.\<close>

fun end_scan :: "EpochEntry list \<Rightarrow> i32 \<Rightarrow> nat \<Rightarrow> EpochEndOffset option option" where
  "end_scan es requested 0 = Some None"
| "end_scan es requested (Suc i) =
     (if sint (ee_Epoch (es ! i)) \<le> sint requested
      then do { n \<leftarrow> go_index es (int i + 1);
                Some (Some \<lparr>eo_Epoch = ee_Epoch (es ! i), eo_EndOffset = ee_StartOffset n\<rparr>) }
      else end_scan es requested i)"

definition EndOffsetFor :: "LeaderEpochCache \<Rightarrow> i32 \<Rightarrow> u64 \<Rightarrow> EpochEndOffset option option" where
  "EndOffsetFor c requested leo =
     (let es = lec_entries c in
      if es = [] \<or> sint requested < 0 then Some None
      else if sint requested < sint (ee_Epoch (hd es))
        then Some (Some \<lparr>eo_Epoch = requested, eo_EndOffset = ee_StartOffset (hd es)\<rparr>)
      else if requested = ee_Epoch (last es)
        then Some (Some \<lparr>eo_Epoch = ee_Epoch (last es), eo_EndOffset = leo\<rparr>)
      else if sint requested > sint (ee_Epoch (last es)) then Some None
      else end_scan es requested (length es))"

definition Entries :: "LeaderEpochCache \<Rightarrow> EpochEntry list" where
  "Entries c = lec_entries c"

section \<open>The invariant\<close>

definition entry_lt :: "EpochEntry \<Rightarrow> EpochEntry \<Rightarrow> bool" where
  "entry_lt a b \<longleftrightarrow> sint (ee_Epoch a) < sint (ee_Epoch b) \<and> ee_StartOffset a < ee_StartOffset b"

definition epochs_ok :: "EpochEntry list \<Rightarrow> bool" where
  "epochs_ok es \<longleftrightarrow> sorted_wrt entry_lt es \<and> list_all (\<lambda>e. 0 \<le> sint (ee_Epoch e)) es"

lemma epochs_ok_Nil [simp]: "epochs_ok []"
  by (simp add: epochs_ok_def)

lemma epochs_ok_new [simp]: "epochs_ok (lec_entries NewLeaderEpochCache)"
  by (simp add: NewLeaderEpochCache_def)

lemma epochs_ok_append:
  "epochs_ok (xs @ ys) \<longleftrightarrow> epochs_ok xs \<and> epochs_ok ys \<and> (\<forall>x\<in>set xs. \<forall>y\<in>set ys. entry_lt x y)"
  by (auto simp: epochs_ok_def sorted_wrt_append)

lemma epochs_ok_snoc:
  "epochs_ok es \<Longrightarrow> 0 \<le> sint (ee_Epoch e) \<Longrightarrow> \<forall>x\<in>set es. entry_lt x e \<Longrightarrow> epochs_ok (es @ [e])"
  by (auto simp: epochs_ok_append) (simp add: epochs_ok_def)

lemma entry_lt_trans: "entry_lt a b \<Longrightarrow> entry_lt b c \<Longrightarrow> entry_lt a c"
  by (auto simp: entry_lt_def)

lemma epochs_ok_last:
  assumes "epochs_ok es" and "x \<in> set es" and "es \<noteq> []"
  shows "x = last es \<or> entry_lt x (last es)"
proof -
  have "es = butlast es @ [last es]" using assms(3) by simp
  with assms(1,2) show ?thesis by (metis epochs_ok_append Un_iff list.set_intros(1) set_append set_ConsD empty_iff list.set(1))
qed

text \<open>A prefix of a valid history is valid.\<close>

lemma epochs_ok_takeWhile: "epochs_ok es \<Longrightarrow> epochs_ok (takeWhile P es)"
  by (metis epochs_ok_append takeWhile_dropWhile_id)

lemma epochs_ok_Assign:
  assumes ok: "epochs_ok (lec_entries c)" and a: "Assign c epoch start = Inr (ch, c')"
  shows "epochs_ok (lec_entries c')"
proof -
  let ?es = "lec_entries c" and ?new = "\<lparr>ee_Epoch = epoch, ee_StartOffset = start\<rparr>"
  let ?P = "\<lambda>e. \<not> (sint (ee_Epoch e) \<ge> sint epoch \<or> ee_StartOffset e \<ge> start)"
  have nn: "0 \<le> sint (ee_Epoch ?new)"
    using a by (simp add: Assign_def split: if_splits)
  consider "c' = c" | "?es = []" "lec_entries c' = [?new]"
    | "?es \<noteq> []" "entry_lt (last ?es) ?new" "lec_entries c' = ?es @ [?new]"
    | "lec_entries c' = takeWhile ?P ?es @ [?new]"
    using a by (auto simp: Assign_def Let_def entry_lt_def split: if_splits)
  then show ?thesis
  proof cases
    case 1 then show ?thesis using ok by simp
  next
    case 2 then show ?thesis using epochs_ok_snoc [of "[]" ?new] nn by simp
  next
    case 3
    then have "\<forall>x\<in>set ?es. entry_lt x ?new"
      using epochs_ok_last [OF ok] entry_lt_trans by blast
    then show ?thesis using 3 ok nn epochs_ok_snoc by simp
  next
    case 4
    have "\<forall>x\<in>set (takeWhile ?P ?es). entry_lt x ?new"
      by (auto simp: entry_lt_def not_le dest: set_takeWhileD)
    then show ?thesis using 4 ok nn epochs_ok_snoc epochs_ok_takeWhile by simp
  qed
qed

lemma epochs_ok_TruncateFromEnd:
  "epochs_ok (lec_entries c) \<Longrightarrow> epochs_ok (lec_entries (snd (TruncateFromEnd c off)))"
  by (simp add: TruncateFromEnd_def Let_def epochs_ok_takeWhile)

lemma epochs_ok_TruncateAfter:
  "epochs_ok (lec_entries c) \<Longrightarrow> epochs_ok (lec_entries (snd (TruncateAfter c off)))"
  by (simp add: TruncateAfter_def Let_def epochs_ok_takeWhile)

section \<open>What the lookups return\<close>

text \<open>The entry in force at an offset is the last one that starts at or before it.\<close>

lemma epoch_scan_filter:
  assumes "sorted_wrt entry_lt es"
  shows "epoch_scan es off found =
    (case filter (\<lambda>e. ee_StartOffset e \<le> off) es of [] \<Rightarrow> found | xs \<Rightarrow> Some (ee_Epoch (last xs)))"
  using assms
proof (induction es arbitrary: found)
  case (Cons e es)
  show ?case
  proof (cases "ee_StartOffset e > off")
    case True
    then have "filter (\<lambda>e. ee_StartOffset e \<le> off) es = []"
      using Cons.prems by (auto simp: entry_lt_def filter_empty_conv)
    with True show ?thesis by (simp add: not_le [symmetric])
  next
    case False
    moreover have "epoch_scan es off (Some (ee_Epoch e)) =
        (case filter (\<lambda>e. ee_StartOffset e \<le> off) es of [] \<Rightarrow> Some (ee_Epoch e) | xs \<Rightarrow> Some (ee_Epoch (last xs)))"
      using Cons by simp
    ultimately show ?thesis
      by (cases "filter (\<lambda>e. ee_StartOffset e \<le> off) es") (simp_all add: not_less leD)
  qed
qed simp

lemma EpochForOffset_Some_iff:
  assumes "epochs_ok (lec_entries c)"
  shows "EpochForOffset c off = Some ep \<longleftrightarrow>
    (\<exists>xs e ys. lec_entries c = xs @ e # ys \<and> ee_Epoch e = ep \<and> ee_StartOffset e \<le> off \<and>
       (\<forall>y\<in>set ys. off < ee_StartOffset y))" (is "?L \<longleftrightarrow> ?R ep")
proof
  let ?F = "filter (\<lambda>e. ee_StartOffset e \<le> off) (lec_entries c)"
  have scan: "EpochForOffset c off = (case ?F of [] \<Rightarrow> None | xs \<Rightarrow> Some (ee_Epoch (last xs)))"
    using assms by (simp add: EpochForOffset_def epoch_scan_filter epochs_ok_def)
  have found: "EpochForOffset c off = Some q" if "?R q" for q
  proof -
    from that obtain xs e ys where "lec_entries c = xs @ e # ys" "ee_Epoch e = q" "ee_StartOffset e \<le> off"
      "\<forall>y\<in>set ys. off < ee_StartOffset y" by blast
    then have "filter (\<lambda>e. ee_StartOffset e \<le> off) ys = []" "last ?F = e" "?F \<noteq> []"
      by (auto simp: filter_empty_conv)
    with scan \<open>ee_Epoch e = q\<close> show ?thesis by (auto split: list.splits)
  qed
  show "?L \<Longrightarrow> ?R ep"
  proof -
    assume L: ?L
    with scan have "?F \<noteq> []" by (auto split: list.splits)
    then have "\<exists>x\<in>set (lec_entries c). ee_StartOffset x \<le> off"
      by (simp add: filter_empty_conv)
    then obtain xs e ys where e: "lec_entries c = xs @ e # ys" "ee_StartOffset e \<le> off"
      "\<forall>y\<in>set ys. off < ee_StartOffset y"
      by (auto simp: not_le dest!: split_list_last_prop)
    then have "?R (ee_Epoch e)" by blast
    then have "ee_Epoch e = ep" using found [of "ee_Epoch e"] L by simp
    with e show "?R ep" by blast
  qed
  show "?R ep \<Longrightarrow> ?L" by (rule found)
qed

text \<open>An assigned epoch is the one in force at the offset it was assigned from.\<close>

lemma Assign_lookup:
  assumes ok: "epochs_ok (lec_entries c)" and a: "Assign c epoch start = Inr (ch, c')"
  shows "EpochForOffset c' start = Some epoch"
proof -
  let ?new = "\<lparr>ee_Epoch = epoch, ee_StartOffset = start\<rparr>"
  have "lec_entries c' = butlast (lec_entries c') @ [last (lec_entries c')]"
    "ee_Epoch (last (lec_entries c')) = epoch" "ee_StartOffset (last (lec_entries c')) \<le> start"
    using a by (auto simp: Assign_def Let_def split: if_splits)
  then show ?thesis
    using EpochForOffset_Some_iff [OF epochs_ok_Assign [OF ok a]] by (metis empty_iff list.set(1))
qed

text \<open>The end offset of a requested epoch: the entry is the last whose epoch is not above it,
  the offset is where the next entry starts, or the log end.\<close>

lemma end_scan_find:
  assumes "i < length es" and "sint (ee_Epoch (es ! i)) \<le> sint r" and "i + 1 < length es"
    and "\<forall>j. i < j \<and> j < n \<longrightarrow> sint r < sint (ee_Epoch (es ! j))" and "i < n" and "n \<le> length es"
  shows "end_scan es r n =
    Some (Some \<lparr>eo_Epoch = ee_Epoch (es ! i), eo_EndOffset = ee_StartOffset (es ! Suc i)\<rparr>)"
  using assms
proof (induction n)
  case (Suc n)
  show ?case
  proof (cases "n = i")
    case True
    then show ?thesis using Suc.prems by (simp add: go_index_def nat_add_distrib)
  next
    case False
    then have "\<not> sint (ee_Epoch (es ! n)) \<le> sint r" using Suc.prems by (simp add: not_le)
    moreover have "end_scan es r n =
        Some (Some \<lparr>eo_Epoch = ee_Epoch (es ! i), eo_EndOffset = ee_StartOffset (es ! Suc i)\<rparr>)"
      using False Suc by auto
    ultimately show ?thesis by simp
  qed
qed simp

lemma epochs_ok_nth: "epochs_ok es \<Longrightarrow> i < j \<Longrightarrow> j < length es \<Longrightarrow> entry_lt (es ! i) (es ! j)"
  by (simp add: epochs_ok_def sorted_wrt_nth_less)

lemma EndOffsetFor_entry:
  assumes ok: "epochs_ok (lec_entries c)" and i: "Suc i < length (lec_entries c)"
    and r: "sint (ee_Epoch (lec_entries c ! i)) \<le> sint r" "sint r < sint (ee_Epoch (lec_entries c ! Suc i))"
  shows "EndOffsetFor c r leo = Some (Some
    \<lparr>eo_Epoch = ee_Epoch (lec_entries c ! i), eo_EndOffset = ee_StartOffset (lec_entries c ! Suc i)\<rparr>)"
proof -
  let ?es = "lec_entries c"
  have ne: "?es \<noteq> []" using i by auto
  have lt: "entry_lt (?es ! k) (?es ! j)" if "k < j" "j < length ?es" for k j
    using epochs_ok_nth [OF ok that] .
  have hd: "sint (ee_Epoch (hd ?es)) \<le> sint (ee_Epoch (?es ! i))"
    using lt [of 0 i] i ne by (cases "i = 0") (auto simp: hd_conv_nth entry_lt_def)
  have la: "sint (ee_Epoch (?es ! Suc i)) \<le> sint (ee_Epoch (last ?es))"
  proof (cases "Suc i = length ?es - 1")
    case False
    then have "Suc i < length ?es - 1" using i by linarith
    then show ?thesis
      using lt [of "Suc i" "length ?es - 1"] ne by (simp add: last_conv_nth entry_lt_def)
  qed (use ne in \<open>simp add: last_conv_nth\<close>)
  have pos: "0 \<le> sint (ee_Epoch (?es ! i))"
    using ok i by (simp add: epochs_ok_def list_all_length)
  have "sint r < sint (ee_Epoch (?es ! j))" if "i < j" "j < length ?es" for j
    using r(2) lt [of "Suc i" j] that by (cases "j = Suc i") (auto simp: entry_lt_def)
  then have "end_scan ?es r (length ?es) =
      Some (Some \<lparr>eo_Epoch = ee_Epoch (?es ! i), eo_EndOffset = ee_StartOffset (?es ! Suc i)\<rparr>)"
    using i r(1) by (intro end_scan_find) auto
  with hd la pos r ne show ?thesis
    by (auto simp: EndOffsetFor_def Let_def)
qed

text \<open>It never panics.\<close>

lemma end_scan_Some: "n < length es \<Longrightarrow> end_scan es r n \<noteq> None"
  by (induction n) (auto simp: go_index_def)

lemma EndOffsetFor_Some: "EndOffsetFor c r leo \<noteq> None"
proof (cases "lec_entries c = []")
  case False
  then obtain n where n: "length (lec_entries c) = Suc n"
    by (metis length_0_conv not0_implies_Suc)
  then have "last (lec_entries c) = lec_entries c ! n"
    using False by (simp add: last_conv_nth)
  then show ?thesis
    using n end_scan_Some [of n "lec_entries c" r] by (auto simp: EndOffsetFor_def Let_def dest: sint_inject)
qed (simp add: EndOffsetFor_def Let_def)

section \<open>Histories\<close>

text \<open>The caches a program can build.\<close>

inductive built :: "LeaderEpochCache \<Rightarrow> bool" where
  new: "built NewLeaderEpochCache"
| assign: "built c \<Longrightarrow> Assign c epoch start = Inr (ch, c') \<Longrightarrow> built c'"
| truncate_end: "built c \<Longrightarrow> built (snd (TruncateFromEnd c off))"
| truncate_after: "built c \<Longrightarrow> built (snd (TruncateAfter c off))"

lemma built_ok: "built c \<Longrightarrow> epochs_ok (lec_entries c)"
  by (induction rule: built.induct) (auto intro: epochs_ok_Assign epochs_ok_TruncateFromEnd epochs_ok_TruncateAfter)

text \<open>
  The reference for the end of an epoch: split the history at the requested epoch; the answer is
  the last epoch not above it, which ends where the first epoch above it starts, or at the end
  of the log.
\<close>

definition end_reference :: "EpochEntry list \<Rightarrow> i32 \<Rightarrow> u64 \<Rightarrow> EpochEndOffset option" where
  "end_reference es r leo =
     (if sint r < 0 then None
      else case (filter (\<lambda>e. sint (ee_Epoch e) \<le> sint r) es, filter (\<lambda>e. sint r < sint (ee_Epoch e)) es) of
        ([], []) \<Rightarrow> None
      | ([], a # _) \<Rightarrow> Some \<lparr>eo_Epoch = r, eo_EndOffset = ee_StartOffset a\<rparr>
      | (below, []) \<Rightarrow> if ee_Epoch (last below) = r then Some \<lparr>eo_Epoch = r, eo_EndOffset = leo\<rparr> else None
      | (below, a # _) \<Rightarrow> Some \<lparr>eo_Epoch = ee_Epoch (last below), eo_EndOffset = ee_StartOffset a\<rparr>)"

lemma epochs_split:
  "sorted_wrt entry_lt es \<Longrightarrow>
   es = filter (\<lambda>e. sint (ee_Epoch e) \<le> sint r) es @ filter (\<lambda>e. sint r < sint (ee_Epoch e)) es"
proof (induction es)
  case (Cons e es)
  show ?case
  proof (cases "sint (ee_Epoch e) \<le> sint r")
    case False
    then have "filter (\<lambda>e. sint (ee_Epoch e) \<le> sint r) es = []"
      using Cons.prems by (auto simp: filter_empty_conv entry_lt_def)
    with False Cons show ?thesis by simp
  qed (use Cons in simp)
qed simp

lemma EndOffsetFor_reference:
  assumes ok: "epochs_ok (lec_entries c)"
  shows "EndOffsetFor c r leo = Some (end_reference (lec_entries c) r leo)"
proof -
  define B where "B = filter (\<lambda>e. sint (ee_Epoch e) \<le> sint r) (lec_entries c)"
  define A where "A = filter (\<lambda>e. sint r < sint (ee_Epoch e)) (lec_entries c)"
  have es: "lec_entries c = B @ A" unfolding B_def A_def by (rule epochs_split) (use ok in \<open>simp add: epochs_ok_def\<close>)
  have B: "\<And>x. x \<in> set B \<Longrightarrow> sint (ee_Epoch x) \<le> sint r" by (simp add: B_def)
  have A: "\<And>x. x \<in> set A \<Longrightarrow> sint r < sint (ee_Epoch x)" by (simp add: A_def)
  note ref = end_reference_def [of "lec_entries c" r leo, folded A_def B_def]
  note code = EndOffsetFor_def [of c r leo, unfolded es Let_def]
  consider "sint r < 0" | "B = []" "A = []" | a as where "0 \<le> sint r" "B = []" "A = a # as"
    | "0 \<le> sint r" "B \<noteq> []" "A = []" | a as where "0 \<le> sint r" "B \<noteq> []" "A = a # as"
    by (metis neq_Nil_conv not_less)
  then show ?thesis
  proof cases
    case (3 a as)
    then show ?thesis using A [of a] by (simp add: ref code)
  next
    case 4
    then show ?thesis
      using B [of "hd B"] B [of "last B"] by (auto simp: ref code neq_Nil_conv dest: sint_inject)
  next
    case (5 a as)
    let ?i = "length B - 1"
    have i: "Suc ?i = length B" using 5 by (cases B) auto
    have n1: "lec_entries c ! ?i = last B" using 5 i by (simp add: es nth_append last_conv_nth)
    have n2: "lec_entries c ! Suc ?i = a" using 5 i by (simp add: es nth_append)
    have "EndOffsetFor c r leo = Some (Some \<lparr>eo_Epoch = ee_Epoch (last B), eo_EndOffset = ee_StartOffset a\<rparr>)"
      using EndOffsetFor_entry [OF ok, of ?i r leo] B [of "last B"] A [of a] 5 i n1 n2 by (simp add: es)
    then show ?thesis using 5 by (cases B) (simp_all add: ref)
  qed (simp_all add: ref code)
qed

end
