(* ===== verification/Checkpoint.thy ===== *)
theory Checkpoint
  imports EpochCache GoText
begin

text \<open>
  \<open>epoch_checkpoint.go\<close>: the text file that stores a leader-epoch history.  The file system is a
  map from paths to contents with a flag saying whether the content was synced.  \<open>Write\<close>
  yields the list of file-system states it passes through, so that a crash at any moment is
  a choice of one of them.  Proved: reading back what was written, and that the checkpoint
  file is at every moment either the old one or a complete, synced new one.
\<close>

section \<open>Reading\<close>

datatype CheckpointError =
    OpenFailed | ReadFailed
  | UnsupportedVersion bytes | MissingCount | InvalidCount bytes
  | MissingEntry nat | WrongFields nat nat | InvalidEpoch nat bytes | InvalidOffset nat bytes
  | TrailingContent

definition epochCheckpointVersion :: int where "epochCheckpointVersion = 0"

definition parse_entry :: "nat \<Rightarrow> bytes \<Rightarrow> CheckpointError + EpochEntry" where
  "parse_entry i line =
     (let fields = Fields line in
      if length fields \<noteq> 2 then Inl (WrongFields i (length fields))
      else case ParseInt 32 (fields ! 0) of
        None \<Rightarrow> Inl (InvalidEpoch i (fields ! 0))
      | Some epoch \<Rightarrow>
          if epoch < 0 then Inl (InvalidEpoch i (fields ! 0))
          else case ParseInt 64 (fields ! 1) of
            None \<Rightarrow> Inl (InvalidOffset i (fields ! 1))
          | Some offset \<Rightarrow>
              if offset < 0 then Inl (InvalidOffset i (fields ! 1))
              else Inr \<lparr>ee_Epoch = word_of_int epoch, ee_StartOffset = word_of_int offset\<rparr>)"

fun read_entries :: "nat \<Rightarrow> nat \<Rightarrow> EpochEntry list \<Rightarrow> Scanner \<Rightarrow> CheckpointError + EpochEntry list \<times> Scanner" where
  "read_entries i 0 acc sc = Inr (acc, sc)"
| "read_entries i (Suc n) acc sc =
     (case Scan sc of
        ScanErr \<Rightarrow> Inl ReadFailed
      | ScanEnd \<Rightarrow> Inl (MissingEntry i)
      | ScanLine line sc' \<Rightarrow>
          (case parse_entry i line of
             Inl e \<Rightarrow> Inl e
           | Inr en \<Rightarrow> read_entries (Suc i) n (acc @ [en]) sc'))"

definition read_body :: "int \<Rightarrow> Scanner \<Rightarrow> CheckpointError + EpochEntry list" where
  "read_body count sc =
     (case read_entries 0 (nat count) [] sc of
        Inl e \<Rightarrow> Inl e
      | Inr (entries, sc) \<Rightarrow>
          (case Scan sc of
             ScanLine _ _ \<Rightarrow> Inl TrailingContent
           | ScanErr \<Rightarrow> Inl ReadFailed
           | ScanEnd \<Rightarrow> Inr entries))"

definition read_lines :: "Scanner \<Rightarrow> CheckpointError + EpochEntry list" where
  "read_lines sc =
     (case Scan sc of
        ScanErr \<Rightarrow> Inl ReadFailed
      | ScanEnd \<Rightarrow> Inr []
      | ScanLine l sc \<Rightarrow>
          if Atoi (TrimSpace l) \<noteq> Some epochCheckpointVersion then Inl (UnsupportedVersion l)
          else case Scan sc of
            ScanErr \<Rightarrow> Inl ReadFailed
          | ScanEnd \<Rightarrow> Inl MissingCount
          | ScanLine l sc \<Rightarrow>
              (case Atoi (TrimSpace l) of
                 None \<Rightarrow> Inl (InvalidCount l)
               | Some count \<Rightarrow> if count < 0 then Inl (InvalidCount l) else read_body count sc))"

text \<open>A file system: content and whether it was synced.\<close>

type_synonym FS = "gostring \<Rightarrow> (bytes \<times> bool) option"

record ReadFault =
  rf_open :: bool
  rf_read :: "nat option"

definition Checkpoint_Read :: "FS \<Rightarrow> gostring \<Rightarrow> ReadFault \<Rightarrow> CheckpointError + EpochEntry list" where
  "Checkpoint_Read fs path fault =
     (if rf_open fault then Inl OpenFailed
      else case fs path of
        None \<Rightarrow> Inr []
      | Some (data, _) \<Rightarrow> read_lines \<lparr>sc_data = data, sc_fail = rf_read fault\<rparr>)"

section \<open>Writing\<close>

datatype WriteError =
    NegativeEpochEntry nat | OffsetTooLarge nat | EpochNotIncreasing nat | OffsetNotIncreasing nat
  | TempOpenFailed | TempWriteFailed | TempSyncFailed | TempCloseFailed | RenameFailed | DirSyncFailed

text \<open>\<open>wf_write = Some (n, e)\<close>: the write stores \<open>n\<close> bytes and reports an error iff \<open>e\<close>.\<close>

record WriteFault =
  wf_open :: bool
  wf_write :: "(nat \<times> bool) option"
  wf_sync :: bool
  wf_close :: bool
  wf_rename :: bool
  wf_syncDir :: bool
  wf_remove :: bool

definition no_fault :: WriteFault where
  "no_fault = \<lparr>wf_open = False, wf_write = None, wf_sync = False, wf_close = False, wf_rename = False,
     wf_syncDir = False, wf_remove = False\<rparr>"

fun check_entries :: "nat \<Rightarrow> EpochEntry option \<Rightarrow> EpochEntry list \<Rightarrow> WriteError option" where
  "check_entries i prev [] = None"
| "check_entries i prev (e # es) =
     (if sint (ee_Epoch e) < 0 then Some (NegativeEpochEntry i)
      else if unat (ee_StartOffset e) > 2 ^ 63 - 1 then Some (OffsetTooLarge i)
      else case prev of
        Some p \<Rightarrow>
          if sint (ee_Epoch e) \<le> sint (ee_Epoch p) then Some (EpochNotIncreasing i)
          else if ee_StartOffset e \<le> ee_StartOffset p then Some (OffsetNotIncreasing i)
          else check_entries (Suc i) (Some e) es
      | None \<Rightarrow> check_entries (Suc i) (Some e) es)"

definition entry_text :: "EpochEntry \<Rightarrow> bytes" where
  "entry_text e = fmt_d (sint (ee_Epoch e)) @ [32] @ fmt_d (uint (ee_StartOffset e)) @ [10]"

definition checkpoint_text :: "EpochEntry list \<Rightarrow> bytes" where
  "checkpoint_text entries =
     fmt_d epochCheckpointVersion @ [10] @ fmt_d (int (length entries)) @ [10] @ concat (map entry_text entries)"

definition tmp_path :: "gostring \<Rightarrow> gostring" where
  "tmp_path path = path @ [0x2E, 0x74, 0x6D, 0x70]"

definition remove_tmp :: "WriteFault \<Rightarrow> gostring \<Rightarrow> FS \<Rightarrow> FS" where
  "remove_tmp fault path fs = (if wf_remove fault then fs else fs(tmp_path path := None))"

text \<open>The outcome and every file-system state passed through, the last one first.\<close>

definition Checkpoint_Write ::
    "FS \<Rightarrow> gostring \<Rightarrow> EpochEntry list \<Rightarrow> WriteFault \<Rightarrow> WriteError option \<times> FS list" where
  "Checkpoint_Write fs path entries fault =
     (case check_entries 0 None entries of
        Some err \<Rightarrow> (Some err, [fs])
      | None \<Rightarrow>
          let data = checkpoint_text entries; tmp = tmp_path path in
          if wf_open fault then (Some TempOpenFailed, [fs])
          else let fs1 = fs(tmp \<mapsto> ([], False));
                   (n, werr) = (case wf_write fault of None \<Rightarrow> (length data, False) | Some w \<Rightarrow> w);
                   fs2 = fs1(tmp \<mapsto> (take n data, False))
          in if werr \<or> n \<noteq> length data
             then (Some TempWriteFailed, [remove_tmp fault path fs2, fs2, fs1, fs])
             else if wf_sync fault
             then (Some TempSyncFailed, [remove_tmp fault path fs2, fs2, fs1, fs])
             else let fs3 = fs2(tmp \<mapsto> (take n data, True)) in
             if wf_close fault
             then (Some TempCloseFailed, [remove_tmp fault path fs3, fs3, fs2, fs1, fs])
             else if wf_rename fault
             then (Some RenameFailed, [remove_tmp fault path fs3, fs3, fs2, fs1, fs])
             else let fs4 = fs3(path := fs3 tmp, tmp := None) in
             (if wf_syncDir fault then Some DirSyncFailed else None, [fs4, fs3, fs2, fs1, fs]))"

section \<open>Reading back a checkpoint\<close>

definition entry_ok :: "EpochEntry \<Rightarrow> bool" where
  "entry_ok e \<longleftrightarrow> 0 \<le> sint (ee_Epoch e) \<and> unat (ee_StartOffset e) < 2 ^ 63"

lemma entry_text_dec:
  "entry_ok e \<Longrightarrow> entry_text e = dec_nat (nat (sint (ee_Epoch e))) @ 32 # dec_nat (unat (ee_StartOffset e)) @ [10]"
  by (simp add: entry_text_def fmt_d_def entry_ok_def)

lemma parse_entry_text:
  assumes "entry_ok e"
  shows "parse_entry i (dec_nat (nat (sint (ee_Epoch e))) @ 32 # dec_nat (unat (ee_StartOffset e))) = Inr e"
proof -
  have "Fields (dec_nat (nat (sint (ee_Epoch e))) @ 32 # dec_nat (unat (ee_StartOffset e))) =
      [dec_nat (nat (sint (ee_Epoch e))), dec_nat (unat (ee_StartOffset e))]"
    by (rule Fields_two) (simp_all add: dec_nat_all)
  moreover have "sint (ee_Epoch e) < 2 ^ 31"
    using sint_lt [of "ee_Epoch e"] by simp
  then have "nat (sint (ee_Epoch e)) < 2 ^ (32 - 1)"
    using assms by (simp add: entry_ok_def nat_less_iff)
  then have "ParseInt 32 (dec_nat (nat (sint (ee_Epoch e)))) = Some (sint (ee_Epoch e))"
    using assms by (simp add: ParseInt_dec entry_ok_def)
  moreover have "ParseInt 64 (dec_nat (unat (ee_StartOffset e))) = Some (uint (ee_StartOffset e))"
    using assms by (simp add: ParseInt_dec entry_ok_def)
  ultimately show ?thesis
    using assms by (simp add: parse_entry_def entry_ok_def)
qed

lemma Scan_entry:
  assumes "entry_ok e"
  shows "Scan \<lparr>sc_data = entry_text e @ rest, sc_fail = None\<rparr> =
    ScanLine (dec_nat (nat (sint (ee_Epoch e))) @ 32 # dec_nat (unat (ee_StartOffset e)))
      \<lparr>sc_data = rest, sc_fail = None\<rparr>"
proof -
  let ?a = "dec_nat (nat (sint (ee_Epoch e)))" and ?b = "dec_nat (unat (ee_StartOffset e))"
  have "nat (sint (ee_Epoch e)) < 2 ^ 31"
    using sint_lt [of "ee_Epoch e"] by (simp add: nat_less_iff)
  then have "length ?a \<le> 100"
    using length_dec_nat [of "nat (sint (ee_Epoch e))" 99] by simp
  moreover have "length ?b \<le> 100"
    using length_dec_nat [of "unat (ee_StartOffset e)" 99] assms by (simp add: entry_ok_def)
  ultimately have "Scan \<lparr>sc_data = (?a @ 32 # ?b) @ 10 # rest, sc_fail = None\<rparr> =
      ScanLine (?a @ 32 # ?b) \<lparr>sc_data = rest, sc_fail = None\<rparr>"
    using digits_line [OF dec_nat_all [of "nat (sint (ee_Epoch e))"] dec_nat_not_Nil]
      digits_line [OF dec_nat_all [of "unat (ee_StartOffset e)"] dec_nat_not_Nil]
    by (intro Scan_line) auto
  then show ?thesis using assms by (simp add: entry_text_dec)
qed

lemma read_entries_text:
  "list_all entry_ok es \<Longrightarrow>
   read_entries i (length es) acc \<lparr>sc_data = concat (map entry_text es) @ rest, sc_fail = None\<rparr> =
     Inr (acc @ es, \<lparr>sc_data = rest, sc_fail = None\<rparr>)"
  by (induction es arbitrary: i acc) (simp_all add: Scan_entry parse_entry_text)

lemma check_entries_ok: "check_entries i prev es = None \<Longrightarrow> list_all entry_ok es"
  by (induction i prev es rule: check_entries.induct) (auto simp: entry_ok_def split: if_splits option.splits)

lemma read_lines_text:
  assumes "list_all entry_ok es" and "length es < 2 ^ 63"
  shows "read_lines \<lparr>sc_data = checkpoint_text es, sc_fail = None\<rparr> = Inr es"
proof -
  let ?t = "concat (map entry_text es)"
  have len: "length es < 10 ^ 100" using assms(2) by simp
  have "checkpoint_text es = dec_nat 0 @ 10 # dec_nat (length es) @ 10 # ?t"
    by (simp add: checkpoint_text_def fmt_d_def epochCheckpointVersion_def)
  moreover have "Atoi (TrimSpace (dec_nat 0)) = Some 0" "Atoi (TrimSpace (dec_nat (length es))) = Some (int (length es))"
    using assms(2) by (simp_all add: Atoi_def TrimSpace_dec ParseInt_dec)
  moreover have "read_body (int (length es)) \<lparr>sc_data = ?t, sc_fail = None\<rparr> = Inr es"
    using read_entries_text [OF assms(1), of 0 "[]" "[]"] by (simp add: read_body_def Scan_def)
  ultimately show ?thesis
    using Scan_dec [of 0 "dec_nat (length es) @ 10 # ?t"] Scan_dec [OF len, of ?t]
    by (simp add: read_lines_def epochCheckpointVersion_def)
qed

section \<open>Atomicity of the write\<close>

lemma tmp_path_neq [simp]: "tmp_path path \<noteq> path" "path \<noteq> tmp_path path"
  by (auto simp: tmp_path_def)

lemma Checkpoint_Write_states:
  assumes "Checkpoint_Write fs path es fault = (err, states)" and "st \<in> set states"
  shows "st path = fs path \<or> st path = Some (checkpoint_text es, True)"
  using assms
  by (auto simp: Checkpoint_Write_def Let_def remove_tmp_def split: option.splits if_splits prod.splits)

lemma Checkpoint_Write_done:
  assumes "Checkpoint_Write fs path es fault = (None, states)"
  shows "hd states path = Some (checkpoint_text es, True)" and "list_all entry_ok es"
  using assms
  by (auto simp: Checkpoint_Write_def Let_def dest: check_entries_ok split: option.splits if_splits prod.splits)

lemma Checkpoint_Write_changed:
  assumes "Checkpoint_Write fs path es fault = (err, states)" and "st \<in> set states" and "st path \<noteq> fs path"
  shows "list_all entry_ok es"
  using assms
  by (cases "check_entries 0 None es") (auto simp: Checkpoint_Write_def dest: check_entries_ok)

text \<open>Every history the cache can hold, with offsets in the signed range, is accepted.\<close>

lemma check_entries_accepts:
  "epochs_ok es \<Longrightarrow> list_all entry_ok es \<Longrightarrow> (case prev of None \<Rightarrow> True | Some p \<Rightarrow> \<forall>e\<in>set es. entry_lt p e) \<Longrightarrow>
   check_entries i prev es = None"
proof (induction i prev es rule: check_entries.induct)
  case (2 i prev e es)
  have "epochs_ok es" "\<forall>x\<in>set es. entry_lt e x"
    using 2(3) epochs_ok_append [of "[e]" es] by auto
  with 2 show ?case
    by (auto simp: entry_ok_def entry_lt_def not_le split: option.splits)
qed simp

end
