(* ===== verification/Log.thy ===== *)
theory Log
  imports SegmentRep Index Checkpoint
begin

text \<open>
  \<open>log.go\<close>, \<open>log_raw.go\<close>, \<open>truncate.go\<close>, \<open>epoch_lifecycle.go\<close>, \<open>epoch_recovery.go\<close>: the log of a
  partition, a sequence of sealed segments and an active one, each with its offset index,
  and the leader-epoch history with its checkpoint.

  The record \<open>Log\<close> holds the open segments and indexes with the content of their files; the files
  of the directory that are not open (left behind by a failed removal) are kept next to
  them, because \<open>roll\<close> opens them again.  Calls that fail are given by \<open>LogIO\<close>, by the base offset
  of the files they act on.  An operation returns its result or error and the log
  afterwards, \<^const>\<open>None\<close> for a panic.
\<close>

section \<open>Configuration and state\<close>

definition defaultMaxSegmentBytes :: int where "defaultMaxSegmentBytes = 2 ^ 30"
definition defaultMaxIndexBytes :: int where "defaultMaxIndexBytes = 2 ^ 20"
definition defaultIndexIntervalBytes :: int where "defaultIndexIntervalBytes = 4096"
definition defaultMaxMessageBytes :: int where "defaultMaxMessageBytes = 1048588"

record LogConfig =
  lc_MaxSegmentBytes :: int
  lc_MaxIndexBytes :: int
  lc_IndexIntervalBytes :: int
  lc_MaxMessageBytes :: int

definition applyDefaults :: "LogConfig \<Rightarrow> LogConfig" where
  "applyDefaults c =
     \<lparr>lc_MaxSegmentBytes = (if lc_MaxSegmentBytes c \<le> 0 then defaultMaxSegmentBytes else lc_MaxSegmentBytes c),
      lc_MaxIndexBytes = (if lc_MaxIndexBytes c \<le> 0 then defaultMaxIndexBytes else lc_MaxIndexBytes c),
      lc_IndexIntervalBytes = (if lc_IndexIntervalBytes c \<le> 0 then defaultIndexIntervalBytes else lc_IndexIntervalBytes c),
      lc_MaxMessageBytes = (if lc_MaxMessageBytes c \<le> 0 then defaultMaxMessageBytes else lc_MaxMessageBytes c)\<rparr>"

record segmentPair =
  sp_segment :: Segment
  sp_index :: Index
  sp_bytesSinceIndex :: int

abbreviation base :: "segmentPair \<Rightarrow> u64" where "base p \<equiv> sg_baseOffset (sp_segment p)"
abbreviation next_of :: "segmentPair \<Rightarrow> u64" where "next_of p \<equiv> sg_nextOffset (sp_segment p)"

text \<open>The files of the directory that are not open, by base offset.\<close>

record LogFiles =
  lf_log :: "u64 \<Rightarrow> bytes option"
  lf_index :: "u64 \<Rightarrow> bytes option"

record Log =
  lg_config :: LogConfig
  lg_active :: segmentPair
  lg_sealed :: "segmentPair list"
  lg_files :: LogFiles
  lg_epochCache :: LeaderEpochCache
  lg_dirty :: bool
  lg_fs :: FS
  lg_path :: gostring

text \<open>Failing calls on the files of one base offset: opening the segment file, the calls of its
  recovery, opening or mapping the index, closing, and the two removals.\<close>

record PairIO =
  pio_open :: bool
  pio_recover :: SegmentIO
  pio_index :: bool
  pio_close :: bool
  pio_rmLog :: bool
  pio_rmIndex :: bool

record LogIO =
  li_pair :: "u64 \<Rightarrow> PairIO"
  li_write :: "nat option"
  li_truncate :: bool
  li_checkpoint :: WriteFault

definition pair_io_ok :: PairIO where
  "pair_io_ok = \<lparr>pio_open = False, pio_recover = io_ok, pio_index = False, pio_close = False, pio_rmLog = False, pio_rmIndex = False\<rparr>"

definition log_io_ok :: LogIO where
  "log_io_ok = \<lparr>li_pair = (\<lambda>_. pair_io_ok), li_write = None, li_truncate = False, li_checkpoint = no_fault\<rparr>"

section \<open>Segments with their index\<close>

text \<open>The result says whether the rebuild succeeded; the index written so far stays in any case.\<close>

function rebuild_loop :: "Segment \<Rightarrow> int \<Rightarrow> Index \<Rightarrow> int \<Rightarrow> int \<Rightarrow> bool \<times> Index \<times> int" where
  "rebuild_loop seg interval idx pos bytesSinceIndex =
     (if pos < sg_currentSize seg
      then (case ReadBatchMetaAt seg pos of
          None \<Rightarrow> (False, idx, bytesSinceIndex)
        | Some (firstOffset, _, onDiskSize) \<Rightarrow>
            if onDiskSize \<le> 0 then (False, idx, bytesSinceIndex)
            else if pos + onDiskSize > sg_currentSize seg then (False, idx, bytesSinceIndex)
            else let bytesSinceIndex = bytesSinceIndex + onDiskSize in
              if pos = 0 \<or> bytesSinceIndex \<ge> interval
              then (case Index_Write idx firstOffset pos of
                  Inl _ \<Rightarrow> (False, idx, bytesSinceIndex)
                | Inr idx' \<Rightarrow> rebuild_loop seg interval idx' (pos + onDiskSize) 0)
              else rebuild_loop seg interval idx (pos + onDiskSize) bytesSinceIndex)
      else (True, idx, bytesSinceIndex))"
  by pat_completeness auto
termination
  by (relation "measure (\<lambda>(seg, _, _, pos, _). nat (sg_currentSize seg - pos))") auto

declare rebuild_loop.simps [simp del]

definition rebuildIndexFromSegment :: "Segment \<Rightarrow> Index \<Rightarrow> int \<Rightarrow> bool \<times> Index \<times> int" where
  "rebuildIndexFromSegment seg idx interval = rebuild_loop seg interval (Index_Reset idx) 0 0"

text \<open>A failed open leaves the segment file with the content given next to the error.\<close>

definition newSegmentPair ::
    "PairIO \<Rightarrow> LogFiles \<Rightarrow> u64 \<Rightarrow> LogConfig \<Rightarrow> (bytes option + segmentPair) option" where
  "newSegmentPair io files baseOffset config =
     (let content = (case lf_log files baseOffset of None \<Rightarrow> [] | Some c \<Rightarrow> c);
          icontent = (case lf_index files baseOffset of None \<Rightarrow> [] | Some c \<Rightarrow> c) in
      if pio_open io then Some (Inl (lf_log files baseOffset))
      else case NewSegment (pio_recover io) content baseOffset (lc_MaxSegmentBytes config) of
        None \<Rightarrow> None
      | Some (Inl e) \<Rightarrow> Some (Inl (Some content))
      | Some (Inr seg) \<Rightarrow>
          (case NewIndex icontent baseOffset (lc_MaxIndexBytes config) (pio_index io) of
             Inl e \<Rightarrow> Some (Inl (Some (sg_file seg)))
           | Inr idx \<Rightarrow>
               (case rebuildIndexFromSegment seg idx (lc_IndexIntervalBytes config) of
                  (False, _) \<Rightarrow> Some (Inl (Some (sg_file seg)))
                | (True, idx', bytesSinceIndex) \<Rightarrow>
                    Some (Inr \<lparr>sp_segment = seg, sp_index = idx', sp_bytesSinceIndex = bytesSinceIndex\<rparr>))))"

section \<open>Finding a segment\<close>

text \<open>\<open>sort.Search\<close>.\<close>

function search_loop :: "(nat \<Rightarrow> bool) \<Rightarrow> nat \<Rightarrow> nat \<Rightarrow> nat" where
  "search_loop f i j =
     (if i < j
      then let h = (i + j) div 2 in if \<not> f h then search_loop f (h + 1) j else search_loop f i h
      else i)"
  by pat_completeness auto
termination
  by (relation "measure (\<lambda>(_, i, j). j - i)") auto

declare search_loop.simps [simp del]

definition sort_Search :: "nat \<Rightarrow> (nat \<Rightarrow> bool) \<Rightarrow> nat" where
  "sort_Search n f = search_loop f 0 n"

text \<open>The position of the segment in \<open>sealed @ [active]\<close>.\<close>

definition findSegment :: "segmentPair list \<Rightarrow> segmentPair \<Rightarrow> u64 \<Rightarrow> nat option" where
  "findSegment sealed active offset =
     (if offset \<ge> base active then Some (length sealed)
      else let i = int (sort_Search (length sealed) (\<lambda>i. base (sealed ! i) > offset)) - 1 in
        if i < 0 then None else Some (nat i))"

definition pairs :: "Log \<Rightarrow> segmentPair list" where
  "pairs l = lg_sealed l @ [lg_active l]"

definition OldestOffset :: "Log \<Rightarrow> u64" where
  "OldestOffset l = (if lg_sealed l \<noteq> [] then base (hd (lg_sealed l)) else base (lg_active l))"

definition NextOffset :: "Log \<Rightarrow> u64" where
  "NextOffset l = next_of (lg_active l)"

section \<open>Reading\<close>

text \<open>The scan shared by the three read operations: the position of the batch that holds the
  offset, from a position the index gave.\<close>

lemma meta_size: "ReadBatchMetaAt seg pos = Some (a, d, n) \<Longrightarrow> 12 \<le> n"
  by (auto simp: ReadBatchMetaAt_def split: option.splits)

function find_batch :: "Segment \<Rightarrow> u64 \<Rightarrow> int \<Rightarrow> int option" where
  "find_batch seg offset filePos =
     (case ReadBatchMetaAt seg filePos of
        None \<Rightarrow> None
      | Some (firstOffset, lastOffsetDelta, onDiskSize) \<Rightarrow>
          let batchEnd = firstOffset + ucast lastOffsetDelta in
          if offset \<ge> firstOffset \<and> offset \<le> batchEnd then Some filePos
          else if offset < firstOffset then None
          else let nextPos = filePos + onDiskSize in
            if nextPos \<ge> sg_currentSize seg then None else find_batch seg offset nextPos)"
  by pat_completeness auto
termination
  by (relation "measure (\<lambda>(seg, _, pos). nat (sg_currentSize seg - pos))") (auto dest: meta_size)

declare find_batch.simps [simp del]

definition locate :: "Log \<Rightarrow> u64 \<Rightarrow> (Segment \<times> int) option" where
  "locate l offset =
     (case findSegment (lg_sealed l) (lg_active l) offset of
        None \<Rightarrow> None
      | Some i \<Rightarrow>
          let pair = pairs l ! i in
          (case Lookup (sp_index pair) offset of
             Inl _ \<Rightarrow> None
           | Inr filePos \<Rightarrow> map_option (Pair (sp_segment pair)) (find_batch (sp_segment pair) offset filePos)))"

definition Log_Read :: "Log \<Rightarrow> u64 \<Rightarrow> (LogError + Batch) option" where
  "Log_Read l offset =
     (case locate l offset of None \<Rightarrow> Some (Inl OtherError) | Some (seg, pos) \<Rightarrow> ReadBatchAt seg pos)"

definition ReadRaw :: "Log \<Rightarrow> u64 \<Rightarrow> i32 \<Rightarrow> (bytes \<times> u64) option" where
  "ReadRaw l offset maxBytes =
     (case locate l offset of None \<Rightarrow> None | Some (seg, pos) \<Rightarrow> ReadRawBatchAt seg pos maxBytes)"

definition ReadRawRanges :: "Log \<Rightarrow> u64 \<Rightarrow> i32 \<Rightarrow> ReadRawRangesResult option" where
  "ReadRawRanges l offset maxBytes =
     (case locate l offset of None \<Rightarrow> None | Some (seg, pos) \<Rightarrow> ReadRawRangesAt seg pos maxBytes)"

section \<open>Appending\<close>

type_synonym 'a LogOp = "Log \<Rightarrow> ((LogError + 'a) \<times> Log) option"

definition lbind :: "'a LogOp \<Rightarrow> ('a \<Rightarrow> 'b LogOp) \<Rightarrow> 'b LogOp" where
  "lbind m f l =
     (case m l of
        None \<Rightarrow> None
      | Some (Inl e, l') \<Rightarrow> Some (Inl e, l')
      | Some (Inr a, l') \<Rightarrow> f a l')"

definition roll :: "LogIO \<Rightarrow> unit LogOp" where
  "roll io l =
     (let nextOffset = next_of (lg_active l) in
      case newSegmentPair (li_pair io nextOffset) (lg_files l) nextOffset (lg_config l) of
        None \<Rightarrow> None
      | Some (Inl content) \<Rightarrow>
          Some (Inl OtherError, l\<lparr>lg_files := (lg_files l)\<lparr>lf_log := (lf_log (lg_files l))(nextOffset := content)\<rparr>\<rparr>)
      | Some (Inr newPair) \<Rightarrow>
          Some (Inr (), l\<lparr>lg_sealed := lg_sealed l @ [lg_active l], lg_active := newPair,
            lg_files := \<lparr>lf_log = (lf_log (lg_files l))(nextOffset := None),
                         lf_index = (lf_index (lg_files l))(nextOffset := None)\<rparr>\<rparr>))"

definition roll_if_full :: "LogIO \<Rightarrow> unit LogOp" where
  "roll_if_full io l =
     (if Segment_IsFull (sp_segment (lg_active l)) \<or> Index_IsFull (sp_index (lg_active l)) then roll io l
      else Some (Inr (), l))"

text \<open>An operation of the active segment.\<close>

definition on_active :: "(Segment \<Rightarrow> ((LogError + 'a) \<times> Segment) option) \<Rightarrow> 'a LogOp" where
  "on_active f l =
     (case f (sp_segment (lg_active l)) of
        None \<Rightarrow> None
      | Some (r, seg) \<Rightarrow> Some (r, l\<lparr>lg_active := (lg_active l)\<lparr>sp_segment := seg\<rparr>\<rparr>))"

text \<open>The retry in a new segment when the active one is full.\<close>

definition append_rolling :: "LogIO \<Rightarrow> (Segment \<Rightarrow> ((LogError + 'a) \<times> Segment) option) \<Rightarrow> 'a LogOp" where
  "append_rolling io f =
     lbind (roll_if_full io) (\<lambda>_ l.
       case on_active f l of
         Some (Inl ErrSegmentFull, l') \<Rightarrow> lbind (roll io) (\<lambda>_. on_active f) l'
       | r \<Rightarrow> r)"

text \<open>Counting the bytes and writing an index entry when enough of them came together.\<close>

definition index_appended :: "u64 \<Rightarrow> int \<Rightarrow> int \<Rightarrow> unit LogOp" where
  "index_appended offset pos n l =
     (let active = lg_active l; bytesSinceIndex = sp_bytesSinceIndex active + n in
      if pos = 0 \<or> bytesSinceIndex \<ge> lc_IndexIntervalBytes (lg_config l)
      then (case Index_Write (sp_index active) offset pos of
          Inl _ \<Rightarrow> Some (Inl OtherError, l\<lparr>lg_active := active\<lparr>sp_bytesSinceIndex := bytesSinceIndex\<rparr>\<rparr>)
        | Inr idx \<Rightarrow> Some (Inr (), l\<lparr>lg_active := active\<lparr>sp_index := idx, sp_bytesSinceIndex := 0\<rparr>\<rparr>))
      else Some (Inr (), l\<lparr>lg_active := active\<lparr>sp_bytesSinceIndex := bytesSinceIndex\<rparr>\<rparr>))"

definition append_data ::
    "LogIO \<Rightarrow> (Segment \<Rightarrow> ((LogError + u64 \<times> int \<times> u64) \<times> Segment) option) \<Rightarrow> int \<Rightarrow> (u64 \<times> u64) LogOp" where
  "append_data io f n =
     lbind (append_rolling io f) (\<lambda>(assignedOffset, pos, totalRecords).
       lbind (index_appended assignedOffset pos n) (\<lambda>_ l. Some (Inr (assignedOffset, totalRecords), l)))"

definition AppendRaw :: "LogIO \<Rightarrow> bytes \<Rightarrow> i32 \<Rightarrow> (u64 \<times> u32) LogOp" where
  "AppendRaw io data leaderEpoch l =
     (case scanRawBatches data of
        Inl e \<Rightarrow> Some (Inl e, l)
      | Inr bounds \<Rightarrow>
          if bounds = [] then Some (Inl ErrCorruptBatch, l)
          else if \<exists>b\<in>set bounds. bb_size b > lc_MaxMessageBytes (lg_config l) then Some (Inl ErrMessageTooLarge, l)
          else lbind (append_data io (\<lambda>seg. AppendRawBatches (li_write io) seg data bounds leaderEpoch) (int (length data)))
            (\<lambda>(assignedOffset, totalRecords) l. Some (Inr (assignedOffset, ucast (totalRecords - 1)), l)) l)"

text \<open>The internal path changes the batch it is given; the changed batch is part of the result.\<close>

definition append_batch :: "LogIO \<Rightarrow> Batch \<Rightarrow> Segment \<Rightarrow> ((LogError + int \<times> Batch) \<times> Segment) option" where
  "append_batch io batch seg =
     (case AppendBatch (li_write io) seg batch of
        (Inl e, batch', seg') \<Rightarrow> Some (Inl e, seg')
      | (Inr pos, batch', seg') \<Rightarrow> Some (Inr (pos, batch'), seg'))"

definition Log_Append :: "LogIO \<Rightarrow> Batch \<Rightarrow> (u64 \<times> Batch) LogOp" where
  "Log_Append io batch =
     lbind (roll_if_full io) (\<lambda>_.
     lbind (\<lambda>l. case on_active (append_batch io batch) l of
          Some (Inl ErrSegmentFull, l') \<Rightarrow>
            if sg_currentSize (sp_segment (lg_active l')) = 0 then Some (Inl OtherError, l')
            else lbind (roll io) (\<lambda>_. on_active (append_batch io batch)) l'
        | r \<Rightarrow> r) (\<lambda>(pos, batch').
     lbind (index_appended (b_FirstOffset batch') pos (encodedBatchSize batch'))
       (\<lambda>_ l. Some (Inr (b_FirstOffset batch', batch'), l))))"

section \<open>Leader epochs\<close>

text \<open>The checkpoint is written through the file system of \<^theory_text>\<open>Checkpoint\<close>; whatever happens, the file
  system is the last state the write passed through.\<close>

definition persistEpochCheckpointLocked :: "LogIO \<Rightarrow> unit LogOp" where
  "persistEpochCheckpointLocked io l =
     (if \<not> lg_dirty l then Some (Inr (), l)
      else case Checkpoint_Write (lg_fs l) (lg_path l) (Entries (lg_epochCache l)) (li_checkpoint io) of
        (Some _, states) \<Rightarrow> Some (Inl OtherError, l\<lparr>lg_fs := hd states\<rparr>)
      | (None, states) \<Rightarrow> Some (Inr (), l\<lparr>lg_fs := hd states, lg_dirty := False\<rparr>))"

definition assign_epoch :: "i32 \<Rightarrow> u64 \<Rightarrow> unit LogOp" where
  "assign_epoch epoch startOffset l =
     (case Assign (lg_epochCache l) epoch startOffset of
        Inl _ \<Rightarrow> Some (Inl OtherError, l)
      | Inr (changed, cache) \<Rightarrow> Some (Inr (), l\<lparr>lg_epochCache := cache, lg_dirty := lg_dirty l \<or> changed\<rparr>))"

definition AssignLeaderEpoch :: "LogIO \<Rightarrow> i32 \<Rightarrow> u64 \<Rightarrow> unit LogOp" where
  "AssignLeaderEpoch io epoch startOffset =
     lbind (assign_epoch epoch startOffset) (\<lambda>_. persistEpochCheckpointLocked io)"

fun assign_epochs :: "EpochEntry list \<Rightarrow> unit LogOp" where
  "assign_epochs [] l = Some (Inr (), l)"
| "assign_epochs (e # es) l = lbind (assign_epoch (ee_Epoch e) (ee_StartOffset e)) (\<lambda>_. assign_epochs es) l"

definition assignLeaderEpochs :: "LogIO \<Rightarrow> EpochEntry list \<Rightarrow> unit LogOp" where
  "assignLeaderEpochs io entries = lbind (assign_epochs entries) (\<lambda>_. persistEpochCheckpointLocked io)"

text \<open>Assigning a list of entries to a cache, which is what \<open>replayEpochEntries\<close> does to an empty one.\<close>

fun replay_loop :: "LeaderEpochCache \<Rightarrow> EpochEntry list \<Rightarrow> EpochError + LeaderEpochCache" where
  "replay_loop cache [] = Inr cache"
| "replay_loop cache (e # es) =
     (case Assign cache (ee_Epoch e) (ee_StartOffset e) of
        Inl err \<Rightarrow> Inl err
      | Inr (_, cache') \<Rightarrow> replay_loop cache' es)"

definition replayEpochEntries :: "EpochEntry list \<Rightarrow> EpochError + LeaderEpochCache" where
  "replayEpochEntries entries = replay_loop NewLeaderEpochCache entries"

definition EndOffsetForLeaderEpoch :: "Log \<Rightarrow> i32 \<Rightarrow> EpochEndOffset option option" where
  "EndOffsetForLeaderEpoch l epoch = EndOffsetFor (lg_epochCache l) epoch (NextOffset l)"

definition Log_EpochForOffset :: "Log \<Rightarrow> u64 \<Rightarrow> i32 option" where
  "Log_EpochForOffset l offset = EpochForOffset (lg_epochCache l) offset"

definition LatestLeaderEpoch :: "Log \<Rightarrow> i32 option" where
  "LatestLeaderEpoch l =
     (let entries = Entries (lg_epochCache l) in if entries = [] then None else Some (ee_Epoch (last entries)))"

section \<open>Appending what a leader sent\<close>

text \<open>The batches up to the first one of an epoch after \<open>fetchEpoch\<close>, with their bytes.\<close>

fun accept :: "bytes \<Rightarrow> i32 \<Rightarrow> batchBounds list \<Rightarrow> (LogError + batchBounds list \<times> bytes) option" where
  "accept data fetchEpoch [] = Some (Inr ([], data))"
| "accept data fetchEpoch (b # bs) =
     (if sint (bb_leaderEpoch b) > sint fetchEpoch
      then if bb_offset b < 0 then Some (Inl ErrCorruptBatch)
           else (case go_slice data 0 (bb_offset b) of
               None \<Rightarrow> None
             | Some prefix \<Rightarrow> Some (Inr ([], prefix)))
      else (case accept data fetchEpoch bs of
          Some (Inr (bounds, prefix)) \<Rightarrow> Some (Inr (b # bounds, prefix))
        | r \<Rightarrow> r))"

fun transitions :: "batchBounds option \<Rightarrow> batchBounds list \<Rightarrow> LogError + EpochEntry list" where
  "transitions prev [] = Inr []"
| "transitions prev (b # bs) =
     (case prev of
        Some p \<Rightarrow>
          if bb_baseOffset b \<noteq> bb_baseOffset p + ucast (bb_lastOffsetDelta p) + 1 then Inl ErrUnexpectedAppendOffset
          else if sint (bb_leaderEpoch b) < sint (bb_leaderEpoch p) then Inl ErrCorruptBatch
          else map_sum id (\<lambda>es. if bb_leaderEpoch b \<noteq> bb_leaderEpoch p
                 then \<lparr>ee_Epoch = bb_leaderEpoch b, ee_StartOffset = bb_baseOffset b\<rparr> # es else es)
               (transitions (Some b) bs)
      | None \<Rightarrow>
          map_sum id (\<lambda>es. \<lparr>ee_Epoch = bb_leaderEpoch b, ee_StartOffset = bb_baseOffset b\<rparr> # es)
            (transitions (Some b) bs))"

definition AppendReplicaRaw :: "LogIO \<Rightarrow> bytes \<Rightarrow> i32 \<Rightarrow> u64 LogOp" where
  "AppendReplicaRaw io data fetchEpoch l =
     (case scanRawBatches data of
        Inl e \<Rightarrow> Some (Inl e, l)
      | Inr bounds \<Rightarrow>
          if bounds = [] then Some (Inl ErrCorruptBatch, l)
          else (case accept data fetchEpoch bounds of
              None \<Rightarrow> None
            | Some (Inl e) \<Rightarrow> Some (Inl e, l)
            | Some (Inr (acceptedBounds, acceptedBytes)) \<Rightarrow>
                if acceptedBounds = [] then Some (Inr 0, l)
                else if bb_baseOffset (hd acceptedBounds) \<noteq> NextOffset l then Some (Inl ErrUnexpectedAppendOffset, l)
                else (case transitions None acceptedBounds of
                    Inl e \<Rightarrow> Some (Inl e, l)
                  | Inr entries \<Rightarrow>
                      lbind (assignLeaderEpochs io entries) (\<lambda>_.
                      lbind (append_data io (\<lambda>seg. AppendReplicaBatches (li_write io) seg acceptedBytes acceptedBounds)
                          (int (length acceptedBytes)))
                        (\<lambda>(_, totalRecords) l. Some (Inr totalRecords, l))) l)))"

section \<open>Truncating\<close>

function find_truncation :: "Segment \<Rightarrow> u64 \<Rightarrow> int \<Rightarrow> int option" where
  "find_truncation seg offset position =
     (if position < sg_currentSize seg
      then (case ReadBatchMetaAt seg position of
          None \<Rightarrow> None
        | Some (firstOffset, lastOffsetDelta, onDiskSize) \<Rightarrow>
            if onDiskSize \<le> 0 \<or> position + onDiskSize > sg_currentSize seg then None
            else if firstOffset = offset then Some position
            else let lastOffset = firstOffset + ucast lastOffsetDelta in
              if offset > firstOffset \<and> offset \<le> lastOffset then None
              else find_truncation seg offset (position + onDiskSize))
      else if offset = sg_nextOffset seg then Some position
      else None)"
  by pat_completeness auto
termination
  by (relation "measure (\<lambda>(seg, _, pos). nat (sg_currentSize seg - pos))") auto

declare find_truncation.simps [simp del]

definition findTruncationPosition :: "Segment \<Rightarrow> u64 \<Rightarrow> int option" where
  "findTruncationPosition seg offset = find_truncation seg offset 0"

text \<open>Whether it succeeded, and the pair afterwards.\<close>

definition truncateSegmentPair :: "bool \<Rightarrow> segmentPair \<Rightarrow> int \<Rightarrow> u64 \<Rightarrow> int \<Rightarrow> bool \<times> segmentPair" where
  "truncateSegmentPair fault pair position nextOffset interval =
     (case truncateAt fault (sp_segment pair) position nextOffset of
        None \<Rightarrow> (False, pair)
      | Some seg \<Rightarrow>
          (case rebuildIndexFromSegment seg (sp_index pair) interval of
             (False, idx, _) \<Rightarrow> (False, pair\<lparr>sp_segment := seg, sp_index := idx\<rparr>)
           | (True, idx, bytesSinceIndex) \<Rightarrow>
               (True, \<lparr>sp_segment = seg, sp_index = idx, sp_bytesSinceIndex = bytesSinceIndex\<rparr>)))"

text \<open>A file that could not be removed stays in the directory.\<close>

definition closeAndRemovePair :: "LogIO \<Rightarrow> segmentPair \<Rightarrow> LogFiles \<Rightarrow> bool \<times> LogFiles" where
  "closeAndRemovePair io pair files =
     (let b = base pair; p = li_pair io b;
          icontent = (if pio_close p then ix_mmap (sp_index pair) else Index_Close (sp_index pair)) in
      (\<not> pio_close p \<and> \<not> pio_rmLog p \<and> \<not> pio_rmIndex p,
       \<lparr>lf_log = (lf_log files)(b := if pio_rmLog p then Some (sg_file (sp_segment pair)) else None),
        lf_index = (lf_index files)(b := if pio_rmIndex p then Some icontent else None)\<rparr>))"

fun remove_pairs :: "LogIO \<Rightarrow> segmentPair list \<Rightarrow> LogFiles \<Rightarrow> bool \<times> LogFiles" where
  "remove_pairs io [] files = (True, files)"
| "remove_pairs io (p # ps) files =
     (let (ok, files) = closeAndRemovePair io p files; (ok', files) = remove_pairs io ps files in (ok \<and> ok', files))"

text \<open>The end of \<open>TruncateTo\<close>: the epoch history and its checkpoint, then the errors joined.\<close>

definition truncate_epochs :: "LogIO \<Rightarrow> bool \<Rightarrow> bool \<Rightarrow> u64 \<Rightarrow> unit LogOp" where
  "truncate_epochs io cleaned physical offset l =
     (let (changed, cache) = (if physical then TruncateFromEnd (lg_epochCache l) offset else (False, lg_epochCache l)) in
      case persistEpochCheckpointLocked io (l\<lparr>lg_epochCache := cache, lg_dirty := lg_dirty l \<or> changed\<rparr>) of
        None \<Rightarrow> None
      | Some (r, l') \<Rightarrow> Some (if cleaned then r else Inl OtherError, l'))"

definition TruncateTo :: "LogIO \<Rightarrow> u64 \<Rightarrow> unit LogOp" where
  "TruncateTo io offset l =
     (let active = lg_active l; sealed = lg_sealed l; interval = lc_IndexIntervalBytes (lg_config l) in
      if offset > next_of active then Some (Inl OtherError, l)
      else if offset < OldestOffset l then Some (Inl OtherError, l)
      else if offset < next_of active
      then (case findSegment sealed active offset of
          None \<Rightarrow> Some (Inl OtherError, l)
        | Some i \<Rightarrow>
            (case findTruncationPosition (sp_segment (pairs l ! i)) offset of
               None \<Rightarrow> Some (Inl OtherError, l)
             | Some position \<Rightarrow>
                 (case truncateSegmentPair (li_truncate io) (pairs l ! i) position offset interval of
                    (False, target) \<Rightarrow>
                      Some (Inl OtherError, if i = length sealed then l\<lparr>lg_active := target\<rparr> else l\<lparr>lg_sealed := sealed[i := target]\<rparr>)
                  | (True, target) \<Rightarrow>
                      if i = length sealed then truncate_epochs io True True offset (l\<lparr>lg_active := target\<rparr>)
                      else let (cleaned, files) = remove_pairs io (drop (Suc i) sealed @ [active]) (lg_files l) in
                        truncate_epochs io cleaned True offset
                          (l\<lparr>lg_sealed := take i sealed, lg_active := target, lg_files := files\<rparr>))))
      else truncate_epochs io True False offset l)"

end
