(* ===== verification/LogRep.thy ===== *)
theory LogRep
  imports Log
begin

text \<open>
  What a log holds, as a list of batches cut into segments, and how appending and reading act on
  it.  The two ways to append (a producer's batches, stamped by the leader, and a leader's
  batches, kept as they are) share one contract, the locale \<open>segment_append\<close>.
\<close>

section \<open>The index of a segment\<close>

text \<open>The entry of the batch at a position of the segment.\<close>

definition entry_of :: "bytes list \<Rightarrow> nat \<Rightarrow> entry" where
  "entry_of bs k = (word_of_nat (total_records (take k bs)), word_of_nat (length (concat (take k bs))))"

definition index_ok :: "bytes list \<Rightarrow> entry list \<Rightarrow> bool" where
  "index_ok bs es \<longleftrightarrow>
     (\<exists>ks. sorted_wrt (<) ks \<and> (\<forall>k\<in>set ks. k < length bs) \<and> (bs \<noteq> [] \<longrightarrow> (\<exists>ks'. ks = 0 # ks')) \<and> es = map (entry_of bs) ks)"

text \<open>A segment whose offsets and positions fit the fields of an index entry.\<close>

definition pair_small :: "bytes list \<Rightarrow> bool" where
  "pair_small bs \<longleftrightarrow> total_records bs \<le> 2 ^ 32 \<and> length (concat bs) < 2 ^ 63"

lemma entry_of_append: "k \<le> length bs \<Longrightarrow> entry_of (bs @ ds) k = entry_of bs k"
  by (simp add: entry_of_def)

lemma index_ok_Nil [simp]: "index_ok [] []"
  by (simp add: index_ok_def)

lemma index_ok_empty: "index_ok [] es \<Longrightarrow> es = []"
proof -
  assume "index_ok [] es"
  then obtain ks where ks: "\<forall>k\<in>set ks. k < length ([] :: bytes list)" "es = map (entry_of []) ks"
    unfolding index_ok_def by blast
  then have "set ks = {}" by auto
  then show "es = []" using ks(2) by simp
qed

lemma index_ok_keep:
  assumes "index_ok bs es" and "bs \<noteq> []"
  shows "index_ok (bs @ ds) es"
proof -
  obtain ks where ks: "sorted_wrt (<) ks" "\<forall>k\<in>set ks. k < length bs" "\<exists>ks'. ks = 0 # ks'" "es = map (entry_of bs) ks"
    using assms by (auto simp: index_ok_def)
  then have "es = map (entry_of (bs @ ds)) ks" by (auto simp: entry_of_append)
  then show ?thesis using ks unfolding index_ok_def by (intro exI [of _ ks]) auto
qed

lemma index_ok_add:
  assumes "index_ok bs es" and "ds \<noteq> []"
  shows "index_ok (bs @ ds) (es @ [entry_of (bs @ ds) (length bs)])"
proof -
  obtain ks where ks: "sorted_wrt (<) ks" "\<forall>k\<in>set ks. k < length bs" "bs \<noteq> [] \<longrightarrow> (\<exists>ks'. ks = 0 # ks')" "es = map (entry_of bs) ks"
    using assms(1) unfolding index_ok_def by blast
  then have "es = map (entry_of (bs @ ds)) ks" by (auto simp: entry_of_append)
  moreover have "sorted_wrt (<) (ks @ [length bs])" using ks(1,2) by (simp add: sorted_wrt_append)
  moreover have "bs = [] \<Longrightarrow> ks = []" using ks(2) by (cases ks) auto
  ultimately show ?thesis
    using ks assms(2) unfolding index_ok_def by (intro exI [of _ "ks @ [length bs]"]) (auto simp: less_Suc_eq)
qed

lemma total_take_le: "total_records (take k bs) \<le> total_records bs"
  by (subst (2) append_take_drop_id [symmetric, of bs k]) (simp only: total_simps le_add1)

lemma total_take_less: "k < length bs \<Longrightarrow> total_records (take k bs) < total_records bs"
  by (subst (2) append_take_drop_id [symmetric, of bs k]) (simp only: total_simps, simp add: total_pos)

lemma total_take_mono: "i \<le> j \<Longrightarrow> total_records (take i bs) \<le> total_records (take j bs)"
  using total_take_le [of i "take j bs"] by (simp add: min_absorb1)

lemma length_take_concat: "length (concat (take k bs)) \<le> length (concat bs)"
  by (subst (2) append_take_drop_id [symmetric, of bs k]) (simp only: concat_append length_append le_add1)

lemma entry_facts:
  assumes "pair_small bs" and "k < length bs"
  shows "unat (fst (entry_of bs k)) = total_records (take k bs)" and "sint (snd (entry_of bs k)) = int (length (concat (take k bs)))"
proof -
  have "total_records (take k bs) < 2 ^ 32" using assms total_take_less [OF assms(2)] by (simp add: pair_small_def)
  then show "unat (fst (entry_of bs k)) = total_records (take k bs)" by (simp add: entry_of_def unat_word_of_nat)
  have "length (concat (take k bs)) < 2 ^ 63" using assms(1) length_take_concat [of k bs] by (simp add: pair_small_def)
  then show "sint (snd (entry_of bs k)) = int (length (concat (take k bs)))"
    by (simp add: entry_of_def sint_word_of_nat)
qed

lemma index_ok_sorted:
  assumes "pair_small bs" and "index_ok bs es"
  shows "sorted (map fst es)"
proof -
  obtain ks where ks: "sorted_wrt (<) ks" "\<forall>k\<in>set ks. k < length bs" "es = map (entry_of bs) ks"
    using assms(2) unfolding index_ok_def by blast
  have "fst (entry_of bs i) \<le> fst (entry_of bs j)" if "i \<in> set ks" "j \<in> set ks" "i < j" for i j
    using that ks(2) entry_facts(1) [OF assms(1)] total_take_mono [of i j bs] by (simp add: word_le_nat_alt)
  then show ?thesis
    using sorted_wrt_mono_rel [OF _ ks(1)] ks(3) by (simp add: sorted_map sorted_wrt_map o_def)
qed

definition pair_rep :: "segmentPair \<Rightarrow> bytes list \<Rightarrow> bool" where
  "pair_rep p bs \<longleftrightarrow>
     seg_rep (sp_segment p) bs \<and> pair_small bs \<and> (\<exists>es. idx_rep (sp_index p) es \<and> index_ok bs es) \<and>
     ix_baseOffset (sp_index p) = base p \<and> 12 \<le> ix_maxBytes (sp_index p) \<and> 0 < sg_maxSize (sp_segment p)"

text \<open>A lookup gives the position of a batch at or before the one wanted.\<close>

lemma Lookup_pair:
  assumes rep: "pair_rep p bs" and off: "base p \<le> offset"
  shows "\<exists>k. Lookup (sp_index p) offset = Inr (int (length (concat (take k bs)))) \<and> k \<le> length bs \<and>
    (offset < next_of p \<longrightarrow> unat (base p) + total_records (take k bs) \<le> unat offset)"
proof -
  obtain es where es: "idx_rep (sp_index p) es" "index_ok bs es" and seg: "seg_rep (sp_segment p) bs" and small: "pair_small bs"
    and b: "ix_baseOffset (sp_index p) = base p"
    using rep unfolding pair_rep_def by blast
  show ?thesis
  proof (cases "bs = []")
    case True
    then have "es = []" using es(2) index_ok_empty by simp
    then show ?thesis using True Lookup_empty es(1) off by (intro exI [of _ 0]) (simp add: word_le_nat_alt)
  next
    case False
    then obtain ks where ks: "\<forall>k\<in>set (0 # ks). k < length bs" "es = map (entry_of bs) (0 # ks)"
      using es(2) unfolding index_ok_def by blast
    let ?r = "ucast (offset - base p) :: u32"
    define n where "n = length (takeWhile (\<lambda>e. fst e \<le> ?r) es)"
    have n: "0 < n" using ks(2) by (simp add: n_def entry_of_def)
    have "n \<le> length es" unfolding n_def by (rule length_takeWhile_le)
    then have n1: "n - 1 < length (0 # ks)" using n ks(2) by simp
    define k where "k = (0 # ks) ! (n - 1)"
    have k: "es ! (n - 1) = entry_of bs k" "k < length bs"
      using nth_map [OF n1, of "entry_of bs"] nth_mem [OF n1] ks by (simp_all only: k_def)
    have "Lookup (sp_index p) offset = Inr (sint (snd (es ! (n - 1))))"
      using Lookup_linear [OF es(1) index_ok_sorted [OF small es(2)], of offset] ks(2) off b by (simp add: last_le_def n_def)
    then have L: "Lookup (sp_index p) offset = Inr (int (length (concat (take k bs))))"
      using k entry_facts(2) [OF small k(2)] by simp
    have "unat (base p) + total_records (take k bs) \<le> unat offset" if "offset < next_of p"
    proof -
      have d: "unat (offset - base p) = unat offset - unat (base p)" using off by (simp add: unat_sub)
      have "unat offset < unat (base p) + total_records bs" using that seg by (simp add: seg_rep_def word_less_nat_alt)
      then have "unat (offset - base p) < 2 ^ 32" using small off unfolding d pair_small_def word_le_nat_alt by linarith
      then have "unat ?r = unat offset - unat (base p)" by (simp add: unsigned_ucast_eq unsigned_take_bit_eq take_bit_nat_eq_self d)
      moreover have "fst (es ! (n - 1)) \<le> ?r"
        using n nth_mem [of "n - 1" "takeWhile (\<lambda>e. fst e \<le> ?r) es"] by (auto simp: n_def takeWhile_nth dest: set_takeWhileD)
      ultimately show ?thesis
        using k entry_facts(1) [OF small k(2)] off by (simp add: word_le_nat_alt)
    qed
    then show ?thesis using L k(2) by (intro exI [of _ k]) auto
  qed
qed

section \<open>Finding a batch\<close>

lemma batch_offsets:
  assumes "seg_rep s (xs @ b # ys)"
  shows "unat (hdr_base b) = unat (sg_baseOffset s) + total_records xs"
    and "unat (hdr_base b + ucast (hdr_lod b)) + 1 = unat (sg_baseOffset s) + total_records xs + records b"
proof -
  have ok: "unat (sg_baseOffset s) + total_records (xs @ b # ys) < 2 ^ 64" and b: "unat (hdr_base b) = unat (sg_baseOffset s) + total_records xs"
    using assms by (simp_all add: seg_rep_def batches_ok_def)
  show "unat (hdr_base b) = unat (sg_baseOffset s) + total_records xs" by (rule b)
  have "unat (hdr_base b + word_of_nat (unat (hdr_lod b))) = unat (hdr_base b) + unat (hdr_lod b)"
    using ok b by (intro unat_add_nat) (simp add: records_def)
  then show "unat (hdr_base b + ucast (hdr_lod b)) + 1 = unat (sg_baseOffset s) + total_records xs + records b"
    using b by (simp add: records_def)
qed

lemma find_batch_found:
  assumes "seg_rep s (xs @ ys @ b # zs)"
    and "unat (sg_baseOffset s) + total_records (xs @ ys) \<le> unat offset"
    and "unat offset < unat (sg_baseOffset s) + total_records (xs @ ys) + records b"
  shows "find_batch s offset (int (length (concat xs))) = Some (int (length (concat (xs @ ys))))"
  using assms
proof (induction ys arbitrary: xs)
  case Nil
  then have rep: "seg_rep s (xs @ b # zs)" by simp
  have "hdr_base b \<le> offset" "offset \<le> hdr_base b + ucast (hdr_lod b)"
    using batch_offsets [OF rep] Nil.prems(2,3) by (simp_all add: word_le_nat_alt)
  then show ?case using meta_at [OF rep] by (simp add: find_batch.simps)
next
  case (Cons y ys)
  from Cons.prems(1) have rep: "seg_rep s (xs @ y # ys @ b # zs)" by simp
  have lt: "\<not> offset \<le> hdr_base y + ucast (hdr_lod y)" "\<not> offset < hdr_base y"
    using batch_offsets [OF rep] Cons.prems(2) by (simp_all add: word_less_nat_alt word_le_nat_alt)
  have rep': "seg_rep s ((xs @ [y]) @ ys @ b # zs)" using Cons.prems(1) by simp
  then have "int (length (concat (xs @ [y]))) < sg_currentSize s"
    using seg_bounds(1) [of s "(xs @ [y]) @ ys" b zs] by simp
  moreover have "find_batch s offset (int (length (concat (xs @ [y])))) = Some (int (length (concat ((xs @ [y]) @ ys))))"
    by (rule Cons.IH [OF rep']) (use Cons.prems(2,3) in \<open>simp_all add: add.assoc\<close>)
  ultimately show ?case using meta_at [OF rep] lt by (subst find_batch.simps) simp
qed

lemma find_batch_beyond:
  assumes "seg_rep s (xs @ y # ys)" and "sg_nextOffset s \<le> offset"
  shows "find_batch s offset (int (length (concat xs))) = None"
  using assms
proof (induction ys arbitrary: xs y)
  case Nil
  have n: "unat (sg_nextOffset s) = unat (sg_baseOffset s) + total_records xs + records y" using Nil.prems(1) by (simp add: seg_rep_def)
  have "\<not> offset \<le> hdr_base y + ucast (hdr_lod y)" "\<not> offset < hdr_base y"
    using batch_offsets [OF Nil.prems(1)] Nil.prems(2) n by (simp_all add: word_less_nat_alt word_le_nat_alt)
  moreover have "int (length (concat xs)) + int (length y) \<ge> sg_currentSize s" using seg_size [OF Nil.prems(1)] by simp
  ultimately show ?case using meta_at [OF Nil.prems(1)] by (subst find_batch.simps) simp
next
  case (Cons z zs)
  have n: "unat (sg_nextOffset s) = unat (sg_baseOffset s) + total_records xs + records y + total_records (z # zs)"
    using Cons.prems(1) by (simp add: seg_rep_def)
  have "\<not> offset \<le> hdr_base y + ucast (hdr_lod y)" "\<not> offset < hdr_base y"
    using batch_offsets [OF Cons.prems(1)] Cons.prems(2) n by (simp_all add: word_less_nat_alt word_le_nat_alt)
  moreover have rep': "seg_rep s ((xs @ [y]) @ z # zs)" using Cons.prems(1) by simp
  moreover have "find_batch s offset (int (length (concat (xs @ [y])))) = None"
    by (rule Cons.IH [OF rep' Cons.prems(2)])
  ultimately show ?case using meta_at [OF Cons.prems(1)] by (subst find_batch.simps) (auto simp: Let_def)
qed

section \<open>The sequence of segments\<close>

lemma search_loop_least:
  assumes "\<And>k. i \<le> k \<Longrightarrow> k < j \<Longrightarrow> f k \<longleftrightarrow> m \<le> k" and "i \<le> m" and "m \<le> j"
  shows "search_loop f i j = m"
  using assms
proof (induction f i j rule: search_loop.induct)
  case (1 f i j)
  show ?case
  proof (cases "i < j")
    case False
    then show ?thesis using "1.prems"(2,3) by (simp add: search_loop.simps)
  next
    case True
    let ?h = "(i + j) div 2"
    have h: "i \<le> ?h" "?h < j" using True by auto
    have f: "f ?h \<longleftrightarrow> m \<le> ?h" using "1.prems"(1) h by simp
    show ?thesis
    proof (cases "f ?h")
      case True
      have "search_loop f i ?h = m"
        using "1.IH"(2) [OF \<open>i < j\<close> refl] True f h "1.prems" by simp
      then show ?thesis using True \<open>i < j\<close> by (subst search_loop.simps) (simp add: Let_def)
    next
      case False
      have "search_loop f (?h + 1) j = m"
        using "1.IH"(1) [OF \<open>i < j\<close> refl] False f h "1.prems" by simp
      then show ?thesis using False \<open>i < j\<close> by (subst search_loop.simps) (simp add: Let_def)
    qed
  qed
qed

lemma sort_Search_least: "(\<And>k. k < n \<Longrightarrow> f k \<longleftrightarrow> m \<le> k) \<Longrightarrow> m \<le> n \<Longrightarrow> sort_Search n f = m"
  unfolding sort_Search_def by (rule search_loop_least) simp_all

fun linked :: "nat \<Rightarrow> segmentPair list \<Rightarrow> bytes list list \<Rightarrow> bool" where
  "linked o' (p # ps) (bs # bss) \<longleftrightarrow> unat (base p) = o' \<and> pair_rep p bs \<and> linked (o' + total_records bs) ps bss"
| "linked o' [] [] \<longleftrightarrow> True"
| "linked o' _ _ \<longleftrightarrow> False"

lemma linked_length: "linked o' ps bss \<Longrightarrow> length ps = length bss"
  by (induction o' ps bss rule: linked.induct) simp_all

lemma linked_append:
  "length ps = length xss \<Longrightarrow>
   linked o' (ps @ qs) (xss @ yss) \<longleftrightarrow> linked o' ps xss \<and> linked (o' + total_records (concat xss)) qs yss"
  by (induction ps xss arbitrary: o' rule: list_induct2) (simp_all add: add.assoc)

lemma linked_nth:
  assumes "linked o' ps (xss @ bs # yss)"
  shows "pair_rep (ps ! length xss) bs" and "unat (base (ps ! length xss)) = o' + total_records (concat xss)"
proof -
  have len: "length ps = length xss + Suc (length yss)" using linked_length [OF assms] by simp
  define qs where "qs = drop (length xss) ps"
  have ps: "ps = take (length xss) ps @ qs" by (simp add: qs_def)
  have t: "length (take (length xss) ps) = length xss" using len by simp
  have "linked (o' + total_records (concat xss)) qs (bs # yss)"
    using assms linked_append [OF t, of o' qs "bs # yss"] ps by simp
  moreover obtain q qs' where q: "qs = q # qs'" using len by (cases qs) (simp_all add: qs_def)
  moreover have "ps ! length xss = q" using len hd_drop_conv_nth [of "length xss" ps] q by (simp add: qs_def)
  ultimately show "pair_rep (ps ! length xss) bs" "unat (base (ps ! length xss)) = o' + total_records (concat xss)" by simp_all
qed

lemma linked_batches: "linked o' ps bss \<Longrightarrow> o' < 2 ^ 64 \<Longrightarrow> batches_ok o' (concat bss)"
proof (induction o' ps bss rule: linked.induct)
  case (1 o' p ps bs bss)
  then have b: "batches_ok o' bs" by (auto simp: pair_rep_def seg_rep_def)
  then have "o' + total_records bs < 2 ^ 64" by (simp add: batches_ok_def)
  then show ?case using 1 b by (simp add: batches_ok_append)
qed (simp_all add: batches_ok_def)

text \<open>The batches of a log by segment.  Only the last segment can be empty, and files left in the
  directory hold nothing where the log still has to write.\<close>

definition config_ok :: "LogConfig \<Rightarrow> bool" where
  "config_ok c \<longleftrightarrow> 0 < lc_MaxSegmentBytes c \<and> 12 \<le> lc_MaxIndexBytes c"

definition files_clean :: "nat \<Rightarrow> LogFiles \<Rightarrow> bool" where
  "files_clean n files \<longleftrightarrow> (\<forall>b. n \<le> unat b \<longrightarrow> lf_log files b = None \<or> lf_log files b = Some [])"

definition log_rep :: "Log \<Rightarrow> bytes list list \<Rightarrow> bool" where
  "log_rep l bss \<longleftrightarrow>
     linked (unat (OldestOffset l)) (pairs l) bss \<and> [] \<notin> set (butlast bss) \<and>
     config_ok (lg_config l) \<and> files_clean (unat (OldestOffset l)) (lg_files l)"

definition log_batches :: "Log \<Rightarrow> bytes list \<Rightarrow> bool" where
  "log_batches l bs \<longleftrightarrow> (\<exists>bss. log_rep l bss \<and> bs = concat bss)"

lemma log_rep_ne: "log_rep l bss \<Longrightarrow> bss \<noteq> []"
  by (auto simp: log_rep_def pairs_def dest: linked_length)

lemma log_rep_active:
  assumes "log_rep l bss"
  obtains xss bs where "bss = xss @ [bs]" "length xss = length (lg_sealed l)" "pair_rep (lg_active l) bs"
    "unat (base (lg_active l)) = unat (OldestOffset l) + total_records (concat xss)"
    "unat (NextOffset l) = unat (OldestOffset l) + total_records (concat bss)"
proof -
  have lk: "linked (unat (OldestOffset l)) (pairs l) bss" using assms by (simp add: log_rep_def)
  obtain xss bs where bss: "bss = xss @ [bs]" using log_rep_ne [OF assms] by (metis rev_exhaust)
  then have len: "length xss = length (lg_sealed l)" using linked_length [OF lk] by (simp add: pairs_def)
  have "pairs l ! length xss = lg_active l" by (simp add: pairs_def len)
  then have p: "pair_rep (lg_active l) bs" "unat (base (lg_active l)) = unat (OldestOffset l) + total_records (concat xss)"
    using linked_nth [of _ "pairs l" xss bs "[]"] lk bss by simp_all
  moreover have "unat (NextOffset l) = unat (base (lg_active l)) + total_records bs"
    using p(1) by (simp add: pair_rep_def seg_rep_def NextOffset_def)
  ultimately show ?thesis using that [OF bss len] bss by simp
qed

lemma log_rep_chain: "log_rep l bss \<Longrightarrow> batches_ok (unat (OldestOffset l)) (concat bss)"
  using linked_batches [of "unat (OldestOffset l)" "pairs l" bss] unsigned_less [of "OldestOffset l", where 'a = nat]
  by (simp add: log_rep_def)

lemma concat_split:
  "concat bss = as @ b # cs \<Longrightarrow> \<exists>xss xs ys yss. bss = xss @ (xs @ b # ys) # yss \<and> as = concat xss @ xs \<and> cs = ys @ concat yss"
proof (induction bss arbitrary: as)
  case (Cons bs bss)
  then have "bs @ concat bss = as @ b # cs" by simp
  then obtain r where "bs @ r = as \<and> concat bss = r @ b # cs \<or> bs = as @ r \<and> r @ concat bss = b # cs"
    by (auto simp: append_eq_append_conv2)
  then consider r where "as = bs @ r" "concat bss = r @ b # cs" | r where "bs = as @ r" "r @ concat bss = b # cs" "r \<noteq> []"
    by (cases "r = []") force+
  then show ?case
  proof cases
    case 1
    then obtain xss xs ys yss where "bss = xss @ (xs @ b # ys) # yss" "r = concat xss @ xs" "cs = ys @ concat yss"
      using Cons.IH by blast
    then show ?thesis using 1 by (intro exI [of _ "bs # xss"] exI [of _ xs] exI [of _ ys] exI [of _ yss]) simp
  next
    case 2
    then obtain ys where "r = b # ys" "cs = ys @ concat bss" by (cases r) auto
    then show ?thesis using 2 by (intro exI [of _ "[]"] exI [of _ as] exI [of _ ys] exI [of _ bss]) simp
  qed
qed simp

section \<open>Reading\<close>

lemma linked_base:
  assumes "linked o' ps bss" and "i < length ps"
  shows "unat (base (ps ! i)) = o' + total_records (concat (take i bss))"
proof -
  have i: "i < length bss" using assms linked_length by metis
  have "linked o' ps (take i bss @ bss ! i # drop (Suc i) bss)" using assms(1) id_take_nth_drop [OF i] by simp
  from linked_nth(2) [OF this] show ?thesis using i by simp
qed

lemma total_concat_take:
  assumes "[] \<notin> set (butlast bss)" and "i < j" and "j < length bss"
  shows "total_records (concat (take i bss)) + total_records (bss ! i) \<le> total_records (concat (take j bss))"
    and "0 < total_records (bss ! i)"
proof -
  have i: "i < length bss" using assms by simp
  have "take j bss = take i bss @ bss ! i # take (j - Suc i) (drop (Suc i) bss)"
    using assms(2,3) by (metis Cons_nth_drop_Suc Suc_diff_Suc add_diff_inverse_nat i less_imp_not_less take_Suc_Cons take_add)
  then show "total_records (concat (take i bss)) + total_records (bss ! i) \<le> total_records (concat (take j bss))" by simp
  have "i < length (butlast bss)" using assms by simp
  then have "bss ! i \<noteq> []" using assms(1) nth_butlast nth_mem by metis
  then show "0 < total_records (bss ! i)" by (rule total_pos)
qed

lemma findSegment_rep:
  assumes rep: "log_rep l (xss @ bs # yss)"
    and lo: "unat (OldestOffset l) + total_records (concat xss) \<le> unat offset"
    and hi: "yss = [] \<or> unat offset < unat (OldestOffset l) + total_records (concat (xss @ [bs]))"
  shows "findSegment (lg_sealed l) (lg_active l) offset = Some (length xss)"
proof -
  let ?o = "unat (OldestOffset l)" and ?bss = "xss @ bs # yss"
  have lk: "linked ?o (pairs l) ?bss" and ne: "[] \<notin> set (butlast ?bss)" using rep by (simp_all add: log_rep_def)
  have len: "length (lg_sealed l) = length xss + length yss" using linked_length [OF lk] by (simp add: pairs_def)
  have b: "unat (base (pairs l ! i)) = ?o + total_records (concat (take i ?bss))" if "i \<le> length xss + length yss" for i
    using linked_base [OF lk, of i] that len by (simp add: pairs_def)
  have pa: "pairs l ! length (lg_sealed l) = lg_active l" by (simp add: pairs_def)
  have act: "unat (base (lg_active l)) = ?o + total_records (concat (take (length (lg_sealed l)) ?bss))"
    using b [of "length (lg_sealed l)"] len pa by simp
  show ?thesis
  proof (cases "yss = []")
    case True
    then show ?thesis using lo act len by (simp add: findSegment_def word_le_nat_alt)
  next
    case False
    have gt: "unat offset < unat (base (pairs l ! k))" if "length xss < k" "k \<le> length xss + length yss" for k
      using total_concat_take(1) [OF ne that(1)] that hi False b [OF that(2)] by simp
    have le: "unat (base (pairs l ! k)) \<le> unat offset" if "k \<le> length xss" for k
    proof (cases "k = length xss")
      case False
      then show ?thesis using total_concat_take(1) [OF ne, of k "length xss"] that lo b [of k] by simp
    qed (use b [of k] lo in simp)
    have "sort_Search (length (lg_sealed l)) (\<lambda>i. base (lg_sealed l ! i) > offset) = Suc (length xss)"
    proof (rule sort_Search_least)
      show "Suc (length xss) \<le> length (lg_sealed l)" using False len by (cases yss) auto
      fix k assume k: "k < length (lg_sealed l)"
      then have "pairs l ! k = lg_sealed l ! k" by (simp add: pairs_def nth_append)
      then show "base (lg_sealed l ! k) > offset \<longleftrightarrow> Suc (length xss) \<le> k"
        using gt [of k] le [of k] k len by (cases "length xss < k") (auto simp: word_less_nat_alt not_less)
    qed
    moreover have "\<not> base (lg_active l) \<le> offset"
      using gt [of "length (lg_sealed l)"] False len pa by (cases yss) (auto simp: word_le_nat_alt)
    ultimately show ?thesis by (simp add: findSegment_def)
  qed
qed

text \<open>Every offset the log holds is found in its batch.\<close>

lemma locate_rep:
  assumes rep: "log_rep l bss" and split: "concat bss = as @ b # cs"
    and lo: "unat (OldestOffset l) + total_records as \<le> unat offset"
    and hi: "unat offset < unat (OldestOffset l) + total_records as + records b"
  shows "\<exists>p xs ys more. locate l offset = Some (sp_segment p, int (length (concat xs))) \<and> pair_rep p (xs @ b # ys) \<and> cs = ys @ more"
proof -
  obtain xss xs ys yss where d: "bss = xss @ (xs @ b # ys) # yss" "as = concat xss @ xs" "cs = ys @ concat yss"
    using concat_split [OF split] by blast
  let ?p = "pairs l ! length xss" and ?o = "unat (OldestOffset l)"
  have lk: "linked ?o (pairs l) (xss @ (xs @ b # ys) # yss)" using rep d(1) by (simp add: log_rep_def)
  note p = linked_nth [OF lk]
  have f: "findSegment (lg_sealed l) (lg_active l) offset = Some (length xss)"
    using findSegment_rep [of l xss "xs @ b # ys" yss offset] rep d lo hi by simp
  have seg: "seg_rep (sp_segment ?p) (xs @ b # ys)" using p(1) by (simp add: pair_rep_def)
  have ge: "base ?p \<le> offset" using p(2) lo d(2) by (simp add: word_le_nat_alt)
  have lt: "offset < next_of ?p" using seg p(2) hi d(2) by (simp add: seg_rep_def word_less_nat_alt)
  obtain k where k: "Lookup (sp_index ?p) offset = Inr (int (length (concat (take k (xs @ b # ys)))))"
    "unat (base ?p) + total_records (take k (xs @ b # ys)) \<le> unat offset"
    using Lookup_pair [OF p(1) ge] lt by blast
  have "k \<le> length xs"
  proof (rule ccontr)
    assume "\<not> k \<le> length xs"
    then have "total_records (take (Suc (length xs)) (xs @ b # ys)) \<le> total_records (take k (xs @ b # ys))"
      by (intro total_take_mono) simp
    then show False using k(2) p(2) hi d(2) by simp
  qed
  then have t: "take k (xs @ b # ys) = take k xs" by simp
  obtain us vs where uv: "take k (xs @ b # ys) = us" "xs = us @ vs"
    using that [OF t append_take_drop_id [symmetric]] .
  have "find_batch (sp_segment ?p) offset (int (length (concat us))) = Some (int (length (concat (us @ vs))))"
    by (rule find_batch_found [where b = b and zs = ys]) (use seg p(2) lo hi d(2) uv(2) in \<open>simp_all add: add.assoc\<close>)
  then have "locate l offset = Some (sp_segment ?p, int (length (concat xs)))"
    using f k(1) [unfolded uv(1)] uv(2) by (simp add: locate_def Let_def)
  then show ?thesis using p(1) d(3) by blast
qed

lemma fetch_batches_prefix: "\<exists>zs rest. fetch_batches r (y # ys) = y # zs \<and> ys = zs @ rest"
  using fetch_more_prefix [of ys "r - int (length y)"] by auto

lemma offset_after_last:
  assumes "seg_rep s (xs @ zs @ ys)" and "zs \<noteq> []"
  shows "unat (offset_after (last zs)) = unat (sg_baseOffset s) + total_records (xs @ zs)"
proof -
  obtain ws z where z: "zs = ws @ [z]" using assms(2) by (metis rev_exhaust)
  have rep: "seg_rep s ((xs @ ws) @ z # ys)" using assms(1) z by simp
  have "unat (sg_baseOffset s) + total_records ((xs @ ws) @ z # ys) < 2 ^ 64"
    using rep by (simp only: seg_rep_def batches_ok_def)
  then have "unat (hdr_base z + word_of_nat (records z)) = unat (hdr_base z) + records z"
    using batch_offsets(1) [OF rep] by (intro unat_add_nat) simp
  then show ?thesis
    using batch_offsets(1) [OF rep] z by (simp add: offset_after_def word_records [symmetric] add.assoc)
qed

lemma ReadRaw_rep:
  assumes rep: "log_rep l bss" and split: "concat bss = as @ b # cs"
    and lo: "unat (OldestOffset l) + total_records as \<le> unat offset"
    and hi: "unat offset < unat (OldestOffset l) + total_records as + records b"
  shows "\<exists>zs rest upTo. cs = zs @ rest \<and> ReadRaw l offset maxBytes = Some (concat (b # zs), upTo) \<and>
    unat upTo = unat (OldestOffset l) + total_records (as @ b # zs) \<and>
    (zs = [] \<or> int (length (concat (b # zs))) \<le> sint maxBytes)"
proof -
  obtain p xs ys more where loc: "locate l offset = Some (sp_segment p, int (length (concat xs)))" and p: "pair_rep p (xs @ b # ys)" and cs: "cs = ys @ more"
    using locate_rep [OF assms] by blast
  have seg: "seg_rep (sp_segment p) (xs @ b # ys)" using p by (simp add: pair_rep_def)
  let ?r = "sint maxBytes - int (length b)"
  obtain rest where zs: "ys = fetch_more ?r ys @ rest" using fetch_more_prefix by blast
  let ?zs = "fetch_more ?r ys"
  have rd: "ReadRaw l offset maxBytes = Some (concat (b # ?zs), offset_after (last (b # ?zs)))"
    using loc ReadRawBatchAt_rep [OF seg, of maxBytes] by (simp add: ReadRaw_def)
  have "seg_rep (sp_segment p) (xs @ (b # ?zs) @ rest)" using seg zs by simp
  then have up: "unat (offset_after (last (b # ?zs))) = unat (base p) + total_records (xs @ b # ?zs)"
    by (rule offset_after_last) simp
  have "unat (hdr_base b) = unat (base p) + total_records xs" by (rule batch_offsets(1) [OF seg])
  moreover have "unat (hdr_base b) = unat (OldestOffset l) + total_records as"
    using log_rep_chain [OF rep] split by (simp add: batches_ok_def)
  ultimately have up': "unat (offset_after (last (b # ?zs))) = unat (OldestOffset l) + total_records (as @ b # ?zs)"
    using up by simp
  have "list_all raw_ok ys" using seg by (simp add: seg_rep_def batches_ok_def)
  then have "?zs = [] \<or> int (length (concat (b # ?zs))) \<le> sint maxBytes"
    using fetch_more_none [of ys ?r] fetch_more_size [of ?r ys] by fastforce
  moreover have "cs = ?zs @ (rest @ more)" using cs zs by simp
  ultimately show ?thesis using rd up' by blast
qed

lemma find_batch_end: "sg_currentSize s \<le> pos \<Longrightarrow> find_batch s offset pos = None \<or> find_batch s offset pos = Some pos"
  by (subst (1 2) find_batch.simps) (auto simp: Let_def dest: meta_size split: option.split)

lemma ReadRaw_outside:
  assumes rep: "log_rep l bss" and out: "offset < OldestOffset l \<or> NextOffset l \<le> offset"
  shows "ReadRaw l offset maxBytes = None"
  using out
proof
  assume lt: "offset < OldestOffset l"
  have lk: "linked (unat (OldestOffset l)) (pairs l) bss" using rep by (simp add: log_rep_def)
  have gt: "offset < base (pairs l ! k)" if "k < length (pairs l)" for k
    using linked_base [OF lk that] lt by (simp add: word_less_nat_alt)
  have "offset < base (lg_sealed l ! k)" if "k < length (lg_sealed l)" for k
    using gt [of k] that by (simp add: pairs_def nth_append)
  then have "sort_Search (length (lg_sealed l)) (\<lambda>i. base (lg_sealed l ! i) > offset) = 0"
    by (intro sort_Search_least) simp_all
  moreover have "\<not> base (lg_active l) \<le> offset" using gt [of "length (lg_sealed l)"] by (simp add: pairs_def not_le)
  ultimately show ?thesis by (simp add: ReadRaw_def locate_def findSegment_def)
next
  assume ge: "NextOffset l \<le> offset"
  obtain bs where p: "pair_rep (lg_active l) bs" using log_rep_active [OF rep] by metis
  have seg: "seg_rep (sp_segment (lg_active l)) bs" using p by (simp add: pair_rep_def)
  have b: "base (lg_active l) \<le> offset" using seg ge by (simp add: seg_rep_def NextOffset_def word_le_nat_alt)
  obtain k where k: "Lookup (sp_index (lg_active l)) offset = Inr (int (length (concat (take k bs))))" "k \<le> length bs"
    using Lookup_pair [OF p b] by blast
  let ?s = "sp_segment (lg_active l)" and ?pos = "int (length (concat (take k bs)))"
  have "find_batch ?s offset ?pos = None \<or> find_batch ?s offset ?pos = Some ?pos \<and> sg_currentSize ?s \<le> ?pos"
  proof (cases "k = length bs")
    case True
    then show ?thesis using find_batch_end [of ?s ?pos offset] seg_size [OF seg] by auto
  next
    case False
    then have "seg_rep ?s (take k bs @ bs ! k # drop (Suc k) bs)" using seg k(2) id_take_nth_drop [of k bs] by simp
    then show ?thesis using find_batch_beyond [of ?s "take k bs" "bs ! k" "drop (Suc k) bs"] ge by (simp add: NextOffset_def)
  qed
  then show ?thesis
    using k(1) b by (auto simp: ReadRaw_def locate_def findSegment_def pairs_def ReadRawBatchAt_def split: option.split)
qed

end
