(* ===== verification/LogAppend.thy ===== *)
theory LogAppend
  imports LogRep
begin

text \<open>
  Appending to a log.  The contract of an append to a segment is the locale \<open>segment_append\<close>;
  rolling to a new segment, writing the index and the effect on the batches of the log are
  proved once from it, for a producer's and for a leader's batches.
\<close>

section \<open>Rolling\<close>

text \<open>What appending keeps.\<close>

definition same_log :: "Log \<Rightarrow> Log \<Rightarrow> bool" where
  "same_log l l' \<longleftrightarrow>
     lg_config l' = lg_config l \<and> OldestOffset l' = OldestOffset l \<and> lg_epochCache l' = lg_epochCache l \<and>
     lg_dirty l' = lg_dirty l \<and> lg_fs l' = lg_fs l \<and> lg_path l' = lg_path l"

lemma same_log_refl [simp]: "same_log l l"
  by (simp add: same_log_def)

lemma same_log_trans: "same_log a b \<Longrightarrow> same_log b c \<Longrightarrow> same_log a c"
  by (simp add: same_log_def)

lemma log_rep_next:
  assumes "log_rep l bss" and "log_rep l' bss'" and "same_log l l'" and "concat bss' = concat bss"
  shows "NextOffset l' = NextOffset l"
  using log_rep_active [OF assms(1)] log_rep_active [OF assms(2)] assms(3,4)
  by (metis same_log_def word_unat_eq_iff)

definition io_faulty :: "LogIO \<Rightarrow> bool" where
  "io_faulty io \<longleftrightarrow> li_write io \<noteq> None \<or> (\<exists>b. li_pair io b \<noteq> pair_io_ok)"

lemma newSegmentPair_empty:
  assumes c: "config_ok c" and f: "lf_log files b = None \<or> lf_log files b = Some []"
  shows "(\<exists>content. newSegmentPair io files b c = Some (Inl content) \<and> (content = None \<or> content = Some []) \<and> io \<noteq> pair_io_ok) \<or>
    (\<exists>p. newSegmentPair io files b c = Some (Inr p) \<and> pair_rep p [] \<and> base p = b \<and> \<not> Index_IsFull (sp_index p))"
proof -
  let ?s = "\<lparr>sg_file = [], sg_baseOffset = b, sg_nextOffset = b, sg_currentSize = 0, sg_maxSize = lc_MaxSegmentBytes c\<rparr>"
  define ic where "ic = (case lf_index files b of None \<Rightarrow> [] | Some c \<Rightarrow> c)"
  have seg: "NewSegment (pio_recover io) [] b (lc_MaxSegmentBytes c) =
      (if io_stat (pio_recover io) then Some (Inl OtherError) else Some (Inr ?s))"
    by (simp add: NewSegment_def recover_def)
  have rep: "seg_rep ?s []"
    using unsigned_less [of b, where 'a = nat] by (simp add: seg_rep_def batches_ok_def)
  have re: "rebuildIndexFromSegment ?s idx n = (True, Index_Reset idx, 0)" for idx n
    by (simp add: rebuildIndexFromSegment_def rebuild_loop.simps)
  have content: "(case lf_log files b of None \<Rightarrow> [] | Some c \<Rightarrow> c) = []" using f by auto
  show ?thesis
  proof (cases "pio_open io \<or> io_stat (pio_recover io) \<or> pio_index io")
    case True
    then show ?thesis
      using f content seg by (auto simp: newSegmentPair_def NewIndex_def Let_def pair_io_ok_def io_ok_def)
  next
    case False
    have max: "0 < lc_MaxIndexBytes c" "12 \<le> lc_MaxIndexBytes c" "0 < lc_MaxSegmentBytes c" using c by (auto simp: config_ok_def)
    obtain idx where idx: "NewIndex ic b (lc_MaxIndexBytes c) False = Inr idx" "ix_baseOffset idx = b"
        "ix_maxBytes idx = lc_MaxIndexBytes c" "idx_rep (Index_Reset idx) []"
      using idx_rep_NewIndex [OF max(1)] by blast
    let ?p = "\<lparr>sp_segment = ?s, sp_index = Index_Reset idx, sp_bytesSinceIndex = 0\<rparr>"
    have "newSegmentPair io files b c = Some (Inr ?p)"
      using False content seg idx(1) re by (simp add: newSegmentPair_def ic_def Let_def)
    moreover have "pair_rep ?p []"
      using rep idx max index_ok_Nil unfolding pair_rep_def by (auto simp: pair_small_def Index_Reset_def)
    moreover have "\<not> Index_IsFull (Index_Reset idx)" using idx(3) max by (simp add: Index_IsFull_def Index_Reset_def indexEntrySize_def)
    ultimately show ?thesis by force
  qed
qed

lemma roll_rep:
  assumes rep: "log_rep l bss" and ne: "last bss \<noteq> []"
  shows "\<exists>r l'. roll io l = Some (r, l') \<and> same_log l l' \<and>
    (case r of Inl _ \<Rightarrow> log_rep l' bss \<and> io_faulty io
     | Inr _ \<Rightarrow> log_rep l' (bss @ [[]]) \<and> \<not> Index_IsFull (sp_index (lg_active l')))"
proof -
  let ?n = "next_of (lg_active l)" and ?o = "unat (OldestOffset l)"
  obtain xss bs where d: "bss = xss @ [bs]" "length xss = length (lg_sealed l)" "pair_rep (lg_active l) bs"
    "unat (NextOffset l) = ?o + total_records (concat bss)"
    using log_rep_active [OF rep] by metis
  have n: "unat ?n = ?o + total_records (concat bss)" using d(4) by (simp add: NextOffset_def)
  have lk: "linked ?o (pairs l) bss" and nn: "[] \<notin> set (butlast bss)" and c: "config_ok (lg_config l)"
    and cl: "files_clean (unat (OldestOffset l)) (lg_files l)" using rep by (simp_all add: log_rep_def)
  have le: "unat (OldestOffset l) \<le> unat ?n" using n by simp
  then have f: "lf_log (lg_files l) ?n = None \<or> lf_log (lg_files l) ?n = Some []" using cl by (simp add: files_clean_def)
  from newSegmentPair_empty [OF c f, of "li_pair io ?n"] show ?thesis
  proof
    assume "\<exists>content. newSegmentPair (li_pair io ?n) (lg_files l) ?n (lg_config l) = Some (Inl content) \<and> (content = None \<or> content = Some []) \<and> li_pair io ?n \<noteq> pair_io_ok"
    then obtain content where "newSegmentPair (li_pair io ?n) (lg_files l) ?n (lg_config l) = Some (Inl content)"
      "content = None \<or> content = Some []" "io_faulty io" by (auto simp: io_faulty_def)
    then show ?thesis
      using rep by (auto simp: roll_def Let_def same_log_def log_rep_def OldestOffset_def pairs_def files_clean_def)
  next
    assume "\<exists>p. newSegmentPair (li_pair io ?n) (lg_files l) ?n (lg_config l) = Some (Inr p) \<and> pair_rep p [] \<and> base p = ?n \<and> \<not> Index_IsFull (sp_index p)"
    then obtain p where p: "newSegmentPair (li_pair io ?n) (lg_files l) ?n (lg_config l) = Some (Inr p)" "pair_rep p []" "base p = ?n"
      "\<not> Index_IsFull (sp_index p)" by blast
    define l' where "l' = l\<lparr>lg_sealed := lg_sealed l @ [lg_active l], lg_active := p,
            lg_files := \<lparr>lf_log = (lf_log (lg_files l))(?n := None), lf_index = (lf_index (lg_files l))(?n := None)\<rparr>\<rparr>"
    have r: "roll io l = Some (Inr (), l')" using p(1) by (simp add: roll_def Let_def l'_def)
    have old: "OldestOffset l' = OldestOffset l" by (cases "lg_sealed l") (simp_all add: l'_def OldestOffset_def)
    have "linked ?o (pairs l @ [p]) (bss @ [[]])"
      using linked_append [OF linked_length [OF lk]] lk p(2,3) n by simp
    moreover have "files_clean (unat (OldestOffset l)) (lg_files l')"
      using cl by (simp add: files_clean_def l'_def)
    moreover have "pairs l' = pairs l @ [p]" "lg_active l' = p" "lg_config l' = lg_config l" by (simp_all add: l'_def pairs_def)
    moreover have "[] \<notin> set (butlast (bss @ [[]]))" using nn ne d(1) unfolding butlast_snoc by simp
    ultimately have "log_rep l' (bss @ [[]])" using old c by (simp add: log_rep_def)
    then show ?thesis using r old p(4) by (simp add: same_log_def l'_def)
  qed
qed

lemma full_not_empty:
  assumes "pair_rep p bs" and "Segment_IsFull (sp_segment p) \<or> Index_IsFull (sp_index p)"
  shows "bs \<noteq> []"
proof
  assume "bs = []"
  then obtain es where "idx_rep (sp_index p) es" "index_ok [] es" "sg_currentSize (sp_segment p) = 0" "12 \<le> ix_maxBytes (sp_index p)"
    "0 < sg_maxSize (sp_segment p)"
    using assms(1) unfolding pair_rep_def seg_rep_def by auto
  then show False
    using assms(2) index_ok_empty [of es] by (auto simp: Segment_IsFull_def Index_IsFull_def idx_rep_def indexEntrySize_def)
qed

lemma roll_if_full_rep:
  assumes rep: "log_rep l bss"
  shows "\<exists>r l'. roll_if_full io l = Some (r, l') \<and> same_log l l' \<and>
    (case r of Inl _ \<Rightarrow> log_rep l' bss \<and> io_faulty io
     | Inr _ \<Rightarrow> (\<exists>bss'. log_rep l' bss' \<and> concat bss' = concat bss \<and> (last bss' = last bss \<or> last bss' = []) \<and>
         \<not> Index_IsFull (sp_index (lg_active l'))))"
proof (cases "Segment_IsFull (sp_segment (lg_active l)) \<or> Index_IsFull (sp_index (lg_active l))")
  case False
  then show ?thesis using rep by (auto simp: roll_if_full_def)
next
  case True
  obtain xss bs where d: "bss = xss @ [bs]" "pair_rep (lg_active l) bs" using log_rep_active [OF rep] by metis
  then have "last bss \<noteq> []" using full_not_empty True by simp
  from roll_rep [OF rep this, of io] obtain r l' where r: "roll io l = Some (r, l')" "same_log l l'"
    "case r of Inl _ \<Rightarrow> log_rep l' bss \<and> io_faulty io | Inr _ \<Rightarrow> log_rep l' (bss @ [[]]) \<and> \<not> Index_IsFull (sp_index (lg_active l'))" by blast
  then show ?thesis using True
    by (intro exI [of _ r] exI [of _ l'])
      (cases r; auto simp: roll_if_full_def intro!: exI [of _ "bss @ [[]]"])
qed

section \<open>The index after an append\<close>

lemma log_rep_set_active:
  assumes rep: "log_rep l (xss @ [bs])" and p: "pair_rep p bs'" "base p = base (lg_active l)"
  shows "log_rep (l\<lparr>lg_active := p\<rparr>) (xss @ [bs'])" and "same_log l (l\<lparr>lg_active := p\<rparr>)"
proof -
  have lk: "linked (unat (OldestOffset l)) (lg_sealed l @ [lg_active l]) (xss @ [bs])" using rep by (simp add: log_rep_def pairs_def)
  have len: "length (lg_sealed l) = length xss" using linked_length [OF lk] by simp
  have old: "OldestOffset (l\<lparr>lg_active := p\<rparr>) = OldestOffset l" using p(2) by (simp add: OldestOffset_def)
  have "linked (unat (OldestOffset l)) (lg_sealed l @ [p]) (xss @ [bs'])"
    using lk p unfolding linked_append [OF len] by simp
  then show "log_rep (l\<lparr>lg_active := p\<rparr>) (xss @ [bs'])" using rep old p(2) by (simp add: log_rep_def pairs_def)
  show "same_log l (l\<lparr>lg_active := p\<rparr>)" using old by (simp add: same_log_def)
qed

lemma ucast_word_of_nat: "ucast (word_of_nat n :: u64) = (word_of_nat n :: u32)"
  by (simp add: unsigned_of_nat word_of_nat_eq_iff)

lemma entry_written:
  assumes "seg_rep s bs"
  shows "(ucast (sg_nextOffset s - sg_baseOffset s), word_of_int (int (length (concat bs)))) = entry_of (bs @ ds) (length bs)"
proof -
  have "sg_nextOffset s = sg_baseOffset s + word_of_nat (total_records bs)"
    using assms by (simp add: seg_rep_def batches_ok_def word_unat_eq_iff unat_add_nat)
  then show ?thesis by (simp add: entry_of_def ucast_word_of_nat)
qed

text \<open>The state between the write of the segment and the write of the index.\<close>

definition seg_written :: "Log \<Rightarrow> Segment \<Rightarrow> Log" where
  "seg_written l s = l\<lparr>lg_active := (lg_active l)\<lparr>sp_segment := s\<rparr>\<rparr>"

lemma index_appended_rep:
  assumes rep: "log_rep l (xss @ [bs])" and room: "\<not> Index_IsFull (sp_index (lg_active l))"
    and s: "seg_rep s (bs @ ds)" "sg_baseOffset s = base (lg_active l)" "sg_maxSize s = sg_maxSize (sp_segment (lg_active l))"
    and ds: "ds \<noteq> []" and small: "pair_small (bs @ ds)"
  shows "\<exists>l'. index_appended (next_of (lg_active l)) (int (length (concat bs))) n (seg_written l s) = Some (Inr (), l') \<and>
    log_rep l' (xss @ [bs @ ds]) \<and> same_log l l'"
proof -
  let ?p = "lg_active l" and ?b = "sp_bytesSinceIndex (lg_active l) + n"
  have p: "pair_rep ?p bs" using log_rep_active [OF rep] by (metis append1_eq_conv)
  then obtain es where es: "idx_rep (sp_index ?p) es" "index_ok bs es" and seg: "seg_rep (sp_segment ?p) bs"
    and i: "ix_baseOffset (sp_index ?p) = base ?p" "12 \<le> ix_maxBytes (sp_index ?p)" "0 < sg_maxSize (sp_segment ?p)"
    unfolding pair_rep_def by blast
  show ?thesis
  proof (cases "int (length (concat bs)) = 0 \<or> ?b \<ge> lc_IndexIntervalBytes (lg_config l)")
    case True
    obtain idx where idx: "Index_Write (sp_index ?p) (next_of ?p) (int (length (concat bs))) = Inr idx"
      "ix_baseOffset idx = base ?p" "ix_maxBytes idx = ix_maxBytes (sp_index ?p)" "idx_rep idx (es @ [entry_of (bs @ ds) (length bs)])"
      using idx_rep_Write [OF es(1) room, of "next_of ?p" "int (length (concat bs))"] i(1) entry_written [OF seg] by metis
    let ?q = "?p\<lparr>sp_segment := s, sp_index := idx, sp_bytesSinceIndex := 0\<rparr>"
    have "pair_rep ?q (bs @ ds)"
      unfolding pair_rep_def using s small idx(2-4) index_ok_add [OF es(2) ds] i by auto
    moreover have "base ?q = base ?p" using s(2) by simp
    moreover have "index_appended (next_of ?p) (int (length (concat bs))) n (seg_written l s) = Some (Inr (), l\<lparr>lg_active := ?q\<rparr>)"
      using True idx(1) by (auto simp: index_appended_def seg_written_def Let_def)
    ultimately show ?thesis using log_rep_set_active [OF rep] by blast
  next
    case False
    have "bs \<noteq> []" using False by auto
    let ?q = "?p\<lparr>sp_segment := s, sp_bytesSinceIndex := ?b\<rparr>"
    have "pair_rep ?q (bs @ ds)"
      unfolding pair_rep_def using s small es(1) index_ok_keep [OF es(2) \<open>bs \<noteq> []\<close>] i by auto
    moreover have "base ?q = base ?p" using s(2) by simp
    moreover have "index_appended (next_of ?p) (int (length (concat bs))) n (seg_written l s) = Some (Inr (), l\<lparr>lg_active := ?q\<rparr>)"
      using False by (auto simp: index_appended_def seg_written_def Let_def)
    ultimately show ?thesis using log_rep_set_active [OF rep] by blast
  qed
qed

section \<open>The contract of an append\<close>

text \<open>
  \<open>op\<close> appends the batches \<open>ds\<close> to a segment.  When they are \<open>valid\<close> for the next offset it stores
  \<open>stored\<close>, of the same size and with as many records; a segment without room is left alone,
  and any other error leaves the batches it holds.
\<close>

locale segment_append =
  fixes op :: "nat option \<Rightarrow> bytes list \<Rightarrow> Segment \<Rightarrow> ((LogError + u64 \<times> int \<times> u64) \<times> Segment) option"
    and valid :: "nat \<Rightarrow> bytes list \<Rightarrow> bool"
    and stored :: "nat \<Rightarrow> bytes list \<Rightarrow> bytes list"
  assumes full: "\<not> fits_segment s (length (concat ds)) \<Longrightarrow> op fault ds s = Some (Inl ErrSegmentFull, s)"
    and appends: "valid (unat (sg_nextOffset s)) ds \<Longrightarrow> seg_rep s bs \<Longrightarrow> fits_segment s (length (concat ds)) \<Longrightarrow>
      \<exists>r s'. op fault ds s = Some (r, s') \<and> sg_baseOffset s' = sg_baseOffset s \<and> sg_maxSize s' = sg_maxSize s \<and>
        (case r of
           Inl e \<Rightarrow> e \<noteq> ErrSegmentFull \<and> seg_rep s' bs \<and> fault \<noteq> None
         | Inr (off, pos, n) \<Rightarrow> off = sg_nextOffset s \<and> pos = sg_currentSize s \<and> n = word_of_nat (total_records ds) \<and>
             seg_rep s' (bs @ stored (unat (sg_nextOffset s)) ds))"
    and stored_size: "valid o' ds \<Longrightarrow> stored o' ds \<noteq> [] \<and> total_records (stored o' ds) = total_records ds \<and>
      length (concat (stored o' ds)) = length (concat ds)"
begin

lemma small_stored: "valid o' ds \<Longrightarrow> pair_small (bs @ ds) \<Longrightarrow> pair_small (bs @ stored o' ds)"
  using stored_size [of o' ds] by (simp add: pair_small_def)

text \<open>The append to an active segment with room.\<close>

lemma on_active_fits:
  assumes rep: "log_rep l (xss @ [bs])" and room: "\<not> Index_IsFull (sp_index (lg_active l))"
    and fit: "fits_segment (sp_segment (lg_active l)) (length (concat ds))"
    and v: "valid (unat (NextOffset l)) ds" and small: "pair_small (bs @ ds)"
  shows "\<exists>r l1. on_active (op fault ds) l = Some (r, l1) \<and> r \<noteq> Inl ErrSegmentFull \<and>
    (case r of
       Inl _ \<Rightarrow> log_rep l1 (xss @ [bs]) \<and> same_log l l1 \<and> fault \<noteq> None
     | Inr (off, pos, n) \<Rightarrow> off = NextOffset l \<and> n = word_of_nat (total_records ds) \<and>
         (\<exists>l'. index_appended off pos k l1 = Some (Inr (), l') \<and> same_log l l' \<and>
            log_rep l' (xss @ [bs @ stored (unat (NextOffset l)) ds])))"
proof -
  let ?s = "sp_segment (lg_active l)" and ?p = "lg_active l"
  have p: "pair_rep ?p bs" using log_rep_active [OF rep] by (metis append1_eq_conv)
  then have seg: "seg_rep ?s bs" by (simp add: pair_rep_def)
  have v': "valid (unat (sg_nextOffset ?s)) ds" using v by (simp add: NextOffset_def)
  obtain r s where r: "op fault ds ?s = Some (r, s)" "sg_baseOffset s = base ?p" "sg_maxSize s = sg_maxSize ?s"
    and c: "case r of
           Inl e \<Rightarrow> e \<noteq> ErrSegmentFull \<and> seg_rep s bs \<and> fault \<noteq> None
         | Inr (off, pos, n) \<Rightarrow> off = sg_nextOffset ?s \<and> pos = sg_currentSize ?s \<and> n = word_of_nat (total_records ds) \<and>
             seg_rep s (bs @ stored (unat (sg_nextOffset ?s)) ds)"
    using appends [OF v' seg fit, of fault] by metis
  have on: "on_active (op fault ds) l = Some (r, seg_written l s)" using r(1) by (simp add: on_active_def seg_written_def)
  show ?thesis
  proof (cases r)
    case (Inl e)
    then have "pair_rep (?p\<lparr>sp_segment := s\<rparr>) bs" using p c r by (simp add: pair_rep_def)
    then show ?thesis
      using on Inl c log_rep_set_active [OF rep, of "?p\<lparr>sp_segment := s\<rparr>" bs] r(2) by (auto simp: seg_written_def)
  next
    case (Inr x)
    then obtain off pos n where x: "r = Inr (off, pos, n)" by (cases x) auto
    then have s: "off = next_of ?p" "pos = int (length (concat bs))" "n = word_of_nat (total_records ds)"
      "seg_rep s (bs @ stored (unat (NextOffset l)) ds)"
      using c seg_size [OF seg] by (simp_all add: NextOffset_def)
    obtain l' where "index_appended off pos k (seg_written l s) = Some (Inr (), l')" "same_log l l'"
      "log_rep l' (xss @ [bs @ stored (unat (NextOffset l)) ds])"
      using index_appended_rep [OF rep room s(4) r(2,3) _ small_stored [OF v small], of k] stored_size [OF v] s(1,2) by blast
    then show ?thesis using on x s(1,3) by (auto simp: NextOffset_def)
  qed
qed

definition appended :: "LogIO \<Rightarrow> Log \<Rightarrow> bytes list list \<Rightarrow> bytes list \<Rightarrow> LogError + u64 \<times> u64 \<Rightarrow> Log \<Rightarrow> bool" where
  "appended io l bss ds r l' \<longleftrightarrow> same_log l l' \<and>
     (case r of
        Inl _ \<Rightarrow> io_faulty io \<and> (\<exists>bss'. log_rep l' bss' \<and> concat bss' = concat bss)
      | Inr (off, n) \<Rightarrow> off = NextOffset l \<and> n = word_of_nat (total_records ds) \<and>
          (\<exists>bss'. log_rep l' bss' \<and> concat bss' = concat bss @ stored (unat (NextOffset l)) ds))"

text \<open>With room, the rest of the append succeeds or reports the failed write.\<close>

lemma append_fits:
  assumes "log_rep l (xss @ [bs])" and "\<not> Index_IsFull (sp_index (lg_active l))"
    and "fits_segment (sp_segment (lg_active l)) (length (concat ds))"
    and "valid (unat (NextOffset l)) ds" and "pair_small (bs @ ds)"
  shows "\<exists>r l1. on_active (op (li_write io) ds) l = Some (r, l1) \<and> r \<noteq> Inl ErrSegmentFull \<and>
    (case r of
       Inl _ \<Rightarrow> appended io l (xss @ [bs]) ds (Inl ErrSegmentFull) l1
     | Inr (off, pos, n) \<Rightarrow> (\<exists>l'. index_appended off pos k l1 = Some (Inr (), l') \<and> appended io l (xss @ [bs]) ds (Inr (off, n)) l'))"
proof -
  obtain r l1 where r: "on_active (op (li_write io) ds) l = Some (r, l1)" "r \<noteq> Inl ErrSegmentFull"
    and c: "case r of
       Inl _ \<Rightarrow> log_rep l1 (xss @ [bs]) \<and> same_log l l1 \<and> li_write io \<noteq> None
     | Inr (off, pos, n) \<Rightarrow> off = NextOffset l \<and> n = word_of_nat (total_records ds) \<and>
         (\<exists>l'. index_appended off pos k l1 = Some (Inr (), l') \<and> same_log l l' \<and>
            log_rep l' (xss @ [bs @ stored (unat (NextOffset l)) ds]))"
    using on_active_fits [OF assms, of "li_write io" k] by blast
  show ?thesis
  proof (cases r)
    case (Inl e)
    then show ?thesis using r c by (auto simp: appended_def io_faulty_def)
  next
    case (Inr x)
    obtain off pos n where "x = (off, pos, n)" by (cases x) auto
    with Inr c obtain l' where l': "off = NextOffset l" "n = word_of_nat (total_records ds)"
      "index_appended off pos k l1 = Some (Inr (), l')" "same_log l l'"
      "log_rep l' (xss @ [bs @ stored (unat (NextOffset l)) ds])" by auto
    have "appended io l (xss @ [bs]) ds (Inr (off, n)) l'"
      unfolding appended_def using l' by (auto intro!: exI [of _ "xss @ [bs @ stored (unat (NextOffset l)) ds]"])
    then show ?thesis using r l'(3) Inr \<open>x = (off, pos, n)\<close> by auto
  qed
qed

lemma appended_from:
  assumes "log_rep l bss" and "log_rep l1 bss1" and "same_log l l1" and "concat bss1 = concat bss"
    and "appended io l1 bss1 ds r l'"
  shows "appended io l bss ds r l'"
  using assms log_rep_next [OF assms(1-4)] same_log_trans unfolding appended_def by (auto split: sum.splits)

text \<open>The rest of the append, as a computation from a log whose active segment has room.\<close>

lemma append_tail:
  assumes "log_rep l (xss @ [bs])" and "\<not> Index_IsFull (sp_index (lg_active l))"
    and "fits_segment (sp_segment (lg_active l)) (length (concat ds))"
    and "valid (unat (NextOffset l)) ds" and "pair_small (bs @ ds)"
  shows "(\<exists>e l'. on_active (op (li_write io) ds) l = Some (Inl e, l') \<and> e \<noteq> ErrSegmentFull \<and>
       appended io l (xss @ [bs]) ds (Inl e) l') \<or>
    (\<exists>off pos n l1 l'. on_active (op (li_write io) ds) l = Some (Inr (off, pos, n), l1) \<and>
       index_appended off pos k l1 = Some (Inr (), l') \<and> appended io l (xss @ [bs]) ds (Inr (off, n)) l')"
proof -
  have any: "appended io l (xss @ [bs]) ds (Inl ErrSegmentFull) l1 \<Longrightarrow> appended io l (xss @ [bs]) ds (Inl e) l1" for e l1
    by (simp add: appended_def)
  obtain r l1 where r: "on_active (op (li_write io) ds) l = Some (r, l1)" "r \<noteq> Inl ErrSegmentFull"
    "case r of
       Inl _ \<Rightarrow> appended io l (xss @ [bs]) ds (Inl ErrSegmentFull) l1
     | Inr (off, pos, n) \<Rightarrow> (\<exists>l'. index_appended off pos k l1 = Some (Inr (), l') \<and> appended io l (xss @ [bs]) ds (Inr (off, n)) l')"
    using append_fits [OF assms, of io k] by blast
  then show ?thesis by (cases r) (auto intro: any)
qed

lemma append_data_rep:
  assumes rep: "log_rep l bss" and v: "valid (unat (NextOffset l)) ds" and small: "pair_small (last bss @ ds)"
  shows "\<exists>r l'. append_data io (op (li_write io) ds) k l = Some (r, l') \<and> appended io l bss ds r l'"
proof -
  let ?f = "op (li_write io) ds" and ?n = "length (concat ds)"
  obtain r1 l1 where r1: "roll_if_full io l = Some (r1, l1)" "same_log l l1"
    and c1: "case r1 of Inl _ \<Rightarrow> log_rep l1 bss \<and> io_faulty io
     | Inr _ \<Rightarrow> (\<exists>bss'. log_rep l1 bss' \<and> concat bss' = concat bss \<and> (last bss' = last bss \<or> last bss' = []) \<and>
         \<not> Index_IsFull (sp_index (lg_active l1)))"
    using roll_if_full_rep [OF rep, of io] by blast
  show ?thesis
  proof (cases r1)
    case (Inl e)
    then show ?thesis using r1 c1 by (auto simp: append_data_def append_rolling_def lbind_def appended_def)
  next
    case (Inr u)
    then obtain bss1 where b1: "log_rep l1 bss1" "concat bss1 = concat bss" "last bss1 = last bss \<or> last bss1 = []"
      and room: "\<not> Index_IsFull (sp_index (lg_active l1))" using c1 by auto
    obtain xss bs where d: "bss1 = xss @ [bs]" "pair_rep (lg_active l1) bs" using log_rep_active [OF b1(1)] by metis
    have v1: "valid (unat (NextOffset l1)) ds" using v log_rep_next [OF rep b1(1) r1(2) b1(2)] by simp
    have small1: "pair_small (bs @ ds)" "pair_small ([] @ ds)" using small b1(3) d(1) by (auto simp: pair_small_def)
    note from1 = appended_from [OF rep b1(1) r1(2) b1(2)]
    show ?thesis
    proof (cases "fits_segment (sp_segment (lg_active l1)) ?n")
      case True
      have rep1: "log_rep l1 (xss @ [bs])" using b1(1) d(1) by simp
      from append_tail [OF rep1 room True v1 small1(1), of io k] show ?thesis
        using from1 d(1) r1(1) Inr
        by (elim disjE exE conjE) (force simp: append_data_def append_rolling_def lbind_def split: LogError.splits)+
    next
      case False
      then have on: "on_active ?f l1 = Some (Inl ErrSegmentFull, l1)" using full [OF False] by (simp add: on_active_def)
      have "last bss1 \<noteq> []" using False d seg_size [of "sp_segment (lg_active l1)" bs] by (auto simp: fits_segment_def pair_rep_def)
      from roll_rep [OF b1(1) this, of io] obtain r2 l2 where r2: "roll io l1 = Some (r2, l2)" "same_log l1 l2"
        and c2: "case r2 of Inl _ \<Rightarrow> log_rep l2 bss1 \<and> io_faulty io
          | Inr _ \<Rightarrow> log_rep l2 (bss1 @ [[]]) \<and> \<not> Index_IsFull (sp_index (lg_active l2))" by blast
      show ?thesis
      proof (cases r2)
        case (Inl e)
        then have "appended io l1 bss1 ds (Inl e) l2" using c2 r2(2) by (auto simp: appended_def)
        then show ?thesis using from1 r1 r2 on Inl \<open>r1 = Inr u\<close> by (auto simp: append_data_def append_rolling_def lbind_def)
      next
        case (Inr w)
        then have b2: "log_rep l2 (bss1 @ [[]])" and room2: "\<not> Index_IsFull (sp_index (lg_active l2))" using c2 by auto
        have e2: "concat (bss1 @ [[]]) = concat bss1" by simp
        have p2: "pair_rep (lg_active l2) []" using log_rep_active [OF b2] by (metis append1_eq_conv)
        then have fit2: "fits_segment (sp_segment (lg_active l2)) ?n" by (simp add: fits_segment_def pair_rep_def seg_rep_def)
        have v2: "valid (unat (NextOffset l2)) ds" using v1 log_rep_next [OF b1(1) b2 r2(2) e2] by simp
        note from2 = from1 [OF appended_from [OF b1(1) b2 r2(2) e2]]
        from append_tail [OF b2 room2 fit2 v2 small1(2), of io k] show ?thesis
          using from2 r1(1) r2(1) on Inr \<open>r1 = Inr u\<close>
          by (elim disjE exE conjE) (force simp: append_data_def append_rolling_def lbind_def)+
      qed
    qed
  qed
qed

end

section \<open>Both appends meet the contract\<close>

lemmas AppendReplicaBatches_fault = appendRawBatches_fault [where assign = False and epoch = 0, folded AppendReplicaBatches_def]

interpretation produced: segment_append
  "\<lambda>fault ds s. AppendRawBatches fault s (concat ds) (bounds_from 0 ds) epoch"
  "\<lambda>o' ds. ds \<noteq> [] \<and> list_all raw_ok ds \<and> o' + total_records ds < 2 ^ 64"
  "\<lambda>o' ds. stamp_all o' epoch ds" for epoch
proof unfold_locales
  fix s :: Segment and ds :: "bytes list" and fault
  assume "\<not> fits_segment s (length (concat ds))"
  then show "AppendRawBatches fault s (concat ds) (bounds_from 0 ds) epoch = Some (Inl ErrSegmentFull, s)"
    unfolding AppendRawBatches_def by (rule AppendRawBatches_full)
next
  fix s :: Segment and ds bs :: "bytes list" and fault
  assume v: "ds \<noteq> [] \<and> list_all raw_ok ds \<and> unat (sg_nextOffset s) + total_records ds < 2 ^ 64" and rep: "seg_rep s bs"
    and fit: "fits_segment s (length (concat ds))"
  obtain s' where s': "AppendRawBatches None s (concat ds) (bounds_from 0 ds) epoch =
      Some (Inr (sg_nextOffset s, sg_currentSize s, word_of_nat (total_records ds)), s')"
    "sg_baseOffset s' = sg_baseOffset s" "sg_maxSize s' = sg_maxSize s" "seg_rep s' (bs @ stamp_all (unat (sg_nextOffset s)) epoch ds)"
    using AppendRawBatches_rep [OF rep _ _ fit] v by blast
  show "\<exists>r s'. AppendRawBatches fault s (concat ds) (bounds_from 0 ds) epoch = Some (r, s') \<and>
      sg_baseOffset s' = sg_baseOffset s \<and> sg_maxSize s' = sg_maxSize s \<and>
      (case r of Inl e \<Rightarrow> e \<noteq> ErrSegmentFull \<and> seg_rep s' bs \<and> fault \<noteq> None
       | Inr (off, pos, n) \<Rightarrow> off = sg_nextOffset s \<and> pos = sg_currentSize s \<and> n = word_of_nat (total_records ds) \<and>
           seg_rep s' (bs @ stamp_all (unat (sg_nextOffset s)) epoch ds))"
  proof (cases fault)
    case None
    then show ?thesis using s' by auto
  next
    case (Some k)
    then obtain s'' where "AppendRawBatches fault s (concat ds) (bounds_from 0 ds) epoch = Some (Inl OtherError, s'')"
      using AppendRawBatches_fault [OF s'(1)] by blast
    then show ?thesis using Some appendRawBatches_error [OF rep] unfolding AppendRawBatches_def by fastforce
  qed
next
  fix o' and ds :: "bytes list"
  assume "ds \<noteq> [] \<and> list_all raw_ok ds \<and> o' + total_records ds < 2 ^ 64"
  then show "stamp_all o' epoch ds \<noteq> [] \<and> total_records (stamp_all o' epoch ds) = total_records ds \<and>
      length (concat (stamp_all o' epoch ds)) = length (concat ds)"
    using stamp_all_ok [of ds o' epoch] by (cases ds) auto
qed

interpretation replicated: segment_append
  "\<lambda>fault ds s. AppendReplicaBatches fault s (concat ds) (bounds_from 0 ds)"
  "\<lambda>o' ds. ds \<noteq> [] \<and> batches_ok o' ds" "\<lambda>o' ds. ds"
proof unfold_locales
  fix s :: Segment and ds :: "bytes list" and fault
  assume "\<not> fits_segment s (length (concat ds))"
  then show "AppendReplicaBatches fault s (concat ds) (bounds_from 0 ds) = Some (Inl ErrSegmentFull, s)"
    unfolding AppendReplicaBatches_def by (rule AppendRawBatches_full)
next
  fix s :: Segment and ds bs :: "bytes list" and fault
  assume v: "ds \<noteq> [] \<and> batches_ok (unat (sg_nextOffset s)) ds" and rep: "seg_rep s bs" and fit: "fits_segment s (length (concat ds))"
  obtain s' where s': "AppendReplicaBatches None s (concat ds) (bounds_from 0 ds) =
      Some (Inr (sg_nextOffset s, sg_currentSize s, word_of_nat (total_records ds)), s')"
    "sg_baseOffset s' = sg_baseOffset s" "sg_maxSize s' = sg_maxSize s" "seg_rep s' (bs @ ds)"
    using AppendReplicaBatches_rep [OF rep _ _ fit] v by blast
  show "\<exists>r s'. AppendReplicaBatches fault s (concat ds) (bounds_from 0 ds) = Some (r, s') \<and>
      sg_baseOffset s' = sg_baseOffset s \<and> sg_maxSize s' = sg_maxSize s \<and>
      (case r of Inl e \<Rightarrow> e \<noteq> ErrSegmentFull \<and> seg_rep s' bs \<and> fault \<noteq> None
       | Inr (off, pos, n) \<Rightarrow> off = sg_nextOffset s \<and> pos = sg_currentSize s \<and> n = word_of_nat (total_records ds) \<and>
           seg_rep s' (bs @ ds))"
  proof (cases fault)
    case None
    then show ?thesis using s' by auto
  next
    case (Some k)
    then obtain s'' where "AppendReplicaBatches fault s (concat ds) (bounds_from 0 ds) = Some (Inl OtherError, s'')"
      using AppendReplicaBatches_fault [OF s'(1)] by blast
    then show ?thesis using Some appendRawBatches_error [OF rep] unfolding AppendReplicaBatches_def by fastforce
  qed
qed auto

section \<open>A producer's batches\<close>

lemma bounds_sizes: "(\<exists>b\<in>set (bounds_from p ds). bb_size b > m) \<longleftrightarrow> (\<exists>d\<in>set ds. int (length d) > m)"
  by (induction ds arbitrary: p) auto

lemma bounds_from_Nil [simp]: "bounds_from p ds = [] \<longleftrightarrow> ds = []"
  by (cases ds) simp_all

lemma scan_batches: "list_all scannable ds \<Longrightarrow> scanRawBatches (concat ds) = Inr (bounds_from 0 ds)"
  by (simp add: scanRawBatches_def scan_raw_concat)

lemma scannable_raw: "list_all scannable ds \<Longrightarrow> list_all raw_ok ds"
  by (auto simp: list_all_iff scannable_def)

lemma AppendRaw_rep:
  assumes rep: "log_rep l bss" and ds: "list_all scannable ds" "ds \<noteq> []"
    and sizes: "\<forall>d\<in>set ds. int (length d) \<le> lc_MaxMessageBytes (lg_config l)"
    and lt: "unat (NextOffset l) + total_records ds < 2 ^ 64" and small: "pair_small (last bss @ ds)"
  shows "\<exists>r l'. AppendRaw io (concat ds) epoch l = Some (r, l') \<and> same_log l l' \<and>
    (case r of
       Inl _ \<Rightarrow> io_faulty io \<and> (\<exists>bss'. log_rep l' bss' \<and> concat bss' = concat bss)
     | Inr (off, lod) \<Rightarrow> off = NextOffset l \<and> unat lod + 1 = total_records ds \<and>
         (\<exists>bss'. log_rep l' bss' \<and> concat bss' = concat bss @ stamp_all (unat off) epoch ds))"
proof -
  let ?f = "\<lambda>seg. AppendRawBatches (li_write io) seg (concat ds) (bounds_from 0 ds) epoch"
  have v: "ds \<noteq> [] \<and> list_all raw_ok ds \<and> unat (NextOffset l) + total_records ds < 2 ^ 64"
    using ds lt scannable_raw by simp
  obtain r l' where r: "append_data io ?f (int (length (concat ds))) l = Some (r, l')" "produced.appended epoch io l bss ds r l'"
    using produced.append_data_rep [OF rep v small] by blast
  have "\<not> (\<exists>b\<in>set (bounds_from 0 ds). bb_size b > lc_MaxMessageBytes (lg_config l))"
    unfolding bounds_sizes using sizes by auto
  then have A: "AppendRaw io (concat ds) epoch l =
      lbind (append_data io ?f (int (length (concat ds)))) (\<lambda>(off, n) l. Some (Inr (off, ucast (n - 1)), l)) l"
    using scan_batches [OF ds(1)] ds(2) by (simp add: AppendRaw_def)
  show ?thesis
  proof (cases r)
    case (Inl e)
    then show ?thesis using A r by (auto simp: lbind_def produced.appended_def)
  next
    case (Inr x)
    then obtain off where x: "r = Inr (off, word_of_nat (total_records ds))" "off = NextOffset l"
      "\<exists>bss'. log_rep l' bss' \<and> concat bss' = concat bss @ stamp_all (unat off) epoch ds" "same_log l l'"
      using r(2) by (cases x) (auto simp: produced.appended_def)
    have t: "0 < total_records ds" "total_records ds \<le> 2 ^ 32" using total_pos ds(2) small by (auto simp: pair_small_def)
    then have e: "word_of_nat (total_records ds) - 1 = (word_of_nat (total_records ds - 1) :: u64)" by (simp add: of_nat_diff)
    have "unat (ucast (word_of_nat (total_records ds) - 1 :: u64) :: u32) = total_records ds - 1"
      unfolding e ucast_word_of_nat by (rule unat_word_of_nat) (use t in simp)
    then show ?thesis using A r(1) x t by (auto simp: lbind_def)
  qed
qed

section \<open>A leader's batches\<close>

lemma accept_bounds:
  assumes "data = pre @ concat ds" and "p = int (length pre)"
  shows "accept data e (bounds_from p ds) =
    Some (Inr (bounds_from p (takeWhile (\<lambda>d. sint (hdr_epoch d) \<le> sint e) ds), pre @ concat (takeWhile (\<lambda>d. sint (hdr_epoch d) \<le> sint e) ds)))"
  using assms
proof (induction ds arbitrary: pre p)
  case (Cons d ds)
  have "data = (pre @ d) @ concat ds" "p + int (length d) = int (length (pre @ d))" using Cons.prems by simp_all
  note IH = Cons.IH [OF this]
  have "go_slice data 0 p = Some pre" using Cons.prems by (simp add: go_slice_def)
  then show ?case using IH Cons.prems(2) by simp
qed simp

text \<open>Where the epoch changes along a sequence of batches.\<close>

fun epoch_changes :: "i32 option \<Rightarrow> bytes list \<Rightarrow> EpochEntry list" where
  "epoch_changes prev [] = []"
| "epoch_changes prev (b # bs) =
     (if prev = Some (hdr_epoch b) then [] else [\<lparr>ee_Epoch = hdr_epoch b, ee_StartOffset = hdr_base b\<rparr>]) @
     epoch_changes (Some (hdr_epoch b)) bs"

lemma unat_nonneg: "0 \<le> sint (w :: u64) \<Longrightarrow> unat w < 2 ^ 63"
proof -
  assume "0 \<le> sint w"
  then have "int (unat w) = sint w" using uint_nonneg [of w] by simp
  moreover have "sint w < 2 ^ 63" using sint_lt [of w] by simp
  ultimately have "int (unat w) < int (2 ^ 63)" by simp
  then show ?thesis by (simp only: of_nat_less_iff)
qed

lemma next_base:
  assumes "scannable p"
  shows "unat (hdr_base p + ucast (hdr_lod p) + 1) = unat (hdr_base p) + records p"
proof -
  have u: "unat (hdr_base p) < 2 ^ 63" using assms by (intro unat_nonneg) (simp add: scannable_def)
  have "records p \<le> 2 ^ 32" using unsigned_less [of "hdr_lod p", where 'a = nat] by (simp add: records_def)
  then have "unat (hdr_base p + word_of_nat (records p)) = unat (hdr_base p) + records p" using u by (intro unat_add_nat) simp
  then show ?thesis by (simp add: word_records [symmetric] add.assoc)
qed

lemma transitions_bounds:
  assumes "list_all scannable (p # ds)" and "bb_baseOffset q = hdr_base p" "bb_lastOffsetDelta q = hdr_lod p" "bb_leaderEpoch q = hdr_epoch p"
  shows "transitions (Some q) (bounds_from k ds) = Inr es \<longleftrightarrow>
    chain (unat (hdr_base p) + records p) ds \<and> successively (\<lambda>a b. sint (hdr_epoch a) \<le> sint (hdr_epoch b)) (p # ds) \<and>
    es = epoch_changes (Some (hdr_epoch p)) ds"
  using assms
proof (induction ds arbitrary: p q k es)
  case (Cons d ds)
  have b: "hdr_base d = hdr_base p + ucast (hdr_lod p) + 1 \<longleftrightarrow> unat (hdr_base d) = unat (hdr_base p) + records p"
    using next_base [of p] Cons.prems(1) by (simp add: word_unat_eq_iff)
  define q' where "q' = \<lparr>bb_offset = k, bb_size = int (length d), bb_lastOffsetDelta = hdr_lod d, bb_baseOffset = hdr_base d, bb_leaderEpoch = hdr_epoch d\<rparr>"
  have IH: "transitions (Some q') (bounds_from (k + int (length d)) ds) = Inr es' \<longleftrightarrow>
    chain (unat (hdr_base d) + records d) ds \<and> successively (\<lambda>a b. sint (hdr_epoch a) \<le> sint (hdr_epoch b)) (d # ds) \<and>
    es' = epoch_changes (Some (hdr_epoch d)) ds" for es'
    by (rule Cons.IH) (use Cons.prems(1) in \<open>simp_all add: q'_def\<close>)
  define T where "T = transitions (Some q') (bounds_from (k + int (length d)) ds)"
  define e where "e = \<lparr>ee_Epoch = hdr_epoch d, ee_StartOffset = hdr_base d\<rparr>"
  have "transitions (Some q) (bounds_from k (d # ds)) =
      (if hdr_base d \<noteq> hdr_base p + ucast (hdr_lod p) + 1 then Inl ErrUnexpectedAppendOffset
       else if sint (hdr_epoch d) < sint (hdr_epoch p) then Inl ErrCorruptBatch
       else map_sum id (\<lambda>es. if hdr_epoch d \<noteq> hdr_epoch p then e # es else es) T)"
    using Cons.prems(2-4) by (simp add: q'_def T_def e_def cong: if_cong)
  also have "\<dots> = Inr es \<longleftrightarrow> hdr_base d = hdr_base p + ucast (hdr_lod p) + 1 \<and> sint (hdr_epoch p) \<le> sint (hdr_epoch d) \<and>
      (\<exists>es'. T = Inr es' \<and> es = (if hdr_epoch d \<noteq> hdr_epoch p then e # es' else es'))"
    by (cases T) auto
  finally show ?case
    unfolding IH [folded T_def] b by (auto simp: e_def)
qed auto

text \<open>The epoch operations leave the segments alone.\<close>

definition with_epochs :: "Log \<Rightarrow> LeaderEpochCache \<Rightarrow> bool \<Rightarrow> FS \<Rightarrow> Log" where
  "with_epochs l c d f = l\<lparr>lg_epochCache := c, lg_dirty := d, lg_fs := f\<rparr>"

lemma with_epochs_simps [simp]:
  "log_rep (with_epochs l c d f) bss = log_rep l bss" "NextOffset (with_epochs l c d f) = NextOffset l"
  "OldestOffset (with_epochs l c d f) = OldestOffset l" "lg_epochCache (with_epochs l c d f) = c"
  "lg_config (with_epochs l c d f) = lg_config l" "lg_path (with_epochs l c d f) = lg_path l"
  "lg_fs (with_epochs l c d f) = f" "lg_dirty (with_epochs l c d f) = d"
  "with_epochs (with_epochs l c d f) c' d' f' = with_epochs l c' d' f'"
  by (simp_all add: with_epochs_def log_rep_def NextOffset_def OldestOffset_def pairs_def)

lemma with_epochs_id: "l = with_epochs l (lg_epochCache l) (lg_dirty l) (lg_fs l)"
  by (simp add: with_epochs_def)

lemma assign_epoch_cases:
  "assign_epoch e s l = (case Assign (lg_epochCache l) e s of
     Inl _ \<Rightarrow> Some (Inl OtherError, l)
   | Inr (ch, c) \<Rightarrow> Some (Inr (), with_epochs l c (lg_dirty l \<or> ch) (lg_fs l)))"
  by (simp add: assign_epoch_def with_epochs_def split: sum.split prod.split)

lemma assign_epochs_frame:
  "\<exists>r c d. assign_epochs es l = Some (r, with_epochs l c d (lg_fs l)) \<and> (\<forall>u. r = Inr u \<longrightarrow> replay_loop (lg_epochCache l) es = Inr c)"
proof (induction es arbitrary: l)
  case Nil
  show ?case using with_epochs_id [of l] by (intro exI [of _ "Inr ()"] exI [of _ "lg_epochCache l"] exI [of _ "lg_dirty l"]) simp
next
  case (Cons e es)
  show ?case
  proof (cases "Assign (lg_epochCache l) (ee_Epoch e) (ee_StartOffset e)")
    case (Inl err)
    then show ?thesis
      using with_epochs_id [of l]
      by (intro exI [of _ "Inl OtherError"] exI [of _ "lg_epochCache l"] exI [of _ "lg_dirty l"]) (simp add: lbind_def assign_epoch_cases)
  next
    case (Inr x)
    obtain ch c where x: "x = (ch, c)" by (cases x)
    let ?l = "with_epochs l c (lg_dirty l \<or> ch) (lg_fs l)"
    obtain r c' d where IH: "assign_epochs es ?l = Some (r, with_epochs ?l c' d (lg_fs ?l))" "\<forall>u. r = Inr u \<longrightarrow> replay_loop (lg_epochCache ?l) es = Inr c'"
      using Cons.IH [of ?l] by blast
    then show ?thesis using Inr x by (intro exI [of _ r] exI [of _ c'] exI [of _ d]) (simp add: lbind_def assign_epoch_cases)
  qed
qed

lemma persist_frame:
  "\<exists>r d f. persistEpochCheckpointLocked io l = Some (r, with_epochs l (lg_epochCache l) d f)"
proof (cases "lg_dirty l")
  case False
  then show ?thesis using with_epochs_id [of l] by (auto simp: persistEpochCheckpointLocked_def)
next
  case True
  obtain err states where w: "Checkpoint_Write (lg_fs l) (lg_path l) (Entries (lg_epochCache l)) (li_checkpoint io) = (err, states)"
    by fastforce
  have "persistEpochCheckpointLocked io l =
      Some (if err = None then Inr () else Inl OtherError, with_epochs l (lg_epochCache l) (err \<noteq> None) (hd states))"
    using True w by (cases err) (simp_all add: persistEpochCheckpointLocked_def with_epochs_def)
  then show ?thesis by blast
qed

lemma assignLeaderEpochs_frame:
  "\<exists>r c d f. assignLeaderEpochs io es l = Some (r, with_epochs l c d f) \<and> (\<forall>u. r = Inr u \<longrightarrow> replay_loop (lg_epochCache l) es = Inr c)"
proof -
  obtain r c d where a: "assign_epochs es l = Some (r, with_epochs l c d (lg_fs l))" "\<forall>u. r = Inr u \<longrightarrow> replay_loop (lg_epochCache l) es = Inr c"
    using assign_epochs_frame by blast
  obtain r' d' f' where p: "persistEpochCheckpointLocked io (with_epochs l c d (lg_fs l)) = Some (r', with_epochs l c d' f')"
    using persist_frame [of io "with_epochs l c d (lg_fs l)"] by auto
  show ?thesis using a p by (cases r) (auto simp: assignLeaderEpochs_def lbind_def)
qed

lemma chain_bound:
  "list_all scannable ds \<Longrightarrow> chain o' ds \<Longrightarrow> ds \<noteq> [] \<Longrightarrow> o' + total_records ds < 2 ^ 64"
proof (induction ds arbitrary: o')
  case (Cons d ds)
  have "0 \<le> sint (hdr_base d)" using Cons.prems(1) by (simp add: scannable_def)
  then have o': "o' < 2 ^ 63" using unat_nonneg [of "hdr_base d"] Cons.prems(2) by simp
  have "records d \<le> 2 ^ 32" using unsigned_less [of "hdr_lod d", where 'a = nat] by (simp add: records_def)
  then show ?case
    using Cons.IH [of "o' + records d"] Cons.prems o' by (cases "ds = []") (simp_all add: add.assoc)
qed simp

lemma transitions_first:
  assumes "list_all scannable (d # ds)"
  shows "transitions None (bounds_from k (d # ds)) = Inr es \<longleftrightarrow>
    chain (unat (hdr_base d)) (d # ds) \<and> successively (\<lambda>a b. sint (hdr_epoch a) \<le> sint (hdr_epoch b)) (d # ds) \<and>
    es = epoch_changes None (d # ds)"
proof -
  define q where "q = \<lparr>bb_offset = k, bb_size = int (length d), bb_lastOffsetDelta = hdr_lod d, bb_baseOffset = hdr_base d, bb_leaderEpoch = hdr_epoch d\<rparr>"
  define T where "T = transitions (Some q) (bounds_from (k + int (length d)) ds)"
  have "transitions None (bounds_from k (d # ds)) = map_sum id (\<lambda>es. \<lparr>ee_Epoch = hdr_epoch d, ee_StartOffset = hdr_base d\<rparr> # es) T"
    by (simp add: q_def T_def)
  also have "\<dots> = Inr es \<longleftrightarrow> (\<exists>es'. T = Inr es' \<and> es = \<lparr>ee_Epoch = hdr_epoch d, ee_StartOffset = hdr_base d\<rparr> # es')"
    by (cases T) auto
  finally show ?thesis
    unfolding T_def transitions_bounds [OF assms, of q, unfolded q_def, simplified, folded q_def] by auto
qed

lemma pair_small_prefix: "pair_small (bs @ takeWhile P ds) \<or> \<not> pair_small (bs @ ds)"
proof -
  have "total_records (takeWhile P ds) \<le> total_records ds" "length (concat (takeWhile P ds)) \<le> length (concat ds)"
    by (metis le_add1 takeWhile_dropWhile_id total_simps(3)) (metis concat_append le_add1 length_append takeWhile_dropWhile_id)
  then show ?thesis by (auto simp: pair_small_def)
qed

lemma AppendReplicaRaw_rep:
  assumes rep: "log_rep l bss" and ds: "list_all scannable ds" "ds \<noteq> []" and small: "pair_small (last bss @ ds)"
    and acc: "acc = takeWhile (\<lambda>d. sint (hdr_epoch d) \<le> sint fetchEpoch) ds"
  shows "\<exists>r l'. AppendReplicaRaw io (concat ds) fetchEpoch l = Some (r, l') \<and>
    lg_config l' = lg_config l \<and> OldestOffset l' = OldestOffset l \<and>
    (case r of
       Inl _ \<Rightarrow> (\<exists>bss'. log_rep l' bss' \<and> concat bss' = concat bss)
     | Inr n \<Rightarrow> unat n = total_records acc \<and> (\<exists>bss'. log_rep l' bss' \<and> concat bss' = concat bss @ acc) \<and>
         (acc \<noteq> [] \<longrightarrow> replay_loop (lg_epochCache l) (epoch_changes None acc) = Inr (lg_epochCache l')))"
proof -
  have sc: "list_all scannable acc" using ds(1) by (auto simp: acc list_all_iff dest: set_takeWhileD)
  have small': "pair_small (last bss @ acc)" using pair_small_prefix small acc by blast
  have acc': "accept (concat ds) fetchEpoch (bounds_from 0 ds) = Some (Inr (bounds_from 0 acc, concat acc))"
    using accept_bounds [of "concat ds" "[]" ds 0 fetchEpoch] by (simp add: acc)
  note A = AppendReplicaRaw_def [of io "concat ds" fetchEpoch l, unfolded scan_batches [OF ds(1)] sum.case acc' option.case prod.case]
  have stay: ?thesis if "AppendReplicaRaw io (concat ds) fetchEpoch l = Some (Inl e, l)" for e
    using that rep by fastforce
  show ?thesis
  proof (cases acc)
    case Nil
    then show ?thesis using A ds(2) rep by auto
  next
    case (Cons d as)
    show ?thesis
    proof (cases "hdr_base d = NextOffset l")
      case False
      then show ?thesis using A ds(2) Cons by (intro stay) simp
    next
      case True
      show ?thesis
      proof (cases "transitions None (bounds_from 0 acc)")
        case (Inl e)
        then show ?thesis using A ds(2) Cons True by (intro stay) (simp del: transitions.simps)
      next
        case (Inr es)
        then have t: "chain (unat (NextOffset l)) acc" "es = epoch_changes None acc"
          using transitions_first [of d as 0 es] sc Cons True by auto
        have v: "acc \<noteq> [] \<and> batches_ok (unat (NextOffset l)) acc"
          using t(1) chain_bound [OF sc t(1)] scannable_raw [OF sc] Cons by (simp add: batches_ok_def)
        obtain r c dd f where a: "assignLeaderEpochs io es l = Some (r, with_epochs l c dd f)"
          "\<forall>u. r = Inr u \<longrightarrow> replay_loop (lg_epochCache l) es = Inr c"
          using assignLeaderEpochs_frame by blast
        let ?f = "\<lambda>seg. AppendReplicaBatches (li_write io) seg (concat acc) (bounds_from 0 acc)" and ?l = "with_epochs l c dd f"
        have B: "AppendReplicaRaw io (concat ds) fetchEpoch l =
            lbind (assignLeaderEpochs io es) (\<lambda>_. lbind (append_data io ?f (int (length (concat acc)))) (\<lambda>(_, n) l. Some (Inr n, l))) l"
          using A ds(2) Inr True Cons by (simp del: transitions.simps)
        show ?thesis
        proof (cases r)
          case (Inl e)
          then show ?thesis using B a(1) rep by (simp add: lbind_def) blast
        next
          case (Inr u)
          have rep': "log_rep ?l bss" and v': "acc \<noteq> [] \<and> batches_ok (unat (NextOffset ?l)) acc" using rep v by simp_all
          obtain r' l' where r': "append_data io ?f (int (length (concat acc))) ?l = Some (r', l')" "replicated.appended io ?l bss acc r' l'"
            using replicated.append_data_rep [OF rep' v' small'] by blast
          have "total_records acc < 2 ^ 64" using v by (simp add: batches_ok_def)
          then show ?thesis
            using B a Inr r' t(2) by (cases r') (auto simp: lbind_def replicated.appended_def same_log_def unat_word_of_nat)
        qed
      qed
    qed
  qed
qed

end
