(* ===== verification/LogTruncate.thy ===== *)
theory LogTruncate
  imports LogAppend
begin

text \<open>
  Rebuilding the index of a segment and truncating a log: \<open>TruncateTo\<close> cuts the list of batches at
  a batch boundary and refuses every other offset.
\<close>

section \<open>Rebuilding an index\<close>

lemma concat_eq_0: "batches_ok o' bs \<Longrightarrow> length (concat bs) = 0 \<longleftrightarrow> bs = []"
  by (cases bs) (auto simp: batches_ok_def dest: raw_ok_length)

lemma entry_at_boundary:
  assumes "seg_rep s (xs @ y # ys)"
  shows "(ucast (hdr_base y - sg_baseOffset s), word_of_int (int (length (concat xs)))) = entry_of (xs @ [y]) (length xs)"
proof -
  have "unat (sg_baseOffset s) + total_records xs < 2 ^ 64" using assms by (simp add: seg_rep_def batches_ok_def)
  then have "hdr_base y = sg_baseOffset s + word_of_nat (total_records xs)"
    using batch_offsets(1) [OF assms] by (simp add: word_unat_eq_iff unat_add_nat)
  then show ?thesis by (simp add: entry_of_def ucast_word_of_nat)
qed

lemma rebuild_loop_rep:
  assumes "seg_rep s (xs @ ys)" and "idx_rep idx es" and "index_ok xs es" and "ix_baseOffset idx = sg_baseOffset s"
    and "12 * (int (length es) + int (length ys)) \<le> ix_maxBytes idx"
  shows "\<exists>idx' b' es'. rebuild_loop s interval idx (int (length (concat xs))) b = (True, idx', b') \<and>
    idx_rep idx' es' \<and> index_ok (xs @ ys) es' \<and> ix_baseOffset idx' = ix_baseOffset idx \<and> ix_maxBytes idx' = ix_maxBytes idx"
  using assms
proof (induction ys arbitrary: xs idx es b)
  case Nil
  then show ?case using seg_size [OF Nil.prems(1)] by (auto simp: rebuild_loop.simps)
next
  case (Cons y ys)
  note rep = Cons.prems(1)
  have rep': "seg_rep s ((xs @ [y]) @ ys)" using rep by simp
  have z: "int (length (concat xs)) = 0 \<longleftrightarrow> xs = []"
    using concat_eq_0 [of "unat (sg_baseOffset s)" xs] rep by (simp add: seg_rep_def batches_ok_append)
  let ?b = "b + int (length y)" and ?pos = "int (length (concat xs))"
  have pos': "?pos + int (length y) = int (length (concat (xs @ [y])))" by simp
  have unfold: "rebuild_loop s interval idx ?pos b =
      (if ?pos = 0 \<or> ?b \<ge> interval
       then (case Index_Write idx (hdr_base y) ?pos of
           Inl _ \<Rightarrow> (False, idx, ?b)
         | Inr idx' \<Rightarrow> rebuild_loop s interval idx' (int (length (concat (xs @ [y])))) 0)
       else rebuild_loop s interval idx (int (length (concat (xs @ [y])))) ?b)"
    unfolding pos' [symmetric] using seg_bounds [OF rep] meta_at [OF rep]
    by (subst rebuild_loop.simps) (simp add: Let_def)
  show ?case
  proof (cases "?pos = 0 \<or> ?b \<ge> interval")
    case True
    have "\<not> Index_IsFull idx" using Cons.prems(2,5) by (simp add: Index_IsFull_def idx_rep_def indexEntrySize_def)
    then obtain idx' where w: "Index_Write idx (hdr_base y) ?pos = Inr idx'" "ix_baseOffset idx' = ix_baseOffset idx"
      "ix_maxBytes idx' = ix_maxBytes idx" "idx_rep idx' (es @ [entry_of (xs @ [y]) (length xs)])"
      using idx_rep_Write [OF Cons.prems(2), of "hdr_base y" ?pos] entry_at_boundary [OF rep] Cons.prems(4) by metis
    have ok: "index_ok (xs @ [y]) (es @ [entry_of (xs @ [y]) (length xs)])" using index_ok_add [OF Cons.prems(3), of "[y]"] by simp
    from Cons.IH [OF rep' w(4) ok, of 0] show ?thesis using unfold True w Cons.prems(4,5) by auto
  next
    case False
    then have ok: "index_ok (xs @ [y]) es" using index_ok_keep [OF Cons.prems(3), of "[y]"] z by auto
    from Cons.IH [OF rep' Cons.prems(2) ok Cons.prems(4), of ?b] show ?thesis using unfold False Cons.prems(5) by auto
  qed
qed

lemma rebuild_rep:
  assumes "seg_rep s bs" and "idx_rep idx es" and "ix_baseOffset idx = sg_baseOffset s" and "12 * int (length bs) \<le> ix_maxBytes idx"
  shows "\<exists>idx' b' es'. rebuildIndexFromSegment s idx interval = (True, idx', b') \<and> idx_rep idx' es' \<and> index_ok bs es' \<and>
    ix_baseOffset idx' = ix_baseOffset idx \<and> ix_maxBytes idx' = ix_maxBytes idx"
  using rebuild_loop_rep [of s "[]" bs "Index_Reset idx" "[]" interval 0] assms idx_rep_reset [OF assms(2)]
  by (simp add: rebuildIndexFromSegment_def Index_Reset_def)

section \<open>The truncation point\<close>

lemma find_truncation_boundary:
  assumes "seg_rep s (as @ xs @ ys)" and "unat offset = unat (sg_baseOffset s) + total_records (as @ xs)"
  shows "find_truncation s offset (int (length (concat as))) = Some (int (length (concat (as @ xs))))"
  using assms
proof (induction xs arbitrary: as)
  case Nil
  show ?case
  proof (cases ys)
    case Nil
    then have "sg_currentSize s = int (length (concat as))" "offset = sg_nextOffset s"
      using Nil.prems seg_size [of s as] by (simp_all add: seg_rep_def word_unat_eq_iff)
    then show ?thesis by (simp add: find_truncation.simps)
  next
    case (Cons y ys')
    have rep: "seg_rep s (as @ y # ys')" using Nil.prems(1) Cons by simp
    have "hdr_base y = offset" using batch_offsets(1) [OF rep] Nil.prems(2) by (simp add: word_unat_eq_iff)
    then show ?thesis using meta_at [OF rep] seg_bounds [OF rep] by (subst find_truncation.simps) simp
  qed
next
  case (Cons x xs)
  have rep: "seg_rep s (as @ x # xs @ ys)" using Cons.prems(1) by simp
  have ne: "hdr_base x \<noteq> offset" "\<not> offset \<le> hdr_base x + ucast (hdr_lod x)"
    using batch_offsets [OF rep] Cons.prems(2) records_pos [of x] by (auto simp: word_unat_eq_iff word_le_nat_alt)
  have "find_truncation s offset (int (length (concat (as @ [x])))) = Some (int (length (concat ((as @ [x]) @ xs))))"
    by (rule Cons.IH) (use Cons.prems in simp_all)
  then show ?case using meta_at [OF rep] seg_bounds [OF rep] ne by (subst find_truncation.simps) (simp add: Let_def)
qed

lemma find_truncation_inside:
  assumes "seg_rep s (as @ xs @ y # ys)" and "unat (sg_baseOffset s) + total_records (as @ xs) < unat offset"
    and "unat offset < unat (sg_baseOffset s) + total_records (as @ xs @ [y])"
  shows "find_truncation s offset (int (length (concat as))) = None"
  using assms
proof (induction xs arbitrary: as)
  case Nil
  have rep: "seg_rep s (as @ y # ys)" using Nil.prems(1) by simp
  have "hdr_base y \<noteq> offset" "hdr_base y < offset" "offset \<le> hdr_base y + ucast (hdr_lod y)"
    using batch_offsets [OF rep] Nil.prems(2,3) by (auto simp: word_unat_eq_iff word_le_nat_alt word_less_nat_alt)
  then show ?case using meta_at [OF rep] seg_bounds [OF rep] by (subst find_truncation.simps) simp
next
  case (Cons x xs)
  have rep: "seg_rep s (as @ x # xs @ y # ys)" using Cons.prems(1) by simp
  have ne: "hdr_base x \<noteq> offset" "\<not> offset \<le> hdr_base x + ucast (hdr_lod x)"
    using batch_offsets [OF rep] Cons.prems(2) records_pos [of x] by (auto simp: word_unat_eq_iff word_le_nat_alt)
  have "find_truncation s offset (int (length (concat (as @ [x])))) = None"
    by (rule Cons.IH) (use Cons.prems in simp_all)
  then show ?case using meta_at [OF rep] seg_bounds [OF rep] ne by (subst find_truncation.simps) (simp add: Let_def)
qed

section \<open>Truncating a segment\<close>

lemma pair_small_append: "pair_small (xs @ ys) \<Longrightarrow> pair_small xs"
  by (simp add: pair_small_def)

lemma truncateSegmentPair_rep:
  assumes rep: "pair_rep p (xs @ ys)" and off: "unat offset = unat (base p) + total_records xs"
    and room: "12 * int (length xs) \<le> ix_maxBytes (sp_index p)"
  shows "\<exists>p'. truncateSegmentPair False p (int (length (concat xs))) offset interval = (True, p') \<and> pair_rep p' xs \<and> base p' = base p \<and>
    ix_maxBytes (sp_index p') = ix_maxBytes (sp_index p)"
proof -
  obtain es where es: "idx_rep (sp_index p) es" and seg: "seg_rep (sp_segment p) (xs @ ys)" and i: "ix_baseOffset (sp_index p) = base p"
    "12 \<le> ix_maxBytes (sp_index p)" "0 < sg_maxSize (sp_segment p)" "pair_small (xs @ ys)"
    using rep unfolding pair_rep_def by blast
  obtain s where s: "truncateAt False (sp_segment p) (int (length (concat xs))) offset = Some s" "sg_baseOffset s = base p"
    "sg_maxSize s = sg_maxSize (sp_segment p)" "seg_rep s xs"
    using truncateAt_rep [OF seg off] by blast
  obtain idx b es' where r: "rebuildIndexFromSegment s (sp_index p) interval = (True, idx, b)" "idx_rep idx es'" "index_ok xs es'"
    "ix_baseOffset idx = base p" "ix_maxBytes idx = ix_maxBytes (sp_index p)"
    using rebuild_rep [OF s(4) es _ room, of interval] i(1) s(2) by metis
  let ?p = "\<lparr>sp_segment = s, sp_index = idx, sp_bytesSinceIndex = b\<rparr>"
  have "truncateSegmentPair False p (int (length (concat xs))) offset interval = (True, ?p)"
    using s(1) r(1) by (simp add: truncateSegmentPair_def)
  moreover have "pair_rep ?p xs" unfolding pair_rep_def using s r i pair_small_append by auto
  ultimately show ?thesis using s(2) r(5) by auto
qed

section \<open>Removing segments\<close>

definition removals_ok :: "LogIO \<Rightarrow> bool" where
  "removals_ok io \<longleftrightarrow> (\<forall>b. \<not> pio_close (li_pair io b) \<and> \<not> pio_rmLog (li_pair io b) \<and> \<not> pio_rmIndex (li_pair io b))"

lemma remove_pairs_ok:
  assumes "removals_ok io"
  shows "\<exists>files'. remove_pairs io ps files = (True, files') \<and> (files_clean n files \<longrightarrow> files_clean n files')"
proof (induction ps arbitrary: files)
  case (Cons p ps)
  obtain f where f: "closeAndRemovePair io p files = (True, f)" "files_clean n files \<longrightarrow> files_clean n f"
    using assms by (simp add: closeAndRemovePair_def removals_ok_def Let_def files_clean_def)
  obtain f' where "remove_pairs io ps f = (True, f')" "files_clean n f \<longrightarrow> files_clean n f'" using Cons.IH by blast
  then show ?case using f by simp
qed simp

section \<open>Truncating a log\<close>

text \<open>A valid history with offsets that fit a signed field can be written.\<close>

definition writable :: "LeaderEpochCache \<Rightarrow> bool" where
  "writable c \<longleftrightarrow> epochs_ok (lec_entries c) \<and> (\<forall>e\<in>set (lec_entries c). unat (ee_StartOffset e) < 2 ^ 63)"

lemma writable_truncate: "writable c \<Longrightarrow> writable (snd (TruncateFromEnd c offset))"
  by (auto simp: writable_def epochs_ok_takeWhile TruncateFromEnd_def Let_def dest: set_takeWhileD)

lemma persist_result:
  "\<exists>r d f. persistEpochCheckpointLocked io l = Some (r, with_epochs l (lg_epochCache l) d f) \<and>
     (li_checkpoint io = no_fault \<longrightarrow> writable (lg_epochCache l) \<longrightarrow> r = Inr ())"
proof (cases "lg_dirty l")
  case False
  then show ?thesis using with_epochs_id [of l] by (auto simp: persistEpochCheckpointLocked_def)
next
  case True
  obtain err states where w: "Checkpoint_Write (lg_fs l) (lg_path l) (Entries (lg_epochCache l)) (li_checkpoint io) = (err, states)"
    by fastforce
  have "persistEpochCheckpointLocked io l =
      Some (if err = None then Inr () else Inl OtherError, with_epochs l (lg_epochCache l) (err \<noteq> None) (hd states))"
    using True w by (cases err) (simp_all add: persistEpochCheckpointLocked_def with_epochs_def)
  moreover have "err = None" if "li_checkpoint io = no_fault" "writable (lg_epochCache l)"
  proof -
    have "list_all entry_ok (lec_entries (lg_epochCache l))" using that(2) by (auto simp: list_all_iff entry_ok_def epochs_ok_def writable_def)
    then have "check_entries 0 None (lec_entries (lg_epochCache l)) = None" using check_entries_accepts that(2) by (simp add: writable_def)
    then show ?thesis using w that(1) by (simp add: Checkpoint_Write_def no_fault_def Entries_def Let_def)
  qed
  ultimately show ?thesis by (cases "err = None") auto
qed

lemma truncate_epochs_frame:
  "\<exists>r d f. truncate_epochs io cleaned physical offset l =
     Some (r, with_epochs l (if physical then snd (TruncateFromEnd (lg_epochCache l) offset) else lg_epochCache l) d f) \<and>
     (cleaned \<longrightarrow> li_checkpoint io = no_fault \<longrightarrow> writable (lg_epochCache l) \<longrightarrow> r = Inr ())"
proof -
  define c where "c = (if physical then snd (TruncateFromEnd (lg_epochCache l) offset) else lg_epochCache l)"
  define ch where "ch = (physical \<and> fst (TruncateFromEnd (lg_epochCache l) offset))"
  let ?l = "with_epochs l c (lg_dirty l \<or> ch) (lg_fs l)"
  obtain r d f where r: "persistEpochCheckpointLocked io ?l = Some (r, with_epochs ?l (lg_epochCache ?l) d f)"
      "li_checkpoint io = no_fault \<longrightarrow> writable (lg_epochCache ?l) \<longrightarrow> r = Inr ()"
    using persist_result by blast
  then have "truncate_epochs io cleaned physical offset l = Some (if cleaned then r else Inl OtherError, with_epochs l c d f)"
    by (cases physical; cases "TruncateFromEnd (lg_epochCache l) offset")
      (simp_all add: truncate_epochs_def c_def ch_def with_epochs_def)
  moreover have "writable (lg_epochCache l) \<longrightarrow> writable c" using writable_truncate by (simp add: c_def)
  ultimately show ?thesis using r(2) unfolding c_def [symmetric] by (intro exI [of _ "if cleaned then r else Inl OtherError"] exI [of _ d] exI [of _ f]) simp
qed

text \<open>The index of every segment has room for an entry per batch, so that it can be rebuilt.\<close>

definition rebuildable :: "Log \<Rightarrow> bytes list list \<Rightarrow> bool" where
  "rebuildable l bss \<longleftrightarrow> list_all2 (\<lambda>p bs. 12 * int (length bs) \<le> ix_maxBytes (sp_index p)) (pairs l) bss"

lemma boundary_split:
  assumes "concat bss = as @ cs" and "cs \<noteq> []"
  shows "\<exists>xss xs ys yss. bss = xss @ (xs @ ys) # yss \<and> as = concat xss @ xs \<and> ys \<noteq> []"
proof -
  obtain c cs' where "cs = c # cs'" using assms(2) by (cases cs) auto
  then show ?thesis using concat_split [of bss as c cs'] assms(1) by blast
qed

lemma rebuildable_epochs [simp]: "rebuildable (with_epochs l c d f) bss = rebuildable l bss"
  by (simp add: rebuildable_def with_epochs_def pairs_def)

lemma TruncateTo_full:
  assumes rep: "log_rep l bss" and split: "concat bss = as @ cs" and off: "unat offset = unat (OldestOffset l) + total_records as"
    and room: "rebuildable l bss" and io: "removals_ok io" "\<not> li_truncate io"
  shows "\<exists>r l' bss'. TruncateTo io offset l = Some (r, l') \<and> log_rep l' bss' \<and> concat bss' = as \<and> rebuildable l' bss' \<and>
    OldestOffset l' = OldestOffset l \<and> lg_config l' = lg_config l \<and>
    lg_epochCache l' = (if cs = [] then lg_epochCache l else snd (TruncateFromEnd (lg_epochCache l) offset)) \<and>
    (li_checkpoint io = no_fault \<longrightarrow> writable (lg_epochCache l) \<longrightarrow> r = Inr ())"
proof -
  have next_off: "unat (next_of (lg_active l)) = unat (OldestOffset l) + total_records (concat bss)"
    using log_rep_active [OF rep] by (metis NextOffset_def)
  have le: "\<not> offset > next_of (lg_active l)" "\<not> offset < OldestOffset l"
    using next_off off split by (simp_all add: word_less_nat_alt)
  show ?thesis
  proof (cases "cs = []")
    case True
    then have "\<not> offset < next_of (lg_active l)" using next_off off split by (simp add: word_less_nat_alt)
    then have "TruncateTo io offset l = truncate_epochs io True False offset l" using le by (simp add: TruncateTo_def Let_def)
    moreover obtain r d f where "truncate_epochs io True False offset l = Some (r, with_epochs l (lg_epochCache l) d f)"
        "li_checkpoint io = no_fault \<longrightarrow> writable (lg_epochCache l) \<longrightarrow> r = Inr ()" using truncate_epochs_frame [of io True False offset l] by auto
    ultimately show ?thesis using True rep split room
      by (intro exI [of _ r] exI [of _ "with_epochs l (lg_epochCache l) d f"] exI [of _ bss]) simp
  next
    case False
    then have lt: "offset < next_of (lg_active l)" using next_off off split total_pos by (simp add: word_less_nat_alt)
    obtain xss xs ys yss where d: "bss = xss @ (xs @ ys) # yss" "as = concat xss @ xs" "ys \<noteq> []"
      using boundary_split [OF split False] by blast
    let ?p = "pairs l ! length xss" and ?o = "unat (OldestOffset l)" and ?n = "lc_IndexIntervalBytes (lg_config l)"
    have lk: "linked ?o (pairs l) bss" and nn: "[] \<notin> set (butlast bss)" and c: "config_ok (lg_config l)"
      and cl: "files_clean ?o (lg_files l)" using rep by (simp_all add: log_rep_def)
    note p = linked_nth [OF lk [unfolded d(1)]]
    have len: "length (lg_sealed l) = length xss + length yss" using linked_length [OF lk] d(1) by (simp add: pairs_def)
    have fs: "findSegment (lg_sealed l) (lg_active l) offset = Some (length xss)"
      using findSegment_rep [of l xss "xs @ ys" yss offset] rep d off total_pos [OF d(3)] by simp
    have off': "unat offset = unat (base ?p) + total_records xs" using off p(2) d(2) by simp
    have seg: "seg_rep (sp_segment ?p) ([] @ xs @ ys)" using p(1) by (simp add: pair_rep_def)
    have ft: "findTruncationPosition (sp_segment ?p) offset = Some (int (length (concat xs)))"
      using find_truncation_boundary [OF seg, of offset] off' by (simp add: findTruncationPosition_def)
    have "12 * int (length (bss ! length xss)) \<le> ix_maxBytes (sp_index ?p)"
      using list_all2_nthD [OF room [unfolded rebuildable_def], of "length xss"] len by (simp add: pairs_def)
    then have ixs: "12 * int (length xs) \<le> ix_maxBytes (sp_index ?p)" using d(1) by simp
    then obtain q where q: "truncateSegmentPair False ?p (int (length (concat xs))) offset ?n = (True, q)" "pair_rep q xs" "base q = base ?p"
        "ix_maxBytes (sp_index q) = ix_maxBytes (sp_index ?p)"
      using truncateSegmentPair_rep [OF p(1) off'] by blast
    have lkx: "linked ?o (take (length xss) (pairs l)) xss"
    proof -
      have "length (take (length xss) (pairs l)) = length xss" using len by (simp add: pairs_def)
      from linked_append [OF this, of ?o "drop (length xss) (pairs l)" "(xs @ ys) # yss"] show ?thesis
        using lk d(1) by (simp only: append_take_drop_id)
    qed
    have tk: "take (length xss) (pairs l) = take (length xss) (lg_sealed l)" using len by (simp add: pairs_def)
    have new: "linked ?o (take (length xss) (lg_sealed l) @ [q]) (xss @ [xs])"
      using lkx p(2) q(2,3) tk by (subst linked_append) (simp_all add: len)
    have nn': "[] \<notin> set (butlast (xss @ [xs]))" using nn d(1) by (cases yss) (auto simp: butlast_append)
    have "length (take (length xss) (lg_sealed l)) = length xss" using len by simp
    moreover have "list_all2 (\<lambda>p bs. 12 * int (length bs) \<le> ix_maxBytes (sp_index p)) (take (length xss) (lg_sealed l)) xss"
      using list_all2_takeI [OF room [unfolded rebuildable_def], of "length xss"] tk d(1) by simp
    ultimately have rb: "list_all2 (\<lambda>p bs. 12 * int (length bs) \<le> ix_maxBytes (sp_index p)) (take (length xss) (lg_sealed l) @ [q]) (xss @ [xs])"
      using ixs q(4) by (simp add: list_all2_appendI)
    have keep: "log_rep l1 (xss @ [xs]) \<and> OldestOffset l1 = OldestOffset l \<and> rebuildable l1 (xss @ [xs])"
      if "pairs l1 = take (length xss) (lg_sealed l) @ [q]" "lg_config l1 = lg_config l" "files_clean ?o (lg_files l1)"
        "lg_sealed l1 = take (length xss) (lg_sealed l)" "lg_active l1 = q" for l1
    proof -
      have "OldestOffset l1 = OldestOffset l"
      proof (cases xss)
        case Nil
        then have "base q = OldestOffset l" using q(3) p(2) by (simp add: word_unat_eq_iff)
        then show ?thesis using that(4,5) Nil by (simp add: OldestOffset_def)
      next
        case (Cons a b)
        then show ?thesis using that(4) len by (cases "lg_sealed l") (simp_all add: OldestOffset_def)
      qed
      then show ?thesis using that new nn' c rb by (simp add: log_rep_def rebuildable_def)
    qed
    obtain files where rm: "remove_pairs io (drop (Suc (length xss)) (lg_sealed l) @ [lg_active l]) (lg_files l) = (True, files)"
      "files_clean ?o files" using remove_pairs_ok [OF io(1), of _ "lg_files l" ?o] cl by blast
    define l1 where "l1 = (if length xss = length (lg_sealed l) then l\<lparr>lg_active := q\<rparr>
      else l\<lparr>lg_sealed := take (length xss) (lg_sealed l), lg_active := q, lg_files := files\<rparr>)"
    have "TruncateTo io offset l = truncate_epochs io True True offset l1"
      using le lt fs ft q(1) io(2) rm(1) by (simp add: TruncateTo_def Let_def l1_def)
    moreover have "log_rep l1 (xss @ [xs]) \<and> OldestOffset l1 = OldestOffset l \<and> rebuildable l1 (xss @ [xs])"
      by (rule keep) (use rm(2) cl in \<open>auto simp: l1_def pairs_def\<close>)
    moreover have "lg_epochCache l1 = lg_epochCache l" "lg_config l1 = lg_config l" by (simp_all add: l1_def)
    moreover have "concat (xss @ [xs]) = as" using d(2) by simp
    moreover obtain r d f where "truncate_epochs io True True offset l1 = Some (r, with_epochs l1 (snd (TruncateFromEnd (lg_epochCache l1) offset)) d f)"
        "li_checkpoint io = no_fault \<longrightarrow> writable (lg_epochCache l1) \<longrightarrow> r = Inr ()" using truncate_epochs_frame [of io True True offset l1] by auto
    ultimately show ?thesis using False
      by (intro exI [of _ r] exI [of _ "with_epochs l1 (snd (TruncateFromEnd (lg_epochCache l1) offset)) d f"] exI [of _ "xss @ [xs]"]) simp
  qed
qed

lemma TruncateTo_rep:
  assumes "log_rep l bss" and "concat bss = as @ cs" and "unat offset = unat (OldestOffset l) + total_records as"
    and "rebuildable l bss" and "removals_ok io" "\<not> li_truncate io"
  shows "\<exists>r l'. TruncateTo io offset l = Some (r, l') \<and> (\<exists>bss'. log_rep l' bss' \<and> concat bss' = as) \<and>
    OldestOffset l' = OldestOffset l \<and> lg_config l' = lg_config l \<and>
    lg_epochCache l' = (if cs = [] then lg_epochCache l else snd (TruncateFromEnd (lg_epochCache l) offset))"
  using TruncateTo_full [OF assms] by blast

lemma TruncateTo_outside:
  assumes "offset < OldestOffset l \<or> NextOffset l < offset"
  shows "TruncateTo io offset l = Some (Inl OtherError, l)"
  using assms by (auto simp: TruncateTo_def Let_def NextOffset_def)

lemma TruncateTo_inside_batch:
  assumes rep: "log_rep l bss" and split: "concat bss = as @ b # cs"
    and lo: "unat (OldestOffset l) + total_records as < unat offset"
    and hi: "unat offset < unat (OldestOffset l) + total_records as + records b"
  shows "TruncateTo io offset l = Some (Inl OtherError, l)"
proof -
  obtain xss xs ys yss where d: "bss = xss @ (xs @ b # ys) # yss" "as = concat xss @ xs"
    using concat_split [OF split] by blast
  let ?p = "pairs l ! length xss" and ?o = "unat (OldestOffset l)"
  have lk: "linked ?o (pairs l) (xss @ (xs @ b # ys) # yss)" using rep d(1) by (simp add: log_rep_def)
  note p = linked_nth [OF lk]
  have next_off: "unat (next_of (lg_active l)) = ?o + total_records (concat bss)"
    using log_rep_active [OF rep] by (metis NextOffset_def)
  have lt: "offset < next_of (lg_active l)" "\<not> offset < OldestOffset l"
    using next_off lo hi split by (simp_all add: word_less_nat_alt)
  have fs: "findSegment (lg_sealed l) (lg_active l) offset = Some (length xss)"
    using findSegment_rep [of l xss "xs @ b # ys" yss offset] rep d lo hi by simp
  have seg: "seg_rep (sp_segment ?p) ([] @ xs @ b # ys)" using p(1) by (simp add: pair_rep_def)
  have "findTruncationPosition (sp_segment ?p) offset = None"
    using find_truncation_inside [OF seg, of offset] lo hi p(2) d(2) by (simp add: findTruncationPosition_def)
  then show ?thesis using lt fs by (auto simp: TruncateTo_def Let_def)
qed

end
