(* ===== verification/LogOpen.thy ===== *)
theory LogOpen
  imports LogTruncate "HOL-Library.Multiset"
begin

text \<open>
  Opening a log: finding the segment files of a directory (\<open>discoverSegments\<close>), opening each of
  them with recovery and index rebuild, and recovering the leader-epoch history from the
  checkpoint or, when that is missing or damaged, from the batches (\<open>RecoverEpochCache\<close>).

  Proved: a log closed or crashed in the middle of a write is reopened with exactly the complete batches
  it held, and the recovered history is the one the checkpoint or the batches record.
\<close>

section \<open>Names of segment files\<close>

definition log_suffix :: gostring where "log_suffix = [0x2E, 0x6C, 0x6F, 0x67]"

text \<open>\<open>fmt.Sprintf("%020d.log", baseOffset)\<close>.\<close>

definition segment_name :: "u64 \<Rightarrow> gostring" where
  "segment_name off = (let d = dec_nat (unat off) in replicate (20 - length d) 48 @ d @ log_suffix)"

definition TrimSuffix :: "gostring \<Rightarrow> gostring \<Rightarrow> gostring" where
  "TrimSuffix s suffix =
     (if length suffix \<le> length s \<and> drop (length s - length suffix) s = suffix then take (length s - length suffix) s else s)"

text \<open>\<open>SkipSpace\<close> of \<open>fmt.Sscanf\<close>: a newline is an error.\<close>

function skip_space :: "bytes \<Rightarrow> bytes option" where
  "skip_space bs =
     (if bs \<noteq> [] \<and> hd bs = 10 then None
      else if bs = [] \<or> space_len space_runes bs = 0 then Some bs
      else skip_space (drop (space_len space_runes bs) bs))"
  by pat_completeness auto
termination
  by (relation "measure length") auto

declare skip_space.simps [simp del]

text \<open>\<open>fmt.Sscanf(s, "%d", &v)\<close> for a \<open>uint64\<close>: the digits after white space; what follows is ignored.\<close>

definition Sscanf_d :: "bytes \<Rightarrow> u64 option" where
  "Sscanf_d s =
     (case skip_space s of
        None \<Rightarrow> None
      | Some r \<Rightarrow>
          let ds = takeWhile is_digit r in
          if ds = [] then None
          else (case digits_val 0 ds of
              None \<Rightarrow> None
            | Some n \<Rightarrow> if n < 2 ^ 64 then Some (word_of_nat n) else None))"

text \<open>\<open>names\<close> are the names of the files in the directory that end in \<open>.log\<close>.\<close>

definition discoverSegments :: "gostring list \<Rightarrow> u64 list" where
  "discoverSegments names = sort (List.map_filter (\<lambda>name. Sscanf_d (TrimSuffix name log_suffix)) names)"

section \<open>Leader epochs\<close>

function scan_loop :: "Segment \<Rightarrow> int \<Rightarrow> EpochEntry list \<Rightarrow> i32 option \<Rightarrow> (EpochEntry list \<times> i32 option) option" where
  "scan_loop seg pos entries lastEpoch =
     (if pos < sg_currentSize seg
      then (case readBatchOffsetAndEpochAt seg pos of
          None \<Rightarrow> None
        | Some (firstOffset, epoch, onDiskSize) \<Rightarrow>
            if onDiskSize > sg_currentSize seg - pos then None
            else if sint epoch \<ge> 0 \<and> lastEpoch \<noteq> Some epoch
              then scan_loop seg (pos + onDiskSize) (entries @ [\<lparr>ee_Epoch = epoch, ee_StartOffset = firstOffset\<rparr>]) (Some epoch)
              else scan_loop seg (pos + onDiskSize) entries lastEpoch)
      else Some (entries, lastEpoch))"
  by pat_completeness auto
termination
  by (relation "measure (\<lambda>(seg, pos, _). nat (sg_currentSize seg - pos))")
    (auto simp: readBatchOffsetAndEpochAt_def recordBatchOverhead_def Let_def split: if_splits option.splits)

declare scan_loop.simps [simp del]

fun scan_pairs :: "segmentPair list \<Rightarrow> EpochEntry list \<Rightarrow> i32 option \<Rightarrow> EpochEntry list option" where
  "scan_pairs [] entries lastEpoch = Some entries"
| "scan_pairs (p # ps) entries lastEpoch =
     (case scan_loop (sp_segment p) 0 entries lastEpoch of
        None \<Rightarrow> None
      | Some (entries, lastEpoch) \<Rightarrow> scan_pairs ps entries lastEpoch)"

definition scanEpochHistoryLocked :: "Log \<Rightarrow> EpochEntry list option" where
  "scanEpochHistoryLocked l = scan_pairs (pairs l) [] None"

definition epochEntriesEqual :: "EpochEntry list \<Rightarrow> EpochEntry list \<Rightarrow> bool" where
  "epochEntriesEqual a b \<longleftrightarrow> length a = length b \<and> list_all (\<lambda>(x, y). x = y) (zip a b)"

text \<open>The end of \<open>RecoverEpochCache\<close>: rewriting the checkpoint if needed.\<close>

definition rewrite_checkpoint ::
    "WriteFault \<Rightarrow> Log \<Rightarrow> EpochEntry list \<Rightarrow> bool \<Rightarrow> LeaderEpochCache \<Rightarrow> LeaderEpochCache option \<times> FS" where
  "rewrite_checkpoint wfault l loaded usedScan cache =
     (let normalized = Entries cache in
      if usedScan \<or> \<not> epochEntriesEqual loaded normalized
      then (case Checkpoint_Write (lg_fs l) (lg_path l) normalized wfault of
          (Some _, states) \<Rightarrow> (None, hd states)
        | (None, states) \<Rightarrow> (Some cache, hd states))
      else (Some cache, lg_fs l))"

definition RecoverEpochCache :: "ReadFault \<Rightarrow> WriteFault \<Rightarrow> Log \<Rightarrow> LeaderEpochCache option \<times> FS" where
  "RecoverEpochCache rfault wfault l =
     (let leo = NextOffset l in
      case Checkpoint_Read (lg_fs l) (lg_path l) rfault of
        Inl _ \<Rightarrow> (None, lg_fs l)
      | Inr loaded \<Rightarrow>
          (case replayEpochEntries loaded of
             Inl _ \<Rightarrow> (None, lg_fs l)
           | Inr cache0 \<Rightarrow>
               let repaired = \<not> epochEntriesEqual loaded (Entries cache0);
                   cache = snd (TruncateAfter cache0 leo)
               in if leo > 0 \<and> (repaired \<or> Entries cache = [])
                  then (case scanEpochHistoryLocked l of
                      None \<Rightarrow> (None, lg_fs l)
                    | Some scanned \<Rightarrow>
                        (case replayEpochEntries scanned of
                           Inl _ \<Rightarrow> (None, lg_fs l)
                         | Inr cache' \<Rightarrow> rewrite_checkpoint wfault l loaded True (snd (TruncateAfter cache' leo))))
                  else rewrite_checkpoint wfault l loaded False cache))"

section \<open>Opening and closing\<close>

text \<open>Failing calls: creating the directory, the calls on the files of each base offset, and those on the
  checkpoint.\<close>

record OpenIO =
  oi_mkdir :: bool
  oi_pair :: "u64 \<Rightarrow> PairIO"
  oi_read :: ReadFault
  oi_write :: WriteFault

definition read_ok :: ReadFault where "read_ok = \<lparr>rf_open = False, rf_read = None\<rparr>"

definition open_io_ok :: OpenIO where
  "open_io_ok = \<lparr>oi_mkdir = False, oi_pair = (\<lambda>_. pair_io_ok), oi_read = read_ok, oi_write = no_fault\<rparr>"

text \<open>The files once a pair is closed: the index file is cut to its entries, unless that fails.\<close>

definition close_pair :: "(u64 \<Rightarrow> PairIO) \<Rightarrow> segmentPair \<Rightarrow> LogFiles \<Rightarrow> LogFiles" where
  "close_pair io p files =
     \<lparr>lf_log = (lf_log files)(base p \<mapsto> sg_file (sp_segment p)),
      lf_index = (lf_index files)(base p \<mapsto>
        (if pio_close (io (base p)) then ix_mmap (sp_index p) else Index_Close (sp_index p)))\<rparr>"

definition closeAll :: "(u64 \<Rightarrow> PairIO) \<Rightarrow> segmentPair list \<Rightarrow> LogFiles \<Rightarrow> LogFiles" where
  "closeAll io ps files = fold (close_pair io) ps files"

text \<open>An open file is no longer part of \<open>files\<close>; an error comes with the files the attempt leaves.\<close>

definition take_files :: "u64 \<Rightarrow> LogFiles \<Rightarrow> LogFiles" where
  "take_files b files = \<lparr>lf_log = (lf_log files)(b := None), lf_index = (lf_index files)(b := None)\<rparr>"

fun open_pairs ::
    "(u64 \<Rightarrow> PairIO) \<Rightarrow> LogConfig \<Rightarrow> u64 list \<Rightarrow> segmentPair list \<Rightarrow> LogFiles \<Rightarrow> (LogFiles + segmentPair list \<times> LogFiles) option" where
  "open_pairs io config [] opened files = Some (Inr (opened, files))"
| "open_pairs io config (offset # offsets) opened files =
     (case newSegmentPair (io offset) files offset config of
        None \<Rightarrow> None
      | Some (Inl content) \<Rightarrow> Some (Inl (closeAll io opened (files\<lparr>lf_log := (lf_log files)(offset := content)\<rparr>)))
      | Some (Inr pair) \<Rightarrow> open_pairs io config offsets (opened @ [pair]) (take_files offset files))"

definition NewLog ::
    "OpenIO \<Rightarrow> gostring list \<Rightarrow> LogFiles \<Rightarrow> FS \<Rightarrow> gostring \<Rightarrow> LogConfig \<Rightarrow> (LogFiles \<times> FS + Log) option" where
  "NewLog io names files fs path config0 =
     (let config = applyDefaults config0;
          baseOffsets = discoverSegments names
      in if oi_mkdir io then Some (Inl (files, fs))
      else case open_pairs (oi_pair io) config (if baseOffsets = [] then [0] else baseOffsets) [] files of
        None \<Rightarrow> None
      | Some (Inl files') \<Rightarrow> Some (Inl (files', fs))
      | Some (Inr (opened, files')) \<Rightarrow>
          let l = \<lparr>lg_config = config, lg_active = last opened, lg_sealed = butlast opened, lg_files = files',
                   lg_epochCache = NewLeaderEpochCache, lg_dirty = False, lg_fs = fs, lg_path = path\<rparr>
          in (case RecoverEpochCache (oi_read io) (oi_write io) l of
              (None, fs') \<Rightarrow> Some (Inl (closeAll (oi_pair io) opened files', fs'))
            | (Some cache, fs') \<Rightarrow> Some (Inr (l\<lparr>lg_epochCache := cache, lg_fs := fs'\<rparr>))))"

text \<open>The result says whether every close succeeded.\<close>

definition Log_Close :: "(u64 \<Rightarrow> PairIO) \<Rightarrow> Log \<Rightarrow> bool \<times> LogFiles" where
  "Log_Close io l =
     (let ps = lg_active l # lg_sealed l in
      (list_all (\<lambda>p. \<not> pio_close (io (base p))) ps, closeAll io ps (lg_files l)))"

section \<open>Names\<close>

lemma digits_val_zeros: "digits_val 0 (replicate n 48 @ ds) = digits_val 0 ds"
  by (induction n) (simp_all add: is_digit_def)

lemma segment_name_offset: "Sscanf_d (TrimSuffix (segment_name off) log_suffix) = Some off"
proof -
  define d where "d = dec_nat (unat off)"
  define z where "z = replicate (20 - length d) (48 :: byte) @ d"
  have all: "\<forall>b\<in>set z. is_digit b" using dec_nat_digits [of _ "unat off"] by (auto simp: z_def d_def is_digit_def)
  have ne: "z \<noteq> []" by (simp add: z_def d_def)
  then have hd: "is_digit (hd z)" using all by (cases z) auto
  have trim: "TrimSuffix (segment_name off) log_suffix = z"
    by (simp add: TrimSuffix_def segment_name_def Let_def z_def d_def)
  have "skip_space z = Some z"
    using hd ne is_digit_neq(3) [OF hd] by (cases z) (simp_all add: skip_space.simps space_len_digit)
  moreover have "digits_val 0 z = Some (unat off)" by (simp add: z_def digits_val_zeros d_def digits_val_dec)
  ultimately show ?thesis using ne unsigned_less [of off, where 'a = nat] by (simp add: Sscanf_d_def trim Let_def takeWhile_eq_all_conv [THEN iffD2, OF all])
qed

lemma discoverSegments_names:
  assumes "mset names = mset (map segment_name offsets)"
  shows "discoverSegments names = sort offsets"
proof -
  have "mset (List.map_filter f names) = mset (List.map_filter f (map segment_name offsets))" for f :: "gostring \<Rightarrow> u64 option"
    using assms by (simp add: List.map_filter_def mset_filter)
  moreover have "List.map_filter (\<lambda>name. Sscanf_d (TrimSuffix name log_suffix)) (map segment_name offsets) = offsets"
    by (simp add: List.map_filter_def segment_name_offset o_def)
  ultimately show ?thesis unfolding discoverSegments_def by (metis sorted_list_of_multiset_mset)
qed

section \<open>The history of the batches\<close>

text \<open>The epochs of a list of batches in order, each with the first offset it appears at.  Batches without an
  epoch are left out.\<close>

fun epoch_history :: "i32 option \<Rightarrow> bytes list \<Rightarrow> EpochEntry list" where
  "epoch_history prev [] = []"
| "epoch_history prev (b # bs) =
     (if 0 \<le> sint (hdr_epoch b) \<and> prev \<noteq> Some (hdr_epoch b)
      then \<lparr>ee_Epoch = hdr_epoch b, ee_StartOffset = hdr_base b\<rparr> # epoch_history (Some (hdr_epoch b)) bs
      else epoch_history prev bs)"

fun last_epoch :: "i32 option \<Rightarrow> bytes list \<Rightarrow> i32 option" where
  "last_epoch prev [] = prev"
| "last_epoch prev (b # bs) = last_epoch (if 0 \<le> sint (hdr_epoch b) then Some (hdr_epoch b) else prev) bs"

lemma epoch_history_append: "epoch_history prev (xs @ ys) = epoch_history prev xs @ epoch_history (last_epoch prev xs) ys"
  by (induction xs arbitrary: prev) auto

lemma scan_loop_rep:
  assumes "seg_rep s (xs @ ys)"
  shows "scan_loop s (int (length (concat xs))) es prev = Some (es @ epoch_history prev ys, last_epoch prev ys)"
  using assms
proof (induction ys arbitrary: xs es prev)
  case Nil
  then show ?case using seg_size [OF Nil.prems] by (simp add: scan_loop.simps)
next
  case (Cons y ys)
  have pos: "int (length (concat xs)) + int (length y) = int (length (concat (xs @ [y])))" by simp
  have "scan_loop s (int (length (concat xs))) es prev =
      (if 0 \<le> sint (hdr_epoch y) \<and> prev \<noteq> Some (hdr_epoch y)
       then scan_loop s (int (length (concat (xs @ [y])))) (es @ [\<lparr>ee_Epoch = hdr_epoch y, ee_StartOffset = hdr_base y\<rparr>]) (Some (hdr_epoch y))
       else scan_loop s (int (length (concat (xs @ [y])))) es prev)"
    unfolding pos [symmetric] using seg_bounds [OF Cons.prems] epoch_at [OF Cons.prems] by (subst scan_loop.simps) simp
  then show ?case using Cons.IH [of "xs @ [y]"] Cons.prems by auto
qed

lemma scan_pairs_rep: "linked o' ps bss \<Longrightarrow> scan_pairs ps es prev = Some (es @ epoch_history prev (concat bss))"
proof (induction o' ps bss arbitrary: es prev rule: linked.induct)
  case (1 o' p ps bs bss)
  then have "seg_rep (sp_segment p) ([] @ bs)" by (simp add: pair_rep_def)
  from scan_loop_rep [OF this] show ?case using 1 by (simp add: epoch_history_append)
qed simp_all

lemma scanEpochHistory_rep: "log_rep l bss \<Longrightarrow> scanEpochHistoryLocked l = Some (epoch_history None (concat bss))"
  unfolding scanEpochHistoryLocked_def log_rep_def by (auto dest: scan_pairs_rep [of _ "pairs l" bss "[]" None])

text \<open>Batches whose epochs never decrease have a valid history.\<close>

definition epochs_rise :: "bytes list \<Rightarrow> bool" where
  "epochs_rise bs \<longleftrightarrow> sorted (map (\<lambda>b. sint (hdr_epoch b)) (filter (\<lambda>b. 0 \<le> sint (hdr_epoch b)) bs))"

lemma epoch_history_ok:
  assumes "batches_ok o' bs" and "epochs_rise bs"
    and "case prev of None \<Rightarrow> True | Some e \<Rightarrow> \<forall>b\<in>set bs. 0 \<le> sint (hdr_epoch b) \<longrightarrow> sint e \<le> sint (hdr_epoch b)"
  shows "epochs_ok (epoch_history prev bs) \<and>
    (\<forall>e\<in>set (epoch_history prev bs). o' \<le> unat (ee_StartOffset e) \<and> unat (ee_StartOffset e) < o' + total_records bs \<and>
       (case prev of None \<Rightarrow> True | Some p \<Rightarrow> sint p < sint (ee_Epoch e)))"
  using assms
proof (induction bs arbitrary: o' prev)
  case (Cons b bs)
  have b: "unat (hdr_base b) = o'" and bs: "batches_ok (o' + records b) bs" and pos: "0 < records b"
    using Cons.prems(1) by (simp_all add: batches_ok_def records_def)
  have rise: "epochs_rise bs" and le: "0 \<le> sint (hdr_epoch b) \<Longrightarrow> \<forall>x\<in>set bs. 0 \<le> sint (hdr_epoch x) \<longrightarrow> sint (hdr_epoch b) \<le> sint (hdr_epoch x)"
    using Cons.prems(2) by (auto simp: epochs_rise_def split: if_splits)
  let ?e = "\<lparr>ee_Epoch = hdr_epoch b, ee_StartOffset = hdr_base b\<rparr>"
  show ?case
  proof (cases "0 \<le> sint (hdr_epoch b) \<and> prev \<noteq> Some (hdr_epoch b)")
    case True
    let ?h = "epoch_history (Some (hdr_epoch b)) bs"
    have IH: "epochs_ok ?h" "\<forall>e\<in>set ?h. o' + records b \<le> unat (ee_StartOffset e) \<and>
        unat (ee_StartOffset e) < o' + records b + total_records bs \<and> sint (hdr_epoch b) < sint (ee_Epoch e)"
      using Cons.IH [OF bs rise, of "Some (hdr_epoch b)"] le True by auto
    have "o' < unat (ee_StartOffset e)" if "e \<in> set ?h" for e
      using IH(2) that pos by (meson add_lessD1 le_eq_less_or_eq less_add_same_cancel1 less_le_trans)
    then have "\<forall>e\<in>set ?h. entry_lt ?e e" using IH(2) b by (auto simp: entry_lt_def word_less_nat_alt)
    moreover have lt: "sint p < sint (hdr_epoch b)" if "prev = Some p" for p
    proof -
      have "sint p \<le> sint (hdr_epoch b)" "p \<noteq> hdr_epoch b" using Cons.prems(3) True that by auto
      then show ?thesis by (metis order_le_less signed_word_eqI)
    qed
    ultimately have "epochs_ok ([?e] @ ?h)" using IH(1) True by (subst epochs_ok_append) (simp add: epochs_ok_def)
    then show ?thesis using True IH(2) b pos lt by (fastforce split: option.splits)
  next
    case False
    then show ?thesis using Cons.IH [OF bs rise, of prev] Cons.prems(3) by (fastforce split: option.splits)
  qed
qed simp

section \<open>Recovering the history\<close>

lemma epochEntriesEqual_iff [simp]: "epochEntriesEqual a b \<longleftrightarrow> a = b"
proof -
  have "list_all (\<lambda>(x, y). x = y) (zip a b) \<longleftrightarrow> a = b" if "length a = length b"
    using that by (induction a b rule: list_induct2) simp_all
  then show ?thesis by (auto simp: epochEntriesEqual_def)
qed

lemma replay_valid: "epochs_ok (es @ fs) \<Longrightarrow> replay_loop \<lparr>lec_entries = es\<rparr> fs = Inr \<lparr>lec_entries = es @ fs\<rparr>"
proof (induction fs arbitrary: es)
  case (Cons f fs)
  have f: "0 \<le> sint (ee_Epoch f)" "\<forall>e\<in>set es. entry_lt e f"
    using Cons.prems by (auto simp: epochs_ok_def sorted_wrt_append)
  then have "es = [] \<or> entry_lt (last es) f" using last_in_set by blast
  then have "Assign \<lparr>lec_entries = es\<rparr> (ee_Epoch f) (ee_StartOffset f) = Inr (True, \<lparr>lec_entries = es @ [f]\<rparr>)"
    using f(1) by (auto simp: Assign_def Let_def entry_lt_def)
  then show ?case using Cons.IH [of "es @ [f]"] Cons.prems by simp
qed simp

lemma replayEpochEntries_valid: "epochs_ok es \<Longrightarrow> replayEpochEntries es = Inr \<lparr>lec_entries = es\<rparr>"
  using replay_valid [of "[]" es] by (simp add: replayEpochEntries_def NewLeaderEpochCache_def)

lemma TruncateAfter_kept: "lec_entries (snd (TruncateAfter c offset)) = takeWhile (\<lambda>e. ee_StartOffset e \<le> offset) (lec_entries c)"
proof -
  define k where "k = takeWhile (\<lambda>e. ee_StartOffset e \<le> offset) (lec_entries c)"
  have "k = lec_entries c" if "length k = length (lec_entries c)"
    using that by (metis k_def takeWhile_eq_take take_all_iff order_refl)
  then show ?thesis unfolding k_def [symmetric] TruncateAfter_def Let_def by auto
qed

text \<open>Writing a valid history whose offsets fit a signed field succeeds.\<close>

lemma rewrite_valid:
  assumes "epochs_ok (lec_entries cache)" and "\<forall>e\<in>set (lec_entries cache). unat (ee_StartOffset e) < 2 ^ 63"
  shows "\<exists>fs'. rewrite_checkpoint no_fault l loaded usedScan cache = (Some cache, fs') \<and>
    (usedScan \<or> loaded \<noteq> lec_entries cache \<longrightarrow> fs' (lg_path l) = Some (checkpoint_text (lec_entries cache), True)) \<and>
    (\<not> usedScan \<and> loaded = lec_entries cache \<longrightarrow> fs' = lg_fs l)"
proof -
  have "list_all entry_ok (lec_entries cache)"
    using assms by (auto simp: list_all_iff entry_ok_def epochs_ok_def)
  then have c: "check_entries 0 None (lec_entries cache) = None" using check_entries_accepts assms(1) by simp
  obtain err states where w: "Checkpoint_Write (lg_fs l) (lg_path l) (lec_entries cache) no_fault = (err, states)" by fastforce
  then have "err = None" using c by (simp add: Checkpoint_Write_def no_fault_def Let_def)
  then show ?thesis using w Checkpoint_Write_done(1) by (auto simp: rewrite_checkpoint_def Entries_def Let_def)
qed

text \<open>A valid checkpoint is taken over, without the entries past the end of the log.\<close>

lemma RecoverEpochCache_checkpoint:
  assumes fs: "lg_fs l (lg_path l) = Some (checkpoint_text es, s)" and ok: "epochs_ok es"
    and small: "\<forall>e\<in>set es. unat (ee_StartOffset e) < 2 ^ 63" "length es < 2 ^ 63"
    and ne: "es \<noteq> []" "ee_StartOffset (hd es) \<le> NextOffset l"
  defines "kept \<equiv> takeWhile (\<lambda>e. ee_StartOffset e \<le> NextOffset l) es"
  shows "\<exists>fs' s'. RecoverEpochCache read_ok no_fault l = (Some \<lparr>lec_entries = kept\<rparr>, fs') \<and>
    fs' (lg_path l) = Some (checkpoint_text kept, s')"
proof -
  let ?c = "snd (TruncateAfter \<lparr>lec_entries = es\<rparr> (NextOffset l))"
  have "list_all entry_ok es" using ok small by (auto simp: list_all_iff entry_ok_def epochs_ok_def)
  then have rd: "Checkpoint_Read (lg_fs l) (lg_path l) read_ok = Inr es"
    using fs small(2) by (simp add: Checkpoint_Read_def read_ok_def read_lines_text)
  have c: "lec_entries ?c = kept" by (simp add: TruncateAfter_kept kept_def)
  then have c': "?c = \<lparr>lec_entries = kept\<rparr>" by (cases ?c) simp
  have k: "kept \<noteq> []" using ne by (cases es) (simp_all add: kept_def)
  have "epochs_ok kept" "\<forall>e\<in>set kept. unat (ee_StartOffset e) < 2 ^ 63"
    using ok small by (auto simp: kept_def epochs_ok_takeWhile dest: set_takeWhileD)
  then obtain fs' where "rewrite_checkpoint no_fault l es False ?c = (Some ?c, fs')"
      "es \<noteq> kept \<longrightarrow> fs' (lg_path l) = Some (checkpoint_text kept, True)" "es = kept \<longrightarrow> fs' = lg_fs l"
    using rewrite_valid [of ?c l es False] c by auto
  then show ?thesis
    using rd fs k c c' replayEpochEntries_valid [OF ok] by (cases "es = kept") (auto simp: RecoverEpochCache_def Entries_def Let_def)
qed

text \<open>Without a checkpoint the history is read from the batches, and written.\<close>

lemma RecoverEpochCache_scan:
  assumes rep: "log_rep l bss" and fs: "lg_fs l (lg_path l) = None" and rise: "epochs_rise (concat bss)"
    and small: "unat (NextOffset l) < 2 ^ 63" and ne: "0 < NextOffset l"
  shows "\<exists>fs'. RecoverEpochCache read_ok no_fault l = (Some \<lparr>lec_entries = epoch_history None (concat bss)\<rparr>, fs') \<and>
    fs' (lg_path l) = Some (checkpoint_text (epoch_history None (concat bss)), True)"
proof -
  let ?h = "epoch_history None (concat bss)" and ?c = "\<lparr>lec_entries = epoch_history None (concat bss)\<rparr>"
  have nx: "unat (NextOffset l) = unat (OldestOffset l) + total_records (concat bss)" using log_rep_active [OF rep] by metis
  have h: "epochs_ok ?h" "\<forall>e\<in>set ?h. unat (ee_StartOffset e) < unat (NextOffset l)"
    using epoch_history_ok [OF log_rep_chain [OF rep] rise, of None] nx by auto
  have "takeWhile (\<lambda>e. ee_StartOffset e \<le> NextOffset l) ?h = ?h" using h(2) by (force simp: takeWhile_eq_all_conv word_le_nat_alt)
  then have "lec_entries (snd (TruncateAfter ?c (NextOffset l))) = lec_entries ?c" by (simp add: TruncateAfter_kept)
  then have t: "snd (TruncateAfter ?c (NextOffset l)) = ?c" by (metis LeaderEpochCache.equality old.unit.exhaust)
  have "\<forall>e\<in>set ?h. unat (ee_StartOffset e) < 2 ^ 63" using h(2) small by fastforce
  then obtain fs' where "rewrite_checkpoint no_fault l [] True ?c = (Some ?c, fs')" "fs' (lg_path l) = Some (checkpoint_text ?h, True)"
    using rewrite_valid [of ?c l "[]" True] h(1) by auto
  moreover have "Checkpoint_Read (lg_fs l) (lg_path l) read_ok = Inr []" using fs by (simp add: Checkpoint_Read_def read_ok_def)
  moreover have "lec_entries (snd (TruncateAfter \<lparr>lec_entries = []\<rparr> (NextOffset l))) = []" by (simp add: TruncateAfter_kept)
  ultimately show ?thesis
    using replayEpochEntries_valid [of "[]"] replayEpochEntries_valid [OF h(1)] scanEpochHistory_rep [OF rep] t ne
    by (simp add: RecoverEpochCache_def Entries_def Let_def)
qed

section \<open>Reopening a log\<close>

text \<open>The files of a log that was closed or that stopped in the middle of a write: each segment file holds its
  batches and possibly the beginning of another one.\<close>

fun on_disk :: "(u64 \<Rightarrow> bytes option) \<Rightarrow> LogConfig \<Rightarrow> nat \<Rightarrow> u64 list \<Rightarrow> bytes list list \<Rightarrow> bool" where
  "on_disk disk c o' (b # offsets) (bs # bss) \<longleftrightarrow>
     unat b = o' \<and> (\<exists>tail. disk b = Some (concat bs @ tail) \<and> (torn tail \<or> tail = [])) \<and>
     batches_ok o' bs \<and> pair_small bs \<and> 12 * int (length bs) \<le> lc_MaxIndexBytes c \<and>
     on_disk disk c (o' + total_records bs) offsets bss"
| "on_disk disk c o' [] [] \<longleftrightarrow> True"
| "on_disk disk c o' _ _ \<longleftrightarrow> False"

lemma newSegmentPair_reopen:
  assumes c: "config_ok c" and disk: "lf_log files b = Some (concat bs @ tail)" "torn tail \<or> tail = []"
    and ok: "batches_ok (unat b) bs" "pair_small bs" "12 * int (length bs) \<le> lc_MaxIndexBytes c"
  shows "\<exists>p. newSegmentPair pair_io_ok files b c = Some (Inr p) \<and> pair_rep p bs \<and> base p = b"
proof -
  obtain s where s: "NewSegment io_ok (concat bs @ tail) b (lc_MaxSegmentBytes c) = Some (Inr s)" "sg_baseOffset s = b"
      "sg_maxSize s = lc_MaxSegmentBytes c" "seg_rep s bs"
    using NewSegment_recovers [OF ok(1) disk(2)] by blast
  have max: "0 < lc_MaxIndexBytes c" "12 \<le> lc_MaxIndexBytes c" "0 < lc_MaxSegmentBytes c" using c by (auto simp: config_ok_def)
  define ic where "ic = (case lf_index files b of None \<Rightarrow> [] | Some c \<Rightarrow> c)"
  obtain idx where idx: "NewIndex ic b (lc_MaxIndexBytes c) False = Inr idx" "ix_baseOffset idx = b"
      "ix_maxBytes idx = lc_MaxIndexBytes c" "idx_rep (Index_Reset idx) []"
    using idx_rep_NewIndex [OF max(1)] by blast
  have reset: "ix_baseOffset (Index_Reset idx) = b" "ix_maxBytes (Index_Reset idx) = lc_MaxIndexBytes c"
      "rebuildIndexFromSegment s (Index_Reset idx) n = rebuildIndexFromSegment s idx n" for n
    using idx by (simp_all add: Index_Reset_def rebuildIndexFromSegment_def)
  obtain idx' n es where r: "rebuildIndexFromSegment s idx (lc_IndexIntervalBytes c) = (True, idx', n)" "idx_rep idx' es" "index_ok bs es"
      "ix_baseOffset idx' = b" "ix_maxBytes idx' = lc_MaxIndexBytes c"
    using rebuild_rep [OF s(4) idx(4), of "lc_IndexIntervalBytes c", unfolded reset s(2)] ok(3) by blast
  then have "newSegmentPair pair_io_ok files b c = Some (Inr \<lparr>sp_segment = s, sp_index = idx', sp_bytesSinceIndex = n\<rparr>)"
    using disk(1) s(1) idx(1) by (simp add: newSegmentPair_def ic_def pair_io_ok_def Let_def)
  moreover have "pair_rep \<lparr>sp_segment = s, sp_index = idx', sp_bytesSinceIndex = n\<rparr> bs"
    using s r ok max unfolding pair_rep_def by auto
  ultimately show ?thesis using s(2) by auto
qed

lemma open_pairs_reopen:
  assumes "config_ok c" and "on_disk disk c o' offsets bss" and "distinct offsets" and "\<forall>b\<in>set offsets. lf_log files b = disk b"
  shows "\<exists>ps files'. open_pairs (\<lambda>_. pair_io_ok) c offsets opened files = Some (Inr (opened @ ps, files')) \<and> linked o' ps bss \<and>
    map base ps = offsets \<and> lf_log files' = (\<lambda>b. if b \<in> set offsets then None else lf_log files b)"
  using assms
proof (induction disk c o' offsets bss arbitrary: opened files rule: on_disk.induct)
  case (1 disk c o' b offsets bs bss)
  obtain tail where tail: "lf_log files b = Some (concat bs @ tail)" "torn tail \<or> tail = []" using "1.prems" by auto
  obtain p where p: "newSegmentPair pair_io_ok files b c = Some (Inr p)" "pair_rep p bs" "base p = b"
    using newSegmentPair_reopen [OF "1.prems"(1) tail] "1.prems"(2) by auto
  have "\<forall>x\<in>set offsets. lf_log (take_files b files) x = disk x" using "1.prems" by (auto simp: take_files_def)
  then obtain ps files' where ps: "open_pairs (\<lambda>_. pair_io_ok) c offsets (opened @ [p]) (take_files b files) = Some (Inr ((opened @ [p]) @ ps, files'))"
      "linked (o' + total_records bs) ps bss" "map base ps = offsets"
      "lf_log files' = (\<lambda>x. if x \<in> set offsets then None else lf_log (take_files b files) x)"
    using "1.IH" [of "take_files b files" "opened @ [p]"] "1.prems" by auto
  then show ?case using p "1.prems" by (intro exI [of _ "p # ps"]) (auto simp: take_files_def)
qed simp_all

lemma on_disk_ordered:
  assumes "on_disk disk c o' offsets bss" and "[] \<notin> set (butlast bss)"
  shows "sorted_wrt (<) offsets \<and> (\<forall>b\<in>set offsets. o' \<le> unat b)"
  using assms
proof (induction disk c o' offsets bss rule: on_disk.induct)
  case (1 disk c o' b offsets bs bss)
  show ?case
  proof (cases bss)
    case Nil
    then show ?thesis using "1.prems" by (cases offsets) simp_all
  next
    case (Cons x xs)
    then have ne: "bs \<noteq> []" "[] \<notin> set (butlast bss)" using "1.prems"(2) by auto
    have pos: "0 < total_records bs" using ne(1) by (rule total_pos)
    have IH: "sorted_wrt (<) offsets" "\<forall>x\<in>set offsets. o' + total_records bs \<le> unat x" and b: "unat b = o'"
      using "1.IH" "1.prems"(1) ne(2) by simp_all
    have "o' < unat x" if "x \<in> set offsets" for x using IH(2) that pos by fastforce
    then have "b < x \<and> o' \<le> unat x" if "x \<in> set offsets" for x using that b by (simp add: word_less_nat_alt less_imp_le)
    then show ?thesis using IH(1) b by auto
  qed
qed simp_all

lemma sorted_wrt_less_distinct: "sorted_wrt (<) (xs :: 'a :: linorder list) \<Longrightarrow> sorted xs \<and> distinct xs"
  by (simp add: strict_sorted_iff)

lemma NewLog_reopen:
  assumes disk: "on_disk (lf_log files) (applyDefaults config) (unat (hd offsets)) offsets bss" and ne: "offsets \<noteq> []" "[] \<notin> set (butlast bss)"
    and others: "\<forall>b. b \<notin> set offsets \<longrightarrow> lf_log files b = None"
    and names: "mset names = mset (map segment_name offsets)" and c: "config_ok (applyDefaults config)"
  shows "\<exists>l opened. log_rep l bss \<and> OldestOffset l = hd offsets \<and> lg_config l = applyDefaults config \<and> lg_fs l = fs \<and> lg_path l = path \<and>
    NewLog open_io_ok names files fs path config =
      (case RecoverEpochCache read_ok no_fault l of
         (None, fs') \<Rightarrow> Some (Inl (closeAll (\<lambda>_. pair_io_ok) opened (lg_files l), fs'))
       | (Some cache, fs') \<Rightarrow> Some (Inr (l\<lparr>lg_epochCache := cache, lg_fs := fs'\<rparr>)))"
proof -
  let ?c = "applyDefaults config"
  have ord: "sorted offsets" "distinct offsets"
    using on_disk_ordered [OF disk ne(2)] sorted_wrt_less_distinct by blast+
  have d: "discoverSegments names = offsets" using discoverSegments_names [OF names] ord(1) by (simp add: sort_key_id_if_sorted)
  obtain ps files' where ps: "open_pairs (\<lambda>_. pair_io_ok) ?c offsets [] files = Some (Inr (ps, files'))" "linked (unat (hd offsets)) ps bss"
      "map base ps = offsets" "lf_log files' = (\<lambda>b. if b \<in> set offsets then None else lf_log files b)"
    using open_pairs_reopen [OF c disk ord(2), of files "[]"] by auto
  have pne: "ps \<noteq> []" using ps(3) ne(1) by auto
  define l where "l = \<lparr>lg_config = ?c, lg_active = last ps, lg_sealed = butlast ps, lg_files = files',
    lg_epochCache = NewLeaderEpochCache, lg_dirty = False, lg_fs = fs, lg_path = path\<rparr>"
  have pairs: "pairs l = ps" using pne by (simp add: pairs_def l_def)
  have old: "OldestOffset l = hd offsets" using pne ps(3) by (cases ps) (auto simp: OldestOffset_def l_def)
  have "files_clean n files'" for n using ps(4) others by (simp add: files_clean_def)
  then have "log_rep l bss" using ps(2) pairs old ne(2) c by (simp add: log_rep_def l_def)
  moreover have "NewLog open_io_ok names files fs path config =
      (case RecoverEpochCache read_ok no_fault l of
         (None, fs') \<Rightarrow> Some (Inl (closeAll (\<lambda>_. pair_io_ok) ps (lg_files l), fs'))
       | (Some cache, fs') \<Rightarrow> Some (Inr (l\<lparr>lg_epochCache := cache, lg_fs := fs'\<rparr>)))"
  proof -
    have io: "oi_mkdir open_io_ok = False" "oi_pair open_io_ok = (\<lambda>_. pair_io_ok)" "oi_read open_io_ok = read_ok" "oi_write open_io_ok = no_fault"
      by (simp_all add: open_io_ok_def)
    show ?thesis unfolding NewLog_def io d Let_def l_def using ps(1) ne(1) by (simp split: prod.split option.split)
  qed
  ultimately show ?thesis using old by (intro exI [of _ l] exI [of _ ps]) (simp add: l_def)
qed

lemma log_rep_epochs [simp]: "log_rep (l\<lparr>lg_epochCache := cache, lg_fs := fs'\<rparr>) bss \<longleftrightarrow> log_rep l bss"
  by (simp add: log_rep_def pairs_def OldestOffset_def)

text \<open>A log without a checkpoint is reopened with its batches and their history.\<close>

lemma NewLog_scans:
  assumes "on_disk (lf_log files) (applyDefaults config) (unat (hd offsets)) offsets bss" and "offsets \<noteq> []" "[] \<notin> set (butlast bss)"
    and "\<forall>b. b \<notin> set offsets \<longrightarrow> lf_log files b = None"
    and "mset names = mset (map segment_name offsets)" and "config_ok (applyDefaults config)"
    and fs: "fs path = None" and rise: "epochs_rise (concat bss)"
    and small: "unat (hd offsets) + total_records (concat bss) < 2 ^ 63" and some: "concat bss \<noteq> []"
  shows "\<exists>l. NewLog open_io_ok names files fs path config = Some (Inr l) \<and> log_rep l bss \<and> OldestOffset l = hd offsets \<and>
    lec_entries (lg_epochCache l) = epoch_history None (concat bss) \<and>
    lg_fs l path = Some (checkpoint_text (epoch_history None (concat bss)), True)"
proof -
  obtain l opened where l: "log_rep l bss" "OldestOffset l = hd offsets" "lg_fs l = fs" "lg_path l = path"
    and new: "NewLog open_io_ok names files fs path config =
      (case RecoverEpochCache read_ok no_fault l of
         (None, fs') \<Rightarrow> Some (Inl (closeAll (\<lambda>_. pair_io_ok) opened (lg_files l), fs'))
       | (Some cache, fs') \<Rightarrow> Some (Inr (l\<lparr>lg_epochCache := cache, lg_fs := fs'\<rparr>)))"
    using NewLog_reopen [OF assms(1-6), of fs path] by blast
  have nx: "unat (NextOffset l) = unat (hd offsets) + total_records (concat bss)" using log_rep_active [OF l(1)] l(2) by metis
  then have "0 < NextOffset l" using total_pos [OF some] by (simp add: word_less_nat_alt)
  then obtain fs' where "RecoverEpochCache read_ok no_fault l = (Some \<lparr>lec_entries = epoch_history None (concat bss)\<rparr>, fs')"
      "fs' path = Some (checkpoint_text (epoch_history None (concat bss)), True)"
    using RecoverEpochCache_scan [OF l(1) _ rise] nx small fs l(3,4) by auto
  then show ?thesis using new l by (auto simp: OldestOffset_def)
qed

text \<open>A log with a checkpoint is reopened with its batches and the recorded history.\<close>

lemma NewLog_checkpoint:
  assumes "on_disk (lf_log files) (applyDefaults config) (unat (hd offsets)) offsets bss" and "offsets \<noteq> []" "[] \<notin> set (butlast bss)"
    and "\<forall>b. b \<notin> set offsets \<longrightarrow> lf_log files b = None"
    and "mset names = mset (map segment_name offsets)" and "config_ok (applyDefaults config)"
    and fs: "fs path = Some (checkpoint_text es, s)" and ok: "epochs_ok es"
    and small: "\<forall>e\<in>set es. unat (ee_StartOffset e) < 2 ^ 63" "length es < 2 ^ 63"
    and ne: "es \<noteq> []" "unat (ee_StartOffset (hd es)) \<le> unat (hd offsets) + total_records (concat bss)"
  shows "\<exists>l. NewLog open_io_ok names files fs path config = Some (Inr l) \<and> log_rep l bss \<and> OldestOffset l = hd offsets \<and>
    lec_entries (lg_epochCache l) = takeWhile (\<lambda>e. unat (ee_StartOffset e) \<le> unat (hd offsets) + total_records (concat bss)) es"
proof -
  obtain l opened where l: "log_rep l bss" "OldestOffset l = hd offsets" "lg_fs l = fs" "lg_path l = path"
    and new: "NewLog open_io_ok names files fs path config =
      (case RecoverEpochCache read_ok no_fault l of
         (None, fs') \<Rightarrow> Some (Inl (closeAll (\<lambda>_. pair_io_ok) opened (lg_files l), fs'))
       | (Some cache, fs') \<Rightarrow> Some (Inr (l\<lparr>lg_epochCache := cache, lg_fs := fs'\<rparr>)))"
    using NewLog_reopen [OF assms(1-6), of fs path] by blast
  have nx: "unat (NextOffset l) = unat (hd offsets) + total_records (concat bss)" using log_rep_active [OF l(1)] l(2) by metis
  then obtain fs' where "RecoverEpochCache read_ok no_fault l = (Some \<lparr>lec_entries = takeWhile (\<lambda>e. ee_StartOffset e \<le> NextOffset l) es\<rparr>, fs')"
    using RecoverEpochCache_checkpoint [OF _ ok small ne(1), of l s] fs l(3,4) ne(2) by (auto simp: word_le_nat_alt)
  then show ?thesis using new l nx by (auto simp: OldestOffset_def word_le_nat_alt)
qed

text \<open>An empty directory gives an empty log at offset 0.\<close>

lemma NewLog_fresh:
  assumes c: "config_ok (applyDefaults config)" and fs: "fs path = None"
  shows "\<exists>l. NewLog open_io_ok [] \<lparr>lf_log = (\<lambda>_. None), lf_index = (\<lambda>_. None)\<rparr> fs path config = Some (Inr l) \<and> log_rep l [[]] \<and>
    OldestOffset l = 0 \<and> NextOffset l = 0 \<and> lec_entries (lg_epochCache l) = [] \<and> lg_fs l = fs \<and> lg_path l = path"
proof -
  let ?c = "applyDefaults config" and ?files = "\<lparr>lf_log = (\<lambda>_. None), lf_index = (\<lambda>_. None)\<rparr> :: LogFiles"
  obtain p where p: "newSegmentPair pair_io_ok ?files 0 ?c = Some (Inr p)" "pair_rep p []" "base p = 0"
    using newSegmentPair_empty [OF c, of ?files 0 pair_io_ok] by auto
  define l where "l = \<lparr>lg_config = ?c, lg_active = p, lg_sealed = [], lg_files = ?files,
    lg_epochCache = NewLeaderEpochCache, lg_dirty = False, lg_fs = fs, lg_path = path\<rparr>"
  have rep: "log_rep l [[]]" using p c by (simp add: log_rep_def l_def pairs_def OldestOffset_def files_clean_def)
  have off: "OldestOffset l = 0" using p(3) by (simp add: OldestOffset_def l_def)
  have "unat (NextOffset l) = unat (OldestOffset l) + total_records (concat [[]])" using log_rep_active [OF rep] by metis
  then have nx: "NextOffset l = 0" using off by (simp add: unat_eq_0)
  have "RecoverEpochCache read_ok no_fault l = (Some NewLeaderEpochCache, fs)"
    using fs nx by (simp add: RecoverEpochCache_def Checkpoint_Read_def read_ok_def l_def replayEpochEntries_def rewrite_checkpoint_def
        NewLeaderEpochCache_def Entries_def TruncateAfter_def Let_def)
  moreover have "NewLog open_io_ok [] ?files fs path config =
      (case RecoverEpochCache read_ok no_fault l of
         (None, fs') \<Rightarrow> Some (Inl (closeAll (\<lambda>_. pair_io_ok) [p] ?files, fs'))
       | (Some cache, fs') \<Rightarrow> Some (Inr (l\<lparr>lg_epochCache := cache, lg_fs := fs'\<rparr>)))"
  proof -
    have io: "oi_mkdir open_io_ok = False" "oi_pair open_io_ok = (\<lambda>_. pair_io_ok)" "oi_read open_io_ok = read_ok" "oi_write open_io_ok = no_fault"
      by (simp_all add: open_io_ok_def)
    have d: "discoverSegments [] = []" by (simp add: discoverSegments_def List.map_filter_def)
    have t: "take_files 0 ?files = ?files" by (simp add: take_files_def)
    show ?thesis unfolding NewLog_def io d Let_def l_def using p(1) t by (simp split: prod.split option.split)
  qed
  ultimately show ?thesis using rep off nx
    by (simp add: NewLeaderEpochCache_def) (simp add: l_def OldestOffset_def NextOffset_def)
qed

end
