(* ===== verification/Purgatory.thy ===== *)
theory Purgatory
  imports Prelude "HOL-Library.Multiset"
begin

text \<open>
  \<open>purgatoryHeap\<close> of \<open>partition.go\<close>: the produce requests that wait for the high watermark, in a binary
  heap kept by \<open>container/heap\<close>.  The heap is a slice of pointers to entries, and every entry holds its position;
  a pointer is a number and the entries live in a store.

  Proved: the operations keep the heap order and the positions, \<open>Pop\<close> removes a pointer with the
  least required watermark, and \<open>Remove\<close> removes exactly the pointer at the given position.
\<close>

section \<open>Entries and the heap\<close>

text \<open>Error codes of \<open>partition.go\<close>, by their names.\<close>

datatype ErrorCode =
    ErrNone | ErrOffsetOutOfRange | ErrCorruptMessage | ErrUnknownTopicOrPartition | ErrNotLeaderOrFollower | ErrRequestTimedOut
  | ErrCodeMessageTooLarge | ErrInvalidRequiredAcks | ErrUnsupportedVersion | ErrUnsupportedForMessageFormat | ErrStorageError
  | ErrFencedLeaderEpoch | ErrUnknownLeaderEpoch

fun error_code :: "ErrorCode \<Rightarrow> i16" where
  "error_code ErrNone = 0"
| "error_code ErrOffsetOutOfRange = 1"
| "error_code ErrCorruptMessage = 2"
| "error_code ErrUnknownTopicOrPartition = 3"
| "error_code ErrNotLeaderOrFollower = 6"
| "error_code ErrRequestTimedOut = 7"
| "error_code ErrCodeMessageTooLarge = 10"
| "error_code ErrInvalidRequiredAcks = 21"
| "error_code ErrUnsupportedVersion = 35"
| "error_code ErrUnsupportedForMessageFormat = 43"
| "error_code ErrStorageError = 56"
| "error_code ErrFencedLeaderEpoch = 74"
| "error_code ErrUnknownLeaderEpoch = 75"

text \<open>The channel of an entry is open or closed; closing it again is a panic.\<close>

record purgatoryEntry =
  pe_requiredHW :: u64
  pe_closed :: bool
  pe_err :: "ErrorCode option"
  pe_index :: nat

type_synonym ptr = nat

record purgatoryHeap =
  ph_items :: "ptr list"
  ph_store :: "ptr \<Rightarrow> purgatoryEntry"

definition heap_Len :: "purgatoryHeap \<Rightarrow> nat" where
  "heap_Len h = length (ph_items h)"

definition Less :: "purgatoryHeap \<Rightarrow> nat \<Rightarrow> nat \<Rightarrow> bool" where
  "Less h i j \<longleftrightarrow> pe_requiredHW (ph_store h (ph_items h ! i)) < pe_requiredHW (ph_store h (ph_items h ! j))"

definition set_index :: "(ptr \<Rightarrow> purgatoryEntry) \<Rightarrow> ptr \<Rightarrow> nat \<Rightarrow> ptr \<Rightarrow> purgatoryEntry" where
  "set_index store e i = store(e := (store e)\<lparr>pe_index := i\<rparr>)"

definition Swap :: "purgatoryHeap \<Rightarrow> nat \<Rightarrow> nat \<Rightarrow> purgatoryHeap" where
  "Swap h i j =
     (let items = (ph_items h)[i := ph_items h ! j, j := ph_items h ! i] in
      \<lparr>ph_items = items, ph_store = set_index (set_index (ph_store h) (items ! i) i) (items ! j) j\<rparr>)"

definition heap_Push :: "purgatoryHeap \<Rightarrow> ptr \<Rightarrow> purgatoryHeap" where
  "heap_Push h e = \<lparr>ph_items = ph_items h @ [e], ph_store = set_index (ph_store h) e (length (ph_items h))\<rparr>"

definition heap_Pop :: "purgatoryHeap \<Rightarrow> ptr \<times> purgatoryHeap" where
  "heap_Pop h = (last (ph_items h), h\<lparr>ph_items := butlast (ph_items h)\<rparr>)"

section \<open>\<open>container/heap\<close>\<close>

function up :: "purgatoryHeap \<Rightarrow> nat \<Rightarrow> purgatoryHeap" where
  "up h j = (let i = (j - 1) div 2 in if i = j \<or> \<not> Less h j i then h else up (Swap h i j) i)"
  by pat_completeness auto
termination
  by (relation "measure snd") auto

text \<open>The position the element ends at tells whether it moved.\<close>

function down :: "purgatoryHeap \<Rightarrow> nat \<Rightarrow> nat \<Rightarrow> purgatoryHeap \<times> nat" where
  "down h i n =
     (let j1 = 2 * i + 1 in
      if j1 \<ge> n then (h, i)
      else let j2 = j1 + 1; j = (if j2 < n \<and> Less h j2 j1 then j2 else j1) in
        if \<not> Less h j i then (h, i) else down (Swap h i j) j n)"
  by pat_completeness auto
termination
  by (relation "measure (\<lambda>(_, i, n). n - i)") auto

declare up.simps [simp del] down.simps [simp del]

definition Push :: "purgatoryHeap \<Rightarrow> ptr \<Rightarrow> purgatoryHeap" where
  "Push h e = (let h = heap_Push h e in up h (heap_Len h - 1))"

definition Pop :: "purgatoryHeap \<Rightarrow> ptr \<times> purgatoryHeap" where
  "Pop h = (let n = heap_Len h - 1; (h, _) = down (Swap h 0 n) 0 n in heap_Pop h)"

definition Remove :: "purgatoryHeap \<Rightarrow> nat \<Rightarrow> ptr \<times> purgatoryHeap" where
  "Remove h i =
     (let n = heap_Len h - 1 in
      heap_Pop (if n \<noteq> i
        then let (h', k) = down (Swap h i n) i n in if \<not> k > i then up h' i else h'
        else h))"

section \<open>What the operations keep\<close>

text \<open>The watermark an entry waits for, in the order of the slice.\<close>

definition required_at :: "purgatoryHeap \<Rightarrow> ptr \<Rightarrow> u64" where
  "required_at h e = pe_requiredHW (ph_store h e)"

definition heap_key :: "purgatoryHeap \<Rightarrow> nat \<Rightarrow> u64" where
  "heap_key h i = required_at h (ph_items h ! i)"

text \<open>The same entries up to their positions.\<close>

definition same_entries :: "purgatoryHeap \<Rightarrow> purgatoryHeap \<Rightarrow> bool" where
  "same_entries h h' \<longleftrightarrow> (\<forall>e. pe_requiredHW (ph_store h' e) = pe_requiredHW (ph_store h e) \<and>
     pe_closed (ph_store h' e) = pe_closed (ph_store h e) \<and> pe_err (ph_store h' e) = pe_err (ph_store h e))"

lemma same_entries_refl [simp]: "same_entries h h"
  by (simp add: same_entries_def)

lemma same_entries_trans: "same_entries a b \<Longrightarrow> same_entries b c \<Longrightarrow> same_entries a c"
  by (simp add: same_entries_def)

definition indexed :: "purgatoryHeap \<Rightarrow> bool" where
  "indexed h \<longleftrightarrow> (\<forall>i<length (ph_items h). pe_index (ph_store h (ph_items h ! i)) = i)"

lemma indexed_distinct: "indexed h \<Longrightarrow> distinct (ph_items h)"
  unfolding indexed_def distinct_conv_nth by metis

text \<open>What every rearrangement keeps.\<close>

definition rearranged :: "purgatoryHeap \<Rightarrow> purgatoryHeap \<Rightarrow> bool" where
  "rearranged h h' \<longleftrightarrow> mset (ph_items h') = mset (ph_items h) \<and> same_entries h h' \<and> (indexed h \<longrightarrow> indexed h')"

lemma rearranged_refl [simp]: "rearranged h h"
  by (simp add: rearranged_def)

lemma rearranged_trans: "rearranged a b \<Longrightarrow> rearranged b c \<Longrightarrow> rearranged a c"
  by (auto simp: rearranged_def intro: same_entries_trans)

lemma rearranged_length: "rearranged h h' \<Longrightarrow> length (ph_items h') = length (ph_items h)"
  by (auto simp: rearranged_def dest: mset_eq_length)

lemma Swap_rearranged:
  assumes "i < length (ph_items h)" and "j < length (ph_items h)"
  shows "rearranged h (Swap h i j)"
proof -
  have m: "mset (ph_items (Swap h i j)) = mset (ph_items h)"
    using assms by (simp add: Swap_def Let_def mset_swap)
  have s: "same_entries h (Swap h i j)"
    by (auto simp: same_entries_def Swap_def Let_def set_index_def)
  have "indexed (Swap h i j)" if ix: "indexed h"
  proof -
    have inj: "ph_items h ! a = ph_items h ! b \<longleftrightarrow> a = b" if "a < length (ph_items h)" "b < length (ph_items h)" for a b
      using indexed_distinct [OF ix] that by (simp add: nth_eq_iff_index_eq)
    show ?thesis
      using ix assms by (auto simp: indexed_def Swap_def Let_def set_index_def nth_list_update inj)
  qed
  with m s show ?thesis by (simp add: rearranged_def)
qed

lemma key_Swap:
  assumes "i < length (ph_items h)" and "j < length (ph_items h)" and "k < length (ph_items h)"
  shows "heap_key (Swap h i j) k = (if k = i then heap_key h j else if k = j then heap_key h i else heap_key h k)"
proof -
  have "required_at (Swap h i j) e = required_at h e" for e
    using Swap_rearranged [OF assms(1,2)] by (simp add: rearranged_def same_entries_def required_at_def)
  then show ?thesis using assms by (auto simp: heap_key_def Swap_def Let_def nth_list_update)
qed

lemma Less_key: "Less h i j \<longleftrightarrow> heap_key h i < heap_key h j"
  by (simp add: Less_def heap_key_def required_at_def)

section \<open>The heap order\<close>

abbreviation parent :: "nat \<Rightarrow> nat" where "parent i \<equiv> (i - 1) div 2"

definition heap_on :: "purgatoryHeap \<Rightarrow> nat \<Rightarrow> bool" where
  "heap_on h n \<longleftrightarrow> (\<forall>c<n. 0 < c \<longrightarrow> heap_key h (parent c) \<le> heap_key h c)"

text \<open>The order with an element that can be too small, and with one that can be too large as well.\<close>

definition rising :: "purgatoryHeap \<Rightarrow> nat \<Rightarrow> nat \<Rightarrow> bool" where
  "rising h n j \<longleftrightarrow> (\<forall>c<n. 0 < c \<longrightarrow> c \<noteq> j \<longrightarrow> heap_key h (parent c) \<le> heap_key h c) \<and>
     (0 < j \<longrightarrow> (\<forall>c<n. 0 < c \<longrightarrow> parent c = j \<longrightarrow> heap_key h (parent j) \<le> heap_key h c))"

definition hole :: "purgatoryHeap \<Rightarrow> nat \<Rightarrow> nat \<Rightarrow> bool" where
  "hole h n i \<longleftrightarrow> (\<forall>c<n. 0 < c \<longrightarrow> c \<noteq> i \<longrightarrow> parent c \<noteq> i \<longrightarrow> heap_key h (parent c) \<le> heap_key h c) \<and>
     (0 < i \<longrightarrow> (\<forall>c<n. 0 < c \<longrightarrow> parent c = i \<longrightarrow> heap_key h (parent i) \<le> heap_key h c))"

lemma parent_less: "0 < c \<Longrightarrow> parent c < c"
  by auto

lemma rising_step:
  assumes r: "rising h n j" and j: "j < n" "n \<le> length (ph_items h)" "0 < j" and lt: "heap_key h j < heap_key h (parent j)"
  shows "rising (Swap h (parent j) j) n (parent j)"
proof -
  let ?i = "parent j" and ?h = "Swap h (parent j) j"
  have i: "?i < j" using j(3) by (rule parent_less)
  have k: "heap_key ?h c = (if c = ?i then heap_key h j else if c = j then heap_key h ?i else heap_key h c)" if "c < n" for c
    using that j i by (intro key_Swap) simp_all
  have k': "heap_key ?h (parent c) = (if parent c = ?i then heap_key h j else if parent c = j then heap_key h ?i else heap_key h (parent c))" if "c < n" for c
    using that by (intro k) simp
  have le: "heap_key h (parent c) \<le> heap_key h c" if "c < n" "0 < c" "c \<noteq> j" for c using r that by (simp add: rising_def)
  have grand: "heap_key h ?i \<le> heap_key h c" if "c < n" "0 < c" "parent c = j" for c using r that j(3) by (auto simp: rising_def)
  show ?thesis unfolding rising_def
  proof (intro conjI allI impI)
    fix c assume c: "c < n" "0 < c" "c \<noteq> ?i"
    show "heap_key ?h (parent c) \<le> heap_key ?h c"
    proof (cases "c = j")
      case True
      then show ?thesis using k [OF c(1)] k' [OF c(1)] lt i by simp
    next
      case False
      then show ?thesis using k [OF c(1)] k' [OF c(1)] lt le [OF c(1,2) False] grand [OF c(1,2)] c(3) by auto
    qed
  next
    fix c assume "0 < ?i" and c: "c < n" "0 < c" "parent c = ?i"
    have "heap_key ?h (parent ?i) = heap_key h (parent ?i)" using k [of "parent ?i"] parent_less [OF \<open>0 < ?i\<close>] i j by simp
    moreover have "heap_key h (parent ?i) \<le> heap_key h ?i" using le [of ?i] i j \<open>0 < ?i\<close> by simp
    moreover have "heap_key ?h c = (if c = j then heap_key h ?i else heap_key h c)" using k [OF c(1)] c parent_less [OF c(2)] by auto
    moreover have "heap_key h ?i \<le> heap_key h c" if "c \<noteq> j" using le [OF c(1,2) that] c(3) by simp
    ultimately show "heap_key ?h (parent ?i) \<le> heap_key ?h c" by auto
  qed
qed

lemma up_heap:
  assumes "rising h n j" and "j < n" and "n \<le> length (ph_items h)"
  shows "heap_on (up h j) n \<and> rearranged h (up h j) \<and> (\<forall>k>j. ph_items (up h j) ! k = ph_items h ! k)"
  using assms
proof (induction h j rule: up.induct)
  case (1 h j)
  show ?case
  proof (cases "parent j = j \<or> \<not> Less h j (parent j)")
    case True
    then have "0 < j \<longrightarrow> heap_key h (parent j) \<le> heap_key h j" by (auto simp: Less_key)
    then have "heap_on h n" using "1.prems"(1) by (auto simp: heap_on_def rising_def)
    then show ?thesis using True by (simp add: up.simps [of h j] Let_def)
  next
    case False
    then have j: "0 < j" "parent j < j" by (auto intro: parent_less)
    let ?h = "Swap h (parent j) j"
    have re: "rearranged h ?h" using "1.prems" j by (intro Swap_rearranged) simp_all
    have "rising ?h n (parent j)" using rising_step [OF "1.prems" j(1)] False by (simp add: Less_key)
    then have "heap_on (up ?h (parent j)) n \<and> rearranged ?h (up ?h (parent j)) \<and> (\<forall>k>parent j. ph_items (up ?h (parent j)) ! k = ph_items ?h ! k)"
      using "1.IH" [OF refl False] "1.prems" j rearranged_length [OF re] by simp
    moreover have "ph_items ?h ! k = ph_items h ! k" if "k > j" for k using that j by (simp add: Swap_def Let_def)
    moreover have "up h j = up ?h (parent j)" using False by (subst up.simps) (simp add: Let_def)
    ultimately show ?thesis using re j rearranged_trans by auto
  qed
qed

lemma hole_step:
  assumes hl: "hole h n i" and n: "n \<le> length (ph_items h)" and j: "j < n" "0 < j" "parent j = i"
    and least: "\<forall>c<n. 0 < c \<longrightarrow> parent c = i \<longrightarrow> heap_key h j \<le> heap_key h c" and lt: "heap_key h j < heap_key h i"
  shows "hole (Swap h i j) n j \<and> (\<forall>c<n. 0 < c \<longrightarrow> c \<noteq> j \<longrightarrow> parent c \<noteq> j \<longrightarrow> heap_key (Swap h i j) (parent c) \<le> heap_key (Swap h i j) c) \<and>
    heap_key (Swap h i j) i \<le> heap_key (Swap h i j) j"
proof -
  let ?h = "Swap h i j"
  have i: "i < j" using j(2,3) parent_less by blast
  have k: "heap_key ?h c = (if c = i then heap_key h j else if c = j then heap_key h i else heap_key h c)" if "c < n" for c
    using that j i n by (intro key_Swap) simp_all
  have k': "heap_key ?h (parent c) = (if parent c = i then heap_key h j else if parent c = j then heap_key h i else heap_key h (parent c))" if "c < n" for c
    using that by (intro k) simp
  have le: "heap_key h (parent c) \<le> heap_key h c" if "c < n" "0 < c" "c \<noteq> i" "parent c \<noteq> i" for c using hl that by (simp add: hole_def)
  have grand: "heap_key h (parent i) \<le> heap_key h j" if "0 < i" using hl that j by (simp add: hole_def)
  have edge: "heap_key ?h (parent c) \<le> heap_key ?h c" if c: "c < n" "0 < c" "c \<noteq> j" "parent c \<noteq> j" for c
  proof (cases "c = i")
    case True
    then have "parent c \<noteq> i" using parent_less [OF c(2)] by simp
    then show ?thesis using k [OF c(1)] k' [OF c(1)] grand c True by simp
  next
    case False
    then show ?thesis using k [OF c(1)] k' [OF c(1)] least c le [OF c(1,2) False] by auto
  qed
  have "heap_key ?h (parent j) \<le> heap_key ?h c" if c: "c < n" "0 < c" "parent c = j" for c
  proof -
    have "c \<noteq> i" "c \<noteq> j" using parent_less [OF c(2)] c(3) i by auto
    then show ?thesis using k [OF c(1)] k' [OF j(1)] le [OF c(1,2)] c(3) i j(3) by auto
  qed
  moreover have "heap_key ?h i \<le> heap_key ?h j" using k [OF j(1)] k [of i] i j(1) lt by simp
  ultimately show ?thesis using edge unfolding hole_def by blast
qed

lemma child_cases: "0 < c \<Longrightarrow> parent c = i \<longleftrightarrow> c = 2 * i + 1 \<or> c = 2 * i + 2"
  by auto

lemma down_heap:
  assumes "hole h n i" and "i < n" and "n \<le> length (ph_items h)" and "down h i n = (h', k)"
  shows "rearranged h h' \<and> (\<forall>m. m < i \<or> n \<le> m \<longrightarrow> ph_items h' ! m = ph_items h ! m) \<and>
    (if k = i then h' = h \<and> (\<forall>c<n. 0 < c \<longrightarrow> parent c = i \<longrightarrow> heap_key h i \<le> heap_key h c) else i < k \<and> heap_on h' n)"
  using assms
proof (induction h i n arbitrary: h' k rule: down.induct)
  case (1 h i n)
  let ?j1 = "2 * i + 1" and ?j2 = "2 * i + 2"
  let ?j = "if ?j2 < n \<and> Less h ?j2 ?j1 then ?j2 else ?j1"
  define j where "j = ?j"
  have unfold: "down h i n = (if ?j1 \<ge> n then (h, i) else if \<not> Less h j i then (h, i) else down (Swap h i j) j n)"
    by (subst down.simps) (simp add: Let_def j_def)
  show ?case
  proof (cases "?j1 \<ge> n")
    case True
    then have "\<not> (c < n \<and> 0 < c \<and> parent c = i)" for c by auto
    then show ?thesis using True unfold "1.prems"(4) by auto
  next
    case j1: False
    have j: "j < n" "0 < j" "parent j = i" using j1 by (auto simp: j_def)
    have least: "\<forall>c<n. 0 < c \<longrightarrow> parent c = i \<longrightarrow> heap_key h j \<le> heap_key h c"
    proof (intro allI impI)
      fix c assume c: "c < n" "0 < c" "parent c = i"
      then have "c = ?j1 \<or> c = ?j2" using child_cases by blast
      then show "heap_key h j \<le> heap_key h c" using c(1) by (auto simp: j_def Less_key)
    qed
    show ?thesis
    proof (cases "Less h j i")
      case False
      then have "\<forall>c<n. 0 < c \<longrightarrow> parent c = i \<longrightarrow> heap_key h i \<le> heap_key h c" using least by (force simp: Less_key)
      then show ?thesis using False unfold j1 "1.prems"(4) by auto
    next
      case True
      let ?h = "Swap h i j"
      have ij: "i < j" using j(2,3) parent_less by blast
      have re: "rearranged h ?h" using "1.prems"(2,3) j(1) by (intro Swap_rearranged) simp_all
      have st: "hole ?h n j" "\<forall>c<n. 0 < c \<longrightarrow> c \<noteq> j \<longrightarrow> parent c \<noteq> j \<longrightarrow> heap_key ?h (parent c) \<le> heap_key ?h c" "heap_key ?h i \<le> heap_key ?h j"
        using hole_step [OF "1.prems"(1,3) j least] True by (auto simp: Less_key)
      have d: "down ?h j n = (h', k)" using unfold True j1 "1.prems"(4) by simp
      have IH: "rearranged ?h h' \<and> (\<forall>m. m < j \<or> n \<le> m \<longrightarrow> ph_items h' ! m = ph_items ?h ! m) \<and>
          (if k = j then h' = ?h \<and> (\<forall>c<n. 0 < c \<longrightarrow> parent c = j \<longrightarrow> heap_key ?h j \<le> heap_key ?h c) else j < k \<and> heap_on h' n)"
      proof -
        have "j = (if ?j1 + 1 < n \<and> Less h (?j1 + 1) ?j1 then ?j1 + 1 else ?j1)" by (simp add: j_def)
        moreover have "n \<le> length (ph_items ?h)" using "1.prems"(3) rearranged_length [OF re] by simp
        ultimately show ?thesis using "1.IH" [OF refl j1 refl _ _ st(1) j(1) _ d] True by blast
      qed
      have frame: "ph_items ?h ! m = ph_items h ! m" if "m < i \<or> n \<le> m" for m using that ij j(1) by (auto simp: Swap_def Let_def)
      have "heap_on h' n" if "k = j"
        unfolding heap_on_def
      proof (intro allI impI)
        fix c assume c: "c < n" "0 < c"
        have eq: "h' = ?h" and ch: "parent c = j \<Longrightarrow> heap_key ?h j \<le> heap_key ?h c" using IH that c by simp_all
        show "heap_key h' (parent c) \<le> heap_key h' c" unfolding eq using st(2,3) ch c j(3) by (cases "c = j"; cases "parent c = j") auto
      qed
      then show ?thesis using IH re ij frame rearranged_trans by (auto split: if_splits)
    qed
  qed
qed

section \<open>The operations of the heap\<close>

definition heap_ok :: "purgatoryHeap \<Rightarrow> bool" where
  "heap_ok h \<longleftrightarrow> heap_on h (length (ph_items h)) \<and> indexed h"

lemma heap_ok_empty [simp]: "ph_items h = [] \<Longrightarrow> heap_ok h"
  by (simp add: heap_ok_def heap_on_def indexed_def)

lemma root_least:
  assumes "heap_on h n" and "k < n"
  shows "heap_key h 0 \<le> heap_key h k"
  using assms(2)
proof (induction k rule: less_induct)
  case (less k)
  show ?case
  proof (cases "k = 0")
    case False
    then have "heap_key h (parent k) \<le> heap_key h k" "parent k < k" using assms(1) less.prems by (simp_all add: heap_on_def)
    moreover from this have "heap_key h 0 \<le> heap_key h (parent k)" using less.IH [of "parent k"] less.prems by simp
    ultimately show ?thesis by simp
  qed simp
qed

lemma Push_heap:
  assumes "heap_ok h" and "e \<notin> set (ph_items h)"
  shows "heap_ok (Push h e) \<and> mset (ph_items (Push h e)) = add_mset e (mset (ph_items h)) \<and> same_entries h (Push h e)"
proof -
  let ?h = "heap_Push h e" and ?n = "length (ph_items h)"
  have s: "same_entries h ?h" by (simp add: same_entries_def heap_Push_def set_index_def)
  have len: "length (ph_items ?h) = Suc ?n" by (simp add: heap_Push_def)
  have ix: "indexed ?h" using assms by (auto simp: indexed_def heap_ok_def heap_Push_def set_index_def nth_append less_Suc_eq)
  have k: "heap_key ?h c = heap_key h c" if "c < ?n" for c using that s by (simp add: heap_key_def required_at_def same_entries_def heap_Push_def nth_append)
  have "rising ?h (Suc ?n) ?n"
    unfolding rising_def
  proof (intro conjI allI impI)
    fix c assume c: "c < Suc ?n" "0 < c" "c \<noteq> ?n"
    then have "c < ?n" "parent c < ?n" by simp_all
    then show "heap_key ?h (parent c) \<le> heap_key ?h c" using k c(2) assms(1) by (simp add: heap_ok_def heap_on_def)
  next
    fix c assume "c < Suc ?n" "0 < c" "parent c = ?n"
    then show "heap_key ?h (parent ?n) \<le> heap_key ?h c" using parent_less [of c] by simp
  qed
  then have u: "heap_on (up ?h ?n) (Suc ?n)" "rearranged ?h (up ?h ?n)" using up_heap [of ?h "Suc ?n" ?n] len by simp_all
  have "Push h e = up ?h ?n" by (simp add: Push_def heap_Len_def len)
  moreover have "heap_ok (up ?h ?n)" using u ix rearranged_length [OF u(2)] len by (simp add: heap_ok_def rearranged_def)
  moreover have "mset (ph_items (up ?h ?n)) = add_mset e (mset (ph_items h))" using u(2) by (simp add: rearranged_def heap_Push_def)
  moreover have "same_entries h (up ?h ?n)" using u(2) s by (auto simp: rearranged_def intro: same_entries_trans)
  ultimately show ?thesis by simp
qed

text \<open>Taking the last pointer off a slice whose other elements are ordered.\<close>

lemma drop_last_heap:
  assumes "heap_on h n" and "indexed h" and "length (ph_items h) = Suc n"
  shows "heap_ok (snd (heap_Pop h)) \<and> fst (heap_Pop h) = ph_items h ! n \<and>
    mset (ph_items h) = add_mset (ph_items h ! n) (mset (ph_items (snd (heap_Pop h)))) \<and> same_entries h (snd (heap_Pop h))"
proof -
  have ne: "ph_items h \<noteq> []" using assms(3) by auto
  have l: "last (ph_items h) = ph_items h ! n" using assms(3) ne by (simp add: last_conv_nth)
  have "mset (butlast (ph_items h) @ [last (ph_items h)]) = mset (ph_items h)" using ne by simp
  then have "mset (ph_items h) = add_mset (ph_items h ! n) (mset (butlast (ph_items h)))" using l by simp
  moreover have "heap_ok (snd (heap_Pop h))"
    using assms by (auto simp: heap_ok_def heap_on_def heap_key_def required_at_def indexed_def heap_Pop_def nth_butlast)
  ultimately show ?thesis using l by (simp add: heap_Pop_def same_entries_def)
qed

lemma Pop_heap:
  assumes ok: "heap_ok h" and ne: "ph_items h \<noteq> []"
  shows "\<exists>h'. Pop h = (ph_items h ! 0, h') \<and> heap_ok h' \<and> mset (ph_items h) = add_mset (ph_items h ! 0) (mset (ph_items h')) \<and>
    same_entries h h' \<and> (\<forall>e\<in>set (ph_items h). required_at h (ph_items h ! 0) \<le> required_at h e)"
proof -
  let ?n = "length (ph_items h) - 1" and ?h = "Swap h 0 (length (ph_items h) - 1)"
  have len: "length (ph_items h) = Suc ?n" using ne by (cases "ph_items h") auto
  have re: "rearranged h ?h" using ne by (intro Swap_rearranged) simp_all
  have k: "heap_key ?h c = heap_key h c" if "0 < c" "c < ?n" for c using that len by (subst key_Swap) auto
  obtain h1 k1 where d: "down ?h 0 ?n = (h1, k1)" by fastforce
  have h1: "heap_on h1 ?n \<and> rearranged ?h h1 \<and> ph_items h1 ! ?n = ph_items ?h ! ?n"
  proof (cases "?n = 0")
    case True
    then show ?thesis using d by (simp add: down.simps heap_on_def)
  next
    case False
    have "hole ?h ?n 0" unfolding hole_def
    proof (intro conjI allI impI)
      fix c assume c: "c < ?n" "0 < c" "parent c \<noteq> 0"
      then have "parent c < ?n" "c < length (ph_items h)" by simp_all
      then show "heap_key ?h (parent c) \<le> heap_key ?h c" using k [of c] k [of "parent c"] c ok by (auto simp: heap_ok_def heap_on_def)
    qed simp
    then have "rearranged ?h h1 \<and> (\<forall>m. m < 0 \<or> ?n \<le> m \<longrightarrow> ph_items h1 ! m = ph_items ?h ! m) \<and>
        (if k1 = 0 then h1 = ?h \<and> (\<forall>c<?n. 0 < c \<longrightarrow> parent c = 0 \<longrightarrow> heap_key ?h 0 \<le> heap_key ?h c) else 0 < k1 \<and> heap_on h1 ?n)"
      using False d rearranged_length [OF re] by (intro down_heap) simp_all
    moreover from this have "heap_on h1 ?n" if "k1 = 0"
      using that \<open>hole ?h ?n 0\<close> unfolding heap_on_def hole_def by (metis neq0_conv)
    ultimately show ?thesis by (auto split: if_splits)
  qed
  then have all: "rearranged h h1" using re rearranged_trans by blast
  have "ph_items h1 ! ?n = ph_items h ! 0" using h1 len by (simp add: Swap_def Let_def nth_list_update)
  moreover have "indexed h1" "length (ph_items h1) = Suc ?n"
    using all ok rearranged_length [OF all] len by (simp_all add: rearranged_def heap_ok_def)
  moreover have "Pop h = heap_Pop h1" using d by (simp add: Pop_def heap_Len_def)
  moreover have "required_at h (ph_items h ! 0) \<le> required_at h e" if "e \<in> set (ph_items h)" for e
    using that ok root_least [of h] by (auto simp: in_set_conv_nth heap_ok_def heap_key_def)
  ultimately show ?thesis
    using drop_last_heap [of h1 ?n] h1 all unfolding rearranged_def
    by (intro exI [of _ "snd (heap_Pop h1)"]) (auto intro: same_entries_trans simp: prod_eq_iff)
qed

lemma Remove_heap:
  assumes ok: "heap_ok h" and i: "i < length (ph_items h)"
  shows "\<exists>h'. Remove h i = (ph_items h ! i, h') \<and> heap_ok h' \<and> mset (ph_items h) = add_mset (ph_items h ! i) (mset (ph_items h')) \<and>
    same_entries h h'"
proof -
  let ?n = "length (ph_items h) - 1" and ?h = "Swap h i (length (ph_items h) - 1)"
  have len: "length (ph_items h) = Suc ?n" using i by simp
  define h1 where "h1 = (if ?n \<noteq> i then let (h', k) = down ?h i ?n in if \<not> k > i then up h' i else h' else h)"
  have "rearranged h h1 \<and> heap_on h1 ?n \<and> ph_items h1 ! ?n = ph_items h ! i"
  proof (cases "?n = i")
    case True
    then show ?thesis using ok by (simp add: h1_def heap_ok_def heap_on_def)
  next
    case False
    then have lt: "i < ?n" using i by simp
    have re: "rearranged h ?h" using i by (intro Swap_rearranged) simp_all
    have k: "heap_key ?h c = heap_key h c" if "c \<noteq> i" "c < ?n" for c using that i by (subst key_Swap) auto
    have le: "heap_key h (parent c) \<le> heap_key h c" if "c < ?n" "0 < c" for c using ok that by (auto simp: heap_ok_def heap_on_def)
    have hl: "hole ?h ?n i" unfolding hole_def
    proof (intro conjI allI impI)
      fix c assume c: "c < ?n" "0 < c" "c \<noteq> i" "parent c \<noteq> i"
      then show "heap_key ?h (parent c) \<le> heap_key ?h c" using k [of c] k [of "parent c"] le [of c] by simp
    next
      fix c assume c: "0 < i" "c < ?n" "0 < c" "parent c = i"
      have "heap_key ?h c = heap_key h c" "heap_key ?h (parent i) = heap_key h (parent i)"
        using k [of c] k [of "parent i"] c parent_less [of c] parent_less [of i] lt by auto
      then show "heap_key ?h (parent i) \<le> heap_key ?h c" using le [of c] le [of i] c lt by simp
    qed
    obtain h2 k2 where d: "down ?h i ?n = (h2, k2)" by fastforce
    have d2: "rearranged ?h h2 \<and> (\<forall>m. m < i \<or> ?n \<le> m \<longrightarrow> ph_items h2 ! m = ph_items ?h ! m) \<and>
        (if k2 = i then h2 = ?h \<and> (\<forall>c<?n. 0 < c \<longrightarrow> parent c = i \<longrightarrow> heap_key ?h i \<le> heap_key ?h c) else i < k2 \<and> heap_on h2 ?n)"
      using hl lt d rearranged_length [OF re] by (intro down_heap) simp_all
    have nn: "ph_items ?h ! ?n = ph_items h ! i" using lt i by (simp add: Swap_def Let_def nth_list_update)
    show ?thesis
    proof (cases "k2 = i")
      case True
      then have h2: "h2 = ?h" and ch: "\<forall>c<?n. 0 < c \<longrightarrow> parent c = i \<longrightarrow> heap_key ?h i \<le> heap_key ?h c" using d2 by simp_all
      have "rising ?h ?n i" using hl ch unfolding rising_def hole_def by metis
      then have "heap_on (up ?h i) ?n \<and> rearranged ?h (up ?h i) \<and> (\<forall>k>i. ph_items (up ?h i) ! k = ph_items ?h ! k)"
        using lt rearranged_length [OF re] by (intro up_heap) simp_all
      moreover have "h1 = up ?h i" using False d True h2 by (simp add: h1_def)
      ultimately show ?thesis using re rearranged_trans lt nn by auto
    next
      case F: False
      then have "h1 = h2" using False d d2 by (simp add: h1_def)
      then show ?thesis using d2 F re rearranged_trans nn by auto
    qed
  qed
  moreover from this have "indexed h1" "length (ph_items h1) = Suc ?n"
    using ok len rearranged_length [of h h1] by (simp_all add: rearranged_def heap_ok_def)
  moreover have "Remove h i = heap_Pop h1" by (simp add: Remove_def heap_Len_def h1_def Let_def)
  ultimately show ?thesis
    using drop_last_heap [of h1 ?n] unfolding rearranged_def
    by (intro exI [of _ "snd (heap_Pop h1)"]) (auto intro: same_entries_trans simp: prod_eq_iff)
qed

section \<open>Closing channels\<close>

lemma length_Swap [simp]: "length (ph_items (Swap h i j)) = length (ph_items h)"
  by (simp add: Swap_def Let_def)

lemma length_down: "length (ph_items (fst (down h i n))) = length (ph_items h)"
proof (induction h i n rule: down.induct)
  case (1 h i n)
  then show ?case by (subst down.simps) (simp add: Let_def)
qed

lemma length_Pop: "length (ph_items (snd (Pop h))) = length (ph_items h) - 1"
  using length_down [of "Swap h 0 (length (ph_items h) - 1)" 0 "length (ph_items h) - 1"]
  by (cases "down (Swap h 0 (length (ph_items h) - 1)) 0 (length (ph_items h) - 1)") (simp add: Pop_def heap_Pop_def heap_Len_def)

text \<open>Setting the error of an entry, and closing its channel.\<close>

definition set_err :: "purgatoryHeap \<Rightarrow> ptr \<Rightarrow> ErrorCode \<Rightarrow> purgatoryHeap" where
  "set_err h e err = h\<lparr>ph_store := (ph_store h)(e := (ph_store h e)\<lparr>pe_err := Some err\<rparr>)\<rparr>"

definition close_notify :: "purgatoryHeap \<Rightarrow> ptr \<Rightarrow> purgatoryHeap option" where
  "close_notify h e =
     (if pe_closed (ph_store h e) then None
      else Some (h\<lparr>ph_store := (ph_store h)(e := (ph_store h e)\<lparr>pe_closed := True\<rparr>)\<rparr>))"

lemma close_notify_items: "close_notify h e = Some h' \<Longrightarrow> ph_items h' = ph_items h"
  by (auto simp: close_notify_def split: if_splits)

function drainPurgatory :: "u64 \<Rightarrow> purgatoryHeap \<Rightarrow> purgatoryHeap option" where
  "drainPurgatory newHW h =
     (if heap_Len h > 0
      then let top = ph_items h ! 0 in
        if pe_requiredHW (ph_store h top) > newHW then Some h
        else (case close_notify (snd (Pop h)) top of
            None \<Rightarrow> None
          | Some h' \<Rightarrow> drainPurgatory newHW h')
      else Some h)"
  by pat_completeness auto
termination
  by (relation "measure (\<lambda>(_, h). length (ph_items h))") (auto simp: heap_Len_def length_Pop dest!: close_notify_items)

function failPurgatory :: "ErrorCode \<Rightarrow> purgatoryHeap \<Rightarrow> purgatoryHeap option" where
  "failPurgatory err h =
     (if heap_Len h > 0
      then let (entry, h') = Pop h in
        (case close_notify (set_err h' entry err) entry of
           None \<Rightarrow> None
         | Some h'' \<Rightarrow> failPurgatory err h'')
      else Some h)"
  by pat_completeness auto
termination
proof (relation "measure (\<lambda>(_, h). length (ph_items h))")
  fix err h x entry h' h''
  assume "0 < heap_Len h" and x: "x = Pop h" "(entry, h') = x" and c: "close_notify (set_err h' entry err) entry = Some h''"
  have "ph_items h'' = ph_items h'" using close_notify_items [OF c] by (simp add: set_err_def)
  also have "h' = snd (Pop h)" using x by (metis snd_conv)
  finally show "((err, h''), err, h) \<in> measure (\<lambda>(_, h). length (ph_items h))" using \<open>0 < heap_Len h\<close> by (simp add: heap_Len_def length_Pop)
qed simp

declare drainPurgatory.simps [simp del] failPurgatory.simps [simp del]

text \<open>The timeout of a request: it is taken out of the heap if it is still there.\<close>

definition expire :: "purgatoryHeap \<Rightarrow> ptr \<Rightarrow> purgatoryHeap option" where
  "expire h e =
     (let i = pe_index (ph_store h e) in
      if i < heap_Len h \<and> ph_items h ! i = e
      then close_notify (set_err (snd (Remove h i)) e ErrRequestTimedOut) e
      else Some h)"

section \<open>Who is notified\<close>

text \<open>The watermark an entry waits for, whether its channel is closed, and its error.\<close>

definition outcome :: "purgatoryHeap \<Rightarrow> ptr \<Rightarrow> u64 \<times> bool \<times> ErrorCode option" where
  "outcome h e = (let x = ph_store h e in (pe_requiredHW x, pe_closed x, pe_err x))"

lemma same_entries_outcome: "same_entries h h' \<longleftrightarrow> (\<forall>e. outcome h' e = outcome h e)"
  by (simp add: same_entries_def outcome_def Let_def)

text \<open>Every entry in the heap is still waiting.\<close>

definition purgatory_ok :: "purgatoryHeap \<Rightarrow> bool" where
  "purgatory_ok h \<longleftrightarrow> heap_ok h \<and> (\<forall>e\<in>set (ph_items h). snd (outcome h e) = (False, None))"

lemma required_at_outcome: "required_at h e = fst (outcome h e)"
  by (simp add: required_at_def outcome_def Let_def)

lemma purgatory_distinct: "purgatory_ok h \<Longrightarrow> distinct (ph_items h)"
  by (simp add: purgatory_ok_def heap_ok_def indexed_distinct)

lemma heap_ok_store:
  assumes "heap_ok h" and "\<forall>x. pe_requiredHW (s x) = pe_requiredHW (ph_store h x) \<and> pe_index (s x) = pe_index (ph_store h x)"
  shows "heap_ok (h\<lparr>ph_store := s\<rparr>)"
  using assms by (simp add: heap_ok_def heap_on_def heap_key_def required_at_def indexed_def)

text \<open>Closing the channel of an entry that was taken out.\<close>

lemma close_removed:
  assumes ok: "heap_ok h'" and m: "mset (ph_items h) = add_mset e (mset (ph_items h'))" and same: "same_entries h h'" and p: "purgatory_ok h"
  shows "\<exists>h''. close_notify (case err of None \<Rightarrow> h' | Some c \<Rightarrow> set_err h' e c) e = Some h'' \<and> purgatory_ok h'' \<and>
    ph_items h'' = ph_items h' \<and> set (ph_items h'') = set (ph_items h) - {e} \<and> outcome h'' = (outcome h)(e := (required_at h e, True, err))"
proof -
  let ?f = "case err of None \<Rightarrow> h' | Some c \<Rightarrow> set_err h' e c"
  have s: "set (ph_items h) = insert e (set (ph_items h'))" using m by (metis set_mset_mset set_mset_add_mset_insert)
  have d: "e \<notin> set (ph_items h')"
    using purgatory_distinct [OF p] m distinct_count_atmost_1 [of "ph_items h"] s
    by (metis (no_types, lifting) One_nat_def add_mset_remove_trivial count_add_mset count_mset_0_iff insertI1 nat.inject)
  have o: "outcome h e = (required_at h e, False, None)" "outcome h' x = outcome h x" for x
    using p s same by (auto simp: purgatory_ok_def required_at_outcome same_entries_outcome prod_eq_iff)
  have open_': "\<not> pe_closed (ph_store ?f e)" using o(1) o(2) [of e] by (auto simp: outcome_def Let_def set_err_def split: option.split)
  define h'' where "h'' = ?f\<lparr>ph_store := (ph_store ?f)(e := (ph_store ?f e)\<lparr>pe_closed := True\<rparr>)\<rparr>"
  have cl: "close_notify ?f e = Some h''" using open_' by (simp add: close_notify_def h''_def)
  have items: "ph_items h'' = ph_items h'" by (auto simp: h''_def set_err_def split: option.split)
  have out: "outcome h'' x = ((outcome h)(e := (required_at h e, True, err))) x" for x
    using o(1) o(2) [of x] by (auto simp: outcome_def h''_def set_err_def Let_def required_at_def split: option.split)
  have "heap_ok h''"
  proof -
    have "h'' = h'\<lparr>ph_store := ph_store h''\<rparr>" using items by simp
    moreover have "heap_ok (h'\<lparr>ph_store := ph_store h''\<rparr>)"
      by (intro heap_ok_store [OF ok]) (auto simp: h''_def set_err_def split: option.split)
    ultimately show ?thesis by simp
  qed
  moreover have "snd (outcome h'' x) = (False, None)" if "x \<in> set (ph_items h'')" for x
    using that items d s p by (auto simp: out purgatory_ok_def)
  ultimately show ?thesis using cl items out s d by (auto simp: purgatory_ok_def fun_eq_iff)
qed

lemma drain_rep:
  assumes "purgatory_ok h"
  shows "\<exists>h'. drainPurgatory hw h = Some h' \<and> purgatory_ok h' \<and> set (ph_items h') = {e \<in> set (ph_items h). hw < required_at h e} \<and>
    outcome h' = (\<lambda>e. if e \<in> set (ph_items h) \<and> required_at h e \<le> hw then (required_at h e, True, None) else outcome h e)"
  using assms
proof (induction "length (ph_items h)" arbitrary: h rule: less_induct)
  case less
  show ?case
  proof (cases "ph_items h = [] \<or> hw < required_at h (ph_items h ! 0)")
    case True
    have ge: "hw < required_at h e" if "e \<in> set (ph_items h)" for e
      using True that less.prems Pop_heap [of h] by (fastforce simp: purgatory_ok_def)
    have "drainPurgatory hw h = Some h" using True by (subst drainPurgatory.simps) (auto simp: heap_Len_def required_at_def)
    moreover have "outcome h = (\<lambda>e. if e \<in> set (ph_items h) \<and> required_at h e \<le> hw then (required_at h e, True, None) else outcome h e)"
      using ge by (auto simp: fun_eq_iff not_le dest: leD)
    ultimately show ?thesis using less.prems ge by (intro exI [of _ h]) auto
  next
    case False
    let ?e = "ph_items h ! 0"
    obtain h1 where pop: "Pop h = (?e, h1)" "heap_ok h1" "mset (ph_items h) = add_mset ?e (mset (ph_items h1))" "same_entries h h1"
      using Pop_heap [of h] less.prems False by (auto simp: purgatory_ok_def)
    obtain h2 where h2: "close_notify h1 ?e = Some h2" "purgatory_ok h2" "ph_items h2 = ph_items h1" "set (ph_items h2) = set (ph_items h) - {?e}"
        "outcome h2 = (outcome h)(?e := (required_at h ?e, True, None))"
      using close_removed [OF pop(2-4) less.prems, of None] by auto
    have e: "?e \<in> set (ph_items h)" using False by (cases "ph_items h") auto
    have req2: "required_at h2 x = required_at h x" for x by (simp add: required_at_outcome h2(5))
    have "drainPurgatory hw h = drainPurgatory hw h2"
      using False pop(1) h2(1) by (subst drainPurgatory.simps) (auto simp: heap_Len_def required_at_def)
    moreover have "length (ph_items h2) < length (ph_items h)" using h2(3) pop(3) by (metis lessI size_add_mset size_mset)
    then obtain h' where "drainPurgatory hw h2 = Some h'" "purgatory_ok h'" "set (ph_items h') = {e \<in> set (ph_items h2). hw < required_at h2 e}"
        "outcome h' = (\<lambda>e. if e \<in> set (ph_items h2) \<and> required_at h2 e \<le> hw then (required_at h2 e, True, None) else outcome h2 e)"
      using less.hyps [OF _ h2(2)] by blast
    ultimately show ?thesis using False e h2(4,5) req2 by (intro exI [of _ h']) (auto simp: fun_eq_iff not_less)
  qed
qed

lemma fail_rep:
  assumes "purgatory_ok h"
  shows "\<exists>h'. failPurgatory err h = Some h' \<and> purgatory_ok h' \<and> ph_items h' = [] \<and>
    outcome h' = (\<lambda>e. if e \<in> set (ph_items h) then (required_at h e, True, Some err) else outcome h e)"
  using assms
proof (induction "length (ph_items h)" arbitrary: h rule: less_induct)
  case less
  show ?case
  proof (cases "ph_items h = []")
    case True
    then show ?thesis using less.prems by (subst failPurgatory.simps) (auto simp: heap_Len_def)
  next
    case False
    let ?e = "ph_items h ! 0"
    obtain h1 where pop: "Pop h = (?e, h1)" "heap_ok h1" "mset (ph_items h) = add_mset ?e (mset (ph_items h1))" "same_entries h h1"
      using Pop_heap [of h] less.prems False by (auto simp: purgatory_ok_def)
    obtain h2 where h2: "close_notify (set_err h1 ?e err) ?e = Some h2" "purgatory_ok h2" "ph_items h2 = ph_items h1" "set (ph_items h2) = set (ph_items h) - {?e}"
        "outcome h2 = (outcome h)(?e := (required_at h ?e, True, Some err))"
      using close_removed [OF pop(2-4) less.prems, of "Some err"] by auto
    have e: "?e \<in> set (ph_items h)" using False by (cases "ph_items h") auto
    have req2: "required_at h2 x = required_at h x" for x by (simp add: required_at_outcome h2(5))
    have "failPurgatory err h = failPurgatory err h2"
      using False pop(1) h2(1) by (subst failPurgatory.simps) (auto simp: heap_Len_def)
    moreover have "length (ph_items h2) < length (ph_items h)" using h2(3) pop(3) by (metis lessI size_add_mset size_mset)
    then obtain h' where "failPurgatory err h2 = Some h'" "purgatory_ok h'" "ph_items h' = []"
        "outcome h' = (\<lambda>e. if e \<in> set (ph_items h2) then (required_at h2 e, True, Some err) else outcome h2 e)"
      using less.hyps [OF _ h2(2)] by blast
    ultimately show ?thesis using e h2(4,5) req2 by (intro exI [of _ h']) (auto simp: fun_eq_iff)
  qed
qed

lemma expire_rep:
  assumes "purgatory_ok h"
  shows "\<exists>h'. expire h e = Some h' \<and> purgatory_ok h' \<and> set (ph_items h') = set (ph_items h) - {e} \<and>
    outcome h' = (if e \<in> set (ph_items h) then (outcome h)(e := (required_at h e, True, Some ErrRequestTimedOut)) else outcome h)"
proof (cases "e \<in> set (ph_items h)")
  case True
  then obtain i where i: "i < length (ph_items h)" "ph_items h ! i = e" by (auto simp: in_set_conv_nth)
  then have ix: "pe_index (ph_store h e) = i" using assms by (auto simp: purgatory_ok_def heap_ok_def indexed_def)
  obtain h1 where r: "Remove h i = (e, h1)" "heap_ok h1" "mset (ph_items h) = add_mset e (mset (ph_items h1))" "same_entries h h1"
    using Remove_heap [of h i] assms i by (auto simp: purgatory_ok_def)
  then show ?thesis
    using close_removed [OF r(2-4) assms, of "Some ErrRequestTimedOut"] True ix i by (auto simp: expire_def heap_Len_def)
next
  case False
  then have "\<not> (pe_index (ph_store h e) < heap_Len h \<and> ph_items h ! pe_index (ph_store h e) = e)" by (metis heap_Len_def nth_mem)
  then have "expire h e = Some h" by (auto simp: expire_def Let_def)
  then show ?thesis using False assms by simp
qed

lemma push_rep:
  assumes ok: "purgatory_ok h" and e: "e \<notin> set (ph_items h)" "snd (outcome h e) = (False, None)"
  shows "purgatory_ok (Push h e) \<and> set (ph_items (Push h e)) = insert e (set (ph_items h)) \<and> outcome (Push h e) = outcome h"
proof -
  have p: "heap_ok (Push h e)" "mset (ph_items (Push h e)) = add_mset e (mset (ph_items h))" "same_entries h (Push h e)"
    using Push_heap [of h e] ok e(1) by (simp_all add: purgatory_ok_def)
  moreover have "set (ph_items (Push h e)) = insert e (set (ph_items h))" using p(2) by (metis set_mset_mset set_mset_add_mset_insert)
  moreover have "outcome (Push h e) = outcome h" using p(3) by (simp add: same_entries_outcome fun_eq_iff)
  ultimately show ?thesis using ok e(2) by (simp add: purgatory_ok_def)
qed

end
