(* ===== verification/Partition.thy ===== *)
theory Partition
  imports LogOpen Purgatory
begin

text \<open>
  \<open>partition.go\<close> and \<open>partition_raw.go\<close>: a replica of a partition.  It holds the log, the role and epoch the
  controller assigned, the high watermark, on the leader the in-sync replicas with the end offsets they have
  fetched up to, and the produce requests that wait for replication.

  Each method is one step on the record \<open>Partition\<close>; the part of an append that runs under the append lock
  and the advance of the high watermark after it are definitions of their own.  A context that expires
  later is the separate step \<open>expire_request\<close>.  A failed call of the file system is given by \<^typ>\<open>LogIO\<close>.
  \<^const>\<open>None\<close> is a panic.
\<close>

section \<open>State\<close>

definition AcksNone :: i16 where "AcksNone = 0"
definition AcksLeader :: i16 where "AcksLeader = 1"
definition AcksAll :: i16 where "AcksAll = - 1"

record ISREntry =
  ie_BrokerID :: i32
  ie_LEO :: u64

text \<open>The notify channel is its number: closing it and making a new one is the next number.\<close>

record Partition =
  pt_topicName :: gostring
  pt_partitionID :: i32
  pt_localBrokerID :: i32
  pt_log :: Log
  pt_highWatermark :: u64
  pt_isLeader :: bool
  pt_leaderEpoch :: i32
  pt_leaderID :: i32
  pt_isr :: "ISREntry list"
  pt_purgatory :: purgatoryHeap
  pt_allocated :: nat
  pt_notifyCh :: nat
  pt_closed :: bool

text \<open>The errors: a code of the protocol, the closed partition, or a wrapped error of the log.\<close>

datatype PartitionError = Code ErrorCode | ErrPartitionClosed | Wrapped LogError

type_synonym 'a PartOp = "Partition \<Rightarrow> ((PartitionError + 'a) \<times> Partition) option"

definition NewPartition :: "gostring \<Rightarrow> i32 \<Rightarrow> i32 \<Rightarrow> Log \<Rightarrow> Partition" where
  "NewPartition topicName partitionID localBrokerID l =
     \<lparr>pt_topicName = topicName, pt_partitionID = partitionID, pt_localBrokerID = localBrokerID, pt_log = l,
      pt_highWatermark = OldestOffset l, pt_isLeader = False, pt_leaderEpoch = 0, pt_leaderID = - 1, pt_isr = [],
      pt_purgatory = \<lparr>ph_items = [], ph_store = (\<lambda>_. \<lparr>pe_requiredHW = 0, pe_closed = False, pe_err = None, pe_index = 0\<rparr>)\<rparr>,
      pt_allocated = 0, pt_notifyCh = 0, pt_closed = False\<rparr>"

definition HighWatermark :: "Partition \<Rightarrow> u64" where "HighWatermark p = pt_highWatermark p"
definition LEO :: "Partition \<Rightarrow> u64" where "LEO p = NextOffset (pt_log p)"
definition IsLeader :: "Partition \<Rightarrow> bool" where "IsLeader p = pt_isLeader p"
definition LeaderEpoch :: "Partition \<Rightarrow> i32" where "LeaderEpoch p = pt_leaderEpoch p"
definition NotifyChan :: "Partition \<Rightarrow> nat" where "NotifyChan p = pt_notifyCh p"

definition Assignment :: "Partition \<Rightarrow> i32 \<times> i32 \<times> bool" where
  "Assignment p = (pt_leaderID p, pt_leaderEpoch p, pt_isLeader p)"

definition ISRSnapshot :: "Partition \<Rightarrow> i32 list" where
  "ISRSnapshot p = map ie_BrokerID (pt_isr p)"

definition notifyWaiters :: "Partition \<Rightarrow> Partition" where
  "notifyWaiters p = p\<lparr>pt_notifyCh := Suc (pt_notifyCh p)\<rparr>"

definition on_purgatory :: "(purgatoryHeap \<Rightarrow> purgatoryHeap option) \<Rightarrow> Partition \<Rightarrow> Partition option" where
  "on_purgatory f p = map_option (\<lambda>h. p\<lparr>pt_purgatory := h\<rparr>) (f (pt_purgatory p))"

section \<open>The high watermark\<close>

fun min_leo :: "i32 \<Rightarrow> u64 \<Rightarrow> ISREntry list \<Rightarrow> u64" where
  "min_leo localBrokerID newHW [] = newHW"
| "min_leo localBrokerID newHW (entry # isr) =
     (if ie_BrokerID entry = localBrokerID then min_leo localBrokerID newHW isr
      else min_leo localBrokerID (if ie_LEO entry < newHW then ie_LEO entry else newHW) isr)"

definition maybeAdvanceHW :: "Partition \<Rightarrow> Partition option" where
  "maybeAdvanceHW p =
     (if \<not> pt_isLeader p then Some p
      else let newHW = min_leo (pt_localBrokerID p) (NextOffset (pt_log p)) (pt_isr p) in
        if pt_isr p = [] then Some p
        else let current = pt_highWatermark p in
          if newHW \<le> current then on_purgatory (drainPurgatory current) p
          else map_option notifyWaiters (on_purgatory (drainPurgatory newHW) (p\<lparr>pt_highWatermark := newHW\<rparr>)))"

fun set_leo :: "i32 \<Rightarrow> u64 \<Rightarrow> ISREntry list \<Rightarrow> ISREntry list" where
  "set_leo brokerID leo [] = []"
| "set_leo brokerID leo (entry # isr) =
     (if ie_BrokerID entry = brokerID then entry\<lparr>ie_LEO := leo\<rparr> # isr else entry # set_leo brokerID leo isr)"

definition updateFollowerLEO :: "i32 \<Rightarrow> u64 \<Rightarrow> Partition \<Rightarrow> Partition option" where
  "updateFollowerLEO brokerID leo p = maybeAdvanceHW (p\<lparr>pt_isr := set_leo brokerID leo (pt_isr p)\<rparr>)"

section \<open>Roles\<close>

definition MakeLeader :: "LogIO \<Rightarrow> i32 \<Rightarrow> i32 list \<Rightarrow> u64 \<Rightarrow> unit PartOp" where
  "MakeLeader io epoch initialISR initialHW p =
     (if case LatestLeaderEpoch (pt_log p) of None \<Rightarrow> False | Some latest \<Rightarrow> sint epoch < sint latest
      then Some (Inl (Wrapped OtherError), p)
      else let p = (if \<not> pt_isLeader p \<or> sint epoch > sint (LeaderEpoch p) then p\<lparr>pt_isLeader := False\<rparr> else p);
               leo = NextOffset (pt_log p)
      in case AssignLeaderEpoch io epoch leo (pt_log p) of
        None \<Rightarrow> None
      | Some (Inl e, l) \<Rightarrow>
          (case on_purgatory (failPurgatory ErrNotLeaderOrFollower)
              (p\<lparr>pt_log := l, pt_isLeader := False, pt_leaderID := - 1, pt_isr := []\<rparr>) of
             None \<Rightarrow> None
           | Some p \<Rightarrow> Some (Inl (Wrapped e), notifyWaiters p))
      | Some (Inr _, l) \<Rightarrow>
          Some (Inr (), notifyWaiters
            (p\<lparr>pt_log := l, pt_leaderEpoch := epoch, pt_leaderID := pt_localBrokerID p,
               pt_isr := map (\<lambda>id. \<lparr>ie_BrokerID = id, ie_LEO = 0\<rparr>) initialISR,
               pt_highWatermark := initialHW, pt_isLeader := True\<rparr>)))"

definition MakeFollower :: "i32 \<Rightarrow> i32 \<Rightarrow> Partition \<Rightarrow> Partition option" where
  "MakeFollower epoch leaderID p =
     map_option notifyWaiters (on_purgatory (failPurgatory ErrNotLeaderOrFollower)
       (p\<lparr>pt_isLeader := False, pt_leaderEpoch := epoch, pt_leaderID := leaderID, pt_isr := []\<rparr>))"

definition MakeUnassigned :: "Partition \<Rightarrow> Partition option" where
  "MakeUnassigned p =
     map_option notifyWaiters (on_purgatory (failPurgatory ErrNotLeaderOrFollower)
       (p\<lparr>pt_isLeader := False, pt_leaderID := - 1, pt_isr := []\<rparr>))"

text \<open>The end offsets known so far, the last entry of a broker counting; 0 for a broker that is new.\<close>

definition previous_leo :: "ISREntry list \<Rightarrow> i32 \<Rightarrow> u64" where
  "previous_leo isr brokerID = (case find (\<lambda>e. ie_BrokerID e = brokerID) (rev isr) of None \<Rightarrow> 0 | Some e \<Rightarrow> ie_LEO e)"

definition UpdateLeaderISR :: "i32 \<Rightarrow> i32 list \<Rightarrow> unit PartOp" where
  "UpdateLeaderISR epoch ids p =
     (if \<not> pt_isLeader p \<or> pt_leaderEpoch p \<noteq> epoch \<or> pt_leaderID p \<noteq> pt_localBrokerID p
      then Some (Inl (Code ErrNotLeaderOrFollower), p)
      else case maybeAdvanceHW (p\<lparr>pt_isr := map (\<lambda>id. \<lparr>ie_BrokerID = id, ie_LEO = previous_leo (pt_isr p) id\<rparr>) ids\<rparr>) of
        None \<Rightarrow> None
      | Some p \<Rightarrow> Some (Inr (), p))"

section \<open>Appending on the leader\<close>

text \<open>The result: the first offset and the entry whose channel the caller waits on, none when the request is
  complete at once.\<close>

record AppendResult =
  ar_FirstOffset :: u64
  ar_entry :: "ptr option"

text \<open>A new entry in the purgatory.\<close>

definition add_waiter :: "u64 \<Rightarrow> Partition \<Rightarrow> ptr \<times> Partition" where
  "add_waiter requiredHW p =
     (let e = pt_allocated p; h = pt_purgatory p;
          h = h\<lparr>ph_store := (ph_store h)(e := \<lparr>pe_requiredHW = requiredHW, pe_closed = False, pe_err = None, pe_index = 0\<rparr>)\<rparr>
      in (e, p\<lparr>pt_purgatory := Push h e, pt_allocated := Suc e\<rparr>))"

text \<open>What an append does under the append lock once the log has taken the records.\<close>

definition await_hw :: "i16 \<Rightarrow> u64 \<Rightarrow> Partition \<Rightarrow> ptr option \<times> Partition" where
  "await_hw acks requiredHW p =
     (if acks = AcksAll then let (e, p) = add_waiter requiredHW p in (Some e, p) else (None, p))"

definition expire_request :: "ptr \<Rightarrow> Partition \<Rightarrow> Partition option" where
  "expire_request e p = on_purgatory (\<lambda>h. expire h e) p"

text \<open>The append of the internal path; the batch changed by the log is part of the result.\<close>

definition Append :: "LogIO \<Rightarrow> Batch \<Rightarrow> i16 \<Rightarrow> AppendResult PartOp" where
  "Append io batch acks p =
     (if \<not> pt_isLeader p then Some (Inl (Code ErrNotLeaderOrFollower), p)
      else if pt_closed p then Some (Inl ErrPartitionClosed, p)
      else case Log_Append io batch (pt_log p) of
        None \<Rightarrow> None
      | Some (Inl e, l) \<Rightarrow> Some (Inl (Wrapped e), p\<lparr>pt_log := l\<rparr>)
      | Some (Inr (firstOffset, _), l) \<Rightarrow>
          let (entry, p) = await_hw acks (firstOffset + word_of_nat (length (b_Messages batch))) (p\<lparr>pt_log := l\<rparr>) in
          if acks = AcksNone \<or> acks = AcksLeader \<or> acks = AcksAll
          then (case maybeAdvanceHW p of
              None \<Rightarrow> None
            | Some p \<Rightarrow> Some (Inr \<lparr>ar_FirstOffset = firstOffset, ar_entry = entry\<rparr>, p))
          else Some (Inl (Wrapped OtherError), p))"

definition raw_error :: "LogError \<Rightarrow> PartitionError" where
  "raw_error e =
     (if e = ErrCorruptBatch then Code ErrCorruptMessage
      else if e = ErrUnsupportedMessageFormat then Code ErrUnsupportedForMessageFormat
      else if e = ErrMessageTooLarge then Code ErrCodeMessageTooLarge
      else Wrapped e)"

text \<open>\<open>ctxDone\<close> says whether the context has expired when the append checks it.\<close>

definition Partition_AppendRaw :: "LogIO \<Rightarrow> bool \<Rightarrow> bytes \<Rightarrow> i16 \<Rightarrow> AppendResult PartOp" where
  "Partition_AppendRaw io ctxDone data acks p =
     (if \<not> pt_isLeader p then Some (Inl (Code ErrNotLeaderOrFollower), p)
      else if pt_closed p then Some (Inl ErrPartitionClosed, p)
      else if length data < recordBatchOverhead then Some (Inl (Code ErrCorruptMessage), p)
      else if acks \<noteq> AcksNone \<and> acks \<noteq> AcksLeader \<and> acks \<noteq> AcksAll then Some (Inl (Code ErrInvalidRequiredAcks), p)
      else case AppendRaw io data (pt_leaderEpoch p) (pt_log p) of
        None \<Rightarrow> None
      | Some (Inl e, l) \<Rightarrow> Some (Inl (raw_error e), p\<lparr>pt_log := l\<rparr>)
      | Some (Inr (firstOffset, lod), l) \<Rightarrow>
          let (entry, p) = await_hw acks (firstOffset + ucast lod + 1) (notifyWaiters (p\<lparr>pt_log := l\<rparr>));
              result = \<lparr>ar_FirstOffset = firstOffset, ar_entry = entry\<rparr>
          in (case maybeAdvanceHW p of
              None \<Rightarrow> None
            | Some p \<Rightarrow>
                (case entry of
                   None \<Rightarrow> Some (Inr result, p)
                 | Some e \<Rightarrow>
                     if pe_closed (ph_store (pt_purgatory p) e) then Some (Inr result, p)
                     else if ctxDone
                     then (case expire_request e p of None \<Rightarrow> None | Some p \<Rightarrow> Some (Inr result, p))
                     else Some (Inr result, p))))"

section \<open>Appending on a follower\<close>

definition AppendFromLeader :: "LogIO \<Rightarrow> bytes \<Rightarrow> i32 \<Rightarrow> u64 \<Rightarrow> unit PartOp" where
  "AppendFromLeader io data fetchEpoch leaderHW p =
     (if pt_closed p then Some (Inl ErrPartitionClosed, p)
      else if pt_isLeader p \<or> sint (pt_leaderID p) < 0 \<or> pt_leaderID p = pt_localBrokerID p
      then Some (Inl (Code ErrNotLeaderOrFollower), p)
      else if sint fetchEpoch < sint (pt_leaderEpoch p) then Some (Inl (Code ErrFencedLeaderEpoch), p)
      else if sint fetchEpoch > sint (pt_leaderEpoch p) then Some (Inl (Code ErrUnknownLeaderEpoch), p)
      else let oldLEO = NextOffset (pt_log p); oldHW = pt_highWatermark p in
        case (if data \<noteq> [] then map_option (map_prod (map_sum id (\<lambda>_. ())) id) (AppendReplicaRaw io data fetchEpoch (pt_log p))
              else Some (Inr (), pt_log p)) of
          None \<Rightarrow> None
        | Some (Inl e, l) \<Rightarrow> Some (Inl (Wrapped e), p\<lparr>pt_log := l\<rparr>)
        | Some (Inr _, l) \<Rightarrow>
            let candidateHW = (if NextOffset l < leaderHW then NextOffset l else leaderHW);
                p = p\<lparr>pt_log := l, pt_highWatermark := if candidateHW > oldHW then candidateHW else oldHW\<rparr>
            in Some (Inr (), if NextOffset l \<noteq> oldLEO \<or> pt_highWatermark p \<noteq> oldHW then notifyWaiters p else p))"

definition Partition_TruncateTo :: "LogIO \<Rightarrow> u64 \<Rightarrow> unit PartOp" where
  "Partition_TruncateTo io offset p =
     (if pt_isLeader p then Some (Inl (Wrapped OtherError), p)
      else case TruncateTo io offset (pt_log p) of
        None \<Rightarrow> None
      | Some (r, l) \<Rightarrow>
          let oldLEO = NextOffset (pt_log p); newLEO = NextOffset l; hw = pt_highWatermark p;
              lowered = \<not> hw \<le> newLEO;
              p = p\<lparr>pt_log := l, pt_highWatermark := if lowered then newLEO else hw\<rparr>;
              p = (if newLEO \<noteq> oldLEO \<or> lowered then notifyWaiters p else p)
          in Some (map_sum Wrapped id r, p))"

section \<open>Reading\<close>

definition validateLeaderEpoch :: "i32 \<Rightarrow> i32 \<Rightarrow> ErrorCode option" where
  "validateLeaderEpoch requested current =
     (if sint requested < 0 then None
      else if sint requested < sint current then Some ErrFencedLeaderEpoch
      else if sint requested > sint current then Some ErrUnknownLeaderEpoch
      else None)"

definition Partition_EndOffsetForLeaderEpoch :: "i32 \<Rightarrow> i32 \<Rightarrow> Partition \<Rightarrow> (PartitionError + EpochEndOffset option) option" where
  "Partition_EndOffsetForLeaderEpoch requestedEpoch currentLeaderEpoch p =
     (if pt_closed p then Some (Inl ErrPartitionClosed)
      else if \<not> pt_isLeader p then Some (Inl (Code ErrNotLeaderOrFollower))
      else case validateLeaderEpoch currentLeaderEpoch (pt_leaderEpoch p) of
        Some e \<Rightarrow> Some (Inl (Code e))
      | None \<Rightarrow> map_option Inr (EndOffsetForLeaderEpoch (pt_log p) requestedEpoch))"

record FetchResult =
  fe_Batch :: "Batch option"
  fe_HighWatermark :: u64

definition Partition_Fetch :: "u64 \<Rightarrow> i32 \<Rightarrow> bool \<Rightarrow> FetchResult PartOp" where
  "Partition_Fetch fetchOffset followerBrokerID isFollower p =
     (if pt_closed p then Some (Inl ErrPartitionClosed, p)
      else if \<not> pt_isLeader p then Some (Inl (Code ErrNotLeaderOrFollower), p)
      else let hw = pt_highWatermark p; empty = Inr \<lparr>fe_Batch = None, fe_HighWatermark = hw\<rparr> in
        if \<not> isFollower \<and> fetchOffset \<ge> hw then Some (empty, p)
        else if isFollower \<and> fetchOffset \<ge> NextOffset (pt_log p)
        then map_option (Pair empty) (updateFollowerLEO followerBrokerID fetchOffset p)
        else case Log_Read (pt_log p) fetchOffset of
          None \<Rightarrow> None
        | Some (Inl e) \<Rightarrow> Some (Inl (Wrapped e), p)
        | Some (Inr batch) \<Rightarrow>
            let result = Inr \<lparr>fe_Batch = Some batch, fe_HighWatermark = hw\<rparr> in
            if isFollower
            then map_option (Pair result) (updateFollowerLEO followerBrokerID (b_FirstOffset batch + ucast (b_LastOffsetDelta batch) + 1) p)
            else Some (result, p))"

text \<open>The loop of \<open>capToHW\<close> over the batches of a range; an error is \<^const>\<open>None\<close>.\<close>

definition batchMetaPrefixLength :: nat where "batchMetaPrefixLength = 27"

function cap_loop :: "bytes \<Rightarrow> int \<Rightarrow> int \<Rightarrow> u64 \<Rightarrow> int \<Rightarrow> u64 \<Rightarrow> (int \<times> u64) option" where
  "cap_loop r pos len maxOffset consumed exclusiveEnd =
     (if consumed < len
      then if len - consumed < int batchMetaPrefixLength then None
        else case ReadAt r (pos + consumed) batchMetaPrefixLength of
          None \<Rightarrow> None
        | Some hdr \<Rightarrow>
            let totalSize = 12 + int (unat (hdr_len hdr)) in
            if totalSize < int recordBatchOverhead then None
            else if consumed + totalSize > len then None
            else let batchEnd = hdr_base hdr + ucast (hdr_lod hdr) + 1 in
              if batchEnd > maxOffset then Some (consumed, exclusiveEnd)
              else cap_loop r pos len maxOffset (consumed + totalSize) batchEnd
      else Some (consumed, exclusiveEnd))"
  by pat_completeness auto
termination
  by (relation "measure (\<lambda>(_, _, len, _, consumed, _). nat (len - consumed))") (auto simp: recordBatchOverhead_def)

declare cap_loop.simps [simp del]

definition capToHW :: "bytes \<Rightarrow> int \<Rightarrow> int \<Rightarrow> u64 \<Rightarrow> u64 \<Rightarrow> (int \<times> u64) option" where
  "capToHW r pos len maxOffset fallback = cap_loop r pos len maxOffset 0 fallback"

record FetchRawResult =
  fr_Records :: "bytes option"
  fr_HighWatermark :: u64
  fr_LogStartOffset :: u64
  fr_FetchedUpTo :: u64

definition FetchRaw :: "u64 \<Rightarrow> i32 \<Rightarrow> i32 \<Rightarrow> FetchRawResult PartOp" where
  "FetchRaw fetchOffset replicaID maxBytes p =
     (if pt_closed p then Some (Inl ErrPartitionClosed, p)
      else if \<not> pt_isLeader p then Some (Inl (Code ErrNotLeaderOrFollower), p)
      else let isFollower = sint replicaID \<ge> 0; leaderLEO = NextOffset (pt_log p); logStart = OldestOffset (pt_log p);
               nothing = (\<lambda>p. Inr \<lparr>fr_Records = None, fr_HighWatermark = pt_highWatermark p, fr_LogStartOffset = logStart, fr_FetchedUpTo = 0\<rparr>)
      in if fetchOffset < logStart \<or> fetchOffset > leaderLEO then Some (Inl (Code ErrOffsetOutOfRange), p)
      else if \<not> isFollower \<and> fetchOffset \<ge> pt_highWatermark p then Some (nothing p, p)
      else if isFollower \<and> fetchOffset = leaderLEO
      then (case updateFollowerLEO replicaID fetchOffset p of None \<Rightarrow> None | Some p \<Rightarrow> Some (nothing p, p))
      else case ReadRaw (pt_log p) fetchOffset maxBytes of
        None \<Rightarrow> Some (Inl (Wrapped OtherError), p)
      | Some (raw, fetchedUpTo) \<Rightarrow>
          (case (if isFollower then updateFollowerLEO replicaID fetchOffset p else Some p) of
             None \<Rightarrow> None
           | Some p \<Rightarrow>
               let hw = pt_highWatermark p in
               if \<not> isFollower \<and> fetchedUpTo > hw
               then (case capToHW raw 0 (int (length raw)) hw fetchOffset of
                   None \<Rightarrow> Some (Inl (Wrapped OtherError), p)
                 | Some (n, upTo) \<Rightarrow>
                     Some (Inr \<lparr>fr_Records = if n = 0 then None else Some (take (nat n) raw), fr_HighWatermark = hw,
                               fr_LogStartOffset = logStart, fr_FetchedUpTo = upTo\<rparr>, p))
               else Some (Inr \<lparr>fr_Records = Some raw, fr_HighWatermark = hw, fr_LogStartOffset = logStart,
                               fr_FetchedUpTo = fetchedUpTo\<rparr>, p)))"

record FetchRawRangeResult =
  fg_Ranges :: "RawRange list"
  fg_RecordsSize :: int
  fg_HighWatermark :: u64
  fg_LogStartOffset :: u64
  fg_FetchedUpTo :: u64

fun cap_ranges :: "u64 \<Rightarrow> RawRange list \<Rightarrow> RawRange list \<Rightarrow> int \<Rightarrow> u64 \<Rightarrow> (RawRange list \<times> int \<times> u64) option" where
  "cap_ranges hw [] capped n upTo = Some (capped, n, upTo)"
| "cap_ranges hw (rg # ranges) capped n upTo =
     (case capToHW (rr_File rg) (rr_Offset rg) (rr_Length rg) hw upTo of
        None \<Rightarrow> None
      | Some (k, u) \<Rightarrow>
          let (capped, n, upTo) = (if k > 0 then (capped @ [rg\<lparr>rr_Length := k\<rparr>], n + k, u) else (capped, n, upTo)) in
          if k < rr_Length rg then Some (capped, n, upTo) else cap_ranges hw ranges capped n upTo)"

definition FetchRawRanges :: "u64 \<Rightarrow> i32 \<Rightarrow> i32 \<Rightarrow> bool \<Rightarrow> FetchRawRangeResult PartOp" where
  "FetchRawRanges fetchOffset replicaID maxBytes allowOversizedFirstBatch p =
     (if pt_closed p then Some (Inl ErrPartitionClosed, p)
      else if \<not> pt_isLeader p then Some (Inl (Code ErrNotLeaderOrFollower), p)
      else let isFollower = sint replicaID \<ge> 0; leaderLEO = NextOffset (pt_log p); logStart = OldestOffset (pt_log p);
               nothing = (\<lambda>p. Inr \<lparr>fg_Ranges = [], fg_RecordsSize = 0, fg_HighWatermark = pt_highWatermark p,
                                   fg_LogStartOffset = logStart, fg_FetchedUpTo = fetchOffset\<rparr>)
      in if fetchOffset < logStart \<or> fetchOffset > leaderLEO then Some (Inl (Code ErrOffsetOutOfRange), p)
      else if \<not> isFollower \<and> fetchOffset \<ge> pt_highWatermark p then Some (nothing p, p)
      else if isFollower \<and> fetchOffset = leaderLEO
      then (case updateFollowerLEO replicaID fetchOffset p of None \<Rightarrow> None | Some p \<Rightarrow> Some (nothing p, p))
      else case ReadRawRanges (pt_log p) fetchOffset maxBytes of
        None \<Rightarrow> Some (Inl (Wrapped OtherError), p)
      | Some raw \<Rightarrow>
          (case (if isFollower then updateFollowerLEO replicaID fetchOffset p else Some p) of
             None \<Rightarrow> None
           | Some p \<Rightarrow>
               let hw = pt_highWatermark p in
               if \<not> allowOversizedFirstBatch \<and> rw_Bytes raw > sint maxBytes then Some (nothing p, p)
               else if \<not> isFollower \<and> rw_FetchedUpTo raw > hw
               then (case cap_ranges hw (rw_Ranges raw) [] 0 fetchOffset of
                   None \<Rightarrow> Some (Inl (Wrapped OtherError), p)
                 | Some (capped, n, upTo) \<Rightarrow>
                     Some (Inr \<lparr>fg_Ranges = capped, fg_RecordsSize = n, fg_HighWatermark = hw,
                               fg_LogStartOffset = logStart, fg_FetchedUpTo = upTo\<rparr>, p))
               else Some (Inr \<lparr>fg_Ranges = rw_Ranges raw, fg_RecordsSize = rw_Bytes raw, fg_HighWatermark = hw,
                               fg_LogStartOffset = logStart, fg_FetchedUpTo = rw_FetchedUpTo raw\<rparr>, p)))"

text \<open>Closing a second time does nothing.  The result is what closing the log returned.\<close>

definition Partition_Close :: "(u64 \<Rightarrow> PairIO) \<Rightarrow> Partition \<Rightarrow> ((bool \<times> LogFiles option) \<times> Partition) option" where
  "Partition_Close io p =
     (if pt_closed p then Some ((True, None), p)
      else case on_purgatory (failPurgatory ErrStorageError) (p\<lparr>pt_closed := True\<rparr>) of
        None \<Rightarrow> None
      | Some p \<Rightarrow> let (ok, files) = Log_Close io (pt_log p) in Some ((ok, Some files), notifyWaiters p))"

end
