(* ===== verification/PartitionRep.thy ===== *)
theory PartitionRep
  imports Partition
begin

text \<open>
  The invariant of a partition replica and what each operation does to it.  The high watermark stays between the
  start and the end of the log, and the requests in the purgatory are exactly those above it.
\<close>

section \<open>The invariant\<close>

definition waiting :: "Partition \<Rightarrow> ptr set" where
  "waiting p = set (ph_items (pt_purgatory p))"

abbreviation required :: "Partition \<Rightarrow> ptr \<Rightarrow> u64" where
  "required p e \<equiv> required_at (pt_purgatory p) e"

definition part_ok :: "Partition \<Rightarrow> bytes list list \<Rightarrow> bool" where
  "part_ok p bss \<longleftrightarrow>
     log_rep (pt_log p) bss \<and> purgatory_ok (pt_purgatory p) \<and>
     OldestOffset (pt_log p) \<le> pt_highWatermark p \<and> pt_highWatermark p \<le> LEO p \<and>
     (\<forall>e\<in>waiting p. e < pt_allocated p \<and> pt_highWatermark p < required p e \<and> required p e \<le> LEO p) \<and>
     (waiting p \<noteq> {} \<longrightarrow> pt_isLeader p) \<and> (\<forall>e\<ge>pt_allocated p. \<not> pe_closed (ph_store (pt_purgatory p) e))"

text \<open>What a request that is completed finds: its watermark and its error.\<close>

definition completed :: "Partition \<Rightarrow> ptr \<Rightarrow> ErrorCode option \<Rightarrow> bool" where
  "completed p e err \<longleftrightarrow> snd (outcome (pt_purgatory p) e) = (True, err)"

lemma closed_outcome: "pe_closed (ph_store h e) \<longleftrightarrow> fst (snd (outcome h e))"
  by (simp add: outcome_def Let_def)

lemma required_outcome: "outcome (pt_purgatory p') e = outcome (pt_purgatory p) e \<Longrightarrow> required p' e = required p e"
  by (simp add: required_at_outcome)

section \<open>The high watermark\<close>

lemma min_leo_le: "min_leo i n isr \<le> n"
  by (induction i n isr rule: min_leo.induct) (auto intro: order_trans less_imp_le)

lemma min_leo_follower: "entry \<in> set isr \<Longrightarrow> ie_BrokerID entry \<noteq> i \<Longrightarrow> min_leo i n isr \<le> ie_LEO entry"
proof (induction i n isr rule: min_leo.induct)
  case (2 i n entry' isr)
  show ?case
  proof (cases "entry = entry'")
    case True
    have "min_leo i (if ie_LEO entry' < n then ie_LEO entry' else n) isr \<le> (if ie_LEO entry' < n then ie_LEO entry' else n)"
      by (rule min_leo_le)
    also have "\<dots> \<le> ie_LEO entry'" by (simp add: not_less)
    finally show ?thesis using 2(4) True by simp
  next
    case False
    then show ?thesis using 2 by auto
  qed
qed simp

lemma min_leo_greatest:
  "m \<le> n \<Longrightarrow> (\<And>entry. entry \<in> set isr \<Longrightarrow> ie_BrokerID entry \<noteq> i \<Longrightarrow> m \<le> ie_LEO entry) \<Longrightarrow> m \<le> min_leo i n isr"
  by (induction i n isr rule: min_leo.induct) auto

text \<open>The watermark all in-sync replicas have reached.\<close>

definition in_sync_at :: "Partition \<Rightarrow> u64 \<Rightarrow> bool" where
  "in_sync_at p off \<longleftrightarrow> off \<le> LEO p \<and> (\<forall>entry\<in>set (pt_isr p). ie_BrokerID entry \<noteq> pt_localBrokerID p \<longrightarrow> off \<le> ie_LEO entry)"

lemma in_sync_min_leo: "in_sync_at p off \<longleftrightarrow> off \<le> min_leo (pt_localBrokerID p) (LEO p) (pt_isr p)"
proof
  assume "in_sync_at p off"
  then show "off \<le> min_leo (pt_localBrokerID p) (LEO p) (pt_isr p)" unfolding in_sync_at_def by (intro min_leo_greatest) auto
next
  assume "off \<le> min_leo (pt_localBrokerID p) (LEO p) (pt_isr p)"
  then show "in_sync_at p off" unfolding in_sync_at_def using min_leo_le min_leo_follower order_trans by blast
qed

text \<open>The parts of the state an advance does not touch.\<close>

definition same_role :: "Partition \<Rightarrow> Partition \<Rightarrow> bool" where
  "same_role p p' \<longleftrightarrow> pt_log p' = pt_log p \<and> pt_isLeader p' = pt_isLeader p \<and> pt_leaderEpoch p' = pt_leaderEpoch p \<and>
     pt_leaderID p' = pt_leaderID p \<and> pt_localBrokerID p' = pt_localBrokerID p \<and> pt_isr p' = pt_isr p \<and>
     pt_allocated p' = pt_allocated p \<and> pt_closed p' = pt_closed p"

lemma same_role_refl [simp]: "same_role p p"
  by (simp add: same_role_def)

text \<open>Draining the purgatory up to a new watermark.\<close>

definition drained :: "Partition \<Rightarrow> u64 \<Rightarrow> Partition \<Rightarrow> bool" where
  "drained p hw p' \<longleftrightarrow> pt_highWatermark p' = hw \<and> waiting p' = {e \<in> waiting p. hw < required p e} \<and>
     outcome (pt_purgatory p') =
       (\<lambda>e. if e \<in> waiting p \<and> required p e \<le> hw then (required p e, True, None) else outcome (pt_purgatory p) e)"

lemma part_ok_drain:
  assumes ok: "part_ok p bss" and hw: "pt_highWatermark p \<le> hw" "hw \<le> LEO p"
  shows "\<exists>p'. on_purgatory (drainPurgatory hw) (p\<lparr>pt_highWatermark := hw\<rparr>) = Some p' \<and>
    part_ok p' bss \<and> part_ok (notifyWaiters p') bss \<and> same_role p p' \<and> drained p hw p'"
proof -
  obtain h where h: "drainPurgatory hw (pt_purgatory p) = Some h" "purgatory_ok h" "set (ph_items h) = {e \<in> waiting p. hw < required p e}"
      "outcome h = (\<lambda>e. if e \<in> waiting p \<and> required p e \<le> hw then (required p e, True, None) else outcome (pt_purgatory p) e)"
    using drain_rep [of "pt_purgatory p" hw] ok by (auto simp: part_ok_def waiting_def)
  have "required (p\<lparr>pt_highWatermark := hw, pt_purgatory := h\<rparr>) e = required p e" for e
    by (simp add: required_at_outcome h(4))
  then show ?thesis
    using h ok hw by (auto simp: on_purgatory_def part_ok_def waiting_def same_role_def drained_def LEO_def notifyWaiters_def closed_outcome)
qed

lemma drained_same: "part_ok p bss \<Longrightarrow> drained p (pt_highWatermark p) p"
  by (auto simp: drained_def part_ok_def fun_eq_iff)

lemma maybeAdvanceHW_rep:
  assumes ok: "part_ok p bss"
  defines "hw \<equiv> (if pt_isLeader p \<and> pt_isr p \<noteq> [] then max (pt_highWatermark p) (min_leo (pt_localBrokerID p) (LEO p) (pt_isr p))
    else pt_highWatermark p)"
  shows "\<exists>p'. maybeAdvanceHW p = Some p' \<and> part_ok p' bss \<and> same_role p p' \<and> drained p hw p'"
proof (cases "pt_isLeader p \<and> pt_isr p \<noteq> []")
  case False
  then have "maybeAdvanceHW p = Some p" by (auto simp: maybeAdvanceHW_def)
  then show ?thesis using False ok drained_same [OF ok] by (auto simp: hw_def)
next
  case True
  let ?m = "min_leo (pt_localBrokerID p) (LEO p) (pt_isr p)"
  have le: "pt_highWatermark p \<le> LEO p" "?m \<le> LEO p" using ok min_leo_le by (auto simp: part_ok_def)
  have lift: "same_role p (notifyWaiters q) \<longleftrightarrow> same_role p q" "drained p k (notifyWaiters q) \<longleftrightarrow> drained p k q" for q k
    by (simp_all add: same_role_def drained_def notifyWaiters_def waiting_def)
  show ?thesis
  proof (cases "?m \<le> pt_highWatermark p")
    case le': True
    have "p\<lparr>pt_highWatermark := pt_highWatermark p\<rparr> = p" by simp
    then show ?thesis
      using part_ok_drain [OF ok order_refl le(1)] True le' by (auto simp: maybeAdvanceHW_def hw_def LEO_def max_def)
  next
    case gt: False
    then have "pt_highWatermark p \<le> ?m" by simp
    from part_ok_drain [OF ok this le(2)] obtain p' where
      "on_purgatory (drainPurgatory ?m) (p\<lparr>pt_highWatermark := ?m\<rparr>) = Some p'" "part_ok (notifyWaiters p') bss" "same_role p p'" "drained p ?m p'"
      by blast
    then show ?thesis
      using True gt by (intro exI [of _ "notifyWaiters p'"]) (auto simp: maybeAdvanceHW_def hw_def LEO_def max_def lift)
  qed
qed

section \<open>Frame facts\<close>

lemma log_next: "log_rep l bss \<Longrightarrow> unat (NextOffset l) = unat (OldestOffset l) + total_records (concat bss)"
  using log_rep_active by metis

lemma part_ok_frame [simp]:
  "part_ok (p\<lparr>pt_isr := isr\<rparr>) bss = part_ok p bss" "part_ok (notifyWaiters p) bss = part_ok p bss"
  "part_ok (p\<lparr>pt_closed := c\<rparr>) bss = part_ok p bss"
  by (simp_all add: part_ok_def waiting_def LEO_def notifyWaiters_def)

lemma waiting_frame [simp]:
  "waiting (p\<lparr>pt_isr := isr\<rparr>) = waiting p" "waiting (notifyWaiters p) = waiting p" "waiting (p\<lparr>pt_log := l\<rparr>) = waiting p"
  "waiting (p\<lparr>pt_closed := c\<rparr>) = waiting p" "waiting (p\<lparr>pt_highWatermark := hw\<rparr>) = waiting p"
  by (simp_all add: waiting_def notifyWaiters_def)

lemma notifyWaiters_sel [simp]:
  "pt_log (notifyWaiters p) = pt_log p" "pt_highWatermark (notifyWaiters p) = pt_highWatermark p" "pt_isLeader (notifyWaiters p) = pt_isLeader p"
  "pt_isr (notifyWaiters p) = pt_isr p" "pt_purgatory (notifyWaiters p) = pt_purgatory p" "pt_localBrokerID (notifyWaiters p) = pt_localBrokerID p"
  "pt_allocated (notifyWaiters p) = pt_allocated p" "pt_leaderEpoch (notifyWaiters p) = pt_leaderEpoch p" "pt_leaderID (notifyWaiters p) = pt_leaderID p"
  "pt_closed (notifyWaiters p) = pt_closed p"
  by (simp_all add: notifyWaiters_def)

lemma part_ok_log:
  assumes "part_ok p bss" and "log_rep l bss'" and "OldestOffset l = OldestOffset (pt_log p)" and "NextOffset (pt_log p) \<le> NextOffset l"
  shows "part_ok (p\<lparr>pt_log := l\<rparr>) bss'"
  using assms by (auto simp: part_ok_def waiting_def LEO_def intro: order_trans)

lemma part_ok_log_same:
  assumes "part_ok p bss" and "log_rep l bss'" and "OldestOffset l = OldestOffset (pt_log p)" and "concat bss' = concat bss"
  shows "part_ok (p\<lparr>pt_log := l\<rparr>) bss'" and "NextOffset l = NextOffset (pt_log p)"
proof -
  have "log_rep (pt_log p) bss" using assms(1) by (simp add: part_ok_def)
  then show n: "NextOffset l = NextOffset (pt_log p)" using log_next assms(2-4) by (metis word_unat_eq_iff)
  show "part_ok (p\<lparr>pt_log := l\<rparr>) bss'" using part_ok_log [OF assms(1-3)] n by simp
qed

text \<open>Failing every waiting request.\<close>

lemma fail_all_rep:
  assumes "part_ok p bss"
  shows "\<exists>h. on_purgatory (failPurgatory err) (p\<lparr>pt_isLeader := b, pt_leaderEpoch := ep, pt_leaderID := i, pt_isr := isr\<rparr>) =
      Some (p\<lparr>pt_isLeader := b, pt_leaderEpoch := ep, pt_leaderID := i, pt_isr := isr, pt_purgatory := h\<rparr>) \<and>
    part_ok (p\<lparr>pt_isLeader := b, pt_leaderEpoch := ep, pt_leaderID := i, pt_isr := isr, pt_purgatory := h\<rparr>) bss \<and>
    ph_items h = [] \<and>
    outcome h = (\<lambda>e. if e \<in> waiting p then (required p e, True, Some err) else outcome (pt_purgatory p) e)"
proof -
  obtain h where "failPurgatory err (pt_purgatory p) = Some h" "purgatory_ok h" "ph_items h = []"
      "outcome h = (\<lambda>e. if e \<in> waiting p then (required p e, True, Some err) else outcome (pt_purgatory p) e)"
    using fail_rep [of "pt_purgatory p" err] assms by (auto simp: part_ok_def waiting_def)
  then show ?thesis using assms by (intro exI [of _ h]) (auto simp: on_purgatory_def part_ok_def waiting_def LEO_def closed_outcome)
qed

section \<open>Appending\<close>

text \<open>The log has room for the records: its offsets and the fields of its indexes do not overflow.\<close>

definition append_fits :: "Log \<Rightarrow> bytes \<Rightarrow> bool" where
  "append_fits l data \<longleftrightarrow> (\<forall>bss ds. log_rep l bss \<longrightarrow> data = concat ds \<longrightarrow> list_all scannable ds \<longrightarrow>
     unat (NextOffset l) + total_records ds < 2 ^ 64 \<and> pair_small (last bss @ ds))"

lemma AppendRaw_any:
  assumes rep: "log_rep l bss" and fit: "append_fits l data"
  shows "\<exists>r l'. AppendRaw io data epoch l = Some (r, l') \<and> same_log l l' \<and>
    (case r of
       Inl _ \<Rightarrow> (\<exists>bss'. log_rep l' bss' \<and> concat bss' = concat bss)
     | Inr (off, lod) \<Rightarrow> off = NextOffset l \<and> (\<exists>ds bss'. data = concat ds \<and> ds \<noteq> [] \<and> list_all scannable ds \<and>
         unat lod + 1 = total_records ds \<and> log_rep l' bss' \<and> concat bss' = concat bss @ stamp_all (unat off) epoch ds \<and>
         unat (NextOffset l) + total_records ds < 2 ^ 64))"
proof (cases "scanRawBatches data")
  case (Inl e)
  then show ?thesis using rep by (auto simp: AppendRaw_def)
next
  case (Inr bounds)
  then obtain ds where ds: "data = concat ds" "list_all scannable ds" "bounds = bounds_from 0 ds" by (auto simp: scanRawBatches_iff)
  have f: "unat (NextOffset l) + total_records ds < 2 ^ 64" "pair_small (last bss @ ds)" using fit rep ds(1,2) by (auto simp: append_fits_def)
  show ?thesis
  proof (cases "ds = [] \<or> (\<exists>d\<in>set ds. int (length d) > lc_MaxMessageBytes (lg_config l))")
    case True
    then have "\<exists>e. AppendRaw io data epoch l = Some (Inl e, l)"
      using Inr ds(3) bounds_sizes by (auto simp: AppendRaw_def)
    then show ?thesis using rep by auto
  next
    case False
    then have sizes: "\<forall>d\<in>set ds. int (length d) \<le> lc_MaxMessageBytes (lg_config l)" by force
    then obtain r l' where r: "AppendRaw io data epoch l = Some (r, l')" "same_log l l'"
      "case r of
         Inl _ \<Rightarrow> io_faulty io \<and> (\<exists>bss'. log_rep l' bss' \<and> concat bss' = concat bss)
       | Inr (off, lod) \<Rightarrow> off = NextOffset l \<and> unat lod + 1 = total_records ds \<and>
           (\<exists>bss'. log_rep l' bss' \<and> concat bss' = concat bss @ stamp_all (unat off) epoch ds)"
      using AppendRaw_rep [OF rep ds(2) _ sizes f, of io epoch] False ds(1) by blast
    show ?thesis
    proof (cases r)
      case (Inl e)
      then show ?thesis using r by auto
    next
      case (Inr x)
      then show ?thesis using r ds(1,2) False f(1) by (cases x) auto
    qed
  qed
qed

lemma AppendReplicaRaw_any:
  assumes rep: "log_rep l bss" and fit: "append_fits l data"
  shows "\<exists>r l'. AppendReplicaRaw io data fetchEpoch l = Some (r, l') \<and> OldestOffset l' = OldestOffset l \<and>
    (case r of
       Inl _ \<Rightarrow> (\<exists>bss'. log_rep l' bss' \<and> concat bss' = concat bss)
     | Inr n \<Rightarrow> (\<exists>ds bss'. data = concat ds \<and> list_all scannable ds \<and> log_rep l' bss' \<and>
         concat bss' = concat bss @ takeWhile (\<lambda>d. sint (hdr_epoch d) \<le> sint fetchEpoch) ds))"
proof (cases "scanRawBatches data")
  case (Inl e)
  then show ?thesis using rep by (auto simp: AppendReplicaRaw_def)
next
  case (Inr bounds)
  then obtain ds where ds: "data = concat ds" "list_all scannable ds" "bounds = bounds_from 0 ds" by (auto simp: scanRawBatches_iff)
  have f: "pair_small (last bss @ ds)" using fit rep ds(1,2) by (auto simp: append_fits_def)
  show ?thesis
  proof (cases "ds = []")
    case True
    then show ?thesis using Inr ds(3) rep by (auto simp: AppendReplicaRaw_def)
  next
    case False
    let ?acc = "takeWhile (\<lambda>d. sint (hdr_epoch d) \<le> sint fetchEpoch) ds"
    obtain r l' where r: "AppendReplicaRaw io data fetchEpoch l = Some (r, l')" "OldestOffset l' = OldestOffset l"
      "case r of
         Inl _ \<Rightarrow> (\<exists>bss'. log_rep l' bss' \<and> concat bss' = concat bss)
       | Inr n \<Rightarrow> unat n = total_records ?acc \<and> (\<exists>bss'. log_rep l' bss' \<and> concat bss' = concat bss @ ?acc) \<and>
           (?acc \<noteq> [] \<longrightarrow> replay_loop (lg_epochCache l) (epoch_changes None ?acc) = Inr (lg_epochCache l'))"
      using AppendReplicaRaw_rep [OF rep ds(2) False f refl, of io fetchEpoch] ds(1) by blast
    then show ?thesis
      using ds(1,2) by (intro exI [of _ r] exI [of _ l'] conjI) (simp, simp, cases r, simp, auto)
  qed
qed

section \<open>Completing requests\<close>

text \<open>A step never takes back an answer, and it acknowledges a request only when every in-sync replica has its records.\<close>

definition answers_kept :: "Partition \<Rightarrow> Partition \<Rightarrow> bool" where
  "answers_kept p p' \<longleftrightarrow>
     pt_allocated p \<le> pt_allocated p' \<and> (\<forall>e<pt_allocated p. required p' e = required p e) \<and>
     (\<forall>e x. completed p e x \<longrightarrow> completed p' e x \<and> required p' e = required p e)"

definition acks_sound :: "Partition \<Rightarrow> Partition \<Rightarrow> bool" where
  "acks_sound p p' \<longleftrightarrow> answers_kept p p' \<and>
     (\<forall>e. completed p' e None \<longrightarrow> \<not> completed p e None \<longrightarrow> in_sync_at p' (required p' e) \<and> required p' e \<le> pt_highWatermark p')"

text \<open>A step that acknowledges nothing.\<close>

definition quiet :: "Partition \<Rightarrow> Partition \<Rightarrow> bool" where
  "quiet p p' \<longleftrightarrow> answers_kept p p' \<and> (\<forall>e. completed p' e None \<longrightarrow> completed p e None)"

lemma answers_kept_trans: "answers_kept p q \<Longrightarrow> answers_kept q r \<Longrightarrow> answers_kept p r"
proof -
  assume a: "answers_kept p q" and b: "answers_kept q r"
  have "completed r e x \<and> required r e = required p e" if "completed p e x" for e x
  proof -
    have "completed q e x" "required q e = required p e" using a that by (auto simp: answers_kept_def)
    moreover from this have "completed r e x" "required r e = required q e" using b by (auto simp: answers_kept_def)
    ultimately show ?thesis by simp
  qed
  moreover have "pt_allocated p \<le> pt_allocated r" "\<forall>e<pt_allocated p. required r e = required p e" using a b by (simp_all add: answers_kept_def)
  ultimately show ?thesis by (simp add: answers_kept_def)
qed

lemma acks_sound_refl [simp]: "acks_sound p p"
  by (simp add: acks_sound_def answers_kept_def)

lemma quiet_refl [simp]: "quiet p p"
  by (simp add: quiet_def answers_kept_def)

lemma quiet_same: "pt_purgatory p' = pt_purgatory p \<Longrightarrow> pt_allocated p' = pt_allocated p \<Longrightarrow> quiet p p'"
  by (simp add: quiet_def answers_kept_def completed_def required_at_outcome)

lemma quiet_sound: "quiet p p' \<Longrightarrow> acks_sound p p'"
  by (simp add: quiet_def acks_sound_def)

lemma quiet_acks: "quiet p q \<Longrightarrow> acks_sound q r \<Longrightarrow> acks_sound p r"
  unfolding quiet_def acks_sound_def using answers_kept_trans by blast

lemma quiet_trans: "quiet p q \<Longrightarrow> quiet q r \<Longrightarrow> quiet p r"
  unfolding quiet_def using answers_kept_trans by blast

lemma acks_quiet:
  assumes "acks_sound p q" and "quiet q r" and "same_role q r" and "pt_highWatermark r = pt_highWatermark q"
  shows "acks_sound p r"
proof -
  have s: "in_sync_at r x = in_sync_at q x" for x using assms(3) by (simp add: in_sync_at_def same_role_def LEO_def)
  have "in_sync_at r (required r e) \<and> required r e \<le> pt_highWatermark r" if e: "completed r e None" "\<not> completed p e None" for e
  proof -
    have q: "completed q e None" using assms(2) e(1) by (simp add: quiet_def)
    then have "required r e = required q e" using assms(2) by (auto simp: quiet_def answers_kept_def)
    then show ?thesis using q assms(1,4) e(2) s by (simp add: acks_sound_def)
  qed
  then show ?thesis using assms(1,2) answers_kept_trans unfolding acks_sound_def quiet_def by blast
qed

lemma waiting_open: "part_ok p bss \<Longrightarrow> e \<in> waiting p \<Longrightarrow> snd (outcome (pt_purgatory p) e) = (False, None)"
  by (simp add: part_ok_def purgatory_ok_def waiting_def)

lemma not_waiting: "part_ok p bss \<Longrightarrow> completed p e x \<Longrightarrow> e \<notin> waiting p"
  using waiting_open by (fastforce simp: completed_def)

lemma drained_acks:
  assumes ok: "part_ok p bss" and d: "drained p hw p'" and r: "same_role p p'"
    and hw: "hw = pt_highWatermark p \<or> hw = min_leo (pt_localBrokerID p) (LEO p) (pt_isr p)"
  shows "acks_sound p p'"
proof -
  have out: "outcome (pt_purgatory p') e = (if e \<in> waiting p \<and> required p e \<le> hw then (required p e, True, None) else outcome (pt_purgatory p) e)" for e
    using d by (simp add: drained_def)
  have required_at': "required p' e = required p e" for e by (simp add: required_at_outcome out)
  have "in_sync_at p' (required p e) \<and> required p e \<le> pt_highWatermark p'" if "completed p' e None" "\<not> completed p e None" for e
  proof -
    have e: "e \<in> waiting p" "required p e \<le> hw" using that out [of e] by (auto simp: completed_def split: if_splits)
    then have "pt_highWatermark p < required p e" using ok by (simp add: part_ok_def)
    then have "hw = min_leo (pt_localBrokerID p) (LEO p) (pt_isr p)" using hw e(2) by auto
    then have "in_sync_at p (required p e)" using e(2) in_sync_min_leo by simp
    then show ?thesis using e(2) d r by (auto simp: in_sync_at_def same_role_def drained_def LEO_def)
  qed
  moreover have "completed p' e x" if "completed p e x" for e x
    using not_waiting [OF ok that] that out [of e] by (simp add: completed_def)
  ultimately show ?thesis using r by (simp add: acks_sound_def answers_kept_def required_at' same_role_def)
qed

lemma maybeAdvanceHW_sound:
  assumes "part_ok p bss"
  shows "\<exists>p'. maybeAdvanceHW p = Some p' \<and> part_ok p' bss \<and> same_role p p' \<and> acks_sound p p' \<and> pt_highWatermark p \<le> pt_highWatermark p'"
proof -
  define hw where "hw = (if pt_isLeader p \<and> pt_isr p \<noteq> [] then max (pt_highWatermark p) (min_leo (pt_localBrokerID p) (LEO p) (pt_isr p))
    else pt_highWatermark p)"
  obtain p' where p': "maybeAdvanceHW p = Some p'" "part_ok p' bss" "same_role p p'" "drained p hw p'"
    using maybeAdvanceHW_rep [OF assms] unfolding hw_def by blast
  moreover have "hw = pt_highWatermark p \<or> hw = min_leo (pt_localBrokerID p) (LEO p) (pt_isr p)" by (auto simp: hw_def max_def)
  moreover have "pt_highWatermark p \<le> hw" by (simp add: hw_def)
  moreover have "pt_highWatermark p' = hw" using p'(4) by (simp add: drained_def)
  ultimately show ?thesis using drained_acks [OF assms p'(4,3)] by auto
qed

lemma updateFollowerLEO_sound:
  assumes "part_ok p bss"
  shows "\<exists>p'. updateFollowerLEO i leo p = Some p' \<and> part_ok p' bss \<and> acks_sound p p' \<and> pt_highWatermark p \<le> pt_highWatermark p' \<and>
    same_role (p\<lparr>pt_isr := set_leo i leo (pt_isr p)\<rparr>) p'"
proof -
  let ?p = "p\<lparr>pt_isr := set_leo i leo (pt_isr p)\<rparr>"
  have "part_ok ?p bss" using assms by simp
  from maybeAdvanceHW_sound [OF this] show ?thesis
    using quiet_acks [OF quiet_same [of ?p p]] by (auto simp: updateFollowerLEO_def)
qed

lemma add_waiter_rep:
  assumes ok: "part_ok p bss" and lead: "pt_isLeader p" and r: "pt_highWatermark p < r" "r \<le> LEO p"
  shows "\<exists>p'. add_waiter r p = (pt_allocated p, p') \<and> part_ok p' bss \<and> waiting p' = insert (pt_allocated p) (waiting p) \<and> quiet p p' \<and>
    required p' (pt_allocated p) = r \<and> p' = p\<lparr>pt_purgatory := pt_purgatory p', pt_allocated := Suc (pt_allocated p)\<rparr>"
proof -
  let ?e = "pt_allocated p" and ?h = "pt_purgatory p"
  define h where "h = ?h\<lparr>ph_store := (ph_store ?h)(?e := \<lparr>pe_requiredHW = r, pe_closed = False, pe_err = None, pe_index = 0\<rparr>)\<rparr>"
  have pk: "purgatory_ok ?h" and fresh: "?e \<notin> set (ph_items ?h)" and op: "\<not> pe_closed (ph_store ?h ?e)"
    using ok by (auto simp: part_ok_def waiting_def)
  have out: "outcome h = (outcome ?h)(?e := (r, False, None))" by (auto simp: h_def outcome_def Let_def)
  have "heap_ok h"
  proof -
    have ne: "ph_items ?h ! i \<noteq> ?e" if "i < length (ph_items ?h)" for i using fresh that nth_mem by metis
    have "heap_key h i = heap_key ?h i" if "i < length (ph_items ?h)" for i using ne [OF that] by (simp add: heap_key_def required_at_def h_def)
    then show ?thesis using pk ne by (auto simp: purgatory_ok_def heap_ok_def heap_on_def indexed_def h_def)
  qed
  then have pk': "purgatory_ok h" using pk fresh out by (auto simp: purgatory_ok_def h_def)
  have fresh': "?e \<notin> set (ph_items h)" "snd (outcome h ?e) = (False, None)" using fresh out by (simp_all add: h_def)
  have push: "purgatory_ok (Push h ?e)" "set (ph_items (Push h ?e)) = insert ?e (waiting p)" "outcome (Push h ?e) = outcome h"
    using push_rep [OF pk' fresh'] by (simp_all add: waiting_def h_def)
  define p' where "p' = p\<lparr>pt_purgatory := Push h ?e, pt_allocated := Suc ?e\<rparr>"
  have required_at': "required p' e = (if e = ?e then r else required p e)" for e
    by (simp add: p'_def required_at_outcome push(3) out)
  have "part_ok p' bss"
    using ok push lead r required_at' by (auto simp: part_ok_def p'_def waiting_def LEO_def closed_outcome out required_at_outcome less_Suc_eq)
  moreover have "quiet p p'"
  proof -
    have "\<not> completed p ?e x" for x using op by (simp add: completed_def closed_outcome prod_eq_iff)
    then show ?thesis by (auto simp: quiet_def answers_kept_def completed_def p'_def push(3) out required_at_outcome)
  qed
  moreover have "add_waiter r p = (?e, p')" by (simp add: add_waiter_def p'_def h_def Let_def)
  moreover have "waiting p' = insert ?e (waiting p)" using push(2) by (simp add: p'_def waiting_def)
  ultimately show ?thesis using required_at' [of ?e] by (intro exI [of _ p']) (simp add: p'_def)
qed

lemma expire_sound:
  assumes "part_ok p bss"
  shows "\<exists>p'. expire_request e p = Some p' \<and> part_ok p' bss \<and> same_role p p' \<and> quiet p p' \<and> pt_highWatermark p' = pt_highWatermark p \<and>
    waiting p' = waiting p - {e} \<and> (e \<in> waiting p \<longrightarrow> completed p' e (Some ErrRequestTimedOut))"
proof -
  obtain h where h: "expire (pt_purgatory p) e = Some h" "purgatory_ok h" "set (ph_items h) = waiting p - {e}"
      "outcome h = (if e \<in> waiting p then (outcome (pt_purgatory p))(e := (required p e, True, Some ErrRequestTimedOut)) else outcome (pt_purgatory p))"
    using expire_rep [of "pt_purgatory p" e] assms by (auto simp: part_ok_def waiting_def)
  let ?p = "p\<lparr>pt_purgatory := h\<rparr>"
  have required_at': "required ?p x = required p x" for x by (simp add: required_at_outcome h(4))
  have "part_ok ?p bss" using assms h required_at' by (auto simp: part_ok_def waiting_def LEO_def closed_outcome)
  moreover have "quiet p ?p" using required_at' not_waiting [OF assms] h(4) by (auto simp: quiet_def answers_kept_def completed_def split: if_splits)
  ultimately show ?thesis using h by (auto simp: expire_request_def on_purgatory_def same_role_def waiting_def completed_def)
qed

section \<open>The leader's append\<close>

definition same_assignment :: "Partition \<Rightarrow> Partition \<Rightarrow> bool" where
  "same_assignment p p' \<longleftrightarrow> pt_isLeader p' = pt_isLeader p \<and> pt_leaderEpoch p' = pt_leaderEpoch p \<and> pt_leaderID p' = pt_leaderID p \<and>
     pt_localBrokerID p' = pt_localBrokerID p \<and> pt_closed p' = pt_closed p"

lemma same_assignment_refl [simp]: "same_assignment p p"
  by (simp add: same_assignment_def)

lemma same_assignment_trans: "same_assignment p q \<Longrightarrow> same_assignment q r \<Longrightarrow> same_assignment p r"
  by (simp add: same_assignment_def)

lemma same_role_assignment: "same_role p p' \<Longrightarrow> same_assignment p p'"
  by (simp add: same_role_def same_assignment_def)

text \<open>The end of an append: a waiter for acks=all, the advance of the watermark, and the check of the context.\<close>

definition finish_append :: "bool \<Rightarrow> ptr option \<Rightarrow> Partition \<Rightarrow> Partition option" where
  "finish_append ctxDone entry p =
     (case maybeAdvanceHW p of
        None \<Rightarrow> None
      | Some p \<Rightarrow>
          (case entry of
             None \<Rightarrow> Some p
           | Some e \<Rightarrow> if \<not> pe_closed (ph_store (pt_purgatory p) e) \<and> ctxDone then expire_request e p else Some p))"

lemma finish_append_sound:
  assumes ok: "part_ok p bss"
  shows "\<exists>p'. finish_append ctxDone entry p = Some p' \<and> part_ok p' bss \<and> same_role p p' \<and> acks_sound p p' \<and> pt_highWatermark p \<le> pt_highWatermark p'"
proof -
  obtain p1 where p1: "maybeAdvanceHW p = Some p1" "part_ok p1 bss" "same_role p p1" "acks_sound p p1" "pt_highWatermark p \<le> pt_highWatermark p1"
    using maybeAdvanceHW_sound [OF ok] by blast
  show ?thesis
  proof (cases "\<exists>e. entry = Some e \<and> \<not> pe_closed (ph_store (pt_purgatory p1) e) \<and> ctxDone")
    case True
    then obtain e where e: "entry = Some e" "\<not> pe_closed (ph_store (pt_purgatory p1) e)" "ctxDone" by blast
    obtain p2 where "expire_request e p1 = Some p2" "part_ok p2 bss" "same_role p1 p2" "quiet p1 p2" "pt_highWatermark p2 = pt_highWatermark p1"
      using expire_sound [OF p1(2)] by blast
    then show ?thesis using e p1 acks_quiet [OF p1(4)] by (auto simp: finish_append_def same_role_def)
  next
    case False
    then have "finish_append ctxDone entry p = Some p1" using p1(1) by (cases entry) (auto simp: finish_append_def)
    then show ?thesis using p1 by blast
  qed
qed

lemma AppendRaw_finish:
  assumes "pt_isLeader p" "\<not> pt_closed p" "recordBatchOverhead \<le> length data" "acks = AcksNone \<or> acks = AcksLeader \<or> acks = AcksAll"
    and "AppendRaw io data (pt_leaderEpoch p) (pt_log p) = Some (Inr (off, lod), l)"
    and "await_hw acks (off + ucast lod + 1) (notifyWaiters (p\<lparr>pt_log := l\<rparr>)) = (entry, q)"
  shows "Partition_AppendRaw io ctxDone data acks p =
    map_option (Pair (Inr \<lparr>ar_FirstOffset = off, ar_entry = entry\<rparr>)) (finish_append ctxDone entry q)"
  using assms by (auto simp: Partition_AppendRaw_def finish_append_def Let_def split: option.split)

definition appended_to :: "Partition \<Rightarrow> bytes list list \<Rightarrow> bytes \<Rightarrow> i16 \<Rightarrow> PartitionError + AppendResult \<Rightarrow> Partition \<Rightarrow> bytes list list \<Rightarrow> bool" where
  "appended_to p bss data acks r p' bss' \<longleftrightarrow>
     (case r of
        Inl _ \<Rightarrow> concat bss' = concat bss
      | Inr a \<Rightarrow> pt_isLeader p \<and> \<not> pt_closed p \<and> ar_FirstOffset a = LEO p \<and>
          (\<exists>ds. data = concat ds \<and> ds \<noteq> [] \<and> list_all scannable ds \<and>
             concat bss' = concat bss @ stamp_all (unat (LEO p)) (pt_leaderEpoch p) ds \<and>
             (ar_entry a = None \<longleftrightarrow> acks \<noteq> AcksAll) \<and>
             (\<forall>e. ar_entry a = Some e \<longrightarrow> e = pt_allocated p \<and> unat (required p' e) = unat (LEO p) + total_records ds)))"

lemma total_stamp_all: "list_all raw_ok ds \<Longrightarrow> total_records (stamp_all o' epoch ds) = total_records ds"
  by (induction ds arbitrary: o') (simp_all add: raw_ok_16)

lemma part_ok_appended:
  assumes ok: "part_ok p bss" and l: "same_log (pt_log p) l" "log_rep l bss'" "concat bss' = concat bss @ stamp_all o' epoch ds"
    and ds: "list_all scannable ds" "ds \<noteq> []" "unat (LEO p) + total_records ds < 2 ^ 64" and lod: "unat lod + 1 = total_records ds"
  shows "part_ok (notifyWaiters (p\<lparr>pt_log := l\<rparr>)) bss'" and "NextOffset l = LEO p + ucast (lod :: u32) + 1"
    and "pt_highWatermark p < NextOffset l" and "unat (NextOffset l) = unat (LEO p) + total_records ds"
proof -
  have n: "unat (NextOffset l) = unat (LEO p) + total_records ds"
    using log_next [OF l(2)] log_next [of "pt_log p" bss] ok l(1,3) total_stamp_all [OF scannable_raw [OF ds(1)], of o' epoch]
    by (simp add: part_ok_def same_log_def LEO_def)
  then show "unat (NextOffset l) = unat (LEO p) + total_records ds" .
  have "unat (LEO p + word_of_nat (total_records ds)) = unat (LEO p) + total_records ds" using ds(3) by (rule unat_add_nat)
  then have "NextOffset l = LEO p + word_of_nat (total_records ds)" using n by (simp add: word_unat_eq_iff)
  also have "word_of_nat (total_records ds) = (ucast lod + 1 :: u64)" using lod by (simp flip: lod add: unsigned_ucast_eq)
  finally show "NextOffset l = LEO p + ucast lod + 1" by (simp add: add.assoc)
  have lt: "LEO p < NextOffset l" using n total_pos [OF ds(2)] by (simp add: word_less_nat_alt)
  then show "pt_highWatermark p < NextOffset l" using ok by (auto simp: part_ok_def)
  have "part_ok (p\<lparr>pt_log := l\<rparr>) bss'"
    by (rule part_ok_log [OF ok l(2)]) (use l(1) lt in \<open>auto simp: same_log_def LEO_def\<close>)
  then show "part_ok (notifyWaiters (p\<lparr>pt_log := l\<rparr>)) bss'" by simp
qed

lemma Partition_AppendRaw_sound:
  assumes ok: "part_ok p bss" and fit: "append_fits (pt_log p) data"
  shows "\<exists>r p' bss'. Partition_AppendRaw io ctxDone data acks p = Some (r, p') \<and> part_ok p' bss' \<and> appended_to p bss data acks r p' bss' \<and>
    acks_sound p p' \<and> pt_highWatermark p \<le> pt_highWatermark p' \<and> same_assignment p p' \<and> pt_isr p' = pt_isr p"
proof (cases "pt_isLeader p \<and> \<not> pt_closed p \<and> recordBatchOverhead \<le> length data \<and> (acks = AcksNone \<or> acks = AcksLeader \<or> acks = AcksAll)")
  case False
  then have "\<exists>e. Partition_AppendRaw io ctxDone data acks p = Some (Inl e, p)" by (auto simp: Partition_AppendRaw_def)
  then show ?thesis using ok by (fastforce simp: appended_to_def)
next
  case True
  have rep: "log_rep (pt_log p) bss" using ok by (simp add: part_ok_def)
  obtain r l where r: "AppendRaw io data (pt_leaderEpoch p) (pt_log p) = Some (r, l)" "same_log (pt_log p) l"
    and c: "case r of
       Inl _ \<Rightarrow> (\<exists>bss'. log_rep l bss' \<and> concat bss' = concat bss)
     | Inr (off, lod) \<Rightarrow> off = NextOffset (pt_log p) \<and> (\<exists>ds bss'. data = concat ds \<and> ds \<noteq> [] \<and> list_all scannable ds \<and>
         unat lod + 1 = total_records ds \<and> log_rep l bss' \<and> concat bss' = concat bss @ stamp_all (unat off) (pt_leaderEpoch p) ds \<and>
         unat (NextOffset (pt_log p)) + total_records ds < 2 ^ 64)"
    using AppendRaw_any [OF rep fit, of io "pt_leaderEpoch p"] by blast
  show ?thesis
  proof (cases r)
    case (Inl e)
    then obtain bss' where b: "log_rep l bss'" "concat bss' = concat bss" using c by auto
    have "OldestOffset l = OldestOffset (pt_log p)" using r(2) by (simp add: same_log_def)
    then have "part_ok (p\<lparr>pt_log := l\<rparr>) bss'" using part_ok_log_same [OF ok b(1) _ b(2)] by simp
    moreover have "Partition_AppendRaw io ctxDone data acks p = Some (Inl (raw_error e), p\<lparr>pt_log := l\<rparr>)"
      using True r Inl by (auto simp: Partition_AppendRaw_def)
    moreover have "acks_sound p (p\<lparr>pt_log := l\<rparr>)" by (rule quiet_sound [OF quiet_same]) simp_all
    ultimately show ?thesis using b(2) by (auto simp: appended_to_def same_assignment_def)
  next
    case (Inr x)
    obtain off lod where x: "x = (off, lod)" by (cases x)
    with Inr c obtain ds bss' where off: "off = LEO p" and ds: "data = concat ds" "ds \<noteq> []" "list_all scannable ds" "unat lod + 1 = total_records ds"
      and l: "log_rep l bss'" "concat bss' = concat bss @ stamp_all (unat (LEO p)) (pt_leaderEpoch p) ds" and lt: "unat (LEO p) + total_records ds < 2 ^ 64"
      by (auto simp: LEO_def)
    let ?q = "notifyWaiters (p\<lparr>pt_log := l\<rparr>)"
    note a = part_ok_appended [OF ok r(2) l ds(3,2) lt ds(4)]
    obtain entry q where w: "await_hw acks (off + ucast lod + 1) ?q = (entry, q)" by fastforce
    have q: "part_ok q bss' \<and> quiet p q \<and> (entry = None \<longleftrightarrow> acks \<noteq> AcksAll) \<and> same_assignment p q \<and> pt_isr q = pt_isr p \<and>
      pt_highWatermark q = pt_highWatermark p \<and>
      (\<forall>e. entry = Some e \<longrightarrow> e = pt_allocated p \<and> e < pt_allocated q \<and> required q e = NextOffset l)"
    proof (cases "acks = AcksAll")
      case all: True
      have lead: "pt_isLeader ?q" and leo: "LEO ?q = NextOffset l" using True by (simp_all add: LEO_def)
      from add_waiter_rep [OF a(1) lead, of "NextOffset l"] a(3) leo obtain q' where q': "add_waiter (NextOffset l) ?q = (pt_allocated p, q')"
        "part_ok q' bss'" "quiet ?q q'" "required q' (pt_allocated p) = NextOffset l"
        "q' = ?q\<lparr>pt_purgatory := pt_purgatory q', pt_allocated := Suc (pt_allocated ?q)\<rparr>" by auto
      have eq: "pt_isr q' = pt_isr p \<and> same_assignment p q' \<and> pt_highWatermark q' = pt_highWatermark p \<and> pt_allocated p < pt_allocated q'"
        by (subst (1 2 3 4) q'(5)) (simp add: same_assignment_def)
      have "entry = Some (pt_allocated p)" "q = q'" using w all q'(1) a(2) off by (simp_all add: await_hw_def)
      then show ?thesis using q' all eq quiet_trans [OF quiet_same q'(3), of p] by simp
    next
      case F: False
      then have "entry = None" "q = ?q" using w by (simp_all add: await_hw_def)
      then show ?thesis using F a(1) quiet_same [of ?q p] by (simp add: same_assignment_def)
    qed
    obtain p' where p': "finish_append ctxDone entry q = Some p'" "part_ok p' bss'" "same_role q p'" "acks_sound q p'" "pt_highWatermark q \<le> pt_highWatermark p'"
      using finish_append_sound [of q bss' ctxDone entry] q by blast
    have "Partition_AppendRaw io ctxDone data acks p = Some (Inr \<lparr>ar_FirstOffset = off, ar_entry = entry\<rparr>, p')"
      using AppendRaw_finish [of p data acks io off lod l entry q ctxDone] True r(1) Inr x w p'(1) by simp
    moreover have "acks_sound p p'" using quiet_acks q p'(4) by blast
    moreover have "appended_to p bss data acks (Inr \<lparr>ar_FirstOffset = off, ar_entry = entry\<rparr>) p' bss'"
    proof -
      have "unat (required p' e) = unat (LEO p) + total_records ds" if "entry = Some e" for e
      proof -
        have "e < pt_allocated q" using q that by simp
        then have "required p' e = required q e" using p'(4) by (simp add: acks_sound_def answers_kept_def)
        then show ?thesis using q that a(4) by simp
      qed
      then show ?thesis unfolding appended_to_def using True off ds l(2) q by auto
    qed
    moreover have "same_assignment p p'" "pt_isr p' = pt_isr p" "pt_highWatermark p \<le> pt_highWatermark p'"
      using q p'(3,5) same_assignment_trans [OF _ same_role_assignment [OF p'(3)], of p] by (simp_all add: same_role_def)
    ultimately show ?thesis using p'(2) by blast
  qed
qed

end
