(* ===== verification/PartitionSteps.thy ===== *)
theory PartitionSteps
  imports PartitionRep
begin

text \<open>
  The steps of a partition replica: every operation the broker performs on it, as a relation on states.  Every
  reachable state satisfies the invariant, and acknowledgements are sound in every step.
\<close>

section \<open>Roles\<close>

lemma AssignLeaderEpoch_frame: "\<exists>r c d f. AssignLeaderEpoch io epoch off l = Some (r, with_epochs l c d f)"
proof (cases "Assign (lg_epochCache l) epoch off")
  case (Inl e)
  then show ?thesis using with_epochs_id [of l] by (auto simp: AssignLeaderEpoch_def lbind_def assign_epoch_cases)
next
  case (Inr x)
  obtain ch c where x: "x = (ch, c)" by (cases x)
  obtain r d f where "persistEpochCheckpointLocked io (with_epochs l c (lg_dirty l \<or> ch) (lg_fs l)) = Some (r, with_epochs l c d f)"
    using persist_frame [of io "with_epochs l c (lg_dirty l \<or> ch) (lg_fs l)"] by auto
  then show ?thesis using Inr x by (auto simp: AssignLeaderEpoch_def lbind_def assign_epoch_cases)
qed

text \<open>Giving up leadership answers every waiting request with an error.\<close>

definition stepped_down :: "Partition \<Rightarrow> Partition \<Rightarrow> bool" where
  "stepped_down p p' \<longleftrightarrow> \<not> pt_isLeader p' \<and> pt_isr p' = [] \<and> waiting p' = {} \<and> pt_highWatermark p' = pt_highWatermark p \<and>
     pt_localBrokerID p' = pt_localBrokerID p \<and> (\<forall>e\<in>waiting p. completed p' e (Some ErrNotLeaderOrFollower))"

lemma step_down_sound:
  assumes ok: "part_ok p bss"
  shows "\<exists>p'. on_purgatory (failPurgatory ErrNotLeaderOrFollower)
        (p\<lparr>pt_isLeader := False, pt_leaderEpoch := ep, pt_leaderID := i, pt_isr := []\<rparr>) = Some p' \<and>
    part_ok p' bss \<and> quiet p p' \<and> stepped_down p p' \<and> pt_log p' = pt_log p \<and> pt_leaderEpoch p' = ep \<and> pt_leaderID p' = i"
proof -
  obtain h where h: "on_purgatory (failPurgatory ErrNotLeaderOrFollower) (p\<lparr>pt_isLeader := False, pt_leaderEpoch := ep, pt_leaderID := i, pt_isr := []\<rparr>) =
        Some (p\<lparr>pt_isLeader := False, pt_leaderEpoch := ep, pt_leaderID := i, pt_isr := [], pt_purgatory := h\<rparr>)"
      "part_ok (p\<lparr>pt_isLeader := False, pt_leaderEpoch := ep, pt_leaderID := i, pt_isr := [], pt_purgatory := h\<rparr>) bss"
      "ph_items h = []" "outcome h = (\<lambda>e. if e \<in> waiting p then (required p e, True, Some ErrNotLeaderOrFollower) else outcome (pt_purgatory p) e)"
    using fail_all_rep [OF ok, where err = ErrNotLeaderOrFollower and b = False and ep = ep and i = i and isr = "[]"] by blast
  let ?p = "p\<lparr>pt_isLeader := False, pt_leaderEpoch := ep, pt_leaderID := i, pt_isr := [], pt_purgatory := h\<rparr>"
  have "quiet p ?p" using not_waiting [OF ok] by (auto simp: quiet_def answers_kept_def completed_def h(4) required_at_outcome split: if_splits)
  moreover have "stepped_down p ?p" by (simp add: stepped_down_def waiting_def h(3,4) completed_def)
  ultimately show ?thesis using h(1,2) by auto
qed

lemma stepped_down_notify [simp]: "stepped_down p (notifyWaiters p') \<longleftrightarrow> stepped_down p p'" "quiet p (notifyWaiters p') \<longleftrightarrow> quiet p p'"
  by (simp_all add: stepped_down_def quiet_def answers_kept_def completed_def)

lemma MakeFollower_sound:
  assumes "part_ok p bss"
  shows "\<exists>p'. MakeFollower epoch leaderID p = Some p' \<and> part_ok p' bss \<and> quiet p p' \<and> stepped_down p p' \<and> pt_log p' = pt_log p \<and>
    pt_leaderEpoch p' = epoch \<and> pt_leaderID p' = leaderID"
proof -
  obtain q where "on_purgatory (failPurgatory ErrNotLeaderOrFollower)
        (p\<lparr>pt_isLeader := False, pt_leaderEpoch := epoch, pt_leaderID := leaderID, pt_isr := []\<rparr>) = Some q"
    "part_ok q bss" "quiet p q" "stepped_down p q" "pt_log q = pt_log p" "pt_leaderEpoch q = epoch" "pt_leaderID q = leaderID"
    using step_down_sound [OF assms] by blast
  then show ?thesis by (intro exI [of _ "notifyWaiters q"]) (simp add: MakeFollower_def)
qed

lemma MakeUnassigned_sound:
  assumes "part_ok p bss"
  shows "\<exists>p'. MakeUnassigned p = Some p' \<and> part_ok p' bss \<and> quiet p p' \<and> stepped_down p p' \<and> pt_log p' = pt_log p \<and> pt_leaderID p' = - 1"
proof -
  have "p\<lparr>pt_isLeader := False, pt_leaderEpoch := pt_leaderEpoch p, pt_leaderID := - 1, pt_isr := []\<rparr> =
      p\<lparr>pt_isLeader := False, pt_leaderID := - 1, pt_isr := []\<rparr>" by simp
  then obtain q where "on_purgatory (failPurgatory ErrNotLeaderOrFollower) (p\<lparr>pt_isLeader := False, pt_leaderID := - 1, pt_isr := []\<rparr>) = Some q"
    "part_ok q bss" "quiet p q" "stepped_down p q" "pt_log q = pt_log p" "pt_leaderID q = - 1"
    using step_down_sound [OF assms, where ep = "pt_leaderEpoch p" and i = "- 1"] by auto
  then show ?thesis by (intro exI [of _ "notifyWaiters q"]) (simp add: MakeUnassigned_def)
qed

text \<open>The watermark a new leader starts with: its own, or any offset of its log if nobody waits.\<close>

definition start_hw :: "Partition \<Rightarrow> u64 \<Rightarrow> bool" where
  "start_hw p hw \<longleftrightarrow> hw = pt_highWatermark p \<or> waiting p = {} \<and> OldestOffset (pt_log p) \<le> hw \<and> hw \<le> LEO p"

lemma MakeLeader_sound:
  assumes ok: "part_ok p bss" and hw: "start_hw p hw"
  shows "\<exists>r p'. MakeLeader io epoch ids hw p = Some (r, p') \<and> part_ok p' bss \<and> quiet p p' \<and>
    (case r of
       Inl _ \<Rightarrow> p' = p \<or> stepped_down p p'
     | Inr _ \<Rightarrow> pt_isLeader p' \<and> pt_leaderEpoch p' = epoch \<and> pt_highWatermark p' = hw \<and> ISRSnapshot p' = ids \<and>
         (\<forall>latest. LatestLeaderEpoch (pt_log p) = Some latest \<longrightarrow> sint latest \<le> sint epoch))"
proof (cases "case LatestLeaderEpoch (pt_log p) of None \<Rightarrow> False | Some latest \<Rightarrow> sint epoch < sint latest")
  case True
  then have "MakeLeader io epoch ids hw p = Some (Inl (Wrapped OtherError), p)" by (simp add: MakeLeader_def)
  then show ?thesis using ok by simp
next
  case False
  define q where "q = (if \<not> pt_isLeader p \<or> sint epoch > sint (LeaderEpoch p) then p\<lparr>pt_isLeader := False\<rparr> else p)"
  obtain r c d f where a: "AssignLeaderEpoch io epoch (NextOffset (pt_log q)) (pt_log q) = Some (r, with_epochs (pt_log q) c d f)"
    using AssignLeaderEpoch_frame by blast
  have lq: "pt_log q = pt_log p" by (simp add: q_def)
  let ?l = "with_epochs (pt_log p) c d f"
  have rep: "log_rep ?l bss" "OldestOffset ?l = OldestOffset (pt_log p)" using ok by (simp_all add: part_ok_def)
  have okl: "part_ok (p\<lparr>pt_log := ?l\<rparr>) bss" using part_ok_log_same [OF ok rep] by simp
  show ?thesis
  proof (cases r)
    case (Inl e)
    let ?p = "p\<lparr>pt_log := ?l\<rparr>"
    have eq: "q\<lparr>pt_log := ?l, pt_isLeader := False, pt_leaderID := - 1, pt_isr := []\<rparr> =
        ?p\<lparr>pt_isLeader := False, pt_leaderEpoch := pt_leaderEpoch p, pt_leaderID := - 1, pt_isr := []\<rparr>" by (simp add: q_def)
    obtain p' where p': "on_purgatory (failPurgatory ErrNotLeaderOrFollower)
          (?p\<lparr>pt_isLeader := False, pt_leaderEpoch := pt_leaderEpoch p, pt_leaderID := - 1, pt_isr := []\<rparr>) = Some p'"
        "part_ok p' bss" "quiet ?p p'" "stepped_down ?p p'"
      using step_down_sound [OF okl] by blast
    have "quiet p p'" using quiet_trans [OF quiet_same p'(3), of p] by simp
    moreover have "stepped_down p p'" using p'(4) by (simp add: stepped_down_def)
    moreover have "MakeLeader io epoch ids hw p = Some (Inl (Wrapped e), notifyWaiters p')"
      unfolding MakeLeader_def Let_def q_def [symmetric] using False a lq Inl p'(1) eq by simp
    ultimately show ?thesis using p'(2) by simp
  next
    case (Inr u)
    define p' where "p' = q\<lparr>pt_log := ?l, pt_leaderEpoch := epoch, pt_leaderID := pt_localBrokerID q,
        pt_isr := map (\<lambda>id. \<lparr>ie_BrokerID = id, ie_LEO = 0\<rparr>) ids, pt_highWatermark := hw, pt_isLeader := True\<rparr>"
    have "MakeLeader io epoch ids hw p = Some (Inr (), notifyWaiters p')"
      unfolding MakeLeader_def Let_def q_def [symmetric] using False a lq Inr by (simp add: p'_def)
    moreover have sel: "pt_purgatory p' = pt_purgatory p" "pt_allocated p' = pt_allocated p" "pt_log p' = ?l" "pt_highWatermark p' = hw" "pt_isLeader p'"
      by (simp_all add: p'_def q_def)
    moreover have "part_ok p' bss" using ok hw rep sel by (auto simp: part_ok_def start_hw_def waiting_def LEO_def)
    moreover have "ISRSnapshot p' = ids" "pt_leaderEpoch p' = epoch" by (simp_all add: p'_def ISRSnapshot_def o_def)
    moreover have "\<forall>latest. LatestLeaderEpoch (pt_log p) = Some latest \<longrightarrow> sint latest \<le> sint epoch" using False by auto
    ultimately show ?thesis using quiet_same [of p' p] by (simp add: ISRSnapshot_def)
  qed
qed

lemma UpdateLeaderISR_sound:
  assumes ok: "part_ok p bss"
  shows "\<exists>r p'. UpdateLeaderISR epoch ids p = Some (r, p') \<and> part_ok p' bss \<and> acks_sound p p' \<and> pt_highWatermark p \<le> pt_highWatermark p' \<and>
    same_assignment p p' \<and> (r = Inr () \<longrightarrow> ISRSnapshot p' = ids)"
proof (cases "\<not> pt_isLeader p \<or> pt_leaderEpoch p \<noteq> epoch \<or> pt_leaderID p \<noteq> pt_localBrokerID p")
  case True
  then show ?thesis using ok by (auto simp: UpdateLeaderISR_def)
next
  case False
  let ?q = "p\<lparr>pt_isr := map (\<lambda>id. \<lparr>ie_BrokerID = id, ie_LEO = previous_leo (pt_isr p) id\<rparr>) ids\<rparr>"
  have "part_ok ?q bss" using ok by simp
  then obtain p' where p': "maybeAdvanceHW ?q = Some p'" "part_ok p' bss" "same_role ?q p'" "acks_sound ?q p'" "pt_highWatermark ?q \<le> pt_highWatermark p'"
    using maybeAdvanceHW_sound by blast
  have "acks_sound p p'" using quiet_acks [OF quiet_same p'(4), of p] by simp
  then show ?thesis using False p' by (auto simp: UpdateLeaderISR_def same_role_def same_assignment_def ISRSnapshot_def o_def)
qed

section \<open>The follower\<close>

lemma not_leader_idle: "part_ok p bss \<Longrightarrow> \<not> pt_isLeader p \<Longrightarrow> waiting p = {}"
  by (auto simp: part_ok_def)

lemma part_ok_follower:
  assumes "part_ok p bss" and "\<not> pt_isLeader p" and "log_rep l bss'" and "OldestOffset l = OldestOffset (pt_log p)"
    and "OldestOffset l \<le> hw" and "hw \<le> NextOffset l"
  shows "part_ok (p\<lparr>pt_log := l, pt_highWatermark := hw\<rparr>) bss'"
  using assms not_leader_idle [OF assms(1,2)] by (auto simp: part_ok_def waiting_def LEO_def)

text \<open>The state after records of the leader were taken over.\<close>

definition followed :: "i32 \<Rightarrow> u64 \<Rightarrow> bytes \<Rightarrow> Partition \<Rightarrow> bytes list list \<Rightarrow> PartitionError + unit \<Rightarrow> Partition \<Rightarrow> bytes list list \<Rightarrow> bool" where
  "followed fetchEpoch leaderHW data p bss r p' bss' \<longleftrightarrow>
     OldestOffset (pt_log p') = OldestOffset (pt_log p) \<and>
     (case r of
        Inl _ \<Rightarrow> concat bss' = concat bss \<and> pt_highWatermark p' = pt_highWatermark p
      | Inr _ \<Rightarrow> \<not> pt_isLeader p \<and> pt_leaderEpoch p = fetchEpoch \<and>
          (\<exists>ds. data = concat ds \<and> list_all scannable ds \<and>
             concat bss' = concat bss @ takeWhile (\<lambda>d. sint (hdr_epoch d) \<le> sint fetchEpoch) ds) \<and>
          pt_highWatermark p' = max (pt_highWatermark p) (min leaderHW (LEO p')))"

lemma replica_log:
  assumes rep: "log_rep l bss" and fit: "append_fits l data"
  shows "\<exists>r l' bss'. (if data \<noteq> [] then map_option (map_prod (map_sum id (\<lambda>_. ())) id) (AppendReplicaRaw io data fetchEpoch l) else Some (Inr (), l)) = Some (r, l') \<and>
    OldestOffset l' = OldestOffset l \<and> log_rep l' bss' \<and>
    (case r of
       Inl _ \<Rightarrow> concat bss' = concat bss
     | Inr _ \<Rightarrow> (\<exists>ds. data = concat ds \<and> list_all scannable ds \<and> concat bss' = concat bss @ takeWhile (\<lambda>d. sint (hdr_epoch d) \<le> sint fetchEpoch) ds))"
proof (cases "data = []")
  case True
  then show ?thesis using rep by (intro exI [of _ "Inr ()"] exI [of _ l] exI [of _ bss]) (auto intro!: exI [of _ "[]"])
next
  case False
  obtain r l' where r: "AppendReplicaRaw io data fetchEpoch l = Some (r, l')" "OldestOffset l' = OldestOffset l"
    "case r of
       Inl _ \<Rightarrow> (\<exists>bss'. log_rep l' bss' \<and> concat bss' = concat bss)
     | Inr n \<Rightarrow> (\<exists>ds bss'. data = concat ds \<and> list_all scannable ds \<and> log_rep l' bss' \<and>
         concat bss' = concat bss @ takeWhile (\<lambda>d. sint (hdr_epoch d) \<le> sint fetchEpoch) ds)"
    using AppendReplicaRaw_any [OF assms] by blast
  then show ?thesis using False by (cases r) auto
qed

lemma AppendFromLeader_sound:
  assumes ok: "part_ok p bss" and fit: "append_fits (pt_log p) data"
  shows "\<exists>r p' bss'. AppendFromLeader io data fetchEpoch leaderHW p = Some (r, p') \<and> part_ok p' bss' \<and> quiet p p' \<and> same_assignment p p' \<and>
    pt_highWatermark p \<le> pt_highWatermark p' \<and> followed fetchEpoch leaderHW data p bss r p' bss'"
proof (cases "pt_closed p \<or> pt_isLeader p \<or> sint (pt_leaderID p) < 0 \<or> pt_leaderID p = pt_localBrokerID p \<or> sint fetchEpoch \<noteq> sint (pt_leaderEpoch p)")
  case True
  then have "\<exists>e. AppendFromLeader io data fetchEpoch leaderHW p = Some (Inl e, p)" by (auto simp: AppendFromLeader_def)
  then show ?thesis using ok by (fastforce simp: followed_def)
next
  case False
  have rep: "log_rep (pt_log p) bss" using ok by (simp add: part_ok_def)
  have fe: "pt_leaderEpoch p = fetchEpoch" using False by (metis signed_word_eqI)
  obtain r l bss' where r: "(if data \<noteq> [] then map_option (map_prod (map_sum id (\<lambda>_. ())) id) (AppendReplicaRaw io data fetchEpoch (pt_log p)) else Some (Inr (), pt_log p)) = Some (r, l)"
    and l: "OldestOffset l = OldestOffset (pt_log p)" "log_rep l bss'"
    and c: "case r of
       Inl _ \<Rightarrow> concat bss' = concat bss
     | Inr _ \<Rightarrow> (\<exists>ds. data = concat ds \<and> list_all scannable ds \<and> concat bss' = concat bss @ takeWhile (\<lambda>d. sint (hdr_epoch d) \<le> sint fetchEpoch) ds)"
    using replica_log [OF rep fit] by blast
  show ?thesis
  proof (cases r)
    case (Inl e)
    then have "part_ok (p\<lparr>pt_log := l\<rparr>) bss'" using part_ok_log_same [OF ok l(2,1)] c by simp
    moreover have "AppendFromLeader io data fetchEpoch leaderHW p = Some (Inl (Wrapped e), p\<lparr>pt_log := l\<rparr>)"
      unfolding AppendFromLeader_def r Let_def using False Inl by auto
    moreover have "quiet p (p\<lparr>pt_log := l\<rparr>)" by (rule quiet_same) simp_all
    ultimately show ?thesis using c Inl l(1) by (auto simp: followed_def same_assignment_def)
  next
    case (Inr u)
    define cand where "cand = (if NextOffset l < leaderHW then NextOffset l else leaderHW)"
    define hw where "hw = (if cand > pt_highWatermark p then cand else pt_highWatermark p)"
    define q where "q = p\<lparr>pt_log := l, pt_highWatermark := hw\<rparr>"
    define p' where "p' = (if NextOffset l \<noteq> NextOffset (pt_log p) \<or> hw \<noteq> pt_highWatermark p then notifyWaiters q else q)"
    have ap: "AppendFromLeader io data fetchEpoch leaderHW p = Some (Inr (), p')"
      unfolding AppendFromLeader_def r Let_def using False Inr by (auto simp: p'_def q_def hw_def cand_def)
    have le: "NextOffset (pt_log p) \<le> NextOffset l"
    proof -
      obtain acc where "concat bss' = concat bss @ acc" using c Inr by auto
      then show ?thesis using log_next [OF l(2)] log_next [OF rep] l(1) by (simp add: word_le_nat_alt)
    qed
    have hw: "pt_highWatermark p \<le> hw" "hw \<le> NextOffset l" "hw = max (pt_highWatermark p) (min leaderHW (NextOffset l))"
      using ok le by (auto simp: hw_def cand_def part_ok_def LEO_def max_def min_def)
    have "OldestOffset l \<le> hw" using ok l(1) hw(1) by (auto simp: part_ok_def)
    then have "part_ok q bss'" unfolding q_def using part_ok_follower [OF ok _ l(2,1) _ hw(2)] False by blast
    then have "part_ok p' bss'" by (simp add: p'_def)
    moreover have sel: "pt_purgatory p' = pt_purgatory p" "pt_allocated p' = pt_allocated p" "pt_highWatermark p' = hw" "LEO p' = NextOffset l" "same_assignment p p'"
        "pt_log p' = l"
      by (simp_all add: p'_def q_def LEO_def same_assignment_def)
    moreover have "followed fetchEpoch leaderHW data p bss (Inr ()) p' bss'" using c Inr hw(3) sel False fe l(1) by (simp add: followed_def)
    ultimately show ?thesis using ap quiet_same [of p' p] hw(1) by auto
  qed
qed

section \<open>Truncation\<close>

text \<open>An offset of a log is at a batch boundary or inside a batch.\<close>

lemma offset_in_batches:
  "o' \<le> n \<Longrightarrow> n \<le> o' + total_records bs \<Longrightarrow>
   (\<exists>as cs. bs = as @ cs \<and> n = o' + total_records as) \<or>
   (\<exists>as b cs. bs = as @ b # cs \<and> o' + total_records as < n \<and> n < o' + total_records as + records b)"
proof (induction bs arbitrary: o')
  case (Cons b bs)
  show ?case
  proof (cases "n < o' + records b")
    case True
    show ?thesis
    proof (cases "n = o'")
      case True
      then show ?thesis by (intro disjI1 exI [of _ "[]"] exI [of _ "b # bs"]) simp
    next
      case False
      then show ?thesis using True Cons.prems(1) by (intro disjI2 exI [of _ "[]"] exI [of _ b] exI [of _ bs]) simp
    qed
  next
    case False
    then have "(\<exists>as cs. bs = as @ cs \<and> n = o' + records b + total_records as) \<or>
        (\<exists>as c cs. bs = as @ c # cs \<and> o' + records b + total_records as < n \<and> n < o' + records b + total_records as + records c)"
      using Cons.IH [of "o' + records b"] Cons.prems(2) by simp
    then show ?thesis
    proof (elim disjE exE conjE)
      fix as cs assume "bs = as @ cs" "n = o' + records b + total_records as"
      then show ?thesis by (intro disjI1 exI [of _ "b # as"] exI [of _ cs]) simp
    next
      fix as c cs assume "bs = as @ c # cs" "o' + records b + total_records as < n" "n < o' + records b + total_records as + records c"
      then show ?thesis by (intro disjI2 exI [of _ "b # as"] exI [of _ c] exI [of _ cs]) simp
    qed
  qed
qed simp

definition truncation_ok :: "LogIO \<Rightarrow> Log \<Rightarrow> bool" where
  "truncation_ok io l \<longleftrightarrow> (\<forall>bss. log_rep l bss \<longrightarrow> rebuildable l bss) \<and> removals_ok io \<and> \<not> li_truncate io"

lemma TruncateTo_any:
  assumes rep: "log_rep l bss" and io: "truncation_ok io l"
  shows "\<exists>r l' bss'. TruncateTo io offset l = Some (r, l') \<and> log_rep l' bss' \<and> OldestOffset l' = OldestOffset l \<and>
    (\<exists>cs. concat bss = concat bss' @ cs)"
proof (cases "offset < OldestOffset l \<or> NextOffset l < offset")
  case True
  then show ?thesis using TruncateTo_outside [OF True] rep by auto
next
  case False
  then have "unat (OldestOffset l) \<le> unat offset" "unat offset \<le> unat (OldestOffset l) + total_records (concat bss)"
    using log_next [OF rep] by (simp_all add: word_less_nat_alt)
  from offset_in_batches [OF this] show ?thesis
  proof (elim disjE exE conjE)
    fix as cs assume s: "concat bss = as @ cs" "unat offset = unat (OldestOffset l) + total_records as"
    have "rebuildable l bss" "removals_ok io" "\<not> li_truncate io" using io rep by (simp_all add: truncation_ok_def)
    from TruncateTo_rep [OF rep s this] s(1) show ?thesis by blast
  next
    fix as b cs assume s: "concat bss = as @ b # cs" "unat (OldestOffset l) + total_records as < unat offset"
      "unat offset < unat (OldestOffset l) + total_records as + records b"
    from TruncateTo_inside_batch [OF rep s, of io] rep show ?thesis by auto
  qed
qed

lemma Partition_TruncateTo_sound:
  assumes ok: "part_ok p bss" and io: "truncation_ok io (pt_log p)"
  shows "\<exists>r p' bss'. Partition_TruncateTo io offset p = Some (r, p') \<and> part_ok p' bss' \<and> quiet p p' \<and> same_assignment p p' \<and>
    (\<exists>cs. concat bss = concat bss' @ cs) \<and> pt_highWatermark p' = min (pt_highWatermark p) (LEO p') \<and> (pt_isLeader p \<longrightarrow> p' = p)"
proof (cases "pt_isLeader p")
  case True
  have "pt_highWatermark p \<le> LEO p" using ok by (simp add: part_ok_def)
  then show ?thesis using True ok by (auto simp: Partition_TruncateTo_def min_def)
next
  case False
  have rep: "log_rep (pt_log p) bss" using ok by (simp add: part_ok_def)
  obtain r l bss' where t: "TruncateTo io offset (pt_log p) = Some (r, l)" "log_rep l bss'" "OldestOffset l = OldestOffset (pt_log p)"
      "\<exists>cs. concat bss = concat bss' @ cs"
    using TruncateTo_any [OF rep io] by blast
  define hw where "hw = (if \<not> pt_highWatermark p \<le> NextOffset l then NextOffset l else pt_highWatermark p)"
  define q where "q = p\<lparr>pt_log := l, pt_highWatermark := hw\<rparr>"
  define p' where "p' = (if NextOffset l \<noteq> NextOffset (pt_log p) \<or> \<not> pt_highWatermark p \<le> NextOffset l then notifyWaiters q else q)"
  have tr: "Partition_TruncateTo io offset p = Some (map_sum Wrapped id r, p')"
    unfolding Partition_TruncateTo_def t Let_def using False t(1) by (simp add: p'_def q_def hw_def)
  have hw: "hw \<le> NextOffset l" "hw = min (pt_highWatermark p) (NextOffset l)" by (auto simp: hw_def min_def)
  have "OldestOffset l \<le> NextOffset l" using log_next [OF t(2)] by (simp add: word_le_nat_alt)
  then have "OldestOffset l \<le> hw" using ok t(3) hw(2) by (auto simp: part_ok_def)
  then have "part_ok q bss'" unfolding q_def using part_ok_follower [OF ok False t(2,3) _ hw(1)] by blast
  then have "part_ok p' bss'" by (simp add: p'_def)
  moreover have "pt_purgatory p' = pt_purgatory p" "pt_allocated p' = pt_allocated p" "pt_highWatermark p' = hw" "LEO p' = NextOffset l" "same_assignment p p'"
        "pt_log p' = l"
    by (simp_all add: p'_def q_def LEO_def same_assignment_def)
  ultimately show ?thesis using tr t(4) hw(2) False quiet_same [of p' p] by auto
qed

section \<open>Reads\<close>

text \<open>What a read does to the state: nothing, or the end offset of a follower and the watermark move.\<close>

definition read_step :: "Partition \<Rightarrow> Partition \<Rightarrow> bool" where
  "read_step p p' \<longleftrightarrow> p' = p \<or> (\<exists>i leo. updateFollowerLEO i leo p = Some p')"

lemma FetchRaw_step:
  assumes "part_ok p bss"
  shows "\<exists>r p'. FetchRaw off i maxBytes p = Some (r, p') \<and> read_step p p'"
proof -
  obtain u where u: "updateFollowerLEO i off p = Some u" using updateFollowerLEO_sound [OF assms] by blast
  then show ?thesis unfolding FetchRaw_def Let_def read_step_def by (auto split: option.split prod.split)
qed

lemma FetchRawRanges_step:
  assumes "part_ok p bss"
  shows "\<exists>r p'. FetchRawRanges off i maxBytes allow p = Some (r, p') \<and> read_step p p'"
proof -
  obtain u where u: "updateFollowerLEO i off p = Some u" using updateFollowerLEO_sound [OF assms] by blast
  then show ?thesis unfolding FetchRawRanges_def Let_def read_step_def by (auto split: option.split prod.split)
qed

lemma Partition_Fetch_step:
  assumes "part_ok p bss" and "Partition_Fetch off i follower p = Some (r, p')"
  shows "read_step p p'"
  using assms(2) unfolding Partition_Fetch_def Let_def read_step_def by (auto split: option.splits sum.splits if_splits)

lemma read_step_sound:
  assumes "part_ok p bss" and "read_step p p'"
  shows "part_ok p' bss \<and> acks_sound p p' \<and> pt_highWatermark p \<le> pt_highWatermark p' \<and> same_assignment p p' \<and> pt_log p' = pt_log p"
proof (cases "p' = p")
  case True
  then show ?thesis using assms(1) by simp
next
  case False
  then obtain i leo where u: "updateFollowerLEO i leo p = Some p'" using assms(2) by (auto simp: read_step_def)
  have "part_ok p' bss" "acks_sound p p'" "pt_highWatermark p \<le> pt_highWatermark p'" "same_role (p\<lparr>pt_isr := set_leo i leo (pt_isr p)\<rparr>) p'"
    using updateFollowerLEO_sound [OF assms(1), of i leo] u by auto
  then show ?thesis by (auto simp: same_role_def same_assignment_def)
qed

lemma Partition_Close_sound:
  assumes "part_ok p bss"
  shows "\<exists>r p'. Partition_Close io p = Some (r, p') \<and> part_ok p' bss \<and> quiet p p' \<and> pt_closed p' \<and> pt_log p' = pt_log p \<and>
    pt_highWatermark p' = pt_highWatermark p \<and> (\<not> pt_closed p \<longrightarrow> waiting p' = {} \<and> (\<forall>e\<in>waiting p. completed p' e (Some ErrStorageError)))"
proof (cases "pt_closed p")
  case True
  then show ?thesis using assms by (intro exI [of _ "(True, None)"] exI [of _ p]) (simp add: Partition_Close_def)
next
  case False
  let ?p = "p\<lparr>pt_closed := True\<rparr>"
  have ok: "part_ok ?p bss" using assms by simp
  obtain h where f: "failPurgatory ErrStorageError (pt_purgatory p) = Some h" "purgatory_ok h" and h: "ph_items h = []"
      "outcome h = (\<lambda>e. if e \<in> waiting p then (required p e, True, Some ErrStorageError) else outcome (pt_purgatory p) e)"
    using fail_rep [of "pt_purgatory p" ErrStorageError] assms by (auto simp: part_ok_def waiting_def)
  have h': "on_purgatory (failPurgatory ErrStorageError) ?p = Some (?p\<lparr>pt_purgatory := h\<rparr>)" "part_ok (?p\<lparr>pt_purgatory := h\<rparr>) bss"
    using ok f h by (auto simp: on_purgatory_def part_ok_def waiting_def LEO_def closed_outcome)
  have "quiet p (notifyWaiters (?p\<lparr>pt_purgatory := h\<rparr>))"
    using not_waiting [OF assms] by (auto simp: quiet_def answers_kept_def completed_def h(2) required_at_outcome split: if_splits)
  moreover obtain b files where "Log_Close io (pt_log p) = (b, files)" by fastforce
  ultimately show ?thesis using False h h'
    by (intro exI [of _ "(b, Some files)"] exI [of _ "notifyWaiters (?p\<lparr>pt_purgatory := h\<rparr>)"])
      (simp add: Partition_Close_def waiting_def completed_def)
qed

section \<open>Steps\<close>

text \<open>The operations on a replica.  Leaders start with the watermark \<open>Reconcile\<close> and \<open>CreateTopic\<close> give them.\<close>

inductive partition_step :: "Partition \<Rightarrow> Partition \<Rightarrow> bool" where
  make_leader: "start_hw p hw \<Longrightarrow> MakeLeader io epoch ids hw p = Some (r, p') \<Longrightarrow> partition_step p p'"
| make_follower: "MakeFollower epoch i p = Some p' \<Longrightarrow> partition_step p p'"
| make_unassigned: "MakeUnassigned p = Some p' \<Longrightarrow> partition_step p p'"
| update_isr: "UpdateLeaderISR epoch ids p = Some (u, p') \<Longrightarrow> partition_step p p'"
| append: "append_fits (pt_log p) data \<Longrightarrow> Partition_AppendRaw io ctxDone data acks p = Some (a, p') \<Longrightarrow> partition_step p p'"
| expire: "expire_request e p = Some p' \<Longrightarrow> partition_step p p'"
| append_from_leader: "append_fits (pt_log p) data \<Longrightarrow> AppendFromLeader io data epoch hw p = Some (u, p') \<Longrightarrow> partition_step p p'"
| truncate: "truncation_ok io (pt_log p) \<Longrightarrow> Partition_TruncateTo io off p = Some (u, p') \<Longrightarrow> partition_step p p'"
| fetch: "Partition_Fetch off i follower p = Some (f, p') \<Longrightarrow> partition_step p p'"
| fetch_raw: "FetchRaw off i maxBytes p = Some (g, p') \<Longrightarrow> partition_step p p'"
| fetch_ranges: "FetchRawRanges off i maxBytes allow p = Some (k, p') \<Longrightarrow> partition_step p p'"
| close: "Partition_Close pio p = Some (c, p') \<Longrightarrow> partition_step p p'"

lemma partition_step_sound:
  assumes "partition_step p p'" and "part_ok p bss"
  shows "\<exists>bss'. part_ok p' bss' \<and> acks_sound p p'"
  using assms
proof (cases rule: partition_step.cases)
  case (make_leader hw io epoch ids r)
  then show ?thesis using MakeLeader_sound [OF assms(2) make_leader(1), of io epoch ids] quiet_sound by fastforce
next
  case (make_follower epoch i)
  then show ?thesis using MakeFollower_sound [OF assms(2), of epoch i] quiet_sound by auto
next
  case make_unassigned
  then show ?thesis using MakeUnassigned_sound [OF assms(2)] quiet_sound by auto
next
  case (update_isr epoch ids u)
  then show ?thesis using UpdateLeaderISR_sound [OF assms(2), of epoch ids] by auto
next
  case (append data io ctxDone acks a)
  then show ?thesis using Partition_AppendRaw_sound [OF assms(2) append(1), of io ctxDone acks] by auto
next
  case (expire e)
  then show ?thesis using expire_sound [OF assms(2), of e] quiet_sound by auto
next
  case (append_from_leader data io epoch hw u)
  then show ?thesis using AppendFromLeader_sound [OF assms(2) append_from_leader(1), of io epoch hw] quiet_sound by auto
next
  case (truncate io off u)
  then show ?thesis using Partition_TruncateTo_sound [OF assms(2) truncate(1), of off] quiet_sound by auto
next
  case (fetch off i follower f)
  then show ?thesis using read_step_sound [OF assms(2)] Partition_Fetch_step [OF assms(2)] by blast
next
  case (fetch_raw off i maxBytes g)
  then show ?thesis using read_step_sound [OF assms(2)] FetchRaw_step [OF assms(2), of off i maxBytes] by auto
next
  case (fetch_ranges off i maxBytes allow k)
  then show ?thesis using read_step_sound [OF assms(2)] FetchRawRanges_step [OF assms(2), of off i maxBytes allow] by auto
next
  case (close pio c)
  then show ?thesis using Partition_Close_sound [OF assms(2), of pio] quiet_sound by auto
qed

lemma part_ok_new: "log_rep l bss \<Longrightarrow> part_ok (NewPartition name i b l) bss"
  using log_next [of l bss]
  by (simp add: part_ok_def NewPartition_def waiting_def purgatory_ok_def LEO_def word_le_nat_alt)

lemma partition_reachable_ok:
  assumes "log_rep l bss" and "partition_step\<^sup>*\<^sup>* (NewPartition name i b l) p"
  shows "\<exists>bss'. part_ok p bss'"
  using assms(2)
proof (induction rule: rtranclp_induct)
  case base
  then show ?case using part_ok_new [OF assms(1)] by blast
next
  case (step q p)
  then show ?case using partition_step_sound by blast
qed

end
