(* ===== verification/PartitionFetch.thy ===== *)
theory PartitionFetch
  imports PartitionSteps
begin

text \<open>
  What readers of a partition get.  A consumer gets whole batches below the high watermark and nothing else, the
  zero-copy read returns the same bytes as the copying one, and a follower that appends what it fetched holds a
  prefix of the leader's log.
\<close>

section \<open>Cutting at the watermark\<close>

lemma ReadAt_window:
  assumes "ReadAt r pos n = Some w" and "0 \<le> c" and "c + int m \<le> int n"
  shows "ReadAt r (pos + c) m = ReadAt w c m"
proof (cases "m = 0 \<or> n = 0")
  case True
  then show ?thesis using assms by (auto simp: ReadAt_def split: if_splits)
next
  case False
  then have w: "0 \<le> pos" "pos + int n \<le> int (length r)" "w = take n (drop (nat pos) r)" using assms(1) by (simp_all add: ReadAt_Some_iff)
  have l: "length w = n" using w by simp
  have "take m (drop (nat c) w) = take m (drop (nat pos + nat c) r)"
  proof -
    have "drop (nat c) w = take (n - nat c) (drop (nat pos + nat c) r)" using w(3) by (simp add: drop_take add.commute)
    moreover have "m \<le> n - nat c" using assms(2,3) by linarith
    ultimately show ?thesis by (simp add: min_absorb1)
  qed
  moreover have "nat (pos + c) = nat pos + nat c" using w(1) assms(2) by (rule nat_add_distrib)
  ultimately show ?thesis using False w l assms by (simp add: ReadAt_def)
qed

lemma cap_loop_window:
  assumes "ReadAt r pos n = Some w" and "len = int n" and "0 \<le> c"
  shows "cap_loop r pos len hw c e = cap_loop w 0 len hw c e"
  using assms
proof (induction r pos len hw c e rule: cap_loop.induct)
  case (1 r pos len hw c e)
  show ?case
  proof (cases "c < len \<and> \<not> len - c < int batchMetaPrefixLength")
    case False
    then show ?thesis by (subst (1 2) cap_loop.simps) auto
  next
    case True
    have rd: "ReadAt r (pos + c) batchMetaPrefixLength = ReadAt w (0 + c) batchMetaPrefixLength"
      using ReadAt_window [OF "1.prems"(1,3), of batchMetaPrefixLength] True "1.prems"(2) by simp
    show ?thesis
    proof (cases "ReadAt r (pos + c) batchMetaPrefixLength")
      case None
      then show ?thesis using True rd by (subst (1 2) cap_loop.simps) simp
    next
      case (Some hdr)
      have "cap_loop r pos len hw (c + (12 + int (unat (hdr_len hdr)))) (hdr_base hdr + ucast (hdr_lod hdr) + 1) =
          cap_loop w 0 len hw (c + (12 + int (unat (hdr_len hdr)))) (hdr_base hdr + ucast (hdr_lod hdr) + 1)"
        if "\<not> 12 + int (unat (hdr_len hdr)) < int recordBatchOverhead" "\<not> c + (12 + int (unat (hdr_len hdr))) > len"
          "\<not> hdr_base hdr + ucast (hdr_lod hdr) + 1 > hw"
        using "1.IH" [OF _ _ Some refl that(1,2) refl that(3)] True "1.prems" by simp
      moreover have "ReadAt w c batchMetaPrefixLength = Some hdr" using rd Some by simp
      ultimately show ?thesis using True Some by (subst (1 2) cap_loop.simps) (simp add: Let_def)
    qed
  qed
qed

lemma cap_loop_batches:
  assumes "list_all raw_ok bs" and "len = int (length pre) + int (length (concat bs))"
  shows "cap_loop (pre @ concat bs) 0 len hw (int (length pre)) e =
    (let zs = takeWhile (\<lambda>b. offset_after b \<le> hw) bs in
     Some (int (length pre) + int (length (concat zs)), if zs = [] then e else offset_after (last zs)))"
  using assms
proof (induction bs arbitrary: pre e)
  case Nil
  then show ?case by (simp add: cap_loop.simps)
next
  case (Cons b bs)
  have b: "raw_ok b" "61 \<le> length b" using Cons.prems(1) by (simp_all add: raw_ok_length)
  have hl: "int (unat (hdr_len b)) = int (length b) - 12"
  proof -
    have "0 \<le> sint (hdr_len b)" "int (length b) = 12 + sint (hdr_len b)" using b by (simp_all add: raw_ok_def)
    then show ?thesis using uint_nonneg [of "hdr_len b"] by simp
  qed
  have rd: "ReadAt (pre @ b @ concat bs) (int (length pre)) 27 = Some (take 27 b)"
    using b(2) by (intro ReadAt_prefix) simp_all
  have h: "hdr_base (take 27 b) = hdr_base b" "hdr_len (take 27 b) = hdr_len b" "hdr_lod (take 27 b) = hdr_lod b"
    using b(2) by (simp_all add: hdr_take)
  have step: "cap_loop (pre @ concat (b # bs)) 0 len hw (int (length pre)) e =
      (if offset_after b > hw then Some (int (length pre), e)
       else cap_loop ((pre @ b) @ concat bs) 0 len hw (int (length (pre @ b))) (offset_after b))"
    using Cons.prems(2) b(2) rd h hl
    by (subst cap_loop.simps) (simp add: batchMetaPrefixLength_def recordBatchOverhead_def Let_def offset_after_def)
  show ?case
  proof (cases "offset_after b \<le> hw")
    case True
    then have n: "\<not> offset_after b > hw" by simp
    have "cap_loop (pre @ concat (b # bs)) 0 len hw (int (length pre)) e =
        cap_loop ((pre @ b) @ concat bs) 0 len hw (int (length (pre @ b))) (offset_after b)" by (simp only: step n if_False)
    also have "\<dots> = (let zs = takeWhile (\<lambda>b. offset_after b \<le> hw) bs in
         Some (int (length (pre @ b)) + int (length (concat zs)), if zs = [] then offset_after b else offset_after (last zs)))"
      by (rule Cons.IH) (use Cons.prems in simp_all)
    finally show ?thesis using True by (simp add: Let_def)
  next
    case False
    then have "offset_after b > hw" by simp
    then have "cap_loop (pre @ concat (b # bs)) 0 len hw (int (length pre)) e = Some (int (length pre), e)" by (simp only: step if_True)
    then show ?thesis using False by (simp add: Let_def)
  qed
qed

lemma capToHW_batches:
  assumes "list_all raw_ok bs"
  shows "capToHW (concat bs) 0 (int (length (concat bs))) hw fallback =
    (let zs = takeWhile (\<lambda>b. offset_after b \<le> hw) bs in
     Some (int (length (concat zs)), if zs = [] then fallback else offset_after (last zs)))"
  using cap_loop_batches [OF assms, of "int (length (concat bs))" "[]" hw fallback] by (simp add: capToHW_def)

section \<open>Consumers\<close>

lemma batch_end:
  assumes rep: "log_rep l bss" and s: "concat bss = as @ b # cs"
  shows "unat (offset_after b) = unat (OldestOffset l) + total_records as + records b"
proof -
  have ch: "batches_ok (unat (OldestOffset l)) (as @ b # cs)" using log_rep_chain [OF rep] s by simp
  then have base: "unat (hdr_base b) = unat (OldestOffset l) + total_records as" by (simp add: batches_ok_def)
  have "unat (OldestOffset l) + total_records (as @ b # cs) < 2 ^ 64" using ch by (simp add: batches_ok_def)
  then have "unat (hdr_base b + word_of_nat (records b)) = unat (hdr_base b) + records b" using base by (intro unat_add_nat) simp
  then show ?thesis using base by (simp add: offset_after_def word_records [symmetric] add.assoc)
qed

text \<open>What a consumer read returns: whole batches from the one with the offset on, all below the watermark.\<close>

definition committed_from :: "Partition \<Rightarrow> bytes list list \<Rightarrow> u64 \<Rightarrow> bytes list \<Rightarrow> bool" where
  "committed_from p bss off zs \<longleftrightarrow>
     (\<exists>as rest. concat bss = as @ zs @ rest \<and>
        (zs \<noteq> [] \<longrightarrow> unat (OldestOffset (pt_log p)) + total_records as \<le> unat off \<and>
           unat off < unat (OldestOffset (pt_log p)) + total_records as + records (hd zs))) \<and>
     (\<forall>z\<in>set zs. offset_after z \<le> pt_highWatermark p)"

lemma read_for_offset:
  assumes ok: "part_ok p bss" and off: "OldestOffset (pt_log p) \<le> off" "off < LEO p"
  shows "\<exists>as b zs rest upTo. concat bss = as @ (b # zs) @ rest \<and> ReadRaw (pt_log p) off maxBytes = Some (concat (b # zs), upTo) \<and>
    unat (OldestOffset (pt_log p)) + total_records as \<le> unat off \<and> unat off < unat (OldestOffset (pt_log p)) + total_records as + records b \<and>
    unat upTo = unat (OldestOffset (pt_log p)) + total_records (as @ b # zs) \<and> list_all raw_ok (b # zs)"
proof -
  let ?o = "unat (OldestOffset (pt_log p))"
  have rep: "log_rep (pt_log p) bss" using ok by (simp add: part_ok_def)
  have lt: "?o \<le> unat off" "unat off < ?o + total_records (concat bss)"
    using off log_next [OF rep] by (simp_all add: word_le_nat_alt word_less_nat_alt LEO_def)
  have "\<exists>as b cs. concat bss = as @ b # cs \<and> ?o + total_records as \<le> unat off \<and> unat off < ?o + total_records as + records b"
  proof -
    from offset_in_batches [of ?o "unat off" "concat bss"] lt consider
      as cs where "concat bss = as @ cs" "unat off = ?o + total_records as" |
      as b cs where "concat bss = as @ b # cs" "?o + total_records as < unat off" "unat off < ?o + total_records as + records b" by auto
    then show ?thesis
    proof cases
      case 1
      then obtain b cs' where "cs = b # cs'" using lt(2) by (cases cs) auto
      then show ?thesis using 1 by (intro exI [of _ as] exI [of _ b] exI [of _ cs']) simp
    next
      case 2
      then show ?thesis by (intro exI [of _ as] exI [of _ b] exI [of _ cs]) simp
    qed
  qed
  then obtain as b cs where s: "concat bss = as @ b # cs" "?o + total_records as \<le> unat off" "unat off < ?o + total_records as + records b" by blast
  obtain zs rest upTo where z: "cs = zs @ rest" "ReadRaw (pt_log p) off maxBytes = Some (concat (b # zs), upTo)"
      "unat upTo = ?o + total_records (as @ b # zs)"
    using ReadRaw_rep [OF rep s, of maxBytes] by blast
  have "list_all raw_ok (concat bss)" using log_rep_chain [OF rep] by (simp add: batches_ok_def)
  then have "list_all raw_ok (b # zs)" using s(1) z(1) by simp
  then show ?thesis using s z by (intro exI [of _ as] exI [of _ b] exI [of _ zs] exI [of _ rest] exI [of _ upTo]) simp
qed

lemma FetchRaw_consumer:
  assumes ok: "part_ok p bss" and lead: "pt_isLeader p" "\<not> pt_closed p" and cons: "sint replicaID < 0"
    and off: "OldestOffset (pt_log p) \<le> off" "off \<le> LEO p"
  shows "\<exists>x zs. FetchRaw off replicaID maxBytes p = Some (Inr x, p) \<and> committed_from p bss off zs \<and>
    fr_Records x = (if zs = [] then None else Some (concat zs)) \<and> fr_HighWatermark x = pt_highWatermark p"
proof (cases "off \<ge> pt_highWatermark p")
  case True
  then have "FetchRaw off replicaID maxBytes p =
      Some (Inr \<lparr>fr_Records = None, fr_HighWatermark = pt_highWatermark p, fr_LogStartOffset = OldestOffset (pt_log p), fr_FetchedUpTo = 0\<rparr>, p)"
    using lead cons off by (simp add: FetchRaw_def LEO_def Let_def not_less)
  then show ?thesis
    by (intro exI exI [of _ "[]"]) (auto simp: committed_from_def intro: exI [of _ "concat bss"] exI [of _ "[]"])
next
  case False
  have hw: "pt_highWatermark p \<le> LEO p" using ok by (simp add: part_ok_def)
  then have "off < LEO p" using False by auto
  then obtain as b zs rest upTo where s: "concat bss = as @ (b # zs) @ rest" "ReadRaw (pt_log p) off maxBytes = Some (concat (b # zs), upTo)"
      "unat (OldestOffset (pt_log p)) + total_records as \<le> unat off" "unat off < unat (OldestOffset (pt_log p)) + total_records as + records b"
      "unat upTo = unat (OldestOffset (pt_log p)) + total_records (as @ b # zs)" "list_all raw_ok (b # zs)"
    using read_for_offset [OF ok off(1)] by blast
  have rep: "log_rep (pt_log p) bss" using ok by (simp add: part_ok_def)
  define raw where "raw = concat (b # zs)"
  have rd: "ReadRaw (pt_log p) off maxBytes = Some (raw, upTo)" using s(2) by (simp only: raw_def)
  have F: "FetchRaw off replicaID maxBytes p =
      (if upTo > pt_highWatermark p
       then (case capToHW raw 0 (int (length raw)) (pt_highWatermark p) off of
           None \<Rightarrow> Some (Inl (Wrapped OtherError), p)
         | Some (n, u) \<Rightarrow> Some (Inr \<lparr>fr_Records = if n = 0 then None else Some (take (nat n) raw),
             fr_HighWatermark = pt_highWatermark p, fr_LogStartOffset = OldestOffset (pt_log p), fr_FetchedUpTo = u\<rparr>, p))
       else Some (Inr \<lparr>fr_Records = Some raw, fr_HighWatermark = pt_highWatermark p,
             fr_LogStartOffset = OldestOffset (pt_log p), fr_FetchedUpTo = upTo\<rparr>, p))"
    using lead cons leD [OF off(1)] leD [OF off(2)] False rd by (simp add: FetchRaw_def LEO_def Let_def cong: if_cong)
  define ks where "ks = (if upTo > pt_highWatermark p then takeWhile (\<lambda>z. offset_after z \<le> pt_highWatermark p) (b # zs) else b # zs)"
  obtain more where more: "b # zs = ks @ more"
    by (cases "upTo > pt_highWatermark p") (auto simp: ks_def intro: that [of "dropWhile (\<lambda>z. offset_after z \<le> pt_highWatermark p) (b # zs)"] that [of "[]"])
  have below: "offset_after z \<le> pt_highWatermark p" if "z \<in> set ks" for z
  proof (cases "upTo > pt_highWatermark p")
    case True
    then show ?thesis using that by (auto simp: ks_def dest: set_takeWhileD)
  next
    case up: False
    then have "z \<in> set (b # zs)" using that by (simp add: ks_def)
    then obtain us vs where "b # zs = us @ z # vs" by (meson split_list)
    then have "unat (offset_after z) \<le> unat upTo" using batch_end [OF rep, of "as @ us" z "vs @ rest"] s(1,5) by simp
    then show ?thesis using up by (simp add: word_le_nat_alt word_less_nat_alt)
  qed
  have "committed_from p bss off ks"
  proof -
    have "concat bss = as @ ks @ more @ rest" using s(1) more by (metis append.assoc)
    moreover have "hd ks = b" if "ks \<noteq> []" using more that by (cases ks) auto
    ultimately show ?thesis using s(3,4) below unfolding committed_from_def by metis
  qed
  moreover have "\<exists>x. FetchRaw off replicaID maxBytes p = Some (Inr x, p) \<and> fr_Records x = (if ks = [] then None else Some (concat ks)) \<and>
      fr_HighWatermark x = pt_highWatermark p"
  proof (cases "upTo > pt_highWatermark p")
    case True
    have raw: "list_all raw_ok ks" using s(6) more by simp
    then have z: "int (length (concat ks)) = 0 \<longleftrightarrow> ks = []" by (cases ks) (auto dest: raw_ok_length)
    have tk: "take (length (concat ks)) raw = concat ks" unfolding raw_def more by simp
    have "takeWhile (\<lambda>z. offset_after z \<le> pt_highWatermark p) (b # zs) = ks" using True by (simp add: ks_def)
    then have "capToHW raw 0 (int (length raw)) (pt_highWatermark p) off = Some (int (length (concat ks)), if ks = [] then off else offset_after (last ks))"
      using capToHW_batches [OF s(6), of "pt_highWatermark p" off] by (simp only: raw_def Let_def)
    then show ?thesis using F True z tk by auto
  next
    case False
    then show ?thesis using F by (simp add: ks_def raw_def)
  qed
  ultimately show ?thesis by blast
qed

section \<open>The zero-copy read\<close>

text \<open>The bytes a list of file ranges stands for.\<close>

fun ranges_data :: "RawRange list \<Rightarrow> bytes option" where
  "ranges_data [] = Some []"
| "ranges_data (r # rs) =
     (case ReadAt (rr_File r) (rr_Offset r) (nat (rr_Length r)) of
        None \<Rightarrow> None
      | Some d \<Rightarrow> map_option ((@) d) (ranges_data rs))"

lemma search_loop_bound: "i \<le> j \<Longrightarrow> search_loop f i j \<le> j"
proof (induction f i j rule: search_loop.induct)
  case (1 f i j)
  show ?case
  proof (cases "i < j")
    case True
    let ?h = "(i + j) div 2"
    have h: "i \<le> ?h" "?h < j" using True by auto
    show ?thesis
    proof (cases "f ?h")
      case f: True
      have "search_loop f i j = search_loop f i ?h" using True f by (subst search_loop.simps) (simp add: Let_def)
      then show ?thesis using "1.IH"(2) [OF True refl] f h by simp
    next
      case f: False
      have "search_loop f i j = search_loop f (?h + 1) j" using True f by (subst search_loop.simps) (simp add: Let_def)
      then show ?thesis using "1.IH"(1) [OF True refl f] h by simp
    qed
  next
    case False
    then show ?thesis using "1.prems" by (subst search_loop.simps) simp
  qed
qed

lemma locate_pair:
  assumes "locate l off = Some (s, pos)"
  shows "\<exists>p\<in>set (pairs l). s = sp_segment p"
proof -
  obtain i where i: "findSegment (lg_sealed l) (lg_active l) off = Some i" "s = sp_segment (pairs l ! i)"
    using assms by (auto simp: locate_def Let_def split: option.splits sum.splits)
  define k where "k = sort_Search (length (lg_sealed l)) (\<lambda>i. off < base (lg_sealed l ! i))"
  have "k \<le> length (lg_sealed l)" using search_loop_bound by (simp add: k_def sort_Search_def)
  moreover have "i = length (lg_sealed l) \<or> i = nat (int k - 1)" using i(1) unfolding findSegment_def Let_def k_def [symmetric] by (auto split: if_splits)
  ultimately have "i \<le> length (lg_sealed l)" by auto
  then have "pairs l ! i \<in> set (pairs l)" by (intro nth_mem) (simp add: pairs_def)
  then show ?thesis using i(2) by blast
qed

lemma linked_pair: "linked o' ps bss \<Longrightarrow> p \<in> set ps \<Longrightarrow> \<exists>bs. pair_rep p bs"
  by (induction o' ps bss rule: linked.induct) auto

lemma ReadRawRanges_ReadRaw:
  assumes rep: "log_rep l bss"
  shows "(ReadRaw l off maxBytes = None \<longrightarrow> ReadRawRanges l off maxBytes = None) \<and>
    (\<forall>raw upTo. ReadRaw l off maxBytes = Some (raw, upTo) \<longrightarrow>
       (\<exists>f pos. ReadRawRanges l off maxBytes = Some \<lparr>rw_Ranges = [\<lparr>rr_File = f, rr_Offset = pos, rr_Length = int (length raw)\<rparr>],
           rw_Bytes = int (length raw), rw_FetchedUpTo = upTo\<rparr> \<and> ReadAt f pos (length raw) = Some raw))"
proof (cases "locate l off")
  case None
  then show ?thesis by (simp add: ReadRaw_def ReadRawRanges_def)
next
  case (Some x)
  obtain s pos where x: "x = (s, pos)" by (cases x)
  obtain p where p: "p \<in> set (pairs l)" "s = sp_segment p" using locate_pair Some x by blast
  obtain bs where "pair_rep p bs" using linked_pair rep p(1) unfolding log_rep_def by blast
  then have "sg_currentSize s \<le> int (length (sg_file s))" using p(2) by (auto simp: pair_rep_def seg_rep_def)
  then show ?thesis
    using ReadRawRangesAt_eq(1) [of s pos maxBytes] ReadRawRangesAt_eq(2) [of s pos maxBytes] Some x
    by (auto simp: ReadRaw_def ReadRawRanges_def)
qed

lemma cap_loop_bounds: "cap_loop r pos len hw c e = Some (n, u) \<Longrightarrow> c \<le> len \<Longrightarrow> c \<le> n \<and> n \<le> len"
proof (induction r pos len hw c e rule: cap_loop.induct)
  case (1 r pos len hw c e)
  show ?case
  proof (cases "c < len \<and> \<not> len - c < int batchMetaPrefixLength")
    case False
    then show ?thesis using "1.prems" by (subst (asm) cap_loop.simps) (auto split: if_splits)
  next
    case True
    then obtain hdr where hdr: "ReadAt r (pos + c) batchMetaPrefixLength = Some hdr"
      using "1.prems"(1) by (subst (asm) cap_loop.simps) (auto split: option.splits)
    let ?t = "12 + int (unat (hdr_len hdr))" and ?e = "hdr_base hdr + ucast (hdr_lod hdr) + 1"
    have unf: "cap_loop r pos len hw c e =
        (if ?t < int recordBatchOverhead then None else if c + ?t > len then None
         else if ?e > hw then Some (c, e) else cap_loop r pos len hw (c + ?t) ?e)"
      using True hdr by (subst cap_loop.simps) (simp add: Let_def)
    show ?thesis
    proof (cases "\<not> ?t < int recordBatchOverhead \<and> \<not> c + ?t > len \<and> \<not> ?e > hw")
      case go: True
      then have "cap_loop r pos len hw (c + ?t) ?e = Some (n, u)" using "1.prems"(1) unf by simp
      then show ?thesis using "1.IH" [OF _ _ hdr refl _ _ refl] True go by fastforce
    next
      case False
      then show ?thesis using "1.prems" unf by (auto split: if_splits)
    qed
  qed
qed

lemma cap_one_range:
  assumes rd: "ReadAt f pos (length raw) = Some raw"
  defines "rg \<equiv> \<lparr>rr_File = f, rr_Offset = pos, rr_Length = int (length raw)\<rparr>"
  shows "(capToHW raw 0 (int (length raw)) hw off = None \<longrightarrow> cap_ranges hw [rg] [] 0 off = None) \<and>
    (\<forall>n u. capToHW raw 0 (int (length raw)) hw off = Some (n, u) \<longrightarrow>
       (\<exists>rs u'. cap_ranges hw [rg] [] 0 off = Some (rs, n, u') \<and> ranges_data rs = Some (take (nat n) raw) \<and> 0 \<le> n \<and> n \<le> int (length raw)))"
proof -
  have eq: "capToHW f pos (int (length raw)) hw off = capToHW raw 0 (int (length raw)) hw off"
    unfolding capToHW_def using cap_loop_window [OF rd refl, of 0] by simp
  have "\<exists>rs u'. cap_ranges hw [rg] [] 0 off = Some (rs, n, u') \<and> ranges_data rs = Some (take (nat n) raw) \<and> 0 \<le> n \<and> n \<le> int (length raw)"
    if c: "capToHW raw 0 (int (length raw)) hw off = Some (n, u)" for n u
  proof -
    have b: "0 \<le> n" "n \<le> int (length raw)" using cap_loop_bounds [OF c [unfolded capToHW_def]] by simp_all
    have "ReadAt f (pos + 0) (nat n) = ReadAt raw 0 (nat n)" using ReadAt_window [OF rd, of 0 "nat n"] b by simp
    moreover have "ReadAt raw 0 (nat n) = Some (take (nat n) raw)" using b by (simp add: ReadAt_def)
    ultimately show ?thesis using c eq b by (auto simp: rg_def)
  qed
  then show ?thesis using eq by (auto simp: rg_def)
qed

text \<open>The two reads agree on everything but the offset reported for an empty result.\<close>

definition same_read :: "FetchRawResult \<Rightarrow> FetchRawRangeResult \<Rightarrow> bool" where
  "same_read x y \<longleftrightarrow>
     (let d = (case fr_Records x of None \<Rightarrow> [] | Some d \<Rightarrow> d) in
      ranges_data (fg_Ranges y) = Some d \<and> fg_RecordsSize y = int (length d)) \<and>
     fg_HighWatermark y = fr_HighWatermark x \<and> fg_LogStartOffset y = fr_LogStartOffset x"

lemma FetchRawRanges_FetchRaw:
  assumes ok: "part_ok p bss" and F: "FetchRaw off i maxBytes p = Some (r, p')"
  shows "case r of
      Inl e \<Rightarrow> FetchRawRanges off i maxBytes True p = Some (Inl e, p')
    | Inr x \<Rightarrow> (\<exists>y. FetchRawRanges off i maxBytes True p = Some (Inr y, p') \<and> same_read x y)"
proof (cases "pt_closed p \<or> \<not> pt_isLeader p \<or> off < OldestOffset (pt_log p) \<or> off > NextOffset (pt_log p)")
  case True
  then have "\<exists>e. r = Inl e \<and> p' = p \<and> FetchRawRanges off i maxBytes True p = Some (Inl e, p)"
    using F by (auto simp: FetchRaw_def FetchRawRanges_def Let_def split: if_splits)
  then show ?thesis by auto
next
  case open': False
  define fo where "fo \<longleftrightarrow> sint i \<ge> 0"
  obtain u where u: "updateFollowerLEO i off p = Some u" using updateFollowerLEO_sound [OF ok] by blast
  define q where "q = (if fo then u else p)"
  have q: "(if fo then updateFollowerLEO i off p else Some p) = Some q" using u by (simp add: q_def)
  show ?thesis
  proof (cases "\<not> fo \<and> off \<ge> pt_highWatermark p \<or> fo \<and> off = NextOffset (pt_log p)")
    case True
    then show ?thesis
      using F open' u unfolding FetchRaw_def FetchRawRanges_def Let_def fo_def [symmetric] by (auto simp: same_read_def)
  next
    case False
    have rep: "log_rep (pt_log p) bss" using ok by (simp add: part_ok_def)
    note eq = ReadRawRanges_ReadRaw [OF rep, of off maxBytes]
    have guards: "pt_closed p = False" "pt_isLeader p = True" "(off < OldestOffset (pt_log p) \<or> off > NextOffset (pt_log p)) = False"
        "(\<not> fo \<and> off \<ge> pt_highWatermark p) = False" "(fo \<and> off = NextOffset (pt_log p)) = False"
      using open' False by auto
    show ?thesis
    proof (cases "ReadRaw (pt_log p) off maxBytes")
      case None
      then show ?thesis using F open' False eq unfolding FetchRaw_def FetchRawRanges_def Let_def fo_def [symmetric] by auto
    next
      case (Some x)
      obtain raw upTo where x: "x = (raw, upTo)" by (cases x)
      obtain f pos where rr: "ReadRawRanges (pt_log p) off maxBytes = Some \<lparr>rw_Ranges = [\<lparr>rr_File = f, rr_Offset = pos, rr_Length = int (length raw)\<rparr>],
           rw_Bytes = int (length raw), rw_FetchedUpTo = upTo\<rparr>" "ReadAt f pos (length raw) = Some raw"
        using eq Some x by auto
      have FR: "FetchRaw off i maxBytes p =
          (if \<not> fo \<and> upTo > pt_highWatermark q
           then (case capToHW raw 0 (int (length raw)) (pt_highWatermark q) off of
               None \<Rightarrow> Some (Inl (Wrapped OtherError), q)
             | Some (n, u) \<Rightarrow> Some (Inr \<lparr>fr_Records = if n = 0 then None else Some (take (nat n) raw),
                 fr_HighWatermark = pt_highWatermark q, fr_LogStartOffset = OldestOffset (pt_log p), fr_FetchedUpTo = u\<rparr>, q))
           else Some (Inr \<lparr>fr_Records = Some raw, fr_HighWatermark = pt_highWatermark q,
                 fr_LogStartOffset = OldestOffset (pt_log p), fr_FetchedUpTo = upTo\<rparr>, q))"
        by (simp only: FetchRaw_def Let_def fo_def [symmetric] guards if_False if_True not_True_eq_False Some x q option.case prod.case)
      have FG: "FetchRawRanges off i maxBytes True p =
          (if \<not> fo \<and> upTo > pt_highWatermark q
           then (case cap_ranges (pt_highWatermark q) [\<lparr>rr_File = f, rr_Offset = pos, rr_Length = int (length raw)\<rparr>] [] 0 off of
               None \<Rightarrow> Some (Inl (Wrapped OtherError), q)
             | Some (c, n, u) \<Rightarrow> Some (Inr \<lparr>fg_Ranges = c, fg_RecordsSize = n, fg_HighWatermark = pt_highWatermark q,
                 fg_LogStartOffset = OldestOffset (pt_log p), fg_FetchedUpTo = u\<rparr>, q))
           else Some (Inr \<lparr>fg_Ranges = [\<lparr>rr_File = f, rr_Offset = pos, rr_Length = int (length raw)\<rparr>], fg_RecordsSize = int (length raw),
                 fg_HighWatermark = pt_highWatermark q, fg_LogStartOffset = OldestOffset (pt_log p), fg_FetchedUpTo = upTo\<rparr>, q))"
        by (simp only: FetchRawRanges_def Let_def fo_def [symmetric] guards if_False if_True not_True_eq_False simp_thms rr(1) q
            option.case prod.case ReadRawRangesResult.select_convs)
      note cap = cap_one_range [OF rr(2), of "pt_highWatermark q" off]
      show ?thesis
      proof (cases "\<not> fo \<and> upTo > pt_highWatermark q")
        case c: True
        show ?thesis
        proof (cases "capToHW raw 0 (int (length raw)) (pt_highWatermark q) off")
          case None
          then show ?thesis using F FR FG c cap by (auto simp del: cap_ranges.simps)
        next
          case (Some y)
          obtain n u' where y: "y = (n, u')" by (cases y)
          obtain rs u'' where "cap_ranges (pt_highWatermark q) [\<lparr>rr_File = f, rr_Offset = pos, rr_Length = int (length raw)\<rparr>] [] 0 off = Some (rs, n, u'')"
              "ranges_data rs = Some (take (nat n) raw)" "0 \<le> n" "n \<le> int (length raw)"
            using cap Some y by blast
          then show ?thesis using F FR FG c Some y by (auto simp: same_read_def min_absorb1 simp del: cap_ranges.simps)
        qed
      next
        case False
        then have "r = Inr \<lparr>fr_Records = Some raw, fr_HighWatermark = pt_highWatermark q,
                 fr_LogStartOffset = OldestOffset (pt_log p), fr_FetchedUpTo = upTo\<rparr> \<and> p' = q" using F FR by auto
        then show ?thesis using FG False rr(2) by (auto simp: same_read_def)
      qed
    qed
  qed
qed

section \<open>Progress\<close>

text \<open>Every in-sync follower fetches at the end of the leader's log.\<close>

fun fetch_all :: "i32 list \<Rightarrow> i32 \<Rightarrow> Partition \<Rightarrow> Partition option" where
  "fetch_all [] maxBytes p = Some p"
| "fetch_all (i # is) maxBytes p = (case FetchRaw (LEO p) i maxBytes p of None \<Rightarrow> None | Some (_, p) \<Rightarrow> fetch_all is maxBytes p)"

lemma set_leo_map:
  "distinct (map ie_BrokerID isr) \<Longrightarrow> set_leo i leo isr = map (\<lambda>e. if ie_BrokerID e = i then e\<lparr>ie_LEO := leo\<rparr> else e) isr"
  by (induction isr) (auto simp: image_iff intro!: map_idI [symmetric])

lemma fetch_at_end:
  assumes ok: "part_ok p bss" and lead: "pt_isLeader p" "\<not> pt_closed p" and i: "0 \<le> sint i"
  shows "\<exists>r p'. FetchRaw (LEO p) i maxBytes p = Some (r, p') \<and> updateFollowerLEO i (LEO p) p = Some p'"
proof -
  obtain u where u: "updateFollowerLEO i (LEO p) p = Some u" using updateFollowerLEO_sound [OF ok] by blast
  have "OldestOffset (pt_log p) \<le> LEO p" using ok by (auto simp: part_ok_def)
  then show ?thesis using u lead i by (simp add: FetchRaw_def LEO_def Let_def not_less)
qed

text \<open>The offsets of some followers have reached the end of the log.\<close>

definition caught_up :: "Partition \<Rightarrow> i32 set \<Rightarrow> bool" where
  "caught_up p is \<longleftrightarrow> (\<forall>e\<in>set (pt_isr p). ie_BrokerID e \<in> is \<longrightarrow> ie_LEO e = LEO p)"

lemma fetch_all_progress:
  assumes "part_ok p bss" and "pt_isLeader p" "\<not> pt_closed p" and "\<forall>i\<in>set is. 0 \<le> sint i"
    and "distinct (ISRSnapshot p)" and "caught_up p done" and "pt_isr p \<noteq> []"
    and "is = [] \<longrightarrow> (set (ISRSnapshot p) \<subseteq> insert (pt_localBrokerID p) done \<longrightarrow> pt_highWatermark p = LEO p)"
  shows "\<exists>p'. fetch_all is maxBytes p = Some p' \<and> part_ok p' bss \<and> LEO p' = LEO p \<and> answers_kept p p' \<and>
    (\<forall>e\<in>waiting p. e \<in> waiting p' \<or> completed p' e None) \<and>
    (set (ISRSnapshot p) \<subseteq> insert (pt_localBrokerID p) (done \<union> set is) \<longrightarrow> pt_highWatermark p' = LEO p)"
  using assms
proof (induction "is" arbitrary: p "done")
  case Nil
  then show ?case by (simp add: answers_kept_def)
next
  case (Cons i "is")
  obtain r q where q: "FetchRaw (LEO p) i maxBytes p = Some (r, q)" "updateFollowerLEO i (LEO p) p = Some q"
    using fetch_at_end [OF Cons.prems(1-3), of i maxBytes] Cons.prems(4) by auto
  let ?p = "p\<lparr>pt_isr := set_leo i (LEO p) (pt_isr p)\<rparr>"
  have okp: "part_ok ?p bss" using Cons.prems(1) by simp
  define hw where "hw = max (pt_highWatermark p) (min_leo (pt_localBrokerID p) (LEO p) (pt_isr ?p))"
  have isr: "pt_isr ?p = map (\<lambda>e. if ie_BrokerID e = i then e\<lparr>ie_LEO := LEO p\<rparr> else e) (pt_isr p)"
    using set_leo_map Cons.prems(5) by (simp add: ISRSnapshot_def)
  have adv: "part_ok q bss" "same_role ?p q" "drained ?p hw q"
    using maybeAdvanceHW_rep [OF okp] q(2) isr Cons.prems(2,7) by (auto simp: updateFollowerLEO_def hw_def LEO_def)
  have snap: "ISRSnapshot q = ISRSnapshot p" using adv(2) isr by (simp add: ISRSnapshot_def same_role_def o_def if_distrib cong: if_cong)
  have same: "LEO q = LEO p" "pt_isLeader q" "\<not> pt_closed q" "pt_localBrokerID q = pt_localBrokerID p" "pt_isr q = pt_isr ?p"
    using adv(2) Cons.prems(2,3) by (simp_all add: same_role_def LEO_def)
  have cu: "caught_up q (insert i done)"
    unfolding caught_up_def same(1,5) isr using Cons.prems(6) by (auto simp: caught_up_def)
  have hwq: "pt_highWatermark q = LEO p" if all: "set (ISRSnapshot p) \<subseteq> insert (pt_localBrokerID p) (insert i done)"
  proof -
    have "LEO p \<le> ie_LEO e" if "e \<in> set (pt_isr ?p)" "ie_BrokerID e \<noteq> pt_localBrokerID p" for e
    proof -
      have "ie_BrokerID e \<in> set (ISRSnapshot q)" using that(1) same(5) by (simp add: ISRSnapshot_def)
      then have "ie_BrokerID e \<in> insert i done" using all snap that(2) by auto
      then show ?thesis using cu that(1) same(1,5) by (auto simp: caught_up_def)
    qed
    then have "LEO p \<le> min_leo (pt_localBrokerID p) (LEO p) (pt_isr ?p)" by (intro min_leo_greatest) simp_all
    moreover have "min_leo (pt_localBrokerID p) (LEO p) (pt_isr ?p) \<le> LEO p" by (rule min_leo_le)
    moreover have "pt_highWatermark p \<le> LEO p" using Cons.prems(1) by (simp add: part_ok_def)
    ultimately have "hw = LEO p" by (simp add: hw_def max_def)
    then show ?thesis using adv(3) by (simp add: drained_def)
  qed
  have w: "e \<in> waiting q \<or> completed q e None" if "e \<in> waiting p" for e
  proof (cases "hw < required p e")
    case True
    have "waiting q = {e \<in> waiting ?p. hw < required ?p e}" using adv(3) unfolding drained_def by blast
    then show ?thesis using True that by (simp add: waiting_def)
  next
    case False
    have "outcome (pt_purgatory q) = (\<lambda>e. if e \<in> waiting ?p \<and> required ?p e \<le> hw then (required ?p e, True, None) else outcome (pt_purgatory ?p) e)"
      using adv(3) unfolding drained_def by (elim conjE)
    from fun_cong [OF this, of e] have "outcome (pt_purgatory q) e = (required ?p e, True, None)"
      using False that by (simp add: waiting_def not_less)
    then show ?thesis by (simp add: completed_def)
  qed
  have ne: "pt_isr q \<noteq> []" using same(5) isr Cons.prems(7) by simp
  have i': "\<forall>i\<in>set is. 0 \<le> sint i" and d: "distinct (ISRSnapshot q)" using Cons.prems(4,5) snap by simp_all
  have last: "is = [] \<longrightarrow> (set (ISRSnapshot q) \<subseteq> insert (pt_localBrokerID q) (insert i done) \<longrightarrow> pt_highWatermark q = LEO q)"
    using hwq snap same(1,4) by simp
  obtain p' where p': "fetch_all is maxBytes q = Some p'" "part_ok p' bss" "LEO p' = LEO q" "answers_kept q p'"
      "\<forall>e\<in>waiting q. e \<in> waiting p' \<or> completed p' e None"
      "set (ISRSnapshot q) \<subseteq> insert (pt_localBrokerID q) (insert i done \<union> set is) \<longrightarrow> pt_highWatermark p' = LEO q"
    using Cons.IH [OF adv(1) same(2,3) i' d cu ne last] by blast
  have kept: "answers_kept p q" using updateFollowerLEO_sound [OF Cons.prems(1), of i "LEO p"] q(2) by (auto simp: acks_sound_def)
  have "e \<in> waiting p' \<or> completed p' e None" if "e \<in> waiting p" for e
    using w [OF that] p'(4,5) by (auto simp: answers_kept_def)
  then show ?case using p' q(1) snap same(1,4) answers_kept_trans [OF kept p'(4)] by simp
qed

lemma followers_acknowledge:
  assumes ok: "part_ok p bss" and lead: "pt_isLeader p" "\<not> pt_closed p" and ids: "is \<noteq> []" "\<forall>i\<in>set is. 0 \<le> sint i"
    and isr: "distinct (ISRSnapshot p)" "pt_isr p \<noteq> []" "set (ISRSnapshot p) \<subseteq> insert (pt_localBrokerID p) (set is)"
  shows "\<exists>p'. fetch_all is maxBytes p = Some p' \<and> part_ok p' bss \<and> pt_highWatermark p' = LEO p \<and> waiting p' = {} \<and>
    (\<forall>e\<in>waiting p. completed p' e None)"
proof -
  obtain p' where p': "fetch_all is maxBytes p = Some p'" "part_ok p' bss" "LEO p' = LEO p"
      "\<forall>e\<in>waiting p. e \<in> waiting p' \<or> completed p' e None" "pt_highWatermark p' = LEO p"
    using fetch_all_progress [OF ok lead ids(2) isr(1), of "{}" maxBytes] isr(2,3) ids(1) by (auto simp: caught_up_def)
  have "waiting p' = {}" using p'(2,3,5) by (force simp: part_ok_def)
  then show ?thesis using p' by auto
qed

section \<open>Replication\<close>

text \<open>A follower holds a prefix of its leader's batches.\<close>

definition replicates :: "Partition \<Rightarrow> bytes list list \<Rightarrow> Partition \<Rightarrow> bytes list list \<Rightarrow> bool" where
  "replicates f bsf p bsl \<longleftrightarrow> part_ok f bsf \<and> part_ok p bsl \<and> OldestOffset (pt_log f) = OldestOffset (pt_log p) \<and>
     (\<exists>rest. concat bsl = concat bsf @ rest)"

lemma same_position:
  assumes "xs @ ys = as @ b # cs"
    and "total_records as \<le> total_records xs" and "total_records xs < total_records as + records b"
  shows "xs = as"
  using assms
proof (induction xs arbitrary: as)
  case Nil
  then show ?case using total_pos [of as] by auto
next
  case (Cons x xs)
  show ?case
  proof (cases as)
    case Nil
    then show ?thesis using Cons.prems by auto
  next
    case (Cons a as')
    then show ?thesis using Cons.IH [of as'] Cons.prems by auto
  qed
qed

text \<open>A follower's fetch at the end of its own log returns batches that continue it.\<close>

lemma follower_fetch:
  assumes rp: "replicates f bsf p bsl" and i: "0 \<le> sint i" and F: "FetchRaw (LEO f) i maxBytes p = Some (Inr x, p')"
  shows "\<exists>zs rest. (case fr_Records x of None \<Rightarrow> [] | Some d \<Rightarrow> d) = concat zs \<and> list_all raw_ok zs \<and>
    concat bsl = concat bsf @ zs @ rest \<and> fr_HighWatermark x = pt_highWatermark p' \<and> part_ok p' bsl \<and>
    pt_log p' = pt_log p"
proof -
  have okf: "part_ok f bsf" and okp: "part_ok p bsl" and same: "OldestOffset (pt_log f) = OldestOffset (pt_log p)"
    using rp by (simp_all add: replicates_def)
  obtain rest0 where rest0: "concat bsl = concat bsf @ rest0" using rp by (auto simp: replicates_def)
  have reps: "log_rep (pt_log f) bsf" "log_rep (pt_log p) bsl" using okf okp by (simp_all add: part_ok_def)
  have leo: "unat (LEO f) = unat (OldestOffset (pt_log p)) + total_records (concat bsf)"
    using log_next [OF reps(1)] same by (simp add: LEO_def)
  obtain u where u: "updateFollowerLEO i (LEO f) p = Some u" "part_ok u bsl" "pt_log u = pt_log p"
    using updateFollowerLEO_sound [OF okp, of i "LEO f"] by (auto simp: same_role_def)
  have g: "\<not> pt_closed p" "pt_isLeader p" "\<not> LEO f < OldestOffset (pt_log p)" "\<not> LEO f > NextOffset (pt_log p)"
    using F by (auto simp: FetchRaw_def Let_def split: if_splits)
  show ?thesis
  proof (cases "LEO f = NextOffset (pt_log p)")
    case True
    then have "fr_Records x = None \<and> fr_HighWatermark x = pt_highWatermark p' \<and> p' = u"
      using F g i u(1) by (auto simp: FetchRaw_def Let_def)
    then show ?thesis using rest0 u(2,3) by (intro exI [of _ "[]"] exI [of _ rest0]) simp
  next
    case False
    have lt: "OldestOffset (pt_log p) \<le> LEO f" "LEO f < LEO p" using g False by (simp_all add: LEO_def not_less)
    obtain as b zs rest upTo where r: "concat bsl = as @ (b # zs) @ rest" "ReadRaw (pt_log p) (LEO f) maxBytes = Some (concat (b # zs), upTo)"
        "unat (OldestOffset (pt_log p)) + total_records as \<le> unat (LEO f)"
        "unat (LEO f) < unat (OldestOffset (pt_log p)) + total_records as + records b" "list_all raw_ok (b # zs)"
      using read_for_offset [OF okp lt, of maxBytes] by blast
    have "concat bsf = as" using same_position [of "concat bsf" rest0 as b "zs @ rest"] r(1,3,4) rest0 leo by simp
    moreover have "fr_Records x = Some (concat (b # zs)) \<and> fr_HighWatermark x = pt_highWatermark p' \<and> p' = u"
      using F g i u(1) False r(2) by (auto simp: FetchRaw_def Let_def)
    ultimately show ?thesis using r(1,5) u(2,3) by (intro exI [of _ "b # zs"] exI [of _ rest]) simp
  qed
qed

lemma replication_step:
  assumes rp: "replicates f bsf p bsl" and i: "0 \<le> sint i" and F: "FetchRaw (LEO f) i maxBytes p = Some (Inr x, p')"
    and d: "data = (case fr_Records x of None \<Rightarrow> [] | Some d \<Rightarrow> d)" and fit: "append_fits (pt_log f) data"
  shows "\<exists>r f' bsf'. AppendFromLeader io data fetchEpoch (fr_HighWatermark x) f = Some (r, f') \<and> replicates f' bsf' p' bsl \<and>
    LEO f \<le> LEO f' \<and> pt_highWatermark f' \<le> max (pt_highWatermark f) (pt_highWatermark p')"
proof -
  obtain zs rest where z: "data = concat zs" "list_all raw_ok zs" "concat bsl = concat bsf @ zs @ rest"
      "fr_HighWatermark x = pt_highWatermark p'" "part_ok p' bsl" "pt_log p' = pt_log p"
    using follower_fetch [OF rp i F] d by auto
  have okf: "part_ok f bsf" and same: "OldestOffset (pt_log f) = OldestOffset (pt_log p)" using rp by (simp_all add: replicates_def)
  obtain r f' bsf' where a: "AppendFromLeader io data fetchEpoch (fr_HighWatermark x) f = Some (r, f')" "part_ok f' bsf'"
      "followed fetchEpoch (fr_HighWatermark x) data f bsf r f' bsf'"
    using AppendFromLeader_sound [OF okf fit] by blast
  have "\<exists>ys rest'. concat bsf' = concat bsf @ ys \<and> zs = ys @ rest'"
  proof (cases r)
    case (Inl e)
    then show ?thesis using a(3) by (simp add: followed_def)
  next
    case (Inr u)
    then obtain ds where ds: "data = concat ds" "list_all scannable ds"
        "concat bsf' = concat bsf @ takeWhile (\<lambda>d. sint (hdr_epoch d) \<le> sint fetchEpoch) ds"
      using a(3) by (auto simp: followed_def)
    then have "ds = zs" using raw_unique scannable_raw z(1,2) by metis
    then show ?thesis using ds(3) takeWhile_dropWhile_id [of "\<lambda>d. sint (hdr_epoch d) \<le> sint fetchEpoch" zs] by metis
  qed
  then obtain ys rest' where ys: "concat bsf' = concat bsf @ ys" "zs = ys @ rest'" by blast
  have o: "OldestOffset (pt_log f') = OldestOffset (pt_log f)" using a(3) by (simp add: followed_def)
  have "replicates f' bsf' p' bsl" using a(2) z(3,5,6) o same ys by (simp add: replicates_def)
  moreover have "LEO f \<le> LEO f'"
    using log_next [of "pt_log f" bsf] log_next [of "pt_log f'" bsf'] okf a(2) o ys(1) by (simp add: part_ok_def word_le_nat_alt LEO_def)
  moreover have "pt_highWatermark f' \<le> max (pt_highWatermark f) (pt_highWatermark p')"
    using a(3) z(4) by (cases r) (auto simp: followed_def max_def min_def)
  ultimately show ?thesis using a(1) by blast
qed

end
