(* ===== verification/Topics.thy ===== *)
theory Topics
  imports PartitionFetch ControllerRuns
begin

text \<open>
  \<open>topic_manager.go\<close>: the topics of a broker, their partitions, and the reconciliation of the local
  replicas with the assignments of the controller.

  The map of topics is an association list.  A partition directory is named by its path below the data
  directory; \<open>TopicEnv\<close> holds what the directories contain when they are opened and which calls fail.
  An operation that removes directories returns their names.  \<^const>\<open>None\<close> is a panic.
\<close>

section \<open>State\<close>

record Topic =
  tp_name :: gostring
  tp_partitions :: "Partition option list"

record TopicManager =
  tm_localBrokerID :: i32
  tm_logConfig :: LogConfig
  tm_topics :: "(gostring \<times> Topic) list"

datatype TopicError =
    CreateDataDir | ReadDataDir | OpenLog | OnPartition PartitionError
  | InvalidTopicName | BadPartitionCount | TopicExists | UnknownTopic | CloseFailed | RemoveFailed

record PartitionDir =
  pd_io :: OpenIO
  pd_names :: "gostring list"
  pd_files :: LogFiles
  pd_fs :: FS

record TopicEnv =
  te_dir :: "gostring \<Rightarrow> PartitionDir"
  te_log :: "gostring \<Rightarrow> LogIO"
  te_close :: "gostring \<Rightarrow> u64 \<Rightarrow> PairIO"
  te_remove :: "gostring \<Rightarrow> bool"

section \<open>Names\<close>

definition partitionDir :: "gostring \<Rightarrow> int \<Rightarrow> gostring" where
  "partitionDir topic partitionID = topic @ gostr ''-'' @ fmt_d partitionID"

text \<open>A range loop over a string gives code points; one outside ASCII is refused, and so are its bytes.\<close>

definition name_char :: "byte \<Rightarrow> bool" where
  "name_char c \<longleftrightarrow> 97 \<le> c \<and> c \<le> 122 \<or> 65 \<le> c \<and> c \<le> 90 \<or> 48 \<le> c \<and> c \<le> 57 \<or> c = 46 \<or> c = 95 \<or> c = 45"

definition validateTopicName :: "gostring \<Rightarrow> bool" where
  "validateTopicName name =
     (if name = [] then False
      else if name = gostr ''.'' \<or> name = gostr ''..'' then False
      else if length name > 249 then False
      else list_all name_char name)"

definition LastIndex :: "gostring \<Rightarrow> byte \<Rightarrow> int" where
  "LastIndex s c = int (length s) - 1 - int (length (takeWhile (\<lambda>b. b \<noteq> c) (rev s)))"

section \<open>Opening\<close>

definition open_log :: "TopicEnv \<Rightarrow> LogConfig \<Rightarrow> gostring \<Rightarrow> (TopicError + Log) option" where
  "open_log env config dir =
     (let d = te_dir env dir in
      case NewLog (pd_io d) (pd_names d) (pd_files d) (pd_fs d) (dir @ gostr ''/leader-epoch-checkpoint'') config of
        None \<Rightarrow> None
      | Some (Inl _) \<Rightarrow> Some (Inl OpenLog)
      | Some (Inr l) \<Rightarrow> Some (Inr l))"

text \<open>The directory entries that hold partitions: topic, partition and directory name.\<close>

definition dir_entry :: "gostring \<times> bool \<Rightarrow> (gostring \<times> int \<times> gostring) option" where
  "dir_entry = (\<lambda>(name, isDir).
     if \<not> isDir then None
     else let idx = LastIndex name 45 in
       if idx < 0 then None
       else let topicName = take (nat idx) name in
         if \<not> validateTopicName topicName then None
         else (case Atoi (drop (nat idx + 1) name) of
             None \<Rightarrow> None
           | Some partID \<Rightarrow> if partID < 0 then None else Some (topicName, partID, name)))"

fun group_entries :: "(gostring \<times> (int \<times> gostring) list) list \<Rightarrow> (gostring \<times> bool) list \<Rightarrow> (gostring \<times> (int \<times> gostring) list) list" where
  "group_entries byTopic [] = byTopic"
| "group_entries byTopic (entry # entries) =
     (case dir_entry entry of
        None \<Rightarrow> group_entries byTopic entries
      | Some (topicName, partID, name) \<Rightarrow>
          let dirs = (case map_of byTopic topicName of None \<Rightarrow> [] | Some dirs \<Rightarrow> dirs) in
          group_entries (AList.update topicName (dirs @ [(partID, name)]) byTopic) entries)"

fun recover_partitions ::
    "TopicEnv \<Rightarrow> TopicManager \<Rightarrow> gostring \<Rightarrow> (int \<times> gostring) list \<Rightarrow> Partition option list \<Rightarrow> Partition option list option" where
  "recover_partitions env tm topicName [] partitions = Some partitions"
| "recover_partitions env tm topicName ((i, dir) # dirs) partitions =
     (case open_log env (tm_logConfig tm) dir of
        None \<Rightarrow> None
      | Some (Inl _) \<Rightarrow> recover_partitions env tm topicName dirs partitions
      | Some (Inr l) \<Rightarrow>
          recover_partitions env tm topicName dirs
            (partitions[nat i := Some (NewPartition topicName (word_of_int i) (tm_localBrokerID tm) l)]))"

fun recover_topics :: "TopicEnv \<Rightarrow> (gostring \<times> (int \<times> gostring) list) list \<Rightarrow> TopicManager \<Rightarrow> TopicManager option" where
  "recover_topics env [] tm = Some tm"
| "recover_topics env ((topicName, dirs) # byTopic) tm =
     (let maxID = fold (\<lambda>(i, _) m. if i > m then i else m) dirs 0 in
      if maxID > 9999 then recover_topics env byTopic tm
      else case recover_partitions env tm topicName dirs (replicate (nat maxID + 1) None) of
        None \<Rightarrow> None
      | Some partitions \<Rightarrow>
          recover_topics env byTopic
            (tm\<lparr>tm_topics := AList.update topicName \<lparr>tp_name = topicName, tp_partitions = partitions\<rparr> (tm_topics tm)\<rparr>))"

text \<open>\<open>entries\<close> is the listing of the data directory, none when it cannot be read.\<close>

definition recoverFromDisk :: "TopicEnv \<Rightarrow> (gostring \<times> bool) list option \<Rightarrow> TopicManager \<Rightarrow> (TopicError + TopicManager) option" where
  "recoverFromDisk env entries tm =
     (case entries of
        None \<Rightarrow> Some (Inl ReadDataDir)
      | Some es \<Rightarrow> map_option Inr (recover_topics env (group_entries [] es) tm))"

definition NewTopicManager ::
    "TopicEnv \<Rightarrow> bool \<Rightarrow> (gostring \<times> bool) list option \<Rightarrow> i32 \<Rightarrow> LogConfig \<Rightarrow> (TopicError + TopicManager) option" where
  "NewTopicManager env mkdirFails entries localBrokerID logConfig =
     (if mkdirFails then Some (Inl CreateDataDir)
      else recoverFromDisk env entries \<lparr>tm_localBrokerID = localBrokerID, tm_logConfig = logConfig, tm_topics = []\<rparr>)"

section \<open>Reconciling with the controller\<close>

definition equalInt32s :: "i32 list \<Rightarrow> i32 list \<Rightarrow> bool" where
  "equalInt32s a b \<longleftrightarrow> length a = length b \<and> list_all (\<lambda>i. a ! i = b ! i) [0..<length a]"

fun release_partitions :: "(gostring \<times> i32) list \<Rightarrow> gostring \<Rightarrow> nat \<Rightarrow> Partition option list \<Rightarrow> Partition option list option" where
  "release_partitions desired topic i [] = Some []"
| "release_partitions desired topic i (q # qs) =
     (case q of
        None \<Rightarrow> Some None
      | Some p \<Rightarrow>
          if (topic, word_of_nat i) \<in> set desired then Some (Some p)
          else let (leaderID, _, isLeader) = Assignment p in
            if isLeader \<or> sint leaderID \<ge> 0 then map_option Some (MakeUnassigned p) else Some (Some p)) \<bind>
     (\<lambda>q'. map_option (Cons q') (release_partitions desired topic (Suc i) qs))"

fun release_topics :: "(gostring \<times> i32) list \<Rightarrow> (gostring \<times> Topic) list \<Rightarrow> (gostring \<times> Topic) list option" where
  "release_topics desired [] = Some []"
| "release_topics desired ((topic, t) # topics) =
     (case release_partitions desired topic 0 (tp_partitions t) of
        None \<Rightarrow> None
      | Some ps \<Rightarrow> map_option (Cons (topic, t\<lparr>tp_partitions := ps\<rparr>)) (release_topics desired topics))"

definition put_partition :: "gostring \<Rightarrow> i32 \<Rightarrow> Partition \<Rightarrow> TopicManager \<Rightarrow> TopicManager" where
  "put_partition topic i p tm =
     (case map_of (tm_topics tm) topic of
        None \<Rightarrow> tm
      | Some t \<Rightarrow> tm\<lparr>tm_topics := AList.update topic (t\<lparr>tp_partitions := (tp_partitions t)[nat (sint i) := Some p]\<rparr>) (tm_topics tm)\<rparr>)"

text \<open>The slot of an assignment: a new topic starts empty, and the slice grows up to the index.\<close>

definition make_slot :: "PartitionMetadata \<Rightarrow> TopicManager \<Rightarrow> (Partition option \<times> TopicManager) option" where
  "make_slot pm tm =
     (let t = (case map_of (tm_topics tm) (pm_Topic pm) of Some t \<Rightarrow> t | None \<Rightarrow> \<lparr>tp_name = pm_Topic pm, tp_partitions = []\<rparr>);
          n = length (tp_partitions t)
      in if sint (pm_Partition pm) \<ge> int n
      then if sint (pm_Partition pm + 1) < 0 then None
        else let t = t\<lparr>tp_partitions := tp_partitions t @ replicate (nat (sint (pm_Partition pm + 1)) - n) None\<rparr>
          in Some (tp_partitions t ! nat (sint (pm_Partition pm)), tm\<lparr>tm_topics := AList.update (pm_Topic pm) t (tm_topics tm)\<rparr>)
      else if sint (pm_Partition pm) < 0 then None
      else Some (tp_partitions t ! nat (sint (pm_Partition pm)), tm\<lparr>tm_topics := AList.update (pm_Topic pm) t (tm_topics tm)\<rparr>))"

definition local_partition :: "TopicEnv \<Rightarrow> i32 \<Rightarrow> PartitionMetadata \<Rightarrow> TopicManager \<Rightarrow> ((TopicError + Partition) \<times> TopicManager) option" where
  "local_partition env brokerID pm tm =
     (case make_slot pm tm of
        None \<Rightarrow> None
      | Some (Some p, tm) \<Rightarrow> Some (Inr p, tm)
      | Some (None, tm) \<Rightarrow>
          (case open_log env (tm_logConfig tm) (partitionDir (pm_Topic pm) (sint (pm_Partition pm))) of
             None \<Rightarrow> None
           | Some (Inl e) \<Rightarrow> Some (Inl e, tm)
           | Some (Inr l) \<Rightarrow>
               let p = NewPartition (pm_Topic pm) (pm_Partition pm) brokerID l
               in Some (Inr p, put_partition (pm_Topic pm) (pm_Partition pm) p tm)))"

definition assign_role :: "LogIO \<Rightarrow> i32 \<Rightarrow> PartitionMetadata \<Rightarrow> unit PartOp" where
  "assign_role io brokerID pm p =
     (let (leaderID, epoch, isLeader) = Assignment p in
      if pm_LeaderBrokerID pm = brokerID
      then if isLeader \<and> leaderID = brokerID \<and> epoch = pm_LeaderEpoch pm
        then if \<not> equalInt32s (ISRSnapshot p) (pm_ISR pm) then UpdateLeaderISR (pm_LeaderEpoch pm) (pm_ISR pm) p else Some (Inr (), p)
        else MakeLeader io (pm_LeaderEpoch pm) (pm_ISR pm) (HighWatermark p) p
      else if isLeader \<or> leaderID \<noteq> pm_LeaderBrokerID pm \<or> epoch \<noteq> pm_LeaderEpoch pm
      then map_option (\<lambda>p. (Inr (), p)) (MakeFollower (pm_LeaderEpoch pm) (pm_LeaderBrokerID pm) p)
      else Some (Inr (), p))"

fun reconcile_all :: "TopicEnv \<Rightarrow> i32 \<Rightarrow> PartitionMetadata list \<Rightarrow> TopicManager \<Rightarrow> ((TopicError + unit) \<times> TopicManager) option" where
  "reconcile_all env brokerID [] tm = Some (Inr (), tm)"
| "reconcile_all env brokerID (pm # pms) tm =
     (case local_partition env brokerID pm tm of
        None \<Rightarrow> None
      | Some (Inl e, tm) \<Rightarrow> Some (Inl e, tm)
      | Some (Inr p, tm) \<Rightarrow>
          (case assign_role (te_log env (partitionDir (pm_Topic pm) (sint (pm_Partition pm)))) brokerID pm p of
             None \<Rightarrow> None
           | Some (r, p) \<Rightarrow>
               let tm = put_partition (pm_Topic pm) (pm_Partition pm) p tm in
               (case r of
                  Inl e \<Rightarrow> Some (Inl (OnPartition e), tm)
                | Inr _ \<Rightarrow> reconcile_all env brokerID pms tm)))"

text \<open>\<open>assignments\<close> is what the controller returns for the broker.\<close>

definition Reconcile :: "TopicEnv \<Rightarrow> PartitionMetadata list \<Rightarrow> i32 \<Rightarrow> TopicManager \<Rightarrow> ((TopicError + unit) \<times> TopicManager) option" where
  "Reconcile env assignments brokerID tm =
     (let desired = map (\<lambda>pm. (pm_Topic pm, pm_Partition pm)) assignments in
      case release_topics desired (tm_topics tm) of
        None \<Rightarrow> None
      | Some topics \<Rightarrow> reconcile_all env brokerID assignments (tm\<lparr>tm_topics := topics\<rparr>))"

section \<open>Topics\<close>

definition close_ignored :: "TopicEnv \<Rightarrow> gostring \<Rightarrow> Partition \<Rightarrow> unit option" where
  "close_ignored env dir p = map_option (\<lambda>_. ()) (Partition_Close (te_close env dir) p)"

fun discard :: "TopicEnv \<Rightarrow> gostring \<Rightarrow> nat \<Rightarrow> Partition list \<Rightarrow> gostring list option" where
  "discard env name j [] = Some []"
| "discard env name j (p # ps) =
     (case close_ignored env (partitionDir name (int j)) p of
        None \<Rightarrow> None
      | Some _ \<Rightarrow> map_option (Cons (partitionDir name (int j))) (discard env name (Suc j) ps))"

text \<open>\<open>n\<close> partitions are still to be made; \<open>partitions\<close> are those made so far.  The names are the
  directories removed after a failure.\<close>

fun create_partitions ::
    "TopicEnv \<Rightarrow> TopicManager \<Rightarrow> gostring \<Rightarrow> bool \<Rightarrow> nat \<Rightarrow> Partition list \<Rightarrow> ((TopicError + Partition list) \<times> gostring list) option" where
  "create_partitions env tm name initialLeader 0 partitions = Some (Inr partitions, [])"
| "create_partitions env tm name initialLeader (Suc n) partitions =
     (let i = length partitions; dir = partitionDir name (int i) in
      case open_log env (tm_logConfig tm) dir of
        None \<Rightarrow> None
      | Some (Inl e) \<Rightarrow> map_option (\<lambda>removed. (Inl e, removed)) (discard env name 0 partitions)
      | Some (Inr l) \<Rightarrow>
          let p = NewPartition name (word_of_nat i) (tm_localBrokerID tm) l in
          if initialLeader
          then (case MakeLeader (te_log env dir) 1 [tm_localBrokerID tm] (NextOffset l) p of
              None \<Rightarrow> None
            | Some (Inl e, p) \<Rightarrow>
                (case close_ignored env dir p of
                   None \<Rightarrow> None
                 | Some _ \<Rightarrow> map_option (\<lambda>removed. (Inl (OnPartition e), removed @ [dir])) (discard env name 0 partitions))
            | Some (Inr _, p) \<Rightarrow> create_partitions env tm name initialLeader n (partitions @ [p]))
          else create_partitions env tm name initialLeader n (partitions @ [p]))"

definition CreateTopic ::
    "TopicEnv \<Rightarrow> gostring \<Rightarrow> int \<Rightarrow> bool \<Rightarrow> TopicManager \<Rightarrow> ((TopicError + unit) \<times> TopicManager \<times> gostring list) option" where
  "CreateTopic env name numPartitions initialLeader tm =
     (if \<not> validateTopicName name then Some (Inl InvalidTopicName, tm, [])
      else if numPartitions \<le> 0 then Some (Inl BadPartitionCount, tm, [])
      else if map_of (tm_topics tm) name \<noteq> None then Some (Inl TopicExists, tm, [])
      else case create_partitions env tm name initialLeader (nat numPartitions) [] of
        None \<Rightarrow> None
      | Some (Inl e, removed) \<Rightarrow> Some (Inl e, tm, removed)
      | Some (Inr ps, removed) \<Rightarrow>
          Some (Inr (), tm\<lparr>tm_topics := AList.update name \<lparr>tp_name = name, tp_partitions = map Some ps\<rparr> (tm_topics tm)\<rparr>, removed))"

definition TM_GetPartition :: "TopicManager \<Rightarrow> gostring \<Rightarrow> i32 \<Rightarrow> ErrorCode + Partition" where
  "TM_GetPartition tm topic partitionID =
     (case map_of (tm_topics tm) topic of
        None \<Rightarrow> Inl ErrUnknownTopicOrPartition
      | Some t \<Rightarrow>
          if sint partitionID < 0 \<or> sint partitionID \<ge> int (length (tp_partitions t)) then Inl ErrUnknownTopicOrPartition
          else (case tp_partitions t ! nat (sint partitionID) of
              None \<Rightarrow> Inl ErrStorageError
            | Some p \<Rightarrow> Inr p))"

text \<open>The first error counts; every partition is closed all the same.\<close>

definition first_error :: "TopicError option \<Rightarrow> bool \<Rightarrow> TopicError \<Rightarrow> TopicError option" where
  "first_error firstErr failed e = (if failed \<and> firstErr = None then Some e else firstErr)"

fun delete_partitions ::
    "TopicEnv \<Rightarrow> gostring \<Rightarrow> nat \<Rightarrow> Partition option list \<Rightarrow> TopicError option \<Rightarrow> gostring list \<Rightarrow> (TopicError option \<times> gostring list) option" where
  "delete_partitions env name i [] firstErr removed = Some (firstErr, removed)"
| "delete_partitions env name i (None # ps) firstErr removed = delete_partitions env name (Suc i) ps firstErr removed"
| "delete_partitions env name i (Some p # ps) firstErr removed =
     (let dir = partitionDir name (int i) in
      case Partition_Close (te_close env dir) p of
        None \<Rightarrow> None
      | Some ((ok, _), _) \<Rightarrow>
          let firstErr = first_error firstErr (\<not> ok) CloseFailed;
              firstErr = first_error firstErr (te_remove env dir) RemoveFailed
          in delete_partitions env name (Suc i) ps firstErr (if te_remove env dir then removed else removed @ [dir]))"

definition DeleteTopic :: "TopicEnv \<Rightarrow> gostring \<Rightarrow> TopicManager \<Rightarrow> (TopicError option \<times> TopicManager \<times> gostring list) option" where
  "DeleteTopic env name tm =
     (case map_of (tm_topics tm) name of
        None \<Rightarrow> Some (Some UnknownTopic, tm, [])
      | Some t \<Rightarrow>
          map_option (\<lambda>(e, removed). (e, tm\<lparr>tm_topics := AList.delete name (tm_topics tm)\<rparr>, removed))
            (delete_partitions env name 0 (tp_partitions t) None []))"

fun close_partitions :: "TopicEnv \<Rightarrow> gostring \<Rightarrow> nat \<Rightarrow> Partition option list \<Rightarrow> TopicError option \<Rightarrow> TopicError option option" where
  "close_partitions env name i [] firstErr = Some firstErr"
| "close_partitions env name i (None # ps) firstErr = close_partitions env name (Suc i) ps firstErr"
| "close_partitions env name i (Some p # ps) firstErr =
     (case Partition_Close (te_close env (partitionDir name (int i))) p of
        None \<Rightarrow> None
      | Some ((ok, _), _) \<Rightarrow> close_partitions env name (Suc i) ps (first_error firstErr (\<not> ok) CloseFailed))"

fun close_topics :: "TopicEnv \<Rightarrow> (gostring \<times> Topic) list \<Rightarrow> TopicError option \<Rightarrow> TopicError option option" where
  "close_topics env [] firstErr = Some firstErr"
| "close_topics env ((name, t) # topics) firstErr =
     close_partitions env name 0 (tp_partitions t) firstErr \<bind> close_topics env topics"

definition TopicManager_Close :: "TopicEnv \<Rightarrow> TopicManager \<Rightarrow> (TopicError option \<times> TopicManager) option" where
  "TopicManager_Close env tm = map_option (\<lambda>e. (e, tm\<lparr>tm_topics := []\<rparr>)) (close_topics env (tm_topics tm) None)"

definition TopicNames :: "TopicManager \<Rightarrow> gostring list" where
  "TopicNames tm = sort (map fst (tm_topics tm))"

definition PartitionCount :: "TopicManager \<Rightarrow> gostring \<Rightarrow> ErrorCode + nat" where
  "PartitionCount tm topic =
     (case map_of (tm_topics tm) topic of
        None \<Rightarrow> Inl ErrUnknownTopicOrPartition
      | Some t \<Rightarrow> Inr (length (tp_partitions t)))"

end
