(* ===== verification/TopicsRep.thy ===== *)
theory TopicsRep
  imports Topics
begin

text \<open>
  What the topic manager guarantees.  Reconciling with the controller makes the local replicas have
  exactly the roles the controller assigned: every assigned partition has its leader, its leader epoch and,
  on the leader, its in-sync replicas; every other partition is released.
\<close>

section \<open>The invariant\<close>

definition part_inv :: "i32 \<Rightarrow> Partition \<Rightarrow> bool" where
  "part_inv b p \<longleftrightarrow> (\<exists>bss. part_ok p bss) \<and> pt_localBrokerID p = b"

definition slot :: "TopicManager \<Rightarrow> gostring \<Rightarrow> nat \<Rightarrow> Partition option" where
  "slot tm topic i =
     (case map_of (tm_topics tm) topic of
        None \<Rightarrow> None
      | Some t \<Rightarrow> if i < length (tp_partitions t) then tp_partitions t ! i else None)"

definition has_slot :: "TopicManager \<Rightarrow> gostring \<Rightarrow> nat \<Rightarrow> bool" where
  "has_slot tm topic i \<longleftrightarrow> (\<exists>t. map_of (tm_topics tm) topic = Some t \<and> i < length (tp_partitions t))"

definition tm_ok :: "TopicManager \<Rightarrow> bool" where
  "tm_ok tm \<longleftrightarrow> distinct (map fst (tm_topics tm)) \<and> (\<forall>topic i p. slot tm topic i = Some p \<longrightarrow> part_inv (tm_localBrokerID tm) p)"

definition same_settings :: "TopicManager \<Rightarrow> TopicManager \<Rightarrow> bool" where
  "same_settings tm tm' \<longleftrightarrow> tm_localBrokerID tm' = tm_localBrokerID tm \<and> tm_logConfig tm' = tm_logConfig tm"

lemma same_settings_refl [simp]: "same_settings tm tm"
  by (simp add: same_settings_def)

lemma same_settings_trans: "same_settings a b \<Longrightarrow> same_settings b c \<Longrightarrow> same_settings a c"
  by (simp add: same_settings_def)

text \<open>A directory opens with a log or fails, and does not panic.\<close>

definition opens :: "TopicEnv \<Rightarrow> LogConfig \<Rightarrow> bool" where
  "opens env config \<longleftrightarrow> (\<forall>dir. \<exists>r. open_log env config dir = Some r \<and> (\<forall>l. r = Inr l \<longrightarrow> (\<exists>bss. log_rep l bss)))"

lemma part_inv_new: "log_rep l bss \<Longrightarrow> part_inv b (NewPartition topic i b l)"
  unfolding part_inv_def using part_ok_new by (intro conjI) (blast, simp add: NewPartition_def)

lemma TM_GetPartition_slot:
  "TM_GetPartition tm topic i = Inr p \<longleftrightarrow> 0 \<le> sint i \<and> slot tm topic (nat (sint i)) = Some p"
  by (auto simp: TM_GetPartition_def slot_def split: option.splits if_splits)

lemma slot_has: "slot tm topic i = Some p \<Longrightarrow> has_slot tm topic i"
  by (auto simp: slot_def has_slot_def split: option.splits if_splits)

lemma slot_put:
  "slot (put_partition topic i p tm) topic' j =
     (if topic' = topic \<and> j = nat (sint i) \<and> has_slot tm topic (nat (sint i)) then Some p else slot tm topic' j)"
  by (auto simp: put_partition_def slot_def has_slot_def AList.update_conv nth_list_update split: option.splits)

lemma has_slot_put: "has_slot (put_partition topic i p tm) topic' j = has_slot tm topic' j"
  by (auto simp: put_partition_def has_slot_def AList.update_conv split: option.splits)

lemma put_settings [simp]: "same_settings tm (put_partition topic i p tm)"
  by (auto simp: put_partition_def same_settings_def split: option.splits)

lemma put_keys: "distinct (map fst (tm_topics tm)) \<Longrightarrow> distinct (map fst (tm_topics (put_partition topic i p tm)))"
  by (auto simp: put_partition_def intro: distinct_update split: option.splits)

lemma tm_ok_put:
  assumes "tm_ok tm" and "part_inv (tm_localBrokerID tm) p"
  shows "tm_ok (put_partition topic i p tm)"
proof -
  have "tm_localBrokerID (put_partition topic i p tm) = tm_localBrokerID tm" using put_settings [of tm topic i p] by (simp add: same_settings_def)
  then show ?thesis using assms put_keys by (auto simp: tm_ok_def slot_put split: if_splits)
qed

section \<open>Releasing\<close>

definition released :: "Partition \<Rightarrow> bool" where
  "released p \<longleftrightarrow> \<not> IsLeader p \<and> sint (pt_leaderID p) < 0"

definition release_one :: "i32 \<Rightarrow> bool \<Rightarrow> Partition option \<Rightarrow> Partition option \<Rightarrow> bool" where
  "release_one b keep q q' \<longleftrightarrow>
     (case q of
        None \<Rightarrow> q' = None
      | Some p \<Rightarrow> \<exists>p'. q' = Some p' \<and> part_inv b p' \<and> (if keep then p' = p else released p'))"

lemma release_partitions_rep:
  assumes "\<forall>p. Some p \<in> set ps \<longrightarrow> part_inv b p"
  shows "\<exists>ps'. release_partitions desired topic i ps = Some ps' \<and> length ps' = length ps \<and>
    (\<forall>j<length ps. release_one b ((topic, word_of_nat (i + j)) \<in> set desired) (ps ! j) (ps' ! j))"
  using assms
proof (induction ps arbitrary: i)
  case Nil
  then show ?case by simp
next
  case (Cons q qs)
  obtain qs' where qs': "release_partitions desired topic (Suc i) qs = Some qs'" "length qs' = length qs"
      "\<forall>j<length qs. release_one b ((topic, word_of_nat (Suc i + j)) \<in> set desired) (qs ! j) (qs' ! j)"
    using Cons.IH [of "Suc i"] Cons.prems by auto
  obtain q' where q': "release_partitions desired topic i (q # qs) = Some (q' # qs')"
      "release_one b ((topic, word_of_nat i) \<in> set desired) q q'"
  proof (cases q)
    case None
    then show ?thesis using qs'(1) that [of None] by (simp add: release_one_def)
  next
    case (Some p)
    have p: "part_inv b p" using Cons.prems Some by simp
    then obtain bss u where u: "MakeUnassigned p = Some u" "part_ok u bss" "stepped_down p u" "pt_leaderID u = - 1"
      using MakeUnassigned_sound unfolding part_inv_def by blast
    have ui: "part_inv b u" "released u" using u p by (auto simp: part_inv_def released_def stepped_down_def IsLeader_def)
    show ?thesis
    proof (cases "(topic, word_of_nat i) \<in> set desired")
      case True
      then show ?thesis using Some p qs'(1) that [of "Some p"] by (simp add: release_one_def)
    next
      case False
      then show ?thesis using Some p u(1) ui qs'(1) that [of "Some p"] that [of "Some u"]
        by (cases "pt_isLeader p \<or> sint (pt_leaderID p) \<ge> 0") (auto simp: Assignment_def released_def IsLeader_def release_one_def)
    qed
  qed
  show ?case
  proof (intro exI [of _ "q' # qs'"] conjI allI impI)
    fix j assume j: "j < length (q # qs)"
    show "release_one b ((topic, word_of_nat (i + j)) \<in> set desired) ((q # qs) ! j) ((q' # qs') ! j)"
      using q'(2) qs'(3) j by (cases j) auto
  qed (use q'(1) qs'(2) in simp_all)
qed

definition release_topic :: "i32 \<Rightarrow> (gostring \<times> i32) list \<Rightarrow> gostring \<Rightarrow> Topic option \<Rightarrow> Topic option \<Rightarrow> bool" where
  "release_topic b desired topic t t' \<longleftrightarrow>
     (case t of
        None \<Rightarrow> t' = None
      | Some t \<Rightarrow> \<exists>ps'. t' = Some (t\<lparr>tp_partitions := ps'\<rparr>) \<and> length ps' = length (tp_partitions t) \<and>
          (\<forall>j<length ps'. release_one b ((topic, word_of_nat j) \<in> set desired) (tp_partitions t ! j) (ps' ! j)))"

lemma release_topics_rep:
  assumes "\<forall>topic t p. (topic, t) \<in> set topics \<longrightarrow> Some p \<in> set (tp_partitions t) \<longrightarrow> part_inv b p"
  shows "\<exists>topics'. release_topics desired topics = Some topics' \<and> map fst topics' = map fst topics \<and>
    (\<forall>topic. release_topic b desired topic (map_of topics topic) (map_of topics' topic))"
  using assms
proof (induction topics)
  case Nil
  then show ?case by (simp add: release_topic_def)
next
  case (Cons x topics)
  obtain topic t where x: "x = (topic, t)" by (cases x)
  obtain topics' where ts: "release_topics desired topics = Some topics'" "map fst topics' = map fst topics"
    "\<forall>topic. release_topic b desired topic (map_of topics topic) (map_of topics' topic)"
    using Cons.IH Cons.prems by (metis list.set_intros(2))
  have "\<forall>p. Some p \<in> set (tp_partitions t) \<longrightarrow> part_inv b p" using Cons.prems x by auto
  from release_partitions_rep [OF this, of desired topic 0] obtain ps' where
    ps: "release_partitions desired topic 0 (tp_partitions t) = Some ps'" "length ps' = length (tp_partitions t)"
    "\<forall>j<length ps'. release_one b ((topic, word_of_nat j) \<in> set desired) (tp_partitions t ! j) (ps' ! j)"
    by auto
  then have "release_topic b desired topic (Some t) (Some (t\<lparr>tp_partitions := ps'\<rparr>))"
    unfolding release_topic_def option.case by (intro exI [of _ ps']) simp
  then show ?case using ts x ps(1) by (intro exI [of _ "(topic, t\<lparr>tp_partitions := ps'\<rparr>) # topics'"]) simp
qed

text \<open>Where a partition is after the release.\<close>

lemma release_rep:
  assumes ok: "tm_ok tm"
  shows "\<exists>topics'. release_topics desired (tm_topics tm) = Some topics' \<and> tm_ok (tm\<lparr>tm_topics := topics'\<rparr>) \<and>
    (\<forall>topic j. release_one (tm_localBrokerID tm) ((topic, word_of_nat j) \<in> set desired) (slot tm topic j) (slot (tm\<lparr>tm_topics := topics'\<rparr>) topic j))"
proof -
  let ?b = "tm_localBrokerID tm"
  have "part_inv ?b p" if t: "(topic, t) \<in> set (tm_topics tm)" and p: "Some p \<in> set (tp_partitions t)" for topic t p
  proof -
    obtain i where "i < length (tp_partitions t)" "tp_partitions t ! i = Some p" using p by (metis in_set_conv_nth)
    moreover have "map_of (tm_topics tm) topic = Some t" using t ok by (simp add: tm_ok_def)
    ultimately have "slot tm topic i = Some p" by (simp add: slot_def)
    then show ?thesis using ok unfolding tm_ok_def by blast
  qed
  then obtain topics' where ts: "release_topics desired (tm_topics tm) = Some topics'" "map fst topics' = map fst (tm_topics tm)"
    "\<And>topic. release_topic ?b desired topic (map_of (tm_topics tm) topic) (map_of topics' topic)"
    using release_topics_rep [of "tm_topics tm" ?b desired] by metis
  let ?tm = "tm\<lparr>tm_topics := topics'\<rparr>"
  have s: "release_one ?b ((topic, word_of_nat j) \<in> set desired) (slot tm topic j) (slot ?tm topic j)" for topic j
    using ts(3) [of topic] by (cases "map_of (tm_topics tm) topic") (auto simp: slot_def release_topic_def, auto simp: release_one_def)
  have "part_inv ?b p" if "slot ?tm topic j = Some p" for topic j p
    using s [of topic j] that by (auto simp: release_one_def split: option.splits)
  then have "tm_ok ?tm" using ok ts(2) by (simp add: tm_ok_def)
  then show ?thesis using ts(1) s by blast
qed

section \<open>Assigning\<close>

definition pm_index :: "PartitionMetadata \<Rightarrow> nat" where
  "pm_index pm = nat (sint (pm_Partition pm))"

text \<open>Indices that neither are negative nor overflow when one is added.\<close>

definition index_ok32 :: "PartitionMetadata \<Rightarrow> bool" where
  "index_ok32 pm \<longleftrightarrow> 0 \<le> sint (pm_Partition pm) \<and> sint (pm_Partition pm) < 2 ^ 31 - 1"

lemma make_slot_rep:
  assumes ok: "tm_ok tm" and ix: "index_ok32 pm"
  shows "\<exists>tm'. make_slot pm tm = Some (slot tm (pm_Topic pm) (pm_index pm), tm') \<and> tm_ok tm' \<and> same_settings tm tm' \<and>
    has_slot tm' (pm_Topic pm) (pm_index pm) \<and> slot tm' = slot tm"
proof -
  let ?i = "pm_index pm" and ?x = "sint (pm_Partition pm)"
  define t where "t = (case map_of (tm_topics tm) (pm_Topic pm) of Some t \<Rightarrow> t | None \<Rightarrow> \<lparr>tp_name = pm_Topic pm, tp_partitions = []\<rparr>)"
  let ?n = "length (tp_partitions t)"
  have x1: "sint (pm_Partition pm + 1) = ?x + 1" using ix by (simp add: index_ok32_def sint_word_ariths signed_take_bit_int_eq_self)
  define t' where "t' = t\<lparr>tp_partitions := tp_partitions t @ replicate (Suc ?i - ?n) None\<rparr>"
  define tm' where "tm' = tm\<lparr>tm_topics := AList.update (pm_Topic pm) t' (tm_topics tm)\<rparr>"
  have len: "?i < length (tp_partitions t')" by (simp add: t'_def)
  have "make_slot pm tm = Some (tp_partitions t' ! ?i, tm')"
  proof (cases "?x \<ge> int ?n")
    case True
    then show ?thesis using ix x1
      by (simp add: make_slot_def t_def [symmetric] t'_def tm'_def pm_index_def Let_def index_ok32_def nat_add_distrib)
  next
    case False
    then have "?i < ?n" using ix by (simp add: pm_index_def index_ok32_def nat_less_iff)
    then have "Suc ?i - ?n = 0" by simp
    then have "t' = t" by (simp add: t'_def)
    then show ?thesis using ix False
      by (simp add: make_slot_def t_def [symmetric] tm'_def pm_index_def Let_def index_ok32_def)
  qed
  moreover have s: "slot tm' topic j = slot tm topic j" for topic j
    by (auto simp: slot_def tm'_def t'_def t_def AList.update_conv nth_append split: option.splits)
  moreover have "tp_partitions t' ! ?i = slot tm' (pm_Topic pm) ?i"
    using len by (simp add: slot_def tm'_def AList.update_conv)
  moreover have "distinct (map fst (tm_topics tm'))" using ok by (simp add: tm_ok_def tm'_def distinct_update)
  moreover have "has_slot tm' (pm_Topic pm) ?i" using len by (simp add: has_slot_def tm'_def AList.update_conv)
  ultimately show ?thesis using ok by (intro exI [of _ tm']) (auto simp: tm_ok_def tm'_def same_settings_def)
qed

lemma local_partition_rep:
  assumes ok: "tm_ok tm" and op: "opens env (tm_logConfig tm)" and ix: "index_ok32 pm"
  shows "\<exists>r tm'. local_partition env (tm_localBrokerID tm) pm tm = Some (r, tm') \<and> tm_ok tm' \<and> same_settings tm tm' \<and>
    (case r of
       Inl _ \<Rightarrow> slot tm' = slot tm
     | Inr p \<Rightarrow> part_inv (tm_localBrokerID tm) p \<and> has_slot tm' (pm_Topic pm) (pm_index pm) \<and>
         (\<forall>topic j. slot tm' topic j = (if topic = pm_Topic pm \<and> j = pm_index pm then Some p else slot tm topic j)))"
proof -
  let ?b = "tm_localBrokerID tm" and ?k = "pm_Topic pm" and ?i = "pm_index pm"
  obtain tm1 where tm1: "make_slot pm tm = Some (slot tm ?k ?i, tm1)" "tm_ok tm1" "same_settings tm tm1" "has_slot tm1 ?k ?i" "slot tm1 = slot tm"
    using make_slot_rep [OF ok ix] by blast
  show ?thesis
  proof (cases "slot tm ?k ?i")
    case (Some p)
    then have "part_inv ?b p" using ok by (simp add: tm_ok_def)
    then show ?thesis using tm1 Some by (simp add: local_partition_def)
  next
    case None
    have cfg: "tm_logConfig tm1 = tm_logConfig tm" using tm1(3) by (simp add: same_settings_def)
    obtain r where r: "open_log env (tm_logConfig tm) (partitionDir ?k (sint (pm_Partition pm))) = Some r"
        "\<And>l. r = Inr l \<Longrightarrow> \<exists>bss. log_rep l bss"
      using op unfolding opens_def by blast
    show ?thesis
    proof (cases r)
      case (Inl e)
      then show ?thesis using tm1 None r(1) cfg by (simp add: local_partition_def)
    next
      case (Inr l)
      let ?p = "NewPartition ?k (pm_Partition pm) ?b l"
      have p: "part_inv ?b ?p" using r(2) [OF Inr] part_inv_new by blast
      have b: "tm_localBrokerID tm1 = ?b" using tm1(3) by (simp add: same_settings_def)
      have "local_partition env ?b pm tm = Some (Inr ?p, put_partition ?k (pm_Partition pm) ?p tm1)"
        using tm1(1) None r(1) Inr cfg by (simp add: local_partition_def Let_def)
      moreover have "tm_ok (put_partition ?k (pm_Partition pm) ?p tm1)" using tm_ok_put [OF tm1(2)] p b by simp
      moreover have "same_settings tm (put_partition ?k (pm_Partition pm) ?p tm1)" using same_settings_trans [OF tm1(3) put_settings] .
      ultimately show ?thesis using p tm1(4,5) by (auto simp: slot_put has_slot_put pm_index_def)
    qed
  qed
qed

text \<open>The role the controller assigned.\<close>

definition role_ok :: "i32 \<Rightarrow> PartitionMetadata \<Rightarrow> Partition \<Rightarrow> bool" where
  "role_ok b pm p \<longleftrightarrow>
     Assignment p = (pm_LeaderBrokerID pm, pm_LeaderEpoch pm, pm_LeaderBrokerID pm = b) \<and>
     (pm_LeaderBrokerID pm = b \<longrightarrow> ISRSnapshot p = pm_ISR pm)"

lemma equalInt32s_iff: "equalInt32s a b \<longleftrightarrow> a = b"
  by (auto simp: equalInt32s_def list_all_iff intro: nth_equalityI)

lemma MakeLeader_role:
  "MakeLeader io epoch ids hw p = Some (r, p') \<Longrightarrow> pt_localBrokerID p' = pt_localBrokerID p \<and>
     (r = Inr () \<longrightarrow> Assignment p' = (pt_localBrokerID p, epoch, True) \<and> ISRSnapshot p' = ids)"
  by (auto simp: MakeLeader_def Let_def Assignment_def ISRSnapshot_def notifyWaiters_def on_purgatory_def o_def
      split: if_splits option.splits prod.splits sum.splits)

lemma assign_role_rep:
  assumes inv: "part_inv b p"
  shows "\<exists>r p'. assign_role io b pm p = Some (r, p') \<and> part_inv b p' \<and> (r = Inr () \<longrightarrow> role_ok b pm p')"
proof -
  obtain bss where ok: "part_ok p bss" and loc: "pt_localBrokerID p = b" using inv by (auto simp: part_inv_def)
  show ?thesis
  proof (cases "pm_LeaderBrokerID pm = b")
    case lead: True
    show ?thesis
    proof (cases "pt_isLeader p \<and> pt_leaderID p = b \<and> pt_leaderEpoch p = pm_LeaderEpoch pm")
      case True
      obtain r p' where u: "UpdateLeaderISR (pm_LeaderEpoch pm) (pm_ISR pm) p = Some (r, p')" "part_ok p' bss" "same_assignment p p'"
          "r = Inr () \<longrightarrow> ISRSnapshot p' = pm_ISR pm"
        using UpdateLeaderISR_sound [OF ok] by blast
      show ?thesis
      proof (cases "ISRSnapshot p = pm_ISR pm")
        case same: True
        then show ?thesis using True lead inv by (simp add: assign_role_def Assignment_def equalInt32s_iff role_ok_def)
      next
        case False
        moreover have "part_inv b p'" using u(2,3) loc by (auto simp: part_inv_def same_assignment_def)
        ultimately show ?thesis using True lead u
          by (simp add: assign_role_def Assignment_def equalInt32s_iff role_ok_def same_assignment_def)
      qed
    next
      case False
      have "start_hw p (HighWatermark p)" by (simp add: start_hw_def HighWatermark_def)
      then obtain r p' where m: "MakeLeader io (pm_LeaderEpoch pm) (pm_ISR pm) (HighWatermark p) p = Some (r, p')" "part_ok p' bss"
        using MakeLeader_sound [OF ok] by blast
      have "part_inv b p'" using m(2) MakeLeader_role [OF m(1)] loc by (auto simp: part_inv_def)
      moreover have "r = Inr () \<longrightarrow> role_ok b pm p'" using MakeLeader_role [OF m(1)] loc lead by (simp add: role_ok_def)
      moreover have "assign_role io b pm p = Some (r, p')" using False lead m(1) by (auto simp: assign_role_def Assignment_def)
      ultimately show ?thesis by blast
    qed
  next
    case False
    obtain p' where f: "MakeFollower (pm_LeaderEpoch pm) (pm_LeaderBrokerID pm) p = Some p'" "part_ok p' bss" "stepped_down p p'"
        "pt_leaderEpoch p' = pm_LeaderEpoch pm" "pt_leaderID p' = pm_LeaderBrokerID pm"
      using MakeFollower_sound [OF ok] by blast
    show ?thesis
    proof (cases "pt_isLeader p \<or> pt_leaderID p \<noteq> pm_LeaderBrokerID pm \<or> pt_leaderEpoch p \<noteq> pm_LeaderEpoch pm")
      case True
      have "part_inv b p'" using f(2,3) loc by (auto simp: part_inv_def stepped_down_def)
      moreover have "role_ok b pm p'" using f False by (simp add: role_ok_def Assignment_def stepped_down_def)
      moreover have "assign_role io b pm p = Some (Inr (), p')" using True False f(1) by (auto simp: assign_role_def Assignment_def)
      ultimately show ?thesis by blast
    next
      case same: False
      then show ?thesis using False inv by (auto simp: assign_role_def Assignment_def role_ok_def)
    qed
  qed
qed

definition pm_key :: "PartitionMetadata \<Rightarrow> gostring \<times> nat" where
  "pm_key pm = (pm_Topic pm, pm_index pm)"

lemma reconcile_all_rep:
  assumes "tm_ok tm" and "opens env (tm_logConfig tm)" and "list_all index_ok32 pms" and "distinct (map pm_key pms)" and "tm_localBrokerID tm = b"
  shows "\<exists>r tm'. reconcile_all env b pms tm = Some (r, tm') \<and> tm_ok tm' \<and> same_settings tm tm' \<and>
    (r = Inr () \<longrightarrow>
       (\<forall>pm\<in>set pms. \<exists>p. slot tm' (pm_Topic pm) (pm_index pm) = Some p \<and> role_ok b pm p) \<and>
       (\<forall>topic j. (topic, j) \<notin> pm_key ` set pms \<longrightarrow> slot tm' topic j = slot tm topic j))"
  using assms
proof (induction pms arbitrary: tm)
  case Nil
  then show ?case by simp
next
  case (Cons pm pms)
  let ?k = "pm_Topic pm" and ?i = "pm_index pm"
  obtain r1 tm1 where t1: "local_partition env b pm tm = Some (r1, tm1)" "tm_ok tm1" "same_settings tm tm1"
    "case r1 of
       Inl _ \<Rightarrow> slot tm1 = slot tm
     | Inr p \<Rightarrow> part_inv b p \<and> has_slot tm1 ?k ?i \<and> (\<forall>topic j. slot tm1 topic j = (if topic = ?k \<and> j = ?i then Some p else slot tm topic j))"
    using local_partition_rep [OF Cons.prems(1,2), of pm] Cons.prems(3,5) by auto
  show ?case
  proof (cases r1)
    case (Inl e)
    then show ?thesis using t1 by simp
  next
    case (Inr p)
    note p = t1(4) [unfolded Inr sum.case]
    let ?io = "te_log env (partitionDir ?k (sint (pm_Partition pm)))"
    obtain r2 p2 where a: "assign_role ?io b pm p = Some (r2, p2)" "part_inv b p2" "r2 = Inr () \<longrightarrow> role_ok b pm p2"
      using assign_role_rep [of b p ?io pm] p by blast
    define tm2 where "tm2 = put_partition ?k (pm_Partition pm) p2 tm1"
    have b1: "tm_localBrokerID tm1 = b" using t1(3) Cons.prems(5) by (simp add: same_settings_def)
    have t2: "tm_ok tm2" "same_settings tm tm2"
      using tm_ok_put [OF t1(2)] a(2) b1 same_settings_trans [OF t1(3) put_settings] by (simp_all add: tm2_def)
    have s2: "slot tm2 topic j = (if topic = ?k \<and> j = ?i then Some p2 else slot tm topic j)" for topic j
      using p by (simp add: tm2_def slot_put pm_index_def)
    show ?thesis
    proof (cases r2)
      case (Inl e)
      then show ?thesis using t1(1) Inr a(1) t2 by (simp add: tm2_def Let_def)
    next
      case (Inr u)
      have op2: "opens env (tm_logConfig tm2)" and b2: "tm_localBrokerID tm2 = b" using t2(2) Cons.prems(2,5) by (simp_all add: same_settings_def)
      obtain r tm' where IH: "reconcile_all env b pms tm2 = Some (r, tm')" "tm_ok tm'" "same_settings tm2 tm'"
        "r = Inr () \<longrightarrow>
           (\<forall>pm\<in>set pms. \<exists>p. slot tm' (pm_Topic pm) (pm_index pm) = Some p \<and> role_ok b pm p) \<and>
           (\<forall>topic j. (topic, j) \<notin> pm_key ` set pms \<longrightarrow> slot tm' topic j = slot tm2 topic j)"
        using Cons.IH [OF t2(1) op2 _ _ b2] Cons.prems(3,4) by auto
      have "(?k, ?i) \<notin> pm_key ` set pms" using Cons.prems(4) by (simp add: pm_key_def)
      then have "r = Inr () \<longrightarrow> slot tm' ?k ?i = Some p2" using IH(4) s2 by simp
      moreover have "reconcile_all env b (pm # pms) tm = Some (r, tm')"
        using t1(1) \<open>r1 = Inr p\<close> a(1) Inr IH(1) by (simp add: tm2_def Let_def)
      ultimately show ?thesis using IH same_settings_trans [OF t2(2) IH(3)] a(3) Inr s2
        by (intro exI [of _ r] exI [of _ tm']) (auto simp: pm_key_def)
    qed
  qed
qed

text \<open>Reconciling gives every partition its role.\<close>

lemma Reconcile_rep:
  assumes ok: "tm_ok tm" and op: "opens env (tm_logConfig tm)" and ix: "list_all index_ok32 pms" and d: "distinct (map pm_key pms)"
  shows "\<exists>r tm'. Reconcile env pms (tm_localBrokerID tm) tm = Some (r, tm') \<and> tm_ok tm' \<and> same_settings tm tm' \<and>
    (r = Inr () \<longrightarrow>
       (\<forall>pm\<in>set pms. \<exists>p. slot tm' (pm_Topic pm) (pm_index pm) = Some p \<and> role_ok (tm_localBrokerID tm) pm p) \<and>
       (\<forall>topic j p. (topic, j) \<notin> pm_key ` set pms \<longrightarrow> j < 2 ^ 31 \<longrightarrow> slot tm' topic j = Some p \<longrightarrow> released p))"
proof -
  let ?b = "tm_localBrokerID tm" and ?desired = "map (\<lambda>pm. (pm_Topic pm, pm_Partition pm)) pms"
  obtain topics' where ts: "release_topics ?desired (tm_topics tm) = Some topics'" "tm_ok (tm\<lparr>tm_topics := topics'\<rparr>)"
    "\<forall>topic j. release_one ?b ((topic, word_of_nat j) \<in> set ?desired) (slot tm topic j) (slot (tm\<lparr>tm_topics := topics'\<rparr>) topic j)"
    using release_rep [OF ok] by blast
  let ?tm = "tm\<lparr>tm_topics := topics'\<rparr>"
  obtain r tm' where r: "reconcile_all env ?b pms ?tm = Some (r, tm')" "tm_ok tm'" "same_settings ?tm tm'"
    "r = Inr () \<longrightarrow>
       (\<forall>pm\<in>set pms. \<exists>p. slot tm' (pm_Topic pm) (pm_index pm) = Some p \<and> role_ok ?b pm p) \<and>
       (\<forall>topic j. (topic, j) \<notin> pm_key ` set pms \<longrightarrow> slot tm' topic j = slot ?tm topic j)"
    using reconcile_all_rep [OF ts(2) _ ix d, of env ?b] op by fastforce
  have "released p" if "(topic, j) \<notin> pm_key ` set pms" "j < 2 ^ 31" "slot ?tm topic j = Some p" for topic j p
  proof -
    have "(topic, word_of_nat j) \<notin> set ?desired"
    proof
      assume "(topic, word_of_nat j) \<in> set ?desired"
      then obtain pm where pm: "pm \<in> set pms" "pm_Topic pm = topic" "pm_Partition pm = word_of_nat j" by auto
      then have "pm_key pm = (topic, j)" using that(2) sint_word_of_nat [of j, where 'l = 32] by (simp add: pm_key_def pm_index_def)
      then show False using that(1) pm(1) by (metis imageI)
    qed
    then show ?thesis using ts(3) [rule_format, of topic j] that(3) by (auto simp: release_one_def split: option.splits)
  qed
  moreover have "same_settings tm tm'" using r(3) by (simp add: same_settings_def)
  ultimately show ?thesis using ts(1) r by (simp add: Reconcile_def Let_def)
qed

section \<open>The controller's assignments\<close>

text \<open>A broker leads a partition, in an epoch.\<close>

definition leads :: "TopicManager \<Rightarrow> gostring \<Rightarrow> i32 \<Rightarrow> i32 \<Rightarrow> bool" where
  "leads tm topic i epoch \<longleftrightarrow> (\<exists>p. TM_GetPartition tm topic i = Inr p \<and> IsLeader p \<and> LeaderEpoch p = epoch)"

text \<open>No partition has the highest index an \<open>int32\<close> can hold.\<close>

definition indices_fit :: "controllerState \<Rightarrow> bool" where
  "indices_fit s \<longleftrightarrow> (\<forall>k p. map_of (cs_Partitions s) k = Some p \<longrightarrow> sint (tk_Partition k) < 2 ^ 31 - 1)"

lemma assignment_of:
  assumes inv: "controller_inv uni s" and pm: "pm \<in> set (PartitionsForBroker s b)"
  shows "\<exists>q. GetPartition s (pm_Topic pm) (pm_Partition pm) = Some q \<and> b \<in> set (pt_Replicas q) \<and>
    pm = partitionMetadata \<lparr>tk_Topic = pm_Topic pm, tk_Partition = pm_Partition pm\<rparr> q \<and> 0 \<le> sint (pm_Partition pm)"
proof -
  have d: "distinct (map fst (cs_Partitions s))" using inv by (simp add: controller_inv_def)
  have g: "GetPartitionMetadata s (pm_Topic pm) (pm_Partition pm) = Some pm" "b \<in> set (pm_Replicas pm)"
    using PartitionsForBroker_exact [OF d, of pm b] pm by simp_all
  then obtain q where q: "map_of (cs_Partitions s) \<lparr>tk_Topic = pm_Topic pm, tk_Partition = pm_Partition pm\<rparr> = Some q"
      "pm = partitionMetadata \<lparr>tk_Topic = pm_Topic pm, tk_Partition = pm_Partition pm\<rparr> q"
    by (auto simp: GetPartitionMetadata_def Let_def)
  have "pm_Replicas pm = pt_Replicas q" by (subst q(2)) (simp add: partitionMetadata_def)
  moreover have "0 \<le> sint (pm_Partition pm)" using inv_partition [OF inv q(1)] by (simp add: partition_ok_def)
  ultimately show ?thesis using q g(2) by (auto simp: GetPartition_def)
qed

lemma assigned:
  assumes inv: "controller_inv uni s" and q: "GetPartition s topic i = Some q" and b: "b \<in> set (pt_Replicas q)"
  shows "partitionMetadata \<lparr>tk_Topic = topic, tk_Partition = i\<rparr> q \<in> set (PartitionsForBroker s b)"
proof -
  have d: "distinct (map fst (cs_Partitions s))" using inv by (simp add: controller_inv_def)
  then show ?thesis using q b by (simp add: PartitionsForBroker_exact [OF d] GetPartitionMetadata_def GetPartition_def partitionMetadata_def Let_def)
qed

lemma keys_distinct:
  assumes inv: "controller_inv uni s" and fit: "indices_fit s"
  shows "distinct (map pm_key (PartitionsForBroker s b)) \<and> list_all index_ok32 (PartitionsForBroker s b)"
proof -
  let ?ps = "PartitionsForBroker s b"
  have k: "x = y" if xy: "x \<in> set ?ps" "y \<in> set ?ps" "pm_key x = pm_key y" for x y
  proof -
    obtain q q' where q: "GetPartition s (pm_Topic x) (pm_Partition x) = Some q" "x = partitionMetadata \<lparr>tk_Topic = pm_Topic x, tk_Partition = pm_Partition x\<rparr> q" "0 \<le> sint (pm_Partition x)"
        "GetPartition s (pm_Topic y) (pm_Partition y) = Some q'" "y = partitionMetadata \<lparr>tk_Topic = pm_Topic y, tk_Partition = pm_Partition y\<rparr> q'" "0 \<le> sint (pm_Partition y)"
      using assignment_of [OF inv xy(1)] assignment_of [OF inv xy(2)] by blast
    have "pm_Topic x = pm_Topic y" "pm_Partition x = pm_Partition y"
      using xy(3) q(3,6) by (auto simp: pm_key_def pm_index_def intro: sint_inject)
    then show ?thesis using q by simp
  qed
  have "distinct (map fst (cs_Partitions s))" using inv by (simp add: controller_inv_def)
  then have "distinct (cs_Partitions s)" by (simp add: distinct_map)
  moreover have "inj (\<lambda>(key, p). partitionMetadata key p)"
    by (rule injI) (auto simp: partitionMetadata_def intro: TopicPartitionKey.equality PartitionState.equality)
  ultimately have "distinct ?ps"
    by (simp add: PartitionsForBroker_def sortPartitionMetadata_def distinct_map inj_on_subset [OF _ subset_UNIV])
  then have "distinct (map pm_key ?ps)" using k by (auto simp: distinct_map inj_on_def)
  moreover have "index_ok32 pm" if "pm \<in> set ?ps" for pm
    using assignment_of [OF inv that] fit by (auto simp: index_ok32_def indices_fit_def GetPartition_def)
  ultimately show ?thesis by (simp add: list_all_iff)
qed

lemma leads_iff:
  assumes ok: "tm_ok tm" and op: "opens env (tm_logConfig tm)" and inv: "controller_inv uni s" and fit: "indices_fit s"
    and r: "Reconcile env (PartitionsForBroker s (tm_localBrokerID tm)) (tm_localBrokerID tm) tm = Some (Inr (), tm')"
  shows "leads tm' topic i epoch \<longleftrightarrow>
    (\<exists>q. GetPartition s topic i = Some q \<and> pt_LeaderBrokerID q = tm_localBrokerID tm \<and> pt_LeaderEpoch q = epoch)"
proof -
  let ?b = "tm_localBrokerID tm" and ?pms = "PartitionsForBroker s (tm_localBrokerID tm)"
  note k = keys_distinct [OF inv fit, of ?b]
  have rep: "\<forall>pm\<in>set ?pms. \<exists>p. slot tm' (pm_Topic pm) (pm_index pm) = Some p \<and> role_ok ?b pm p"
      "\<forall>topic j p. (topic, j) \<notin> pm_key ` set ?pms \<longrightarrow> j < 2 ^ 31 \<longrightarrow> slot tm' topic j = Some p \<longrightarrow> released p"
    using Reconcile_rep [OF ok op conjunct2 [OF k] conjunct1 [OF k]] r by auto
  show ?thesis
  proof
    assume "leads tm' topic i epoch"
    then obtain p where p: "0 \<le> sint i" "slot tm' topic (nat (sint i)) = Some p" "pt_isLeader p" "pt_leaderEpoch p = epoch"
      by (auto simp: leads_def TM_GetPartition_slot IsLeader_def LeaderEpoch_def)
    have "nat (sint i) < 2 ^ 31" using sint_lt [of i] by (simp add: nat_less_iff)
    then have "(topic, nat (sint i)) \<in> pm_key ` set ?pms" using rep(2) p(2,3) by (auto simp: released_def IsLeader_def)
    then obtain pm where pm: "pm \<in> set ?pms" "pm_Topic pm = topic" "pm_index pm = nat (sint i)" by (auto simp: pm_key_def)
    obtain q where q: "GetPartition s (pm_Topic pm) (pm_Partition pm) = Some q" "0 \<le> sint (pm_Partition pm)"
        "pm = partitionMetadata \<lparr>tk_Topic = pm_Topic pm, tk_Partition = pm_Partition pm\<rparr> q"
      using assignment_of [OF inv pm(1)] by blast
    have i: "pm_Partition pm = i" using pm(3) q(2) p(1) by (auto simp: pm_index_def intro: sint_inject)
    have "role_ok ?b pm p" using rep(1) pm p(2) by auto
    then have "pm_LeaderBrokerID pm = ?b" "pm_LeaderEpoch pm = epoch" using p(3,4) by (auto simp: role_ok_def Assignment_def)
    moreover have "pm_LeaderBrokerID pm = pt_LeaderBrokerID q" "pm_LeaderEpoch pm = pt_LeaderEpoch q"
      by (subst q(3), simp add: partitionMetadata_def)+
    ultimately show "\<exists>q. GetPartition s topic i = Some q \<and> pt_LeaderBrokerID q = ?b \<and> pt_LeaderEpoch q = epoch" using q(1) pm(2) i by auto
  next
    assume "\<exists>q. GetPartition s topic i = Some q \<and> pt_LeaderBrokerID q = ?b \<and> pt_LeaderEpoch q = epoch"
    then obtain q where q: "GetPartition s topic i = Some q" "pt_LeaderBrokerID q = ?b" "pt_LeaderEpoch q = epoch" by blast
    have po: "partition_ok (cs_Brokers s) (cs_Topics s) \<lparr>tk_Topic = topic, tk_Partition = i\<rparr> q"
      using inv_partition [OF inv] q(1) by (simp add: GetPartition_def)
    then have "?b \<in> set (pt_Replicas q)" "0 \<le> sint i" using q(2) by (auto simp: partition_ok_def assignment_ok_def)
    then have "partitionMetadata \<lparr>tk_Topic = topic, tk_Partition = i\<rparr> q \<in> set ?pms" using assigned [OF inv q(1)] by simp
    then obtain p where "slot tm' topic (nat (sint i)) = Some p" "role_ok ?b (partitionMetadata \<lparr>tk_Topic = topic, tk_Partition = i\<rparr> q) p"
      using rep(1) by (force simp: pm_index_def partitionMetadata_def)
    then show "leads tm' topic i epoch"
      using q \<open>0 \<le> sint i\<close> by (auto simp: leads_def TM_GetPartition_slot IsLeader_def LeaderEpoch_def role_ok_def Assignment_def partitionMetadata_def)
  qed
qed

text \<open>Brokers that reconciled at different moments never lead the same partition in the same epoch.\<close>

lemma no_split_brain:
  assumes u: "upper_law uni" and inv: "controller_inv uni s" "controller_inv uni (run js uni s logs)" and few: "length logs < 2 ^ 32"
    and fit: "indices_fit s" "indices_fit (run js uni s logs)"
    and ok: "tm_ok tm1" "tm_ok tm2" and op: "opens env1 (tm_logConfig tm1)" "opens env2 (tm_logConfig tm2)"
    and r1: "Reconcile env1 (PartitionsForBroker s (tm_localBrokerID tm1)) (tm_localBrokerID tm1) tm1 = Some (Inr (), tm1')"
    and r2: "Reconcile env2 (PartitionsForBroker (run js uni s logs) (tm_localBrokerID tm2)) (tm_localBrokerID tm2) tm2 = Some (Inr (), tm2')"
    and l: "leads tm1' topic i epoch" "leads tm2' topic i epoch"
  shows "tm_localBrokerID tm1 = tm_localBrokerID tm2"
proof -
  obtain q where q: "GetPartition s topic i = Some q" "pt_LeaderBrokerID q = tm_localBrokerID tm1" "pt_LeaderEpoch q = epoch"
    using leads_iff [OF ok(1) op(1) inv(1) fit(1) r1] l(1) by blast
  obtain q' where q': "GetPartition (run js uni s logs) topic i = Some q'" "pt_LeaderBrokerID q' = tm_localBrokerID tm2" "pt_LeaderEpoch q' = epoch"
    using leads_iff [OF ok(2) op(2) inv(2) fit(2) r2] l(2) by blast
  have "pt_LeaderBrokerID q' = pt_LeaderBrokerID q"
    using one_leader_per_epoch [OF u inv(1) _ few] q(1,3) q'(1,3) by (simp add: GetPartition_def)
  then show ?thesis using q(2) q'(2) by simp
qed

end
