(* ===== verification/TopicsLife.thy ===== *)
theory TopicsLife
  imports TopicsRep
begin

text \<open>
  Creating topics and finding them again after a restart.  Creation is all or nothing; the name of a
  partition directory gives back its topic and partition, and recovery opens the log of every directory.
\<close>

section \<open>Creation\<close>

text \<open>A partition of a new topic: it holds what its directory held and has the wanted role.\<close>

definition created :: "TopicEnv \<Rightarrow> TopicManager \<Rightarrow> gostring \<Rightarrow> bool \<Rightarrow> nat \<Rightarrow> Partition \<Rightarrow> bool" where
  "created env tm name initialLeader i p \<longleftrightarrow>
     (\<exists>l bss. open_log env (tm_logConfig tm) (partitionDir name (int i)) = Some (Inr l) \<and> log_rep l bss \<and> part_ok p bss) \<and>
     pt_localBrokerID p = tm_localBrokerID tm \<and> pt_topicName p = name \<and> pt_partitionID p = word_of_nat i \<and>
     Assignment p = (if initialLeader then (tm_localBrokerID tm, 1, True) else (- 1, 0, False))"

lemma created_inv: "created env tm name lead i p \<Longrightarrow> part_inv (tm_localBrokerID tm) p"
  by (auto simp: created_def part_inv_def)

lemma MakeLeader_names:
  "MakeLeader io epoch ids hw p = Some (r, p') \<Longrightarrow> pt_topicName p' = pt_topicName p \<and> pt_partitionID p' = pt_partitionID p"
  by (auto simp: MakeLeader_def Let_def notifyWaiters_def on_purgatory_def split: if_splits option.splits prod.splits sum.splits)

lemma close_ignored_ok: "part_inv b p \<Longrightarrow> close_ignored env dir p = Some ()"
  using Partition_Close_sound unfolding part_inv_def close_ignored_def by fastforce

lemma discard_ok:
  "list_all (part_inv b) ps \<Longrightarrow> discard env name j ps = Some (map (\<lambda>i. partitionDir name (int i)) [j..<j + length ps])"
  by (induction ps arbitrary: j) (simp_all add: close_ignored_ok [of b] upt_conv_Cons del: upt_Suc)

lemma create_partitions_rep:
  assumes op: "opens env (tm_logConfig tm)" and acc: "\<forall>j<length acc. created env tm name lead j (acc ! j)"
  shows "\<exists>r removed. create_partitions env tm name lead n acc = Some (r, removed) \<and>
    (case r of
       Inl _ \<Rightarrow> \<exists>k. length acc \<le> k \<and> (removed = map (\<lambda>i. partitionDir name (int i)) [0..<k] \<or> removed = map (\<lambda>i. partitionDir name (int i)) [0..<Suc k])
     | Inr ps \<Rightarrow> removed = [] \<and> length ps = length acc + n \<and> (\<forall>j<length ps. created env tm name lead j (ps ! j)))"
  using acc
proof (induction n arbitrary: acc)
  case 0
  then show ?case by simp
next
  case (Suc n)
  let ?b = "tm_localBrokerID tm" and ?i = "length acc"
  let ?dir = "partitionDir name (int ?i)"
  have inv: "list_all (part_inv ?b) acc" unfolding list_all_length using Suc.prems created_inv by blast
  have dis: "discard env name 0 acc = Some (map (\<lambda>i. partitionDir name (int i)) [0..<?i])" using discard_ok [OF inv, of env name 0] by simp
  obtain o' where o': "open_log env (tm_logConfig tm) ?dir = Some o'" "\<And>l. o' = Inr l \<Longrightarrow> \<exists>bss. log_rep l bss"
    using op unfolding opens_def by blast
  have go: ?case if p: "created env tm name lead ?i p" and eq: "create_partitions env tm name lead (Suc n) acc = create_partitions env tm name lead n (acc @ [p])" for p
  proof -
    have "\<forall>j<length (acc @ [p]). created env tm name lead j ((acc @ [p]) ! j)" using Suc.prems p by (auto simp: nth_append less_Suc_eq)
    from Suc.IH [OF this] obtain r removed where r: "create_partitions env tm name lead n (acc @ [p]) = Some (r, removed)"
      "case r of
         Inl _ \<Rightarrow> \<exists>k. length (acc @ [p]) \<le> k \<and> (removed = map (\<lambda>i. partitionDir name (int i)) [0..<k] \<or> removed = map (\<lambda>i. partitionDir name (int i)) [0..<Suc k])
       | Inr ps \<Rightarrow> removed = [] \<and> length ps = length (acc @ [p]) + n \<and> (\<forall>j<length ps. created env tm name lead j (ps ! j))"
      by blast
    show ?thesis
    proof (cases r)
      case (Inl e)
      then obtain k where k: "Suc ?i \<le> k" "removed = map (\<lambda>i. partitionDir name (int i)) [0..<k] \<or> removed = map (\<lambda>i. partitionDir name (int i)) [0..<Suc k]"
        using r(2) by auto
      then have "?i \<le> k" by simp
      then show ?thesis unfolding eq r(1) using Inl k(2) by auto
    next
      case (Inr ps)
      then show ?thesis unfolding eq r(1) using r(2) by auto
    qed
  qed
  show ?case
  proof (cases o')
    case (Inl e)
    then show ?thesis using o'(1) dis by (auto simp: Let_def)
  next
    case (Inr l)
    let ?p = "NewPartition name (word_of_nat ?i) ?b l"
    obtain bss where lr: "log_rep l bss" using o'(2) [OF Inr] by blast
    have ok: "part_ok ?p bss" using part_ok_new [OF lr] .
    show ?thesis
    proof (cases lead)
      case False
      have "created env tm name lead ?i ?p" using o'(1) Inr lr ok False by (auto simp: created_def) (simp_all add: NewPartition_def Assignment_def)
      then show ?thesis using go [of ?p] o'(1) Inr False by (simp add: Let_def)
    next
      case True
      have hw: "start_hw ?p (NextOffset l)" using ok by (auto simp: start_hw_def part_ok_def NewPartition_def waiting_def LEO_def)
      obtain r p' where m: "MakeLeader (te_log env ?dir) 1 [?b] (NextOffset l) ?p = Some (r, p')" "part_ok p' bss"
        using MakeLeader_sound [OF ok hw] by blast
      have sel: "pt_localBrokerID ?p = ?b" "pt_topicName ?p = name" "pt_partitionID ?p = word_of_nat ?i" by (simp_all add: NewPartition_def)
      have p': "part_inv ?b p'" using m(2) MakeLeader_role [OF m(1)] sel by (auto simp: part_inv_def)
      show ?thesis
      proof (cases r)
        case (Inl e)
        then show ?thesis using o'(1) \<open>o' = Inr l\<close> True m(1) close_ignored_ok [OF p'] dis by (auto simp: Let_def)
      next
        case (Inr u)
        have "created env tm name lead ?i p'" using o'(1) \<open>o' = Inr l\<close> lr m(2) MakeLeader_role [OF m(1)] MakeLeader_names [OF m(1)] sel Inr True by (auto simp: created_def)
        then show ?thesis using go [of p'] o'(1) \<open>o' = Inr l\<close> True m(1) Inr by (simp add: Let_def)
      qed
    qed
  qed
qed

lemma CreateTopic_rep:
  assumes ok: "tm_ok tm" and op: "opens env (tm_logConfig tm)"
  shows "\<exists>r tm' removed. CreateTopic env name n lead tm = Some (r, tm', removed) \<and> tm_ok tm' \<and>
    (case r of
       Inl _ \<Rightarrow> tm' = tm
     | Inr _ \<Rightarrow> validateTopicName name \<and> 0 < n \<and> map_of (tm_topics tm) name = None \<and> removed = [] \<and>
         PartitionCount tm' name = Inr (nat n) \<and>
         (\<forall>i. slot tm' name i = None \<or> (\<exists>p. slot tm' name i = Some p \<and> created env tm name lead i p)) \<and>
         (\<forall>i<nat n. slot tm' name i \<noteq> None) \<and>
         (\<forall>topic i. topic \<noteq> name \<longrightarrow> slot tm' topic i = slot tm topic i))"
proof (cases "\<not> validateTopicName name \<or> n \<le> 0 \<or> map_of (tm_topics tm) name \<noteq> None")
  case True
  then show ?thesis using ok by (auto simp: CreateTopic_def)
next
  case False
  obtain r removed where r: "create_partitions env tm name lead (nat n) [] = Some (r, removed)"
    "case r of
       Inl _ \<Rightarrow> \<exists>k. length ([] :: Partition list) \<le> k \<and> (removed = map (\<lambda>i. partitionDir name (int i)) [0..<k] \<or> removed = map (\<lambda>i. partitionDir name (int i)) [0..<Suc k])
     | Inr ps \<Rightarrow> removed = [] \<and> length ps = length ([] :: Partition list) + nat n \<and> (\<forall>j<length ps. created env tm name lead j (ps ! j))"
    using create_partitions_rep [OF op, of "[]" name lead "nat n"] by auto
  show ?thesis
  proof (cases r)
    case (Inl e)
    then show ?thesis using False r(1) ok by (simp add: CreateTopic_def)
  next
    case (Inr ps)
    let ?tm = "tm\<lparr>tm_topics := AList.update name \<lparr>tp_name = name, tp_partitions = map Some ps\<rparr> (tm_topics tm)\<rparr>"
    note ps = r(2) [unfolded Inr sum.case]
    have s: "slot ?tm topic i = (if topic = name then (if i < length ps then Some (ps ! i) else None) else slot tm topic i)" for topic i
      by (auto simp: slot_def AList.update_conv)
    have "part_inv (tm_localBrokerID tm) p" if "slot ?tm topic i = Some p" for topic i p
      using that ps ok created_inv [of env tm name lead] by (auto simp: s tm_ok_def split: if_splits)
    then have "tm_ok ?tm" using ok by (simp add: tm_ok_def distinct_update)
    moreover have "CreateTopic env name n lead tm = Some (Inr (), ?tm, [])" using False r(1) Inr ps by (simp add: CreateTopic_def)
    ultimately show ?thesis using False ps by (auto simp: s PartitionCount_def AList.update_conv)
  qed
qed

section \<open>Recovery\<close>

text \<open>The directory of a partition names it.\<close>

lemma dir_entry_partitionDir:
  assumes "validateTopicName name" and "i < 2 ^ 63"
  shows "dir_entry (partitionDir name (int i), True) = Some (name, int i, partitionDir name (int i))"
proof -
  let ?ds = "dec_nat i"
  have e: "partitionDir name (int i) = name @ 45 # ?ds" by (simp add: partitionDir_def fmt_d_def gostr_def)
  have "b \<noteq> 45" if "b \<in> set ?ds" for b using dec_nat_digits [OF that] by (auto simp: is_digit_def)
  then have "takeWhile (\<lambda>b. b \<noteq> 45) (rev (name @ 45 # ?ds)) = rev ?ds"
    using takeWhile_append2 [of "rev ?ds" "\<lambda>b. b \<noteq> 45" "45 # rev name"] by simp
  then have "LastIndex (name @ 45 # ?ds) 45 = int (length name)" by (simp add: LastIndex_def)
  then show ?thesis using assms ParseInt_dec [of i 64] by (simp add: e dir_entry_def Let_def Atoi_def)
qed

text \<open>The directories of a topic in a listing.\<close>

definition dirs_of :: "gostring \<Rightarrow> (gostring \<times> bool) list \<Rightarrow> (int \<times> gostring) list" where
  "dirs_of topic es = List.map_filter (\<lambda>e. case dir_entry e of None \<Rightarrow> None | Some (t, i, d) \<Rightarrow> if t = topic then Some (i, d) else None) es"

lemma dirs_of_Cons: "dirs_of topic (e # es) =
    (case dir_entry e of None \<Rightarrow> dirs_of topic es | Some (t, i, d) \<Rightarrow> if t = topic then (i, d) # dirs_of topic es else dirs_of topic es)"
  by (auto simp: dirs_of_def List.map_filter_simps split: option.splits)

lemma dirs_of_iff: "(i, d) \<in> set (dirs_of topic es) \<longleftrightarrow> (\<exists>e\<in>set es. dir_entry e = Some (topic, i, d))"
  by (induction es) (auto simp: dirs_of_Cons dirs_of_def List.map_filter_def split: option.splits)

lemma dir_entry_nonneg: "dir_entry e = Some (topic, i, d) \<Longrightarrow> 0 \<le> i"
  by (cases e) (auto simp: dir_entry_def Let_def split: if_splits option.splits)

lemma group_entries_rep:
  "distinct (map fst acc) \<Longrightarrow> distinct (map fst (group_entries acc es)) \<and>
     map_of (group_entries acc es) topic =
       (case map_of acc topic of
          None \<Rightarrow> if dirs_of topic es = [] then None else Some (dirs_of topic es)
        | Some ds \<Rightarrow> Some (ds @ dirs_of topic es))"
proof (induction es arbitrary: acc)
  case Nil
  then show ?case by (auto simp: dirs_of_def List.map_filter_def split: option.splits)
next
  case (Cons e es)
  show ?case
  proof (cases "dir_entry e")
    case None
    then have eq: "group_entries acc (e # es) = group_entries acc es" "dirs_of topic (e # es) = dirs_of topic es" by (simp_all add: dirs_of_Cons)
    show ?thesis unfolding eq by (rule Cons.IH [OF Cons.prems])
  next
    case (Some x)
    obtain t i d where x: "x = (t, i, d)" by (cases x)
    define acc' where "acc' = AList.update t ((case map_of acc t of None \<Rightarrow> [] | Some ds \<Rightarrow> ds) @ [(i, d)]) acc"
    have d: "distinct (map fst acc')" using Cons.prems by (simp add: acc'_def distinct_update)
    have eq: "group_entries acc (e # es) = group_entries acc' es" using Some x by (simp add: acc'_def)
    show ?thesis unfolding eq using Cons.IH [OF d] Some x
      by (auto simp: dirs_of_Cons acc'_def AList.update_conv split: option.splits)
  qed
qed

lemma recover_partitions_rep:
  assumes "opens env (tm_logConfig tm)" and "\<forall>(i, d)\<in>set dirs. 0 \<le> i \<and> nat i < length ps" and "distinct (map fst dirs)"
    and "\<forall>p. Some p \<in> set ps \<longrightarrow> part_inv (tm_localBrokerID tm) p"
  shows "\<exists>ps'. recover_partitions env tm topic dirs ps = Some ps' \<and> length ps' = length ps \<and>
    (\<forall>p. Some p \<in> set ps' \<longrightarrow> part_inv (tm_localBrokerID tm) p) \<and>
    (\<forall>j<length ps. int j \<notin> fst ` set dirs \<longrightarrow> ps' ! j = ps ! j) \<and>
    (\<forall>(i, d)\<in>set dirs. \<forall>l. open_log env (tm_logConfig tm) d = Some (Inr l) \<longrightarrow>
       ps' ! nat i = Some (NewPartition topic (word_of_int i) (tm_localBrokerID tm) l))"
  using assms
proof (induction dirs arbitrary: ps)
  case Nil
  then show ?case by simp
next
  case (Cons x dirs)
  obtain i d where x: "x = (i, d)" by (cases x)
  let ?b = "tm_localBrokerID tm"
  have i: "0 \<le> i" "nat i < length ps" and notin: "i \<notin> fst ` set dirs" using Cons.prems(2,3) x by auto
  obtain r where r: "open_log env (tm_logConfig tm) d = Some r" "\<And>l. r = Inr l \<Longrightarrow> \<exists>bss. log_rep l bss"
    using Cons.prems(1) unfolding opens_def by blast
  show ?case
  proof (cases r)
    case (Inl e)
    obtain ps' where ps': "recover_partitions env tm topic dirs ps = Some ps'" "length ps' = length ps"
        "\<forall>p. Some p \<in> set ps' \<longrightarrow> part_inv ?b p" "\<forall>j<length ps. int j \<notin> fst ` set dirs \<longrightarrow> ps' ! j = ps ! j"
        "\<forall>(i, d)\<in>set dirs. \<forall>l. open_log env (tm_logConfig tm) d = Some (Inr l) \<longrightarrow> ps' ! nat i = Some (NewPartition topic (word_of_int i) ?b l)"
      using Cons.IH [of ps] Cons.prems by auto
    then show ?thesis using x r(1) Inl by (intro exI [of _ ps']) auto
  next
    case (Inr l)
    let ?p = "NewPartition topic (word_of_int i) ?b l"
    have pi: "part_inv ?b ?p" using r(2) [OF Inr] part_inv_new by blast
    have upd: "\<forall>p. Some p \<in> set (ps[nat i := Some ?p]) \<longrightarrow> part_inv ?b p"
      using Cons.prems(4) pi set_update_subset_insert [of ps "nat i" "Some ?p"] by auto
    obtain ps' where ps': "recover_partitions env tm topic dirs (ps[nat i := Some ?p]) = Some ps'" "length ps' = length ps"
        "\<forall>p. Some p \<in> set ps' \<longrightarrow> part_inv ?b p" "\<forall>j<length ps. int j \<notin> fst ` set dirs \<longrightarrow> ps' ! j = ps[nat i := Some ?p] ! j"
        "\<forall>(i, d)\<in>set dirs. \<forall>l. open_log env (tm_logConfig tm) d = Some (Inr l) \<longrightarrow> ps' ! nat i = Some (NewPartition topic (word_of_int i) ?b l)"
      using Cons.IH [of "ps[nat i := Some ?p]"] Cons.prems(1,2,3) upd by auto
    have "ps' ! nat i = Some ?p" using ps'(4) i notin by auto
    then show ?thesis using x r(1) Inr ps' i by (intro exI [of _ ps']) (auto simp: nth_list_update)
  qed
qed

definition max_id :: "(int \<times> gostring) list \<Rightarrow> int \<Rightarrow> int" where
  "max_id dirs m = fold (\<lambda>(i, _) m. if i > m then i else m) dirs m"

lemma max_id_rep: "m \<le> max_id dirs m \<and> (\<forall>(i, d)\<in>set dirs. i \<le> max_id dirs m) \<and> (max_id dirs m \<le> n \<longleftrightarrow> m \<le> n \<and> (\<forall>(i, d)\<in>set dirs. i \<le> n))"
proof (induction dirs arbitrary: m)
  case Nil
  then show ?case by (simp add: max_id_def)
next
  case (Cons x dirs)
  obtain i d where x: "x = (i, d)" by (cases x)
  have "max_id (x # dirs) m = max_id dirs (if i > m then i else m)" using x by (simp add: max_id_def)
  then show ?case using Cons [of "if i > m then i else m"] x by auto
qed

text \<open>A topic whose partition numbers are small is recovered whole: every directory that opens is its
  partition.\<close>

definition recovered :: "TopicEnv \<Rightarrow> TopicManager \<Rightarrow> gostring \<Rightarrow> (int \<times> gostring) list \<Rightarrow> TopicManager \<Rightarrow> bool" where
  "recovered env tm topic dirs tm' \<longleftrightarrow>
     (\<forall>(i, d)\<in>set dirs. \<forall>l. open_log env (tm_logConfig tm) d = Some (Inr l) \<longrightarrow>
        slot tm' topic (nat i) = Some (NewPartition topic (word_of_int i) (tm_localBrokerID tm) l))"

lemma recover_topics_rep:
  assumes "opens env (tm_logConfig tm)" and "tm_ok tm" and "distinct (map fst byTopic)"
    and "\<forall>(topic, dirs)\<in>set byTopic. distinct (map fst dirs) \<and> (\<forall>(i, d)\<in>set dirs. 0 \<le> i)"
  shows "\<exists>tm'. recover_topics env byTopic tm = Some tm' \<and> tm_ok tm' \<and> same_settings tm tm' \<and>
    (\<forall>topic i. topic \<notin> fst ` set byTopic \<longrightarrow> slot tm' topic i = slot tm topic i) \<and>
    (\<forall>(topic, dirs)\<in>set byTopic. (\<forall>(i, d)\<in>set dirs. i \<le> 9999) \<longrightarrow> recovered env tm topic dirs tm')"
  using assms
proof (induction byTopic arbitrary: tm)
  case Nil
  then show ?case by simp
next
  case (Cons x byTopic)
  obtain topic dirs where x: "x = (topic, dirs)" by (cases x)
  have notin: "topic \<notin> fst ` set byTopic" and dd: "distinct (map fst dirs)" "\<forall>(i, d)\<in>set dirs. 0 \<le> i" using Cons.prems(3,4) x by auto
  have max: "fold (\<lambda>(i, _) m. if i > m then i else m) dirs 0 = max_id dirs 0" by (simp add: max_id_def)
  have le: "0 \<le> max_id dirs 0" "\<forall>(i, d)\<in>set dirs. i \<le> max_id dirs 0" and small: "max_id dirs 0 \<le> 9999 \<longleftrightarrow> (\<forall>(i, d)\<in>set dirs. i \<le> 9999)"
    using max_id_rep [of 0 dirs 9999] by simp_all
  show ?case
  proof (cases "max_id dirs 0 > 9999")
    case True
    obtain tm' where IH: "recover_topics env byTopic tm = Some tm'" "tm_ok tm'" "same_settings tm tm'"
        "\<forall>topic i. topic \<notin> fst ` set byTopic \<longrightarrow> slot tm' topic i = slot tm topic i"
        "\<forall>(topic, dirs)\<in>set byTopic. (\<forall>(i, d)\<in>set dirs. i \<le> 9999) \<longrightarrow> recovered env tm topic dirs tm'"
      using Cons.IH [of tm] Cons.prems by auto
    have "\<not> (\<forall>(i, d)\<in>set dirs. i \<le> 9999)" using True small by (simp add: not_le [symmetric])
    then show ?thesis using IH x True max by (intro exI [of _ tm']) (auto simp: Let_def)
  next
    case False
    let ?ps = "replicate (nat (max_id dirs 0) + 1) (None :: Partition option)"
    have in_range: "\<forall>(i, d)\<in>set dirs. 0 \<le> i \<and> nat i < length ?ps" using dd(2) le by (fastforce simp: nat_le_iff less_Suc_eq_le)
    obtain ps' where ps': "recover_partitions env tm topic dirs ?ps = Some ps'" "length ps' = length ?ps"
        "\<forall>p. Some p \<in> set ps' \<longrightarrow> part_inv (tm_localBrokerID tm) p"
        "\<forall>(i, d)\<in>set dirs. \<forall>l. open_log env (tm_logConfig tm) d = Some (Inr l) \<longrightarrow> ps' ! nat i = Some (NewPartition topic (word_of_int i) (tm_localBrokerID tm) l)"
      using recover_partitions_rep [OF Cons.prems(1) in_range dd(1), of topic] by auto
    define tm1 where "tm1 = tm\<lparr>tm_topics := AList.update topic \<lparr>tp_name = topic, tp_partitions = ps'\<rparr> (tm_topics tm)\<rparr>"
    have s1: "slot tm1 t i = (if t = topic then (if i < length ps' then ps' ! i else None) else slot tm t i)" for t i
      by (simp add: slot_def tm1_def AList.update_conv)
    have "part_inv (tm_localBrokerID tm) p" if "slot tm1 t i = Some p" for t i p
      using that ps'(3) Cons.prems(2) by (auto simp: s1 tm_ok_def split: if_splits) (metis nth_mem)
    then have ok1: "tm_ok tm1" using Cons.prems(2) by (simp add: tm_ok_def tm1_def distinct_update)
    have set1: "same_settings tm tm1" by (simp add: same_settings_def tm1_def)
    have rec: "recovered env tm topic dirs tm1" using ps'(2,4) in_range by (fastforce simp: recovered_def s1)
    obtain tm' where IH: "recover_topics env byTopic tm1 = Some tm'" "tm_ok tm'" "same_settings tm1 tm'"
        "\<forall>topic i. topic \<notin> fst ` set byTopic \<longrightarrow> slot tm' topic i = slot tm1 topic i"
        "\<forall>(topic, dirs)\<in>set byTopic. (\<forall>(i, d)\<in>set dirs. i \<le> 9999) \<longrightarrow> recovered env tm1 topic dirs tm'"
      using Cons.IH [of tm1] Cons.prems(1,3,4) ok1 set1 by (auto simp: same_settings_def)
    have "recovered env tm topic dirs tm'" using rec IH(4) notin by (simp add: recovered_def)
    moreover have "recover_topics env (x # byTopic) tm = Some tm'" using x max False ps'(1) IH(1) by (simp add: tm1_def Let_def)
    moreover have "recovered env tm1 = recovered env tm" using set1 by (simp add: recovered_def [abs_def] same_settings_def)
    ultimately show ?thesis using IH same_settings_trans [OF set1 IH(3)] x by (intro exI [of _ tm']) (auto simp: s1)
  qed
qed

lemma NewTopicManager_rep:
  assumes op: "opens env config" and d: "\<And>topic. distinct (map fst (dirs_of topic es))"
  shows "\<exists>tm. NewTopicManager env False (Some es) b config = Some (Inr tm) \<and> tm_ok tm \<and> tm_localBrokerID tm = b \<and> tm_logConfig tm = config \<and>
    (\<forall>topic i l. validateTopicName topic \<longrightarrow> i \<le> 9999 \<longrightarrow> (\<forall>(j, _)\<in>set (dirs_of topic es). j \<le> 9999) \<longrightarrow>
       (partitionDir topic (int i), True) \<in> set es \<longrightarrow> open_log env config (partitionDir topic (int i)) = Some (Inr l) \<longrightarrow>
       slot tm topic i = Some (NewPartition topic (word_of_nat i) b l))"
proof -
  let ?tm = "\<lparr>tm_localBrokerID = b, tm_logConfig = config, tm_topics = []\<rparr>" and ?g = "group_entries [] es"
  have g: "distinct (map fst ?g)" "map_of ?g topic = (if dirs_of topic es = [] then None else Some (dirs_of topic es))" for topic
    using group_entries_rep [of "[]" es topic] by simp_all
  have nonneg: "0 \<le> i" if "(i, x) \<in> set (dirs_of topic es)" for topic i x
    using that dir_entry_nonneg by (auto simp: dirs_of_iff)
  have gd: "\<forall>(topic, dirs)\<in>set ?g. distinct (map fst dirs) \<and> (\<forall>(i, d)\<in>set dirs. 0 \<le> i)"
  proof -
    have "dirs = dirs_of topic es" if "(topic, dirs) \<in> set ?g" for topic dirs
      using g(2) [of topic] that map_of_eq_Some_iff [OF g(1), of topic dirs] by (auto split: if_splits)
    then show ?thesis using d nonneg by fastforce
  qed
  have ok: "tm_ok ?tm" by (simp add: tm_ok_def slot_def)
  obtain tm where tm: "recover_topics env ?g ?tm = Some tm" "tm_ok tm" "same_settings ?tm tm"
      "\<forall>(topic, dirs)\<in>set ?g. (\<forall>(i, d)\<in>set dirs. i \<le> 9999) \<longrightarrow> recovered env ?tm topic dirs tm"
    using recover_topics_rep [OF _ ok g(1) gd] op by fastforce
  have "slot tm topic i = Some (NewPartition topic (word_of_nat i) b l)"
    if v: "validateTopicName topic" "i \<le> 9999" "\<forall>(j, _)\<in>set (dirs_of topic es). j \<le> 9999" "(partitionDir topic (int i), True) \<in> set es"
      "open_log env config (partitionDir topic (int i)) = Some (Inr l)" for topic i l
  proof -
    have "dir_entry (partitionDir topic (int i), True) = Some (topic, int i, partitionDir topic (int i))"
      using dir_entry_partitionDir [OF v(1)] v(2) by simp
    then have m: "(int i, partitionDir topic (int i)) \<in> set (dirs_of topic es)"
      using v(4) by (auto simp: dirs_of_iff)
    then have "map_of ?g topic = Some (dirs_of topic es)" using g(2) [of topic] by auto
    then have "(topic, dirs_of topic es) \<in> set ?g" by (rule map_of_SomeD)
    then have "recovered env ?tm topic (dirs_of topic es) tm" using tm(4) v(3) by fastforce
    then show ?thesis using m v(5) by (fastforce simp: recovered_def)
  qed
  then show ?thesis using tm by (auto simp: NewTopicManager_def recoverFromDisk_def same_settings_def)
qed

section \<open>First leaders\<close>

text \<open>The first leader of a partition without an epoch history, when the checkpoint can be written.\<close>

lemma MakeLeader_first:
  assumes e: "lec_entries (lg_epochCache (pt_log p)) = []" and ep: "0 \<le> sint epoch" and n: "unat (LEO p) < 2 ^ 63"
  shows "\<exists>p'. MakeLeader log_io_ok epoch ids hw p = Some (Inr (), p')"
proof -
  let ?l = "pt_log p" and ?es = "[\<lparr>ee_Epoch = epoch, ee_StartOffset = NextOffset (pt_log p)\<rparr>]"
  have latest: "LatestLeaderEpoch ?l = None" using e by (simp add: LatestLeaderEpoch_def Entries_def)
  have "epochs_ok ?es" "list_all entry_ok ?es" using ep n by (simp_all add: epochs_ok_def entry_ok_def LEO_def)
  then have c: "check_entries 0 None ?es = None" by (intro check_entries_accepts) simp_all
  obtain err states where w: "Checkpoint_Write (lg_fs ?l) (lg_path ?l) ?es no_fault = (err, states)" by fastforce
  then have "err = None" using c by (simp add: Checkpoint_Write_def no_fault_def Let_def)
  moreover have "Assign (lg_epochCache ?l) epoch (NextOffset ?l) = Inr (True, \<lparr>lec_entries = ?es\<rparr>)"
    using e ep by (cases "lg_epochCache ?l") (simp add: Assign_def)
  ultimately have "\<exists>l'. AssignLeaderEpoch log_io_ok epoch (NextOffset ?l) ?l = Some (Inr (), l')"
    using w by (simp add: AssignLeaderEpoch_def lbind_def assign_epoch_def persistEpochCheckpointLocked_def Entries_def log_io_ok_def)
  then obtain l' where "AssignLeaderEpoch log_io_ok epoch (NextOffset ?l) ?l = Some (Inr (), l')" by blast
  then show ?thesis using latest by (simp add: MakeLeader_def Let_def)
qed

end
