(* ===== verification/Server.thy ===== *)
theory Server
  imports Api
begin

text \<open>
  \<open>internal/server\<close>: framing of requests and responses on a connection, responses made of bytes and of
  file ranges, and the loop that serves a connection.

  The input of a connection is the list of bytes that will arrive; it ends with the end of the stream
  or an error.  The output is what the peer has been sent.  The results of the calls of \<open>Write\<close> and
  \<open>sendfile\<close> are scripted by lists, so that partial and failing calls are part of the model; when a script is
  used up the calls succeed.  \<^const>\<open>None\<close> is a panic.
\<close>

section \<open>Connections\<close>

datatype WriteOutcome = WriteOk | WriteShort nat | WriteFails nat
datatype SendOutcome = Sent nat | Again | Interrupted | SendFails

record Conn =
  cn_out :: bytes
  cn_tcp :: bool
  cn_writes :: "WriteOutcome list"
  cn_sends :: "SendOutcome list"

text \<open>\<open>net.Conn.Write\<close>: the number of bytes taken, and whether there was an error.\<close>

definition conn_Write :: "bytes \<Rightarrow> Conn \<Rightarrow> (nat \<times> bool) \<times> Conn" where
  "conn_Write b c =
     (case cn_writes c of
        [] \<Rightarrow> ((length b, False), c\<lparr>cn_out := cn_out c @ b\<rparr>)
      | WriteOk # ws \<Rightarrow> ((length b, False), c\<lparr>cn_out := cn_out c @ b, cn_writes := ws\<rparr>)
      | WriteShort n # ws \<Rightarrow> ((min n (length b), False), c\<lparr>cn_out := cn_out c @ take n b, cn_writes := ws\<rparr>)
      | WriteFails n # ws \<Rightarrow> ((min n (length b), True), c\<lparr>cn_out := cn_out c @ take n b, cn_writes := ws\<rparr>))"

function WriteBytes :: "bytes \<Rightarrow> Conn \<Rightarrow> bool \<times> Conn" where
  "WriteBytes b c =
     (if length b > 0
      then let ((n, err), c) = conn_Write b c in
        if err then (False, c)
        else if n = 0 then (False, c)
        else WriteBytes (drop n b) c
      else (True, c))"
  by pat_completeness auto
termination
  by (relation "measure (\<lambda>(b, _). length b)") auto

declare WriteBytes.simps [simp del]

text \<open>\<open>net.Buffers.WriteTo\<close>: one \<open>Write\<close> per buffer.\<close>

fun Buffers_WriteTo :: "bytes list \<Rightarrow> Conn \<Rightarrow> bool \<times> Conn" where
  "Buffers_WriteTo [] c = (True, c)"
| "Buffers_WriteTo (b # bs) c =
     (let ((n, err), c) = conn_Write b c in if err then (False, c) else Buffers_WriteTo bs c)"

text \<open>The loop of \<open>sendFileRange\<close>: \<open>sendfile\<close> takes what the file has at the position.\<close>

function send_loop :: "bytes \<Rightarrow> nat \<Rightarrow> nat \<Rightarrow> Conn \<Rightarrow> bool \<times> Conn" where
  "send_loop src off remaining c =
     (if remaining > 0
      then let available = take remaining (drop off src) in
        case cn_sends c of
          [] \<Rightarrow>
            if length available > 0
            then send_loop src (off + length available) (remaining - length available) (c\<lparr>cn_out := cn_out c @ available\<rparr>)
            else (False, c)
        | Sent n # ss \<Rightarrow>
            let sent = take n available; c = c\<lparr>cn_out := cn_out c @ sent, cn_sends := ss\<rparr> in
            if length sent > 0 then send_loop src (off + length sent) (remaining - length sent) c else (False, c)
        | Again # ss \<Rightarrow> send_loop src off remaining (c\<lparr>cn_sends := ss\<rparr>)
        | Interrupted # ss \<Rightarrow> send_loop src off remaining (c\<lparr>cn_sends := ss\<rparr>)
        | SendFails # ss \<Rightarrow> (False, c\<lparr>cn_sends := ss\<rparr>)
      else (True, c))"
  by pat_completeness auto
termination
  by (relation "measure (\<lambda>(_, _, remaining, c). remaining + length (cn_sends c))") (auto simp: min_def)

declare send_loop.simps [simp del]

definition sendFileRange :: "bytes \<Rightarrow> int \<Rightarrow> int \<Rightarrow> Conn \<Rightarrow> bool \<times> Conn" where
  "sendFileRange src offset len c = send_loop src (nat offset) (nat len) c"

text \<open>\<open>io.CopyN\<close> from a section of the file.\<close>

definition copy_range :: "bytes \<Rightarrow> int \<Rightarrow> int \<Rightarrow> Conn \<Rightarrow> bool \<times> Conn" where
  "copy_range src offset n c =
     (let data = take (nat n) (drop (nat offset) src); ((k, err), c) = conn_Write data c in
      (\<not> err \<and> k = length data \<and> length data = nat n, c))"

definition WriteFileRange :: "bytes \<Rightarrow> int \<Rightarrow> int \<Rightarrow> Conn \<Rightarrow> bool \<times> Conn" where
  "WriteFileRange f off n c =
     (if n \<le> 0 then (True, c)
      else if \<not> cn_tcp c then copy_range f off n c
      else sendFileRange f off n c)"

section \<open>Responses\<close>

datatype ResponsePart = BytesPart bytes | FilePart bytes int int

fun part_Len :: "ResponsePart \<Rightarrow> int" where
  "part_Len (BytesPart p) = int (length p)"
| "part_Len (FilePart f offset len) = len"

fun part_WriteTo :: "ResponsePart \<Rightarrow> Conn \<Rightarrow> bool \<times> Conn" where
  "part_WriteTo (BytesPart p) c = WriteBytes p c"
| "part_WriteTo (FilePart f offset len) c = WriteFileRange f offset len c"

datatype Response = BytesResponse bytes | CompositeResponse "ResponsePart list" int

definition NewCompositeResponse :: "ResponsePart list \<Rightarrow> Response" where
  "NewCompositeResponse parts = CompositeResponse parts (sum_list (map part_Len parts))"

fun BodySize :: "Response \<Rightarrow> int" where
  "BodySize (BytesResponse r) = int (length r)"
| "BodySize (CompositeResponse parts sz) = sz"

fun write_parts :: "ResponsePart list \<Rightarrow> Conn \<Rightarrow> bool \<times> Conn" where
  "write_parts [] c = (True, c)"
| "write_parts (p # ps) c = (let (ok, c) = part_WriteTo p c in if ok then write_parts ps c else (False, c))"

fun WriteBodyTo :: "Response \<Rightarrow> Conn \<Rightarrow> bool \<times> Conn" where
  "WriteBodyTo (BytesResponse r) c = WriteBytes r c"
| "WriteBodyTo (CompositeResponse parts sz) c = write_parts parts c"

section \<open>Framing\<close>

text \<open>\<open>io.ReadFull\<close> on the bytes to come.\<close>

definition ReadFull :: "nat \<Rightarrow> bytes \<Rightarrow> (bytes \<times> bytes) option" where
  "ReadFull n input = (if n \<le> length input then Some (take n input, drop n input) else None)"

definition readMessage :: "i32 \<Rightarrow> bytes \<Rightarrow> (bytes \<times> bytes) option" where
  "readMessage maxReqBytes input =
     (case ReadFull 4 input of
        None \<Rightarrow> None
      | Some (sizeBuf, input) \<Rightarrow>
          let size = (get32 sizeBuf :: i32) in
          if sint size \<le> 0 \<or> sint size > sint maxReqBytes then None
          else ReadFull (nat (sint size)) input)"

definition writeResponse :: "RequestHeader \<Rightarrow> Response \<Rightarrow> Conn \<Rightarrow> bool \<times> Conn" where
  "writeResponse reqHeader resp c =
     (let respHeaderVersion = ResponseHeaderVersion (rh_APIKey reqHeader) (rh_APIVersion reqHeader);
          headerSize = 4 + (if sint respHeaderVersion \<ge> 1 then 1 else 0);
          totalSize = headerSize + BodySize resp
      in if totalSize > 2 ^ 32 - 1 then (False, c)
      else let prefix = be32 (word_of_int totalSize) @ be32 (rh_CorrelationID reqHeader) @ (if sint respHeaderVersion \<ge> 1 then [0] else []) in
        case resp of
          BytesResponse body \<Rightarrow> Buffers_WriteTo (prefix # (if length body > 0 then [body] else [])) c
        | CompositeResponse _ _ \<Rightarrow>
            let (ok, c) = WriteBytes prefix c in if ok then WriteBodyTo resp c else (False, c))"

section \<open>Serving a connection\<close>

text \<open>The handler of the requests; \<^const>\<open>Inr\<close> \<^const>\<open>None\<close> is a request without a response.  \<open>closing\<close> says at
  which turn of the loop the shutdown is noticed.\<close>

type_synonym ('e, 'h) RequestHandler = "RequestHeader \<Rightarrow> bytes \<Rightarrow> 'h \<Rightarrow> (('e + Response option) \<times> 'h) option"

lemma readMessage_shorter: "readMessage n input = Some (msg, rest) \<Longrightarrow> length rest < length input"
  by (auto simp: readMessage_def ReadFull_def Let_def split: if_splits)

function serve :: "i32 \<Rightarrow> ('e, 'h) RequestHandler \<Rightarrow> nat option \<Rightarrow> bytes \<Rightarrow> Conn \<Rightarrow> 'h \<Rightarrow> (Conn \<times> 'h) option" where
  "serve maxReqBytes handle closing input c h =
     (if closing = Some 0 then Some (c, h)
      else let closing = map_option (\<lambda>k. k - 1) closing in
        case readMessage maxReqBytes input of
          None \<Rightarrow> Some (c, h)
        | Some (msg, rest) \<Rightarrow>
            (case ParseRequestHeader msg of
               None \<Rightarrow> None
             | Some (Inl _) \<Rightarrow> Some (c, h)
             | Some (Inr (header, body)) \<Rightarrow>
                 (case handle header body h of
                    None \<Rightarrow> None
                  | Some (Inl _, h) \<Rightarrow> Some (c, h)
                  | Some (Inr None, h) \<Rightarrow> serve maxReqBytes handle closing rest c h
                  | Some (Inr (Some resp), h) \<Rightarrow>
                      let (ok, c) = writeResponse header resp c in
                      if ok then serve maxReqBytes handle closing rest c h else Some (c, h))))"
  by pat_completeness auto
termination
  by (relation "measure (\<lambda>(_, _, _, input, _, _). length input)") (auto dest: readMessage_shorter)

declare serve.simps [simp del]

section \<open>What is sent\<close>

text \<open>A step of output: it sends a beginning of the given bytes, and all of them when it succeeds.\<close>

definition sends :: "bytes \<Rightarrow> Conn \<Rightarrow> bool \<times> Conn \<Rightarrow> bool" where
  "sends b c r \<longleftrightarrow> cn_tcp (snd r) = cn_tcp c \<and> set (cn_writes (snd r)) \<subseteq> set (cn_writes c) \<and> (\<exists>k. cn_out (snd r) = cn_out c @ take k b \<and> (fst r \<longrightarrow> length b \<le> k))"

lemma sends_all: "sends b c (True, c') \<Longrightarrow> cn_out c' = cn_out c @ b"
  by (auto simp: sends_def)

lemma sends_none: "cn_out c' = cn_out c \<Longrightarrow> cn_tcp c' = cn_tcp c \<Longrightarrow> set (cn_writes c') \<subseteq> set (cn_writes c) \<Longrightarrow> sends b c (False, c')"
  by (auto simp: sends_def intro: exI [of _ 0])

lemma sends_done: "cn_out c' = cn_out c @ b \<Longrightarrow> cn_tcp c' = cn_tcp c \<Longrightarrow> set (cn_writes c') \<subseteq> set (cn_writes c) \<Longrightarrow> sends b c (ok, c')"
  by (auto simp: sends_def intro: exI [of _ "length b"])

lemma sends_append:
  assumes "sends a c (True, c')" and "sends b c' r"
  shows "sends (a @ b) c r"
proof -
  obtain k where "cn_out (snd r) = cn_out c' @ take k b" "fst r \<longrightarrow> length b \<le> k" using assms(2) by (auto simp: sends_def)
  then show ?thesis using assms sends_all [OF assms(1)]
    by (auto simp: sends_def intro!: exI [of _ "length a + k"])
qed

lemma sends_stop:
  assumes "sends a c (False, c')"
  shows "sends (a @ b) c (False, c')"
proof -
  obtain k where "cn_out c' = cn_out c @ take k a" "cn_tcp c' = cn_tcp c" "set (cn_writes c') \<subseteq> set (cn_writes c)" using assms by (auto simp: sends_def)
  moreover have "take k a = take (min k (length a)) a" by (simp add: min_def)
  ultimately show ?thesis by (auto simp: sends_def intro!: exI [of _ "min k (length a)"])
qed

lemma conn_Write_sends:
  assumes "conn_Write b c = ((n, err), c')"
  shows "cn_tcp c' = cn_tcp c" and "n \<le> length b" and "cn_out c' = cn_out c @ take n b"
    and "set (cn_writes c') \<subseteq> set (cn_writes c)"
  using assms by (auto simp: conn_Write_def min_def split: list.splits WriteOutcome.splits)

lemma WriteBytes_sends: "sends b c (WriteBytes b c)"
proof (induction b c rule: WriteBytes.induct)
  case (1 b c)
  show ?case
  proof (cases "b = []")
    case True
    then show ?thesis by (simp add: WriteBytes.simps sends_def)
  next
    case False
    obtain n err c' where w: "conn_Write b c = ((n, err), c')" by (metis prod.collapse)
    note k = conn_Write_sends(1,4) [OF w] and out = conn_Write_sends(3) [OF w]
    show ?thesis
    proof (cases "err \<or> n = 0")
      case True
      then have "WriteBytes b c = (False, c')" using False w by (subst WriteBytes.simps) auto
      then show ?thesis using k out by (auto simp: sends_def)
    next
      case ne: False
      then have eq: "WriteBytes b c = WriteBytes (drop n b) c'" using False w by (subst WriteBytes.simps) simp
      have "sends (drop n b) c' (WriteBytes (drop n b) c')" using 1 [of "conn_Write b c" "(n, err)" c' n err] False w ne by simp
      moreover have "sends (take n b) c (True, c')" using k out by (intro sends_done)
      ultimately have "sends (take n b @ drop n b) c (WriteBytes b c)" unfolding eq by (rule sends_append [rotated])
      then show ?thesis by simp
    qed
  qed
qed

lemma send_loop_sends: "sends (take remaining (drop off src)) c (send_loop src off remaining c) \<and>
    (fst (send_loop src off remaining c) \<longrightarrow> remaining = 0 \<or> off + remaining \<le> length src)"
proof (induction src off remaining c rule: send_loop.induct)
  case (1 src off remaining c)
  define a where "a = take remaining (drop off src)"
  show ?case unfolding a_def [symmetric]
  proof (cases "remaining = 0")
    case True
    then show "sends a c (send_loop src off remaining c) \<and> (fst (send_loop src off remaining c) \<longrightarrow> remaining = 0 \<or> off + remaining \<le> length src)"
      by (simp add: send_loop.simps sends_def a_def)
  next
    case False
    have step: "send_loop src off remaining c =
        (case cn_sends c of
          [] \<Rightarrow> if length a > 0 then send_loop src (off + length a) (remaining - length a) (c\<lparr>cn_out := cn_out c @ a\<rparr>) else (False, c)
        | Sent n # ss \<Rightarrow>
            if length (take n a) > 0
            then send_loop src (off + length (take n a)) (remaining - length (take n a)) (c\<lparr>cn_out := cn_out c @ take n a, cn_sends := ss\<rparr>)
            else (False, c\<lparr>cn_out := cn_out c @ take n a, cn_sends := ss\<rparr>)
        | Again # ss \<Rightarrow> send_loop src off remaining (c\<lparr>cn_sends := ss\<rparr>)
        | Interrupted # ss \<Rightarrow> send_loop src off remaining (c\<lparr>cn_sends := ss\<rparr>)
        | SendFails # ss \<Rightarrow> (False, c\<lparr>cn_sends := ss\<rparr>))"
      unfolding a_def using False by (subst send_loop.simps) (simp only: Let_def if_True neq0_conv)
    have go: "sends a c (send_loop src off remaining c) \<and> (fst (send_loop src off remaining c) \<longrightarrow> remaining = 0 \<or> off + remaining \<le> length src)"
      if k: "0 < k" "k \<le> length a" and out: "cn_out c' = cn_out c @ take k a" "cn_tcp c' = cn_tcp c" "set (cn_writes c') \<subseteq> set (cn_writes c)"
        and eq: "send_loop src off remaining c = send_loop src (off + k) (remaining - k) c'"
        and IH: "sends (take (remaining - k) (drop (off + k) src)) c' (send_loop src (off + k) (remaining - k) c') \<and>
          (fst (send_loop src (off + k) (remaining - k) c') \<longrightarrow> remaining - k = 0 \<or> off + k + (remaining - k) \<le> length src)" for k c'
    proof -
      have split: "a = take k a @ take (remaining - k) (drop (off + k) src)"
        using k(2) by (simp add: a_def min_def) (metis append_take_drop_id drop_drop drop_take add.commute take_take min_def)
      have "sends (take k a) c (True, c')" using out by (intro sends_done)
      from sends_append [OF this conjunct1 [OF IH]] have "sends a c (send_loop src off remaining c)" unfolding eq using split by simp
      moreover have "off + remaining \<le> length src" if "fst (send_loop src off remaining c)"
        using IH k that unfolding eq by (auto simp: a_def)
      ultimately show ?thesis by blast
    qed
    show "sends a c (send_loop src off remaining c) \<and> (fst (send_loop src off remaining c) \<longrightarrow> remaining = 0 \<or> off + remaining \<le> length src)"
    proof (cases "cn_sends c")
      case Nil
      show ?thesis
      proof (cases "a = []")
        case True
        then show ?thesis using step Nil by (simp add: sends_none)
      next
        case ne: False
        let ?c = "c\<lparr>cn_out := cn_out c @ a\<rparr>"
        have "send_loop src off remaining c = send_loop src (off + length a) (remaining - length a) ?c" using step Nil ne by simp
        moreover have "sends (take (remaining - length a) (drop (off + length a) src)) ?c (send_loop src (off + length a) (remaining - length a) ?c) \<and>
            (fst (send_loop src (off + length a) (remaining - length a) ?c) \<longrightarrow> remaining - length a = 0 \<or> off + length a + (remaining - length a) \<le> length src)"
          using 1(1) [OF _ a_def Nil] ne False by simp
        ultimately show ?thesis using go [of "length a" ?c] ne by simp
      qed
    next
      case (Cons s ss)
      show ?thesis
      proof (cases s)
        case (Sent n)
        define b where "b = take n a"
        let ?c = "c\<lparr>cn_out := cn_out c @ b, cn_sends := ss\<rparr>"
        have b: "b = take (length b) a" "length b \<le> length a" by (simp_all add: b_def min_def)
        have st: "send_loop src off remaining c =
            (if length b > 0 then send_loop src (off + length b) (remaining - length b) ?c else (False, ?c))"
          using step Cons Sent by (simp add: b_def)
        show ?thesis
        proof (cases "b = []")
          case True
          then show ?thesis using st by (simp add: sends_none)
        next
          case ne: False
          then have "send_loop src off remaining c = send_loop src (off + length b) (remaining - length b) ?c" using st by simp
          moreover have "sends (take (remaining - length b) (drop (off + length b) src)) ?c (send_loop src (off + length b) (remaining - length b) ?c) \<and>
              (fst (send_loop src (off + length b) (remaining - length b) ?c) \<longrightarrow> remaining - length b = 0 \<or> off + length b + (remaining - length b) \<le> length src)"
            using 1(2) [OF _ a_def Cons Sent b_def refl] ne False by simp
          ultimately show ?thesis using go [of "length b" ?c] b ne by simp
        qed
      next
        case SendFails
        then show ?thesis using False Cons by (simp add: send_loop.simps sends_none)
      next
        case Again
        then have eq: "send_loop src off remaining c = send_loop src off remaining (c\<lparr>cn_sends := ss\<rparr>)" using False Cons by (subst send_loop.simps) simp
        show ?thesis unfolding eq using 1(3) [OF _ a_def Cons Again] False unfolding a_def [symmetric] by (simp add: sends_def)
      next
        case Interrupted
        then have eq: "send_loop src off remaining c = send_loop src off remaining (c\<lparr>cn_sends := ss\<rparr>)" using False Cons by (subst send_loop.simps) simp
        show ?thesis unfolding eq using 1(4) [OF _ a_def Cons Interrupted] False unfolding a_def [symmetric] by (simp add: sends_def)
      qed
    qed
  qed
qed

section \<open>Responses on the wire\<close>

fun part_data :: "ResponsePart \<Rightarrow> bytes" where
  "part_data (BytesPart p) = p"
| "part_data (FilePart f offset len) = take (nat len) (drop (nat offset) f)"

fun part_fits :: "ResponsePart \<Rightarrow> bool" where
  "part_fits (BytesPart p) \<longleftrightarrow> True"
| "part_fits (FilePart f offset len) \<longleftrightarrow> 0 \<le> offset \<and> 0 \<le> len \<and> offset + len \<le> int (length f)"

fun resp_data :: "Response \<Rightarrow> bytes" where
  "resp_data (BytesResponse r) = r"
| "resp_data (CompositeResponse parts sz) = concat (map part_data parts)"

fun resp_ok :: "Response \<Rightarrow> bool" where
  "resp_ok (BytesResponse r) \<longleftrightarrow> True"
| "resp_ok (CompositeResponse parts sz) \<longleftrightarrow> list_all part_fits parts \<and> sz = sum_list (map part_Len parts)"

lemma part_data_length: "part_fits p \<Longrightarrow> int (length (part_data p)) = part_Len p"
  by (cases p) auto

lemma BodySize_data: "resp_ok r \<Longrightarrow> BodySize r = int (length (resp_data r))"
proof (cases r)
  case (CompositeResponse parts sz)
  have "list_all part_fits parts \<Longrightarrow> sum_list (map part_Len parts) = int (length (concat (map part_data parts)))"
    by (induction parts) (simp_all add: part_data_length)
  then show "resp_ok r \<Longrightarrow> ?thesis" using CompositeResponse by simp
qed simp

lemma copy_range_sends: "sends (take (nat n) (drop (nat off) f)) c (copy_range f off n c)"
proof -
  define data where "data = take (nat n) (drop (nat off) f)"
  obtain k err c' where w: "conn_Write data c = ((k, err), c')" by (metis prod.collapse)
  have "copy_range f off n c = (\<not> err \<and> k = length data \<and> length data = nat n, c')" using w by (simp add: copy_range_def data_def Let_def)
  then show ?thesis unfolding data_def [symmetric] using conn_Write_sends [OF w] by (auto simp: sends_def)
qed

lemma part_WriteTo_sends: "sends (part_data p) c (part_WriteTo p c)"
proof (cases p)
  case (FilePart f offset len)
  then show ?thesis using copy_range_sends send_loop_sends [of "nat len" "nat offset" f c]
    by (auto simp: WriteFileRange_def sendFileRange_def intro: sends_done)
qed (simp add: WriteBytes_sends)

lemma write_parts_sends: "sends (concat (map part_data ps)) c (write_parts ps c)"
proof (induction ps arbitrary: c)
  case Nil
  then show ?case by (simp add: sends_done)
next
  case (Cons p ps)
  obtain ok c' where w: "part_WriteTo p c = (ok, c')" by (cases "part_WriteTo p c")
  then have s: "sends (part_data p) c (ok, c')" using part_WriteTo_sends [of p c] by simp
  then show ?case using w Cons [of c'] sends_append [of "part_data p" c c'] sends_stop [of "part_data p" c c'] by (cases ok) auto
qed

text \<open>The contract of \<open>io.Writer\<close>: a short write comes with an error.\<close>

definition honest :: "Conn \<Rightarrow> bool" where
  "honest c \<longleftrightarrow> (\<forall>n. WriteShort n \<notin> set (cn_writes c))"

lemma conn_Write_honest:
  assumes "honest c" and "conn_Write b c = ((n, err), c')"
  shows "honest c' \<and> sends b c (\<not> err, c')"
  using assms conn_Write_sends [OF assms(2)]
  by (auto simp: conn_Write_def honest_def sends_def split: list.splits WriteOutcome.splits intro: exI [of _ n])

definition response_frame :: "RequestHeader \<Rightarrow> bytes \<Rightarrow> bytes" where
  "response_frame h body =
     (let m = response_header_bytes (rh_CorrelationID h) (rh_APIKey h) (rh_APIVersion h) @ body in be32 (word_of_nat (length m)) @ m)"

lemma writeResponse_sends:
  assumes ok: "resp_ok resp" and hon: "honest c"
  shows "sends (response_frame h (resp_data resp)) c (writeResponse h resp c)"
proof -
  let ?v = "ResponseHeaderVersion (rh_APIKey h) (rh_APIVersion h)"
  define total where "total = 4 + (if sint ?v \<ge> 1 then 1 else 0) + BodySize resp"
  define prefix where "prefix = be32 (word_of_int total) @ be32 (rh_CorrelationID h) @ (if sint ?v \<ge> 1 then [0] else [])"
  have frame: "response_frame h (resp_data resp) = prefix @ resp_data resp"
    using BodySize_data [OF ok]
    by (auto simp: response_frame_def prefix_def total_def response_header_bytes_def bytes_if_def ResponseHeaderVersion_ge1 Let_def put_uvarint.simps)
  show ?thesis
  proof (cases "total > 2 ^ 32 - 1")
    case True
    then have "writeResponse h resp c = (False, c)" by (simp add: writeResponse_def total_def Let_def)
    then show ?thesis by (simp add: sends_none)
  next
    case False
    show ?thesis
    proof (cases resp)
      case (BytesResponse body)
      have eq: "writeResponse h resp c = Buffers_WriteTo (prefix # (if length body > 0 then [body] else [])) c"
        using False BytesResponse by (simp add: writeResponse_def total_def prefix_def Let_def)
      obtain n err c' where w: "conn_Write prefix c = ((n, err), c')" by (metis prod.collapse)
      have s: "honest c'" "sends prefix c (\<not> err, c')" using conn_Write_honest [OF hon w] by simp_all
      obtain n2 err2 c2 where w2: "conn_Write body c' = ((n2, err2), c2)" by (metis prod.collapse)
      have s2: "sends body c' (\<not> err2, c2)" using conn_Write_honest [OF s(1) w2] by simp
      show ?thesis
        using eq frame w w2 s s2 BytesResponse sends_append [of prefix c c' body] sends_stop [of prefix c c' body]
        by (cases err; cases err2) auto
    next
      case (CompositeResponse parts sz)
      obtain ok' c' where w: "WriteBytes prefix c = (ok', c')" by (cases "WriteBytes prefix c")
      have eq: "writeResponse h resp c = (if ok' then write_parts parts c' else (False, c'))"
        using False CompositeResponse w by (simp add: writeResponse_def total_def prefix_def Let_def)
      have "sends prefix c (ok', c')" using WriteBytes_sends [of prefix c] w by simp
      then show ?thesis using eq frame CompositeResponse write_parts_sends [of parts c']
          sends_append [of prefix c c' "resp_data resp"] sends_stop [of prefix c c' "resp_data resp"]
        by (cases ok') auto
    qed
  qed
qed

text \<open>A connection on which nothing fails sends everything.\<close>

definition smooth :: "Conn \<Rightarrow> bool" where
  "smooth c \<longleftrightarrow> cn_writes c = [] \<and> cn_sends c = []"

lemma conn_Write_smooth: "smooth c \<Longrightarrow> conn_Write b c = ((length b, False), c\<lparr>cn_out := cn_out c @ b\<rparr>)"
  by (simp add: conn_Write_def smooth_def)

lemma smooth_out [simp]: "smooth (c\<lparr>cn_out := x\<rparr>) = smooth c"
  by (simp add: smooth_def)

lemma WriteBytes_smooth: "smooth c \<Longrightarrow> WriteBytes b c = (True, c\<lparr>cn_out := cn_out c @ b\<rparr>)"
  by (subst WriteBytes.simps) (simp add: conn_Write_smooth WriteBytes.simps)

lemma send_loop_smooth:
  assumes "smooth c" and "off + n \<le> length src"
  shows "send_loop src off n c = (True, c\<lparr>cn_out := cn_out c @ take n (drop off src)\<rparr>)"
  using assms by (subst send_loop.simps) (auto simp: smooth_def send_loop.simps)

lemma part_smooth: "smooth c \<Longrightarrow> part_fits p \<Longrightarrow> part_WriteTo p c = (True, c\<lparr>cn_out := cn_out c @ part_data p\<rparr>)"
  by (cases p)
    (auto simp: WriteBytes_smooth WriteFileRange_def sendFileRange_def copy_range_def conn_Write_smooth send_loop_smooth nat_le_iff Let_def)

lemma write_parts_smooth:
  "smooth c \<Longrightarrow> list_all part_fits ps \<Longrightarrow> write_parts ps c = (True, c\<lparr>cn_out := cn_out c @ concat (map part_data ps)\<rparr>)"
  by (induction ps arbitrary: c) (simp_all add: part_smooth)

lemma writeResponse_smooth:
  assumes "smooth c" and "resp_ok resp" and "5 + int (length (resp_data resp)) \<le> 2 ^ 32 - 1"
  shows "writeResponse h resp c = (True, c\<lparr>cn_out := cn_out c @ response_frame h (resp_data resp)\<rparr>)"
proof -
  have "fst (writeResponse h resp c)"
    using assms BodySize_data [OF assms(2)]
    by (cases resp) (auto simp: writeResponse_def Let_def conn_Write_smooth WriteBytes_smooth write_parts_smooth)
  moreover have "snd (writeResponse h resp c) = c\<lparr>cn_out := cn_out (snd (writeResponse h resp c))\<rparr>"
    using assms BodySize_data [OF assms(2)]
    by (cases resp) (auto simp: writeResponse_def Let_def conn_Write_smooth WriteBytes_smooth write_parts_smooth)
  moreover have "sends (response_frame h (resp_data resp)) c (writeResponse h resp c)"
    using writeResponse_sends [OF assms(2)] assms(1) by (simp add: honest_def smooth_def)
  ultimately show ?thesis using sends_all [of _ c "snd (writeResponse h resp c)"] by (metis prod.collapse)
qed

end
