(* ===== verification/ServerLoop.thy ===== *)
theory ServerLoop
  imports Server
begin

text \<open>
  A connection as a whole: the server answers the requests in order, and the client reads only whole
  answers or a beginning of them.
\<close>

section \<open>Requests on the wire\<close>

definition request_message :: "RequestHeader \<times> bytes \<Rightarrow> bytes" where
  "request_message = (\<lambda>(h, body). request_header_bytes (rh_APIKey h) (rh_APIVersion h) (rh_CorrelationID h) (rh_ClientID h) @ body)"

definition request_frame :: "RequestHeader \<times> bytes \<Rightarrow> bytes" where
  "request_frame r = be32 (word_of_nat (length (request_message r))) @ request_message r"

definition request_ok :: "i32 \<Rightarrow> RequestHeader \<times> bytes \<Rightarrow> bool" where
  "request_ok maxReqBytes r \<longleftrightarrow> ok_nstr (rh_ClientID (fst r)) \<and> int (length (request_message r)) \<le> sint maxReqBytes"

lemma request_message_length: "8 \<le> length (request_message r)"
  by (cases r) (simp add: request_message_def request_header_bytes_def)

lemma readMessage_frame:
  assumes "request_ok n r"
  shows "readMessage n (request_frame r @ rest) = Some (request_message r, rest)"
proof -
  let ?m = "request_message r"
  have len: "int (length ?m) < 2 ^ 31" using assms sint_lt [of n] by (simp add: request_ok_def)
  then have "length ?m < 2 ^ (LENGTH(32) - 1)" by simp
  then have s: "sint (word_of_nat (length ?m) :: i32) = int (length ?m)" by (rule sint_word_of_nat)
  moreover have "?m \<noteq> []" using request_message_length [of r] by auto
  ultimately show ?thesis using assms
    by (simp add: readMessage_def ReadFull_def request_frame_def request_ok_def Let_def)
qed

lemma Parse_message:
  assumes "request_ok n r"
  shows "ParseRequestHeader (request_message r) = Some (Inr r)"
proof -
  obtain h body where r: "r = (h, body)" by (cases r)
  have "fits (request_message r)" using assms sint_lt [of n] by (simp add: request_ok_def fits_def)
  then show ?thesis using ParseRequestHeader_bytes [of "rh_ClientID h"] assms r
    by (simp add: request_message_def request_ok_def)
qed

section \<open>The answers\<close>

text \<open>What the handler answers to a list of requests, up to the first error.\<close>

fun answers :: "('e, 'h) RequestHandler \<Rightarrow> (RequestHeader \<times> bytes) list \<Rightarrow> 'h \<Rightarrow> (bytes list \<times> 'h) option" where
  "answers handle [] h = Some ([], h)"
| "answers handle ((header, body) # rs) h =
     (case handle header body h of
        None \<Rightarrow> None
      | Some (Inl _, h) \<Rightarrow> Some ([], h)
      | Some (Inr None, h) \<Rightarrow> answers handle rs h
      | Some (Inr (Some resp), h) \<Rightarrow> map_option (\<lambda>(fs, h). (response_frame header (resp_data resp) # fs, h)) (answers handle rs h))"

text \<open>Every response of the handler is a proper one.\<close>

definition responses_ok :: "('e, 'h) RequestHandler \<Rightarrow> bool" where
  "responses_ok handle \<longleftrightarrow> (\<forall>header body h resp h'. handle header body h = Some (Inr (Some resp), h') \<longrightarrow>
     resp_ok resp \<and> 5 + int (length (resp_data resp)) \<le> 2 ^ 32 - 1)"

lemma serve_answers:
  assumes "list_all (request_ok n) rs" and "responses_ok handle" and "smooth c" and "answers handle rs h = Some (fs, h')"
  shows "serve n handle None (concat (map request_frame rs)) c h = Some (c\<lparr>cn_out := cn_out c @ concat fs\<rparr>, h')"
  using assms
proof (induction rs arbitrary: c h fs)
  case Nil
  then show ?case by (subst serve.simps) (simp add: readMessage_def ReadFull_def)
next
  case (Cons r rs)
  obtain header body where r: "r = (header, body)" by (cases r)
  have rd: "readMessage n (concat (map request_frame (r # rs))) = Some (request_message r, concat (map request_frame rs))"
    "ParseRequestHeader (request_message r) = Some (Inr (header, body))"
    using Cons.prems(1) readMessage_frame [of n r] Parse_message [of n r] r by simp_all
  obtain x h1 where hd: "handle header body h = Some (x, h1)" using Cons.prems(4) r by (auto split: option.splits)
  show ?case
  proof (cases x)
    case (Inl e)
    then show ?thesis using Cons.prems(4) r hd rd by (subst serve.simps) simp
  next
    case (Inr o')
    show ?thesis
    proof (cases o')
      case None
      then have "serve n handle None (concat (map request_frame (r # rs))) c h = serve n handle None (concat (map request_frame rs)) c h1"
        using Inr hd rd by (subst serve.simps) simp
      then show ?thesis using Cons.IH [of c h1 fs] Cons.prems r hd Inr None by simp
    next
      case (Some resp)
      obtain fs' where fs': "answers handle rs h1 = Some (fs', h')" "fs = response_frame header (resp_data resp) # fs'"
        using Cons.prems(4) r hd Inr Some by auto
      have ro: "resp_ok resp" "5 + int (length (resp_data resp)) \<le> 2 ^ 32 - 1"
        using Cons.prems(2) hd Inr Some unfolding responses_ok_def by blast+
      let ?c = "c\<lparr>cn_out := cn_out c @ response_frame header (resp_data resp)\<rparr>"
      have "serve n handle None (concat (map request_frame (r # rs))) c h = serve n handle None (concat (map request_frame rs)) ?c h1"
        using Inr Some hd rd writeResponse_smooth [OF Cons.prems(3) ro] by (subst serve.simps) simp
      then show ?thesis using Cons.IH [of ?c h1 fs'] Cons.prems(1-3) fs' by simp
    qed
  qed
qed

text \<open>Whatever fails, and whenever the server shuts down, the client has a beginning of the answers.\<close>

lemma serve_prefix:
  assumes "list_all (request_ok n) rs" and "responses_ok handle" and "honest c" and "answers handle rs h = Some (fs, h')"
  shows "\<exists>c' h''. serve n handle closing (concat (map request_frame rs)) c h = Some (c', h'') \<and> (\<exists>k. cn_out c' = cn_out c @ take k (concat fs))"
  using assms
proof (induction rs arbitrary: c h fs closing)
  case Nil
  then show ?case by (subst serve.simps) (simp add: readMessage_def ReadFull_def)
next
  case (Cons r rs)
  obtain header body where r: "r = (header, body)" by (cases r)
  have rd: "readMessage n (concat (map request_frame (r # rs))) = Some (request_message r, concat (map request_frame rs))"
    "ParseRequestHeader (request_message r) = Some (Inr (header, body))"
    using Cons.prems(1) readMessage_frame [of n r] Parse_message [of n r] r by simp_all
  obtain x h1 where hd: "handle header body h = Some (x, h1)" using Cons.prems(4) r by (auto split: option.splits)
  let ?cl = "map_option (\<lambda>k. k - 1) closing"
  have stop: ?case if "serve n handle closing (concat (map request_frame (r # rs))) c h = Some (c, h2)" for h2
    using that by (intro exI [of _ c] exI [of _ h2]) (auto intro: exI [of _ 0])
  show ?case
  proof (cases "closing = Some 0")
    case True
    then show ?thesis using stop [of h] by (simp add: serve.simps)
  next
    case open': False
    show ?thesis
    proof (cases x)
      case (Inl e)
      then show ?thesis using stop [of h1] open' hd rd by (simp add: serve.simps)
    next
      case (Inr o')
      show ?thesis
      proof (cases o')
        case None
        then have "serve n handle closing (concat (map request_frame (r # rs))) c h = serve n handle ?cl (concat (map request_frame rs)) c h1"
          using Inr hd rd open' by (subst serve.simps) simp
        then show ?thesis using Cons.IH [of c h1 fs ?cl] Cons.prems r hd Inr None by simp
      next
        case (Some resp)
        let ?f = "response_frame header (resp_data resp)"
        obtain fs' where fs': "answers handle rs h1 = Some (fs', h')" "fs = ?f # fs'"
          using Cons.prems(4) r hd Inr Some by auto
        have ro: "resp_ok resp" using Cons.prems(2) hd Inr Some unfolding responses_ok_def by blast
        obtain ok c1 where w: "writeResponse header resp c = (ok, c1)" by (cases "writeResponse header resp c")
        have s: "sends ?f c (ok, c1)" using writeResponse_sends [OF ro Cons.prems(3), of header] w by simp
        have eq: "serve n handle closing (concat (map request_frame (r # rs))) c h =
            (if ok then serve n handle ?cl (concat (map request_frame rs)) c1 h1 else Some (c1, h1))"
          using Inr Some hd rd w open' by (subst serve.simps) simp
        show ?thesis
        proof (cases ok)
          case True
          have "honest c1" using s Cons.prems(3) by (auto simp: honest_def sends_def)
          from Cons.IH [OF _ Cons.prems(2) this fs'(1), of ?cl] Cons.prems(1) obtain c' h'' k where
            "serve n handle ?cl (concat (map request_frame rs)) c1 h1 = Some (c', h'')" "cn_out c' = cn_out c1 @ take k (concat fs')" by auto
          moreover have "cn_out c1 = cn_out c @ ?f" using s sends_all True by simp
          ultimately show ?thesis using eq True fs'(2) by (intro exI [of _ c'] exI [of _ h'']) (auto intro!: exI [of _ "length ?f + k"])
        next
          case False
          then have "sends (?f @ concat fs') c (False, c1)" using s sends_stop [of ?f c c1] by simp
          then show ?thesis using eq False fs'(2) by (auto simp: sends_def)
        qed
      qed
    qed
  qed
qed

end
