(* ===== verification/FetchStream.thy ===== *)
theory FetchStream
  imports Server Fetch PartitionFetch
begin

text \<open>
  \<open>internal/broker/fetch_stream.go\<close>: the response to a fetch as a sequence of encoded pieces and of file
  ranges.  What a client reads from it is what the plain encoder of the protocol would have sent
  for the same records.
\<close>

section \<open>The response\<close>

record fetchStreamPartition =
  sm_index :: i32
  sm_errorCode :: i16
  sm_highWatermark :: i64
  sm_lastStableOffset :: i64
  sm_logStartOffset :: i64
  sm_preferredReadReplica :: i32
  sm_recordsSize :: int
  sm_ranges :: "RawRange list"

record fetchStreamTopic =
  st_name :: gostring
  st_partitions :: "fetchStreamPartition list"

record fetchStreamResponse =
  ss_throttleTimeMs :: i32
  ss_errorCode :: i16
  ss_sessionID :: i32
  ss_topics :: "fetchStreamTopic list"

type_synonym StreamState = "ResponsePart list \<times> Encoder"

definition flush :: "StreamState \<Rightarrow> StreamState" where
  "flush = (\<lambda>(parts, e). if Len e = 0 then (parts, e) else (parts @ [BytesPart (Bytes e)], NewEncoder))"

definition range_part :: "RawRange \<Rightarrow> ResponsePart" where
  "range_part r = FilePart (rr_File r) (rr_Offset r) (rr_Length r)"

text \<open>One turn of the inner loop; a records size that is no \<open>int32\<close> panics.\<close>

definition stream_partition :: "i16 \<Rightarrow> StreamState \<Rightarrow> fetchStreamPartition \<Rightarrow> StreamState option" where
  "stream_partition apiVersion = (\<lambda>(parts, e) p.
     (let e = PutInt32 e (sm_index p);
          e = PutInt16 e (sm_errorCode p);
          e = PutInt64 e (sm_highWatermark p);
          e = (if sint apiVersion \<ge> 4 then PutInt64 e (sm_lastStableOffset p) else e);
          e = (if sint apiVersion \<ge> 5 then PutInt64 e (sm_logStartOffset p) else e);
          e = (if sint apiVersion \<ge> 4 then PutArrayLen e (- 1) else e);
          e = (if sint apiVersion \<ge> 11 then PutInt32 e (sm_preferredReadReplica p) else e)
      in if sm_recordsSize p < 0 \<or> sm_recordsSize p > 2 ^ 31 - 1 then None
      else let (parts, e) = flush (parts, PutInt32 e (word_of_int (sm_recordsSize p)))
        in Some (parts @ map range_part (sm_ranges p), e)))"

fun stream_partitions :: "i16 \<Rightarrow> StreamState \<Rightarrow> fetchStreamPartition list \<Rightarrow> StreamState option" where
  "stream_partitions apiVersion st [] = Some st"
| "stream_partitions apiVersion st (p # ps) =
     (case stream_partition apiVersion st p of None \<Rightarrow> None | Some st \<Rightarrow> stream_partitions apiVersion st ps)"

fun stream_topics :: "i16 \<Rightarrow> StreamState \<Rightarrow> fetchStreamTopic list \<Rightarrow> StreamState option" where
  "stream_topics apiVersion st [] = Some st"
| "stream_topics apiVersion (parts, e) (t # ts) =
     (let e = PutString e (st_name t);
          e = PutArrayLen e (word_of_nat (length (st_partitions t)))
      in case stream_partitions apiVersion (parts, e) (st_partitions t) of
           None \<Rightarrow> None
         | Some st \<Rightarrow> stream_topics apiVersion st ts)"

definition encodeFetchStreamResponse :: "fetchStreamResponse \<Rightarrow> i16 \<Rightarrow> Response option" where
  "encodeFetchStreamResponse resp apiVersion =
     (let e = NewEncoder;
          e = (if sint apiVersion \<ge> 1 then PutInt32 e (ss_throttleTimeMs resp) else e);
          e = (if sint apiVersion \<ge> 7
               then let e = PutInt16 e (ss_errorCode resp) in PutInt32 e (ss_sessionID resp)
               else e);
          e = PutArrayLen e (word_of_nat (length (ss_topics resp)))
      in map_option (\<lambda>st. NewCompositeResponse (fst (flush st))) (stream_topics apiVersion ([], e) (ss_topics resp)))"

section \<open>The same bytes as the plain encoder\<close>

definition range_fits :: "RawRange \<Rightarrow> bool" where
  "range_fits r \<longleftrightarrow> 0 \<le> rr_Offset r \<and> 0 \<le> rr_Length r \<and> rr_Offset r + rr_Length r \<le> int (length (rr_File r))"

definition range_bytes :: "RawRange \<Rightarrow> bytes" where
  "range_bytes r = take (nat (rr_Length r)) (drop (nat (rr_Offset r)) (rr_File r))"

definition sm_records :: "fetchStreamPartition \<Rightarrow> bytes" where
  "sm_records p = concat (map range_bytes (sm_ranges p))"

definition plain_partition :: "fetchStreamPartition \<Rightarrow> FetchResponsePartition" where
  "plain_partition p =
     \<lparr>fsp_Index = sm_index p, fsp_ErrorCode = sm_errorCode p, fsp_HighWatermark = sm_highWatermark p,
      fsp_LastStableOffset = sm_lastStableOffset p, fsp_LogStartOffset = sm_logStartOffset p,
      fsp_PreferredReadReplica = sm_preferredReadReplica p, fsp_Records = Some (sm_records p)\<rparr>"

definition plain_topic :: "fetchStreamTopic \<Rightarrow> FetchResponseTopic" where
  "plain_topic t = \<lparr>fst_Name = st_name t, fst_Partitions = map plain_partition (st_partitions t)\<rparr>"

definition plain_response :: "fetchStreamResponse \<Rightarrow> FetchResponse" where
  "plain_response r =
     \<lparr>fs_ThrottleTimeMs = ss_throttleTimeMs r, fs_ErrorCode = ss_errorCode r, fs_SessionID = ss_sessionID r,
      fs_Topics = map plain_topic (ss_topics r)\<rparr>"

text \<open>The ranges lie in their files and the announced size is theirs.\<close>

definition sm_ok :: "fetchStreamPartition \<Rightarrow> bool" where
  "sm_ok p \<longleftrightarrow> list_all range_fits (sm_ranges p) \<and> sm_recordsSize p = sum_list (map rr_Length (sm_ranges p)) \<and> sm_recordsSize p \<le> 2 ^ 31 - 1"

definition stream_ok :: "fetchStreamResponse \<Rightarrow> bool" where
  "stream_ok r \<longleftrightarrow> list_all (\<lambda>t. list_all sm_ok (st_partitions t)) (ss_topics r)"

lemma range_part_data [simp]: "part_data (range_part r) = range_bytes r"
  by (simp add: range_part_def range_bytes_def)

lemma range_part_fits [simp]: "part_fits (range_part r) = range_fits r"
  by (simp add: range_part_def range_fits_def)

lemma range_bytes_length: "range_fits r \<Longrightarrow> int (length (range_bytes r)) = rr_Length r"
  by (auto simp: range_fits_def range_bytes_def)

lemma sm_records_length: "sm_ok p \<Longrightarrow> int (length (sm_records p)) = sm_recordsSize p"
proof -
  have "list_all range_fits rs \<Longrightarrow> int (length (concat (map range_bytes rs))) = sum_list (map rr_Length rs)" for rs
    by (induction rs) (simp_all add: range_bytes_length)
  then show "sm_ok p \<Longrightarrow> int (length (sm_records p)) = sm_recordsSize p" by (simp add: sm_ok_def sm_records_def)
qed

text \<open>What a state of the encoder stands for.\<close>

definition st_data :: "StreamState \<Rightarrow> bytes" where
  "st_data = (\<lambda>(parts, e). concat (map part_data parts) @ e_b e)"

definition st_fits :: "StreamState \<Rightarrow> bool" where
  "st_fits = (\<lambda>(parts, e). list_all part_fits parts)"

lemma flush_data [simp]: "st_data (flush st) = st_data st" "st_fits (flush st) = st_fits st" "e_b (snd (flush st)) = []"
  by (cases st; simp add: flush_def st_data_def st_fits_def Len_def Bytes_def NewEncoder_def)+

lemma stream_partition_data:
  assumes ok: "sm_ok p" and fits: "st_fits st"
  shows "\<exists>st'. stream_partition v st p = Some st' \<and> st_fits st' \<and> st_data st' = st_data st @ fsp_bytes v (plain_partition p)"
proof -
  obtain parts e where st: "st = (parts, e)" by (cases st)
  define e' where "e' = (let e = PutInt32 e (sm_index p); e = PutInt16 e (sm_errorCode p); e = PutInt64 e (sm_highWatermark p);
      e = (if sint v \<ge> 4 then PutInt64 e (sm_lastStableOffset p) else e);
      e = (if sint v \<ge> 5 then PutInt64 e (sm_logStartOffset p) else e);
      e = (if sint v \<ge> 4 then PutArrayLen e (- 1) else e);
      e = (if sint v \<ge> 11 then PutInt32 e (sm_preferredReadReplica p) else e) in PutInt32 e (word_of_int (sm_recordsSize p)))"
  have len: "int (length (sm_records p)) = sm_recordsSize p" by (rule sm_records_length [OF ok])
  have w: "(word_of_int (sm_recordsSize p) :: i32) = word_of_nat (length (sm_records p))" using len by (metis of_int_of_nat_eq)
  obtain parts' e'' where f: "flush (parts, e') = (parts', e'')" by (cases "flush (parts, e')")
  have d: "concat (map part_data parts') = st_data (parts, e')" "list_all part_fits parts'" "e_b e'' = []"
    using flush_data [of "(parts, e')"] fits unfolding f st by (simp_all add: st_data_def st_fits_def)
  have "stream_partition v st p = Some (parts' @ map range_part (sm_ranges p), e'')"
    using ok len f unfolding st stream_partition_def Let_def e'_def by (simp add: sm_ok_def)
  moreover have "st_fits (parts' @ map range_part (sm_ranges p), e'')"
    using d(2) ok by (auto simp: st_fits_def sm_ok_def list_all_iff)
  moreover have "st_data (parts' @ map range_part (sm_ranges p), e'') = st_data st @ fsp_bytes v (plain_partition p)"
    using d(1,3) unfolding st
    by (simp add: st_data_def e'_def Let_def fsp_bytes_def plain_partition_def bytes_if_def put_bytes w nbytes_bytes_def sm_records_def comp_def)
  ultimately show ?thesis by blast
qed

lemma stream_partitions_data:
  "list_all sm_ok ps \<Longrightarrow> st_fits st \<Longrightarrow>
    \<exists>st'. stream_partitions v st ps = Some st' \<and> st_fits st' \<and> st_data st' = st_data st @ concat (map (fsp_bytes v) (map plain_partition ps))"
proof (induction ps arbitrary: st)
  case (Cons p ps)
  obtain st1 where s: "stream_partition v st p = Some st1" "st_fits st1" "st_data st1 = st_data st @ fsp_bytes v (plain_partition p)"
    using stream_partition_data [of p st v] Cons.prems by auto
  then show ?case using Cons.IH [of st1] Cons.prems(1) by auto
qed simp

lemma stream_topics_data:
  "list_all (\<lambda>t. list_all sm_ok (st_partitions t)) ts \<Longrightarrow> st_fits st \<Longrightarrow>
    \<exists>st'. stream_topics v st ts = Some st' \<and> st_fits st' \<and> st_data st' = st_data st @ concat (map (fst_bytes v) (map plain_topic ts))"
proof (induction ts arbitrary: st)
  case (Cons t ts)
  obtain parts e where st: "st = (parts, e)" by (cases st)
  let ?e = "PutArrayLen (PutString e (st_name t)) (word_of_nat (length (st_partitions t)))"
  have "st_fits (parts, ?e)" using Cons.prems(2) st by (simp add: st_fits_def)
  then obtain st1 where s: "stream_partitions v (parts, ?e) (st_partitions t) = Some st1" "st_fits st1"
      "st_data st1 = st_data (parts, ?e) @ concat (map (fsp_bytes v) (map plain_partition (st_partitions t)))"
    using stream_partitions_data [of "st_partitions t" "(parts, ?e)" v] Cons.prems(1) by auto
  have "st_data st1 = st_data st @ fst_bytes v (plain_topic t)"
    using s(3) st by (simp add: st_data_def put_bytes fst_bytes_def plain_topic_def array_bytes_def)
  then show ?case using Cons.IH [of st1] Cons.prems(1) s st by (auto simp: Let_def)
qed simp

lemma encodeFetchStreamResponse_bytes:
  assumes "stream_ok r"
  shows "\<exists>resp. encodeFetchStreamResponse r v = Some resp \<and> resp_ok resp \<and> resp_data resp = EncodeFetchResponse (plain_response r) v"
proof -
  define e where "e = (let e = NewEncoder; e = (if sint v \<ge> 1 then PutInt32 e (ss_throttleTimeMs r) else e);
      e = (if sint v \<ge> 7 then let e = PutInt16 e (ss_errorCode r) in PutInt32 e (ss_sessionID r) else e) in
      PutArrayLen e (word_of_nat (length (ss_topics r))))"
  obtain st where st: "stream_topics v ([], e) (ss_topics r) = Some st" "st_fits st"
      "st_data st = st_data ([], e) @ concat (map (fst_bytes v) (map plain_topic (ss_topics r)))"
    using stream_topics_data [of "ss_topics r" "([], e)" v] assms by (auto simp: stream_ok_def st_fits_def)
  let ?ps = "fst (flush st)"
  have e: "encodeFetchStreamResponse r v = Some (NewCompositeResponse ?ps)"
    using st(1) by (simp add: encodeFetchStreamResponse_def e_def Let_def)
  have "st_fits (flush st)" "st_data (flush st) = st_data st" "e_b (snd (flush st)) = []" using st(2) by simp_all
  then have "list_all part_fits ?ps" "concat (map part_data ?ps) = st_data st"
    by (cases "flush st"; simp add: st_fits_def st_data_def)+
  moreover have "st_data st = EncodeFetchResponse (plain_response r) v"
    using st(3) by (simp add: EncodeFetchResponse_bytes fs_bytes_def plain_response_def st_data_def e_def Let_def bytes_if_def put_bytes array_bytes_def)
  ultimately show ?thesis using e by (simp add: NewCompositeResponse_def)
qed

end
