(* ===== verification/Handler.thy ===== *)
theory Handler
  imports FetchStream Produce ListOffsets Metadata OffsetsForLeaderEpoch Topics
begin

text \<open>
  \<open>internal/broker/handler.go\<close>: what the broker does with a decoded request.  A handler takes the topics
  and returns the response and the topics after it; \<^const>\<open>None\<close> is a panic or a fetch that never ends.

  What happens outside the request is an argument, the record \<open>RequestEnv\<close>: the results of the file system
  calls of an append, whether the deadline of an append has passed when it is checked, what a waiting
  append was told when its channel was closed, the clock, and what the other goroutines do to the
  topics while a fetch waits.
\<close>

section \<open>The handler and its surroundings\<close>

record Handler =
  hd_topics :: TopicManager
  hd_brokerID :: i32
  hd_host :: gostring
  hd_port :: i32
  hd_controller :: "controllerState option"

definition NewHandler :: "TopicManager \<Rightarrow> i32 \<Rightarrow> gostring \<Rightarrow> i32 \<Rightarrow> controllerState option \<Rightarrow> Handler" where
  "NewHandler topics brokerID host port ctrl =
     \<lparr>hd_topics = topics, hd_brokerID = brokerID, hd_host = host, hd_port = port, hd_controller = ctrl\<rparr>"

record RequestEnv =
  re_io :: "nat \<Rightarrow> LogIO"
  re_expired :: "nat \<Rightarrow> bool"
  re_done :: "gostring \<Rightarrow> i32 \<Rightarrow> ptr \<Rightarrow> ErrorCode option"
  re_start :: int
  re_clock :: "nat \<Rightarrow> int"
  re_others :: "nat \<Rightarrow> TopicManager \<Rightarrow> TopicManager"
  re_topics :: TopicEnv

datatype HandlerError = UnsupportedKey i16 | DecodeFailed DecodeError

type_synonym HandlerResult = "((HandlerError + Response option) \<times> TopicManager) option"

text \<open>A loop that fills a slice of results of the same length.\<close>

fun each :: "('p \<Rightarrow> 's \<Rightarrow> ('r \<times> 's) option) \<Rightarrow> 'p list \<Rightarrow> 's \<Rightarrow> ('r list \<times> 's) option" where
  "each f [] s = Some ([], s)"
| "each f (x # xs) s =
     (case f x s of
        None \<Rightarrow> None
      | Some (r, s) \<Rightarrow> (case each f xs s of None \<Rightarrow> None | Some (rs, s) \<Rightarrow> Some (r # rs, s)))"

text \<open>The code of an error: \<open>errors.As\<close> finds an \<open>ErrorCode\<close>, anything else is a storage error.\<close>

fun response_code :: "PartitionError \<Rightarrow> i16" where
  "response_code (Code ec) = error_code ec"
| "response_code _ = error_code ErrStorageError"

definition encodeUnsupportedVersionError :: "RequestHeader \<Rightarrow> Response" where
  "encodeUnsupportedVersionError header = BytesResponse (Bytes (PutInt16 NewEncoder ErrCodeUnsupportedVersion))"

definition handleApiVersions :: "RequestHeader \<Rightarrow> Response" where
  "handleApiVersions header =
     (if rh_APIVersion header = 0 \<or> rh_APIVersion header = 1 \<or> rh_APIVersion header = 2
      then BytesResponse (EncodeApiVersionsResponseV0 0)
      else if rh_APIVersion header = 3 then BytesResponse (EncodeApiVersionsResponseV3 0)
      else BytesResponse (EncodeApiVersionsResponseV0 ErrCodeUnsupportedVersion))"

section \<open>Produce\<close>

definition new_produce_partition :: "ProduceRequestPartition \<Rightarrow> ProduceResponsePartition" where
  "new_produce_partition reqPart =
     \<lparr>psp_Index = prp_Index reqPart, psp_ErrorCode = 0, psp_BaseOffset = - 1, psp_LogAppendTime = - 1, psp_LogStartOffset = - 1,
      psp_RecordErrors = [], psp_ErrorMessage = None\<rparr>"

text \<open>One turn of the inner loop: the response of the partition and, for acks=all, the entry to wait for.  The
  state is the topics and the number of appends so far.\<close>

definition produce_partition ::
    "RequestEnv \<Rightarrow> i16 \<Rightarrow> i32 \<Rightarrow> gostring \<Rightarrow> ProduceRequestPartition \<Rightarrow> TopicManager \<times> nat \<Rightarrow>
     ((ProduceResponsePartition \<times> ptr option) \<times> TopicManager \<times> nat) option" where
  "produce_partition env acks timeoutMs name reqPart = (\<lambda>(tm, n).
     (let respPart = new_produce_partition reqPart;
          records = (case prp_Records reqPart of None \<Rightarrow> [] | Some r \<Rightarrow> r)
      in case TM_GetPartition tm name (prp_Index reqPart) of
           Inl errCode \<Rightarrow> Some ((respPart\<lparr>psp_ErrorCode := error_code errCode\<rparr>, None), tm, n)
         | Inr p \<Rightarrow>
             if length records = 0 then Some ((respPart, None), tm, n)
             else (case Partition_AppendRaw (re_io env n) (sint timeoutMs \<le> 0 \<or> re_expired env n) records acks p of
                 None \<Rightarrow> None
               | Some (Inl err, p) \<Rightarrow>
                   Some ((respPart\<lparr>psp_ErrorCode := response_code err\<rparr>, None), put_partition name (prp_Index reqPart) p tm, Suc n)
               | Some (Inr result, p) \<Rightarrow>
                   Some ((respPart\<lparr>psp_BaseOffset := ar_FirstOffset result, psp_LogStartOffset := OldestOffset (pt_log p)\<rparr>,
                          if acks = AcksAll then ar_entry result else None),
                     put_partition name (prp_Index reqPart) p tm, Suc n))))"

text \<open>The response of a partition once its entry is done.\<close>

definition finish_partition :: "RequestEnv \<Rightarrow> gostring \<Rightarrow> ProduceResponsePartition \<times> ptr option \<Rightarrow> ProduceResponsePartition" where
  "finish_partition env name = (\<lambda>(respPart, pending).
     (case pending of
        None \<Rightarrow> respPart
      | Some e \<Rightarrow>
          (case re_done env name (psp_Index respPart) e of
             None \<Rightarrow> respPart
           | Some errCode \<Rightarrow> respPart\<lparr>psp_ErrorCode := error_code errCode\<rparr>)))"

definition invalid_acks :: "ProduceRequest \<Rightarrow> ProduceResponse" where
  "invalid_acks req =
     \<lparr>ps_Topics = map (\<lambda>reqTopic. \<lparr>pst_Name = prt_Name reqTopic,
        pst_Partitions = map (\<lambda>reqPart. (new_produce_partition reqPart)\<lparr>psp_ErrorCode := error_code ErrInvalidRequiredAcks\<rparr>) (prt_Partitions reqTopic)\<rparr>)
        (pr_Topics req), ps_ThrottleTime = 0\<rparr>"

definition produce_topic ::
    "RequestEnv \<Rightarrow> i16 \<Rightarrow> i32 \<Rightarrow> ProduceRequestTopic \<Rightarrow> TopicManager \<times> nat \<Rightarrow>
     ((gostring \<times> (ProduceResponsePartition \<times> ptr option) list) \<times> TopicManager \<times> nat) option" where
  "produce_topic env acks timeoutMs reqTopic s =
     map_option (\<lambda>(rs, s). ((prt_Name reqTopic, rs), s))
       (each (produce_partition env acks timeoutMs (prt_Name reqTopic)) (prt_Partitions reqTopic) s)"

definition produce_response :: "RequestEnv \<Rightarrow> (gostring \<times> (ProduceResponsePartition \<times> ptr option) list) list \<Rightarrow> ProduceResponse" where
  "produce_response env ts =
     \<lparr>ps_Topics = map (\<lambda>(name, ps). \<lparr>pst_Name = name, pst_Partitions = map (finish_partition env name) ps\<rparr>) ts, ps_ThrottleTime = 0\<rparr>"

definition handleProduce :: "RequestEnv \<Rightarrow> RequestHeader \<Rightarrow> bytes \<Rightarrow> TopicManager \<Rightarrow> HandlerResult" where
  "handleProduce env header body tm =
     (let v = rh_APIVersion header in
      if sint v < 3 \<or> sint v > 8 then Some (Inr (Some (encodeUnsupportedVersionError header)), tm)
      else case DecodeProduceRequest body v of
        None \<Rightarrow> None
      | Some (Inl err) \<Rightarrow> Some (Inl (DecodeFailed err), tm)
      | Some (Inr req) \<Rightarrow>
          if pr_Acks req \<noteq> - 1 \<and> pr_Acks req \<noteq> 0 \<and> pr_Acks req \<noteq> 1
          then Some (Inr (Some (BytesResponse (EncodeProduceResponse (invalid_acks req) v))), tm)
          else (case each (produce_topic env (pr_Acks req) (pr_TimeoutMs req)) (pr_Topics req) (tm, 0) of
              None \<Rightarrow> None
            | Some (ts, tm, _) \<Rightarrow>
                if pr_Acks req = AcksNone then Some (Inr None, tm)
                else Some (Inr (Some (BytesResponse (EncodeProduceResponse (produce_response env ts) v))), tm)))"

section \<open>Fetch\<close>

record FetchPass =
  fp_topics :: TopicManager
  fp_remaining :: int
  fp_firstBatchReturned :: bool
  fp_totalBytes :: int
  fp_waitChans :: "nat list"
  fp_hasError :: bool

definition new_stream_partition :: "FetchRequestPartition \<Rightarrow> fetchStreamPartition" where
  "new_stream_partition reqPart =
     \<lparr>sm_index = frp_Index reqPart, sm_errorCode = 0, sm_highWatermark = 0, sm_lastStableOffset = - 1, sm_logStartOffset = - 1,
      sm_preferredReadReplica = - 1, sm_recordsSize = 0, sm_ranges = []\<rparr>"

definition fetch_failed :: "fetchStreamPartition \<Rightarrow> i16 \<Rightarrow> FetchPass \<Rightarrow> (fetchStreamPartition \<times> FetchPass) option" where
  "fetch_failed respPart code s = Some (respPart\<lparr>sm_errorCode := code, sm_recordsSize := 0\<rparr>, s\<lparr>fp_hasError := True\<rparr>)"

text \<open>The byte budget of a partition: what the request and the partition still allow.\<close>

definition part_budget :: "i32 \<Rightarrow> int \<Rightarrow> i32" where
  "part_budget partMax remaining =
     (if remaining < sint partMax then (if remaining < 0 then 0 else word_of_int remaining) else partMax)"

definition fetch_partition :: "i32 \<Rightarrow> gostring \<Rightarrow> FetchRequestPartition \<Rightarrow> FetchPass \<Rightarrow> (fetchStreamPartition \<times> FetchPass) option" where
  "fetch_partition replicaID name reqPart s =
     (let respPart = new_stream_partition reqPart in
      case TM_GetPartition (fp_topics s) name (frp_Index reqPart) of
        Inl errCode \<Rightarrow> fetch_failed respPart (error_code errCode) s
      | Inr p \<Rightarrow>
          if sint (frp_FetchOffset reqPart) < 0 then fetch_failed respPart (error_code ErrOffsetOutOfRange) s
          else if \<not> IsLeader p then fetch_failed respPart (error_code ErrNotLeaderOrFollower) s
          else (case validateLeaderEpoch (frp_CurrentLeaderEpoch reqPart) (LeaderEpoch p) of
              Some ec \<Rightarrow> fetch_failed respPart (error_code ec) s
            | None \<Rightarrow>
                let ch = NotifyChan p; partMax = part_budget (frp_MaxBytes reqPart) (fp_remaining s) in
                (case FetchRawRanges (frp_FetchOffset reqPart) replicaID partMax (\<not> fp_firstBatchReturned s) p of
                   None \<Rightarrow> None
                 | Some (Inl err, p) \<Rightarrow>
                     fetch_failed respPart (response_code err) (s\<lparr>fp_topics := put_partition name (frp_Index reqPart) p (fp_topics s)\<rparr>)
                 | Some (Inr result, p) \<Rightarrow>
                     let n = fg_RecordsSize result in
                     Some (respPart\<lparr>sm_highWatermark := fg_HighWatermark result, sm_lastStableOffset := fg_HighWatermark result,
                             sm_logStartOffset := fg_LogStartOffset result, sm_recordsSize := n, sm_ranges := fg_Ranges result\<rparr>,
                           s\<lparr>fp_topics := put_partition name (frp_Index reqPart) p (fp_topics s),
                             fp_waitChans := fp_waitChans s @ [ch], fp_totalBytes := fp_totalBytes s + n,
                             fp_firstBatchReturned := fp_firstBatchReturned s \<or> n > 0,
                             fp_remaining := (if n > 0 then fp_remaining s - n else fp_remaining s)\<rparr>))))"

definition fetch_topic :: "i32 \<Rightarrow> FetchRequestTopic \<Rightarrow> FetchPass \<Rightarrow> (fetchStreamTopic \<times> FetchPass) option" where
  "fetch_topic replicaID reqTopic s =
     map_option (\<lambda>(ps, s). (\<lparr>st_name = frt_Name reqTopic, st_partitions = ps\<rparr>, s))
       (each (fetch_partition replicaID (frt_Name reqTopic)) (frt_Partitions reqTopic) s)"

definition fetchOnePass :: "FetchRequest \<Rightarrow> TopicManager \<Rightarrow> (fetchStreamResponse \<times> FetchPass) option" where
  "fetchOnePass req tm =
     map_option (\<lambda>(ts, s). (\<lparr>ss_throttleTimeMs = 0, ss_errorCode = 0, ss_sessionID = 0, ss_topics = ts\<rparr>, s))
       (each (fetch_topic (fr_ReplicaID req)) (fr_Topics req)
         \<lparr>fp_topics = tm, fp_remaining = sint (fr_MaxBytes req), fp_firstBatchReturned = False, fp_totalBytes = 0,
          fp_waitChans = [], fp_hasError = False\<rparr>)"

text \<open>The long poll.  Turn \<open>k\<close> looks at the clock for the \<open>k\<close>-th time; whether the wait was woken or timed out, the
  next turn starts with the topics the other goroutines have left.\<close>

partial_function (option) fetch_loop ::
    "(nat \<Rightarrow> int) \<Rightarrow> (nat \<Rightarrow> TopicManager \<Rightarrow> TopicManager) \<Rightarrow> FetchRequest \<Rightarrow> int \<Rightarrow> nat \<Rightarrow> TopicManager \<Rightarrow>
     (fetchStreamResponse \<times> TopicManager) option" where
  "fetch_loop clock others req deadline k tm =
     (case fetchOnePass req tm of
        None \<Rightarrow> None
      | Some (resp, s) \<Rightarrow>
          if fp_hasError s \<or> fp_totalBytes s \<ge> sint (fr_MinBytes req) \<or> sint (fr_MaxWaitMs req) \<le> 0 \<or> length (fp_waitChans s) = 0
          then Some (resp, fp_topics s)
          else if deadline - clock k \<le> 0 then Some (resp, fp_topics s)
          else fetch_loop clock others req deadline (Suc k) (others k (fp_topics s)))"

definition handleFetch :: "RequestEnv \<Rightarrow> RequestHeader \<Rightarrow> bytes \<Rightarrow> TopicManager \<Rightarrow> HandlerResult" where
  "handleFetch env header body tm =
     (let v = rh_APIVersion header in
      if sint v < 4 \<or> sint v > 11 then Some (Inr (Some (encodeUnsupportedVersionError header)), tm)
      else case DecodeFetchRequest body v of
        None \<Rightarrow> None
      | Some (Inl err) \<Rightarrow> Some (Inl (DecodeFailed err), tm)
      | Some (Inr req) \<Rightarrow>
          let deadline = re_start env + sint (fr_MaxWaitMs req) * 1000000 in
          (case fetch_loop (re_clock env) (re_others env) req deadline 0 tm of
             None \<Rightarrow> None
           | Some (resp, tm) \<Rightarrow> map_option (\<lambda>r. (Inr (Some r), tm)) (encodeFetchStreamResponse resp v)))"

section \<open>Metadata\<close>

definition plaintextEndpoint :: "BrokerEndpoint list \<Rightarrow> BrokerEndpoint option" where
  "plaintextEndpoint endpoints =
     find (\<lambda>endpoint. ep_Name endpoint = gostr ''PLAINTEXT'' \<and> ep_SecurityProtocol endpoint = SecurityProtocolPlaintext) endpoints"

definition metadataBrokersFromController :: "controllerState \<Rightarrow> MetadataBroker list" where
  "metadataBrokersFromController ctrl =
     sort_key (\<lambda>b. sint (mb_NodeID b))
       (List.map_filter (\<lambda>b. if bi_Fenced b then None
          else map_option (\<lambda>ep. \<lparr>mb_NodeID = bi_ID b, mb_Host = ep_Host ep, mb_Port = ucast (ep_Port ep), mb_Rack = None\<rparr>)
            (plaintextEndpoint (bi_Endpoints b))) (AllBrokers ctrl))"

text \<open>The map from topics to their partitions.\<close>

fun by_topic :: "(gostring \<times> PartitionMetadata list) list \<Rightarrow> PartitionMetadata list \<Rightarrow> (gostring \<times> PartitionMetadata list) list" where
  "by_topic m [] = m"
| "by_topic m (p # ps) =
     by_topic (AList.update (pm_Topic p) ((case map_of m (pm_Topic p) of None \<Rightarrow> [] | Some qs \<Rightarrow> qs) @ [p]) m) ps"

definition controller_partition_metadata :: "PartitionMetadata \<Rightarrow> MetadataPartitionResponse" where
  "controller_partition_metadata p =
     \<lparr>mp_ErrorCode = 0, mp_PartitionIndex = pm_Partition p, mp_LeaderID = pm_LeaderBrokerID p, mp_LeaderEpoch = pm_LeaderEpoch p,
      mp_ReplicaNodes = pm_Replicas p, mp_ISRNodes = pm_ISR p, mp_OfflineReplicas = []\<rparr>"

definition controller_topic_metadata :: "(gostring \<times> PartitionMetadata list) list \<Rightarrow> gostring \<Rightarrow> MetadataTopicResponse" where
  "controller_topic_metadata byTopic topic =
     (case map_of byTopic topic of
        None \<Rightarrow> \<lparr>mt_ErrorCode = error_code ErrUnknownTopicOrPartition, mt_Name = topic, mt_IsInternal = False, mt_Partitions = []\<rparr>
      | Some partitions \<Rightarrow>
          \<lparr>mt_ErrorCode = 0, mt_Name = topic, mt_IsInternal = False,
           mt_Partitions = map controller_partition_metadata (sort_key (\<lambda>p. sint (pm_Partition p)) partitions)\<rparr>)"

definition metadataResponseFromController :: "controllerState \<Rightarrow> MetadataRequest \<Rightarrow> MetadataResponse" where
  "metadataResponseFromController ctrl req =
     (let byTopic = by_topic [] (AllPartitions ctrl);
          topicNames = (if mr_AllTopics req then sort (map fst byTopic) else mr_Topics req)
      in \<lparr>ms_ThrottleTimeMs = 0, ms_Brokers = metadataBrokersFromController ctrl, ms_ClusterID = None, ms_ControllerID = - 1,
          ms_Topics = map (controller_topic_metadata byTopic) topicNames\<rparr>)"

text \<open>Topics created on demand in standalone mode; a failure is logged.\<close>

fun auto_create :: "TopicEnv \<Rightarrow> gostring list \<Rightarrow> TopicManager \<Rightarrow> TopicManager option" where
  "auto_create env [] tm = Some tm"
| "auto_create env (name # names) tm =
     (case TM_GetPartition tm name 0 of
        Inl errCode \<Rightarrow>
          if errCode = ErrUnknownTopicOrPartition
          then (case CreateTopic env name 1 True tm of None \<Rightarrow> None | Some (_, tm, _) \<Rightarrow> auto_create env names tm)
          else auto_create env names tm
      | Inr _ \<Rightarrow> auto_create env names tm)"

definition local_partition_metadata :: "i32 \<Rightarrow> TopicManager \<Rightarrow> gostring \<Rightarrow> nat \<Rightarrow> MetadataPartitionResponse" where
  "local_partition_metadata brokerID tm name pid =
     (let partResp = \<lparr>mp_ErrorCode = 0, mp_PartitionIndex = word_of_nat pid, mp_LeaderID = 0, mp_LeaderEpoch = 0, mp_ReplicaNodes = [],
            mp_ISRNodes = [], mp_OfflineReplicas = []\<rparr>
      in case TM_GetPartition tm name (word_of_nat pid) of
           Inl ec \<Rightarrow> partResp\<lparr>mp_ErrorCode := error_code ec, mp_LeaderID := - 1\<rparr>
         | Inr p \<Rightarrow> partResp\<lparr>mp_LeaderID := (if IsLeader p then brokerID else - 1), mp_LeaderEpoch := LeaderEpoch p,
             mp_ReplicaNodes := [brokerID], mp_ISRNodes := ISRSnapshot p\<rparr>)"

definition local_topic_metadata :: "i32 \<Rightarrow> TopicManager \<Rightarrow> gostring \<Rightarrow> MetadataTopicResponse" where
  "local_topic_metadata brokerID tm name =
     (case PartitionCount tm name of
        Inl errCode \<Rightarrow> \<lparr>mt_ErrorCode = error_code errCode, mt_Name = name, mt_IsInternal = False, mt_Partitions = []\<rparr>
      | Inr n \<Rightarrow> \<lparr>mt_ErrorCode = 0, mt_Name = name, mt_IsInternal = False,
          mt_Partitions = map (local_partition_metadata brokerID tm name) [0..<n]\<rparr>)"

definition handleMetadata :: "RequestEnv \<Rightarrow> Handler \<Rightarrow> RequestHeader \<Rightarrow> bytes \<Rightarrow> HandlerResult" where
  "handleMetadata env h header body =
     (let v = rh_APIVersion header; tm = hd_topics h in
      if sint v < 0 \<or> sint v > 8 then Some (Inr (Some (encodeUnsupportedVersionError header)), tm)
      else case DecodeMetadataRequest body v of
        None \<Rightarrow> None
      | Some (Inl err) \<Rightarrow> Some (Inl (DecodeFailed err), tm)
      | Some (Inr req) \<Rightarrow>
          (case hd_controller h of
             Some ctrl \<Rightarrow> Some (Inr (Some (BytesResponse (EncodeMetadataResponse (metadataResponseFromController ctrl req) v))), tm)
           | None \<Rightarrow>
               (case (if \<not> mr_AllTopics req \<and> mr_AllowAutoTopicCreation req then auto_create (re_topics env) (mr_Topics req) tm else Some tm) of
                  None \<Rightarrow> None
                | Some tm \<Rightarrow>
                    let topicNames = (if mr_AllTopics req then TopicNames tm else mr_Topics req);
                        resp = \<lparr>ms_ThrottleTimeMs = 0,
                          ms_Brokers = [\<lparr>mb_NodeID = hd_brokerID h, mb_Host = hd_host h, mb_Port = hd_port h, mb_Rack = None\<rparr>],
                          ms_ClusterID = None, ms_ControllerID = hd_brokerID h,
                          ms_Topics = map (local_topic_metadata (hd_brokerID h) tm) topicNames\<rparr>
                    in Some (Inr (Some (BytesResponse (EncodeMetadataResponse resp v))), tm))))"

section \<open>Offsets\<close>

definition list_offsets_partition :: "TopicManager \<Rightarrow> gostring \<Rightarrow> ListOffsetsRequestPartition \<Rightarrow> ListOffsetsResponsePartition" where
  "list_offsets_partition tm name reqPart =
     (let respPart = \<lparr>lsp_Index = lrp_Index reqPart, lsp_ErrorCode = 0, lsp_Timestamp = - 1, lsp_Offset = - 1, lsp_LeaderEpoch = - 1\<rparr> in
      case TM_GetPartition tm name (lrp_Index reqPart) of
        Inl errCode \<Rightarrow> respPart\<lparr>lsp_ErrorCode := error_code errCode\<rparr>
      | Inr p \<Rightarrow>
          if \<not> IsLeader p then respPart\<lparr>lsp_ErrorCode := error_code ErrNotLeaderOrFollower\<rparr>
          else (case validateLeaderEpoch (lrp_CurrentLeaderEpoch reqPart) (LeaderEpoch p) of
              Some ec \<Rightarrow> respPart\<lparr>lsp_ErrorCode := error_code ec\<rparr>
            | None \<Rightarrow>
                let respPart = respPart\<lparr>lsp_LeaderEpoch := LeaderEpoch p\<rparr> in
                if lrp_Timestamp reqPart = - 1 then respPart\<lparr>lsp_Offset := HighWatermark p\<rparr>
                else if lrp_Timestamp reqPart = - 2 then respPart\<lparr>lsp_Offset := OldestOffset (pt_log p)\<rparr>
                else respPart))"

definition list_offsets_response :: "TopicManager \<Rightarrow> ListOffsetsRequest \<Rightarrow> ListOffsetsResponse" where
  "list_offsets_response tm req =
     \<lparr>ls_ThrottleTimeMs = 0, ls_Topics = map (\<lambda>reqTopic. \<lparr>lst_Name = lrt_Name reqTopic,
        lst_Partitions = map (list_offsets_partition tm (lrt_Name reqTopic)) (lrt_Partitions reqTopic)\<rparr>) (lr_Topics req)\<rparr>"

definition handleListOffsets :: "RequestHeader \<Rightarrow> bytes \<Rightarrow> TopicManager \<Rightarrow> HandlerResult" where
  "handleListOffsets header body tm =
     (let v = rh_APIVersion header in
      if sint v < 1 \<or> sint v > 5 then Some (Inr (Some (encodeUnsupportedVersionError header)), tm)
      else case DecodeListOffsetsRequest body v of
        None \<Rightarrow> None
      | Some (Inl err) \<Rightarrow> Some (Inl (DecodeFailed err), tm)
      | Some (Inr req) \<Rightarrow> Some (Inr (Some (BytesResponse (EncodeListOffsetsResponse (list_offsets_response tm req) v))), tm))"

definition epoch_partition :: "TopicManager \<Rightarrow> gostring \<Rightarrow> OFLERequestPartition \<Rightarrow> OFLEResponsePartition option" where
  "epoch_partition tm name reqPart =
     (let respPart = \<lparr>osp_ErrorCode = 0, osp_Index = orp_Index reqPart, osp_LeaderEpoch = - 1, osp_EndOffset = - 1\<rparr> in
      case TM_GetPartition tm name (orp_Index reqPart) of
        Inl errCode \<Rightarrow> Some (respPart\<lparr>osp_ErrorCode := error_code errCode\<rparr>)
      | Inr p \<Rightarrow>
          (case Partition_EndOffsetForLeaderEpoch (orp_LeaderEpoch reqPart) (orp_CurrentLeaderEpoch reqPart) p of
             None \<Rightarrow> None
           | Some (Inl err) \<Rightarrow> Some (respPart\<lparr>osp_ErrorCode := response_code err\<rparr>)
           | Some (Inr None) \<Rightarrow> Some respPart
           | Some (Inr (Some result)) \<Rightarrow> Some (respPart\<lparr>osp_LeaderEpoch := eo_Epoch result, osp_EndOffset := eo_EndOffset result\<rparr>)))"

definition epoch_topic :: "OFLERequestTopic \<Rightarrow> TopicManager \<Rightarrow> (OFLEResponseTopic \<times> TopicManager) option" where
  "epoch_topic reqTopic tm =
     map_option (\<lambda>(ps, tm). (\<lparr>ost_Name = ort_Name reqTopic, ost_Partitions = ps\<rparr>, tm))
       (each (\<lambda>reqPart tm. map_option (\<lambda>r. (r, tm)) (epoch_partition tm (ort_Name reqTopic) reqPart)) (ort_Partitions reqTopic) tm)"

definition handleOffsetsForLeaderEpoch :: "RequestHeader \<Rightarrow> bytes \<Rightarrow> TopicManager \<Rightarrow> HandlerResult" where
  "handleOffsetsForLeaderEpoch header body tm =
     (let v = rh_APIVersion header in
      if sint v < 2 \<or> sint v > 4 then Some (Inr (Some (encodeUnsupportedVersionError header)), tm)
      else case DecodeOffsetsForLeaderEpochRequest body v of
        None \<Rightarrow> None
      | Some (Inl err) \<Rightarrow> Some (Inl (DecodeFailed err), tm)
      | Some (Inr req) \<Rightarrow>
          map_option (\<lambda>(ts, tm). (Inr (Some (BytesResponse (EncodeOffsetsForLeaderEpochResponse \<lparr>os_ThrottleTimeMs = 0, os_Topics = ts\<rparr> v))), tm))
            (each epoch_topic (or_Topics req) tm))"

section \<open>Dispatch\<close>

definition Handle :: "RequestEnv \<Rightarrow> RequestHeader \<Rightarrow> bytes \<Rightarrow> Handler \<Rightarrow> ((HandlerError + Response option) \<times> Handler) option" where
  "Handle env header body h =
     map_option (\<lambda>(r, tm). (r, h\<lparr>hd_topics := tm\<rparr>))
       (let k = rh_APIKey header; tm = hd_topics h in
        if k = APIKeyApiVersions then Some (Inr (Some (handleApiVersions header)), tm)
        else if k = APIKeyProduce then handleProduce env header body tm
        else if k = APIKeyFetch then handleFetch env header body tm
        else if k = APIKeyListOffsets then handleListOffsets header body tm
        else if k = APIKeyOffsetsForLeaderEpoch then handleOffsetsForLeaderEpoch header body tm
        else if k = APIKeyMetadata then handleMetadata env h header body
        else Some (Inl (UnsupportedKey k), tm))"

end
