(* ===== verification/HandlerRep.thy ===== *)
theory HandlerRep
  imports Handler TopicsLife
begin

text \<open>
  What the handlers guarantee.  From valid topics every request is answered or refused, without a panic, and
  leaves valid topics; a fetch stays in the byte budget of its request and ends when its deadline has
  passed; what is sent lies in the files it is sent from.
\<close>

section \<open>Loops over the partitions of a request\<close>

text \<open>The contract of one turn of such a loop: from a state with enough left for the element it returns a
  proper result and a state with the rest left.\<close>

locale filling =
  fixes step :: "'p \<Rightarrow> 's \<Rightarrow> ('r \<times> 's) option" and cost :: "'p \<Rightarrow> nat" and ok :: "'p \<Rightarrow> bool"
    and I :: "nat \<Rightarrow> 's \<Rightarrow> bool" and R :: "'p \<Rightarrow> 'r \<Rightarrow> bool"
  assumes turn: "ok x \<Longrightarrow> I (cost x + k) s \<Longrightarrow> \<exists>r s'. step x s = Some (r, s') \<and> I k s' \<and> R x r"
begin

lemma fills:
  "list_all ok xs \<Longrightarrow> I (sum_list (map cost xs) + k) s \<Longrightarrow> \<exists>rs s'. each step xs s = Some (rs, s') \<and> I k s' \<and> list_all2 R xs rs"
proof (induction xs arbitrary: s)
  case (Cons x xs)
  obtain r s' where s': "step x s = Some (r, s')" "I (sum_list (map cost xs) + k) s'" "R x r"
    using turn [of x "sum_list (map cost xs) + k" s] Cons.prems by (auto simp: add.assoc)
  then show ?case using Cons.IH [OF _ s'(2)] Cons.prems(1) by auto
qed simp

end

section \<open>What a partition gives to a fetch\<close>

lemma read_within:
  assumes ok: "part_ok p bss" and off: "OldestOffset (pt_log p) \<le> off" "off < LEO p"
  shows "\<exists>f pos n b upTo. ReadRawRanges (pt_log p) off maxBytes =
      Some \<lparr>rw_Ranges = [\<lparr>rr_File = f, rr_Offset = pos, rr_Length = n\<rparr>], rw_Bytes = n, rw_FetchedUpTo = upTo\<rparr> \<and>
    range_fits \<lparr>rr_File = f, rr_Offset = pos, rr_Length = n\<rparr> \<and> b \<in> set (concat bss) \<and> n \<le> max (sint maxBytes) (int (length b))"
proof -
  have rep: "log_rep (pt_log p) bss" using ok by (simp add: part_ok_def)
  obtain as b zs rest upTo where s: "concat bss = as @ (b # zs) @ rest" "unat (OldestOffset (pt_log p)) + total_records as \<le> unat off"
      "unat off < unat (OldestOffset (pt_log p)) + total_records as + records b" "list_all raw_ok (b # zs)"
    using read_for_offset [OF ok off] by blast
  obtain ys upTo where r: "ReadRaw (pt_log p) off maxBytes = Some (concat (b # ys), upTo)" "ys = [] \<or> int (length (concat (b # ys))) \<le> sint maxBytes"
    using ReadRaw_rep [OF rep _ s(2,3), of "zs @ rest" maxBytes] s(1) by auto
  obtain f pos where f: "ReadRawRanges (pt_log p) off maxBytes = Some \<lparr>rw_Ranges = [\<lparr>rr_File = f, rr_Offset = pos, rr_Length = int (length (concat (b # ys)))\<rparr>],
      rw_Bytes = int (length (concat (b # ys))), rw_FetchedUpTo = upTo\<rparr>" "ReadAt f pos (length (concat (b # ys))) = Some (concat (b # ys))"
    using ReadRawRanges_ReadRaw [OF rep, of off maxBytes] r(1) by blast
  have "b \<noteq> []" using s(4) raw_ok_length [of b] by auto
  then have "range_fits \<lparr>rr_File = f, rr_Offset = pos, rr_Length = int (length (concat (b # ys)))\<rparr>"
    using f(2) by (auto simp: range_fits_def ReadAt_def split: if_splits)
  moreover have "int (length (concat (b # ys))) \<le> max (sint maxBytes) (int (length b))" using r(2) by auto
  ultimately show ?thesis using f(1) s(1) by (intro exI [of _ f] exI [of _ pos] exI [of _ "int (length (concat (b # ys)))"] exI [of _ b] exI [of _ upTo]) simp
qed

lemma cap_single:
  assumes "range_fits rg" and "cap_ranges hw [rg] [] 0 off = Some (rs, n, u)"
  shows "list_all range_fits rs \<and> n = sum_list (map rr_Length rs) \<and> n \<le> rr_Length rg"
proof -
  obtain k e where k: "capToHW (rr_File rg) (rr_Offset rg) (rr_Length rg) hw off = Some (k, e)"
    using assms(2) by (auto split: option.splits)
  have "0 \<le> k" "k \<le> rr_Length rg" using cap_loop_bounds [OF k [unfolded capToHW_def]] assms(1) by (simp_all add: range_fits_def)
  then show ?thesis using assms k by (auto simp: range_fits_def Let_def split: if_splits)
qed

lemma fetched_ranges:
  assumes ok: "part_ok p bss" and F: "FetchRawRanges off i maxBytes allow p = Some (Inr y, p')"
  shows "list_all range_fits (fg_Ranges y) \<and> fg_RecordsSize y = sum_list (map rr_Length (fg_Ranges y)) \<and>
    (fg_RecordsSize y = 0 \<or> (\<exists>b\<in>set (concat bss). fg_RecordsSize y \<le> max (sint maxBytes) (int (length b)))) \<and>
    (\<not> allow \<longrightarrow> fg_RecordsSize y \<le> max 0 (sint maxBytes))"
proof -
  define fo where "fo \<longleftrightarrow> sint i \<ge> 0"
  obtain u where u: "updateFollowerLEO i off p = Some u" using updateFollowerLEO_sound [OF ok] by blast
  define q where "q = (if fo then u else p)"
  have q: "(if fo then updateFollowerLEO i off p else Some p) = Some q" using u by (simp add: q_def)
  have g: "\<not> pt_closed p" "pt_isLeader p" "OldestOffset (pt_log p) \<le> off" "off \<le> LEO p"
    using F by (auto simp: FetchRawRanges_def Let_def LEO_def not_less split: if_splits)
  show ?thesis
  proof (cases "\<not> fo \<and> off \<ge> pt_highWatermark p \<or> fo \<and> off = NextOffset (pt_log p)")
    case True
    have guards: "pt_closed p = False" "pt_isLeader p = True" "(off < OldestOffset (pt_log p) \<or> off > NextOffset (pt_log p)) = False"
      using g by (auto simp: LEO_def)
    have "fg_Ranges y = [] \<and> fg_RecordsSize y = 0"
      using F True unfolding FetchRawRanges_def Let_def fo_def [symmetric]
      by (cases fo) (simp_all only: guards u if_False if_True not_True_eq_False not_False_eq_True simp_thms option.case, auto)
    then show ?thesis by simp
  next
    case False
    have "off < LEO p" using False g(4) ok by (auto simp: LEO_def part_ok_def)
    from read_within [OF ok g(3) this, of maxBytes] obtain f pos n b upTo where
      r: "ReadRawRanges (pt_log p) off maxBytes = Some \<lparr>rw_Ranges = [\<lparr>rr_File = f, rr_Offset = pos, rr_Length = n\<rparr>], rw_Bytes = n, rw_FetchedUpTo = upTo\<rparr>"
      "range_fits \<lparr>rr_File = f, rr_Offset = pos, rr_Length = n\<rparr>" "b \<in> set (concat bss)" "n \<le> max (sint maxBytes) (int (length b))" by blast
    have guards: "pt_closed p = False" "pt_isLeader p = True" "(off < OldestOffset (pt_log p) \<or> off > NextOffset (pt_log p)) = False"
        "(\<not> fo \<and> off \<ge> pt_highWatermark p) = False" "(fo \<and> off = NextOffset (pt_log p)) = False"
      using g False by (auto simp: LEO_def)
    have FG: "FetchRawRanges off i maxBytes allow p =
        (if \<not> allow \<and> n > sint maxBytes
         then Some (Inr \<lparr>fg_Ranges = [], fg_RecordsSize = 0, fg_HighWatermark = pt_highWatermark q, fg_LogStartOffset = OldestOffset (pt_log p), fg_FetchedUpTo = off\<rparr>, q)
         else if \<not> fo \<and> upTo > pt_highWatermark q
         then (case cap_ranges (pt_highWatermark q) [\<lparr>rr_File = f, rr_Offset = pos, rr_Length = n\<rparr>] [] 0 off of
             None \<Rightarrow> Some (Inl (Wrapped OtherError), q)
           | Some (c, m, u) \<Rightarrow> Some (Inr \<lparr>fg_Ranges = c, fg_RecordsSize = m, fg_HighWatermark = pt_highWatermark q,
               fg_LogStartOffset = OldestOffset (pt_log p), fg_FetchedUpTo = u\<rparr>, q))
         else Some (Inr \<lparr>fg_Ranges = [\<lparr>rr_File = f, rr_Offset = pos, rr_Length = n\<rparr>], fg_RecordsSize = n,
               fg_HighWatermark = pt_highWatermark q, fg_LogStartOffset = OldestOffset (pt_log p), fg_FetchedUpTo = upTo\<rparr>, q))"
      by (simp only: FetchRawRanges_def Let_def fo_def [symmetric] guards if_False if_True not_True_eq_False simp_thms r(1) q
          option.case prod.case ReadRawRangesResult.select_convs)
    show ?thesis
    proof (cases "\<not> allow \<and> n > sint maxBytes")
      case True
      then show ?thesis using F FG by auto
    next
      case fit: False
      show ?thesis
      proof (cases "\<not> fo \<and> upTo > pt_highWatermark q")
        case True
        then obtain m u where c: "cap_ranges (pt_highWatermark q) [\<lparr>rr_File = f, rr_Offset = pos, rr_Length = n\<rparr>] [] 0 off = Some (fg_Ranges y, m, u)" "fg_RecordsSize y = m"
          using F fit unfolding FG by (auto simp del: cap_ranges.simps split: option.splits)
        from cap_single [OF r(2) c(1)] have "list_all range_fits (fg_Ranges y)" "m = sum_list (map rr_Length (fg_Ranges y))" "m \<le> n" by auto
        moreover from this have "\<exists>b\<in>set (concat bss). fg_RecordsSize y \<le> max (sint maxBytes) (int (length b))"
          using c(2) r(3,4) by (intro bexI [of _ b]) auto
        ultimately show ?thesis using c(2) fit by auto
      next
        case False
        then have y: "fg_Ranges y = [\<lparr>rr_File = f, rr_Offset = pos, rr_Length = n\<rparr>]" "fg_RecordsSize y = n" using F fit unfolding FG by auto
        have "\<exists>b\<in>set (concat bss). n \<le> max (sint maxBytes) (int (length b))" using r(3,4) by (intro bexI [of _ b])
        then show ?thesis using y r(2) fit by auto
      qed
    qed
  qed
qed

section \<open>Topics that can be served\<close>

text \<open>Every replica is valid and holds no batch longer than \<open>B\<close> bytes.\<close>

definition servable :: "nat \<Rightarrow> Partition \<Rightarrow> bool" where
  "servable B p \<longleftrightarrow> (\<exists>bss. part_ok p bss \<and> (\<forall>b\<in>set (concat bss). length b \<le> B))"

definition served :: "nat \<Rightarrow> TopicManager \<Rightarrow> bool" where
  "served B tm \<longleftrightarrow> tm_ok tm \<and> (\<forall>topic i p. slot tm topic i = Some p \<longrightarrow> servable B p)"

lemma served_put:
  assumes "served B tm" and "servable B p'" and "pt_localBrokerID p' = tm_localBrokerID tm"
  shows "served B (put_partition name i p' tm)"
  using assms tm_ok_put [of tm p' name i] unfolding served_def servable_def part_inv_def by (auto simp: slot_put)

lemma served_get:
  assumes "served B tm" and "TM_GetPartition tm name i = Inr p"
  shows "servable B p \<and> pt_localBrokerID p = tm_localBrokerID tm"
  using assms unfolding served_def tm_ok_def part_inv_def by (auto simp: TM_GetPartition_slot)

lemma servable_read:
  assumes "servable B p" and "read_step p p'"
  shows "servable B p' \<and> pt_localBrokerID p' = pt_localBrokerID p"
proof -
  obtain bss where b: "part_ok p bss" "\<forall>b\<in>set (concat bss). length b \<le> B" using assms(1) by (auto simp: servable_def)
  from read_step_sound [OF b(1) assms(2)] b(2) show ?thesis unfolding servable_def same_assignment_def by blast
qed

section \<open>Fetch\<close>

lemma part_budget_le: "sint (part_budget partMax remaining) \<le> max 0 remaining"
proof (cases "remaining < sint partMax \<and> 0 \<le> remaining")
  case True
  then have "remaining < 2 ^ 31" using sint_lt [of partMax] by simp
  then have "sint (word_of_nat (nat remaining) :: i32) = int (nat remaining)" by (intro sint_word_of_nat) simp
  then have "sint (word_of_int remaining :: i32) = remaining" using True by simp
  then show ?thesis using True by (simp add: part_budget_def)
qed (auto simp: part_budget_def)

text \<open>The invariant of a pass over a request with the budget \<open>M\<close>.\<close>

definition pass_ok :: "nat \<Rightarrow> int \<Rightarrow> FetchPass \<Rightarrow> bool" where
  "pass_ok B M s \<longleftrightarrow> served B (fp_topics s) \<and> 0 \<le> fp_totalBytes s \<and> fp_totalBytes s \<le> max M (int B) \<and>
     fp_remaining s = M - fp_totalBytes s \<and> (fp_firstBatchReturned s \<longleftrightarrow> 0 < fp_totalBytes s)"

lemma ranges_nonneg: "list_all range_fits rs \<Longrightarrow> 0 \<le> sum_list (map rr_Length rs)"
  by (induction rs) (auto simp: range_fits_def)

lemma fetch_partition_ok:
  assumes s: "pass_ok B M s" and M: "M < 2 ^ 31" and B: "B < 2 ^ 31"
  shows "\<exists>r s'. fetch_partition replicaID name reqPart s = Some (r, s') \<and> pass_ok B M s' \<and> sm_ok r \<and> sm_index r = frp_Index reqPart \<and>
    fp_totalBytes s' = fp_totalBytes s + sm_recordsSize r"
proof -
  let ?r = "new_stream_partition reqPart"
  have fail: ?thesis if "fetch_partition replicaID name reqPart s = fetch_failed ?r c (s\<lparr>fp_topics := tm\<rparr>)" "served B tm" for c tm
    using that s by (auto simp: fetch_failed_def pass_ok_def sm_ok_def new_stream_partition_def)
  have sv: "served B (fp_topics s)" using s by (simp add: pass_ok_def)
  show ?thesis
  proof (cases "TM_GetPartition (fp_topics s) name (frp_Index reqPart)")
    case (Inl e)
    then show ?thesis using fail [of "error_code e" "fp_topics s"] sv by (simp add: fetch_partition_def)
  next
    case get: (Inr p)
    consider (refused) c where "fetch_partition replicaID name reqPart s = fetch_failed ?r c s" |
      (read) "0 \<le> sint (frp_FetchOffset reqPart)" "IsLeader p" "validateLeaderEpoch (frp_CurrentLeaderEpoch reqPart) (LeaderEpoch p) = None"
    proof (cases "sint (frp_FetchOffset reqPart) < 0 \<or> \<not> IsLeader p")
      case True
      then have "\<exists>c. fetch_partition replicaID name reqPart s = fetch_failed ?r c s" using get by (cases "sint (frp_FetchOffset reqPart) < 0") (auto simp: fetch_partition_def)
      then show ?thesis using that(1) by blast
    next
      case False
      show ?thesis
      proof (cases "validateLeaderEpoch (frp_CurrentLeaderEpoch reqPart) (LeaderEpoch p)")
        case (Some ec)
        then show ?thesis using that(1) [of "error_code ec"] get False by (simp add: fetch_partition_def)
      qed (use that(2) False in auto)
    qed
    then show ?thesis
    proof cases
      case refused
      then show ?thesis using fail [of c "fp_topics s"] sv by simp
    next
      case read
      define w where "w = part_budget (frp_MaxBytes reqPart) (fp_remaining s)"
      have w: "sint w \<le> max 0 (fp_remaining s)" unfolding w_def by (rule part_budget_le)
      obtain bss where bss: "part_ok p bss" "\<forall>b\<in>set (concat bss). length b \<le> B" and loc: "pt_localBrokerID p = tm_localBrokerID (fp_topics s)"
        using served_get [OF sv get] by (auto simp: servable_def)
      obtain x p' where F: "FetchRawRanges (frp_FetchOffset reqPart) replicaID w (\<not> fp_firstBatchReturned s) p = Some (x, p')" "read_step p p'"
        using FetchRawRanges_step [OF bss(1)] by blast
      define tm where "tm = put_partition name (frp_Index reqPart) p' (fp_topics s)"
      have tm: "served B tm" unfolding tm_def
        using servable_read [of B p p'] served_get [OF sv get] F(2) by (intro served_put [OF sv]) auto
      have eq: "fetch_partition replicaID name reqPart s =
          (case x of
             Inl err \<Rightarrow> fetch_failed ?r (response_code err) (s\<lparr>fp_topics := tm\<rparr>)
           | Inr y \<Rightarrow> Some (?r\<lparr>sm_highWatermark := fg_HighWatermark y, sm_lastStableOffset := fg_HighWatermark y,
                             sm_logStartOffset := fg_LogStartOffset y, sm_recordsSize := fg_RecordsSize y, sm_ranges := fg_Ranges y\<rparr>,
                           s\<lparr>fp_topics := tm, fp_waitChans := fp_waitChans s @ [NotifyChan p], fp_totalBytes := fp_totalBytes s + fg_RecordsSize y,
                             fp_firstBatchReturned := fp_firstBatchReturned s \<or> fg_RecordsSize y > 0,
                             fp_remaining := (if fg_RecordsSize y > 0 then fp_remaining s - fg_RecordsSize y else fp_remaining s)\<rparr>))"
        using get read F(1) by (simp add: fetch_partition_def Let_def w_def [symmetric] tm_def split: sum.split)
      show ?thesis
      proof (cases x)
        case (Inl e)
        then show ?thesis using fail [of "response_code e" tm] eq tm by simp
      next
        case (Inr y)
        note y = fetched_ranges [OF bss(1) F(1) [unfolded Inr]]
        let ?n = "fg_RecordsSize y"
        have n0: "0 \<le> ?n" using y ranges_nonneg by simp
        have nB: "?n \<le> max (max 0 (sint w)) (int B)" 
        proof (cases "?n = 0")
          case False
          then obtain b where "b \<in> set (concat bss)" "?n \<le> max (sint w) (int (length b))" using y by blast
          then show ?thesis using bss(2) by (fastforce simp del: set_concat)
        qed simp
        have tot: "fp_totalBytes s + ?n \<le> max M (int B)"
        proof (cases "fp_firstBatchReturned s")
          case True
          then have "?n \<le> max 0 (M - fp_totalBytes s)" using y w s by (auto simp: pass_ok_def)
          then show ?thesis using s by (auto simp: pass_ok_def)
        next
          case False
          then have "fp_totalBytes s = 0" "fp_remaining s = M" using s by (auto simp: pass_ok_def)
          then show ?thesis using nB w by auto
        qed
        have "?n \<le> 2 ^ 31 - 1" using tot s M B by (auto simp: pass_ok_def)
        then show ?thesis using eq Inr y n0 tot tm s
          by (auto simp: pass_ok_def sm_ok_def new_stream_partition_def)
      qed
    qed
  qed
qed

definition pass_in :: "nat \<Rightarrow> int \<Rightarrow> FetchPass \<Rightarrow> bool" where
  "pass_in B M s \<longleftrightarrow> M < 2 ^ 31 \<and> B < 2 ^ 31 \<and> pass_ok B M s"

definition fetched :: "FetchRequestPartition \<Rightarrow> fetchStreamPartition \<Rightarrow> bool" where
  "fetched reqPart r \<longleftrightarrow> sm_ok r \<and> sm_index r = frp_Index reqPart"

definition fetched_topic :: "FetchRequestTopic \<Rightarrow> fetchStreamTopic \<Rightarrow> bool" where
  "fetched_topic reqTopic t \<longleftrightarrow> st_name t = frt_Name reqTopic \<and> list_all2 fetched (frt_Partitions reqTopic) (st_partitions t)"

interpretation fetch_partitions: filling "fetch_partition replicaID name" "\<lambda>_. 0" "\<lambda>_. True" "\<lambda>_. pass_in B M" fetched for replicaID name B M
proof
  fix x k s
  assume "pass_in B M s"
  then show "\<exists>r s'. fetch_partition replicaID name x s = Some (r, s') \<and> pass_in B M s' \<and> fetched x r"
    using fetch_partition_ok [of B M s replicaID name x] by (auto simp: pass_in_def fetched_def)
qed

interpretation fetch_topics: filling "fetch_topic replicaID" "\<lambda>_. 0" "\<lambda>_. True" "\<lambda>_. pass_in B M" fetched_topic for replicaID B M
proof
  fix t :: FetchRequestTopic and k :: nat and s
  assume s: "pass_in B M s"
  have "list_all (\<lambda>_. True) (frt_Partitions t)" by (simp add: list_all_iff)
  then show "\<exists>r s'. fetch_topic replicaID t s = Some (r, s') \<and> pass_in B M s' \<and> fetched_topic t r"
    using fetch_partitions.fills [where B = B and M = M] s by (fastforce simp: fetch_topic_def fetched_topic_def)
qed

text \<open>What a loop adds to a count in its state is the sum over its results.\<close>

lemma each_sum:
  assumes "\<And>x s r s'. I s \<Longrightarrow> f x s = Some (r, s') \<Longrightarrow> I s' \<and> g s' = g s + (h r :: int)"
  shows "I s \<Longrightarrow> each f xs s = Some (rs, s') \<Longrightarrow> I s' \<and> g s' = g s + sum_list (map h rs)"
proof (induction xs arbitrary: s rs)
  case (Cons x xs)
  obtain r s1 rs1 where s1: "f x s = Some (r, s1)" "each f xs s1 = Some (rs1, s')" "rs = r # rs1"
    using Cons.prems(2) by (auto split: option.splits)
  note a = assms [OF Cons.prems(1) s1(1)]
  show ?case using Cons.IH [OF conjunct1 [OF a] s1(2)] a s1(3) by simp
qed simp

definition topic_size :: "fetchStreamTopic \<Rightarrow> int" where
  "topic_size t = sum_list (map sm_recordsSize (st_partitions t))"

definition stream_size :: "fetchStreamResponse \<Rightarrow> int" where
  "stream_size resp = sum_list (map topic_size (ss_topics resp))"

lemma fetch_topic_sum:
  assumes "pass_in B M s" and "fetch_topic replicaID t s = Some (r, s')"
  shows "pass_in B M s' \<and> fp_totalBytes s' = fp_totalBytes s + topic_size r"
proof -
  obtain ps where ps: "each (fetch_partition replicaID (frt_Name t)) (frt_Partitions t) s = Some (ps, s')" "r = \<lparr>st_name = frt_Name t, st_partitions = ps\<rparr>"
    using assms(2) by (auto simp: fetch_topic_def)
  have "pass_in B M s2 \<and> fp_totalBytes s2 = fp_totalBytes s1 + sm_recordsSize y"
    if "pass_in B M s1" "fetch_partition replicaID (frt_Name t) x s1 = Some (y, s2)" for x s1 y s2
    using fetch_partition_ok [of B M s1 replicaID "frt_Name t" x] that by (auto simp: pass_in_def)
  from each_sum [of "pass_in B M", OF this assms(1) ps(1)] ps(2) show ?thesis by (simp add: topic_size_def)
qed

lemma fetchOnePass_ok:
  assumes sv: "served B tm" and B: "B < 2 ^ 31"
  shows "\<exists>resp s. fetchOnePass req tm = Some (resp, s) \<and> served B (fp_topics s) \<and> list_all2 fetched_topic (fr_Topics req) (ss_topics resp) \<and>
    stream_ok resp \<and> fp_totalBytes s = stream_size resp \<and> stream_size resp \<le> max (sint (fr_MaxBytes req)) (int B)"
proof -
  let ?M = "sint (fr_MaxBytes req)"
  let ?s = "\<lparr>fp_topics = tm, fp_remaining = ?M, fp_firstBatchReturned = False, fp_totalBytes = 0, fp_waitChans = [], fp_hasError = False\<rparr>"
  have s: "pass_in B ?M ?s" using sv B sint_lt [of "fr_MaxBytes req"] by (simp add: pass_in_def pass_ok_def)
  have "list_all (\<lambda>_. True) (fr_Topics req)" by (simp add: list_all_iff)
  from fetch_topics.fills [OF this, where B = B and M = ?M and s = ?s and replicaID = "fr_ReplicaID req"] s obtain ts s' where
    ts: "each (fetch_topic (fr_ReplicaID req)) (fr_Topics req) ?s = Some (ts, s')" "pass_in B ?M s'" "list_all2 fetched_topic (fr_Topics req) ts" by auto
  let ?resp = "\<lparr>ss_throttleTimeMs = 0, ss_errorCode = 0, ss_sessionID = 0, ss_topics = ts\<rparr>"
  have one: "fetchOnePass req tm = Some (?resp, s')" using ts(1) by (simp add: fetchOnePass_def)
  have sum: "fp_totalBytes s' = stream_size ?resp"
    using each_sum [of "pass_in B ?M", OF fetch_topic_sum s ts(1)] by (simp add: stream_size_def)
  have "list_all sm_ok (st_partitions t)" if t: "t \<in> set ts" for t
  proof -
    obtain x where "fetched_topic x t" using ts(3) t by (auto simp: list_all2_conv_all_nth in_set_conv_nth)
    then show ?thesis by (auto simp: fetched_topic_def fetched_def list_all2_conv_all_nth list_all_length)
  qed
  then have "stream_ok ?resp" by (simp add: stream_ok_def list_all_iff)
  then show ?thesis using one sum ts(2,3) by (auto simp: pass_in_def pass_ok_def)
qed

text \<open>The long poll ends once the clock has passed the deadline.\<close>

lemma fetch_loop_returns:
  assumes B: "B < 2 ^ 31" and others: "\<And>k tm. served B tm \<Longrightarrow> served B (others k tm)"
  shows "served B tm \<Longrightarrow> deadline \<le> clock (k + n) \<Longrightarrow>
    \<exists>resp tm'. fetch_loop clock others req deadline k tm = Some (resp, tm') \<and> served B tm' \<and> list_all2 fetched_topic (fr_Topics req) (ss_topics resp) \<and>
      stream_ok resp \<and> stream_size resp \<le> max (sint (fr_MaxBytes req)) (int B)"
proof (induction n arbitrary: k tm)
  case 0
  obtain resp s where p: "fetchOnePass req tm = Some (resp, s)" "served B (fp_topics s)" "list_all2 fetched_topic (fr_Topics req) (ss_topics resp)"
      "stream_ok resp" "stream_size resp \<le> max (sint (fr_MaxBytes req)) (int B)"
    using fetchOnePass_ok [OF 0(1) B] by blast
  have "fetch_loop clock others req deadline k tm = Some (resp, fp_topics s)"
    using p(1) 0(2) by (subst fetch_loop.simps) simp
  then show ?case using p by blast
next
  case (Suc n)
  obtain resp s where p: "fetchOnePass req tm = Some (resp, s)" "served B (fp_topics s)" "list_all2 fetched_topic (fr_Topics req) (ss_topics resp)"
      "stream_ok resp" "stream_size resp \<le> max (sint (fr_MaxBytes req)) (int B)"
    using fetchOnePass_ok [OF Suc.prems(1) B] by blast
  let ?stop = "fp_hasError s \<or> fp_totalBytes s \<ge> sint (fr_MinBytes req) \<or> sint (fr_MaxWaitMs req) \<le> 0 \<or> length (fp_waitChans s) = 0"
  have eq: "fetch_loop clock others req deadline k tm = (if ?stop then Some (resp, fp_topics s) else if deadline - clock k \<le> 0 then Some (resp, fp_topics s)
      else fetch_loop clock others req deadline (Suc k) (others k (fp_topics s)))"
    using p(1) by (subst fetch_loop.simps) simp
  show ?case
  proof (cases "?stop \<or> deadline - clock k \<le> 0")
    case True
    then have "fetch_loop clock others req deadline k tm = Some (resp, fp_topics s)" unfolding eq by (cases ?stop) simp_all
    then show ?thesis using p by blast
  next
    case False
    then have "fetch_loop clock others req deadline k tm = fetch_loop clock others req deadline (Suc k) (others k (fp_topics s))" unfolding eq by simp
    then show ?thesis using Suc.IH [of "others k (fp_topics s)" "Suc k"] others p(2) Suc.prems(2) by simp
  qed
qed

section \<open>Produce\<close>

lemma pair_unique:
  assumes "pair_rep p bs" and "pair_rep p bs'"
  shows "bs = bs'"
proof -
  have a: "seg_rep (sp_segment p) bs" "seg_rep (sp_segment p) bs'" using assms by (simp_all add: pair_rep_def)
  then have "length (concat bs) = length (concat bs')" by (simp add: seg_rep_def)
  then have "concat bs = concat bs'" using a by (metis seg_rep_def)
  moreover have "list_all raw_ok bs" "list_all raw_ok bs'" using a by (simp_all add: seg_rep_def batches_ok_def)
  ultimately show ?thesis using raw_unique by blast
qed

lemma linked_unique: "linked o1 ps bss \<Longrightarrow> linked o2 ps bss' \<Longrightarrow> bss = bss'"
proof (induction o1 ps bss arbitrary: o2 bss' rule: linked.induct)
  case (1 o' p ps bs bss)
  then obtain cs css where c: "bss' = cs # css" by (cases bss') auto
  then have "bs = cs" using 1 pair_unique [of p bs cs] by simp
  moreover have "bss = css" using 1 c by auto
  ultimately show ?case using c by simp
next
  case (2 o')
  then show ?case by (cases bss') auto
qed auto

text \<open>The batches of a log are determined by its files.\<close>

lemma log_unique: "log_rep l bss \<Longrightarrow> log_rep l bss' \<Longrightarrow> bss = bss'"
  unfolding log_rep_def using linked_unique by blast

text \<open>A replica that can take records of the weight \<open>k\<close>: their number and their bytes.\<close>

definition part_room :: "nat \<Rightarrow> nat \<Rightarrow> Partition \<Rightarrow> bool" where
  "part_room B k p \<longleftrightarrow> (\<exists>bss. part_ok p bss \<and> (\<forall>b\<in>set (concat bss). length b \<le> B) \<and> unat (LEO p) + k < 2 ^ 64 \<and>
     total_records (concat bss) + k \<le> 2 ^ 32 \<and> length (concat (concat bss)) + k < 2 ^ 63)"

definition roomy :: "nat \<Rightarrow> nat \<Rightarrow> TopicManager \<Rightarrow> bool" where
  "roomy B k tm \<longleftrightarrow> tm_ok tm \<and> (\<forall>topic i p. slot tm topic i = Some p \<longrightarrow> part_room B k p)"

definition records_of :: "ProduceRequestPartition \<Rightarrow> bytes" where
  "records_of reqPart = (case prp_Records reqPart of None \<Rightarrow> [] | Some r \<Rightarrow> r)"

definition weighs :: "nat \<Rightarrow> (ProduceRequestPartition \<Rightarrow> nat) \<Rightarrow> ProduceRequestPartition \<Rightarrow> bool" where
  "weighs B cost reqPart \<longleftrightarrow> length (records_of reqPart) \<le> B \<and>
     (\<forall>ds. records_of reqPart = concat ds \<longrightarrow> list_all scannable ds \<longrightarrow> total_records ds + length (records_of reqPart) \<le> cost reqPart)"

lemma roomy_served: "roomy B k tm \<Longrightarrow> served B tm"
  unfolding roomy_def served_def part_room_def servable_def by blast

lemma part_room_less: "part_room B (n + k) p \<Longrightarrow> part_room B k p"
  unfolding part_room_def by fastforce

lemma last_within: "bss \<noteq> [] \<Longrightarrow> total_records (last bss) \<le> total_records (concat bss) \<and> length (concat (last bss)) \<le> length (concat (concat bss))"
  by (induction bss) (auto simp: trans_le_add2)

lemma room_fits:
  assumes room: "part_room B (cost reqPart + k) p" and w: "weighs B cost reqPart"
  shows "append_fits (pt_log p) (records_of reqPart)"
  unfolding append_fits_def
proof (intro allI impI)
  fix css ds
  assume css: "log_rep (pt_log p) css" and ds: "records_of reqPart = concat ds" "list_all scannable ds"
  obtain bss where b: "part_ok p bss" "unat (LEO p) + (cost reqPart + k) < 2 ^ 64" "total_records (concat bss) + (cost reqPart + k) \<le> 2 ^ 32"
      "length (concat (concat bss)) + (cost reqPart + k) < 2 ^ 63" using room by (auto simp: part_room_def)
  have "css = bss" using log_unique css b(1) by (simp add: part_ok_def)
  moreover have "css \<noteq> []" using log_rep_ne css by blast
  ultimately have "total_records (last css) \<le> total_records (concat bss)" "length (concat (last css)) \<le> length (concat (concat bss))"
    using last_within by blast+
  moreover have "total_records ds + length (concat ds) \<le> cost reqPart" using w ds by (simp add: weighs_def)
  ultimately show "unat (NextOffset (pt_log p)) + total_records ds < 2 ^ 64 \<and> pair_small (last css @ ds)"
    using b by (simp add: pair_small_def LEO_def)
qed

lemma stamp_all_lengths: "list_all raw_ok ds \<Longrightarrow> map length (stamp_all o' epoch ds) = map length ds"
  by (induction ds arbitrary: o') (simp_all add: raw_ok_16)

lemma maybeAdvanceHW_log: "maybeAdvanceHW p = Some p' \<Longrightarrow> pt_log p' = pt_log p"
  by (auto simp: maybeAdvanceHW_def on_purgatory_def Let_def split: if_splits)

lemma AppendRaw_log:
  assumes "Partition_AppendRaw io ctxDone data acks p = Some (r, p')"
  shows "pt_log p' = pt_log p \<or> (\<exists>x. AppendRaw io data (pt_leaderEpoch p) (pt_log p) = Some (x, pt_log p'))"
proof (cases "AppendRaw io data (pt_leaderEpoch p) (pt_log p)")
  case None
  then show ?thesis using assms by (auto simp: Partition_AppendRaw_def split: if_splits)
next
  case (Some y)
  obtain x l where y: "y = (x, l)" by (cases y)
  show ?thesis
  proof (cases x)
    case (Inl e)
    then show ?thesis using assms Some y by (auto simp: Partition_AppendRaw_def split: if_splits)
  next
    case (Inr z)
    obtain off lod where z: "z = (off, lod)" by (cases z)
    obtain entry q where q: "await_hw acks (off + ucast lod + 1) (notifyWaiters (p\<lparr>pt_log := l\<rparr>)) = (entry, q)" by fastforce
    then have ql: "pt_log q = l" by (auto simp: await_hw_def add_waiter_def notifyWaiters_def Let_def split: if_splits)
    have "pt_log p' = l \<or> p' = p"
      using assms Some y Inr z q ql maybeAdvanceHW_log [of q]
      by (auto simp: Partition_AppendRaw_def expire_request_def on_purgatory_def Let_def split: if_splits option.splits)
    then show ?thesis using Some y by auto
  qed
qed

lemma append_oldest:
  assumes "part_ok p bss" and "append_fits (pt_log p) data" and "Partition_AppendRaw io ctxDone data acks p = Some (r, p')"
  shows "OldestOffset (pt_log p') = OldestOffset (pt_log p)"
  using AppendRaw_log [OF assms(3)] AppendRaw_any [of "pt_log p" bss data io "pt_leaderEpoch p"] assms(1,2) by (auto simp: part_ok_def same_log_def)

lemma append_keeps_room:
  assumes room: "part_room B (cost reqPart + k) p" and w: "weighs B cost reqPart"
  shows "\<exists>r p'. Partition_AppendRaw io ctxDone (records_of reqPart) acks p = Some (r, p') \<and> part_room B k p' \<and> pt_localBrokerID p' = pt_localBrokerID p"
proof -
  let ?d = "records_of reqPart"
  obtain bss where b: "part_ok p bss" "\<forall>b\<in>set (concat bss). length b \<le> B" "unat (LEO p) + (cost reqPart + k) < 2 ^ 64"
      "total_records (concat bss) + (cost reqPart + k) \<le> 2 ^ 32" "length (concat (concat bss)) + (cost reqPart + k) < 2 ^ 63"
    using room by (auto simp: part_room_def)
  obtain r p' bss' where r: "Partition_AppendRaw io ctxDone ?d acks p = Some (r, p')" "part_ok p' bss'" "appended_to p bss ?d acks r p' bss'" "same_assignment p p'"
    using Partition_AppendRaw_sound [OF b(1) room_fits [OF room w], of io ctxDone acks] by blast
  note old = append_oldest [OF b(1) room_fits [OF room w] r(1)]
  have next': "unat (LEO q) = unat (OldestOffset (pt_log q)) + total_records (concat css)" if "part_ok q css" for q css
    using log_next [of "pt_log q" css] that by (simp add: part_ok_def LEO_def)
  have "part_room B k p'"
  proof (cases r)
    case (Inl e)
    then have "concat bss' = concat bss" using r(3) by (simp add: appended_to_def)
    then show ?thesis unfolding part_room_def using r(2) old b next' [OF r(2)] next' [OF b(1)] by (intro exI [of _ bss']) simp
  next
    case (Inr a)
    then obtain ds where ds: "?d = concat ds" "list_all scannable ds" "concat bss' = concat bss @ stamp_all (unat (LEO p)) (pt_leaderEpoch p) ds"
      using r(3) by (auto simp: appended_to_def)
    let ?s = "stamp_all (unat (LEO p)) (pt_leaderEpoch p) ds"
    have raw: "list_all raw_ok ds" by (rule scannable_raw [OF ds(2)])
    have c: "total_records ds + length ?d \<le> cost reqPart" and dB: "length ?d \<le> B" using w ds(1,2) by (simp_all add: weighs_def)
    have t: "total_records ?s = total_records ds" "length (concat ?s) = length ?d"
      using total_stamp_all [OF raw] stamp_all_lengths [OF raw] ds(1) by (simp_all add: length_concat)
    have "length x \<le> B" if x: "x \<in> set ?s" for x
    proof -
      have "length x \<in> set (map length ds)" using x stamp_all_lengths [OF raw, of "unat (LEO p)" "pt_leaderEpoch p"] by (metis imageI list.set_map)
      then have "length x \<le> sum_list (map length ds)" by (rule member_le_sum_list) simp
      then show ?thesis using dB ds(1) by (simp add: length_concat)
    qed
    then have "\<forall>x\<in>set (concat bss'). length x \<le> B" using b(2) ds(3) by (auto simp del: set_concat)
    moreover have "unat (LEO p') + k < 2 ^ 64" using next' [OF r(2)] next' [OF b(1)] old ds(3) t(1) c b(3) by simp
    ultimately show ?thesis unfolding part_room_def using r(2) ds(3) t c b(4,5) by (intro exI [of _ bss']) simp
  qed
  then show ?thesis using r(1,4) by (auto simp: same_assignment_def)
qed

lemma roomy_less: "roomy B (n + k) tm \<Longrightarrow> roomy B k tm"
  using part_room_less unfolding roomy_def by blast

lemma roomy_put:
  assumes "roomy B (n + k) tm" and "part_room B k p'" and "pt_localBrokerID p' = tm_localBrokerID tm"
  shows "roomy B k (put_partition name i p' tm)"
  using roomy_less [OF assms(1)] assms(2,3) tm_ok_put [of tm p' name i]
  unfolding roomy_def part_room_def part_inv_def by (auto simp: slot_put)

definition answered :: "ProduceRequestPartition \<Rightarrow> ProduceResponsePartition \<times> ptr option \<Rightarrow> bool" where
  "answered reqPart r \<longleftrightarrow> psp_Index (fst r) = prp_Index reqPart \<and> (psp_ErrorCode (fst r) \<noteq> 0 \<longrightarrow> psp_BaseOffset (fst r) = - 1 \<and> snd r = None)"

lemma produce_partition_ok:
  assumes s: "roomy B (cost reqPart + k) tm" and w: "weighs B cost reqPart"
  shows "\<exists>r tm' n'. produce_partition env acks timeoutMs name reqPart (tm, n) = Some (r, tm', n') \<and> roomy B k tm' \<and> answered reqPart r"
proof (cases "\<exists>p. TM_GetPartition tm name (prp_Index reqPart) = Inr p \<and> length (records_of reqPart) \<noteq> 0")
  case False
  then show ?thesis using roomy_less [OF s]
    by (cases "TM_GetPartition tm name (prp_Index reqPart)")
      (auto simp: produce_partition_def answered_def new_produce_partition_def records_of_def Let_def)
next
  case True
  then obtain p where p: "TM_GetPartition tm name (prp_Index reqPart) = Inr p" "length (records_of reqPart) \<noteq> 0" by blast
  have room: "part_room B (cost reqPart + k) p" and loc: "pt_localBrokerID p = tm_localBrokerID tm"
    using s p(1) by (auto simp: roomy_def tm_ok_def part_inv_def TM_GetPartition_slot)
  obtain r p' where r: "Partition_AppendRaw (re_io env n) (sint timeoutMs \<le> 0 \<or> re_expired env n) (records_of reqPart) acks p = Some (r, p')"
      "part_room B k p'" "pt_localBrokerID p' = pt_localBrokerID p"
    using append_keeps_room [OF room w] by blast
  have "roomy B k (put_partition name (prp_Index reqPart) p' tm)" using r(2,3) loc by (intro roomy_put [OF s]) simp_all
  then show ?thesis using p r(1)
    by (cases r) (auto simp: produce_partition_def answered_def new_produce_partition_def records_of_def Let_def)
qed

definition answered_topic :: "ProduceRequestTopic \<Rightarrow> gostring \<times> (ProduceResponsePartition \<times> ptr option) list \<Rightarrow> bool" where
  "answered_topic reqTopic t \<longleftrightarrow> fst t = prt_Name reqTopic \<and> list_all2 answered (prt_Partitions reqTopic) (snd t)"

interpretation produce_partitions:
  filling "produce_partition env acks timeoutMs name" cost "weighs B cost" "\<lambda>k s. roomy B k (fst s)" answered for env acks timeoutMs name cost B
proof
  fix x k and s :: "TopicManager \<times> nat"
  assume "weighs B cost x" "roomy B (cost x + k) (fst s)"
  then show "\<exists>r s'. produce_partition env acks timeoutMs name x s = Some (r, s') \<and> roomy B k (fst s') \<and> answered x r"
    using produce_partition_ok [of B cost x k "fst s" env acks timeoutMs name "snd s"] by auto
qed

lemma produce_topic_filling:
  "filling (produce_topic env acks timeoutMs) (\<lambda>t. sum_list (map cost (prt_Partitions t))) (\<lambda>t. list_all (weighs B cost) (prt_Partitions t))
    (\<lambda>k s. roomy B k (fst s)) answered_topic"
proof -
  have "filling (\<lambda>t s. map_option (\<lambda>(rs, s). ((prt_Name t, rs), s)) (each (produce_partition env acks timeoutMs (prt_Name t)) (prt_Partitions t) s))
      (\<lambda>t. sum_list (map cost (prt_Partitions t))) (\<lambda>t. list_all (weighs B cost) (prt_Partitions t)) (\<lambda>k s. roomy B k (fst s)) answered_topic"
  proof
    fix t :: ProduceRequestTopic and k and s :: "TopicManager \<times> nat"
    assume "list_all (weighs B cost) (prt_Partitions t)" "roomy B (sum_list (map cost (prt_Partitions t)) + k) (fst s)"
    from produce_partitions.fills [OF this, of env acks timeoutMs "prt_Name t"]
    show "\<exists>r s'. map_option (\<lambda>(rs, s). ((prt_Name t, rs), s)) (each (produce_partition env acks timeoutMs (prt_Name t)) (prt_Partitions t) s) = Some (r, s') \<and>
        roomy B k (fst s') \<and> answered_topic t r"
      by (auto simp: answered_topic_def)
  qed
  then show ?thesis by (simp add: produce_topic_def [abs_def])
qed

interpretation produce_topics:
  filling "produce_topic env acks timeoutMs" "\<lambda>t. sum_list (map cost (prt_Partitions t))" "\<lambda>t. list_all (weighs B cost) (prt_Partitions t)"
    "\<lambda>k s. roomy B k (fst s)" answered_topic for env acks timeoutMs cost B
  by (rule produce_topic_filling)

text \<open>The capacity a request needs.\<close>

definition request_weight :: "(ProduceRequestPartition \<Rightarrow> nat) \<Rightarrow> ProduceRequest \<Rightarrow> nat" where
  "request_weight cost req = sum_list (map (\<lambda>t. sum_list (map cost (prt_Partitions t))) (pr_Topics req))"

definition produce_fits :: "nat \<Rightarrow> bytes \<Rightarrow> TopicManager \<Rightarrow> bool" where
  "produce_fits B body tm \<longleftrightarrow> (\<forall>v req. DecodeProduceRequest body v = Some (Inr req) \<longrightarrow>
     (\<exists>cost. list_all (\<lambda>t. list_all (weighs B cost) (prt_Partitions t)) (pr_Topics req) \<and> roomy B (request_weight cost req) tm))"

lemma handleProduce_ok:
  assumes body: "fits body" and sv: "served B tm" and fit: "produce_fits B body tm"
  shows "\<exists>r tm'. handleProduce env header body tm = Some (r, tm') \<and> served B tm' \<and> (\<forall>resp. r = Inr (Some resp) \<longrightarrow> resp_ok resp)"
proof -
  let ?v = "rh_APIVersion header"
  obtain d where d: "DecodeProduceRequest body ?v = Some d"
    using r_produce_request.no_panic [OF body] by (auto simp: DecodeProduceRequest_def)
  show ?thesis
  proof (cases "sint ?v < 3 \<or> sint ?v > 8 \<or> (\<exists>e. d = Inl e)")
    case True
    then show ?thesis using d sv by (auto simp: handleProduce_def encodeUnsupportedVersionError_def Let_def)
  next
    case False
    then obtain req where req: "d = Inr req" by (cases d) auto
    obtain cost where cost: "list_all (\<lambda>t. list_all (weighs B cost) (prt_Partitions t)) (pr_Topics req)" "roomy B (request_weight cost req) tm"
      using fit d req unfolding produce_fits_def by blast
    obtain ts tm' n where "each (produce_topic env (pr_Acks req) (pr_TimeoutMs req)) (pr_Topics req) (tm, 0) = Some (ts, tm', n)" "roomy B 0 tm'"
      using produce_topics.fills [OF cost(1), of 0 "(tm, 0)" env "pr_Acks req" "pr_TimeoutMs req"] cost(2)
      by (auto simp: request_weight_def)
    then show ?thesis using d req False sv roomy_served by (auto simp: handleProduce_def Let_def)
  qed
qed

section \<open>The other requests\<close>

definition opens_within :: "nat \<Rightarrow> TopicEnv \<Rightarrow> LogConfig \<Rightarrow> bool" where
  "opens_within B env config \<longleftrightarrow> (\<forall>dir. \<exists>r. open_log env config dir = Some r \<and>
     (\<forall>l. r = Inr l \<longrightarrow> (\<exists>bss. log_rep l bss \<and> (\<forall>b\<in>set (concat bss). length b \<le> B))))"

lemma opens_within_opens: "opens_within B env config \<Longrightarrow> opens env config"
  unfolding opens_within_def opens_def by blast

lemma created_servable:
  assumes op: "opens_within B env (tm_logConfig tm)" and c: "created env tm name lead i p"
  shows "servable B p"
proof -
  obtain l bss where l: "open_log env (tm_logConfig tm) (partitionDir name (int i)) = Some (Inr l)" "log_rep l bss" "part_ok p bss"
    using c by (auto simp: created_def)
  obtain r where r: "open_log env (tm_logConfig tm) (partitionDir name (int i)) = Some r"
      "\<forall>l. r = Inr l \<longrightarrow> (\<exists>bss. log_rep l bss \<and> (\<forall>b\<in>set (concat bss). length b \<le> B))"
    using op unfolding opens_within_def by blast
  then obtain css where "log_rep l css" "\<forall>b\<in>set (concat css). length b \<le> B" using l(1) by auto
  then show ?thesis using log_unique l(2,3) unfolding servable_def by metis
qed

lemma CreateTopic_served:
  assumes sv: "served B tm" and op: "opens_within B env (tm_logConfig tm)"
  shows "\<exists>r tm' removed. CreateTopic env name n lead tm = Some (r, tm', removed) \<and> served B tm' \<and> tm_logConfig tm' = tm_logConfig tm"
proof -
  have ok: "tm_ok tm" using sv by (simp add: served_def)
  obtain r tm' removed where c: "CreateTopic env name n lead tm = Some (r, tm', removed)" "tm_ok tm'"
    "case r of
       Inl _ \<Rightarrow> tm' = tm
     | Inr _ \<Rightarrow> validateTopicName name \<and> 0 < n \<and> map_of (tm_topics tm) name = None \<and> removed = [] \<and> PartitionCount tm' name = Inr (nat n) \<and>
         (\<forall>i. slot tm' name i = None \<or> (\<exists>p. slot tm' name i = Some p \<and> created env tm name lead i p)) \<and>
         (\<forall>i<nat n. slot tm' name i \<noteq> None) \<and> (\<forall>topic i. topic \<noteq> name \<longrightarrow> slot tm' topic i = slot tm topic i)"
    using CreateTopic_rep [OF ok opens_within_opens [OF op], of name n lead] by blast
  have "tm_logConfig tm' = tm_logConfig tm" using c(1) by (auto simp: CreateTopic_def split: if_splits option.splits sum.splits)
  moreover have "servable B p" if s: "slot tm' topic i = Some p" for topic i p
  proof (cases r)
    case (Inl e)
    then show ?thesis using c(3) sv s by (auto simp: served_def)
  next
    case (Inr u)
    have cc: "\<forall>i. slot tm' name i = None \<or> (\<exists>p. slot tm' name i = Some p \<and> created env tm name lead i p)"
        "\<forall>topic i. topic \<noteq> name \<longrightarrow> slot tm' topic i = slot tm topic i"
      using c(3) [unfolded Inr sum.case] by (simp_all del: split_paired_All not_None_eq)
    show ?thesis
    proof (cases "topic = name")
      case True
      then have "created env tm name lead i p" using spec [OF cc(1), of i] s by simp
      then show ?thesis by (rule created_servable [OF op])
    next
      case False
      then have "slot tm topic i = Some p" using cc(2) s by simp
      then show ?thesis using sv unfolding served_def by blast
    qed
  qed
  ultimately show ?thesis using c(1,2) by (auto simp: served_def)
qed

lemma auto_create_ok:
  "served B tm \<Longrightarrow> opens_within B env (tm_logConfig tm) \<Longrightarrow> \<exists>tm'. auto_create env names tm = Some tm' \<and> served B tm'"
proof (induction names arbitrary: tm)
  case (Cons name names)
  obtain r tm' removed where c: "CreateTopic env name 1 True tm = Some (r, tm', removed)" "served B tm'" "tm_logConfig tm' = tm_logConfig tm"
    using CreateTopic_served [OF Cons.prems] by blast
  show ?case using Cons.IH [OF Cons.prems] Cons.IH [OF c(2)] Cons.prems(2) c by (auto split: sum.split)
qed simp

lemma epoch_topics_total: "\<exists>ts. each epoch_topic reqs tm = Some (ts, tm)"
proof -
  have p: "\<exists>r. epoch_partition tm name x = Some r" for name x
    by (auto simp: epoch_partition_def Partition_EndOffsetForLeaderEpoch_def EndOffsetForLeaderEpoch_def EndOffsetFor_Some
        Let_def split: sum.split option.split)
  have "\<exists>rs. each (\<lambda>x tm. map_option (\<lambda>r. (r, tm)) (epoch_partition tm name x)) xs tm = Some (rs, tm)" for name xs
  proof (induction xs)
    case (Cons x xs)
    then show ?case using p [of name x] by auto
  qed simp
  then have "\<exists>t. epoch_topic x tm = Some (t, tm)" for x unfolding epoch_topic_def by fastforce
  then show ?thesis
  proof (induction reqs)
    case (Cons x reqs)
    then obtain t ts where "epoch_topic x tm = Some (t, tm)" "each epoch_topic reqs tm = Some (ts, tm)" by blast
    then show ?case by simp
  qed simp
qed

lemma ofle_classic_total:
  assumes "fits body" and "sint v < 4"
  shows "DecodeOffsetsForLeaderEpochRequest body v \<noteq> None"
proof -
  have "reader (ofle_request_fields v)"
    unfolding ofle_request_fields_def [abs_def] Let_def using assms(2) r_ofle_request_classic.reader_axioms
    by (simp add: tagged_if_def) (intro reader_rules)
  from reader.no_panic [OF this assms(1)] show ?thesis by (auto simp: DecodeOffsetsForLeaderEpochRequest_def split: Option.bind_splits)
qed

text \<open>Surroundings in which the other goroutines keep the topics valid and the clock goes on.\<close>

definition ready :: "nat \<Rightarrow> RequestEnv \<Rightarrow> Handler \<Rightarrow> bool" where
  "ready B env h \<longleftrightarrow> served B (hd_topics h) \<and> B < 2 ^ 31 \<and> (\<forall>k tm. served B tm \<longrightarrow> served B (re_others env k tm)) \<and>
     (\<forall>t. \<exists>n. t \<le> re_clock env n) \<and> opens_within B (re_topics env) (tm_logConfig (hd_topics h))"

definition handled :: "nat \<Rightarrow> HandlerResult \<Rightarrow> bool" where
  "handled B x \<longleftrightarrow> (\<exists>r tm. x = Some (r, tm) \<and> served B tm \<and> (\<forall>resp. r = Inr (Some resp) \<longrightarrow> resp_ok resp))"

lemma handleFetch_ok:
  assumes "fits body" and r: "ready B env h"
  shows "handled B (handleFetch env header body (hd_topics h))"
proof -
  let ?v = "rh_APIVersion header"
  obtain d where d: "DecodeFetchRequest body ?v = Some d"
    using r_fetch_request.no_panic [OF assms(1), of ?v] by (auto simp: DecodeFetchRequest_def)
  show ?thesis
  proof (cases "sint ?v < 4 \<or> sint ?v > 11 \<or> (\<exists>e. d = Inl e)")
    case True
    then show ?thesis using d r by (auto simp: handleFetch_def encodeUnsupportedVersionError_def Let_def handled_def ready_def)
  next
    case False
    then obtain req where req: "d = Inr req" by (cases d) auto
    let ?dl = "re_start env + sint (fr_MaxWaitMs req) * 1000000"
    obtain n where n: "?dl \<le> re_clock env n" using r unfolding ready_def by blast
    obtain resp tm where l: "fetch_loop (re_clock env) (re_others env) req ?dl 0 (hd_topics h) = Some (resp, tm)" "served B tm" "stream_ok resp"
      using fetch_loop_returns [of B "re_others env" "hd_topics h" ?dl "re_clock env" 0 n req] r n by (auto simp: ready_def)
    obtain y where "encodeFetchStreamResponse resp ?v = Some y" "resp_ok y" using encodeFetchStreamResponse_bytes [OF l(3)] by blast
    then show ?thesis using d req False l by (auto simp: handleFetch_def handled_def Let_def)
  qed
qed

lemma handleMetadata_ok:
  assumes "fits body" and r: "ready B env h"
  shows "handled B (handleMetadata env h header body)"
proof -
  let ?v = "rh_APIVersion header"
  obtain d where d: "DecodeMetadataRequest body ?v = Some d"
    using r_metadata_request.no_panic [OF assms(1), of ?v] by (auto simp: DecodeMetadataRequest_def)
  have sv: "served B (hd_topics h)" using r by (simp add: ready_def)
  show ?thesis
  proof (cases "sint ?v < 0 \<or> sint ?v > 8 \<or> (\<exists>e. d = Inl e)")
    case True
    then show ?thesis using d sv by (auto simp: handleMetadata_def encodeUnsupportedVersionError_def Let_def handled_def)
  next
    case False
    then obtain req where req: "d = Inr req" by (cases d) auto
    obtain tm0 where tm0: "auto_create (re_topics env) (mr_Topics req) (hd_topics h) = Some tm0" "served B tm0"
      using auto_create_ok [OF sv, of "re_topics env" "mr_Topics req"] r by (auto simp: ready_def)
    have "\<exists>tm. (if \<not> mr_AllTopics req \<and> mr_AllowAutoTopicCreation req then auto_create (re_topics env) (mr_Topics req) (hd_topics h)
        else Some (hd_topics h)) = Some tm \<and> served B tm"
      using tm0 sv by (cases "\<not> mr_AllTopics req \<and> mr_AllowAutoTopicCreation req") auto
    then obtain tm where tm: "(if \<not> mr_AllTopics req \<and> mr_AllowAutoTopicCreation req then auto_create (re_topics env) (mr_Topics req) (hd_topics h)
        else Some (hd_topics h)) = Some tm" "served B tm"
      by blast
    show ?thesis
    proof (cases "hd_controller h")
      case None
      have "\<exists>resp. handleMetadata env h header body = Some (Inr (Some (BytesResponse resp)), tm)"
        unfolding handleMetadata_def Let_def using d req False None by (simp only: tm option.case sum.case if_False simp_thms) simp
      then show ?thesis using tm(2) by (auto simp: handled_def)
    next
      case (Some ctrl)
      then show ?thesis using d req False sv by (auto simp: handleMetadata_def handled_def Let_def)
    qed
  qed
qed

lemma Handle_ok:
  assumes body: "fits body" and r: "ready B env h" and p: "rh_APIKey header = APIKeyProduce \<Longrightarrow> produce_fits B body (hd_topics h)"
    and v: "rh_APIKey header = APIKeyOffsetsForLeaderEpoch \<Longrightarrow> rh_APIVersion header \<noteq> 4"
  shows "\<exists>x h'. Handle env header body h = Some (x, h') \<and> served B (hd_topics h') \<and> (\<forall>resp. x = Inr (Some resp) \<longrightarrow> resp_ok resp) \<and>
    h' = h\<lparr>hd_topics := hd_topics h'\<rparr>"
proof -
  have sv: "served B (hd_topics h)" using r by (simp add: ready_def)
  have fin: ?thesis if "Handle env header body h = map_option (\<lambda>(r, tm). (r, h\<lparr>hd_topics := tm\<rparr>)) y" "handled B y" for y
    using that by (auto simp: handled_def)
  let ?k = "rh_APIKey header" and ?tm = "hd_topics h"
  have "handled B (handleListOffsets header body ?tm)"
  proof -
    obtain d where "DecodeListOffsetsRequest body (rh_APIVersion header) = Some d"
      using r_list_offsets_request.no_panic [OF body, of "rh_APIVersion header"] by (auto simp: DecodeListOffsetsRequest_def)
    then show ?thesis using sv by (cases d) (auto simp: handleListOffsets_def encodeUnsupportedVersionError_def handled_def Let_def)
  qed
  moreover have "handled B (handleOffsetsForLeaderEpoch header body ?tm)" if "?k = APIKeyOffsetsForLeaderEpoch"
  proof (cases "sint (rh_APIVersion header) < 2 \<or> sint (rh_APIVersion header) > 4")
    case True
    then show ?thesis using sv by (simp add: handleOffsetsForLeaderEpoch_def encodeUnsupportedVersionError_def handled_def)
  next
    case False
    have "sint (rh_APIVersion header) \<noteq> 4" using v [OF that] sint_inject [of "rh_APIVersion header" 4] by auto
    then obtain d where d: "DecodeOffsetsForLeaderEpochRequest body (rh_APIVersion header) = Some d"
      using ofle_classic_total [OF body, of "rh_APIVersion header"] False by auto
    show ?thesis
    proof (cases d)
      case (Inl e)
      then show ?thesis using d False sv by (simp add: handleOffsetsForLeaderEpoch_def handled_def Let_def)
    next
      case (Inr req)
      obtain ts where "each epoch_topic (or_Topics req) ?tm = Some (ts, ?tm)" using epoch_topics_total by blast
      then show ?thesis using d Inr False sv by (simp add: handleOffsetsForLeaderEpoch_def handled_def Let_def)
    qed
  qed
  moreover have "handled B (handleProduce env header body ?tm)" if "?k = APIKeyProduce"
    using handleProduce_ok [OF body sv p [OF that]] unfolding handled_def by blast
  ultimately show ?thesis
    using fin handleFetch_ok [OF body r, of header] handleMetadata_ok [OF body r, of header] sv
    unfolding Handle_def Let_def by (simp add: handleApiVersions_def handled_def api_keys)
qed

end
