(* ===== verification/HandlerFlow.thy ===== *)
theory HandlerFlow
  imports HandlerRep
begin

text \<open>
  Requests that depend on each other: what a producer has been told is stored is what a consumer reads at the
  offset the producer was given, and clients are told the leaders the controller knows.
\<close>

section \<open>Producing and consuming\<close>

lemma min_leo_local: "\<forall>e\<in>set isr. ie_BrokerID e = b \<Longrightarrow> min_leo b n isr = n"
  by (induction isr) auto

text \<open>Without followers an append is committed at once.\<close>

lemma alone_advances:
  assumes "maybeAdvanceHW p = Some p'" and "pt_isLeader p" and "pt_isr p \<noteq> []" and "\<forall>e\<in>set (pt_isr p). ie_BrokerID e = pt_localBrokerID p"
  shows "NextOffset (pt_log p') \<le> pt_highWatermark p'"
  using assms min_leo_local [OF assms(4), of "NextOffset (pt_log p)"]
  by (auto simp: maybeAdvanceHW_def on_purgatory_def notifyWaiters_def Let_def split: if_splits)

lemma append_alone:
  assumes A: "Partition_AppendRaw io ctxDone data acks p = Some (Inr a, p')" and isr: "pt_isr p \<noteq> []"
    and alone: "\<forall>e\<in>set (pt_isr p). ie_BrokerID e = pt_localBrokerID p"
  shows "LEO p' \<le> pt_highWatermark p'"
proof -
  have g: "pt_isLeader p" "\<not> pt_closed p" "recordBatchOverhead \<le> length data" "acks = AcksNone \<or> acks = AcksLeader \<or> acks = AcksAll"
    using A by (auto simp: Partition_AppendRaw_def split: if_splits)
  obtain off lod l where l: "AppendRaw io data (pt_leaderEpoch p) (pt_log p) = Some (Inr (off, lod), l)"
    using A g by (auto simp: Partition_AppendRaw_def split: option.splits sum.splits)
  obtain entry q where q: "await_hw acks (off + ucast lod + 1) (notifyWaiters (p\<lparr>pt_log := l\<rparr>)) = (entry, q)" by fastforce
  have f: "finish_append ctxDone entry q = Some p'" using A AppendRaw_finish [OF g l q, of ctxDone] by auto
  have s: "pt_isLeader q" "pt_isr q = pt_isr p" "pt_localBrokerID q = pt_localBrokerID p"
    using q g(1) by (auto simp: await_hw_def add_waiter_def notifyWaiters_def Let_def split: if_splits)
  obtain p1 where p1: "maybeAdvanceHW q = Some p1" using f by (auto simp: finish_append_def split: option.splits)
  have "NextOffset (pt_log p1) \<le> pt_highWatermark p1" using alone_advances [OF p1] s isr alone by simp
  moreover have "pt_log p' = pt_log p1 \<and> pt_highWatermark p' = pt_highWatermark p1"
    using f p1 by (auto simp: finish_append_def expire_request_def on_purgatory_def split: option.splits if_splits)
  ultimately show ?thesis by (simp add: LEO_def)
qed

lemma ranges_data_bytes: "ranges_data rs = Some d \<Longrightarrow> list_all range_fits rs \<Longrightarrow> d = concat (map range_bytes rs)"
proof (induction rs arbitrary: d)
  case (Cons r rs)
  obtain x y where xy: "ReadAt (rr_File r) (rr_Offset r) (nat (rr_Length r)) = Some x" "ranges_data rs = Some y" "d = x @ y"
    using Cons.prems(1) by (auto split: option.splits)
  have "x = range_bytes r" using xy(1) Cons.prems(2) by (auto simp: ReadAt_def range_bytes_def range_fits_def split: if_splits)
  then show ?case using Cons.IH [OF xy(2)] Cons.prems(2) xy(3) by simp
qed simp

text \<open>When everything is committed a consumer gets the batch with its offset and the following ones that fit.\<close>

lemma read_committed:
  assumes ok: "part_ok p bss" and lead: "pt_isLeader p" "\<not> pt_closed p" and cons: "sint replicaID < 0"
    and off: "OldestOffset (pt_log p) \<le> off" "off < LEO p" and all: "LEO p \<le> pt_highWatermark p"
  shows "\<exists>y as b zs rest. FetchRawRanges off replicaID maxBytes True p = Some (Inr y, p) \<and> concat bss = as @ (b # zs) @ rest \<and>
    unat (OldestOffset (pt_log p)) + total_records as \<le> unat off \<and> unat off < unat (OldestOffset (pt_log p)) + total_records as + records b \<and>
    concat (map range_bytes (fg_Ranges y)) = concat (b # zs)"
proof -
  obtain as b zs rest upTo where s: "concat bss = as @ (b # zs) @ rest" "ReadRaw (pt_log p) off maxBytes = Some (concat (b # zs), upTo)"
      "unat (OldestOffset (pt_log p)) + total_records as \<le> unat off" "unat off < unat (OldestOffset (pt_log p)) + total_records as + records b"
      "unat upTo = unat (OldestOffset (pt_log p)) + total_records (as @ b # zs)"
    using read_for_offset [OF ok off] by blast
  have "unat (LEO p) = unat (OldestOffset (pt_log p)) + total_records (concat bss)"
    using log_next [of "pt_log p" bss] ok by (simp add: part_ok_def LEO_def)
  then have "upTo \<le> LEO p" using s(1,5) by (simp add: word_le_nat_alt)
  then have up: "\<not> upTo > pt_highWatermark p" and nohw: "\<not> off \<ge> pt_highWatermark p" using all off(2) by auto
  have "FetchRaw off replicaID maxBytes p =
      Some (Inr \<lparr>fr_Records = Some (concat (b # zs)), fr_HighWatermark = pt_highWatermark p, fr_LogStartOffset = OldestOffset (pt_log p), fr_FetchedUpTo = upTo\<rparr>, p)"
    using lead cons leD [OF off(1)] off(2) up nohw s(2) by (simp add: FetchRaw_def LEO_def Let_def)
  from FetchRawRanges_FetchRaw [OF ok this] obtain y where y: "FetchRawRanges off replicaID maxBytes True p = Some (Inr y, p)"
      "ranges_data (fg_Ranges y) = Some (concat (b # zs))" by (auto simp: same_read_def)
  have "list_all range_fits (fg_Ranges y)" using fetched_ranges [OF ok y(1)] by blast
  then have "concat (map range_bytes (fg_Ranges y)) = concat (b # zs)" using ranges_data_bytes [OF y(2)] by simp
  then show ?thesis using y(1) s(1,3,4) by (intro exI [of _ y] exI [of _ as] exI [of _ b] exI [of _ zs] exI [of _ rest]) simp
qed

lemma same_place:
  assumes "xs @ ys = as @ (b # zs) @ rest" and "total_records as \<le> total_records xs" and "total_records xs < total_records as + records b"
  shows "as = xs \<and> ys = (b # zs) @ rest"
proof -
  from assms(1) obtain us where us: "xs = as @ us \<and> us @ ys = (b # zs) @ rest \<or> xs @ us = as \<and> ys = us @ (b # zs) @ rest"
    unfolding append_eq_append_conv2 by blast
  have "us = []"
  proof (cases us)
    case (Cons u vs)
    then show ?thesis using us assms(2,3) by (auto simp: records_def)
  qed simp
  then show ?thesis using us by auto
qed

definition fetch_at :: "i32 \<Rightarrow> i64 \<Rightarrow> i32 \<Rightarrow> FetchRequestPartition" where
  "fetch_at index offset maxBytes =
     \<lparr>frp_Index = index, frp_CurrentLeaderEpoch = - 1, frp_FetchOffset = offset, frp_LogStartOffset = - 1, frp_MaxBytes = maxBytes\<rparr>"

definition new_pass :: "TopicManager \<Rightarrow> int \<Rightarrow> FetchPass" where
  "new_pass tm maxBytes =
     \<lparr>fp_topics = tm, fp_remaining = maxBytes, fp_firstBatchReturned = False, fp_totalBytes = 0, fp_waitChans = [], fp_hasError = False\<rparr>"

lemma put_get:
  assumes "TM_GetPartition tm name i = Inr p"
  shows "TM_GetPartition (put_partition name i p' tm) name i = Inr p'"
  using assms slot_has [of tm name "nat (sint i)"] by (auto simp: TM_GetPartition_slot slot_put)

lemma produce_visible:
  assumes room: "roomy B (cost x + k) tm" and w: "weighs B cost x"
    and P: "produce_partition env acks timeoutMs name x (tm, n) = Some ((resp, pending), tm', n')" and stored: "0 \<le> sint (psp_BaseOffset resp)"
    and get: "TM_GetPartition tm name (prp_Index x) = Inr p"
    and alone: "pt_isr p \<noteq> []" "\<forall>e\<in>set (pt_isr p). ie_BrokerID e = pt_localBrokerID p" and cons: "sint replicaID < 0"
  shows "\<exists>ds zs rest r s. records_of x = concat ds \<and> list_all scannable ds \<and>
    stamp_all (unat (psp_BaseOffset resp)) (LeaderEpoch p) ds = zs @ rest \<and> zs \<noteq> [] \<and>
    fetch_partition replicaID name (fetch_at (prp_Index x) (psp_BaseOffset resp) maxBytes) (new_pass tm' budget) = Some (r, s) \<and>
    sm_errorCode r = 0 \<and> sm_records r = concat zs"
proof -
  let ?d = "records_of x" and ?ctx = "sint timeoutMs \<le> 0 \<or> re_expired env n"
  have pr: "part_room B (cost x + k) p" using room get by (auto simp: roomy_def TM_GetPartition_slot)
  then obtain bss where ok: "part_ok p bss" by (auto simp: part_room_def)
  have ne: "?d \<noteq> []" using P stored get by (auto simp: produce_partition_def records_of_def new_produce_partition_def Let_def)
  obtain a p' where A: "Partition_AppendRaw (re_io env n) ?ctx ?d acks p = Some (Inr a, p')"
    and res: "psp_BaseOffset resp = ar_FirstOffset a" "tm' = put_partition name (prp_Index x) p' tm"
    using P stored get ne by (auto simp: produce_partition_def records_of_def new_produce_partition_def Let_def split: option.splits sum.splits)
  have fit: "append_fits (pt_log p) ?d" by (rule room_fits [OF pr w])
  obtain bss' where b': "part_ok p' bss'" "appended_to p bss ?d acks (Inr a) p' bss'" "same_assignment p p'" "pt_isr p' = pt_isr p"
    using Partition_AppendRaw_sound [OF ok fit, of "re_io env n" ?ctx acks] A by auto
  have old: "OldestOffset (pt_log p') = OldestOffset (pt_log p)" by (rule append_oldest [OF ok fit A])
  obtain ds where ds: "?d = concat ds" "ds \<noteq> []" "list_all scannable ds" "concat bss' = concat bss @ stamp_all (unat (LEO p)) (pt_leaderEpoch p) ds"
    and base: "ar_FirstOffset a = LEO p" and lead: "pt_isLeader p" "\<not> pt_closed p"
    using b'(2) by (auto simp: appended_to_def)
  let ?S = "stamp_all (unat (LEO p)) (pt_leaderEpoch p) ds" and ?O = "unat (OldestOffset (pt_log p))"
  have nx: "unat (LEO p) = ?O + total_records (concat bss)" "unat (LEO p') = ?O + total_records (concat bss')"
    using log_next [of "pt_log p" bss] log_next [of "pt_log p'" bss'] ok b'(1) old by (simp_all add: part_ok_def LEO_def)
  have "0 < total_records ?S" using total_stamp_all [OF scannable_raw [OF ds(3)]] total_pos [OF ds(2)] by simp
  then have lt: "LEO p < LEO p'" using nx ds(4) by (simp add: word_less_nat_alt)
  have ge: "OldestOffset (pt_log p') \<le> LEO p" using old nx(1) by (simp add: word_le_nat_alt)
  have lead': "pt_isLeader p'" "\<not> pt_closed p'" using lead b'(3) by (simp_all add: same_assignment_def)
  note hw = append_alone [OF A alone]
  define m where "m = part_budget maxBytes budget"
  obtain y as b zs rest where y: "FetchRawRanges (LEO p) replicaID m True p' = Some (Inr y, p')" "concat bss' = as @ (b # zs) @ rest"
      "?O + total_records as \<le> unat (LEO p)" "unat (LEO p) < ?O + total_records as + records b"
      "concat (map range_bytes (fg_Ranges y)) = concat (b # zs)"
    using read_committed [OF b'(1) lead' cons ge lt hw, of m] old by auto
  have "?S = (b # zs) @ rest" using same_place [of "concat bss" ?S as b zs rest] y(2-4) ds(4) nx(1) by simp
  moreover have "TM_GetPartition tm' name (prp_Index x) = Inr p'" unfolding res(2) by (rule put_get [OF get])
  moreover have "\<exists>r s. fetch_partition replicaID name (fetch_at (prp_Index x) (psp_BaseOffset resp) maxBytes) (new_pass tm' budget) = Some (r, s) \<and>
      sm_errorCode r = 0 \<and> sm_records r = concat (b # zs)"
    using calculation(2) stored res(1) base y(1,5) lead'
    by (simp add: fetch_partition_def fetch_at_def new_pass_def Let_def IsLeader_def validateLeaderEpoch_def m_def [symmetric] sm_records_def new_stream_partition_def)
  ultimately show ?thesis using ds(1,3) res(1) base unfolding LeaderEpoch_def
    by (intro exI [of _ ds] exI [of _ "b # zs"] exI [of _ rest]) auto
qed

section \<open>Metadata\<close>

lemma by_topic_find:
  "map_of (by_topic m ps) topic =
     (if filter (\<lambda>p. pm_Topic p = topic) ps = [] then map_of m topic
      else Some ((case map_of m topic of None \<Rightarrow> [] | Some qs \<Rightarrow> qs) @ filter (\<lambda>p. pm_Topic p = topic) ps))"
  by (induction m ps rule: by_topic.induct) (auto simp: AList.update_conv split: option.splits)

text \<open>What clients are told about a topic is what the controller holds about it.\<close>

lemma controller_topic_exact:
  assumes inv: "controller_inv uni s"
  shows "case GetPartition s topic i of
      None \<Rightarrow> (\<forall>r\<in>set (mt_Partitions (controller_topic_metadata (by_topic [] (AllPartitions s)) topic)). mp_PartitionIndex r \<noteq> i)
    | Some q \<Rightarrow> \<lparr>mp_ErrorCode = 0, mp_PartitionIndex = i, mp_LeaderID = pt_LeaderBrokerID q, mp_LeaderEpoch = pt_LeaderEpoch q,
        mp_ReplicaNodes = pt_Replicas q, mp_ISRNodes = pt_ISR q, mp_OfflineReplicas = []\<rparr>
        \<in> set (mt_Partitions (controller_topic_metadata (by_topic [] (AllPartitions s)) topic))"
proof -
  have d: "distinct (map fst (cs_Partitions s))" using inv by (simp add: controller_inv_def)
  have parts: "set (mt_Partitions (controller_topic_metadata (by_topic [] (AllPartitions s)) topic)) =
      controller_partition_metadata ` {p \<in> set (AllPartitions s). pm_Topic p = topic}"
    by (auto simp: controller_topic_metadata_def by_topic_find filter_empty_conv)
  have all: "p \<in> set (AllPartitions s) \<longleftrightarrow> (\<exists>k q. map_of (cs_Partitions s) k = Some q \<and> p = partitionMetadata k q)" for p
    using d by (force simp: AllPartitions_def sortPartitionMetadata_def map_of_eq_Some_iff)
  have key: "k = \<lparr>tk_Topic = topic, tk_Partition = i\<rparr>" if "pm_Topic (partitionMetadata k q) = topic" "pm_Partition (partitionMetadata k q) = i" for k q
    using that by (cases k) (simp add: partitionMetadata_def)
  show ?thesis
  proof (cases "GetPartition s topic i")
    case None
    have "pm_Partition p \<noteq> i" if p: "p \<in> set (AllPartitions s)" "pm_Topic p = topic" for p
    proof
      assume "pm_Partition p = i"
      then show False using p all [of p] key None by (auto simp: GetPartition_def)
    qed
    then show ?thesis unfolding parts using None by (auto simp: controller_partition_metadata_def)
  next
    case (Some q)
    let ?p = "partitionMetadata \<lparr>tk_Topic = topic, tk_Partition = i\<rparr> q"
    have "?p \<in> set (AllPartitions s)" using all [of ?p] Some by (auto simp: GetPartition_def)
    then show ?thesis unfolding parts using Some by (auto simp: controller_partition_metadata_def partitionMetadata_def image_iff intro!: bexI [of _ ?p])
  qed
qed

end
