(* ===== verification/ReplicaClient.thy ===== *)
theory ReplicaClient
  imports ServerLoop Fetch OffsetsForLeaderEpoch
begin

text \<open>
  \<open>internal/broker/replica_client.go\<close>: the client a follower talks to its leader with.  A connection is its number and
  the bytes that have arrived on it and were not read.  What the network does during one attempt to
  send a request is an argument: whether dialling, the deadline or the write fail, the bytes that arrive
  before the read ends, and whether the client is shut down while it waits.
\<close>

section \<open>The client\<close>

definition maxReplicaResponseBytes :: nat where
  "maxReplicaResponseBytes = 100 * 1024 * 1024"

record ClientConn =
  cc_id :: nat
  cc_unread :: bytes

record ReplicaClient =
  rc_clientID :: gostring
  rc_timeout :: bool
  rc_conn :: "ClientConn option"
  rc_shutdown :: bool
  rc_nextCorrelationID :: i32
  rc_dialled :: nat
  rc_closed :: "nat list"

record Attempt =
  at_dialFails :: bool
  at_deadlineFails :: bool
  at_write :: WriteOutcome
  at_arrives :: bytes
  at_shutdown :: bool

datatype ClientError =
    ClientShutDown | DialFailed | DeadlineFailed | WriteFailed | ShortWrite | ReadFailed | InvalidSize u32 | TooShort
  | BadHeader DecodeError | CorrelationMismatch i32 i32

text \<open>The flag says whether the request timeout is positive.\<close>

definition NewReplicaClient :: "bool \<Rightarrow> ReplicaClient" where
  "NewReplicaClient timeout =
     \<lparr>rc_clientID = gostr ''replica-fetcher'', rc_timeout = timeout, rc_conn = None, rc_shutdown = False, rc_nextCorrelationID = 0,
      rc_dialled = 0, rc_closed = []\<rparr>"

definition Client_Close :: "ReplicaClient \<Rightarrow> ReplicaClient" where
  "Client_Close c =
     (case rc_conn c of None \<Rightarrow> c | Some conn \<Rightarrow> c\<lparr>rc_conn := None, rc_closed := cc_id conn # rc_closed c\<rparr>)"

definition Client_Shutdown :: "ReplicaClient \<Rightarrow> ReplicaClient" where
  "Client_Shutdown c = Client_Close (c\<lparr>rc_shutdown := True\<rparr>)"

definition ensureConnected :: "Attempt \<Rightarrow> ReplicaClient \<Rightarrow> (ClientError + ClientConn) \<times> ReplicaClient" where
  "ensureConnected a c =
     (if rc_shutdown c then (Inl ClientShutDown, c)
      else case rc_conn c of
        Some conn \<Rightarrow> (Inr conn, c)
      | None \<Rightarrow>
          if at_dialFails a then (Inl DialFailed, c)
          else let conn = \<lparr>cc_id = rc_dialled c, cc_unread = []\<rparr>
            in (Inr conn, c\<lparr>rc_conn := Some conn, rc_dialled := Suc (rc_dialled c)\<rparr>))"

definition dropConnection :: "nat \<Rightarrow> ReplicaClient \<Rightarrow> ReplicaClient" where
  "dropConnection i c =
     (case rc_conn c of
        Some conn \<Rightarrow> if cc_id conn = i then c\<lparr>rc_conn := None, rc_closed := i # rc_closed c\<rparr> else c\<lparr>rc_closed := i # rc_closed c\<rparr>
      | None \<Rightarrow> c\<lparr>rc_closed := i # rc_closed c\<rparr>)"

text \<open>The body, the correlation id, and what is left unread.\<close>

definition readResponse :: "bytes \<Rightarrow> i16 \<Rightarrow> i16 \<Rightarrow> (ClientError + bytes \<times> i32 \<times> bytes) option" where
  "readResponse input apiKey apiVersion =
     (case ReadFull 4 input of
        None \<Rightarrow> Some (Inl ReadFailed)
      | Some (sizeBuf, input) \<Rightarrow>
          let size = (get32 sizeBuf :: u32) in
          if size = 0 \<or> unat size > maxReplicaResponseBytes then Some (Inl (InvalidSize size))
          else (case ReadFull (unat size) input of
              None \<Rightarrow> Some (Inl ReadFailed)
            | Some (msg, rest) \<Rightarrow>
                if length msg < 4 then Some (Inl TooShort)
                else (case ParseResponseHeader msg apiKey apiVersion of
                    None \<Rightarrow> None
                  | Some (Inl err) \<Rightarrow> Some (Inl (BadHeader err))
                  | Some (Inr (correlationID, body)) \<Rightarrow> Some (Inr (body, correlationID, rest)))))"

definition request_bytes :: "gostring \<Rightarrow> i16 \<Rightarrow> i16 \<Rightarrow> i32 \<Rightarrow> bytes \<Rightarrow> bytes" where
  "request_bytes clientID apiKey apiVersion correlationID body =
     (let header = Bytes (EncodeRequestHeader NewEncoder apiKey apiVersion correlationID (Some clientID));
          totalSize = length header + length body
      in be32 (word_of_nat totalSize) @ header @ body)"

text \<open>Waiting for the response once the request is written.\<close>

definition await_response ::
    "Attempt \<Rightarrow> ClientConn \<Rightarrow> i16 \<Rightarrow> i16 \<Rightarrow> i32 \<Rightarrow> ReplicaClient \<Rightarrow> ((ClientError + bytes) \<times> ReplicaClient) option" where
  "await_response a conn apiKey apiVersion correlationID c =
     (let c = (if at_shutdown a then Client_Shutdown c else c) in
      case readResponse (cc_unread conn @ at_arrives a) apiKey apiVersion of
        None \<Rightarrow> None
      | Some (Inl err) \<Rightarrow> Some (Inl err, dropConnection (cc_id conn) c)
      | Some (Inr (body, respCorrelationID, rest)) \<Rightarrow>
          if respCorrelationID \<noteq> correlationID
          then Some (Inl (CorrelationMismatch respCorrelationID correlationID), dropConnection (cc_id conn) c)
          else Some (Inr body, c\<lparr>rc_conn := map_option (\<lambda>k. if cc_id k = cc_id conn then k\<lparr>cc_unread := rest\<rparr> else k) (rc_conn c)\<rparr>))"

text \<open>The third component is what was written.\<close>

definition sendRequestOnce ::
    "Attempt \<Rightarrow> i16 \<Rightarrow> i16 \<Rightarrow> bytes \<Rightarrow> ReplicaClient \<Rightarrow> ((ClientError + bytes) \<times> ReplicaClient \<times> bytes) option" where
  "sendRequestOnce a apiKey apiVersion body c =
     (case ensureConnected a c of
        (Inl err, c) \<Rightarrow> Some (Inl err, c, [])
      | (Inr conn, c) \<Rightarrow>
          let correlationID = rc_nextCorrelationID c + 1;
              c = c\<lparr>rc_nextCorrelationID := correlationID\<rparr>;
              msg = request_bytes (rc_clientID c) apiKey apiVersion correlationID body
          in if rc_timeout c \<and> at_deadlineFails a then Some (Inl DeadlineFailed, dropConnection (cc_id conn) c, [])
          else (case at_write a of
              WriteFails n \<Rightarrow> Some (Inl WriteFailed, dropConnection (cc_id conn) c, take n msg)
            | WriteShort n \<Rightarrow>
                if min n (length msg) \<noteq> length msg then Some (Inl ShortWrite, dropConnection (cc_id conn) c, take n msg)
                else map_option (\<lambda>(r, c). (r, c, msg)) (await_response a conn apiKey apiVersion correlationID c)
            | WriteOk \<Rightarrow> map_option (\<lambda>(r, c). (r, c, msg)) (await_response a conn apiKey apiVersion correlationID c)))"

definition sendRequest ::
    "Attempt \<Rightarrow> Attempt \<Rightarrow> i16 \<Rightarrow> i16 \<Rightarrow> bytes \<Rightarrow> ReplicaClient \<Rightarrow> ((ClientError + bytes) \<times> ReplicaClient \<times> bytes list) option" where
  "sendRequest a1 a2 apiKey apiVersion body c =
     (case sendRequestOnce a1 apiKey apiVersion body c of
        None \<Rightarrow> None
      | Some (Inr respBody, c, sent) \<Rightarrow> Some (Inr respBody, c, [sent])
      | Some (Inl _, c, sent) \<Rightarrow>
          map_option (\<lambda>(r, c, again). (r, c, [sent, again])) (sendRequestOnce a2 apiKey apiVersion body (Client_Close c)))"

datatype CallError = Transport ClientError | Undecodable DecodeError

definition decoded :: "((ClientError + bytes) \<times> ReplicaClient \<times> bytes list) option \<Rightarrow> (bytes \<Rightarrow> (DecodeError + 'a) option) \<Rightarrow> ((CallError + 'a) \<times> ReplicaClient) option" where
  "decoded res decode =
     (case res of
        None \<Rightarrow> None
      | Some (Inl err, c, _) \<Rightarrow> Some (Inl (Transport err), c)
      | Some (Inr respBody, c, _) \<Rightarrow>
          map_option (\<lambda>x. (case x of Inl err \<Rightarrow> Inl (Undecodable err) | Inr resp \<Rightarrow> Inr resp, c)) (decode respBody))"

definition Client_Fetch :: "Attempt \<Rightarrow> Attempt \<Rightarrow> FetchRequest \<Rightarrow> i16 \<Rightarrow> ReplicaClient \<Rightarrow> ((CallError + FetchResponse) \<times> ReplicaClient) option" where
  "Client_Fetch a1 a2 req apiVersion c =
     decoded (sendRequest a1 a2 APIKeyFetch apiVersion (EncodeFetchRequest req apiVersion) c) (\<lambda>b. DecodeFetchResponse b apiVersion)"

definition Client_OffsetsForLeaderEpoch ::
    "Attempt \<Rightarrow> Attempt \<Rightarrow> OFLERequest \<Rightarrow> i16 \<Rightarrow> ReplicaClient \<Rightarrow> ((CallError + OFLEResponse) \<times> ReplicaClient) option" where
  "Client_OffsetsForLeaderEpoch a1 a2 req apiVersion c =
     decoded (sendRequest a1 a2 APIKeyOffsetsForLeaderEpoch apiVersion (EncodeOffsetsForLeaderEpochRequest req apiVersion) c)
       (\<lambda>b. DecodeOffsetsForLeaderEpochResponse b apiVersion)"

section \<open>Connections are not lost\<close>

text \<open>Every connection that was opened is the current one or has been closed.\<close>

definition client_inv :: "ReplicaClient \<Rightarrow> bool" where
  "client_inv c \<longleftrightarrow> (\<forall>i. i < rc_dialled c \<longleftrightarrow> i \<in> set (rc_closed c) \<or> (\<exists>k. rc_conn c = Some k \<and> cc_id k = i)) \<and>
     (\<forall>k. rc_conn c = Some k \<longrightarrow> cc_id k \<notin> set (rc_closed c) \<and> \<not> rc_shutdown c)"

lemma client_inv_new: "client_inv (NewReplicaClient timeout)"
  by (simp add: client_inv_def NewReplicaClient_def)

lemma client_inv_close: "client_inv c \<Longrightarrow> client_inv (Client_Close c) \<and> rc_conn (Client_Close c) = None"
  by (auto simp: client_inv_def Client_Close_def split: option.splits)

lemma client_inv_shutdown: "client_inv c \<Longrightarrow> client_inv (Client_Shutdown c) \<and> rc_conn (Client_Shutdown c) = None \<and> rc_shutdown (Client_Shutdown c)"
  by (auto simp: client_inv_def Client_Shutdown_def Client_Close_def split: option.splits)

lemma ensureConnected_inv:
  assumes "client_inv c" and "ensureConnected a c = (r, c')"
  shows "client_inv c' \<and> rc_nextCorrelationID c' = rc_nextCorrelationID c \<and> rc_clientID c' = rc_clientID c \<and>
    (case r of Inl _ \<Rightarrow> c' = c | Inr k \<Rightarrow> rc_conn c' = Some k \<and> (rc_conn c = None \<longrightarrow> cc_unread k = []))"
proof (cases "rc_conn c = None \<and> \<not> rc_shutdown c \<and> \<not> at_dialFails a")
  case True
  define k where "k = \<lparr>cc_id = rc_dialled c, cc_unread = []\<rparr>"
  have closed: "i < rc_dialled c \<longleftrightarrow> i \<in> set (rc_closed c)" for i using assms(1) True by (simp add: client_inv_def)
  then have "rc_dialled c \<notin> set (rc_closed c)" by blast
  then have "client_inv (c\<lparr>rc_conn := Some k, rc_dialled := Suc (rc_dialled c)\<rparr>)"
    using True by (auto simp: client_inv_def k_def less_Suc_eq closed)
  then show ?thesis using assms(2) True by (auto simp: ensureConnected_def k_def Let_def)
next
  case False
  then show ?thesis using assms by (cases "rc_conn c") (auto simp: ensureConnected_def split: if_splits)
qed

lemma dropConnection_inv:
  assumes "client_inv c" and "i < rc_dialled c"
  shows "client_inv (dropConnection i c) \<and> (\<forall>k. rc_conn (dropConnection i c) = Some k \<longrightarrow> cc_id k \<noteq> i)"
  using assms unfolding client_inv_def dropConnection_def by (auto split: option.splits)

lemma correlation_frame [simp]: "client_inv (c\<lparr>rc_nextCorrelationID := x\<rparr>) = client_inv c"
  by (simp add: client_inv_def)

text \<open>A failed attempt leaves no connection behind that it used.\<close>

lemma await_response_inv:
  assumes inv: "client_inv c" and k: "rc_conn c = Some conn" and A: "await_response a conn apiKey v cid c = Some (r, c')"
  shows "client_inv c' \<and> ((\<exists>e. r = Inl e) \<longrightarrow> rc_conn c' = None)"
proof -
  define d where "d = (if at_shutdown a then Client_Shutdown c else c)"
  have lt: "cc_id conn < rc_dialled c" using inv k by (auto simp: client_inv_def)
  have d: "client_inv d" "rc_dialled d = rc_dialled c" "rc_conn d = None \<or> rc_conn d = Some conn"
    using client_inv_shutdown [OF inv] inv k by (auto simp: d_def Client_Shutdown_def Client_Close_def)
  have dr: "client_inv (dropConnection (cc_id conn) d)" "rc_conn (dropConnection (cc_id conn) d) = None"
    using dropConnection_inv [OF d(1), of "cc_id conn"] lt d(2,3) by (auto simp: dropConnection_def)
  have keep: "client_inv (d\<lparr>rc_conn := map_option (\<lambda>k. if cc_id k = cc_id conn then k\<lparr>cc_unread := rest\<rparr> else k) (rc_conn d)\<rparr>)" for rest
    using d(1,3) by (auto simp: client_inv_def)
  show ?thesis using A dr keep unfolding await_response_def Let_def d_def [symmetric]
    by (auto split: option.splits sum.splits if_splits)
qed

lemma sendRequestOnce_inv:
  assumes inv: "client_inv c" and S: "sendRequestOnce a apiKey v body c = Some (r, c', sent)"
  shows "client_inv c' \<and> ((\<exists>e. r = Inl e) \<longrightarrow> rc_conn c' = None)"
proof -
  obtain x d where e: "ensureConnected a c = (x, d)" by fastforce
  note ei = ensureConnected_inv [OF inv e]
  show ?thesis
  proof (cases x)
    case (Inl err)
    then have "c' = c" using S e ei by (auto simp: sendRequestOnce_def)
    moreover have "rc_conn c = None" using e Inl inv by (auto simp: ensureConnected_def client_inv_def split: if_splits option.splits)
    ultimately show ?thesis using inv by simp
  next
    case (Inr conn)
    define q where "q = d\<lparr>rc_nextCorrelationID := rc_nextCorrelationID d + 1\<rparr>"
    have q: "client_inv q" "rc_conn q = Some conn" using ei Inr by (simp_all add: q_def)
    have lt: "cc_id conn < rc_dialled q" using q by (auto simp: client_inv_def)
    have dr: "client_inv (dropConnection (cc_id conn) q)" "rc_conn (dropConnection (cc_id conn) q) = None"
      using dropConnection_inv [OF q(1) lt] q(2) by (auto simp: dropConnection_def)
    show ?thesis using S e Inr dr await_response_inv [OF q] unfolding sendRequestOnce_def Let_def
      by (auto simp: q_def [symmetric] split: if_splits WriteOutcome.splits)
  qed
qed

lemma sendRequest_inv:
  assumes inv: "client_inv c" and S: "sendRequest a1 a2 apiKey v body c = Some (r, c', sent)"
  shows "client_inv c' \<and> ((\<exists>e. r = Inl e) \<longrightarrow> rc_conn c' = None)"
proof -
  obtain r1 c1 s1 where 1: "sendRequestOnce a1 apiKey v body c = Some (r1, c1, s1)" using S by (auto simp: sendRequest_def split: option.splits)
  note i1 = sendRequestOnce_inv [OF inv 1]
  show ?thesis
  proof (cases r1)
    case (Inl e)
    then obtain r2 c2 s2 where 2: "sendRequestOnce a2 apiKey v body (Client_Close c1) = Some (r2, c2, s2)" "r = r2" "c' = c2"
      using S 1 by (auto simp: sendRequest_def)
    then show ?thesis using sendRequestOnce_inv [OF conjunct1 [OF client_inv_close] 2(1)] i1 by blast
  next
    case (Inr b)
    then show ?thesis using S 1 i1 by (auto simp: sendRequest_def)
  qed
qed

section \<open>A call reaches the server and its answer comes back\<close>

text \<open>The header of the next request, and what a client that is connected or can connect sends.\<close>

definition next_header :: "ReplicaClient \<Rightarrow> i16 \<Rightarrow> i16 \<Rightarrow> RequestHeader" where
  "next_header c apiKey apiVersion =
     \<lparr>rh_APIKey = apiKey, rh_APIVersion = apiVersion, rh_CorrelationID = rc_nextCorrelationID c + 1, rh_ClientID = Some (rc_clientID c)\<rparr>"

lemma request_bytes_frame:
  "request_bytes (rc_clientID c) apiKey v (rc_nextCorrelationID c + 1) body = request_frame (next_header c apiKey v, body)"
  by (simp add: request_bytes_def request_frame_def request_message_def next_header_def Bytes_def put_bytes NewEncoder_def Let_def)

lemma readResponse_frame:
  assumes "5 + length data \<le> maxReplicaResponseBytes"
  shows "readResponse (response_frame h data @ rest) (rh_APIKey h) (rh_APIVersion h) = Some (Inr (data, rh_CorrelationID h, rest))"
proof -
  define m where "m = response_header_bytes (rh_CorrelationID h) (rh_APIKey h) (rh_APIVersion h) @ data"
  have l: "4 \<le> length m" "length m \<le> 5 + length data"
    by (simp_all add: m_def response_header_bytes_def bytes_if_def put_uvarint.simps)
  have "fits m" using l(2) assms by (simp add: fits_def maxReplicaResponseBytes_def)
  then have p: "ParseResponseHeader m (rh_APIKey h) (rh_APIVersion h) = Some (Inr (rh_CorrelationID h, data))"
    unfolding m_def by (rule ParseResponseHeader_bytes)
  have u: "unat (word_of_nat (length m) :: u32) = length m"
    using l(2) assms by (simp add: maxReplicaResponseBytes_def unat_of_nat take_bit_nat_eq_self)
  then have nz: "(word_of_nat (length m) :: u32) \<noteq> 0" using l(1) by (metis le_zero_eq unat_0 zero_neq_numeral)
  have "response_frame h data = be32 (word_of_nat (length m)) @ m" by (simp add: response_frame_def m_def Let_def)
  then show ?thesis using l assms u nz p by (simp add: readResponse_def ReadFull_def Let_def)
qed

text \<open>A network that loses nothing.\<close>

definition clean_attempt :: "Attempt \<Rightarrow> bool" where
  "clean_attempt a \<longleftrightarrow> \<not> at_dialFails a \<and> \<not> at_deadlineFails a \<and> at_write a = WriteOk \<and> \<not> at_shutdown a"

definition idle_client :: "ReplicaClient \<Rightarrow> bool" where
  "idle_client c \<longleftrightarrow> \<not> rc_shutdown c \<and> (\<forall>k. rc_conn c = Some k \<longrightarrow> cc_unread k = [])"

lemma sendRequestOnce_clean:
  assumes q: "idle_client c" and cl: "clean_attempt a" and arr: "at_arrives a = response_frame (next_header c apiKey v) data"
    and len: "5 + length data \<le> maxReplicaResponseBytes"
  shows "\<exists>c'. sendRequestOnce a apiKey v body c = Some (Inr data, c', request_frame (next_header c apiKey v, body)) \<and>
    idle_client c' \<and> rc_nextCorrelationID c' = rc_nextCorrelationID c + 1"
proof -
  obtain k d where e: "ensureConnected a c = (Inr k, d)" and k: "cc_unread k = []" "rc_conn d = Some k" "\<not> rc_shutdown d"
      "rc_nextCorrelationID d = rc_nextCorrelationID c" "rc_clientID d = rc_clientID c"
    using q cl by (cases "rc_conn c") (auto simp: ensureConnected_def idle_client_def clean_attempt_def Let_def)
  have r: "readResponse (at_arrives a) apiKey v = Some (Inr (data, rc_nextCorrelationID c + 1, []))"
    using readResponse_frame [OF len, of "next_header c apiKey v" "[]"] arr by (simp add: next_header_def)
  have f: "request_bytes (rc_clientID d) apiKey v (rc_nextCorrelationID d + 1) body = request_frame (next_header c apiKey v, body)"
    using request_bytes_frame [of c] k by simp
  show ?thesis using e k r f cl by (simp add: sendRequestOnce_def await_response_def clean_attempt_def idle_client_def Let_def)
qed

text \<open>What a call returns was sent in answer to its own request: an answer to another request is refused.\<close>

lemma sendRequestOnce_own:
  assumes "sendRequestOnce a apiKey v body c = Some (Inr data, c', sent)"
  shows "sent = request_frame (next_header c apiKey v, body) \<and>
    (\<exists>k rest. fst (ensureConnected a c) = Inr k \<and> readResponse (cc_unread k @ at_arrives a) apiKey v = Some (Inr (data, rc_nextCorrelationID c + 1, rest))) \<and>
    rc_nextCorrelationID c' = rc_nextCorrelationID c + 1"
proof -
  obtain k d where e: "ensureConnected a c = (Inr k, d)"
    using assms by (cases "ensureConnected a c"; cases "fst (ensureConnected a c)") (auto simp: sendRequestOnce_def)
  have d: "rc_nextCorrelationID d = rc_nextCorrelationID c" "rc_clientID d = rc_clientID c"
    using e by (auto simp: ensureConnected_def Let_def split: if_splits option.splits)
  have f: "request_bytes (rc_clientID d) apiKey v (rc_nextCorrelationID d + 1) body = request_frame (next_header c apiKey v, body)"
    using request_bytes_frame [of c] d by simp
  show ?thesis using assms e d f
    by (auto simp: sendRequestOnce_def await_response_def Let_def Client_Shutdown_def Client_Close_def
        split: if_splits WriteOutcome.splits option.splits sum.splits)
qed

lemma sendRequestOnce_clientID:
  assumes "sendRequestOnce a apiKey v body c = Some (r, c', sent)"
  shows "rc_clientID c' = rc_clientID c"
proof -
  have e: "rc_clientID d = rc_clientID c" if "ensureConnected a c = (x, d)" for x d
    using that by (auto simp: ensureConnected_def Let_def split: if_splits option.splits)
  have dr: "rc_clientID (dropConnection i d) = rc_clientID d" for i d by (simp add: dropConnection_def split: option.split)
  have sh: "rc_clientID (Client_Shutdown d) = rc_clientID d" for d by (simp add: Client_Shutdown_def Client_Close_def split: option.split)
  show ?thesis using assms e
    by (auto simp: sendRequestOnce_def await_response_def Let_def dr sh split: prod.splits if_splits WriteOutcome.splits option.splits sum.splits)
qed

text \<open>One request over a whole connection: the server's answer to what the client sends is what the client returns.\<close>

lemma serve_one:
  assumes r: "request_ok n (h, body)" and hd: "handle h body s = Some (Inr (Some resp), s')" and ok: "resp_ok resp"
    and len: "5 + int (length (resp_data resp)) \<le> 2 ^ 32 - 1" and sm: "smooth c"
  shows "serve n handle None (request_frame (h, body)) c s = Some (c\<lparr>cn_out := cn_out c @ response_frame h (resp_data resp)\<rparr>, s')"
proof -
  let ?c = "c\<lparr>cn_out := cn_out c @ response_frame h (resp_data resp)\<rparr>"
  have rd: "readMessage n (request_frame (h, body)) = Some (request_message (h, body), [])"
    using readMessage_frame [OF r, of "[]"] by simp
  have "serve n handle None (request_frame (h, body)) c s = serve n handle None [] ?c s'"
    using rd Parse_message [OF r] hd writeResponse_smooth [OF sm ok len] by (subst serve.simps) simp
  also have "\<dots> = Some (?c, s')" by (subst serve.simps) (simp add: readMessage_def ReadFull_def)
  finally show ?thesis .
qed

end
