(* ===== verification/FetchManager.thy ===== *)
theory FetchManager
  imports ReplicaClient Handler
begin

text \<open>
  \<open>internal/broker/fetch_manager.go\<close>: the replication workers of a follower.  The manager keeps one worker for
  each leader; a worker first reconciles the logs of its partitions with the leader's and then fetches.

  A partition pointer is the slot of the topic manager it was read from: a slot, once filled, keeps its
  partition, since nothing in the broker deletes a topic.  The calls to the leader are arguments of the
  operations, functions of the client and of what is behind the network.  A goroutine that runs is a
  flag; what the other goroutines do while a worker waits is an argument.
\<close>

section \<open>Reconciling a partition\<close>

type_synonym 'n EpochCall = "OFLERequest \<Rightarrow> ReplicaClient \<times> 'n \<Rightarrow> ((CallError + OFLEResponse) \<times> ReplicaClient \<times> 'n) option"
type_synonym 'n FetchCall = "FetchRequest \<Rightarrow> ReplicaClient \<times> 'n \<Rightarrow> ((CallError + FetchResponse) \<times> ReplicaClient \<times> 'n) option"
type_synonym topicPartitionKey = "gostring \<times> i32"

datatype ReconcileError =
    CallFailed CallError | IncompleteResponse | ResponseCode i16 | UndefinedEpoch | TruncateFailed u64 PartitionError | NotConverged

definition epoch_request :: "i32 \<Rightarrow> topicPartitionKey \<Rightarrow> i32 \<Rightarrow> i32 \<Rightarrow> OFLERequest" where
  "epoch_request localBrokerID key currentLeaderEpoch followerEpoch =
     \<lparr>or_ReplicaID = localBrokerID,
      or_Topics = [\<lparr>ort_Name = fst key, ort_Partitions =
        [\<lparr>orp_Index = snd key, orp_CurrentLeaderEpoch = currentLeaderEpoch, orp_LeaderEpoch = followerEpoch\<rparr>]\<rparr>]\<rparr>"

text \<open>The checks on a response, and the answer for the one partition.\<close>

definition epoch_answer :: "OFLEResponse \<Rightarrow> ReconcileError + OFLEResponsePartition" where
  "epoch_answer resp =
     (if length (os_Topics resp) \<noteq> 1 \<or> length (ost_Partitions (hd (os_Topics resp))) \<noteq> 1 then Inl IncompleteResponse
      else let rp = hd (ost_Partitions (hd (os_Topics resp))) in
        if osp_ErrorCode rp \<noteq> 0 then Inl (ResponseCode (osp_ErrorCode rp))
        else if sint (osp_LeaderEpoch rp) < 0 \<or> sint (osp_EndOffset rp) < 0 then Inl UndefinedEpoch
        else Inr rp)"

text \<open>Where an answer makes the follower cut its log.\<close>

definition truncation_offset :: "OFLEResponsePartition \<Rightarrow> EpochEndOffset option \<Rightarrow> u64 \<Rightarrow> u64" where
  "truncation_offset rp localEnd leo =
     (let t = osp_EndOffset rp;
          t = (case localEnd of Some e \<Rightarrow> if eo_EndOffset e < t then eo_EndOffset e else t | None \<Rightarrow> t)
      in if leo < t then leo else t)"

text \<open>The loop with \<open>n\<close> attempts left; \<open>io n\<close> are the file system results of that attempt.\<close>

fun reconcile_loop ::
    "(nat \<Rightarrow> LogIO) \<Rightarrow> 'n EpochCall \<Rightarrow> (i32 \<Rightarrow> OFLERequest) \<Rightarrow> nat \<Rightarrow> i32 \<Rightarrow> Partition \<Rightarrow> ReplicaClient \<times> 'n \<Rightarrow>
     ((ReconcileError + unit) \<times> Partition \<times> ReplicaClient \<times> 'n) option" where
  "reconcile_loop io ask request 0 followerEpoch p s = Some (Inl NotConverged, p, s)"
| "reconcile_loop io ask request (Suc n) followerEpoch p s =
     (case ask (request followerEpoch) s of
        None \<Rightarrow> None
      | Some (Inl err, s) \<Rightarrow> Some (Inl (CallFailed err), p, s)
      | Some (Inr resp, s) \<Rightarrow>
          (case epoch_answer resp of
             Inl err \<Rightarrow> Some (Inl err, p, s)
           | Inr rp \<Rightarrow>
               (case EndOffsetForLeaderEpoch (pt_log p) (osp_LeaderEpoch rp) of
                  None \<Rightarrow> None
                | Some localEnd \<Rightarrow>
                    let truncationOffset = truncation_offset rp localEnd (LEO p) in
                    (case (if truncationOffset < LEO p then Partition_TruncateTo (io n) truncationOffset p else Some (Inr (), p)) of
                       None \<Rightarrow> None
                     | Some (Inl err, p) \<Rightarrow> Some (Inl (TruncateFailed truncationOffset err), p, s)
                     | Some (Inr _, p) \<Rightarrow>
                         (case localEnd of
                            None \<Rightarrow> Some (Inr (), p, s)
                          | Some e \<Rightarrow>
                              if eo_Epoch e = osp_LeaderEpoch rp then Some (Inr (), p, s)
                              else reconcile_loop io ask request n (eo_Epoch e) p s)))))"

definition reconcilePartition ::
    "(nat \<Rightarrow> LogIO) \<Rightarrow> 'n EpochCall \<Rightarrow> i32 \<Rightarrow> topicPartitionKey \<Rightarrow> i32 \<Rightarrow> Partition \<Rightarrow> ReplicaClient \<times> 'n \<Rightarrow>
     ((ReconcileError + unit) \<times> Partition \<times> ReplicaClient \<times> 'n) option" where
  "reconcilePartition io ask localBrokerID key currentLeaderEpoch p s =
     (case LatestLeaderEpoch (pt_log p) of
        None \<Rightarrow> Some (Inr (), p, s)
      | Some followerEpoch \<Rightarrow> reconcile_loop io ask (epoch_request localBrokerID key currentLeaderEpoch) 32 followerEpoch p s)"

section \<open>Workers\<close>

record assignedPartition =
  ap_partition :: topicPartitionKey
  ap_leaderEpoch :: i32

record leaderFetchWorker =
  fw_localBrokerID :: i32
  fw_leaderBrokerID :: i32
  fw_addr :: gostring
  fw_client :: ReplicaClient
  fw_partitions :: "(topicPartitionKey \<times> assignedPartition) list"
  fw_reconciled :: "(topicPartitionKey \<times> i32) list"
  fw_running :: bool
  fw_stopped :: bool

definition newLeaderFetchWorker :: "i32 \<Rightarrow> i32 \<Rightarrow> gostring \<Rightarrow> leaderFetchWorker" where
  "newLeaderFetchWorker localBrokerID leaderBrokerID addr =
     \<lparr>fw_localBrokerID = localBrokerID, fw_leaderBrokerID = leaderBrokerID, fw_addr = addr, fw_client = NewReplicaClient True,
      fw_partitions = [], fw_reconciled = [], fw_running = False, fw_stopped = False\<rparr>"

definition setPartitions :: "(topicPartitionKey \<times> assignedPartition) list \<Rightarrow> leaderFetchWorker \<Rightarrow> leaderFetchWorker" where
  "setPartitions parts w =
     w\<lparr>fw_partitions := parts,
       fw_reconciled := List.map_filter (\<lambda>(key, assignment).
         (case map_of (fw_reconciled w) key of
            Some epoch \<Rightarrow> if epoch = ap_leaderEpoch assignment then Some (key, epoch) else None
          | None \<Rightarrow> None)) parts\<rparr>"

definition worker_start :: "leaderFetchWorker \<Rightarrow> leaderFetchWorker" where
  "worker_start w = w\<lparr>fw_running := True\<rparr>"

text \<open>Closing the stop channel twice is a panic.\<close>

definition worker_stop :: "leaderFetchWorker \<Rightarrow> leaderFetchWorker option" where
  "worker_stop w = (if fw_stopped w then None
     else Some (w\<lparr>fw_stopped := True, fw_running := False, fw_client := Client_Shutdown (fw_client w)\<rparr>))"

section \<open>One round of a worker\<close>

record requestState =
  rs_partition :: topicPartitionKey
  rs_fetchOffset :: u64
  rs_leaderEpoch :: i32

record 'n FetchEnv =
  ve_reconcileIO :: "topicPartitionKey \<Rightarrow> nat \<Rightarrow> LogIO"
  ve_appendIO :: "nat \<Rightarrow> LogIO"
  ve_ask :: "'n EpochCall"
  ve_fetch :: "'n FetchCall"
  ve_others :: "nat \<Rightarrow> leaderFetchWorker \<times> TopicManager \<Rightarrow> leaderFetchWorker \<times> TopicManager"

definition is_reconciled :: "leaderFetchWorker \<Rightarrow> topicPartitionKey \<Rightarrow> assignedPartition \<Rightarrow> bool" where
  "is_reconciled w key assignment \<longleftrightarrow> map_of (fw_reconciled w) key = Some (ap_leaderEpoch assignment)"

text \<open>The partition a pointer leads to.\<close>

definition deref :: "TopicManager \<Rightarrow> topicPartitionKey \<Rightarrow> Partition option" where
  "deref tm ref = (case TM_GetPartition tm (fst ref) (snd ref) of Inl _ \<Rightarrow> None | Inr p \<Rightarrow> Some p)"

definition mark_reconciled :: "topicPartitionKey \<Rightarrow> assignedPartition \<Rightarrow> leaderFetchWorker \<Rightarrow> leaderFetchWorker" where
  "mark_reconciled key assignment w =
     (case map_of (fw_partitions w) key of
        Some current \<Rightarrow>
          if ap_partition current = ap_partition assignment \<and> ap_leaderEpoch current = ap_leaderEpoch assignment
          then w\<lparr>fw_reconciled := AList.update key (ap_leaderEpoch assignment) (fw_reconciled w)\<rparr> else w
      | None \<Rightarrow> w)"

fun reconcile_each ::
    "'n FetchEnv \<Rightarrow> nat \<Rightarrow> (topicPartitionKey \<times> assignedPartition) list \<Rightarrow> leaderFetchWorker \<times> TopicManager \<times> 'n \<Rightarrow>
     (leaderFetchWorker \<times> TopicManager \<times> 'n) option" where
  "reconcile_each env k [] s = Some s"
| "reconcile_each env k ((key, assignment) # rest) (w, tm, n) =
     (case deref tm (ap_partition assignment) of
        None \<Rightarrow> None
      | Some p \<Rightarrow>
          (case reconcilePartition (ve_reconcileIO env key) (ve_ask env) (fw_localBrokerID w) key (ap_leaderEpoch assignment) p (fw_client w, n) of
             None \<Rightarrow> None
           | Some (r, p, client, n) \<Rightarrow>
               let tm = put_partition (fst (ap_partition assignment)) (snd (ap_partition assignment)) p tm;
                   (w, tm) = ve_others env k (w\<lparr>fw_client := client\<rparr>, tm)
               in (case r of
                     Inl _ \<Rightarrow> reconcile_each env (Suc k) rest (w, tm, n)
                   | Inr _ \<Rightarrow> reconcile_each env (Suc k) rest (mark_reconciled key assignment w, tm, n))))"

fun request_states ::
    "TopicManager \<Rightarrow> (topicPartitionKey \<times> assignedPartition) list \<Rightarrow>
     ((topicPartitionKey \<times> requestState) list \<times> (gostring \<times> FetchRequestPartition list) list) \<Rightarrow>
     ((topicPartitionKey \<times> requestState) list \<times> (gostring \<times> FetchRequestPartition list) list) option" where
  "request_states tm [] acc = Some acc"
| "request_states tm ((key, assignment) # rest) (requestStates, byTopic) =
     (case deref tm (ap_partition assignment) of
        None \<Rightarrow> None
      | Some p \<Rightarrow>
          let fetchOffset = LEO p in
          request_states tm rest
            (AList.update key \<lparr>rs_partition = ap_partition assignment, rs_fetchOffset = fetchOffset, rs_leaderEpoch = ap_leaderEpoch assignment\<rparr> requestStates,
             AList.update (fst key) ((case map_of byTopic (fst key) of None \<Rightarrow> [] | Some ps \<Rightarrow> ps) @
               [\<lparr>frp_Index = snd key, frp_CurrentLeaderEpoch = ap_leaderEpoch assignment, frp_FetchOffset = fetchOffset,
                 frp_LogStartOffset = OldestOffset (pt_log p), frp_MaxBytes = push_bit 20 1\<rparr>]) byTopic))"

definition replica_request :: "i32 \<Rightarrow> (gostring \<times> FetchRequestPartition list) list \<Rightarrow> FetchRequest" where
  "replica_request localBrokerID byTopic =
     \<lparr>fr_ReplicaID = localBrokerID, fr_MaxWaitMs = 500, fr_MinBytes = 1, fr_MaxBytes = push_bit 20 4, fr_IsolationLevel = 0,
      fr_SessionID = 0, fr_SessionEpoch = 0,
      fr_Topics = map (\<lambda>(topic, parts). \<lparr>frt_Name = topic, frt_Partitions = parts\<rparr>) byTopic,
      fr_ForgottenTopics = [], fr_RackID = []\<rparr>"

text \<open>One partition of the response.  The counter numbers the appends.\<close>

definition apply_partition ::
    "'n FetchEnv \<Rightarrow> (topicPartitionKey \<times> requestState) list \<Rightarrow> leaderFetchWorker \<Rightarrow> gostring \<Rightarrow> FetchResponsePartition \<Rightarrow>
     TopicManager \<times> nat \<Rightarrow> (TopicManager \<times> nat) option" where
  "apply_partition env requestStates w topic fp = (\<lambda>(tm, k).
     (let key = (topic, fsp_Index fp) in
      case (map_of requestStates key, map_of (fw_partitions w) key) of
        (Some state, Some current) \<Rightarrow>
          (case deref tm (rs_partition state) of
             None \<Rightarrow> None
           | Some p \<Rightarrow>
               if ap_partition current \<noteq> rs_partition state \<or> ap_leaderEpoch current \<noteq> rs_leaderEpoch state \<or>
                  LeaderEpoch p \<noteq> rs_leaderEpoch state \<or> LEO p \<noteq> rs_fetchOffset state
               then Some (tm, k)
               else if fsp_ErrorCode fp \<noteq> 0 then Some (tm, k)
               else if sint (fsp_HighWatermark fp) < 0 then Some (tm, k)
               else (case AppendFromLeader (ve_appendIO env k) (case fsp_Records fp of None \<Rightarrow> [] | Some d \<Rightarrow> d)
                          (rs_leaderEpoch state) (fsp_HighWatermark fp) p of
                   None \<Rightarrow> None
                 | Some (_, p) \<Rightarrow> Some (put_partition (fst (rs_partition state)) (snd (rs_partition state)) p tm, Suc k)))
      | _ \<Rightarrow> Some (tm, k)))"

fun apply_all :: "('p \<Rightarrow> 's \<Rightarrow> 's option) \<Rightarrow> 'p list \<Rightarrow> 's \<Rightarrow> 's option" where
  "apply_all f [] s = Some s"
| "apply_all f (x # xs) s = (case f x s of None \<Rightarrow> None | Some s \<Rightarrow> apply_all f xs s)"

definition apply_response ::
    "'n FetchEnv \<Rightarrow> (topicPartitionKey \<times> requestState) list \<Rightarrow> FetchResponse \<Rightarrow> leaderFetchWorker \<Rightarrow> TopicManager \<Rightarrow> TopicManager option" where
  "apply_response env requestStates resp w tm =
     map_option fst (apply_all (\<lambda>t. apply_all (apply_partition env requestStates w (fst_Name t)) (fst_Partitions t)) (fs_Topics resp) (tm, 0))"

text \<open>The others run while the partitions are reconciled (turns \<open>0\<close>, \<open>1\<close>, ...) and while the request is under
  way.\<close>

definition fetchOnce ::
    "'n FetchEnv \<Rightarrow> leaderFetchWorker \<times> TopicManager \<times> 'n \<Rightarrow> (leaderFetchWorker \<times> TopicManager \<times> 'n) option" where
  "fetchOnce env = (\<lambda>(w, tm, n).
     (if fw_partitions w = [] then Some (w, tm, n)
      else let toReconcile = filter (\<lambda>(key, assignment). \<not> is_reconciled w key assignment) (fw_partitions w) in
        case reconcile_each env 0 toReconcile (w, tm, n) of
          None \<Rightarrow> None
        | Some (w, tm, n) \<Rightarrow>
            (case request_states tm (filter (\<lambda>(key, assignment). is_reconciled w key assignment) (fw_partitions w)) ([], []) of
               None \<Rightarrow> None
             | Some (requestStates, byTopic) \<Rightarrow>
                 if requestStates = [] then Some (w, tm, n)
                 else (case ve_fetch env (replica_request (fw_localBrokerID w) byTopic) (fw_client w, n) of
                     None \<Rightarrow> None
                   | Some (Inl _, client, n) \<Rightarrow> Some (w\<lparr>fw_client := client\<rparr>, tm, n)
                   | Some (Inr resp, client, n) \<Rightarrow>
                       if fs_ErrorCode resp \<noteq> 0 then Some (w\<lparr>fw_client := client\<rparr>, tm, n)
                       else let (w, tm) = ve_others env (length toReconcile) (w\<lparr>fw_client := client\<rparr>, tm)
                         in map_option (\<lambda>tm. (w, tm, n)) (apply_response env requestStates resp w tm)))))"

section \<open>The manager\<close>

record FetchManager =
  fm_brokerID :: i32
  fm_workers :: "(i32 \<times> leaderFetchWorker) list"
  fm_started :: bool
  fm_stopped :: bool
  fm_retired :: "leaderFetchWorker list"

datatype ManagerError = ManagerStopped | ReconcileFailed TopicError

definition NewFetchManager :: "i32 \<Rightarrow> FetchManager" where
  "NewFetchManager brokerID = \<lparr>fm_brokerID = brokerID, fm_workers = [], fm_started = False, fm_stopped = False, fm_retired = []\<rparr>"

definition retire :: "i32 \<Rightarrow> leaderFetchWorker \<Rightarrow> FetchManager \<Rightarrow> FetchManager option" where
  "retire leaderID w fm =
     map_option (\<lambda>w. fm\<lparr>fm_workers := AList.delete leaderID (fm_workers fm), fm_retired := w # fm_retired fm\<rparr>) (worker_stop w)"

fun by_leader :: "i32 \<Rightarrow> PartitionMetadata list \<Rightarrow> (i32 \<times> PartitionMetadata list) list \<Rightarrow> (i32 \<times> PartitionMetadata list) list" where
  "by_leader brokerID [] m = m"
| "by_leader brokerID (pm # pms) m =
     (if pm_LeaderBrokerID pm = brokerID then by_leader brokerID pms m
      else by_leader brokerID pms
        (AList.update (pm_LeaderBrokerID pm) ((case map_of m (pm_LeaderBrokerID pm) of None \<Rightarrow> [] | Some ps \<Rightarrow> ps) @ [pm]) m))"

fun resolvePartitions :: "TopicManager \<Rightarrow> PartitionMetadata list \<Rightarrow> (topicPartitionKey \<times> assignedPartition) list \<Rightarrow> (topicPartitionKey \<times> assignedPartition) list" where
  "resolvePartitions tm [] out = out"
| "resolvePartitions tm (pm # pms) out =
     (case TM_GetPartition tm (pm_Topic pm) (pm_Partition pm) of
        Inl _ \<Rightarrow> resolvePartitions tm pms out
      | Inr _ \<Rightarrow> resolvePartitions tm pms
          (AList.update (pm_Topic pm, pm_Partition pm) \<lparr>ap_partition = (pm_Topic pm, pm_Partition pm), ap_leaderEpoch = pm_LeaderEpoch pm\<rparr> out))"

text \<open>\<open>net.JoinHostPort\<close>: a host with a colon is put in brackets.\<close>

definition JoinHostPort :: "gostring \<Rightarrow> gostring \<Rightarrow> gostring" where
  "JoinHostPort host port =
     (if 0x3A \<in> set host then gostr ''['' @ host @ gostr '']:'' @ port else host @ gostr '':'' @ port)"

text \<open>The first loop: workers whose leader leads nothing for this broker.\<close>

fun retire_unneeded :: "(i32 \<times> PartitionMetadata list) list \<Rightarrow> (i32 \<times> leaderFetchWorker) list \<Rightarrow> FetchManager \<Rightarrow> FetchManager option" where
  "retire_unneeded byLeader [] fm = Some fm"
| "retire_unneeded byLeader ((leaderID, w) # ws) fm =
     (if map_of byLeader leaderID = None
      then (case retire leaderID w fm of None \<Rightarrow> None | Some fm \<Rightarrow> retire_unneeded byLeader ws fm)
      else retire_unneeded byLeader ws fm)"

text \<open>The address of a leader that can be fetched from.\<close>

definition leader_addr :: "controllerState \<Rightarrow> i32 \<Rightarrow> gostring option" where
  "leader_addr ctrl leaderID =
     (case GetBroker ctrl leaderID of
        None \<Rightarrow> None
      | Some leaderInfo \<Rightarrow>
          (case plaintextEndpoint (bi_Endpoints leaderInfo) of
             None \<Rightarrow> None
           | Some ep \<Rightarrow> if bi_Fenced leaderInfo then None else Some (JoinHostPort (ep_Host ep) (fmt_d (uint (ep_Port ep))))))"

definition assign_worker :: "controllerState \<Rightarrow> TopicManager \<Rightarrow> i32 \<times> PartitionMetadata list \<Rightarrow> FetchManager \<Rightarrow> FetchManager option" where
  "assign_worker ctrl tm = (\<lambda>(leaderID, parts) fm.
     (case leader_addr ctrl leaderID of
        None \<Rightarrow>
          (case map_of (fm_workers fm) leaderID of
             Some w \<Rightarrow> retire leaderID w fm
           | None \<Rightarrow> Some fm)
      | Some addr \<Rightarrow>
          let keep = (\<lambda>w fm. fm\<lparr>fm_workers := AList.update leaderID (setPartitions (resolvePartitions tm parts []) w) (fm_workers fm)\<rparr>);
              fresh = keep (worker_start (newLeaderFetchWorker (fm_brokerID fm) leaderID addr))
          in (case map_of (fm_workers fm) leaderID of
                Some w \<Rightarrow>
                  if fw_addr w \<noteq> addr then map_option fresh (retire leaderID w fm)
                  else Some (keep w fm)
              | None \<Rightarrow> Some (fresh fm))))"

definition Reassign :: "controllerState \<Rightarrow> TopicManager \<Rightarrow> FetchManager \<Rightarrow> ((ManagerError + unit) \<times> FetchManager) option" where
  "Reassign ctrl tm fm =
     (let byLeader = by_leader (fm_brokerID fm) (PartitionsForBroker ctrl (fm_brokerID fm)) [] in
      if fm_stopped fm then Some (Inl ManagerStopped, fm)
      else case retire_unneeded byLeader (fm_workers fm) fm of
        None \<Rightarrow> None
      | Some fm \<Rightarrow> map_option (Pair (Inr ())) (apply_all (assign_worker ctrl tm) byLeader fm))"

text \<open>The controller is read twice: \<open>ctrl\<close> is what \<open>Reconcile\<close> sees, \<open>ctrl'\<close> what \<open>Reassign\<close> sees.\<close>

definition refresh ::
    "TopicEnv \<Rightarrow> controllerState \<Rightarrow> controllerState \<Rightarrow> FetchManager \<Rightarrow> TopicManager \<Rightarrow>
     ((ManagerError + unit) \<times> FetchManager \<times> TopicManager) option" where
  "refresh env ctrl ctrl' fm tm =
     (case Reconcile env (PartitionsForBroker ctrl (fm_brokerID fm)) (fm_brokerID fm) tm of
        None \<Rightarrow> None
      | Some (Inl err, tm) \<Rightarrow> Some (Inl (ReconcileFailed err), fm, tm)
      | Some (Inr _, tm) \<Rightarrow> map_option (\<lambda>(r, fm). (r, fm, tm)) (Reassign ctrl' tm fm))"

definition FM_Start ::
    "TopicEnv \<Rightarrow> controllerState \<Rightarrow> controllerState \<Rightarrow> FetchManager \<Rightarrow> TopicManager \<Rightarrow>
     ((ManagerError + unit) \<times> FetchManager \<times> TopicManager) option" where
  "FM_Start env ctrl ctrl' fm tm =
     (case refresh env ctrl ctrl' fm tm of
        None \<Rightarrow> None
      | Some (Inl err, fm, tm) \<Rightarrow> Some (Inl err, fm, tm)
      | Some (Inr _, fm, tm) \<Rightarrow>
          if fm_stopped fm then Some (Inl ManagerStopped, fm, tm)
          else if fm_started fm then Some (Inr (), fm, tm)
          else Some (Inr (), fm\<lparr>fm_started := True\<rparr>, tm))"

definition FM_Stop :: "FetchManager \<Rightarrow> FetchManager option" where
  "FM_Stop fm =
     (if fm_stopped fm then Some fm
      else let workers = fm_workers fm; fm = fm\<lparr>fm_stopped := True, fm_workers := []\<rparr>
        in apply_all (\<lambda>(_, w) fm. map_option (\<lambda>w. fm\<lparr>fm_retired := w # fm_retired fm\<rparr>) (worker_stop w)) workers fm)"

end
