(* ===== verification/Divergence.thy ===== *)
theory Divergence
  imports EpochCache
begin

text \<open>
  Two epoch histories that part: what asking the leader for the end of an epoch and looking the answer up
  locally finds out.  \<open>K\<close> is the common beginning, \<open>A\<close> the rest of the follower's history and \<open>B\<close> the
  rest of the leader's; \<open>nF\<close> and \<open>nL\<close> are the ends of the two logs.
\<close>

section \<open>The end of an epoch\<close>

definition next_start :: "EpochEntry list \<Rightarrow> u64 \<Rightarrow> u64" where
  "next_start es n = (case es of [] \<Rightarrow> n | e # _ \<Rightarrow> ee_StartOffset e)"

lemma epochs_around:
  assumes "epochs_ok (xs @ ys)"
  shows "x \<in> set xs \<Longrightarrow> y \<in> set ys \<Longrightarrow> sint (ee_Epoch x) < sint (ee_Epoch y) \<and> ee_StartOffset x < ee_StartOffset y"
  using assms by (auto simp: epochs_ok_append entry_lt_def)

lemma epochs_pos: "epochs_ok es \<Longrightarrow> e \<in> set es \<Longrightarrow> 0 \<le> sint (ee_Epoch e)"
  by (simp add: epochs_ok_def list_all_iff)

lemma epochs_ok_part: "epochs_ok (xs @ ys) \<Longrightarrow> epochs_ok xs" "epochs_ok (xs @ ys) \<Longrightarrow> epochs_ok ys"
  by (simp_all add: epochs_ok_append)

lemma split_filters:
  assumes "\<forall>x\<in>set xs. sint (ee_Epoch x) \<le> sint r" and "\<forall>y\<in>set ys. sint r < sint (ee_Epoch y)"
  shows "filter (\<lambda>e. sint (ee_Epoch e) \<le> sint r) (xs @ ys) = xs" "filter (\<lambda>e. sint r < sint (ee_Epoch e)) (xs @ ys) = ys"
proof -
  have "filter (\<lambda>e. sint (ee_Epoch e) \<le> sint r) ys = []" "filter (\<lambda>e. sint r < sint (ee_Epoch e)) xs = []"
    using assms by (auto simp: filter_empty_conv not_le)
  then show "filter (\<lambda>e. sint (ee_Epoch e) \<le> sint r) (xs @ ys) = xs" "filter (\<lambda>e. sint r < sint (ee_Epoch e)) (xs @ ys) = ys"
    using assms by simp_all
qed

lemma end_split:
  assumes "\<forall>x\<in>set xs. sint (ee_Epoch x) \<le> sint r" and "\<forall>y\<in>set ys. sint r < sint (ee_Epoch y)" and "0 \<le> sint r"
  shows "end_reference (xs @ ys) r n =
    (case (xs, ys) of
       ([], []) \<Rightarrow> None
     | ([], a # _) \<Rightarrow> Some \<lparr>eo_Epoch = r, eo_EndOffset = ee_StartOffset a\<rparr>
     | (below, []) \<Rightarrow> if ee_Epoch (last below) = r then Some \<lparr>eo_Epoch = r, eo_EndOffset = n\<rparr> else None
     | (below, a # _) \<Rightarrow> Some \<lparr>eo_Epoch = ee_Epoch (last below), eo_EndOffset = ee_StartOffset a\<rparr>)"
  unfolding end_reference_def split_filters [OF assms(1,2)] using assms(3) by simp

lemma end_after:
  assumes ok: "epochs_ok (xs @ x # ys)" and r: "sint (ee_Epoch x) \<le> sint r" "\<forall>y\<in>set ys. sint r < sint (ee_Epoch y)"
    and last: "ys = [] \<Longrightarrow> ee_Epoch x = r"
  shows "end_reference (xs @ x # ys) r n = Some \<lparr>eo_Epoch = ee_Epoch x, eo_EndOffset = next_start ys n\<rparr>"
proof -
  have b: "\<forall>z\<in>set (xs @ [x]). sint (ee_Epoch z) \<le> sint r"
    using epochs_around [of xs "x # ys"] ok r(1) by fastforce
  have "0 \<le> sint r" using epochs_pos [OF ok, of x] r(1) by simp
  from end_split [OF b r(2) this, of n] show ?thesis
    using last by (cases ys; cases xs) (simp_all add: next_start_def)
qed

lemma end_before:
  assumes "0 \<le> sint r" and "\<forall>y\<in>set (e # es). sint r < sint (ee_Epoch y)"
  shows "end_reference (e # es) r n = Some \<lparr>eo_Epoch = r, eo_EndOffset = ee_StartOffset e\<rparr>"
  using assms end_split [of "[]" r "e # es" n] by simp

section \<open>Where two histories part\<close>

definition ends_after :: "EpochEntry list \<Rightarrow> u64 \<Rightarrow> EpochEntry \<Rightarrow> u64 \<Rightarrow> bool" where
  "ends_after B nL b t \<longleftrightarrow> (\<exists>B1 B2. B = B1 @ b # B2 \<and> t < next_start B2 nL)"

text \<open>
  The follower's history is \<open>K @ A\<close>, the leader's \<open>K @ B\<close>, both from the offset \<open>o\<close>; after \<open>K\<close> they have no
  epoch in common.  The leader knows an epoch as late as the follower's last one.  An epoch of the follower
  begins before the leader has ended a later epoch, as far as the follower has an even later one.
\<close>

definition parted :: "EpochEntry list \<Rightarrow> EpochEntry list \<Rightarrow> EpochEntry list \<Rightarrow> u64 \<Rightarrow> u64 \<Rightarrow> u64 \<Rightarrow> bool" where
  "parted K A B o' nF nL \<longleftrightarrow>
     epochs_ok (K @ A) \<and> epochs_ok (K @ B) \<and> K @ A \<noteq> [] \<and> K @ B \<noteq> [] \<and>
     (\<forall>a\<in>set A. \<forall>b\<in>set B. ee_Epoch a \<noteq> ee_Epoch b) \<and>
     ee_StartOffset (hd (K @ A)) = o' \<and> ee_StartOffset (hd (K @ B)) = o' \<and>
     (\<forall>e\<in>set (K @ A). ee_StartOffset e \<le> nF) \<and> (\<forall>e\<in>set (K @ B). ee_StartOffset e \<le> nL) \<and>
     sint (ee_Epoch (last (K @ A))) \<le> sint (ee_Epoch (last (K @ B))) \<and>
     (\<forall>x\<in>set (K @ A). \<forall>b\<in>set B. sint (ee_Epoch x) < sint (ee_Epoch b) \<longrightarrow>
        sint (ee_Epoch b) < sint (ee_Epoch (last (K @ A))) \<longrightarrow> ends_after B nL b (ee_StartOffset x))"

text \<open>The offset they part at.\<close>

definition fork :: "EpochEntry list \<Rightarrow> EpochEntry list \<Rightarrow> u64 \<Rightarrow> u64 \<Rightarrow> u64" where
  "fork A B nF nL = min (next_start A nF) (next_start B nL)"

text \<open>The follower's history once its log has been cut at \<open>t\<close>.\<close>

definition history_cut :: "EpochEntry list \<Rightarrow> u64 \<Rightarrow> u64 \<Rightarrow> EpochEntry list" where
  "history_cut es nF t = (if t < nF then takeWhile (\<lambda>e. ee_StartOffset e < t) es else es)"

definition searching :: "EpochEntry list \<Rightarrow> EpochEntry list \<Rightarrow> EpochEntry list \<Rightarrow> u64 \<Rightarrow> u64 \<Rightarrow> u64 \<Rightarrow> i32 \<Rightarrow> bool" where
  "searching K A B nF nL t f \<longleftrightarrow> fork A B nF nL \<le> t \<and> t \<le> nF \<and>
     (\<exists>x\<in>set (history_cut (K @ A) nF t). ee_Epoch x = f) \<and>
     (K \<noteq> [] \<longrightarrow> last K \<in> set (history_cut (K @ A) nF t) \<and> sint (ee_Epoch (last K)) \<le> sint f)"

lemma cut_prefix: "\<exists>R. es = history_cut es nF t @ R \<and> (R \<noteq> [] \<longrightarrow> t \<le> ee_StartOffset (hd R) \<and> t < nF)"
proof (cases "t < nF")
  case True
  let ?P = "\<lambda>e. ee_StartOffset e < t"
  have "es = takeWhile ?P es @ dropWhile ?P es" by simp
  moreover have "dropWhile ?P es \<noteq> [] \<Longrightarrow> t \<le> ee_StartOffset (hd (dropWhile ?P es))" using hd_dropWhile [of ?P es] by (simp add: not_less)
  ultimately show ?thesis using True unfolding history_cut_def by (intro exI [of _ "dropWhile ?P es"]) simp
qed (simp add: history_cut_def)

lemma of_cut: "e \<in> set (history_cut es nF t) \<Longrightarrow> e \<in> set es"
  by (auto simp: history_cut_def dest: set_takeWhileD split: if_splits)

lemma cut_starts:
  assumes "\<forall>e\<in>set es. ee_StartOffset e \<le> nF" and "t \<le> nF" and "e \<in> set (history_cut es nF t)"
  shows "ee_StartOffset e \<le> t"
  using assms set_takeWhileD [of e "\<lambda>e. ee_StartOffset e < t" es] by (auto simp: history_cut_def split: if_splits)

lemma in_cut:
  assumes ok: "epochs_ok es" and e: "e \<in> set es" "ee_StartOffset e < t"
  shows "e \<in> set (history_cut es nF t)"
proof -
  obtain R where R: "es = history_cut es nF t @ R" "R \<noteq> [] \<longrightarrow> t \<le> ee_StartOffset (hd R)" using cut_prefix by blast
  have "e \<notin> set R"
  proof
    assume "e \<in> set R"
    then obtain r R' where r: "R = r # R'" "t \<le> ee_StartOffset r" using R(2) by (cases R) auto
    then have "epochs_ok (r # R')" using ok R(1) epochs_ok_part(2) by metis
    then have "ee_StartOffset r \<le> ee_StartOffset e" using \<open>e \<in> set R\<close> r(1) epochs_around [of "[r]" R' r e] by force
    then show False using e(2) r(2) by simp
  qed
  then show ?thesis using e(1) R(1) by (metis Un_iff set_append)
qed

lemma next_start_ge:
  assumes "epochs_ok (b # ys)" and "ee_StartOffset b \<le> n"
  shows "ee_StartOffset b \<le> next_start ys n"
  using assms epochs_around [of "[b]" ys b "hd ys"] by (cases ys) (auto simp: next_start_def)

lemma hd_start_le:
  assumes "epochs_ok es" and "e \<in> set es"
  shows "ee_StartOffset (hd es) \<le> ee_StartOffset e"
  using assms epochs_around [of "[hd es]" "tl es" "hd es" e] by (cases es) auto

lemma epoch_split:
  assumes "epochs_ok es" and "e \<in> set es" and "sint (ee_Epoch (hd es)) \<le> sint r" and "sint r \<le> sint (ee_Epoch (last es))"
  obtains xs b ys where "es = xs @ b # ys" "sint (ee_Epoch b) \<le> sint r" "\<forall>y\<in>set ys. sint r < sint (ee_Epoch y)" "ys = [] \<Longrightarrow> ee_Epoch b = r"
proof -
  have "\<exists>x\<in>set es. sint (ee_Epoch x) \<le> sint r" using assms(2,3) by (cases es) auto
  then obtain xs b ys where b: "es = xs @ b # ys" "sint (ee_Epoch b) \<le> sint r" "\<forall>y\<in>set ys. \<not> sint (ee_Epoch y) \<le> sint r"
    by (auto dest!: split_list_last_prop)
  have e: "ys = [] \<Longrightarrow> ee_Epoch b = r" using b(1,2) assms(4) by (metis antisym last_snoc signed_word_eqI)
  have l: "\<forall>y\<in>set ys. sint r < sint (ee_Epoch y)" using b(3) by (simp add: not_le)
  show ?thesis by (rule that [OF b(1,2) l e])
qed

section \<open>One question\<close>

text \<open>The answer for the epoch \<open>f\<close> and its local counterpart.\<close>

definition question :: "EpochEntry list \<Rightarrow> EpochEntry list \<Rightarrow> u64 \<Rightarrow> u64 \<Rightarrow> i32 \<Rightarrow> EpochEndOffset \<Rightarrow> EpochEndOffset \<Rightarrow> bool" where
  "question E L nE nL f a l \<longleftrightarrow> end_reference L f nL = Some a \<and> end_reference E (eo_Epoch a) nE = Some l"

abbreviation narrowed :: "EpochEndOffset \<Rightarrow> EpochEndOffset \<Rightarrow> u64 \<Rightarrow> u64" where
  "narrowed a l t \<equiv> min (min (eo_EndOffset a) (eo_EndOffset l)) t"

lemma last_epoch_ge:
  assumes "epochs_ok es" and "e \<in> set es"
  shows "sint (ee_Epoch e) \<le> sint (ee_Epoch (last es))"
proof -
  have "es \<noteq> []" using assms(2) by auto
  then show ?thesis using epochs_ok_last [OF assms] by (auto simp: entry_lt_def)
qed

text \<open>What one question achieves: the log is not cut before the fork, and either the fork is found or the
  search goes on with an earlier epoch.\<close>

definition narrows :: "EpochEntry list \<Rightarrow> EpochEntry list \<Rightarrow> EpochEntry list \<Rightarrow> u64 \<Rightarrow> u64 \<Rightarrow> u64 \<Rightarrow> i32 \<Rightarrow> bool" where
  "narrows K A B nF nL t f \<longleftrightarrow>
     (\<exists>a l. question (history_cut (K @ A) nF t) (K @ B) t nL f a l \<and> fork A B nF nL \<le> narrowed a l t \<and> eo_EndOffset a \<le> nL \<and> 0 \<le> sint (eo_Epoch a) \<and>
        (eo_EndOffset a = nL \<or> (\<exists>e\<in>set (K @ B). eo_EndOffset a = ee_StartOffset e)) \<and>
        (if eo_Epoch l = eo_Epoch a then narrowed a l t = fork A B nF nL
         else sint (eo_Epoch l) < sint f \<and> searching K A B nF nL (narrowed a l t) (eo_Epoch l)))"

lemma parted_facts:
  assumes P: "parted K A B o' nF nL" and S: "searching K A B nF nL t f"
  obtains g R where "K @ A = history_cut (K @ A) nF t @ R" "R \<noteq> [] \<longrightarrow> t \<le> ee_StartOffset (hd R) \<and> t < nF"
    "g \<in> set (history_cut (K @ A) nF t)" "ee_Epoch g = f" "epochs_ok (history_cut (K @ A) nF t)"
    "\<forall>e\<in>set (history_cut (K @ A) nF t). ee_StartOffset e \<le> t" "ee_StartOffset (hd (history_cut (K @ A) nF t)) = o'" "o' \<le> t"
proof -
  obtain R where R: "K @ A = history_cut (K @ A) nF t @ R" "R \<noteq> [] \<longrightarrow> t \<le> ee_StartOffset (hd R) \<and> t < nF" using cut_prefix by blast
  obtain g where g: "g \<in> set (history_cut (K @ A) nF t)" "ee_Epoch g = f" using S by (auto simp: searching_def)
  have ok: "epochs_ok (history_cut (K @ A) nF t)" using P R(1) epochs_ok_part(1) unfolding parted_def by metis
  have le: "\<forall>e\<in>set (history_cut (K @ A) nF t). ee_StartOffset e \<le> t" using P S cut_starts unfolding parted_def searching_def by blast
  have h: "ee_StartOffset (hd (history_cut (K @ A) nF t)) = o'"
    using P g(1) R(1) unfolding parted_def by (metis empty_iff empty_set hd_append2)
  have "o' \<le> t" using le h g(1) by (metis empty_iff empty_set hd_in_set)
  then show ?thesis using that R g ok le h by blast
qed

lemma fork_from_start:
  assumes "parted K A B o' nF nL" and "K = []"
  shows "fork A B nF nL = o'"
  using assms by (cases A; cases B) (auto simp: parted_def fork_def next_start_def)

text \<open>The epoch is before everything the leader knows.\<close>

lemma question_first:
  assumes P: "parted K A B o' nF nL" and S: "searching K A B nF nL t f" and f: "sint f < sint (ee_Epoch (hd (K @ B)))"
  shows "narrows K A B nF nL t f"
proof -
  define E where "E = history_cut (K @ A) nF t"
  obtain g where g: "g \<in> set E" "ee_Epoch g = f" and okE: "epochs_ok E" and oE: "ee_StartOffset (hd E) = o'" "o' \<le> t"
    using parted_facts [OF P S] unfolding E_def by blast
  have okL: "epochs_ok (K @ B)" "K @ B \<noteq> []" "ee_StartOffset (hd (K @ B)) = o'" "\<forall>e\<in>set (K @ B). ee_StartOffset e \<le> nL"
    using P by (simp_all add: parted_def)
  have K: "K = []"
  proof (rule ccontr)
    assume K: "K \<noteq> []"
    then have "sint (ee_Epoch (hd (K @ B))) \<le> sint (ee_Epoch (last K))" using last_epoch_ge [OF epochs_ok_part(1) [OF okL(1)], of "hd K"] by simp
    then show False using S f K by (simp add: searching_def)
  qed
  obtain b B' where B: "B = b # B'" using K okL(2) by (cases B) auto
  obtain E1 E2 where g': "E = E1 @ g # E2" using g(1) by (meson split_list)
  have f0: "0 \<le> sint f" using epochs_pos [OF okE g(1)] g(2) by simp
  have "\<forall>y\<in>set (b # B'). sint f < sint (ee_Epoch y)" using f K B epochs_around [of "[b]" B' b] okL(1) by fastforce
  then have a: "end_reference (K @ B) f nL = Some \<lparr>eo_Epoch = f, eo_EndOffset = o'\<rparr>"
    using end_before [OF f0, of b B' nL] K B okL(3) by simp
  have "\<forall>y\<in>set E2. sint f < sint (ee_Epoch y)" using epochs_around [of "E1 @ [g]" E2 g] okE g' g(2) by simp
  then have l: "end_reference E f t = Some \<lparr>eo_Epoch = f, eo_EndOffset = next_start E2 t\<rparr>"
    using end_after [of E1 g E2 f t] okE g' g(2) by simp
  have "o' \<le> next_start E2 t"
    using oE hd_start_le [OF okE, of "hd E2"] g' by (cases E2) (auto simp: next_start_def)
  then show ?thesis unfolding narrows_def using a l K oE f0 okL(3,4) B fork_from_start [OF P K]
    by (intro exI [of _ "\<lparr>eo_Epoch = f, eo_EndOffset = o'\<rparr>"] exI [of _ "\<lparr>eo_Epoch = f, eo_EndOffset = next_start E2 t\<rparr>"])
      (auto simp: question_def min_def E_def)
qed

text \<open>The answer is the last common epoch.\<close>

lemma question_common:
  assumes P: "parted K A B o' nF nL" and S: "searching K A B nF nL t f" and K: "K = xs @ [b]"
    and f: "sint (ee_Epoch b) \<le> sint f" "\<forall>y\<in>set B. sint f < sint (ee_Epoch y)" "B = [] \<Longrightarrow> ee_Epoch b = f"
  shows "narrows K A B nF nL t f"
proof -
  define E where "E = history_cut (K @ A) nF t"
  obtain R where R: "K @ A = E @ R" "R \<noteq> [] \<longrightarrow> t \<le> ee_StartOffset (hd R) \<and> t < nF" and okE: "epochs_ok E"
    and le: "\<forall>e\<in>set E. ee_StartOffset e \<le> t"
    using parted_facts [OF P S] unfolding E_def by blast
  have okF: "epochs_ok (K @ A)" and okL: "epochs_ok (K @ B)" and leL: "\<forall>e\<in>set (K @ B). ee_StartOffset e \<le> nL" using P by (simp_all add: parted_def)
  have "b \<in> set E" using S K by (simp add: searching_def E_def)
  then obtain E1 E2 where E: "E = E1 @ b # E2" by (meson split_list)
  have "distinct (K @ A)" using okF unfolding epochs_ok_def
    by (metis (no_types, lifting) entry_lt_def less_irrefl sorted_wrt_iff_nth_less distinct_conv_nth linorder_neqE_nat)
  then have s: "E1 = xs" "A = E2 @ R" using R(1) K E by (auto dest!: append_eq_append_conv2 [THEN iffD1] simp: append_eq_Cons_conv Cons_eq_append_conv)
  define a where "a = \<lparr>eo_Epoch = ee_Epoch b, eo_EndOffset = next_start B nL\<rparr>"
  define l where "l = \<lparr>eo_Epoch = ee_Epoch b, eo_EndOffset = next_start E2 t\<rparr>"
  have "end_reference (K @ B) f nL = Some a" using end_after [of xs b B f nL] okL K f by (simp add: a_def)
  moreover have "end_reference E (ee_Epoch b) t = Some l"
    using end_after [of E1 b E2 "ee_Epoch b" t] okE E epochs_around [of "E1 @ [b]" E2 b] by (simp add: l_def)
  ultimately have q: "question E (K @ B) t nL f a l" by (simp add: question_def a_def)
  have fk: "fork A B nF nL \<le> t" "t \<le> nF" using S by (simp_all add: searching_def)
  have "narrowed a l t = fork A B nF nL"
  proof (cases E2)
    case Nil
    then have "t \<le> next_start A nF" using s(2) R(2) fk(2) by (cases R) (auto simp: next_start_def)
    then show ?thesis using fk(1) Nil by (auto simp: a_def l_def fork_def next_start_def [of "[]"] min_def split: if_splits)
  next
    case (Cons e E3)
    then have "ee_StartOffset e \<le> t" using le E by simp
    then show ?thesis using Cons s(2) by (auto simp: a_def l_def fork_def next_start_def min_def)
  qed
  moreover have "eo_EndOffset a \<le> nL" "0 \<le> sint (eo_Epoch a)" "eo_EndOffset a = nL \<or> (\<exists>e\<in>set (K @ B). eo_EndOffset a = ee_StartOffset e)"
    using leL epochs_pos [OF okL, of b] K by (cases B, auto simp: a_def next_start_def)+
  moreover have "eo_Epoch l = eo_Epoch a" by (simp add: a_def l_def)
  ultimately show ?thesis using q unfolding narrows_def E_def by (intro exI [of _ a] exI [of _ l]) simp
qed

lemma f_last:
  assumes P: "parted K A B o' nF nL" and S: "searching K A B nF nL t f"
  shows "sint f \<le> sint (ee_Epoch (last (K @ A)))"
proof -
  obtain g where g: "g \<in> set (history_cut (K @ A) nF t)" "ee_Epoch g = f" using parted_facts [OF P S] by blast
  have "epochs_ok (K @ A)" using P by (simp add: parted_def)
  from last_epoch_ge [OF this of_cut [OF g(1)]] show ?thesis using g(2) by simp
qed

text \<open>The answer is an epoch only the leader has, between two epochs of the follower.\<close>

lemma question_onward:
  assumes P: "parted K A B o' nF nL" and S: "searching K A B nF nL t f" and B: "B = B1 @ b # B2"
    and E: "history_cut (K @ A) nF t = E0 @ x # h # E3" and x: "sint (ee_Epoch x) < sint (ee_Epoch b)"
    and h: "sint (ee_Epoch b) < sint (ee_Epoch h)" and last: "sint (ee_Epoch b) < sint (ee_Epoch (last (K @ A)))"
  defines "t' \<equiv> min (min (next_start B2 nL) (ee_StartOffset h)) t"
  shows "fork A B nF nL \<le> t' \<and> searching K A B nF nL t' (ee_Epoch x)"
proof -
  obtain R where R: "K @ A = history_cut (K @ A) nF t @ R" and okE: "epochs_ok (history_cut (K @ A) nF t)"
    and le: "\<forall>e\<in>set (history_cut (K @ A) nF t). ee_StartOffset e \<le> t"
    using parted_facts [OF P S] by blast
  have okF: "epochs_ok (K @ A)" and okL: "epochs_ok (K @ B)" and bL: "ee_StartOffset b \<le> nL" and bB: "b \<in> set B" using P B by (simp_all add: parted_def)
  have hF: "h \<in> set (K @ A)" "x \<in> set (K @ A)" using of_cut [of _ "K @ A" nF t] E by simp_all
  have "h \<in> set A" using hF(1) epochs_around [OF okL _ bB, of h] h by auto
  then have hA: "next_start A nF \<le> ee_StartOffset h" using hd_start_le [OF epochs_ok_part(2) [OF okF]] by (cases A) (auto simp: next_start_def)
  have "next_start B nL \<le> ee_StartOffset b" using hd_start_le [OF epochs_ok_part(2) [OF okL] bB] bB by (cases B) (auto simp: next_start_def)
  also have "\<dots> \<le> next_start B2 nL" using next_start_ge [of b B2 nL] epochs_ok_part(2) [of "K @ B1" "b # B2"] okL B bL by simp
  finally have fk: "fork A B nF nL \<le> t'" using hA S by (simp add: t'_def fork_def searching_def min.coboundedI1 min.coboundedI2)
  have xh: "ee_StartOffset x < ee_StartOffset h" using epochs_around [of "E0 @ [x]" "h # E3" x h] okE E by simp
  have ht: "ee_StartOffset h \<le> t" using le E by simp
  obtain B1' B2' where b': "B = B1' @ b # B2'" "ee_StartOffset x < next_start B2' nL"
    using P hF(2) bB x last unfolding parted_def ends_after_def by blast
  have "distinct B" using epochs_ok_part(2) [OF okL] unfolding epochs_ok_def
    by (metis (no_types, lifting) entry_lt_def less_irrefl sorted_wrt_iff_nth_less distinct_conv_nth linorder_neqE_nat)
  then have "B2' = B2" using B b'(1) by (auto simp: append_eq_append_conv2 append_eq_Cons_conv Cons_eq_append_conv)
  then have xt: "ee_StartOffset x < t'" using b'(2) xh ht by (simp add: t'_def)
  then have inx: "x \<in> set (history_cut (K @ A) nF t')" using in_cut [OF okF hF(2)] by simp
  have "last K \<in> set (history_cut (K @ A) nF t') \<and> sint (ee_Epoch (last K)) \<le> sint (ee_Epoch x)" if K: "K \<noteq> []"
  proof -
    have k: "last K \<in> set (history_cut (K @ A) nF t)" "last K \<in> set K" using S K by (simp_all add: searching_def)
    have "last K \<notin> set (h # E3)"
    proof
      assume "last K \<in> set (h # E3)"
      then have "sint (ee_Epoch h) \<le> sint (ee_Epoch (last K))" using epochs_around [of "[h]" E3 h] epochs_ok_part(2) [of "E0 @ [x]" "h # E3"] okE E by fastforce
      then show False using epochs_around [OF okL k(2) bB] h by simp
    qed
    then have "last K \<in> set (E0 @ [x])" using k(1) E by auto
    then have "sint (ee_Epoch (last K)) \<le> sint (ee_Epoch x) \<and> ee_StartOffset (last K) \<le> ee_StartOffset x"
      using epochs_around [of E0 "x # h # E3" "last K" x] okE E by force
    moreover from this have "ee_StartOffset (last K) < t'" using xt by auto
    ultimately show ?thesis using in_cut [OF okF, of "last K" t'] k(2) by simp
  qed
  moreover have "t' \<le> nF" using S by (simp add: t'_def searching_def min.coboundedI2)
  ultimately show ?thesis using fk inx by (auto simp: searching_def)
qed

text \<open>The answer is an epoch only the leader has.\<close>

lemma question_between:
  assumes P: "parted K A B o' nF nL" and S: "searching K A B nF nL t f" and B: "B = B1 @ b # B2"
    and f: "sint (ee_Epoch b) \<le> sint f" "\<forall>y\<in>set B2. sint f < sint (ee_Epoch y)" "B2 = [] \<Longrightarrow> ee_Epoch b = f"
  shows "narrows K A B nF nL t f"
proof -
  define E where "E = history_cut (K @ A) nF t"
  obtain g R where R: "K @ A = E @ R" and g: "g \<in> set E" "ee_Epoch g = f" and okE: "epochs_ok E" and oE: "ee_StartOffset (hd E) = o'" "o' \<le> t"
    and le: "\<forall>e\<in>set E. ee_StartOffset e \<le> t"
    using parted_facts [OF P S] unfolding E_def by blast
  have okF: "epochs_ok (K @ A)" and okL: "epochs_ok (K @ B)" and leL: "\<forall>e\<in>set (K @ B). ee_StartOffset e \<le> nL"
    and oL: "ee_StartOffset (hd (K @ B)) = o'" using P by (simp_all add: parted_def)
  have bB: "b \<in> set B" using B by simp
  have KB: "sint (ee_Epoch k) < sint (ee_Epoch b)" if "k \<in> set K" for k using epochs_around [OF okL that bB] by simp
  have not_b: "ee_Epoch e \<noteq> ee_Epoch b" if "e \<in> set E" for e
    using that R P bB KB unfolding parted_def by (metis Un_iff less_irrefl set_append)
  have bf: "sint (ee_Epoch b) < sint f" using f(1) not_b [OF g(1)] g(2) by (metis order_le_less signed_word_eqI)
  define a where "a = \<lparr>eo_Epoch = ee_Epoch b, eo_EndOffset = next_start B2 nL\<rparr>"
  have a: "end_reference (K @ B) f nL = Some a" using end_after [of "K @ B1" b B2 f nL] okL B f by (simp add: a_def)
  have a_le: "eo_EndOffset a \<le> nL" "0 \<le> sint (eo_Epoch a)" "eo_EndOffset a = nL \<or> (\<exists>e\<in>set (K @ B). eo_EndOffset a = ee_StartOffset e)"
    using leL epochs_pos [OF okL, of b] B by (cases B2, auto simp: a_def next_start_def)+
  have "ee_StartOffset b \<le> nL" using leL bB by simp
  then have ba: "ee_StartOffset b \<le> eo_EndOffset a"
    using next_start_ge [of b B2 nL] epochs_ok_part(2) [of "K @ B1" "b # B2"] okL B by (simp add: a_def)
  define E1 where "E1 = filter (\<lambda>e. sint (ee_Epoch e) \<le> sint (ee_Epoch b)) E"
  define E2 where "E2 = filter (\<lambda>e. sint (ee_Epoch b) < sint (ee_Epoch e)) E"
  have E: "E = E1 @ E2" unfolding E1_def E2_def by (rule epochs_split) (use okE in \<open>simp add: epochs_ok_def\<close>)
  obtain h E3 where h: "E2 = h # E3" using g bf by (cases E2) (auto simp: E2_def filter_empty_conv)
  have hb: "\<forall>y\<in>set E2. sint (ee_Epoch b) < sint (ee_Epoch y)" by (simp add: E2_def)
  show ?thesis
  proof (cases "E1 = []")
    case True
    have K: "K = []"
    proof (rule ccontr)
      assume "K \<noteq> []"
      then have "last K \<in> set E1" using S KB [of "last K"] by (simp add: searching_def E1_def E_def)
      then show False using True by simp
    qed
    define l where "l = \<lparr>eo_Epoch = ee_Epoch b, eo_EndOffset = o'\<rparr>"
    have "end_reference E (ee_Epoch b) t = Some l"
      using end_before [of "ee_Epoch b" h E3 t] hb h a_le(2) E True oE(1) by (simp add: l_def a_def)
    moreover have "o' \<le> eo_EndOffset a" using hd_start_le [OF okL, of b] bB oL ba by simp
    ultimately show ?thesis using a a_le oE(2) fork_from_start [OF P K] unfolding narrows_def E_def
      by (intro exI [of _ a] exI [of _ l]) (simp add: question_def a_def l_def min_def)
  next
    case False
    then obtain E0 x where x: "E1 = E0 @ [x]" by (metis append_butlast_last_id)
    have "x \<in> set E1" using x by simp
    then have "sint (ee_Epoch x) \<le> sint (ee_Epoch b)" "ee_Epoch x \<noteq> ee_Epoch b" using not_b [of x] by (simp_all add: E1_def)
    then have xb: "sint (ee_Epoch x) < sint (ee_Epoch b)" by (metis order_le_less signed_word_eqI)
    define l where "l = \<lparr>eo_Epoch = ee_Epoch x, eo_EndOffset = ee_StartOffset h\<rparr>"
    have "end_reference E (ee_Epoch b) t = Some l"
      using end_after [of E0 x E2 "ee_Epoch b" t] okE E x xb hb h by (simp add: l_def next_start_def)
    then have q: "question E (K @ B) t nL f a l" using a by (simp add: question_def a_def)
    have st: "E = E0 @ x # h # E3" using E x h by simp
    have n: "fork A B nF nL \<le> narrowed a l t \<and> searching K A B nF nL (narrowed a l t) (ee_Epoch x)"
      using question_onward [OF P S B st [unfolded E_def] xb] hb h bf f_last [OF P S] by (simp add: a_def l_def)
    have "sint (ee_Epoch x) < sint f" "ee_Epoch x \<noteq> ee_Epoch b" using xb bf by auto
    then show ?thesis using q n a_le unfolding narrows_def E_def
      by (intro exI [of _ a] exI [of _ l]) (simp add: l_def a_def)
  qed
qed

lemma question_step:
  assumes P: "parted K A B o' nF nL" and S: "searching K A B nF nL t f"
  shows "narrows K A B nF nL t f"
proof (cases "sint f < sint (ee_Epoch (hd (K @ B)))")
  case True
  then show ?thesis by (rule question_first [OF P S])
next
  case False
  have okL: "epochs_ok (K @ B)" "K @ B \<noteq> []" and lasts: "sint (ee_Epoch (last (K @ A))) \<le> sint (ee_Epoch (last (K @ B)))"
    using P by (simp_all add: parted_def)
  have hd: "hd (K @ B) \<in> set (K @ B)" "sint (ee_Epoch (hd (K @ B))) \<le> sint f" using hd_in_set [OF okL(2)] False by (simp_all only: not_less)
  have "sint f \<le> sint (ee_Epoch (last (K @ B)))" using f_last [OF P S] lasts by linarith
  then obtain xs b ys where b: "K @ B = xs @ b # ys" "sint (ee_Epoch b) \<le> sint f" "\<forall>y\<in>set ys. sint f < sint (ee_Epoch y)" "ys = [] \<Longrightarrow> ee_Epoch b = f"
    using epoch_split [OF okL(1) hd] by metis
  consider B1 where "xs = K @ B1" "B = B1 @ b # ys" | K2 where "K = xs @ b # K2" "ys = K2 @ B"
    using b(1) by (auto simp: append_eq_append_conv2 append_eq_Cons_conv Cons_eq_append_conv)
  then show ?thesis
  proof cases
    case 1
    then show ?thesis using question_between [OF P S 1(2) b(2,3,4)] by blast
  next
    case 2
    have "K2 = []"
    proof (rule ccontr)
      assume "K2 \<noteq> []"
      then have "last K \<in> set ys" "K \<noteq> []" using 2 by auto
      then show False using b(3) S by (auto simp: searching_def)
    qed
    then show ?thesis using question_common [OF P S, of xs b] 2 b(2,3,4) by simp
  qed
qed

end
