(* ===== verification/ReconcileRep.thy ===== *)
theory ReconcileRep
  imports FetchManager Divergence PartitionFetch "HOL-Library.Sublist"
begin

text \<open>
  What reconciling a follower with its leader achieves: the follower's log is cut to the longest common
  prefix of the two logs, so that it replicates the leader's.
\<close>

section \<open>Histories and batches\<close>

text \<open>The epoch cache of a log tells the epochs of its batches.  A leader that has not written yet has one entry
  more, at the end of the log.\<close>

definition cached :: "Log \<Rightarrow> bytes list \<Rightarrow> bool" where
  "cached l bs \<longleftrightarrow> list_all (\<lambda>b. 0 \<le> sint (hdr_epoch b)) bs \<and> epochs_rise bs \<and> epochs_ok (lec_entries (lg_epochCache l)) \<and>
     (\<exists>es. lec_entries (lg_epochCache l) = epoch_history None bs @ es \<and> (\<forall>e\<in>set es. ee_StartOffset e = NextOffset l))"

lemma history_last:
  "(epoch_history prev bs = [] \<longrightarrow> last_epoch prev bs = prev) \<and>
   (epoch_history prev bs \<noteq> [] \<longrightarrow> last_epoch prev bs = Some (ee_Epoch (last (epoch_history prev bs))))"
  by (induction bs arbitrary: prev) auto

lemma last_epoch_snoc: "0 \<le> sint (hdr_epoch b) \<Longrightarrow> last_epoch prev (xs @ [b]) = Some (hdr_epoch b)"
  by (induction xs arbitrary: prev) auto

lemma history_starts:
  assumes "batches_ok o' bs" and "e \<in> set (epoch_history prev bs)"
  shows "o' \<le> unat (ee_StartOffset e) \<and> unat (ee_StartOffset e) < o' + total_records bs \<and>
    (\<exists>as cs. bs = as @ cs \<and> unat (ee_StartOffset e) = o' + total_records as)"
  using assms
proof (induction bs arbitrary: o' prev)
  case (Cons b bs)
  have b: "unat (hdr_base b) = o'" and bs: "batches_ok (o' + records b) bs"
    using Cons.prems(1) by (simp_all add: batches_ok_def records_def)
  show ?case
  proof (cases "e = \<lparr>ee_Epoch = hdr_epoch b, ee_StartOffset = hdr_base b\<rparr>")
    case True
    then show ?thesis using b by (intro conjI exI [of _ "[]"] exI [of _ "b # bs"]) simp_all
  next
    case False
    then obtain prev' where "e \<in> set (epoch_history prev' bs)" using Cons.prems(2) by (auto split: if_splits)
    from Cons.IH [OF bs this] obtain as cs where "o' + records b \<le> unat (ee_StartOffset e)"
      "unat (ee_StartOffset e) < o' + records b + total_records bs" "bs = as @ cs" "unat (ee_StartOffset e) = o' + records b + total_records as" by blast
    then show ?thesis by (intro conjI exI [of _ "b # as"] exI [of _ cs]) simp_all
  qed
qed simp

text \<open>The entries before an offset that separates two batches are those of the batches before it.\<close>

lemma cached_before:
  assumes c: "cached l (as @ cs)" and ok: "batches_ok o' (as @ cs)" and n: "unat (NextOffset l) = o' + total_records (as @ cs)"
    and t: "unat t = o' + total_records as"
  shows "filter (\<lambda>e. ee_StartOffset e < t) (lec_entries (lg_epochCache l)) = epoch_history None as"
proof -
  obtain es where es: "lec_entries (lg_epochCache l) = epoch_history None as @ epoch_history (last_epoch None as) cs @ es" "\<forall>e\<in>set es. ee_StartOffset e = NextOffset l"
    using c by (auto simp: cached_def epoch_history_append)
  have oks: "batches_ok o' as" "batches_ok (o' + total_records as) cs" using ok by (simp_all add: batches_ok_append)
  have "filter (\<lambda>e. ee_StartOffset e < t) (epoch_history None as) = epoch_history None as"
    using history_starts [OF oks(1)] t by (auto simp: filter_id_conv word_less_nat_alt)
  moreover have "filter (\<lambda>e. ee_StartOffset e < t) (epoch_history (last_epoch None as) cs) = []"
    using history_starts [OF oks(2)] t by (fastforce simp: filter_empty_conv word_less_nat_alt)
  moreover have "filter (\<lambda>e. ee_StartOffset e < t) es = []" using es(2) n t by (auto simp: filter_empty_conv word_less_nat_alt)
  ultimately show ?thesis using es(1) by simp
qed

text \<open>The epoch in force where a batch begins is the batch's.\<close>

lemma cached_epoch:
  assumes c: "cached l (as @ b # cs)" and ok: "batches_ok o' (as @ b # cs)" and n: "unat (NextOffset l) = o' + total_records (as @ b # cs)"
  shows "EpochForOffset (lg_epochCache l) (hdr_base b) = Some (hdr_epoch b)"
proof -
  obtain es where es: "lec_entries (lg_epochCache l) = epoch_history None (as @ [b]) @ epoch_history (last_epoch None (as @ [b])) cs @ es"
      "\<forall>e\<in>set es. ee_StartOffset e = NextOffset l"
    using c epoch_history_append [of None "as @ [b]" cs] by (auto simp: cached_def)
  have oks: "batches_ok o' (as @ [b])" "batches_ok (o' + total_records (as @ [b])) cs"
    using ok batches_ok_append [of o' "as @ [b]" cs] by simp_all
  have base: "unat (hdr_base b) = o' + total_records as" using ok by (simp add: batches_ok_def)
  have 1: "filter (\<lambda>e. ee_StartOffset e \<le> hdr_base b) (epoch_history None (as @ [b])) = epoch_history None (as @ [b])"
  proof -
    have "ee_StartOffset e \<le> hdr_base b" if e: "e \<in> set (epoch_history None (as @ [b]))" for e
    proof -
      obtain xs ys where x: "as @ [b] = xs @ ys" "unat (ee_StartOffset e) = o' + total_records xs" "total_records xs < total_records (as @ [b])"
        using history_starts [OF oks(1) e] by (metis add_less_cancel_left)
      then have "ys \<noteq> []" by auto
      then have "as = xs @ butlast ys" using x(1) by (metis butlast_append butlast_snoc)
      then show ?thesis using x(2) base by (simp add: word_le_nat_alt)
    qed
    then show ?thesis by (simp add: filter_id_conv)
  qed
  have "\<not> ee_StartOffset e \<le> hdr_base b" if "e \<in> set (epoch_history (last_epoch None (as @ [b])) cs)" for e
    using conjunct1 [OF history_starts [OF oks(2) that]] base records_pos [of b] unfolding word_le_nat_alt total_simps by linarith
  then have 2: "filter (\<lambda>e. ee_StartOffset e \<le> hdr_base b) (epoch_history (last_epoch None (as @ [b])) cs) = []"
    by (simp only: filter_empty_conv) blast
  have "\<not> NextOffset l \<le> hdr_base b" using n base records_pos [of b] unfolding word_le_nat_alt total_simps by linarith
  then have 3: "filter (\<lambda>e. ee_StartOffset e \<le> hdr_base b) es = []" using es(2) by (simp add: filter_empty_conv)
  have nn: "0 \<le> sint (hdr_epoch b)" using c by (simp add: cached_def)
  then have le: "last_epoch None (as @ [b]) = Some (hdr_epoch b)" by (rule last_epoch_snoc)
  then have h: "epoch_history None (as @ [b]) \<noteq> []" "ee_Epoch (last (epoch_history None (as @ [b]))) = hdr_epoch b"
    using history_last [of None "as @ [b]"] by auto
  have srt: "sorted_wrt entry_lt (lec_entries (lg_epochCache l))" using c by (simp add: cached_def epochs_ok_def)
  have "filter (\<lambda>e. ee_StartOffset e \<le> hdr_base b) (lec_entries (lg_epochCache l)) = epoch_history None (as @ [b])"
    unfolding es(1) filter_append 1 2 3 by simp
  then show ?thesis unfolding EpochForOffset_def epoch_scan_filter [OF srt] using h by (cases "epoch_history None (as @ [b])") simp_all
qed

section \<open>The fork\<close>

text \<open>One leader writes the batches of an epoch, one batch at an offset.\<close>

definition batches_match :: "bytes list \<Rightarrow> bytes list \<Rightarrow> bool" where
  "batches_match bF bL \<longleftrightarrow> (\<forall>b\<in>set bF. \<forall>b'\<in>set bL. hdr_base b = hdr_base b' \<and> hdr_epoch b = hdr_epoch b' \<longrightarrow> b = b')"

lemma same_epoch_before_fork:
  assumes P: "parted K A B o' nF nL" and d: "off < fork A B nF nL"
  shows "EpochForOffset \<lparr>lec_entries = K @ A\<rparr> off = EpochForOffset \<lparr>lec_entries = K @ B\<rparr> off"
proof -
  have ok: "epochs_ok (K @ A)" "epochs_ok (K @ B)" using P by (simp_all add: parted_def)
  have later: "filter (\<lambda>e. ee_StartOffset e \<le> off) X = []" if "epochs_ok X" "off < next_start X n" for X n
  proof -
    have "off < ee_StartOffset e" if "e \<in> set X" for e
      using hd_start_le [OF \<open>epochs_ok X\<close> that] \<open>off < next_start X n\<close> that by (cases X) (auto simp: next_start_def)
    then show ?thesis by (auto simp: filter_empty_conv not_le)
  qed
  have "filter (\<lambda>e. ee_StartOffset e \<le> off) A = []" "filter (\<lambda>e. ee_StartOffset e \<le> off) B = []"
    using later [OF epochs_ok_part(2) [OF ok(1)]] later [OF epochs_ok_part(2) [OF ok(2)]] d by (auto simp: fork_def)
  then show ?thesis using ok by (simp add: EpochForOffset_def epoch_scan_filter epochs_ok_def)
qed

lemma fork_not_below:
  assumes A: "K @ A = EA" "K @ B = EB" and eq: "filter (\<lambda>e. ee_StartOffset e < c) EA = filter (\<lambda>e. ee_StartOffset e < c) EB"
    and ok: "epochs_ok (K @ A)" and disj: "\<forall>a\<in>set A. \<forall>b\<in>set B. ee_Epoch a \<noteq> ee_Epoch b" and n: "c \<le> n"
  shows "c \<le> next_start A n"
proof (cases A)
  case (Cons a A')
  show ?thesis
  proof (rule ccontr)
    assume "\<not> c \<le> next_start A n"
    then have "a \<in> set (filter (\<lambda>e. ee_StartOffset e < c) EA)" using Cons A by (auto simp: next_start_def)
    then have "a \<in> set (K @ B)" unfolding eq using A(2) by auto
    then have "a \<in> set K" using disj Cons by auto
    then show False using epochs_around [OF ok, of a a] Cons by simp
  qed
qed (use n in \<open>simp add: next_start_def\<close>)

text \<open>The offset where the histories part is the end of the longest common prefix of the logs.\<close>

lemma fork_prefix:
  assumes P: "parted K A B o' nF nL" and eF: "lec_entries (lg_epochCache lF) = K @ A" and eL: "lec_entries (lg_epochCache lL) = K @ B"
    and cF: "cached lF bF" and cL: "cached lL bL" and okF: "batches_ok (unat o') bF" and okL: "batches_ok (unat o') bL"
    and nF: "NextOffset lF = nF" "unat nF = unat o' + total_records bF" and nL: "NextOffset lL = nL" "unat nL = unat o' + total_records bL"
    and m: "batches_match bF bL"
  shows "unat (fork A B nF nL) = unat o' + total_records (longest_common_prefix bF bL)"
proof -
  define C where "C = longest_common_prefix bF bL"
  obtain Fs where F: "bF = C @ Fs" using longest_common_prefix_prefix1 [of bF bL] unfolding C_def by (rule prefixE)
  obtain Ls where L: "bL = C @ Ls" using longest_common_prefix_prefix2 [of bF bL] unfolding C_def by (rule prefixE)
  define c :: u64 where "c = word_of_nat (unat o' + total_records C)"
  have uc: "unat c = unat o' + total_records C" unfolding c_def
    by (rule unat_word_of_nat) (use okF F in \<open>simp add: batches_ok_def\<close>)
  have okA: "epochs_ok (K @ A)" and okB: "epochs_ok (K @ B)" and disj: "\<forall>a\<in>set A. \<forall>b\<in>set B. ee_Epoch a \<noteq> ee_Epoch b"
    and leF: "\<forall>e\<in>set (K @ A). ee_StartOffset e \<le> nF" and leL: "\<forall>e\<in>set (K @ B). ee_StartOffset e \<le> nL" using P by (simp_all add: parted_def)
  have eq: "filter (\<lambda>e. ee_StartOffset e < c) (K @ A) = filter (\<lambda>e. ee_StartOffset e < c) (K @ B)"
    using cached_before [of lF C Fs "unat o'" c] cached_before [of lL C Ls "unat o'" c] cF cL okF okL nF nL uc F L eF eL by simp
  have c_le: "c \<le> nF" "c \<le> nL" using uc nF(2) nL(2) F L by (simp_all add: word_le_nat_alt)
  have "c \<le> next_start A nF" by (rule fork_not_below [OF refl refl eq okA disj c_le(1)])
  moreover have "c \<le> next_start B nL" by (rule fork_not_below [OF refl refl eq [symmetric] okB _ c_le(2)]) (use disj in fastforce)
  ultimately have 1: "c \<le> fork A B nF nL" by (simp add: fork_def)
  have 2: "\<not> c < fork A B nF nL"
  proof
    assume lt: "c < fork A B nF nL"
    have "next_start A nF \<le> nF" "next_start B nL \<le> nL" using leF leL by (cases A, auto simp: next_start_def) (cases B, auto simp: next_start_def)
    then have "c < nF" "c < nL" using lt by (auto simp: fork_def)
    then have "Fs \<noteq> []" "Ls \<noteq> []" using uc nF(2) nL(2) F L by (auto simp: word_less_nat_alt)
    then obtain x Fs' y Ls' where x: "Fs = x # Fs'" and y: "Ls = y # Ls'" by (meson neq_Nil_conv)
    have base: "hdr_base x = c" "hdr_base y = c" using okF okL F L x y uc by (simp_all add: batches_ok_def word_unat_eq_iff)
    have "EpochForOffset (lg_epochCache lF) c = Some (hdr_epoch x)" "EpochForOffset (lg_epochCache lL) c = Some (hdr_epoch y)"
      using cached_epoch [of lF C x Fs' "unat o'"] cached_epoch [of lL C y Ls' "unat o'"] cF cL okF okL nF nL F L x y base by simp_all
    moreover have "EpochForOffset (lg_epochCache lF) c = EpochForOffset (lg_epochCache lL) c"
      using same_epoch_before_fork [OF P lt] eF eL by (simp add: EpochForOffset_def)
    ultimately have "x = y" using m base F L x y by (auto simp: batches_match_def)
    then have "prefix (C @ [x]) bF" "prefix (C @ [x]) bL" using F L x y by simp_all
    then have "prefix (C @ [x]) C" unfolding C_def by (rule longest_common_prefix_max_prefix)
    then show False by (auto dest: prefix_length_le)
  qed
  then show ?thesis using 1 uc unfolding C_def by (metis antisym not_le_imp_less order_le_less)
qed

section \<open>Cutting the follower's log\<close>

text \<open>A follower whose log is a part of \<open>bF\<close>, with the history \<open>es\<close> as far as its log goes.\<close>

definition follows_cut :: "EpochEntry list \<Rightarrow> u64 \<Rightarrow> u64 \<Rightarrow> bytes list \<Rightarrow> Partition \<Rightarrow> bytes list list \<Rightarrow> bool" where
  "follows_cut es nF o' bF p bsp \<longleftrightarrow> part_ok p bsp \<and> \<not> pt_isLeader p \<and> rebuildable (pt_log p) bsp \<and> OldestOffset (pt_log p) = o' \<and>
     lec_entries (lg_epochCache (pt_log p)) = history_cut es nF (LEO p) \<and> LEO p \<le> nF \<and> prefix (concat bsp) bF"

definition boundary :: "bytes list \<Rightarrow> u64 \<Rightarrow> u64 \<Rightarrow> bool" where
  "boundary bs o' t \<longleftrightarrow> (\<exists>as cs. bs = as @ cs \<and> unat t = unat o' + total_records as)"

definition cuts_ok :: "LogIO \<Rightarrow> bool" where
  "cuts_ok io \<longleftrightarrow> removals_ok io \<and> \<not> li_truncate io"

lemma cut_cut: "t < t' \<Longrightarrow> t' \<le> nF \<Longrightarrow> takeWhile (\<lambda>e. ee_StartOffset e < t) (history_cut es nF t') = history_cut es nF t"
  unfolding history_cut_def by (induction es) (auto split: if_splits)

lemma TruncateFromEnd_kept: "lec_entries (snd (TruncateFromEnd c offset)) = takeWhile (\<lambda>e. ee_StartOffset e < offset) (lec_entries c)"
proof -
  define k where "k = takeWhile (\<lambda>e. ee_StartOffset e < offset) (lec_entries c)"
  have "k = lec_entries c" if "length k = length (lec_entries c)"
    using that by (metis k_def takeWhile_eq_take take_all_iff order_refl)
  then show ?thesis unfolding k_def [symmetric] TruncateFromEnd_def Let_def by auto
qed

text \<open>A cut either happens at the offset, or the offset is inside a batch and nothing happens.\<close>

lemma truncate_inside:
  assumes ok: "part_ok p bsp" and fl: "\<not> pt_isLeader p" and T: "TruncateTo io t (pt_log p) = Some (Inl OtherError, pt_log p)"
  shows "Partition_TruncateTo io t p = Some (Inl (Wrapped OtherError), p)"
  using assms by (simp add: Partition_TruncateTo_def part_ok_def LEO_def Let_def)

lemma truncate_at:
  assumes ok: "part_ok p bsp" and fl: "\<not> pt_isLeader p" and T: "TruncateTo io t (pt_log p) = Some (r, l)"
    and l: "log_rep l bsp'" "OldestOffset l = OldestOffset (pt_log p)"
  shows "\<exists>p'. Partition_TruncateTo io t p = Some (map_sum Wrapped id r, p') \<and> part_ok p' bsp' \<and> pt_log p' = l \<and> same_assignment p p' \<and>
    pt_highWatermark p' = min (pt_highWatermark p) (LEO p')"
proof -
  define hw where "hw = (if \<not> pt_highWatermark p \<le> NextOffset l then NextOffset l else pt_highWatermark p)"
  define q where "q = p\<lparr>pt_log := l, pt_highWatermark := hw\<rparr>"
  define p' where "p' = (if NextOffset l \<noteq> NextOffset (pt_log p) \<or> \<not> pt_highWatermark p \<le> NextOffset l then notifyWaiters q else q)"
  have tr: "Partition_TruncateTo io t p = Some (map_sum Wrapped id r, p')"
    unfolding Partition_TruncateTo_def T Let_def using fl by (simp add: p'_def q_def hw_def)
  have hw: "hw \<le> NextOffset l" "hw = min (pt_highWatermark p) (NextOffset l)" by (auto simp: hw_def min_def)
  have "OldestOffset l \<le> NextOffset l" using log_next [OF l(1)] by (simp add: word_le_nat_alt)
  then have "OldestOffset l \<le> hw" using ok l(2) hw(2) by (auto simp: part_ok_def)
  then have "part_ok q bsp'" unfolding q_def using part_ok_follower [OF ok fl l _ hw(1)] by blast
  then have "part_ok p' bsp'" by (simp add: p'_def)
  moreover have "pt_highWatermark p' = hw" "LEO p' = NextOffset l" "same_assignment p p'" "pt_log p' = l"
    by (simp_all add: p'_def q_def LEO_def same_assignment_def)
  ultimately show ?thesis using tr hw(2) by auto
qed

lemma truncate_cut:
  assumes F: "follows_cut es nF o' bF p bsp" and t: "o' \<le> t" "t < LEO p" and io: "cuts_ok io"
  shows "\<exists>r p' bsp'. Partition_TruncateTo io t p = Some (r, p') \<and> follows_cut es nF o' bF p' bsp' \<and> same_assignment p p' \<and>
    pt_highWatermark p' = min (pt_highWatermark p) (LEO p') \<and>
    (LEO p' = t \<and> (li_checkpoint io = no_fault \<longrightarrow> writable (lg_epochCache (pt_log p)) \<longrightarrow> r = Inr ()) \<or>
     p' = p \<and> (\<exists>e. r = Inl e) \<and> \<not> boundary bF o' t)"
proof -
  have ok: "part_ok p bsp" and fl: "\<not> pt_isLeader p" and rb: "rebuildable (pt_log p) bsp" and o': "OldestOffset (pt_log p) = o'"
    and es: "lec_entries (lg_epochCache (pt_log p)) = history_cut es nF (LEO p)" and nF: "LEO p \<le> nF" and pf: "prefix (concat bsp) bF"
    using F by (simp_all add: follows_cut_def)
  have rep: "log_rep (pt_log p) bsp" using ok by (simp add: part_ok_def)
  have n: "unat (LEO p) = unat o' + total_records (concat bsp)" using log_next [OF rep] o' by (simp add: LEO_def)
  obtain cs0 where cs0: "bF = concat bsp @ cs0" using pf by (auto simp: prefix_def)
  have "unat o' \<le> unat t" "unat t \<le> unat o' + total_records (concat bsp)" using t n by (simp_all add: word_le_nat_alt word_less_nat_alt)
  from offset_in_batches [OF this] show ?thesis
  proof (elim disjE exE conjE)
    fix as cs assume s: "concat bsp = as @ cs" "unat t = unat o' + total_records as"
    then have ne: "cs \<noteq> []" using t(2) n by (auto simp: word_less_nat_alt)
    obtain r l bsp' where l: "TruncateTo io t (pt_log p) = Some (r, l)" "log_rep l bsp'" "concat bsp' = as" "rebuildable l bsp'"
        "OldestOffset l = OldestOffset (pt_log p)" "lg_epochCache l = snd (TruncateFromEnd (lg_epochCache (pt_log p)) t)"
        "li_checkpoint io = no_fault \<longrightarrow> writable (lg_epochCache (pt_log p)) \<longrightarrow> r = Inr ()"
      using TruncateTo_full [OF rep s(1) _ rb, of t io] s(2) o' io ne by (auto simp: cuts_ok_def)
    obtain p' where p': "Partition_TruncateTo io t p = Some (map_sum Wrapped id r, p')" "part_ok p' bsp'" "pt_log p' = l" "same_assignment p p'"
        "pt_highWatermark p' = min (pt_highWatermark p) (LEO p')"
      using truncate_at [OF ok fl l(1,2,5)] by blast
    have leo: "LEO p' = t" using log_next [OF l(2)] l(3,5) p'(3) s(2) o' by (simp add: LEO_def word_unat_eq_iff)
    have "lec_entries (lg_epochCache (pt_log p')) = history_cut es nF t" using l(6) p'(3) es cut_cut [OF t(2) nF] by (simp add: TruncateFromEnd_kept)
    moreover have "prefix (concat bsp') bF" using cs0 s(1) l(3) by simp
    ultimately have "follows_cut es nF o' bF p' bsp'" using p'(2-4) l(4,5) fl o' leo t(2) nF by (auto simp: follows_cut_def same_assignment_def)
    then show ?thesis using p' leo l(7) by auto
  next
    fix as b cs assume s: "concat bsp = as @ b # cs" "unat o' + total_records as < unat t" "unat t < unat o' + total_records as + records b"
    have "TruncateTo io t (pt_log p) = Some (Inl OtherError, pt_log p)" using TruncateTo_inside_batch [OF rep s(1), of t io] s(2,3) o' by simp
    then have "Partition_TruncateTo io t p = Some (Inl (Wrapped OtherError), p)" by (rule truncate_inside [OF ok fl])
    moreover have "\<not> boundary bF o' t"
    proof
      assume "boundary bF o' t"
      then obtain xs ys where x: "bF = xs @ ys" "unat t = unat o' + total_records xs" by (auto simp: boundary_def)
      then have "as @ b # cs @ cs0 = xs @ ys" using cs0 s(1) by simp
      then have "xs = as" using same_position [of xs ys as b "cs @ cs0"] x(2) s(2,3) by simp
      then show False using x(2) s(2) by simp
    qed
    moreover have "pt_highWatermark p = min (pt_highWatermark p) (LEO p)" using ok by (simp add: part_ok_def min_def)
    ultimately show ?thesis using F by (intro exI [of _ "Inl (Wrapped OtherError)"] exI [of _ p] exI [of _ bsp]) simp
  qed
qed

section \<open>Two logs of one partition\<close>

text \<open>Two histories agree up to every epoch they have in common.\<close>

definition same_lineage :: "EpochEntry list \<Rightarrow> EpochEntry list \<Rightarrow> bool" where
  "same_lineage EF EL \<longleftrightarrow>
     (\<forall>xs a ys us b vs. EF = xs @ a # ys \<longrightarrow> EL = us @ b # vs \<longrightarrow> ee_Epoch a = ee_Epoch b \<longrightarrow> xs @ [a] = us @ [b])"

text \<open>An epoch of the follower begins before the leader has ended a later epoch that is not later than everything
  the follower knows.\<close>

definition overlapping :: "EpochEntry list \<Rightarrow> EpochEntry list \<Rightarrow> u64 \<Rightarrow> bool" where
  "overlapping EF EL nL \<longleftrightarrow>
     (\<forall>x\<in>set EF. \<forall>us b vs. EL = us @ b # vs \<longrightarrow> sint (ee_Epoch x) < sint (ee_Epoch b) \<longrightarrow>
        sint (ee_Epoch b) < sint (ee_Epoch (last EF)) \<longrightarrow> ee_StartOffset x < next_start vs nL)"

definition reconcilable :: "Log \<Rightarrow> bytes list \<Rightarrow> Log \<Rightarrow> bytes list \<Rightarrow> bool" where
  "reconcilable lF bF lL bL \<longleftrightarrow>
     cached lF bF \<and> cached lL bL \<and> OldestOffset lL = OldestOffset lF \<and> batches_match bF bL \<and>
     (let EF = lec_entries (lg_epochCache lF); EL = lec_entries (lg_epochCache lL) in
      same_lineage EF EL \<and> overlapping EF EL (NextOffset lL) \<and>
      (EF \<noteq> [] \<longrightarrow> EL \<noteq> [] \<and> sint (ee_Epoch (last EF)) \<le> sint (ee_Epoch (last EL))))"

lemma cached_starts:
  assumes c: "cached l bs" and ok: "batches_ok (unat (OldestOffset l)) bs" and n: "unat (NextOffset l) = unat (OldestOffset l) + total_records bs"
  shows "\<forall>e\<in>set (lec_entries (lg_epochCache l)). ee_StartOffset e \<le> NextOffset l"
    and "lec_entries (lg_epochCache l) \<noteq> [] \<Longrightarrow> ee_StartOffset (hd (lec_entries (lg_epochCache l))) = OldestOffset l"
    and "lec_entries (lg_epochCache l) = [] \<Longrightarrow> bs = []"
proof -
  obtain es where es: "lec_entries (lg_epochCache l) = epoch_history None bs @ es" "\<forall>e\<in>set es. ee_StartOffset e = NextOffset l"
    using c by (auto simp: cached_def)
  have "ee_StartOffset e \<le> NextOffset l" if "e \<in> set (epoch_history None bs)" for e
    using history_starts [OF ok that] n by (simp add: word_le_nat_alt)
  then show "\<forall>e\<in>set (lec_entries (lg_epochCache l)). ee_StartOffset e \<le> NextOffset l" using es by auto
  have first: "\<exists>r. epoch_history None bs = \<lparr>ee_Epoch = hdr_epoch b, ee_StartOffset = hdr_base b\<rparr> # r" if "bs = b # bs'" for b bs'
    using c that by (simp add: cached_def)
  show "ee_StartOffset (hd (lec_entries (lg_epochCache l))) = OldestOffset l" if ne: "lec_entries (lg_epochCache l) \<noteq> []"
  proof (cases bs)
    case Nil
    then have "es \<noteq> []" "NextOffset l = OldestOffset l" using es(1) ne n by (auto simp: word_unat_eq_iff)
    then show ?thesis using es Nil by (cases es) simp_all
  next
    case (Cons b bs')
    then have "hdr_base b = OldestOffset l" using ok by (simp add: batches_ok_def word_unat_eq_iff)
    then show ?thesis using first [OF Cons] es(1) by auto
  qed
  show "bs = []" if "lec_entries (lg_epochCache l) = []" using that es(1) first by (cases bs) auto
qed

lemma lineage_parts:
  assumes L: "same_lineage EF EL" and F: "EF = longest_common_prefix EF EL @ A" and B: "EL = longest_common_prefix EF EL @ B"
    and "a \<in> set A" and "b \<in> set B"
  shows "ee_Epoch a \<noteq> ee_Epoch b"
proof
  define K where "K = longest_common_prefix EF EL"
  assume e: "ee_Epoch a = ee_Epoch b"
  obtain a1 a2 b1 b2 where a: "A = a1 @ a # a2" and b: "B = b1 @ b # b2" using assms(4,5) by (meson split_list)
  have s: "EF = (K @ a1) @ a # a2" "EL = (K @ b1) @ b # b2" using F B a b by (simp_all add: K_def)
  from L [unfolded same_lineage_def, rule_format, OF s e] have eq: "a1 @ [a] = b1 @ [b]" by simp
  have "EF = (K @ a1 @ [a]) @ a2" "EL = (K @ b1 @ [b]) @ b2" using s by simp_all
  then have "prefix (K @ a1 @ [a]) EF" "prefix (K @ b1 @ [b]) EL" by (metis prefixI)+
  then have "prefix (K @ a1 @ [a]) K" unfolding eq by (subst (2) K_def) (rule longest_common_prefix_max_prefix)
  then show False by (auto dest: prefix_length_le)
qed

lemma reconcilable_parted:
  assumes R: "reconcilable lF bF lL bL" and F: "log_rep lF bsf" "bF = concat bsf" and L: "log_rep lL bsl" "bL = concat bsl"
    and ne: "lec_entries (lg_epochCache lF) \<noteq> []"
  obtains K A B where "lec_entries (lg_epochCache lF) = K @ A" "lec_entries (lg_epochCache lL) = K @ B"
    "parted K A B (OldestOffset lF) (NextOffset lF) (NextOffset lL)"
proof -
  define EF where "EF = lec_entries (lg_epochCache lF)"
  define EL where "EL = lec_entries (lg_epochCache lL)"
  define K where "K = longest_common_prefix EF EL"
  obtain A where A: "EF = K @ A" using longest_common_prefix_prefix1 [of EF EL] unfolding K_def by (rule prefixE)
  obtain B where B: "EL = K @ B" using longest_common_prefix_prefix2 [of EF EL] unfolding K_def by (rule prefixE)
  have c: "cached lF bF" "cached lL bL" and o': "OldestOffset lL = OldestOffset lF" and lin: "same_lineage EF EL" and ov: "overlapping EF EL (NextOffset lL)"
    and la: "EL \<noteq> []" "sint (ee_Epoch (last EF)) \<le> sint (ee_Epoch (last EL))"
    using R ne by (simp_all add: reconcilable_def EF_def EL_def Let_def)
  have okF: "batches_ok (unat (OldestOffset lF)) bF" "unat (NextOffset lF) = unat (OldestOffset lF) + total_records bF"
    and okL: "batches_ok (unat (OldestOffset lL)) bL" "unat (NextOffset lL) = unat (OldestOffset lL) + total_records bL"
    using log_rep_chain [OF F(1)] log_next [OF F(1)] log_rep_chain [OF L(1)] log_next [OF L(1)] F(2) L(2) by simp_all
  note sF = cached_starts [OF c(1) okF, folded EF_def] and sL = cached_starts [OF c(2) okL, folded EL_def]
  have "\<forall>a\<in>set A. \<forall>b\<in>set B. ee_Epoch a \<noteq> ee_Epoch b" using lineage_parts [OF lin A [unfolded K_def] B [unfolded K_def]] by blast
  moreover have "ends_after B (NextOffset lL) b (ee_StartOffset x)"
    if x: "x \<in> set (K @ A)" "b \<in> set B" "sint (ee_Epoch x) < sint (ee_Epoch b)" "sint (ee_Epoch b) < sint (ee_Epoch (last (K @ A)))" for x b
  proof -
    obtain B1 B2 where b: "B = B1 @ b # B2" using x(2) by (meson split_list)
    then have "EL = (K @ B1) @ b # B2" using B by simp
    then have "ee_StartOffset x < next_start B2 (NextOffset lL)" using ov x A unfolding overlapping_def by blast
    then show ?thesis using b by (auto simp: ends_after_def)
  qed
  moreover have "epochs_ok EF" "epochs_ok EL" using c by (simp_all add: cached_def EF_def EL_def)
  ultimately have "parted K A B (OldestOffset lF) (NextOffset lF) (NextOffset lL)"
    using sF(1,2) sL(1,2) la o' ne A B unfolding parted_def by (simp add: EF_def [symmetric])
  then show ?thesis using that A B by (simp add: EF_def EL_def)
qed

section \<open>The search\<close>

lemma end_reference_end:
  assumes "end_reference es r n = Some a"
  shows "eo_EndOffset a = n \<or> (\<exists>e\<in>set es. eo_EndOffset a = ee_StartOffset e)"
proof -
  define X where "X = filter (\<lambda>e. sint (ee_Epoch e) \<le> sint r) es"
  define Y where "Y = filter (\<lambda>e. sint r < sint (ee_Epoch e)) es"
  have Y: "y \<in> set es" if "y \<in> set Y" for y using that by (simp add: Y_def)
  show ?thesis using assms Y unfolding end_reference_def X_def [symmetric] Y_def [symmetric]
    by (cases X; cases Y) (auto split: if_splits)
qed

lemma fork_ge: "parted K A B o' nF nL \<Longrightarrow> o' \<le> fork A B nF nL"
proof -
  assume P: "parted K A B o' nF nL"
  have *: "o' \<le> next_start X n" if "epochs_ok (K @ X)" "K @ X \<noteq> []" "ee_StartOffset (hd (K @ X)) = o'" "\<forall>e\<in>set (K @ X). ee_StartOffset e \<le> n" for X n
  proof (cases X)
    case Nil
    then show ?thesis using that by (cases K) (auto simp: next_start_def)
  next
    case (Cons x X')
    then show ?thesis using hd_start_le [OF that(1), of x] that(3) by (simp add: next_start_def)
  qed
  show ?thesis using * [of A nF] * [of B nL] P by (simp add: parted_def fork_def)
qed

lemma sint_small: "unat (t :: u64) < 2 ^ 63 \<Longrightarrow> 0 \<le> sint t"
  using sint_word_of_nat [of "unat t", where 'l = 64] by simp

text \<open>Every offset an answer can name is between two batches of the follower.\<close>

definition aligned :: "EpochEntry list \<Rightarrow> u64 \<Rightarrow> bytes list \<Rightarrow> u64 \<Rightarrow> bool" where
  "aligned es n bF o' \<longleftrightarrow> (\<forall>t. t = n \<or> (\<exists>e\<in>set es. t = ee_StartOffset e) \<longrightarrow> unat t \<le> unat o' + total_records bF \<longrightarrow> boundary bF o' t)"

definition earlier :: "EpochEntry list \<Rightarrow> i32 \<Rightarrow> nat" where
  "earlier es f = length (filter (\<lambda>e. sint (ee_Epoch e) \<le> sint f) es)"

lemma earlier_less:
  assumes "x \<in> set es" and "ee_Epoch x = f" and "sint f' < sint f"
  shows "earlier es f' < earlier es f"
proof -
  obtain xs ys where es: "es = xs @ x # ys" using assms(1) by (meson split_list)
  have le: "length (filter (\<lambda>e. sint (ee_Epoch e) \<le> sint f') zs) \<le> length (filter (\<lambda>e. sint (ee_Epoch e) \<le> sint f) zs)" for zs
    using assms(3) by (induction zs) auto
  show ?thesis using le [of xs] le [of ys] es assms(2,3) by (simp add: earlier_def)
qed

lemma follows_cut_bound: "follows_cut es nF o' bF p bsp \<Longrightarrow> unat (LEO p) \<le> unat o' + total_records bF"
  using log_next [of "pt_log p" bsp] by (auto simp: follows_cut_def part_ok_def LEO_def prefix_def)

lemma truncate_if:
  assumes F: "follows_cut (K @ A) nF o' bF p bsp" and P: "parted K A B o' nF nL" and t: "t \<le> LEO p" and fk: "fork A B nF nL \<le> t"
    and io: "cuts_ok io" and small: "unat nF < 2 ^ 63"
  shows "\<exists>r p' bsp'. (if t < LEO p then Partition_TruncateTo io t p else Some (Inr (), p)) = Some (r, p') \<and>
    follows_cut (K @ A) nF o' bF p' bsp' \<and> same_assignment p p' \<and> pt_highWatermark p' = min (pt_highWatermark p) (LEO p') \<and>
    (r = Inr () \<longrightarrow> LEO p' = t) \<and> fork A B nF nL \<le> LEO p' \<and> LEO p' \<le> LEO p \<and>
    ((t < LEO p \<longrightarrow> boundary bF o' t) \<longrightarrow> li_checkpoint io = no_fault \<longrightarrow> r = Inr ())"
proof (cases "t < LEO p")
  case False
  then have "t = LEO p" using t by simp
  moreover have "pt_highWatermark p = min (pt_highWatermark p) (LEO p)" using F by (simp add: follows_cut_def part_ok_def min_def)
  ultimately show ?thesis using F fk by (intro exI [of _ "Inr ()"] exI [of _ p] exI [of _ bsp]) simp
next
  case True
  have okA: "epochs_ok (K @ A)" and leA: "\<forall>e\<in>set (K @ A). ee_StartOffset e \<le> nF" using P by (simp_all add: parted_def)
  have "unat (ee_StartOffset e) < 2 ^ 63" if "e \<in> set (history_cut (K @ A) nF (LEO p))" for e
    using leA of_cut [OF that] small unfolding word_le_nat_alt by (metis order_le_less_trans)
  moreover have "epochs_ok (history_cut (K @ A) nF (LEO p))" using okA by (simp add: history_cut_def epochs_ok_takeWhile)
  ultimately have wr: "writable (lg_epochCache (pt_log p))" using F by (simp add: writable_def follows_cut_def)
  have "o' \<le> t" using fork_ge [OF P] fk by (rule order_trans)
  from truncate_cut [OF F this True io] obtain r p' bsp' where p': "Partition_TruncateTo io t p = Some (r, p')" "follows_cut (K @ A) nF o' bF p' bsp'"
      "same_assignment p p'" "pt_highWatermark p' = min (pt_highWatermark p) (LEO p')"
      "LEO p' = t \<and> (li_checkpoint io = no_fault \<longrightarrow> r = Inr ()) \<or> p' = p \<and> (\<exists>e. r = Inl e) \<and> \<not> boundary bF o' t"
    using wr by blast
  then show ?thesis using True fk by (intro exI [of _ r] exI [of _ p'] exI [of _ bsp']) auto
qed

lemma cached_aligned:
  assumes c: "cached l bs" and ok: "batches_ok (unat (OldestOffset l)) bs" and n: "unat (NextOffset l) = unat (OldestOffset l) + total_records bs"
  shows "aligned (lec_entries (lg_epochCache l)) (NextOffset l) bs (OldestOffset l)"
proof -
  obtain es where es: "lec_entries (lg_epochCache l) = epoch_history None bs @ es" "\<forall>e\<in>set es. ee_StartOffset e = NextOffset l"
    using c by (auto simp: cached_def)
  have "boundary bs (OldestOffset l) (NextOffset l)" using n by (auto simp: boundary_def)
  moreover have "boundary bs (OldestOffset l) (ee_StartOffset e)" if "e \<in> set (epoch_history None bs)" for e
    using history_starts [OF ok that] by (simp add: boundary_def)
  ultimately show ?thesis using es by (auto simp: aligned_def)
qed

text \<open>What is left of a log cut at or after the fork.\<close>

lemma cut_contains:
  assumes "prefix xs bF" and "prefix ys bF" and "total_records xs \<le> total_records ys"
  shows "prefix xs ys \<and> (total_records xs = total_records ys \<longrightarrow> xs = ys)"
proof (cases "prefix xs ys")
  case True
  then obtain v where "ys = xs @ v" by (auto elim: prefixE)
  then show ?thesis using total_pos [of v] True by (cases "v = []") simp_all
next
  case False
  then obtain v where "xs = ys @ v" using prefix_same_cases [OF assms(1,2)] by (auto elim: prefixE)
  then show ?thesis using total_pos [of v] assms(3) False by (cases "v = []") simp_all
qed

lemma searching_start:
  assumes P: "parted K A B o' nF nL"
  shows "searching K A B nF nL nF (ee_Epoch (last (K @ A)))"
proof -
  have ne: "K @ A \<noteq> []" and ok: "epochs_ok (K @ A)" and le: "\<forall>e\<in>set (K @ A). ee_StartOffset e \<le> nF" using P unfolding parted_def by blast+
  have "fork A B nF nL \<le> nF" using le by (cases A) (auto simp: fork_def next_start_def min.coboundedI1)
  moreover have "last (K @ A) \<in> set (K @ A)" by (rule last_in_set [OF ne])
  moreover have "K \<noteq> [] \<longrightarrow> sint (ee_Epoch (last K)) \<le> sint (ee_Epoch (last (K @ A)))" using last_epoch_ge [OF ok, of "last K"] by simp
  ultimately show ?thesis unfolding searching_def history_cut_def by (auto intro: bexI [of _ "last (K @ A)"])
qed

text \<open>The contract of the leader: asked for the end of an epoch, it answers from its history.\<close>

locale epoch_source =
  fixes ask :: "'n EpochCall"
    and request :: "i32 \<Rightarrow> OFLERequest"
    and history :: "EpochEntry list"
    and leo :: u64
    and good :: "ReplicaClient \<times> 'n \<Rightarrow> bool"
  assumes answer: "good s \<Longrightarrow> end_reference history f leo = Some a \<Longrightarrow> 0 \<le> sint (eo_Epoch a) \<Longrightarrow> 0 \<le> sint (eo_EndOffset a) \<Longrightarrow>
      \<exists>resp s' rp. ask (request f) s = Some (Inr resp, s') \<and> good s' \<and> epoch_answer resp = Inr rp \<and>
        osp_LeaderEpoch rp = eo_Epoch a \<and> osp_EndOffset rp = eo_EndOffset a"
begin

text \<open>One turn of the loop.\<close>

lemma loop_turn:
  assumes g: "good s" and q: "question (lec_entries (lg_epochCache (pt_log p))) history (LEO p) leo f a l"
    and pos: "0 \<le> sint (eo_Epoch a)" "0 \<le> sint (eo_EndOffset a)" and ok: "epochs_ok (lec_entries (lg_epochCache (pt_log p)))"
  shows "\<exists>s'. good s' \<and> reconcile_loop io ask request (Suc n) f p s =
    (case (if narrowed a l (LEO p) < LEO p then Partition_TruncateTo (io n) (narrowed a l (LEO p)) p else Some (Inr (), p)) of
       None \<Rightarrow> None
     | Some (Inl err, p') \<Rightarrow> Some (Inl (TruncateFailed (narrowed a l (LEO p)) err), p', s')
     | Some (Inr _, p') \<Rightarrow> if eo_Epoch l = eo_Epoch a then Some (Inr (), p', s') else reconcile_loop io ask request n (eo_Epoch l) p' s')"
proof -
  have a: "end_reference history f leo = Some a" and l: "end_reference (lec_entries (lg_epochCache (pt_log p))) (eo_Epoch a) (LEO p) = Some l"
    using q by (simp_all add: question_def)
  obtain resp s' rp where r: "ask (request f) s = Some (Inr resp, s')" "good s'" "epoch_answer resp = Inr rp"
      "osp_LeaderEpoch rp = eo_Epoch a" "osp_EndOffset rp = eo_EndOffset a"
    using answer [OF g a pos] by blast
  have e: "EndOffsetForLeaderEpoch (pt_log p) (osp_LeaderEpoch rp) = Some (Some l)"
    using EndOffsetFor_reference [OF ok] l r(4) by (simp add: EndOffsetForLeaderEpoch_def LEO_def)
  have t: "truncation_offset rp (Some l) (LEO p) = narrowed a l (LEO p)"
    using r(5) by (auto simp: truncation_offset_def min_def Let_def)
  show ?thesis using r(1-4) e t by (intro exI [of _ s']) (simp add: Let_def split: option.split prod.split sum.split)
qed

text \<open>The whole search.\<close>

lemma loop_cuts:
  assumes P: "parted K A B o' nF leo" and H: "history = K @ B" and small: "unat leo < 2 ^ 63" "unat nF < 2 ^ 63" and io: "\<forall>k. cuts_ok (io k)"
    and al: "aligned (K @ A) nF bF o'"
  shows "good s \<Longrightarrow> follows_cut (K @ A) nF o' bF p bsp \<Longrightarrow> searching K A B nF leo (LEO p) f \<Longrightarrow>
    \<exists>r p' s' bsp'. reconcile_loop io ask request n f p s = Some (r, p', s') \<and> good s' \<and> follows_cut (K @ A) nF o' bF p' bsp' \<and>
      same_assignment p p' \<and> fork A B nF leo \<le> LEO p' \<and> LEO p' \<le> LEO p \<and> pt_highWatermark p' = min (pt_highWatermark p) (LEO p') \<and>
      (r = Inr () \<longrightarrow> LEO p' = fork A B nF leo) \<and>
      (earlier (K @ A) f \<le> n \<longrightarrow> aligned (K @ B) leo bF o' \<longrightarrow> (\<forall>k. li_checkpoint (io k) = no_fault) \<longrightarrow> r = Inr ())"
proof (induction n arbitrary: f p s bsp)
  case 0
  have "earlier (K @ A) f \<noteq> 0" using 0(3) of_cut [of _ "K @ A" nF "LEO p"] by (fastforce simp: searching_def earlier_def filter_empty_conv)
  moreover have "fork A B nF leo \<le> LEO p" using 0(3) by (simp add: searching_def)
  moreover have "pt_highWatermark p = min (pt_highWatermark p) (LEO p)" using 0(2) by (simp add: follows_cut_def part_ok_def min_def)
  ultimately show ?case using 0 by (intro exI [of _ "Inl NotConverged"] exI [of _ p] exI [of _ s] exI [of _ bsp]) simp
next
  case (Suc n)
  have ok: "part_ok p bsp" and es: "lec_entries (lg_epochCache (pt_log p)) = history_cut (K @ A) nF (LEO p)" and nF: "LEO p \<le> nF" using Suc.prems(2) by (simp_all add: follows_cut_def)
  obtain g where g: "g \<in> set (K @ A)" "ee_Epoch g = f" and okE: "epochs_ok (history_cut (K @ A) nF (LEO p))"
    using parted_facts [OF P Suc.prems(3)] of_cut by metis
  obtain a l where q: "question (history_cut (K @ A) nF (LEO p)) (K @ B) (LEO p) leo f a l" and fk: "fork A B nF leo \<le> narrowed a l (LEO p)"
    and a: "eo_EndOffset a \<le> leo" "0 \<le> sint (eo_Epoch a)"
    and step: "if eo_Epoch l = eo_Epoch a then narrowed a l (LEO p) = fork A B nF leo
         else sint (eo_Epoch l) < sint f \<and> searching K A B nF leo (narrowed a l (LEO p)) (eo_Epoch l)"
    using question_step [OF P Suc.prems(3)] unfolding narrows_def by blast
  define t where "t = narrowed a l (LEO p)"
  have "0 \<le> sint (eo_EndOffset a)" using a(1) small(1) by (intro sint_small) (simp add: word_le_nat_alt)
  then obtain s' where s': "good s'" "reconcile_loop io ask request (Suc n) f p s =
    (case (if t < LEO p then Partition_TruncateTo (io n) t p else Some (Inr (), p)) of
       None \<Rightarrow> None
     | Some (Inl err, p') \<Rightarrow> Some (Inl (TruncateFailed t err), p', s')
     | Some (Inr _, p') \<Rightarrow> if eo_Epoch l = eo_Epoch a then Some (Inr (), p', s') else reconcile_loop io ask request n (eo_Epoch l) p' s')"
    using loop_turn [OF Suc.prems(1), of p f a l io n] q a(2) es okE H unfolding t_def by auto
  have bd: "boundary bF o' t" if lt: "t < LEO p" and al': "aligned (K @ B) leo bF o'"
  proof -
    have "t = eo_EndOffset a \<or> t = eo_EndOffset l" using lt by (auto simp: t_def min_def split: if_splits)
    moreover have "eo_EndOffset l = LEO p \<or> (\<exists>e\<in>set (K @ A). eo_EndOffset l = ee_StartOffset e)"
      using end_reference_end q of_cut unfolding question_def by metis
    moreover have "eo_EndOffset a = leo \<or> (\<exists>e\<in>set (K @ B). eo_EndOffset a = ee_StartOffset e)"
      using end_reference_end q unfolding question_def by blast
    moreover have "unat t \<le> unat o' + total_records bF" using lt follows_cut_bound [OF Suc.prems(2)] by (simp add: word_less_nat_alt)
    ultimately show ?thesis using al al' lt unfolding aligned_def by (metis less_irrefl)
  qed
  obtain r1 p1 bsp1 where p1: "(if t < LEO p then Partition_TruncateTo (io n) t p else Some (Inr (), p)) = Some (r1, p1)"
      "follows_cut (K @ A) nF o' bF p1 bsp1" "same_assignment p p1" "pt_highWatermark p1 = min (pt_highWatermark p) (LEO p1)"
      "r1 = Inr () \<longrightarrow> LEO p1 = t" "fork A B nF leo \<le> LEO p1" "LEO p1 \<le> LEO p"
      "aligned (K @ B) leo bF o' \<longrightarrow> li_checkpoint (io n) = no_fault \<longrightarrow> r1 = Inr ()"
    using truncate_if [OF Suc.prems(2) P _ fk [folded t_def] _ small(2), of "io n"] io bd Suc.prems(3) by (auto simp: t_def searching_def)
  show ?case
  proof (cases "r1 = Inr () \<and> eo_Epoch l \<noteq> eo_Epoch a")
    case True
    then have S: "searching K A B nF leo (LEO p1) (eo_Epoch l)" and lt: "sint (eo_Epoch l) < sint f" using step p1(5) by (simp_all add: t_def)
    obtain r p' s'' bsp' where IH: "reconcile_loop io ask request n (eo_Epoch l) p1 s' = Some (r, p', s'')" "good s''" "follows_cut (K @ A) nF o' bF p' bsp'"
        "same_assignment p1 p'" "fork A B nF leo \<le> LEO p'" "LEO p' \<le> LEO p1" "pt_highWatermark p' = min (pt_highWatermark p1) (LEO p')"
        "r = Inr () \<longrightarrow> LEO p' = fork A B nF leo"
        "earlier (K @ A) (eo_Epoch l) \<le> n \<longrightarrow> aligned (K @ B) leo bF o' \<longrightarrow> (\<forall>k. li_checkpoint (io k) = no_fault) \<longrightarrow> r = Inr ()"
      using Suc.IH [OF s'(1) p1(2) S] by blast
    have "reconcile_loop io ask request (Suc n) f p s = Some (r, p', s'')" using s'(2) p1(1) True IH(1) by simp
    moreover have "same_assignment p p'" using p1(3) IH(4) by (rule same_assignment_trans)
    moreover have "LEO p' \<le> LEO p" using IH(6) p1(7) by (rule order_trans)
    moreover have "pt_highWatermark p' = min (pt_highWatermark p) (LEO p')" using IH(6,7) p1(4) by (simp add: min.absorb2 min.assoc)
    moreover have "earlier (K @ A) f \<le> Suc n \<longrightarrow> earlier (K @ A) (eo_Epoch l) \<le> n" using earlier_less [OF g lt] by linarith
    ultimately show ?thesis using IH(2,3,5,8,9) by blast
  next
    case False
    have "\<exists>r. reconcile_loop io ask request (Suc n) f p s = Some (r, p1, s') \<and> (r = Inr () \<longleftrightarrow> r1 = Inr ())"
      using s'(2) p1(1) False by (cases r1) auto
    moreover have "r1 = Inr () \<longrightarrow> LEO p1 = fork A B nF leo" using False p1(5) step by (auto simp: t_def)
    ultimately show ?thesis using p1 s'(1) by blast
  qed
qed

text \<open>Reconciling a partition.\<close>

lemma reconcile_cuts:
  assumes R: "reconcilable (pt_log f) (concat bsf) lL bL" and H: "history = lec_entries (lg_epochCache lL)" "leo = NextOffset lL"
    and L: "log_rep lL bsl" "bL = concat bsl" and okf: "part_ok f bsf" and fl: "\<not> pt_isLeader f" and rb: "rebuildable (pt_log f) bsf"
    and small: "unat leo < 2 ^ 63" "unat (LEO f) < 2 ^ 63" and io: "\<forall>k. cuts_ok (io k)" and g: "good s"
    and rq: "request = epoch_request b key ce"
  defines "C \<equiv> longest_common_prefix (concat bsf) bL"
  shows "\<exists>r f' s' bsf'. reconcilePartition io ask b key ce f s = Some (r, f', s') \<and> good s' \<and> part_ok f' bsf' \<and> same_assignment f f' \<and>
    OldestOffset (pt_log f') = OldestOffset (pt_log f) \<and> prefix C (concat bsf') \<and> prefix (concat bsf') (concat bsf) \<and>
    pt_highWatermark f' = min (pt_highWatermark f) (LEO f') \<and> (r = Inr () \<longrightarrow> concat bsf' = C) \<and>
    (length (lec_entries (lg_epochCache (pt_log f))) \<le> 32 \<longrightarrow> aligned history leo (concat bsf) (OldestOffset (pt_log f)) \<longrightarrow>
       (\<forall>k. li_checkpoint (io k) = no_fault) \<longrightarrow> r = Inr ())"
proof -
  let ?EF = "lec_entries (lg_epochCache (pt_log f))" and ?o = "OldestOffset (pt_log f)"
  have rep: "log_rep (pt_log f) bsf" and hw: "pt_highWatermark f = min (pt_highWatermark f) (LEO f)" using okf by (simp_all add: part_ok_def min_def)
  have cF: "cached (pt_log f) (concat bsf)" and cL: "cached lL bL" and oL: "OldestOffset lL = ?o" and m: "batches_match (concat bsf) bL"
    using R by (simp_all add: reconcilable_def)
  have okF: "batches_ok (unat ?o) (concat bsf)" "unat (NextOffset (pt_log f)) = unat ?o + total_records (concat bsf)"
    and okL: "batches_ok (unat ?o) bL" "unat (NextOffset lL) = unat ?o + total_records bL"
    using log_rep_chain [OF rep] log_next [OF rep] log_rep_chain [OF L(1)] log_next [OF L(1)] L(2) oL by simp_all
  show ?thesis
  proof (cases "?EF = []")
    case True
    then have "concat bsf = []" by (rule cached_starts(3) [OF cF okF])
    then have "concat bsf = C" by (simp only: C_def longest_common_prefix.simps)
    moreover have "reconcilePartition io ask b key ce f s = Some (Inr (), f, s)" using True by (simp add: reconcilePartition_def LatestLeaderEpoch_def Entries_def Let_def)
    ultimately show ?thesis using okf g hw by (intro exI [of _ "Inr ()"] exI [of _ f] exI [of _ s] exI [of _ bsf]) simp
  next
    case False
    obtain K A B where E: "?EF = K @ A" "lec_entries (lg_epochCache lL) = K @ B" and P: "parted K A B ?o (LEO f) leo"
      using reconcilable_parted [OF R rep refl L False] H(2) by (metis LEO_def)
    have fc: "follows_cut (K @ A) (LEO f) ?o (concat bsf) f bsf" using okf fl rb E(1) by (simp add: follows_cut_def history_cut_def)
    have al: "aligned (K @ A) (LEO f) (concat bsf) ?o" using cached_aligned [OF cF okF] E(1) by (simp add: LEO_def)
    have fk: "unat (fork A B (LEO f) leo) = unat ?o + total_records C"
      using fork_prefix [OF P E(1,2) cF cL okF(1) okL(1) _ _ _ _ m] okF(2) okL(2) H(2) by (simp add: C_def LEO_def)
    have S: "searching K A B (LEO f) leo (LEO f) (ee_Epoch (last ?EF))" using searching_start [OF P] E(1) by simp
    have rc: "reconcilePartition io ask b key ce f s = reconcile_loop io ask request 32 (ee_Epoch (last ?EF)) f s"
      using False rq by (simp add: reconcilePartition_def LatestLeaderEpoch_def Entries_def Let_def)
    obtain r f' s' bsf' where l: "reconcile_loop io ask request 32 (ee_Epoch (last ?EF)) f s = Some (r, f', s')" "good s'"
        "follows_cut (K @ A) (LEO f) ?o (concat bsf) f' bsf'" "same_assignment f f'" "fork A B (LEO f) leo \<le> LEO f'"
        "pt_highWatermark f' = min (pt_highWatermark f) (LEO f')" "r = Inr () \<longrightarrow> LEO f' = fork A B (LEO f) leo"
        "earlier (K @ A) (ee_Epoch (last ?EF)) \<le> 32 \<longrightarrow> aligned (K @ B) leo (concat bsf) ?o \<longrightarrow> (\<forall>k. li_checkpoint (io k) = no_fault) \<longrightarrow> r = Inr ()"
      using loop_cuts [OF P _ small io al g fc S] E(2) H(1) by blast
    have f': "part_ok f' bsf'" "OldestOffset (pt_log f') = ?o" "prefix (concat bsf') (concat bsf)" using l(3) by (simp_all add: follows_cut_def)
    have leo': "unat (LEO f') = unat ?o + total_records (concat bsf')" using f'(1,2) log_next [of "pt_log f'" bsf'] by (simp add: part_ok_def LEO_def)
    have "prefix C (concat bsf) " unfolding C_def by (rule longest_common_prefix_prefix1)
    moreover have "total_records C \<le> total_records (concat bsf')" using l(5) fk leo' by (simp add: word_le_nat_alt)
    ultimately have C: "prefix C (concat bsf') \<and> (total_records C = total_records (concat bsf') \<longrightarrow> C = concat bsf')" using f'(3) cut_contains by blast
    have "r = Inr () \<longrightarrow> concat bsf' = C" using l(7) fk leo' C by auto
    moreover have "earlier (K @ A) (ee_Epoch (last ?EF)) \<le> length ?EF" unfolding E(1) earlier_def by (rule length_filter_le)
    ultimately show ?thesis using rc l f' C E H(1) by (intro exI [of _ r] exI [of _ f'] exI [of _ s'] exI [of _ bsf']) auto
  qed
qed

end

end
