(* ===== verification/Cluster.thy ===== *)
theory Cluster
  imports ReconcileRep HandlerFlow
begin

text \<open>
  A follower and its leader together: the calls of the follower's client are answered by the leader's server
  and handler, over a network that loses nothing.
\<close>

section \<open>Calls\<close>

definition fresh_conn :: Conn where
  "fresh_conn = \<lparr>cn_out = [], cn_tcp = True, cn_writes = [], cn_sends = []\<rparr>"

text \<open>What the leader makes of the bytes of a request: the bytes it sends back, and its state afterwards.\<close>

definition leader_replies :: "i32 \<Rightarrow> RequestEnv \<Rightarrow> bytes \<Rightarrow> Handler \<Rightarrow> (Attempt \<times> Handler) option" where
  "leader_replies maxReqBytes env sent h =
     map_option (\<lambda>(conn, h). (\<lparr>at_dialFails = False, at_deadlineFails = False, at_write = WriteOk, at_arrives = cn_out conn, at_shutdown = False\<rparr>, h))
       (serve maxReqBytes (Handle env) None sent fresh_conn h)"

definition remote_epochs :: "i32 \<Rightarrow> RequestEnv \<Rightarrow> Handler EpochCall" where
  "remote_epochs maxReqBytes env req = (\<lambda>(c, h).
     (case leader_replies maxReqBytes env (request_frame (next_header c APIKeyOffsetsForLeaderEpoch 3, EncodeOffsetsForLeaderEpochRequest req 3)) h of
        None \<Rightarrow> None
      | Some (a, h) \<Rightarrow> map_option (\<lambda>(r, c). (r, c, h)) (Client_OffsetsForLeaderEpoch a a req 3 c)))"

definition remote_fetch :: "i32 \<Rightarrow> RequestEnv \<Rightarrow> Handler FetchCall" where
  "remote_fetch maxReqBytes env req = (\<lambda>(c, h).
     (case leader_replies maxReqBytes env (request_frame (next_header c APIKeyFetch 9, EncodeFetchRequest req 9)) h of
        None \<Rightarrow> None
      | Some (a, h) \<Rightarrow> map_option (\<lambda>(r, c). (r, c, h)) (Client_Fetch a a req 9 c)))"

text \<open>A request the leader answers with a body that is not too long.\<close>

lemma leader_replies_to:
  assumes r: "request_ok n (h, body)" and hd: "Handle env h body s = Some (Inr (Some resp), s')" and ok: "resp_ok resp"
    and len: "5 + length (resp_data resp) \<le> maxReplicaResponseBytes"
  shows "\<exists>a. leader_replies n env (request_frame (h, body)) s = Some (a, s') \<and> clean_attempt a \<and> at_arrives a = response_frame h (resp_data resp)"
proof -
  have "5 + int (length (resp_data resp)) \<le> 2 ^ 32 - 1" using len by (simp add: maxReplicaResponseBytes_def)
  moreover have "smooth fresh_conn" by (simp add: smooth_def fresh_conn_def)
  ultimately have "serve n (Handle env) None (request_frame (h, body)) fresh_conn s = Some (fresh_conn\<lparr>cn_out := response_frame h (resp_data resp)\<rparr>, s')"
    using serve_one [of n h body "Handle env" s resp s' fresh_conn] assms by (simp add: fresh_conn_def)
  then show ?thesis by (simp add: leader_replies_def clean_attempt_def)
qed

lemma sendRequest_clean:
  assumes "idle_client c" and "clean_attempt a" and "at_arrives a = response_frame (next_header c apiKey v) data"
    and "5 + length data \<le> maxReplicaResponseBytes"
  shows "\<exists>c'. sendRequest a a2 apiKey v body c = Some (Inr data, c', [request_frame (next_header c apiKey v, body)]) \<and>
    idle_client c' \<and> rc_clientID c' = rc_clientID c"
proof -
  obtain c' where c': "sendRequestOnce a apiKey v body c = Some (Inr data, c', request_frame (next_header c apiKey v, body))" "idle_client c'"
    using sendRequestOnce_clean [OF assms] by blast
  moreover have "rc_clientID c' = rc_clientID c" using sendRequestOnce_clientID [OF c'(1)] .
  ultimately show ?thesis by (simp add: sendRequest_def)
qed

section \<open>The epochs of a leader\<close>

text \<open>The leader of a partition as the client of a follower finds it.\<close>

definition leads_for :: "i32 \<Rightarrow> topicPartitionKey \<Rightarrow> i32 \<Rightarrow> Partition \<Rightarrow> ReplicaClient \<times> Handler \<Rightarrow> bool" where
  "leads_for maxReqBytes key epoch lp = (\<lambda>(c, h).
     idle_client c \<and> rc_clientID c = gostr ''replica-fetcher'' \<and> ok_str (fst key) \<and> int (length (fst key)) + 100 \<le> sint maxReqBytes \<and>
     TM_GetPartition (hd_topics h) (fst key) (snd key) = Inr lp \<and> pt_isLeader lp \<and> \<not> pt_closed lp \<and> pt_leaderEpoch lp = epoch \<and>
     epochs_ok (lec_entries (lg_epochCache (pt_log lp))))"

definition epoch_response :: "topicPartitionKey \<Rightarrow> EpochEndOffset \<Rightarrow> OFLEResponse" where
  "epoch_response key a =
     \<lparr>os_ThrottleTimeMs = 0, os_Topics = [\<lparr>ost_Name = fst key, ost_Partitions =
        [\<lparr>osp_ErrorCode = 0, osp_Index = snd key, osp_LeaderEpoch = eo_Epoch a, osp_EndOffset = eo_EndOffset a\<rparr>]\<rparr>]\<rparr>"

lemma Handle_epochs:
  assumes L: "leads_for n key ce lp (c, h)" and a: "end_reference (lec_entries (lg_epochCache (pt_log lp))) f (LEO lp) = Some a"
    and hd: "rh_APIKey hdr = APIKeyOffsetsForLeaderEpoch" "rh_APIVersion hdr = 3"
  shows "Handle env hdr (EncodeOffsetsForLeaderEpochRequest (epoch_request b key ce f) 3) h =
    Some (Inr (Some (BytesResponse (EncodeOffsetsForLeaderEpochResponse (epoch_response key a) 3))), h)"
proof -
  let ?req = "epoch_request b key ce f"
  have l: "ok_str (fst key)" "TM_GetPartition (hd_topics h) (fst key) (snd key) = Inr lp" "pt_isLeader lp" "\<not> pt_closed lp" "pt_leaderEpoch lp = ce"
    and ok: "epochs_ok (lec_entries (lg_epochCache (pt_log lp)))" using L by (simp_all add: leads_for_def)
  have "ofle_request_ok ?req" "ofle_request_view 3 ?req = ?req" using l(1)
    by (simp_all add: ofle_request_ok_def epoch_request_def ort_ok_def ok_len_def ofle_request_view_def)
  moreover have "fits (or_bytes 3 ?req)" using l(1)
    by (simp add: fits_def or_bytes_def epoch_request_def ofle_array_bytes_def ofle_len_bytes_def ort_bytes_def orp_bytes_def ofle_str_bytes_def tag_bytes_def
        bytes_if_def ok_str_def str_bytes_def)
  ultimately have dec: "DecodeOffsetsForLeaderEpochRequest (EncodeOffsetsForLeaderEpochRequest ?req 3) 3 = Some (Inr ?req)"
    using ofle_request.get_put_new [of ?req 3 "[]"] by (simp add: DecodeOffsetsForLeaderEpochRequest_def EncodeOFLERequest_bytes)
  have "Partition_EndOffsetForLeaderEpoch f ce lp = Some (Inr (Some a))"
    using l EndOffsetFor_reference [OF ok] a by (simp add: Partition_EndOffsetForLeaderEpoch_def validateLeaderEpoch_def EndOffsetForLeaderEpoch_def LEO_def)
  then have "each epoch_topic (or_Topics ?req) (hd_topics h) = Some (os_Topics (epoch_response key a), hd_topics h)"
    using l(2) by (simp add: epoch_request_def epoch_topic_def epoch_partition_def epoch_response_def)
  then have "handleOffsetsForLeaderEpoch hdr (EncodeOffsetsForLeaderEpochRequest ?req 3) (hd_topics h) =
      Some (Inr (Some (BytesResponse (EncodeOffsetsForLeaderEpochResponse (epoch_response key a) 3))), hd_topics h)"
    using dec hd(2) by (simp add: handleOffsetsForLeaderEpoch_def epoch_response_def)
  then show ?thesis using hd(1)
    by (simp add: Handle_def APIKeyOffsetsForLeaderEpoch_def APIKeyApiVersions_def APIKeyProduce_def APIKeyFetch_def APIKeyListOffsets_def Let_def)
qed

lemma replica_client_name: "ok_nstr (Some (gostr ''replica-fetcher''))" "length (gostr ''replica-fetcher'') = 15"
  by (simp_all add: ok_nstr_def ok_str_def gostr_def)

lemma epoch_request_fits:
  assumes "leads_for n key ce lp (c, h)"
  shows "request_ok n (next_header c APIKeyOffsetsForLeaderEpoch 3, EncodeOffsetsForLeaderEpochRequest (epoch_request b key ce f) 3)"
  using assms replica_client_name
  by (simp add: request_ok_def leads_for_def next_header_def request_message_def request_header_bytes_def nstr_bytes_def bytes_if_def put_uvarint.simps
      EncodeOFLERequest_bytes or_bytes_def epoch_request_def ofle_array_bytes_def ofle_len_bytes_def ort_bytes_def orp_bytes_def ofle_str_bytes_def
      str_bytes_def tag_bytes_def)

lemma epoch_response_decoded:
  assumes "ok_str (fst key)"
  shows "DecodeOffsetsForLeaderEpochResponse (EncodeOffsetsForLeaderEpochResponse (epoch_response key a) 3) 3 = Some (Inr (epoch_response key a))"
    and "5 + length (EncodeOffsetsForLeaderEpochResponse (epoch_response key a) 3) \<le> maxReplicaResponseBytes"
proof -
  have len: "length (os_bytes 3 (epoch_response key a)) = length (fst key) + 32"
    by (simp add: os_bytes_def epoch_response_def ofle_array_bytes_def ofle_len_bytes_def ost_bytes_def osp_bytes_def ofle_str_bytes_def
        str_bytes_def tag_bytes_def bytes_if_def)
  then show "5 + length (EncodeOffsetsForLeaderEpochResponse (epoch_response key a) 3) \<le> maxReplicaResponseBytes"
    using assms by (simp add: EncodeOFLEResponse_bytes ok_str_def maxReplicaResponseBytes_def)
  have "fits (os_bytes 3 (epoch_response key a))" using len assms by (simp add: fits_def ok_str_def)
  moreover have "ofle_response_ok (epoch_response key a)" using assms by (simp add: ofle_response_ok_def epoch_response_def ost_ok_def ok_len_def)
  ultimately show "DecodeOffsetsForLeaderEpochResponse (EncodeOffsetsForLeaderEpochResponse (epoch_response key a) 3) 3 = Some (Inr (epoch_response key a))"
    using ofle_response.get_put_new [of "epoch_response key a" 3 "[]"] by (simp add: DecodeOffsetsForLeaderEpochResponse_def EncodeOFLEResponse_bytes)
qed

text \<open>A leader that runs is an epoch source.\<close>

lemma remote_epochs_answer:
  assumes L: "leads_for n key ce lp (c, h)" and a: "end_reference (lec_entries (lg_epochCache (pt_log lp))) f (LEO lp) = Some a"
  shows "\<exists>c'. remote_epochs n env (epoch_request b key ce f) (c, h) = Some (Inr (epoch_response key a), c', h) \<and> leads_for n key ce lp (c', h)"
proof -
  let ?k = "APIKeyOffsetsForLeaderEpoch" and ?data = "EncodeOffsetsForLeaderEpochResponse (epoch_response key a) 3"
  let ?hdr = "next_header c ?k 3" and ?body = "EncodeOffsetsForLeaderEpochRequest (epoch_request b key ce f) 3"
  have idle: "idle_client c" and ok: "ok_str (fst key)" using L by (simp_all add: leads_for_def)
  note d = epoch_response_decoded [OF ok, of a]
  have "Handle env ?hdr ?body h = Some (Inr (Some (BytesResponse ?data)), h)" using Handle_epochs [OF L a, of ?hdr] by (simp add: next_header_def)
  then obtain at where at: "leader_replies n env (request_frame (?hdr, ?body)) h = Some (at, h)" "clean_attempt at" "at_arrives at = response_frame ?hdr ?data"
    using leader_replies_to [OF epoch_request_fits [OF L], where env = env and s = h and resp = "BytesResponse ?data" and s' = h] d(2) by auto
  obtain c' where c': "sendRequest at at ?k 3 ?body c = Some (Inr ?data, c', [request_frame (?hdr, ?body)])" "idle_client c'" "rc_clientID c' = rc_clientID c"
    using sendRequest_clean [OF idle at(2,3) d(2)] by blast
  have "Client_OffsetsForLeaderEpoch at at (epoch_request b key ce f) 3 c = Some (Inr (epoch_response key a), c')"
    using c'(1) d(1) by (simp add: Client_OffsetsForLeaderEpoch_def decoded_def)
  then show ?thesis using at(1) c'(2,3) L by (simp add: remote_epochs_def leads_for_def)
qed

interpretation leader_epochs: epoch_source "remote_epochs n env" "epoch_request b key ce" "lec_entries (lg_epochCache (pt_log lp))" "LEO lp" "leads_for n key ce lp"
  for n env b key ce lp
proof
  fix s :: "ReplicaClient \<times> Handler" and f a
  assume s: "leads_for n key ce lp s" and a: "end_reference (lec_entries (lg_epochCache (pt_log lp))) f (LEO lp) = Some a"
    and pos: "0 \<le> sint (eo_Epoch a)" "0 \<le> sint (eo_EndOffset a)"
  obtain c h where s': "s = (c, h)" by (cases s)
  obtain c' where "remote_epochs n env (epoch_request b key ce f) s = Some (Inr (epoch_response key a), c', h)" "leads_for n key ce lp (c', h)"
    using remote_epochs_answer [of n key ce lp c h f a env b] s a s' by blast
  moreover have "epoch_answer (epoch_response key a) = Inr (hd (ost_Partitions (hd (os_Topics (epoch_response key a)))))"
    using pos by (simp add: epoch_answer_def epoch_response_def)
  ultimately show "\<exists>resp s' rp. remote_epochs n env (epoch_request b key ce f) s = Some (Inr resp, s') \<and> leads_for n key ce lp s' \<and>
      epoch_answer resp = Inr rp \<and> osp_LeaderEpoch rp = eo_Epoch a \<and> osp_EndOffset rp = eo_EndOffset a"
    by (simp add: epoch_response_def)
qed

section \<open>A fetch of a follower\<close>

definition follower_fetch_request :: "i32 \<Rightarrow> topicPartitionKey \<Rightarrow> i32 \<Rightarrow> u64 \<Rightarrow> u64 \<Rightarrow> FetchRequest" where
  "follower_fetch_request b key ce off oldest =
     replica_request b [(fst key, [\<lparr>frp_Index = snd key, frp_CurrentLeaderEpoch = ce, frp_FetchOffset = off,
       frp_LogStartOffset = oldest, frp_MaxBytes = push_bit 20 1\<rparr>])]"

lemma request_decoded:
  assumes "ok_str (fst key)"
  shows "DecodeFetchRequest (EncodeFetchRequest (follower_fetch_request b key ce off oldest) 9) 9 = Some (Inr (follower_fetch_request b key ce off oldest))"
proof -
  let ?r = "follower_fetch_request b key ce off oldest"
  have "fetch_request_ok ?r" "fetch_request_view 9 ?r = ?r" using assms
    by (simp_all add: fetch_request_ok_def fetch_request_view_def follower_fetch_request_def replica_request_def frt_ok_def frt_view_def frp_view_def ok_len_def ok_str_def)
  moreover have "fits (fr_bytes 9 ?r)" using assms
    by (simp add: fits_def fr_bytes_def follower_fetch_request_def replica_request_def array_bytes_def frt_bytes_def frp_bytes_def str_bytes_def bytes_if_def ok_str_def)
  ultimately show ?thesis using fetch_request.get_put_new [of ?r 9 "[]"] by (simp add: DecodeFetchRequest_def EncodeFetchRequest_bytes)
qed

lemma fetch_request_fits:
  assumes "leads_for n key ce lp (c, h)"
  shows "request_ok n (next_header c APIKeyFetch 9, EncodeFetchRequest (follower_fetch_request b key ce off oldest) 9)"
  using assms replica_client_name
  by (simp add: request_ok_def leads_for_def next_header_def request_message_def request_header_bytes_def nstr_bytes_def bytes_if_def put_uvarint.simps
      EncodeFetchRequest_bytes fr_bytes_def follower_fetch_request_def replica_request_def array_bytes_def frt_bytes_def frp_bytes_def str_bytes_def)

text \<open>The leader reads the batches that continue the follower's log.\<close>

lemma leader_reads:
  assumes rp: "replicates f bsf lp bsl" and lead: "pt_isLeader lp" "\<not> pt_closed lp" and b: "0 \<le> sint b" and more: "LEO f < LEO lp"
  shows "\<exists>x lp' d y. FetchRaw (LEO f) b m lp = Some (Inr x, lp') \<and> fr_Records x = Some d \<and> d \<noteq> [] \<and>
    FetchRawRanges (LEO f) b m True lp = Some (Inr y, lp') \<and> fg_HighWatermark y = fr_HighWatermark x \<and>
    fg_RecordsSize y = int (length d) \<and> concat (map range_bytes (fg_Ranges y)) = d \<and> list_all range_fits (fg_Ranges y) \<and>
    fg_RecordsSize y = sum_list (map rr_Length (fg_Ranges y)) \<and> (\<exists>u\<in>set (concat bsl). length d \<le> max (nat (sint m)) (length u))"
proof -
  have ok: "part_ok lp bsl" and okf: "part_ok f bsf" and same: "OldestOffset (pt_log f) = OldestOffset (pt_log lp)" using rp by (simp_all add: replicates_def)
  have ge: "OldestOffset (pt_log lp) \<le> LEO f" using okf same by (auto simp: part_ok_def)
  obtain as u zs upTo where rd: "ReadRaw (pt_log lp) (LEO f) m = Some (concat (u # zs), upTo)" "list_all raw_ok (u # zs)"
    using read_for_offset [OF ok ge more] by blast
  obtain q where q: "updateFollowerLEO b (LEO f) lp = Some q" using updateFollowerLEO_sound [OF ok] by blast
  define x where "x = \<lparr>fr_Records = Some (concat (u # zs)), fr_HighWatermark = pt_highWatermark q, fr_LogStartOffset = OldestOffset (pt_log lp), fr_FetchedUpTo = upTo\<rparr>"
  have F: "FetchRaw (LEO f) b m lp = Some (Inr x, q)"
    using lead b leD [OF ge] more rd(1) q by (auto simp: FetchRaw_def LEO_def x_def Let_def)
  obtain y where y: "FetchRawRanges (LEO f) b m True lp = Some (Inr y, q)" "same_read x y" using FetchRawRanges_FetchRaw [OF ok F] by auto
  have r: "ranges_data (fg_Ranges y) = Some (concat (u # zs))" "fg_RecordsSize y = int (length (concat (u # zs)))" "fg_HighWatermark y = fr_HighWatermark x"
    using y(2) by (simp_all add: same_read_def x_def)
  note fr = fetched_ranges [OF ok y(1)]
  have "raw_ok u" using rd(2) by simp
  then have ne: "concat (u # zs) \<noteq> []" by (auto dest: raw_ok_length)
  then have "fg_RecordsSize y \<noteq> 0" using r(2) by (simp only: of_nat_eq_0_iff length_0_conv not_False_eq_True)
  then obtain v where v: "v \<in> set (concat bsl)" "fg_RecordsSize y \<le> max (sint m) (int (length v))" using fr by blast
  have "length (concat (u # zs)) \<le> max (nat (sint m)) (length v)" using v(2) unfolding r(2) le_max_iff_disj by linarith
  then have "\<exists>v\<in>set (concat bsl). length (concat (u # zs)) \<le> max (nat (sint m)) (length v)" using v(1) by blast
  moreover have "concat (map range_bytes (fg_Ranges y)) = concat (u # zs)" using ranges_data_bytes [OF r(1)] fr by simp
  ultimately show ?thesis using F y(1) r ne fr by (intro exI [of _ x] exI [of _ q] exI [of _ "concat (u # zs)"] exI [of _ y]) (simp add: x_def)
qed

definition fetch_reply :: "topicPartitionKey \<Rightarrow> u64 \<Rightarrow> u64 \<Rightarrow> i32 \<Rightarrow> bytes \<Rightarrow> FetchResponse" where
  "fetch_reply key hw start pref d =
     \<lparr>fs_ThrottleTimeMs = 0, fs_ErrorCode = 0, fs_SessionID = 0, fs_Topics = [\<lparr>fst_Name = fst key, fst_Partitions =
       [\<lparr>fsp_Index = snd key, fsp_ErrorCode = 0, fsp_HighWatermark = hw, fsp_LastStableOffset = hw, fsp_LogStartOffset = start,
         fsp_PreferredReadReplica = pref, fsp_Records = Some d\<rparr>]\<rparr>]\<rparr>"

text \<open>A leader that can be read by followers: its batches are not larger than a response can be.\<close>

definition readable :: "bytes list list \<Rightarrow> bool" where
  "readable bsl \<longleftrightarrow> total_records (concat bsl) \<le> 2 ^ 32 \<and> length (concat (concat bsl)) < 2 ^ 63 \<and> (\<forall>u\<in>set (concat bsl). length u \<le> 2 ^ 26)"

lemma Handle_fetch:
  assumes L: "leads_for n key ce lp (c, h)" and rp: "replicates f bsf lp bsl" and b: "0 \<le> sint b" and more: "LEO f < LEO lp"
    and small: "readable bsl" "unat (LEO f) < 2 ^ 63" and hd: "rh_APIKey hdr = APIKeyFetch" "rh_APIVersion hdr = 9"
  shows "\<exists>x lp' d start resp. FetchRaw (LEO f) b (push_bit 20 1) lp = Some (Inr x, lp') \<and> fr_Records x = Some d \<and> d \<noteq> [] \<and> length d \<le> 2 ^ 26 \<and>
    Handle env hdr (EncodeFetchRequest (follower_fetch_request b key ce (LEO f) oldest) 9) h =
      Some (Inr (Some resp), h\<lparr>hd_topics := put_partition (fst key) (snd key) lp' (hd_topics h)\<rparr>) \<and>
    resp_ok resp \<and> resp_data resp = EncodeFetchResponse (fetch_reply key (fr_HighWatermark x) start (- 1) d) 9"
proof -
  let ?req = "follower_fetch_request b key ce (LEO f) oldest" and ?tm = "hd_topics h" and ?m = "push_bit 20 1 :: i32"
  have l: "ok_str (fst key)" "TM_GetPartition ?tm (fst key) (snd key) = Inr lp" "pt_isLeader lp" "\<not> pt_closed lp" "pt_leaderEpoch lp = ce"
    using L by (simp_all add: leads_for_def)
  obtain x lp' d y where x: "FetchRaw (LEO f) b ?m lp = Some (Inr x, lp')" "fr_Records x = Some d" "d \<noteq> []"
      "FetchRawRanges (LEO f) b ?m True lp = Some (Inr y, lp')" "fg_HighWatermark y = fr_HighWatermark x" "fg_RecordsSize y = int (length d)"
      "concat (map range_bytes (fg_Ranges y)) = d" "list_all range_fits (fg_Ranges y)" "fg_RecordsSize y = sum_list (map rr_Length (fg_Ranges y))"
      "\<exists>u\<in>set (concat bsl). length d \<le> max (nat (sint ?m)) (length u)"
    using leader_reads [OF rp l(3,4) b more, of ?m] by blast
  obtain u where u: "u \<in> set (concat bsl)" "length d \<le> max (2 ^ 20) (length u)" using x(10) by (auto simp: push_bit_eq_mult)
  moreover have "length u \<le> 2 ^ 26" using small(1) u(1) unfolding readable_def by blast
  ultimately have len: "length d \<le> 2 ^ 26" by (auto simp: le_max_iff_disj)
  have nn: "0 \<le> sint (LEO f)" using small(2) by (rule sint_small)
  have bud: "part_budget ?m (sint (push_bit 20 4 :: i32)) = ?m" by (simp add: part_budget_def push_bit_eq_mult)
  define r where "r = (new_stream_partition (hd (frt_Partitions (hd (fr_Topics ?req)))))\<lparr>sm_highWatermark := fg_HighWatermark y, sm_lastStableOffset := fg_HighWatermark y,
      sm_logStartOffset := fg_LogStartOffset y, sm_recordsSize := fg_RecordsSize y, sm_ranges := fg_Ranges y\<rparr>"
  define resp where "resp = \<lparr>ss_throttleTimeMs = 0, ss_errorCode = 0, ss_sessionID = 0, ss_topics = [\<lparr>st_name = fst key, st_partitions = [r]\<rparr>]\<rparr>"
  obtain s where s: "fetchOnePass ?req ?tm = Some (resp, s)" "fp_topics s = put_partition (fst key) (snd key) lp' ?tm" "fp_totalBytes s = int (length d)"
    using x(4,6) l(2,3,5) nn bud
    by (simp add: fetchOnePass_def follower_fetch_request_def replica_request_def fetch_topic_def fetch_partition_def IsLeader_def LeaderEpoch_def
        validateLeaderEpoch_def resp_def r_def Let_def)
  have "1 \<le> int (length d)" using x(3) by (cases d) auto
  then have lp: "fetch_loop (re_clock env) (re_others env) ?req dl 0 ?tm = Some (resp, put_partition (fst key) (snd key) lp' ?tm)" for dl
    using s by (subst fetch_loop.simps) (simp add: follower_fetch_request_def replica_request_def)
  have "stream_ok resp" using x(6,8,9) len by (simp add: stream_ok_def resp_def r_def sm_ok_def)
  then obtain cr where cr: "encodeFetchStreamResponse resp 9 = Some cr" "resp_ok cr" "resp_data cr = EncodeFetchResponse (plain_response resp) 9"
    using encodeFetchStreamResponse_bytes by blast
  have "plain_response resp = fetch_reply key (fr_HighWatermark x) (fg_LogStartOffset y) (- 1) d"
    using x(5,7) by (simp add: plain_response_def plain_topic_def plain_partition_def fetch_reply_def resp_def r_def sm_records_def new_stream_partition_def
        follower_fetch_request_def replica_request_def)
  moreover have "Handle env hdr (EncodeFetchRequest ?req 9) h = Some (Inr (Some cr), h\<lparr>hd_topics := put_partition (fst key) (snd key) lp' ?tm\<rparr>)"
    using hd lp cr(1) request_decoded [OF l(1)] by (simp add: Handle_def handleFetch_def APIKeyFetch_def APIKeyApiVersions_def APIKeyProduce_def Let_def)
  ultimately show ?thesis using x(1-3) len cr(2,3) by (intro exI [of _ x] exI [of _ lp'] exI [of _ d] exI [of _ "fg_LogStartOffset y"] exI [of _ cr]) simp
qed

lemma reply_decoded:
  assumes "ok_str (fst key)" and "length d \<le> 2 ^ 26"
  shows "DecodeFetchResponse (EncodeFetchResponse (fetch_reply key hw start pref d) 9) 9 = Some (Inr (fetch_reply key hw start 0 d))"
    and "5 + length (EncodeFetchResponse (fetch_reply key hw start pref d) 9) \<le> maxReplicaResponseBytes"
proof -
  let ?r = "fetch_reply key hw start pref d"
  have len: "length (fs_bytes 9 ?r) = length (fst key) + length d + 58"
    by (simp add: fs_bytes_def fetch_reply_def array_bytes_def fst_bytes_def fsp_bytes_def str_bytes_def nbytes_bytes_def bytes_if_def)
  then show "5 + length (EncodeFetchResponse ?r 9) \<le> maxReplicaResponseBytes"
    using assms by (simp add: EncodeFetchResponse_bytes ok_str_def maxReplicaResponseBytes_def)
  have "fits (fs_bytes 9 ?r)" using len assms by (simp add: fits_def ok_str_def)
  moreover have "fetch_response_ok ?r" using assms by (simp add: fetch_response_ok_def fetch_reply_def fst_ok_def fsp_ok_def ok_len_def ok_nbytes_def ok_bytes_def)
  moreover have "fetch_response_view 9 ?r = fetch_reply key hw start 0 d" by (simp add: fetch_response_view_def fst_view_def fsp_view_def fetch_reply_def)
  ultimately show "DecodeFetchResponse (EncodeFetchResponse ?r 9) 9 = Some (Inr (fetch_reply key hw start 0 d))"
    using fetch_response.get_put_new [of ?r 9 "[]"] by (simp add: DecodeFetchResponse_def EncodeFetchResponse_bytes)
qed

lemma remote_fetch_answer:
  assumes L: "leads_for n key ce lp (c, h)" and rp: "replicates f bsf lp bsl" and b: "0 \<le> sint b" and more: "LEO f < LEO lp"
    and small: "readable bsl" "unat (LEO f) < 2 ^ 63"
  shows "\<exists>x lp' d start c' h'. FetchRaw (LEO f) b (push_bit 20 1) lp = Some (Inr x, lp') \<and> fr_Records x = Some d \<and>
    remote_fetch n env (follower_fetch_request b key ce (LEO f) oldest) (c, h) = Some (Inr (fetch_reply key (fr_HighWatermark x) start 0 d), c', h') \<and>
    leads_for n key ce lp' (c', h')"
proof -
  let ?k = "APIKeyFetch" and ?req = "follower_fetch_request b key ce (LEO f) oldest"
  let ?hdr = "next_header c ?k 9" and ?body = "EncodeFetchRequest (follower_fetch_request b key ce (LEO f) oldest) 9"
  have l: "idle_client c" "ok_str (fst key)" "TM_GetPartition (hd_topics h) (fst key) (snd key) = Inr lp" using L by (simp_all add: leads_for_def)
  obtain x lp' d start resp where x: "FetchRaw (LEO f) b (push_bit 20 1) lp = Some (Inr x, lp')" "fr_Records x = Some d" "length d \<le> 2 ^ 26"
      "Handle env ?hdr ?body h = Some (Inr (Some resp), h\<lparr>hd_topics := put_partition (fst key) (snd key) lp' (hd_topics h)\<rparr>)"
      "resp_ok resp" "resp_data resp = EncodeFetchResponse (fetch_reply key (fr_HighWatermark x) start (- 1) d) 9"
    using Handle_fetch [OF L rp b more small, of ?hdr env oldest] by (auto simp: next_header_def)
  define h' where "h' = h\<lparr>hd_topics := put_partition (fst key) (snd key) lp' (hd_topics h)\<rparr>"
  note d = reply_decoded [OF l(2) x(3), of "fr_HighWatermark x" start "- 1"]
  obtain at where at: "leader_replies n env (request_frame (?hdr, ?body)) h = Some (at, h')" "clean_attempt at" "at_arrives at = response_frame ?hdr (resp_data resp)"
    using leader_replies_to [OF fetch_request_fits [OF L] x(4,5)] d(2) x(6) unfolding h'_def by auto
  obtain c' where c': "sendRequest at at ?k 9 ?body c = Some (Inr (resp_data resp), c', [request_frame (?hdr, ?body)])" "idle_client c'" "rc_clientID c' = rc_clientID c"
    using sendRequest_clean [OF l(1) at(2,3)] d(2) x(6) by auto
  have "Client_Fetch at at ?req 9 c = Some (Inr (fetch_reply key (fr_HighWatermark x) start 0 d), c')"
    using c'(1) d(1) x(6) by (simp add: Client_Fetch_def decoded_def)
  then have call: "remote_fetch n env ?req (c, h) = Some (Inr (fetch_reply key (fr_HighWatermark x) start 0 d), c', h')"
    using at(1) by (simp add: remote_fetch_def)
  have okp: "part_ok lp bsl" using rp by (simp add: replicates_def)
  have "read_step lp lp'" using FetchRaw_step [OF okp, of "LEO f" b "push_bit 20 1"] x(1) by auto
  then have "same_assignment lp lp'" "pt_log lp' = pt_log lp" using read_step_sound [OF okp] by blast+
  then have "leads_for n key ce lp' (c', h')" using L c'(2,3) put_get [OF l(3), of lp'] by (simp add: leads_for_def same_assignment_def h'_def)
  then show ?thesis using x(1,2) call by blast
qed

text \<open>What a follower that replicates takes over from its leader fits its log.\<close>

lemma replica_fits:
  assumes rp: "replicates f bsf lp bsl" and b: "0 \<le> sint b" and F: "FetchRaw (LEO f) b m lp = Some (Inr x, lp')" and small: "readable bsl"
  shows "append_fits (pt_log f) (case fr_Records x of None \<Rightarrow> [] | Some d \<Rightarrow> d)"
  unfolding append_fits_def
proof (intro allI impI)
  fix css ds
  assume css: "log_rep (pt_log f) css" and ds: "(case fr_Records x of None \<Rightarrow> [] | Some d \<Rightarrow> d) = concat ds" "list_all scannable ds"
  obtain zs rest where z: "(case fr_Records x of None \<Rightarrow> [] | Some d \<Rightarrow> d) = concat zs" "list_all raw_ok zs" "concat bsl = concat bsf @ zs @ rest"
    using follower_fetch [OF rp b F] by blast
  have "ds = zs" using raw_unique [of ds zs] scannable_raw [OF ds(2)] z(1,2) ds(1) by simp
  have reps: "log_rep (pt_log f) bsf" "log_rep (pt_log lp) bsl" and o': "OldestOffset (pt_log f) = OldestOffset (pt_log lp)"
    using rp by (simp_all add: replicates_def part_ok_def)
  have c: "css = bsf" "css \<noteq> []" using log_unique [OF css reps(1)] log_rep_ne [OF css] by auto
  note lw = last_within [OF c(2), unfolded c(1)]
  have "unat (NextOffset (pt_log f)) + total_records ds \<le> unat (NextOffset (pt_log lp))"
    using log_next [OF reps(1)] log_next [OF reps(2)] o' z(3) \<open>ds = zs\<close> by simp
  then have "unat (NextOffset (pt_log f)) + total_records ds < 2 ^ 64" using unsigned_less [of "NextOffset (pt_log lp)", where 'a = nat] by simp
  moreover have "pair_small (last css @ ds)" using lw small z(3) \<open>ds = zs\<close> c(1) by (simp add: pair_small_def readable_def)
  ultimately show "unat (NextOffset (pt_log f)) + total_records ds < 2 ^ 64 \<and> pair_small (last css @ ds)" by blast
qed

section \<open>A round of a worker\<close>

definition only_partition :: "leaderFetchWorker \<Rightarrow> topicPartitionKey \<Rightarrow> i32 \<Rightarrow> bool" where
  "only_partition w key ce \<longleftrightarrow> fw_partitions w = [(key, \<lparr>ap_partition = key, ap_leaderEpoch = ce\<rparr>)]"

text \<open>The calls of the worker go to the leader, and no other goroutine changes what the worker uses.\<close>

definition connected :: "i32 \<Rightarrow> RequestEnv \<Rightarrow> Handler FetchEnv \<Rightarrow> bool" where
  "connected n renv env \<longleftrightarrow> ve_ask env = remote_epochs n renv \<and> ve_fetch env = remote_fetch n renv \<and> ve_others env = (\<lambda>_ s. s)"

lemma deref_put:
  assumes "deref tm key = Some f"
  shows "deref (put_partition (fst key) (snd key) f' tm) key = Some f'"
  using assms put_get [of tm "fst key" "snd key"] by (auto simp: deref_def split: sum.splits)

text \<open>The second half of a round, for a reconciled partition.\<close>

definition fetch_half :: "'n FetchEnv \<Rightarrow> nat \<Rightarrow> leaderFetchWorker \<times> TopicManager \<times> 'n \<Rightarrow> (leaderFetchWorker \<times> TopicManager \<times> 'n) option" where
  "fetch_half env k = (\<lambda>(w, tm, n).
     (case request_states tm (filter (\<lambda>(key, assignment). is_reconciled w key assignment) (fw_partitions w)) ([], []) of
        None \<Rightarrow> None
      | Some (requestStates, byTopic) \<Rightarrow>
          if requestStates = [] then Some (w, tm, n)
          else (case ve_fetch env (replica_request (fw_localBrokerID w) byTopic) (fw_client w, n) of
              None \<Rightarrow> None
            | Some (Inl _, client, n) \<Rightarrow> Some (w\<lparr>fw_client := client\<rparr>, tm, n)
            | Some (Inr resp, client, n) \<Rightarrow>
                if fs_ErrorCode resp \<noteq> 0 then Some (w\<lparr>fw_client := client\<rparr>, tm, n)
                else let (w, tm) = ve_others env k (w\<lparr>fw_client := client\<rparr>, tm)
                  in map_option (\<lambda>tm. (w, tm, n)) (apply_response env requestStates resp w tm))))"

lemma fetchOnce_halves:
  assumes "fw_partitions w \<noteq> []"
    and "reconcile_each env 0 (filter (\<lambda>(key, assignment). \<not> is_reconciled w key assignment) (fw_partitions w)) (w, tm, n) = Some s"
  shows "fetchOnce env (w, tm, n) = fetch_half env (length (filter (\<lambda>(key, assignment). \<not> is_reconciled w key assignment) (fw_partitions w))) s"
  using assms by (cases s) (simp add: fetchOnce_def fetch_half_def Let_def)

lemma fetch_half_replicates:
  assumes C: "connected n renv env" and L: "leads_for n key ce lp (fw_client w, h)" and rp: "replicates f bsf lp bsl" and b: "0 \<le> sint (fw_localBrokerID w)"
    and more: "LEO f < LEO lp" and small: "readable bsl" "unat (LEO f) < 2 ^ 63" "unat (LEO lp) < 2 ^ 63"
    and w: "only_partition w key ce" "map_of (fw_reconciled w) key = Some ce" and f: "deref tm key = Some f" "pt_leaderEpoch f = ce"
  shows "\<exists>w' f' bsf' lp' h'. fetch_half env k (w, tm, h) = Some (w', put_partition (fst key) (snd key) f' tm, h') \<and>
    leads_for n key ce lp' (fw_client w', h') \<and> replicates f' bsf' lp' bsl \<and> LEO f \<le> LEO f' \<and> fw_reconciled w' = fw_reconciled w \<and> pt_log lp' = pt_log lp"
proof -
  let ?b = "fw_localBrokerID w" and ?req = "follower_fetch_request (fw_localBrokerID w) key ce (LEO f) (OldestOffset (pt_log f))"
  obtain x lp' d start c' h' where x: "FetchRaw (LEO f) ?b (push_bit 20 1) lp = Some (Inr x, lp')" "fr_Records x = Some d"
      "remote_fetch n renv ?req (fw_client w, h) = Some (Inr (fetch_reply key (fr_HighWatermark x) start 0 d), c', h')" "leads_for n key ce lp' (c', h')"
    using remote_fetch_answer [OF L rp b more small(1,2)] by blast
  obtain r f' bsf' where a: "AppendFromLeader (ve_appendIO env 0) d ce (fr_HighWatermark x) f = Some (r, f')" "replicates f' bsf' lp' bsl" "LEO f \<le> LEO f'"
    using replication_step [OF rp b x(1), of d "ve_appendIO env 0" ce] replica_fits [OF rp b x(1) small(1)] x(2) by auto
  have ff: "fr_HighWatermark x = pt_highWatermark lp'" "part_ok lp' bsl" "pt_log lp' = pt_log lp" using follower_fetch [OF rp b x(1)] by auto
  then have "fr_HighWatermark x \<le> LEO lp" by (simp add: part_ok_def LEO_def)
  then have nn: "0 \<le> sint (fr_HighWatermark x)" using small(3) by (intro sint_small) (simp add: word_le_nat_alt)
  have "request_states tm (filter (\<lambda>(key, assignment). is_reconciled w key assignment) (fw_partitions w)) ([], []) =
      Some ([(key, \<lparr>rs_partition = key, rs_fetchOffset = LEO f, rs_leaderEpoch = ce\<rparr>)],
        [(fst key, [\<lparr>frp_Index = snd key, frp_CurrentLeaderEpoch = ce, frp_FetchOffset = LEO f, frp_LogStartOffset = OldestOffset (pt_log f), frp_MaxBytes = push_bit 20 1\<rparr>])])"
    using w f(1) by (simp add: only_partition_def is_reconciled_def Let_def)
  then have "fetch_half env k (w, tm, h) = map_option (\<lambda>tm. (w\<lparr>fw_client := c'\<rparr>, tm, h'))
      (apply_response env [(key, \<lparr>rs_partition = key, rs_fetchOffset = LEO f, rs_leaderEpoch = ce\<rparr>)] (fetch_reply key (fr_HighWatermark x) start 0 d) (w\<lparr>fw_client := c'\<rparr>) tm)"
    using C x(3) by (simp add: fetch_half_def connected_def follower_fetch_request_def fetch_reply_def)
  moreover have "apply_response env [(key, \<lparr>rs_partition = key, rs_fetchOffset = LEO f, rs_leaderEpoch = ce\<rparr>)] (fetch_reply key (fr_HighWatermark x) start 0 d) (w\<lparr>fw_client := c'\<rparr>) tm =
      Some (put_partition (fst key) (snd key) f' tm)"
    using w(1) f a(1) nn by (simp add: apply_response_def fetch_reply_def apply_partition_def only_partition_def LeaderEpoch_def)
  ultimately show ?thesis using a(2,3) x(4) ff(3) by (intro exI [of _ "w\<lparr>fw_client := c'\<rparr>"] exI [of _ f'] exI [of _ bsf'] exI [of _ lp'] exI [of _ h']) simp
qed

text \<open>The first half: the unreconciled partition is cut back to what it shares with the leader and marked.\<close>

lemma reconcile_half:
  assumes C: "connected n renv env" and L: "leads_for n key ce lp (fw_client w, h)" "part_ok lp bsl" "unat (LEO lp) < 2 ^ 63"
    and w: "only_partition w key ce" and f: "deref tm key = Some f" "part_ok f bsf" "\<not> pt_isLeader f" "rebuildable (pt_log f) bsf" "unat (LEO f) < 2 ^ 63"
    and R: "reconcilable (pt_log f) (concat bsf) (pt_log lp) (concat bsl)"
    and few: "length (lec_entries (lg_epochCache (pt_log f))) \<le> 32" "aligned (lec_entries (lg_epochCache (pt_log lp))) (LEO lp) (concat bsf) (OldestOffset (pt_log f))"
    and io: "\<forall>k. cuts_ok (ve_reconcileIO env key k) \<and> li_checkpoint (ve_reconcileIO env key k) = no_fault"
  shows "\<exists>f' bsf' c' h'. reconcile_each env 0 [(key, \<lparr>ap_partition = key, ap_leaderEpoch = ce\<rparr>)] (w, tm, h) =
      Some (mark_reconciled key \<lparr>ap_partition = key, ap_leaderEpoch = ce\<rparr> (w\<lparr>fw_client := c'\<rparr>), put_partition (fst key) (snd key) f' tm, h') \<and>
    leads_for n key ce lp (c', h') \<and> same_assignment f f' \<and> replicates f' bsf' lp bsl \<and> concat bsf' = longest_common_prefix (concat bsf) (concat bsl) \<and> LEO f' \<le> LEO f"
proof -
  have lL: "log_rep (pt_log lp) bsl" and oL: "OldestOffset (pt_log f) = OldestOffset (pt_log lp)" using L(2) R by (simp_all add: part_ok_def reconcilable_def)
  have io1: "\<forall>k. cuts_ok (ve_reconcileIO env key k)" using io by blast
  obtain r f' c' h' bsf' where r: "reconcilePartition (ve_reconcileIO env key) (remote_epochs n renv) (fw_localBrokerID w) key ce f (fw_client w, h) = Some (r, f', c', h')"
      "leads_for n key ce lp (c', h')" "part_ok f' bsf'" "same_assignment f f'" "OldestOffset (pt_log f') = OldestOffset (pt_log f)"
      "prefix (concat bsf') (concat bsf)" "r = Inr () \<longrightarrow> concat bsf' = longest_common_prefix (concat bsf) (concat bsl)" "r = Inr ()"
    using leader_epochs.reconcile_cuts [OF R refl LEO_def lL refl f(2,3,4) L(3) f(5) io1 L(1) refl] few io by fastforce
  have cp: "concat bsf' = longest_common_prefix (concat bsf) (concat bsl)" using r(7,8) by blast
  have "replicates f' bsf' lp bsl" using r(3,5) L(2) oL cp longest_common_prefix_prefix2 [of "concat bsf" "concat bsl"] by (auto simp: replicates_def prefix_def)
  moreover have "LEO f' \<le> LEO f"
    using log_next [of "pt_log f'" bsf'] log_next [of "pt_log f" bsf] r(3,5,6) f(2) by (auto simp: part_ok_def LEO_def word_le_nat_alt prefix_def)
  ultimately show ?thesis using r(1,2,4,8) C f(1) cp
    by (intro exI [of _ f'] exI [of _ bsf'] exI [of _ c'] exI [of _ h']) (simp add: connected_def)
qed

lemma fetchOnce_replicates:
  assumes C: "connected n renv env" and L: "leads_for n key ce lp (fw_client w, h)" "part_ok lp bsl" "unat (LEO lp) < 2 ^ 63" "readable bsl"
    and w: "only_partition w key ce" "map_of (fw_reconciled w) key \<noteq> Some ce" "0 \<le> sint (fw_localBrokerID w)"
    and f: "deref tm key = Some f" "part_ok f bsf" "\<not> pt_isLeader f" "rebuildable (pt_log f) bsf" "unat (LEO f) < 2 ^ 63" "pt_leaderEpoch f = ce"
    and R: "reconcilable (pt_log f) (concat bsf) (pt_log lp) (concat bsl)" "longest_common_prefix (concat bsf) (concat bsl) \<noteq> concat bsl"
    and few: "length (lec_entries (lg_epochCache (pt_log f))) \<le> 32" "aligned (lec_entries (lg_epochCache (pt_log lp))) (LEO lp) (concat bsf) (OldestOffset (pt_log f))"
    and io: "\<forall>k. cuts_ok (ve_reconcileIO env key k) \<and> li_checkpoint (ve_reconcileIO env key k) = no_fault"
  shows "\<exists>w' tm' f' bsf' lp' h'. fetchOnce env (w, tm, h) = Some (w', tm', h') \<and> deref tm' key = Some f' \<and>
    leads_for n key ce lp' (fw_client w', h') \<and> replicates f' bsf' lp' bsl \<and>
    prefix (longest_common_prefix (concat bsf) (concat bsl)) (concat bsf') \<and> map_of (fw_reconciled w') key = Some ce"
proof -
  let ?a = "\<lparr>ap_partition = key, ap_leaderEpoch = ce\<rparr>"
  obtain f1 bs1 c1 h1 where 1: "reconcile_each env 0 [(key, ?a)] (w, tm, h) = Some (mark_reconciled key ?a (w\<lparr>fw_client := c1\<rparr>), put_partition (fst key) (snd key) f1 tm, h1)"
      "leads_for n key ce lp (c1, h1)" "same_assignment f f1" "replicates f1 bs1 lp bsl" "concat bs1 = longest_common_prefix (concat bsf) (concat bsl)" "LEO f1 \<le> LEO f"
    using reconcile_half [OF C L(1-3) w(1) f(1-5) R(1) few io] by blast
  define w1 where "w1 = mark_reconciled key ?a (w\<lparr>fw_client := c1\<rparr>)"
  have w1: "only_partition w1 key ce" "map_of (fw_reconciled w1) key = Some ce" "fw_client w1 = c1" "fw_localBrokerID w1 = fw_localBrokerID w"
    using w(1) by (simp_all add: w1_def mark_reconciled_def only_partition_def update_conv)
  have reps: "log_rep (pt_log f1) bs1" "log_rep (pt_log lp) bsl" and o1: "OldestOffset (pt_log f1) = OldestOffset (pt_log lp)" and pre: "prefix (concat bs1) (concat bsl)"
    using 1(4) by (auto simp: replicates_def part_ok_def prefix_def)
  have ne: "concat bs1 \<noteq> concat bsl" using R(2) 1(5) by simp
  obtain z where z: "concat bsl = concat bs1 @ z" using pre by (elim prefixE)
  then have "z \<noteq> []" using ne by auto
  have "0 < total_records z" using \<open>z \<noteq> []\<close> records_pos by (cases z) auto
  then have more: "LEO f1 < LEO lp" using log_next [OF reps(1)] log_next [OF reps(2)] o1 z by (simp add: LEO_def word_less_nat_alt)
  have small1: "unat (LEO f1) < 2 ^ 63" using 1(6) f(5) by (simp add: word_le_nat_alt)
  have d1: "deref (put_partition (fst key) (snd key) f1 tm) key = Some f1" by (rule deref_put [OF f(1)])
  have e1: "pt_leaderEpoch f1 = ce" using 1(3) f(6) by (simp add: same_assignment_def)
  obtain w' f' bsf' lp' h' where 2: "fetch_half env 1 (w1, put_partition (fst key) (snd key) f1 tm, h1) =
        Some (w', put_partition (fst key) (snd key) f' (put_partition (fst key) (snd key) f1 tm), h')"
      "leads_for n key ce lp' (fw_client w', h')" "replicates f' bsf' lp' bsl" "LEO f1 \<le> LEO f'" "fw_reconciled w' = fw_reconciled w1" "pt_log lp' = pt_log lp"
    using fetch_half_replicates [OF C _ 1(4) _ more L(4) small1 L(3) w1(1,2) d1 e1, of h1 1] 1(2) w(3) w1(3,4) by fastforce
  have fil: "filter (\<lambda>(key, assignment). \<not> is_reconciled w key assignment) (fw_partitions w) = [(key, ?a)]"
    using w(1,2) by (simp add: only_partition_def is_reconciled_def)
  have "fetchOnce env (w, tm, h) = Some (w', put_partition (fst key) (snd key) f' (put_partition (fst key) (snd key) f1 tm), h')"
    using fetchOnce_halves [of w env tm h] fil 1(1) 2(1) w(1) by (simp add: only_partition_def w1_def)
  moreover have "prefix (concat bs1) (concat bsf')"
  proof -
    have p': "prefix (concat bsf') (concat bsl)" "log_rep (pt_log f') bsf'" "OldestOffset (pt_log f') = OldestOffset (pt_log lp)"
      using 2(3,6) by (auto simp: replicates_def part_ok_def prefix_def)
    have "total_records (concat bs1) \<le> total_records (concat bsf')"
      using log_next [OF reps(1)] log_next [OF p'(2)] p'(3) o1 2(4) by (simp add: LEO_def word_le_nat_alt)
    then show ?thesis using cut_contains [OF pre p'(1)] by blast
  qed
  ultimately show ?thesis using deref_put [OF d1] 2(2,3,5) w1(2) 1(5) by fastforce
qed

end
