(* ===== verification/ControllerNode.thy ===== *)
theory ControllerNode
  imports ControllerRuns "HOL-Library.Multiset"
begin

text \<open>
  The controller's Raft node and the adapter brokers use (\<open>internal/controller/node.go\<close>,
  \<open>cluster_node.go\<close>, \<open>leader_adapter.go\<close>).  The Raft library is an argument: what one call of it
  answers, and which log entries it hands to the state machine meanwhile.  Proved: a command a node accepts
  has been performed by the state machine, once, in log order; a command the state machine refuses
  changes nothing; a node that cannot be opened leaves no store and no transport open, and one that was
  opened closes each of them once.
\<close>

section \<open>Opening a node\<close>

datatype RaftError = ErrNotLeader | ErrRaftShutdown | OtherRaftError

datatype NodeError =
    LocalIDRequired | BindAddrRequired | DataDirRequired | LogStoreRequired | SnapshotStoreRequired | DependenciesRequired
  | CreateDataDirFailed | OpenStoreFailed | OpenSnapshotsFailed | ResolveAdvertiseFailed | NegativeMaxPool | NegativeTimeout | OpenTransportFailed
  | CheckStateFailed | BootstrapFailed | NewRaftFailed | NotVoter | BootstrapAddress gostring gostring | BootstrapMissing gostring
  | EncodeFailed FSMError | RaftApply RaftError | Refused FSMError
  | TimeoutNotPositive | NoLeader | VoterRequired | ServerRequired | RaftFailure RaftError

datatype Suffrage = Voter | Nonvoter | Staging

record RaftServer =
  sv_ID :: gostring
  sv_Address :: gostring
  sv_Suffrage :: Suffrage

fun find_local :: "gostring \<Rightarrow> gostring \<Rightarrow> RaftServer list \<Rightarrow> NodeError option" where
  "find_local localID localAddress [] = Some (BootstrapMissing localID)"
| "find_local localID localAddress (server # servers) =
     (if sv_ID server \<noteq> localID then find_local localID localAddress servers
      else if sv_Suffrage server \<noteq> Voter then Some NotVoter
      else if sv_Address server \<noteq> localAddress then Some (BootstrapAddress (sv_Address server) localAddress)
      else None)"

definition validateLocalBootstrapServer :: "gostring \<Rightarrow> gostring \<Rightarrow> RaftServer list \<Rightarrow> NodeError option" where
  "validateLocalBootstrapServer localID localAddress servers = (if servers = [] then None else find_local localID localAddress servers)"

text \<open>What has to be closed again.\<close>

datatype Resource = BoltStore | RaftTransport

record Node =
  nd_fsm :: controllerState
  nd_address :: gostring
  nd_closers :: "Resource option list"
  nd_shutdownOnce :: bool
  nd_shutdownErr :: bool

definition close_all :: "Resource option list \<Rightarrow> Resource list" where
  "close_all closers = List.map_filter (\<lambda>c. c) closers"

text \<open>The result of opening a node: the resources opened and closed on the way, and the configuration the cluster was
  bootstrapped with.\<close>

record Opened =
  op_result :: "NodeError + Node"
  op_opened :: "Resource list"
  op_closed :: "Resource list"
  op_bootstrapped :: "RaftServer list option"

definition closeOnError :: "Resource option list \<Rightarrow> NodeError \<Rightarrow> Opened" where
  "closeOnError closers cause = \<lparr>op_result = Inl cause, op_opened = [], op_closed = close_all closers, op_bootstrapped = None\<rparr>"

text \<open>The answers of the Raft library: whether the stores hold state already (\<^const>\<open>None\<close> is an error), and whether bootstrapping
  and starting fail.\<close>

record RaftEnv =
  ra_hasState :: "bool option"
  ra_bootstrapFails :: bool
  ra_newFails :: bool

definition newNode :: "RaftEnv \<Rightarrow> gostring \<Rightarrow> bool \<Rightarrow> gostring \<Rightarrow> RaftServer list \<Rightarrow> Resource option list \<Rightarrow> Opened" where
  "newNode env localID depsMissing localAddr bootstrapServers closers =
     (if localID = [] then closeOnError closers LocalIDRequired
      else if depsMissing then closeOnError closers DependenciesRequired
      else case ra_hasState env of
        None \<Rightarrow> closeOnError closers CheckStateFailed
      | Some hasState \<Rightarrow>
          let node = \<lparr>nd_fsm = newControllerState, nd_address = localAddr, nd_closers = closers, nd_shutdownOnce = False, nd_shutdownErr = False\<rparr>;
              start = (\<lambda>boot. if ra_newFails env then (closeOnError closers NewRaftFailed)\<lparr>op_bootstrapped := boot\<rparr>
                else \<lparr>op_result = Inr node, op_opened = [], op_closed = [], op_bootstrapped = boot\<rparr>)
          in if \<not> hasState \<and> bootstrapServers \<noteq> []
             then (case validateLocalBootstrapServer localID localAddr bootstrapServers of
                     Some err \<Rightarrow> closeOnError closers err
                   | None \<Rightarrow> if ra_bootstrapFails env then closeOnError closers BootstrapFailed else start (Some bootstrapServers))
             else start None)"

definition newInMemNodeWithStores :: "RaftEnv \<Rightarrow> gostring \<Rightarrow> gostring \<Rightarrow> bool \<Rightarrow> bool \<Rightarrow> Opened" where
  "newInMemNodeWithStores env localID address logsNil snapshotsNil =
     (let fail = closeOnError [] in
      if localID = [] then fail LocalIDRequired
      else if logsNil then fail LogStoreRequired
      else if snapshotsNil then fail SnapshotStoreRequired
      else (newNode env localID False address [\<lparr>sv_ID = localID, sv_Address = address, sv_Suffrage = Voter\<rparr>] [Some RaftTransport])\<lparr>op_opened := [RaftTransport]\<rparr>)"

definition NewInMemNode :: "RaftEnv \<Rightarrow> gostring \<Rightarrow> gostring \<Rightarrow> Opened" where
  "NewInMemNode env localID address = newInMemNodeWithStores env localID address False False"

record ClusterNodeConfig =
  cc_LocalID :: gostring
  cc_BindAddr :: gostring
  cc_AdvertiseAddr :: gostring
  cc_DataDir :: gostring
  cc_TransportMaxPool :: int
  cc_TransportTimeout :: int

record ClusterIO =
  io_mkdirFails :: bool
  io_storeFails :: bool
  io_snapshotsFail :: bool
  io_resolveFails :: bool
  io_transportFails :: bool
  io_localAddr :: gostring
  io_raft :: RaftEnv

definition defaultTransportMaxPool :: int where "defaultTransportMaxPool = 3"
definition defaultTransportTimeout :: int where "defaultTransportTimeout = 10 * 10 ^ 9"

definition NewClusterNode :: "ClusterIO \<Rightarrow> ClusterNodeConfig \<Rightarrow> RaftServer list \<Rightarrow> Opened" where
  "NewClusterNode io cfg bootstrapServers =
     (let fail = closeOnError [];
          failStore = (\<lambda>err. (closeOnError [Some BoltStore] err)\<lparr>op_opened := [BoltStore]\<rparr>);
          maxPool = (if cc_TransportMaxPool cfg = 0 then defaultTransportMaxPool else cc_TransportMaxPool cfg);
          transportTimeout = (if cc_TransportTimeout cfg = 0 then defaultTransportTimeout else cc_TransportTimeout cfg)
      in if cc_LocalID cfg = [] then fail LocalIDRequired
         else if cc_BindAddr cfg = [] then fail BindAddrRequired
         else if cc_DataDir cfg = [] then fail DataDirRequired
         else if io_mkdirFails io then fail CreateDataDirFailed
         else if io_storeFails io then fail OpenStoreFailed
         else if io_snapshotsFail io then failStore OpenSnapshotsFailed
         else if cc_AdvertiseAddr cfg \<noteq> [] \<and> io_resolveFails io then failStore ResolveAdvertiseFailed
         else if maxPool < 0 then failStore NegativeMaxPool
         else if transportTimeout < 0 then failStore NegativeTimeout
         else if io_transportFails io then failStore OpenTransportFailed
         else (newNode (io_raft io) (cc_LocalID cfg) False (io_localAddr io) bootstrapServers [Some RaftTransport, Some BoltStore])
                \<lparr>op_opened := [BoltStore, RaftTransport]\<rparr>)"

section \<open>Shutting down\<close>

text \<open>\<open>raftErr\<close> and \<open>closeErr\<close> are the errors of the calls; the second result are the resources closed.\<close>

definition Node_Shutdown :: "bool \<Rightarrow> (Resource \<Rightarrow> bool) \<Rightarrow> Node \<Rightarrow> bool \<times> Resource list \<times> Node" where
  "Node_Shutdown raftErr closeErr n =
     (if nd_shutdownOnce n then (nd_shutdownErr n, [], n)
      else let closed = close_all (nd_closers n); err = (raftErr \<or> list_ex closeErr closed)
        in (err, closed, n\<lparr>nd_shutdownOnce := True, nd_shutdownErr := err\<rparr>))"

section \<open>Commands\<close>

text \<open>What becomes of an entry proposed to Raft: refused or lost, or applied at an index of the log; \<open>before\<close> and
  \<open>after\<close> are the other entries the state machine is given until the call returns.\<close>

datatype RaftOutcome = RaftFailed RaftError "RaftLog list" | RaftApplied "RaftLog list" u64 "RaftLog list"

definition Node_Apply ::
    "JsonCodec \<Rightarrow> (gostring \<Rightarrow> gostring) \<Rightarrow> (bytes \<Rightarrow> RaftOutcome) \<Rightarrow> gostring \<Rightarrow> Payload \<Rightarrow> controllerState \<Rightarrow> NodeError option \<times> controllerState" where
  "Node_Apply js uni raft cmdType payload s =
     (case EncodeCommand js cmdType payload of
        Inl err \<Rightarrow> (Some (EncodeFailed err), s)
      | Inr data \<Rightarrow>
          (case raft data of
             RaftFailed err logs \<Rightarrow> (Some (RaftApply err), run js uni s logs)
           | RaftApplied before index after \<Rightarrow>
               let (response, s) = Apply js uni (run js uni s before) (Some \<lparr>rl_Index = index, rl_Data = data\<rparr>)
               in (map_option Refused response, run js uni s after)))"

datatype RaftState = Follower | Candidate | Leader | Shutdown

text \<open>\<open>ticks\<close> is the number of ticks before the timer fires; the state is read twice in each turn.\<close>

fun wait_loop :: "(nat \<Rightarrow> RaftState) \<Rightarrow> nat \<Rightarrow> nat \<Rightarrow> NodeError option" where
  "wait_loop state i ticks =
     (if state i = Leader then None
      else if state (Suc i) = Shutdown then Some (RaftFailure ErrRaftShutdown)
      else case ticks of 0 \<Rightarrow> Some NoLeader | Suc ticks \<Rightarrow> wait_loop state (Suc (Suc i)) ticks)"

declare wait_loop.simps [simp del]

definition WaitForLeader :: "(nat \<Rightarrow> RaftState) \<Rightarrow> int \<Rightarrow> nat \<Rightarrow> NodeError option" where
  "WaitForLeader state timeout ticks = (if timeout \<le> 0 then Some TimeoutNotPositive else wait_loop state 0 ticks)"

definition AddVoter :: "RaftError option \<Rightarrow> gostring \<Rightarrow> gostring \<Rightarrow> NodeError option" where
  "AddVoter raft voter address = (if voter = [] \<or> address = [] then Some VoterRequired else map_option RaftFailure raft)"

definition RemoveServer :: "RaftError option \<Rightarrow> gostring \<Rightarrow> NodeError option" where
  "RemoveServer raft server = (if server = [] then Some ServerRequired else map_option RaftFailure raft)"

section \<open>The adapter\<close>

datatype AdapterError = ErrNotControllerLeader | NodeFailed NodeError

fun translateLeaderError :: "NodeError option \<Rightarrow> AdapterError option" where
  "translateLeaderError None = None"
| "translateLeaderError (Some err) =
     (if err = RaftApply ErrNotLeader then Some ErrNotControllerLeader else Some (NodeFailed err))"

definition RegisterBroker ::
    "JsonCodec \<Rightarrow> (gostring \<Rightarrow> gostring) \<Rightarrow> (bytes \<Rightarrow> RaftOutcome) \<Rightarrow> i32 \<Rightarrow> gostring \<Rightarrow> BrokerEndpoint list \<Rightarrow> controllerState \<Rightarrow>
     AdapterError option \<times> controllerState" where
  "RegisterBroker js uni raft brokerID incarnationID endpoints s =
     map_prod translateLeaderError (\<lambda>s. s) (Node_Apply js uni raft CommandRegisterBroker
       (RegisterPayload \<lparr>rb_ID = brokerID, rb_IncarnationID = incarnationID, rb_Endpoints = endpoints\<rparr>) s)"

definition UnfenceBroker ::
    "JsonCodec \<Rightarrow> (gostring \<Rightarrow> gostring) \<Rightarrow> (bytes \<Rightarrow> RaftOutcome) \<Rightarrow> i32 \<Rightarrow> u64 \<Rightarrow> controllerState \<Rightarrow> AdapterError option \<times> controllerState" where
  "UnfenceBroker js uni raft brokerID brokerEpoch s =
     map_prod translateLeaderError (\<lambda>s. s) (Node_Apply js uni raft CommandUnfenceBroker
       (UnfencePayload \<lparr>ub_BrokerID = brokerID, ub_BrokerEpoch = brokerEpoch\<rparr>) s)"

section \<open>Nothing is left open\<close>

lemma close_all_some [simp]: "close_all [] = []" "close_all (Some r # rs) = r # close_all rs" "close_all (None # rs) = close_all rs"
  by (simp_all add: close_all_def map_filter_simps)

lemma newNode_closes:
  "case op_result (newNode env localID depsMissing addr servers closers) of
     Inl _ \<Rightarrow> op_closed (newNode env localID depsMissing addr servers closers) = close_all closers
   | Inr n \<Rightarrow> op_closed (newNode env localID depsMissing addr servers closers) = [] \<and> nd_closers n = closers \<and> \<not> nd_shutdownOnce n \<and> nd_fsm n = newControllerState"
  by (auto simp: newNode_def closeOnError_def Let_def split: option.split)

lemma NewClusterNode_cases:
  obtains "NewClusterNode io cfg servers =
      (newNode (io_raft io) (cc_LocalID cfg) False (io_localAddr io) servers [Some RaftTransport, Some BoltStore])\<lparr>op_opened := [BoltStore, RaftTransport]\<rparr>"
  | e where "NewClusterNode io cfg servers = closeOnError [] e"
  | e where "NewClusterNode io cfg servers = (closeOnError [Some BoltStore] e)\<lparr>op_opened := [BoltStore]\<rparr>"
proof -
  define x where "x = (newNode (io_raft io) (cc_LocalID cfg) False (io_localAddr io) servers [Some RaftTransport, Some BoltStore])\<lparr>op_opened := [BoltStore, RaftTransport]\<rparr>"
  define P where "P = (\<lambda>y. y = x \<or> (\<exists>e. y = closeOnError [] e) \<or> (\<exists>e. y = (closeOnError [Some BoltStore] e)\<lparr>op_opened := [BoltStore]\<rparr>))"
  have P: "P x" "P (closeOnError [] e)" "P ((closeOnError [Some BoltStore] e)\<lparr>op_opened := [BoltStore]\<rparr>)" "P a \<Longrightarrow> P b \<Longrightarrow> P (if c then a else b)" for e a b c
    by (auto simp: P_def)
  have "P (NewClusterNode io cfg servers)" unfolding NewClusterNode_def Let_def x_def [symmetric] by (intro P)
  then show ?thesis using that unfolding P_def x_def by blast
qed

lemma NewClusterNode_closes:
  "case op_result (NewClusterNode io cfg servers) of
     Inl _ \<Rightarrow> mset (op_closed (NewClusterNode io cfg servers)) = mset (op_opened (NewClusterNode io cfg servers))
   | Inr n \<Rightarrow> op_closed (NewClusterNode io cfg servers) = [] \<and> \<not> nd_shutdownOnce n \<and> nd_fsm n = newControllerState \<and>
       mset (close_all (nd_closers n)) = mset (op_opened (NewClusterNode io cfg servers))"
proof (cases rule: NewClusterNode_cases [of io cfg servers])
  case 1
  then show ?thesis
    using newNode_closes [of "io_raft io" "cc_LocalID cfg" False "io_localAddr io" servers "[Some RaftTransport, Some BoltStore]"]
    by (cases "op_result (newNode (io_raft io) (cc_LocalID cfg) False (io_localAddr io) servers [Some RaftTransport, Some BoltStore])") simp_all
qed (simp_all add: closeOnError_def)

lemma newNode_bootstrapped:
  assumes "op_bootstrapped (newNode env localID depsMissing addr servers closers) = Some conf"
  shows "conf = servers \<and> ra_hasState env = Some False \<and> find_local localID addr servers = None"
proof -
  have l: "localID \<noteq> []" "\<not> depsMissing" using assms by (auto simp: newNode_def closeOnError_def split: if_splits)
  then obtain hs where hs: "ra_hasState env = Some hs" using assms by (cases "ra_hasState env") (simp_all add: newNode_def closeOnError_def)
  then have "\<not> hs \<and> servers \<noteq> []" using assms l by (auto simp: newNode_def closeOnError_def Let_def split: if_splits)
  then show ?thesis using assms l hs
    by (cases "find_local localID addr servers") (auto simp: newNode_def closeOnError_def validateLocalBootstrapServer_def Let_def split: if_splits)
qed

lemma bootstrapped_when:
  assumes "op_bootstrapped (NewClusterNode io cfg servers) = Some conf"
  shows "conf = servers \<and> ra_hasState (io_raft io) = Some False \<and> find_local (cc_LocalID cfg) (io_localAddr io) servers = None"
proof (cases rule: NewClusterNode_cases [of io cfg servers])
  case 1
  then show ?thesis using assms newNode_bootstrapped [of "io_raft io" "cc_LocalID cfg" False "io_localAddr io" servers "[Some RaftTransport, Some BoltStore]" conf] by simp
qed (use assms in \<open>simp_all add: closeOnError_def\<close>)

lemma find_local_None:
  "find_local localID addr servers = None \<longleftrightarrow>
     (\<exists>s. List.find (\<lambda>s. sv_ID s = localID) servers = Some s \<and> sv_Suffrage s = Voter \<and> sv_Address s = addr)"
  by (induction servers) auto

lemma Shutdown_once:
  assumes "\<not> nd_shutdownOnce n"
  shows "\<exists>err n'. Node_Shutdown raftErr closeErr n = (err, close_all (nd_closers n), n') \<and>
    (\<forall>r c. Node_Shutdown r c n' = (err, [], n'))"
  using assms by (simp add: Node_Shutdown_def Let_def)

section \<open>Commands through Raft\<close>

lemma Node_Apply_performed:
  assumes "json_law js c" and "Node_Apply js uni raft (command_type c) c s = (None, s')"
  shows "\<exists>data before index after mid. EncodeCommand js (command_type c) c = Inr data \<and> raft data = RaftApplied before index after \<and>
    perform uni (run js uni s before) index c = (None, mid) \<and> s' = run js uni mid after"
proof -
  obtain data where d: "EncodeCommand js (command_type c) c = Inr data" using assms(2) by (auto simp: Node_Apply_def split: sum.splits)
  obtain before index after where r: "raft data = RaftApplied before index after" using assms(2) d by (cases "raft data") (auto simp: Node_Apply_def)
  obtain x mid where x: "perform uni (run js uni s before) index c = (x, mid)" by fastforce
  have "x = None \<and> s' = run js uni mid after" using assms(2) d r x Apply_encoded [OF assms(1) d, of uni "run js uni s before" index] by (simp add: Node_Apply_def)
  then show ?thesis using d r x by blast
qed

lemma perform_refused: "perform uni s index c = (Some err, s') \<Longrightarrow> s' = s"
  by (cases c)
    (auto simp: register_broker_def unfence_broker_def create_topic_def update_partition_def Let_def split: option.splits if_splits sum.splits)

lemma Node_Apply_refused:
  assumes "json_law js c" and "Node_Apply js uni raft (command_type c) c s = (Some (Refused err), s')"
  shows "\<exists>data before index after. EncodeCommand js (command_type c) c = Inr data \<and> raft data = RaftApplied before index after \<and>
    fst (perform uni (run js uni s before) index c) = Some err \<and> s' = run js uni s (before @ after)"
proof -
  obtain data where d: "EncodeCommand js (command_type c) c = Inr data" using assms(2) by (auto simp: Node_Apply_def split: sum.splits)
  obtain before index after where r: "raft data = RaftApplied before index after" using assms(2) d by (cases "raft data") (auto simp: Node_Apply_def)
  obtain x mid where x: "perform uni (run js uni s before) index c = (x, mid)" by fastforce
  have m: "x = Some err \<and> s' = run js uni mid after" using assms(2) d r x Apply_encoded [OF assms(1) d, of uni "run js uni s before" index] by (simp add: Node_Apply_def)
  then have "mid = run js uni s before" using perform_refused x by blast
  then have "s' = run js uni s (before @ after)" using m by (simp add: run_def)
  then show ?thesis using d r x m by (metis fst_conv)
qed

lemma inv_Node_Apply:
  assumes "upper_law uni" and "controller_inv uni s" and "Node_Apply js uni raft t c s = (r, s')"
  shows "controller_inv uni s'"
proof (cases "EncodeCommand js t c")
  case (Inl e)
  then show ?thesis using assms by (simp add: Node_Apply_def)
next
  case (Inr data)
  show ?thesis
  proof (cases "raft data")
    case (RaftFailed e logs)
    then show ?thesis using assms Inr inv_run [OF assms(1,2)] by (auto simp: Node_Apply_def)
  next
    case (RaftApplied before index after)
    have "s' = run js uni s (before @ \<lparr>rl_Index = index, rl_Data = data\<rparr> # after)"
      using assms(3) Inr RaftApplied by (simp add: Node_Apply_def run_def split: prod.splits)
    then show ?thesis using inv_run [OF assms(1,2)] by simp
  qed
qed

end
