(* ===== verification/ManagerRep.thy ===== *)
theory ManagerRep
  imports FetchManager
begin

text \<open>
  The fetch manager: the workers it runs are, after every reassignment, exactly those the metadata of the
  controller asks for, each with the partitions it has to follow; a worker that is dropped is stopped, once.
\<close>

section \<open>Maps built by loops\<close>

lemma map_of_by_leader:
  "map_of (by_leader i pms m) l =
     (let ps = filter (\<lambda>pm. pm_LeaderBrokerID pm = l) pms in
      if l = i \<or> ps = [] then map_of m l else Some ((case map_of m l of None \<Rightarrow> [] | Some qs \<Rightarrow> qs) @ ps))"
  by (induction pms arbitrary: m) (auto simp: Let_def update_conv split: option.split)

lemma distinct_by_leader: "distinct (map fst m) \<Longrightarrow> distinct (map fst (by_leader i pms m))"
  by (induction pms arbitrary: m) (simp_all add: distinct_update)

lemma map_of_resolvePartitions:
  "map_of (resolvePartitions tm pms out) =
     map_of out ++ map_of (rev (map (\<lambda>pm. ((pm_Topic pm, pm_Partition pm), \<lparr>ap_partition = (pm_Topic pm, pm_Partition pm), ap_leaderEpoch = pm_LeaderEpoch pm\<rparr>))
       (filter (\<lambda>pm. deref tm (pm_Topic pm, pm_Partition pm) \<noteq> None) pms)))"
  by (induction pms arbitrary: out) (auto simp: deref_def update_conv fun_eq_iff map_add_def split: sum.splits option.splits)

section \<open>Stopping a worker\<close>

definition stopped_worker :: "leaderFetchWorker \<Rightarrow> leaderFetchWorker" where
  "stopped_worker w = w\<lparr>fw_stopped := True, fw_running := False, fw_client := Client_Shutdown (fw_client w)\<rparr>"

text \<open>The workers of a manager run and fetch from another broker, and the ones it dropped do not run; a stopped
  manager has none left.\<close>

definition manager_ok :: "FetchManager \<Rightarrow> bool" where
  "manager_ok fm \<longleftrightarrow> distinct (map fst (fm_workers fm)) \<and>
     (\<forall>l w. map_of (fm_workers fm) l = Some w \<longrightarrow>
        fw_running w \<and> \<not> fw_stopped w \<and> fw_leaderBrokerID w = l \<and> l \<noteq> fm_brokerID fm \<and> fw_localBrokerID w = fm_brokerID fm) \<and>
     (\<forall>w\<in>set (fm_retired fm). fw_stopped w \<and> \<not> fw_running w \<and> rc_conn (fw_client w) = None) \<and>
     (fm_stopped fm \<longrightarrow> fm_workers fm = [])"

definition same_manager :: "FetchManager \<Rightarrow> FetchManager \<Rightarrow> bool" where
  "same_manager fm fm' \<longleftrightarrow> fm_brokerID fm' = fm_brokerID fm \<and> fm_started fm' = fm_started fm \<and> fm_stopped fm' = fm_stopped fm \<and>
     set (fm_retired fm) \<subseteq> set (fm_retired fm')"

lemma same_manager_trans: "same_manager a b \<Longrightarrow> same_manager b c \<Longrightarrow> same_manager a c"
  unfolding same_manager_def by auto

lemma manager_ok_new: "manager_ok (NewFetchManager i)"
  by (simp add: manager_ok_def NewFetchManager_def)

lemma Client_Shutdown_conn: "rc_conn (Client_Shutdown c) = None"
  by (simp add: Client_Shutdown_def Client_Close_def dropConnection_def Let_def split: option.split)

lemma retire_ok:
  assumes "manager_ok fm" and "map_of (fm_workers fm) l = Some w"
  shows "\<exists>fm'. retire l w fm = Some fm' \<and> manager_ok fm' \<and> same_manager fm fm' \<and> map_of (fm_workers fm') = (map_of (fm_workers fm))(l := None) \<and>
    stopped_worker w \<in> set (fm_retired fm')"
proof -
  have "retire l w fm = Some (fm\<lparr>fm_workers := AList.delete l (fm_workers fm), fm_retired := stopped_worker w # fm_retired fm\<rparr>)"
    using assms by (simp add: retire_def worker_stop_def stopped_worker_def manager_ok_def)
  moreover have "fm_workers fm \<noteq> []" using assms(2) by auto
  ultimately show ?thesis using assms
    by (auto simp: manager_ok_def same_manager_def delete_conv distinct_delete stopped_worker_def Client_Shutdown_conn split: if_splits)
qed

lemma retire_unneeded_ok:
  assumes "manager_ok fm" and "distinct (map fst ws)" and "\<forall>(l, w)\<in>set ws. map_of (fm_workers fm) l = Some w"
  shows "\<exists>fm'. retire_unneeded byLeader ws fm = Some fm' \<and> manager_ok fm' \<and> same_manager fm fm' \<and>
    (\<forall>l. map_of (fm_workers fm') l = (if l \<in> fst ` set ws \<and> map_of byLeader l = None then None else map_of (fm_workers fm) l)) \<and>
    (\<forall>(l, w)\<in>set ws. map_of byLeader l = None \<longrightarrow> stopped_worker w \<in> set (fm_retired fm'))"
  using assms
proof (induction ws arbitrary: fm)
  case Nil
  then show ?case by (simp add: same_manager_def)
next
  case (Cons x ws)
  obtain l w where x: "x = (l, w)" by (cases x)
  have w: "map_of (fm_workers fm) l = Some w" using Cons.prems(3) x by simp
  show ?case
  proof (cases "map_of byLeader l = None")
    case True
    obtain fm1 where 1: "retire l w fm = Some fm1" "manager_ok fm1" "same_manager fm fm1" "map_of (fm_workers fm1) = (map_of (fm_workers fm))(l := None)"
        "stopped_worker w \<in> set (fm_retired fm1)" using retire_ok [OF Cons.prems(1) w] by blast
    have "\<forall>(l', w')\<in>set ws. map_of (fm_workers fm1) l' = Some w'" using Cons.prems(2,3) 1(4) x by force
    then obtain fm' where 2: "retire_unneeded byLeader ws fm1 = Some fm'" "manager_ok fm'" "same_manager fm1 fm'"
        "\<forall>l. map_of (fm_workers fm') l = (if l \<in> fst ` set ws \<and> map_of byLeader l = None then None else map_of (fm_workers fm1) l)"
        "\<forall>(l, w)\<in>set ws. map_of byLeader l = None \<longrightarrow> stopped_worker w \<in> set (fm_retired fm')"
      using Cons.IH [OF 1(2)] Cons.prems(2) by auto
    moreover have "stopped_worker w \<in> set (fm_retired fm')" using 1(5) 2(3) by (auto simp: same_manager_def)
    ultimately show ?thesis using True x 1(1,4) same_manager_trans [OF 1(3) 2(3)] by auto
  next
    case False
    obtain fm' where 2: "retire_unneeded byLeader ws fm = Some fm'" "manager_ok fm'" "same_manager fm fm'"
        "\<forall>l. map_of (fm_workers fm') l = (if l \<in> fst ` set ws \<and> map_of byLeader l = None then None else map_of (fm_workers fm) l)"
        "\<forall>(l, w)\<in>set ws. map_of byLeader l = None \<longrightarrow> stopped_worker w \<in> set (fm_retired fm')"
      using Cons.IH [OF Cons.prems(1)] Cons.prems(2,3) by auto
    then show ?thesis using False x by auto
  qed
qed

section \<open>Reassigning\<close>

text \<open>The worker for a leader: the one there is when the leader is still at its address, a new one otherwise, and
  none when the leader cannot be fetched from.\<close>

definition next_worker :: "controllerState \<Rightarrow> TopicManager \<Rightarrow> i32 \<Rightarrow> i32 \<Rightarrow> leaderFetchWorker option \<Rightarrow> PartitionMetadata list \<Rightarrow> leaderFetchWorker option" where
  "next_worker ctrl tm i l old parts =
     map_option (\<lambda>addr. setPartitions (resolvePartitions tm parts [])
       (case old of
          Some w \<Rightarrow> if fw_addr w = addr then w else worker_start (newLeaderFetchWorker i l addr)
        | None \<Rightarrow> worker_start (newLeaderFetchWorker i l addr))) (leader_addr ctrl l)"

definition replaced :: "leaderFetchWorker \<Rightarrow> leaderFetchWorker option \<Rightarrow> bool" where
  "replaced w w' \<longleftrightarrow> (case w' of None \<Rightarrow> True | Some w' \<Rightarrow> fw_addr w' \<noteq> fw_addr w)"

lemma next_worker_new:
  assumes "next_worker ctrl tm i l old parts = Some w" and "\<And>w. old = Some w \<Longrightarrow> fw_running w \<and> \<not> fw_stopped w \<and> fw_leaderBrokerID w = l \<and> fw_localBrokerID w = i"
  shows "fw_running w \<and> \<not> fw_stopped w \<and> fw_leaderBrokerID w = l \<and> fw_localBrokerID w = i"
proof -
  obtain addr where w: "w = setPartitions (resolvePartitions tm parts []) (case old of
          Some w \<Rightarrow> if fw_addr w = addr then w else worker_start (newLeaderFetchWorker i l addr)
        | None \<Rightarrow> worker_start (newLeaderFetchWorker i l addr))"
    using assms(1) unfolding next_worker_def map_option_eq_Some by blast
  show ?thesis using assms(2) unfolding w by (cases old) (simp_all add: setPartitions_def worker_start_def newLeaderFetchWorker_def)
qed

lemma keep_ok:
  assumes "manager_ok fm" and "l \<noteq> fm_brokerID fm" and "\<not> fm_stopped fm"
    and "fw_running w \<and> \<not> fw_stopped w \<and> fw_leaderBrokerID w = l \<and> fw_localBrokerID w = fm_brokerID fm"
  shows "manager_ok (fm\<lparr>fm_workers := AList.update l w (fm_workers fm)\<rparr>)"
  using assms by (auto simp: manager_ok_def distinct_update update_conv split: if_splits)

lemma assign_worker_ok:
  assumes ok: "manager_ok fm" "l \<noteq> fm_brokerID fm" "\<not> fm_stopped fm"
  shows "\<exists>fm'. assign_worker ctrl tm (l, parts) fm = Some fm' \<and> manager_ok fm' \<and> same_manager fm fm' \<and>
    map_of (fm_workers fm') = (map_of (fm_workers fm))(l := next_worker ctrl tm (fm_brokerID fm) l (map_of (fm_workers fm) l) parts) \<and>
    (\<forall>w. map_of (fm_workers fm) l = Some w \<longrightarrow> replaced w (map_of (fm_workers fm') l) \<longrightarrow> stopped_worker w \<in> set (fm_retired fm'))"
proof -
  define nw where "nw = next_worker ctrl tm (fm_brokerID fm) l (map_of (fm_workers fm) l) parts"
  have new: "fw_running w \<and> \<not> fw_stopped w \<and> fw_leaderBrokerID w = l \<and> fw_localBrokerID w = fm_brokerID fm" if "nw = Some w" for w
    using next_worker_new [OF that [unfolded nw_def]] ok(1) by (auto simp: manager_ok_def)
  have "\<exists>fm'. assign_worker ctrl tm (l, parts) fm = Some fm' \<and> manager_ok fm' \<and> same_manager fm fm' \<and>
    map_of (fm_workers fm') = (map_of (fm_workers fm))(l := nw) \<and>
    (\<forall>w. map_of (fm_workers fm) l = Some w \<longrightarrow> replaced w (map_of (fm_workers fm') l) \<longrightarrow> stopped_worker w \<in> set (fm_retired fm'))"
  proof (cases "map_of (fm_workers fm) l")
    case None
    show ?thesis
    proof (cases nw)
      case n: None
      then have "assign_worker ctrl tm (l, parts) fm = Some fm" using None by (simp add: nw_def next_worker_def assign_worker_def)
      then show ?thesis using ok(1) None n by (auto simp: same_manager_def fun_eq_iff)
    next
      case (Some w)
      then have "assign_worker ctrl tm (l, parts) fm = Some (fm\<lparr>fm_workers := AList.update l w (fm_workers fm)\<rparr>)"
        using None by (auto simp: nw_def next_worker_def assign_worker_def Let_def)
      then show ?thesis using keep_ok [OF ok new [OF Some]] None Some by (simp add: same_manager_def update_conv')
    qed
  next
    case w: (Some w)
    obtain fm1 where 1: "retire l w fm = Some fm1" "manager_ok fm1" "same_manager fm fm1" "map_of (fm_workers fm1) = (map_of (fm_workers fm))(l := None)"
        "stopped_worker w \<in> set (fm_retired fm1)" using retire_ok [OF ok(1) w] by blast
    have s1: "l \<noteq> fm_brokerID fm1" "\<not> fm_stopped fm1" "fm_brokerID fm1 = fm_brokerID fm" using 1(3) ok by (simp_all add: same_manager_def)
    show ?thesis
    proof (cases nw)
      case None
      then have "assign_worker ctrl tm (l, parts) fm = Some fm1" using w 1(1) by (simp add: nw_def next_worker_def assign_worker_def)
      then show ?thesis using 1 None w by auto
    next
      case n: (Some w')
      show ?thesis
      proof (cases "leader_addr ctrl l = Some (fw_addr w)")
        case True
        then have "assign_worker ctrl tm (l, parts) fm = Some (fm\<lparr>fm_workers := AList.update l w' (fm_workers fm)\<rparr>)" "fw_addr w' = fw_addr w"
          using n w by (auto simp: nw_def next_worker_def assign_worker_def Let_def setPartitions_def)
        then show ?thesis using keep_ok [OF ok new [OF n]] w n by (simp add: same_manager_def update_conv' replaced_def)
      next
        case False
        then have "assign_worker ctrl tm (l, parts) fm = Some (fm1\<lparr>fm_workers := AList.update l w' (fm_workers fm1)\<rparr>)"
          using n w 1(1) s1(3) by (auto simp: nw_def next_worker_def assign_worker_def Let_def split: if_splits)
        then show ?thesis using keep_ok [OF 1(2) s1(1,2), of w'] new [OF n] 1 s1(3) w n by (auto simp: same_manager_def update_conv')
      qed
    qed
  qed
  then show ?thesis unfolding nw_def .
qed

lemma assign_all_ok:
  assumes "manager_ok fm" and "\<not> fm_stopped fm" and "distinct (map fst m)" and "\<forall>(l, parts)\<in>set m. l \<noteq> fm_brokerID fm"
  shows "\<exists>fm'. apply_all (assign_worker ctrl tm) m fm = Some fm' \<and> manager_ok fm' \<and> same_manager fm fm' \<and>
    (\<forall>l. map_of (fm_workers fm') l = (case map_of m l of None \<Rightarrow> map_of (fm_workers fm) l
       | Some parts \<Rightarrow> next_worker ctrl tm (fm_brokerID fm) l (map_of (fm_workers fm) l) parts)) \<and>
    (\<forall>l w. map_of (fm_workers fm) l = Some w \<longrightarrow> replaced w (map_of (fm_workers fm') l) \<longrightarrow> stopped_worker w \<in> set (fm_retired fm'))"
  using assms
proof (induction m arbitrary: fm)
  case Nil
  then show ?case by (auto simp: same_manager_def replaced_def)
next
  case (Cons x m)
  obtain l parts where x: "x = (l, parts)" by (cases x)
  obtain fm1 where 1: "assign_worker ctrl tm (l, parts) fm = Some fm1" "manager_ok fm1" "same_manager fm fm1"
      "map_of (fm_workers fm1) = (map_of (fm_workers fm))(l := next_worker ctrl tm (fm_brokerID fm) l (map_of (fm_workers fm) l) parts)"
      "\<forall>w. map_of (fm_workers fm) l = Some w \<longrightarrow> replaced w (map_of (fm_workers fm1) l) \<longrightarrow> stopped_worker w \<in> set (fm_retired fm1)"
    using assign_worker_ok [OF Cons.prems(1) _ Cons.prems(2), of l ctrl tm parts] Cons.prems(4) x by auto
  have s1: "\<not> fm_stopped fm1" "fm_brokerID fm1 = fm_brokerID fm" using 1(3) Cons.prems(2) by (simp_all add: same_manager_def)
  obtain fm' where 2: "apply_all (assign_worker ctrl tm) m fm1 = Some fm'" "manager_ok fm'" "same_manager fm1 fm'"
      "\<forall>l. map_of (fm_workers fm') l = (case map_of m l of None \<Rightarrow> map_of (fm_workers fm1) l
         | Some parts \<Rightarrow> next_worker ctrl tm (fm_brokerID fm1) l (map_of (fm_workers fm1) l) parts)"
      "\<forall>l w. map_of (fm_workers fm1) l = Some w \<longrightarrow> replaced w (map_of (fm_workers fm') l) \<longrightarrow> stopped_worker w \<in> set (fm_retired fm')"
    using Cons.IH [OF 1(2) s1(1)] Cons.prems(3,4) s1(2) by auto
  have nl: "map_of m l = None" using Cons.prems(3) x by (simp add: map_of_eq_None_iff)
  have "stopped_worker w \<in> set (fm_retired fm')" if "map_of (fm_workers fm) l' = Some w" "replaced w (map_of (fm_workers fm') l')" for l' w
  proof (cases "l' = l")
    case True
    then have "replaced w (map_of (fm_workers fm1) l)" using that(2) 2(4) nl by simp
    then show ?thesis using 1(5) that(1) True 2(3) by (auto simp: same_manager_def)
  next
    case False
    then have "map_of (fm_workers fm1) l' = Some w" using that(1) 1(4) by simp
    then show ?thesis using 2(5) that(2) by blast
  qed
  moreover have "map_of (fm_workers fm') l' = (case map_of (x # m) l' of None \<Rightarrow> map_of (fm_workers fm) l'
       | Some parts \<Rightarrow> next_worker ctrl tm (fm_brokerID fm) l' (map_of (fm_workers fm) l') parts)" for l'
    using 2(4) 1(4) s1(2) nl x by (auto split: option.split)
  ultimately show ?case using 2(1,2) 1(1) x same_manager_trans [OF 1(3) 2(3)] by simp
qed

text \<open>The partitions a broker follows and another one leads.\<close>

definition led_by :: "controllerState \<Rightarrow> i32 \<Rightarrow> i32 \<Rightarrow> PartitionMetadata list" where
  "led_by ctrl i l = (if l = i then [] else filter (\<lambda>pm. pm_LeaderBrokerID pm = l) (PartitionsForBroker ctrl i))"

lemma Reassign_ok:
  assumes ok: "manager_ok fm" "\<not> fm_stopped fm"
  shows "\<exists>fm'. Reassign ctrl tm fm = Some (Inr (), fm') \<and> manager_ok fm' \<and> same_manager fm fm' \<and>
    (\<forall>l. map_of (fm_workers fm') l = (if led_by ctrl (fm_brokerID fm) l = [] then None
       else next_worker ctrl tm (fm_brokerID fm) l (map_of (fm_workers fm) l) (led_by ctrl (fm_brokerID fm) l))) \<and>
    (\<forall>l w. map_of (fm_workers fm) l = Some w \<longrightarrow> replaced w (map_of (fm_workers fm') l) \<longrightarrow> stopped_worker w \<in> set (fm_retired fm'))"
proof -
  define m where "m = by_leader (fm_brokerID fm) (PartitionsForBroker ctrl (fm_brokerID fm)) []"
  have d: "distinct (map fst m)" unfolding m_def by (rule distinct_by_leader) simp
  have m: "map_of m l = (if led_by ctrl (fm_brokerID fm) l = [] then None else Some (led_by ctrl (fm_brokerID fm) l))" for l
    unfolding m_def by (simp add: map_of_by_leader led_by_def Let_def)
  have keys: "\<forall>(l, parts)\<in>set m. l \<noteq> fm_brokerID fm"
    using map_of_is_SomeI [OF d] m by (fastforce simp: led_by_def split: if_splits)
  have dw: "distinct (map fst (fm_workers fm))" using ok(1) by (simp add: manager_ok_def)
  obtain fm1 where 1: "retire_unneeded m (fm_workers fm) fm = Some fm1" "manager_ok fm1" "same_manager fm fm1"
      "\<forall>l. map_of (fm_workers fm1) l = (if l \<in> fst ` set (fm_workers fm) \<and> map_of m l = None then None else map_of (fm_workers fm) l)"
      "\<forall>(l, w)\<in>set (fm_workers fm). map_of m l = None \<longrightarrow> stopped_worker w \<in> set (fm_retired fm1)"
    using retire_unneeded_ok [OF ok(1) dw, of m] dw by auto
  have w1: "map_of (fm_workers fm1) l = (if map_of m l = None then None else map_of (fm_workers fm) l)" for l
    using 1(4) by (auto simp: map_of_eq_None_iff)
  have s1: "\<not> fm_stopped fm1" "fm_brokerID fm1 = fm_brokerID fm" using 1(3) ok(2) by (simp_all add: same_manager_def)
  obtain fm' where 2: "apply_all (assign_worker ctrl tm) m fm1 = Some fm'" "manager_ok fm'" "same_manager fm1 fm'"
      "\<forall>l. map_of (fm_workers fm') l = (case map_of m l of None \<Rightarrow> map_of (fm_workers fm1) l
         | Some parts \<Rightarrow> next_worker ctrl tm (fm_brokerID fm1) l (map_of (fm_workers fm1) l) parts)"
      "\<forall>l w. map_of (fm_workers fm1) l = Some w \<longrightarrow> replaced w (map_of (fm_workers fm') l) \<longrightarrow> stopped_worker w \<in> set (fm_retired fm')"
    using assign_all_ok [OF 1(2) s1(1) d, of ctrl tm] keys s1(2) by auto
  have "stopped_worker w \<in> set (fm_retired fm')" if "map_of (fm_workers fm) l = Some w" "replaced w (map_of (fm_workers fm') l)" for l w
  proof (cases "map_of m l = None")
    case True
    then have "stopped_worker w \<in> set (fm_retired fm1)" using 1(5) map_of_SomeD [OF that(1)] by auto
    then show ?thesis using 2(3) by (auto simp: same_manager_def)
  next
    case False
    then have "map_of (fm_workers fm1) l = Some w" using that(1) w1 by simp
    then show ?thesis using 2(5) that(2) by blast
  qed
  moreover have "Reassign ctrl tm fm = Some (Inr (), fm')" using ok(2) 1(1) 2(1) by (simp add: Reassign_def m_def Let_def)
  moreover have "map_of (fm_workers fm') l = (if led_by ctrl (fm_brokerID fm) l = [] then None
       else next_worker ctrl tm (fm_brokerID fm) l (map_of (fm_workers fm) l) (led_by ctrl (fm_brokerID fm) l))" for l
    using 2(4) w1 m s1(2) by simp
  ultimately show ?thesis using 2(2) same_manager_trans [OF 1(3) 2(3)] by blast
qed

section \<open>Starting and stopping\<close>

lemma stop_all:
  assumes "\<forall>(l, w)\<in>set ws. \<not> fw_stopped w"
  shows "apply_all (\<lambda>(_, w) fm. map_option (\<lambda>w. fm\<lparr>fm_retired := w # fm_retired fm\<rparr>) (worker_stop w)) ws fm =
    Some (fm\<lparr>fm_retired := rev (map (stopped_worker \<circ> snd) ws) @ fm_retired fm\<rparr>)"
  using assms by (induction ws arbitrary: fm) (auto simp: worker_stop_def stopped_worker_def)

lemma Stop_ok:
  assumes ok: "manager_ok fm"
  shows "\<exists>fm'. FM_Stop fm = Some fm' \<and> manager_ok fm' \<and> fm_stopped fm' \<and> fm_workers fm' = [] \<and>
    set (fm_retired fm') = set (fm_retired fm) \<union> stopped_worker ` snd ` set (fm_workers fm)"
proof (cases "fm_stopped fm")
  case True
  then show ?thesis using ok by (simp add: FM_Stop_def manager_ok_def)
next
  case False
  have d: "distinct (map fst (fm_workers fm))" using ok by (simp add: manager_ok_def)
  have "\<forall>(l, w)\<in>set (fm_workers fm). \<not> fw_stopped w" using ok map_of_is_SomeI [OF d] by (fastforce simp: manager_ok_def)
  then have "FM_Stop fm = Some (fm\<lparr>fm_stopped := True, fm_workers := [], fm_retired := rev (map (stopped_worker \<circ> snd) (fm_workers fm)) @ fm_retired fm\<rparr>)"
    using False by (simp add: FM_Stop_def stop_all Let_def)
  then show ?thesis using ok by (auto simp: manager_ok_def stopped_worker_def Client_Shutdown_conn image_comp)
qed

lemma Reassign_keeps:
  assumes "manager_ok fm"
  shows "\<exists>r fm'. Reassign ctrl tm fm = Some (r, fm') \<and> manager_ok fm' \<and> (r = Inl ManagerStopped \<longleftrightarrow> fm_stopped fm)"
proof (cases "fm_stopped fm")
  case True
  then show ?thesis using assms by (simp add: Reassign_def)
next
  case False
  then show ?thesis using Reassign_ok [OF assms False, of ctrl tm] by auto
qed

text \<open>A manager in use: its own operations, in any order, with the rounds its workers run in between. What other
  goroutines do during a round does not stop the worker. The other side of the calls of a round is a leader's handler.\<close>

definition keeps_worker :: "'n FetchEnv \<Rightarrow> bool" where
  "keeps_worker env \<longleftrightarrow> (\<forall>k w tm w' tm'. ve_others env k (w, tm) = (w', tm') \<longrightarrow>
     fw_running w' = fw_running w \<and> fw_stopped w' = fw_stopped w \<and> fw_leaderBrokerID w' = fw_leaderBrokerID w \<and> fw_localBrokerID w' = fw_localBrokerID w)"

inductive manager_run :: "FetchManager \<Rightarrow> bool" where
  new: "manager_run (NewFetchManager i)"
| start: "manager_run fm \<Longrightarrow> FM_Start env ctrl ctrl' fm tm = Some (r, fm', tm') \<Longrightarrow> manager_run fm'"
| reassign: "manager_run fm \<Longrightarrow> refresh env ctrl ctrl' fm tm = Some (r, fm', tm') \<Longrightarrow> manager_run fm'"
| round: "manager_run fm \<Longrightarrow> map_of (fm_workers fm) l = Some w \<Longrightarrow> keeps_worker (fenv :: Handler FetchEnv) \<Longrightarrow> fetchOnce fenv (w, tm, n) = Some (w', tm', n') \<Longrightarrow>
    manager_run (fm\<lparr>fm_workers := AList.update l w' (fm_workers fm)\<rparr>)"
| stop: "manager_run fm \<Longrightarrow> FM_Stop fm = Some fm' \<Longrightarrow> manager_run fm'"

definition same_worker :: "leaderFetchWorker \<Rightarrow> leaderFetchWorker \<Rightarrow> bool" where
  "same_worker w w' \<longleftrightarrow> fw_running w' = fw_running w \<and> fw_stopped w' = fw_stopped w \<and> fw_leaderBrokerID w' = fw_leaderBrokerID w \<and>
     fw_localBrokerID w' = fw_localBrokerID w"

lemma same_worker_refl [simp]: "same_worker w w" "same_worker w (w\<lparr>fw_client := c\<rparr>)" "same_worker w (mark_reconciled key a w)"
  by (simp_all add: same_worker_def mark_reconciled_def split: option.split)

lemma same_worker_trans: "same_worker a b \<Longrightarrow> same_worker b c \<Longrightarrow> same_worker a c"
  by (simp add: same_worker_def)

lemma others_same: "keeps_worker env \<Longrightarrow> ve_others env k (w, tm) = (w', tm') \<Longrightarrow> same_worker w w'"
  unfolding keeps_worker_def same_worker_def by blast

lemma reconcile_each_same:
  assumes "keeps_worker env"
  shows "reconcile_each env k ps (w, tm, n) = Some (w', tm', n') \<Longrightarrow> same_worker w w'"
proof (induction ps arbitrary: k w tm n)
  case (Cons x ps)
  obtain key a where x: "x = (key, a)" by (cases x)
  obtain p where p: "deref tm (ap_partition a) = Some p" using Cons.prems x by (auto split: option.splits)
  obtain r p' c n1 where r: "reconcilePartition (ve_reconcileIO env key) (ve_ask env) (fw_localBrokerID w) key (ap_leaderEpoch a) p (fw_client w, n) = Some (r, p', c, n1)"
    using Cons.prems x p by (auto split: option.splits)
  obtain w1 tm1 where o: "ve_others env k (w\<lparr>fw_client := c\<rparr>, put_partition (fst (ap_partition a)) (snd (ap_partition a)) p' tm) = (w1, tm1)" by force
  have "same_worker w w1" using same_worker_trans [OF same_worker_refl(2) others_same [OF assms o]] .
  moreover have "same_worker w1 w'"
  proof (cases r)
    case (Inl e)
    then show ?thesis using Cons.prems Cons.IH x p r o by simp
  next
    case (Inr u)
    then have "same_worker (mark_reconciled key a w1) w'" using Cons.prems Cons.IH x p r o by simp
    then show ?thesis using same_worker_trans [OF same_worker_refl(3)] by blast
  qed
  ultimately show ?case by (rule same_worker_trans)
qed simp

lemma fetchOnce_same:
  assumes k: "keeps_worker env" and f: "fetchOnce env (w, tm, n) = Some (w', tm', n')"
  shows "same_worker w w'"
proof (cases "fw_partitions w = []")
  case True
  then show ?thesis using f by (simp add: fetchOnce_def)
next
  case False
  define ps where "ps = filter (\<lambda>(key, assignment). \<not> is_reconciled w key assignment) (fw_partitions w)"
  obtain w1 tm1 n1 where 1: "reconcile_each env 0 ps (w, tm, n) = Some (w1, tm1, n1)" 
    using f False by (cases "reconcile_each env 0 ps (w, tm, n)") (auto simp: fetchOnce_def ps_def Let_def)
  have "same_worker w1 w'"
  proof -
    have o: "same_worker w1 w2" if "ve_others env i (w1\<lparr>fw_client := c\<rparr>, t) = (w2, t2)" for i c t w2 t2
      using same_worker_trans [OF same_worker_refl(2) others_same [OF k that]] .
    show ?thesis using f False 1 by (auto simp: fetchOnce_def ps_def [symmetric] Let_def split: option.splits sum.splits if_splits prod.splits dest: o)
  qed
  then show ?thesis using same_worker_trans [OF reconcile_each_same [OF k 1]] by blast
qed

lemma refresh_ok:
  assumes "manager_ok fm" and "refresh env ctrl ctrl' fm tm = Some (r, fm', tm')"
  shows "manager_ok fm'"
proof -
  obtain x tm1 where x: "Reconcile env (PartitionsForBroker ctrl (fm_brokerID fm)) (fm_brokerID fm) tm = Some (x, tm1)"
    using assms(2) by (auto simp: refresh_def split: option.splits)
  obtain y fm1 where y: "Reassign ctrl' tm1 fm = Some (y, fm1)" "manager_ok fm1" using Reassign_keeps [OF assms(1)] by blast
  show ?thesis using assms x y by (cases x) (auto simp: refresh_def)
qed

lemma manager_run_ok: "manager_run fm \<Longrightarrow> manager_ok fm"
proof (induction rule: manager_run.induct)
  case (new i)
  then show ?case by (rule manager_ok_new)
next
  case (start fm env ctrl ctrl' tm r fm' tm')
  obtain x fm1 tm1 where x: "refresh env ctrl ctrl' fm tm = Some (x, fm1, tm1)" using start.hyps(2) by (auto simp: FM_Start_def split: option.splits)
  have ok: "manager_ok fm1" by (rule refresh_ok [OF start.IH x])
  have "fm' = fm1 \<or> (fm' = fm1\<lparr>fm_started := True\<rparr>)" using start.hyps(2) x by (cases x) (auto simp: FM_Start_def split: if_splits)
  moreover have "manager_ok (fm1\<lparr>fm_started := True\<rparr>)" using ok by (simp add: manager_ok_def)
  ultimately show ?case using ok by blast
next
  case (reassign fm env ctrl ctrl' tm r fm' tm')
  then show ?case using refresh_ok by blast
next
  case (round fm l w fenv tm n w' tm' n')
  have "same_worker w w'" by (rule fetchOnce_same [OF round.hyps(3,4)])
  moreover have "\<not> fm_stopped fm" "l \<noteq> fm_brokerID fm" "fw_running w \<and> \<not> fw_stopped w \<and> fw_leaderBrokerID w = l \<and> fw_localBrokerID w = fm_brokerID fm"
    using round.IH round.hyps(2) by (auto simp: manager_ok_def)
  ultimately show ?case by (intro keep_ok [OF round.IH]) (simp_all add: same_worker_def)
next
  case (stop fm fm')
  then show ?case using Stop_ok [OF stop.IH] by auto
qed

end
