(* ===== verification/BrokerLife.thy ===== *)
theory BrokerLife
  imports ControllerNode ManagerRep TopicsLife
begin

text \<open>
  A broker from start to shutdown (\<open>internal/broker/broker.go\<close>, \<open>config.go\<close>,
  \<open>internal/server/server.go\<close>): it opens its topics and its listener, registers with the controller,
  reconciles, starts its fetchers, unfences itself and serves.  Proved: an address a listener prints is read
  back, also by the followers that dial it; a broker that starts successfully is registered and not fenced,
  its fetch manager runs, and it leads exactly the partitions the controller gave it; one that fails to start
  serves nothing and fetches nothing.
\<close>

section \<open>Configuration\<close>

record BrokerConfig =
  bc_BrokerID :: i32
  bc_Host :: gostring
  bc_Port :: i32
  bc_LogDir :: gostring
  bc_LogConfig :: LogConfig
  bc_MaxRequestBytes :: i32

definition applyBrokerDefaults :: "BrokerConfig \<Rightarrow> BrokerConfig" where
  "applyBrokerDefaults c =
     (let c = (if bc_Host c = [] then c\<lparr>bc_Host := gostr ''localhost''\<rparr> else c);
          c = (if bc_Port c = 0 then c\<lparr>bc_Port := 9092\<rparr> else c);
          c = (if bc_LogDir c = [] then c\<lparr>bc_LogDir := gostr ''/tmp/msgbroker-data''\<rparr> else c)
      in if sint (bc_MaxRequestBytes c) \<le> 0 then c\<lparr>bc_MaxRequestBytes := 100 * 1024 * 1024\<rparr> else c)"

section \<open>Addresses\<close>

text \<open>\<open>net.SplitHostPort\<close> and \<open>strconv.ParseUint(s, 10, 16)\<close>.\<close>

definition SplitHostPort :: "gostring \<Rightarrow> (gostring \<times> gostring) option" where
  "SplitHostPort hostport =
     (if 0x3A \<notin> set hostport then None
      else let i = nat (LastIndex hostport 0x3A); port = drop (Suc i) hostport in
        if hd hostport = 0x5B
        then (let e = length (takeWhile (\<lambda>c. c \<noteq> 0x5D) hostport) in
              if e = length hostport \<or> Suc e \<noteq> i then None
              else if 0x5B \<in> set (drop 1 hostport) \<or> 0x5D \<in> set (drop (Suc e) hostport) then None
              else Some (take (e - 1) (drop 1 hostport), port))
        else (let host = take i hostport in
              if 0x3A \<in> set host then None
              else if 0x5B \<in> set hostport \<or> 0x5D \<in> set hostport then None
              else Some (host, port)))"

definition ParseUint16 :: "gostring \<Rightarrow> u16 option" where
  "ParseUint16 s =
     (if s = [] then None
      else case digits_val 0 s of
        None \<Rightarrow> None
      | Some n \<Rightarrow> if n < 2 ^ 16 then Some (word_of_nat n) else None)"

definition listenerEndpoint :: "gostring \<Rightarrow> gostring \<Rightarrow> (gostring \<times> u16) option" where
  "listenerEndpoint addr advertisedHost =
     (case SplitHostPort addr of
        None \<Rightarrow> None
      | Some (host, portStr) \<Rightarrow>
          (case ParseUint16 portStr of
             None \<Rightarrow> None
           | Some port \<Rightarrow> Some (if host = [] \<or> host = gostr ''::'' \<or> host = gostr ''0.0.0.0'' then advertisedHost else host, port)))"

definition hex_digit :: "nat \<Rightarrow> byte" where
  "hex_digit n = (if n < 10 then word_of_nat (48 + n) else word_of_nat (87 + n))"

text \<open>The bytes are those \<open>crypto/rand\<close> fills the buffer with.\<close>

definition generateIncarnationID :: "bytes option \<Rightarrow> gostring option" where
  "generateIncarnationID random = map_option (\<lambda>buf. concat (map (\<lambda>b. [hex_digit (unat b div 16), hex_digit (unat b mod 16)]) buf)) random"

section \<open>The server\<close>

record Server =
  srv_addr :: gostring
  srv_maxReqBytes :: i32
  srv_closing :: bool
  srv_serving :: bool

text \<open>\<open>listen\<close> is the address of the listener \<open>net.Listen\<close> returns.\<close>

definition NewServer :: "(gostring \<Rightarrow> gostring option) \<Rightarrow> gostring \<Rightarrow> i32 \<Rightarrow> Server option" where
  "NewServer listen addr maxReqBytes =
     map_option (\<lambda>a. \<lparr>srv_addr = a, srv_maxReqBytes = (if sint maxReqBytes \<le> 0 then 100 * 1024 * 1024 else maxReqBytes),
       srv_closing = False, srv_serving = False\<rparr>) (listen addr)"

text \<open>The accept loop: what \<open>Accept\<close> returns, and whether the server is closing then.  The result are the connections
  goroutines serve, and whether the loop has returned.\<close>

fun Serve :: "('c option \<times> bool) list \<Rightarrow> 'c list \<times> bool" where
  "Serve [] = ([], False)"
| "Serve ((Some conn, _) # es) = apfst (Cons conn) (Serve es)"
| "Serve ((None, closing) # es) = (if closing then ([], True) else Serve es)"

text \<open>Closing the channel twice is a panic.\<close>

definition Server_Shutdown :: "Server \<Rightarrow> Server option" where
  "Server_Shutdown s = (if srv_closing s then None else Some (s\<lparr>srv_closing := True, srv_serving := False\<rparr>))"

section \<open>The broker\<close>

text \<open>The topic manager and the controller are those of the handler.\<close>

record Broker =
  bk_config :: BrokerConfig
  bk_handler :: Handler
  bk_server :: Server
  bk_incarnationID :: gostring
  bk_fetchManager :: "FetchManager option"

datatype BrokerError =
    TopicManagerFailed TopicError | ListenFailed | IncarnationFailed | ListenerAddress
  | RegisterFailed AdapterError | BrokerNotFound | ReconcileAssignments TopicError | FetchManagerFailed ManagerError
  | UnfenceFailed AdapterError | CloseTopics TopicError

record BrokerIO =
  bo_mkdirFails :: bool
  bo_entries :: "(gostring \<times> bool) list option"
  bo_topics :: TopicEnv
  bo_listen :: "gostring \<Rightarrow> gostring option"
  bo_random :: "bytes option"

text \<open>The topics and the server that an attempt leaves behind.\<close>

definition NewBroker ::
    "BrokerIO \<Rightarrow> BrokerConfig \<Rightarrow> controllerState option \<Rightarrow> ((BrokerError + Broker) \<times> TopicManager option \<times> Server option) option" where
  "NewBroker io config ctrl =
     (let config = applyBrokerDefaults config in
      case NewTopicManager (bo_topics io) (bo_mkdirFails io) (bo_entries io) (bc_BrokerID config) (bc_LogConfig config) of
        None \<Rightarrow> None
      | Some (Inl err) \<Rightarrow> Some (Inl (TopicManagerFailed err), None, None)
      | Some (Inr tm) \<Rightarrow>
          (case NewServer (bo_listen io) (gostr '':'' @ fmt_d (sint (bc_Port config))) (bc_MaxRequestBytes config) of
             None \<Rightarrow> map_option (\<lambda>(_, tm). (Inl ListenFailed, Some tm, None)) (TopicManager_Close (bo_topics io) tm)
           | Some srv \<Rightarrow>
               (case generateIncarnationID (bo_random io) of
                  None \<Rightarrow>
                    (case Server_Shutdown srv of
                       None \<Rightarrow> None
                     | Some srv \<Rightarrow> map_option (\<lambda>(_, tm). (Inl IncarnationFailed, Some tm, Some srv)) (TopicManager_Close (bo_topics io) tm))
                | Some incarnationID \<Rightarrow>
                    let port = (case listenerEndpoint (srv_addr srv) (bc_Host config) of Some (_, port) \<Rightarrow> ucast port | None \<Rightarrow> bc_Port config);
                        handler = NewHandler tm (bc_BrokerID config) (bc_Host config) port ctrl
                    in Some (Inr \<lparr>bk_config = config, bk_handler = handler, bk_server = srv, bk_incarnationID = incarnationID, bk_fetchManager = None\<rparr>,
                         Some tm, Some srv))))"

text \<open>The two proposals to Raft, the entries the node applies before each of the reads, and the file system of the two
  reconciliations.\<close>

record BrokerEnv =
  be_js :: JsonCodec
  be_uni :: "gostring \<Rightarrow> gostring"
  be_register :: "bytes \<Rightarrow> RaftOutcome"
  be_unfence :: "bytes \<Rightarrow> RaftOutcome"
  be_meanwhile :: "nat \<Rightarrow> RaftLog list"
  be_topics :: "nat \<Rightarrow> TopicEnv"

definition with_state :: "controllerState \<Rightarrow> TopicManager \<Rightarrow> Broker \<Rightarrow> Broker" where
  "with_state s tm b = b\<lparr>bk_handler := (bk_handler b)\<lparr>hd_controller := Some s, hd_topics := tm\<rparr>\<rparr>"

definition own_endpoints :: "gostring \<Rightarrow> u16 \<Rightarrow> BrokerEndpoint list" where
  "own_endpoints host port = [\<lparr>ep_Name = gostr ''PLAINTEXT'', ep_Host = host, ep_Port = port, ep_SecurityProtocol = SecurityProtocolPlaintext\<rparr>]"

text \<open>The last part, once the broker is registered with an epoch.\<close>

definition reconcile_and_unfence :: "BrokerEnv \<Rightarrow> u64 \<Rightarrow> controllerState \<Rightarrow> Broker \<Rightarrow> (BrokerError option \<times> Broker) option" where
  "reconcile_and_unfence env brokerEpoch s b =
     (let brokerID = bc_BrokerID (bk_config b);
          s = run (be_js env) (be_uni env) s (be_meanwhile env 1)
      in case Reconcile (be_topics env 0) (PartitionsForBroker s brokerID) brokerID (hd_topics (bk_handler b)) of
        None \<Rightarrow> None
      | Some (Inl err, tm) \<Rightarrow> Some (Some (ReconcileAssignments err), with_state s tm b)
      | Some (Inr _, tm) \<Rightarrow>
          let s1 = run (be_js env) (be_uni env) s (be_meanwhile env 2);
              s2 = run (be_js env) (be_uni env) s1 (be_meanwhile env 3)
          in case FM_Start (be_topics env 1) s1 s2 (NewFetchManager brokerID) tm of
            None \<Rightarrow> None
          | Some (Inl err, fm, tm) \<Rightarrow> Some (Some (FetchManagerFailed err), (with_state s2 tm b)\<lparr>bk_fetchManager := None\<rparr>)
          | Some (Inr _, fm, tm) \<Rightarrow>
              (case UnfenceBroker (be_js env) (be_uni env) (be_unfence env) brokerID brokerEpoch s2 of
                 (Some err, s) \<Rightarrow>
                   map_option (\<lambda>_. (Some (UnfenceFailed err), (with_state s tm b)\<lparr>bk_fetchManager := None\<rparr>)) (FM_Stop fm)
               | (None, s) \<Rightarrow> Some (None, (with_state s tm b)\<lparr>bk_fetchManager := Some fm\<rparr>)))"

definition registerAndReconcile :: "BrokerEnv \<Rightarrow> controllerState \<Rightarrow> Broker \<Rightarrow> (BrokerError option \<times> Broker) option" where
  "registerAndReconcile env s b =
     (let brokerID = bc_BrokerID (bk_config b); tm = hd_topics (bk_handler b) in
      case listenerEndpoint (srv_addr (bk_server b)) (bc_Host (bk_config b)) of
        None \<Rightarrow> Some (Some ListenerAddress, b)
      | Some (host, port) \<Rightarrow>
          (case RegisterBroker (be_js env) (be_uni env) (be_register env) brokerID (bk_incarnationID b) (own_endpoints host port) s of
             (Some err, s) \<Rightarrow> Some (Some (RegisterFailed err), with_state s tm b)
           | (None, s) \<Rightarrow>
               let s = run (be_js env) (be_uni env) s (be_meanwhile env 0) in
               (case GetBroker s brokerID of
                  None \<Rightarrow> Some (Some BrokerNotFound, with_state s tm b)
                | Some info \<Rightarrow> reconcile_and_unfence env (bi_BrokerEpoch info) s b)))"

definition Broker_Start :: "BrokerEnv \<Rightarrow> Broker \<Rightarrow> (BrokerError option \<times> Broker) option" where
  "Broker_Start env b =
     (let serve = (\<lambda>b. b\<lparr>bk_server := (bk_server b)\<lparr>srv_serving := True\<rparr>\<rparr>) in
      case hd_controller (bk_handler b) of
        None \<Rightarrow> Some (None, serve b)
      | Some s \<Rightarrow> map_option (\<lambda>(err, b). (err, if err = None then serve b else b)) (registerAndReconcile env s b))"

definition Broker_Shutdown :: "TopicEnv \<Rightarrow> Broker \<Rightarrow> (BrokerError option \<times> Broker) option" where
  "Broker_Shutdown env b =
     (case (case bk_fetchManager b of None \<Rightarrow> Some None | Some fm \<Rightarrow> map_option Some (FM_Stop fm)) of
        None \<Rightarrow> None
      | Some fm \<Rightarrow>
          (case Server_Shutdown (bk_server b) of
             None \<Rightarrow> None
           | Some srv \<Rightarrow>
               (case TopicManager_Close env (hd_topics (bk_handler b)) of
                  None \<Rightarrow> None
                | Some (err, tm) \<Rightarrow>
                    Some (map_option CloseTopics err,
                      b\<lparr>bk_fetchManager := fm, bk_server := srv, bk_handler := (bk_handler b)\<lparr>hd_topics := tm\<rparr>\<rparr>))))"

section \<open>Addresses are read back\<close>

definition bare :: "gostring \<Rightarrow> bool" where
  "bare s \<longleftrightarrow> 0x5B \<notin> set s \<and> 0x5D \<notin> set s"

lemma LastIndex_at:
  assumes "c \<notin> set ys"
  shows "LastIndex (xs @ c # ys) c = int (length xs)"
proof -
  have "takeWhile (\<lambda>b. b \<noteq> c) (rev ys @ c # rev xs) = rev ys" using assms by (subst takeWhile_append2) auto
  then show ?thesis by (simp add: LastIndex_def)
qed

lemma SplitHostPort_Join:
  assumes h: "bare host" and p: "bare port" "0x3A \<notin> set port"
  shows "SplitHostPort (JoinHostPort host port) = Some (host, port)"
proof (cases "0x3A \<in> set host")
  case True
  let ?x = "0x5B # host @ [0x5D]"
  have e: "JoinHostPort host port = ?x @ 0x3A # port" using True by (simp add: JoinHostPort_def gostr_def)
  have i: "nat (LastIndex (?x @ 0x3A # port) 0x3A) = Suc (Suc (length host))" unfolding LastIndex_at [OF p(2)] by simp
  have "takeWhile (\<lambda>c. c \<noteq> 0x5D) (host @ 0x5D # 0x3A # port) = host" using h by (subst takeWhile_append2) (auto simp: bare_def)
  then have t: "takeWhile (\<lambda>c. c \<noteq> 0x5D) (?x @ 0x3A # port) = 0x5B # host" by simp
  have c: "0x3A \<in> set (?x @ 0x3A # port)" by simp
  show ?thesis unfolding e SplitHostPort_def Let_def i t using h p(1) by (simp add: bare_def)
next
  case False
  have e: "JoinHostPort host port = host @ 0x3A # port" using False by (simp add: JoinHostPort_def gostr_def)
  have i: "LastIndex (host @ 0x3A # port) 0x3A = int (length host)" by (rule LastIndex_at [OF p(2)])
  have "hd (host @ 0x3A # port) \<noteq> 0x5B" using h by (cases host) (auto simp: bare_def)
  then show ?thesis unfolding e SplitHostPort_def Let_def i using h p(1) False by (auto simp: bare_def)
qed

lemma port_text: "bare (fmt_d (uint (p :: u16)))" "0x3A \<notin> set (fmt_d (uint p))" "ParseUint16 (fmt_d (uint p)) = Some p"
proof -
  have f: "fmt_d (uint p) = dec_nat (unat p)" by (simp add: fmt_d_def)
  have d: "is_digit b" if "b \<in> set (dec_nat (unat p))" for b using dec_nat_digits [OF that] .
  have "\<not> is_digit (0x5B :: byte)" "\<not> is_digit (0x5D :: byte)" "\<not> is_digit (0x3A :: byte)" by (simp_all add: is_digit_def)
  then show "bare (fmt_d (uint p))" "0x3A \<notin> set (fmt_d (uint p))" using d unfolding f bare_def by blast+
  show "ParseUint16 (fmt_d (uint p)) = Some p" using unsigned_less [of p, where 'a = nat] by (simp add: f ParseUint16_def digits_val_dec)
qed

lemma listenerEndpoint_Join:
  assumes "bare host"
  shows "listenerEndpoint (JoinHostPort host (fmt_d (uint p))) adv =
    Some (if host = [] \<or> host = gostr ''::'' \<or> host = gostr ''0.0.0.0'' then adv else host, p)"
  using SplitHostPort_Join [OF assms port_text(1,2)] port_text(3) by (simp add: listenerEndpoint_def)

text \<open>The endpoint of a broker in the controller's metadata is the one it registered with.\<close>

lemma own_normalized:
  assumes "normalizeEndpoints uni (own_endpoints host port) = Inr es"
  shows "es = own_endpoints (TrimSpace host) port"
proof -
  have "TrimSpace (gostr ''PLAINTEXT'') = gostr ''PLAINTEXT''" "ToUpper uni (gostr ''PLAINTEXT'') = gostr ''PLAINTEXT''"
    by (code_simp, simp add: gostr_def ToUpper_def is_ascii_def ascii_upper_def)
  then show ?thesis using assms by (auto simp: normalizeEndpoints_def own_endpoints_def Let_def split: if_splits)
qed

lemma registered_endpoint:
  assumes "register_broker uni s \<lparr>rb_ID = i, rb_IncarnationID = inc, rb_Endpoints = own_endpoints host port\<rparr> index = (None, s')"
  shows "\<exists>info. GetBroker s' i = Some info \<and> bi_IncarnationID info = inc \<and> bi_Endpoints info = own_endpoints (TrimSpace host) port"
proof -
  obtain es where "normalizeEndpoints uni (own_endpoints host port) = Inr es"
    using assms by (auto simp: register_broker_def split: if_splits sum.splits)
  then have n: "normalizeEndpoints uni (own_endpoints host port) = Inr (own_endpoints (TrimSpace host) port)" using own_normalized by simp
  have eq: "a = [x]" if "endpointsEqual a [x]" for a and x :: BrokerEndpoint
    using that by (cases a; cases "tl a") (auto simp: endpointsEqual_def)
  show ?thesis using assms n
    by (auto simp: register_broker_def GetBroker_def update_conv Let_def own_endpoints_def split: if_splits option.splits dest: eq)
qed

lemma leader_addr_own:
  assumes "GetBroker s i = Some info" and "\<not> bi_Fenced info" and "bi_Endpoints info = own_endpoints host port"
  shows "leader_addr s i = Some (JoinHostPort host (fmt_d (uint port)))"
  using assms by (simp add: leader_addr_def own_endpoints_def plaintextEndpoint_def)

section \<open>Closing the topics\<close>

lemma close_partitions_total:
  "(\<forall>p. Some p \<in> set ps \<longrightarrow> part_inv b p) \<Longrightarrow> \<exists>e. close_partitions env name i ps e0 = Some e"
proof (induction ps arbitrary: i e0)
  case (Cons q ps)
  show ?case
  proof (cases q)
    case (Some p)
    then obtain bss where "part_ok p bss" using Cons.prems by (auto simp: part_inv_def)
    then obtain ok x p' where "Partition_Close (te_close env (partitionDir name (int i))) p = Some ((ok, x), p')" using Partition_Close_sound by (metis surj_pair)
    then show ?thesis using Some Cons by auto
  qed (use Cons in auto)
qed simp

lemma close_topics_total:
  "(\<forall>(name, t)\<in>set ts. \<forall>p. Some p \<in> set (tp_partitions t) \<longrightarrow> part_inv b p) \<Longrightarrow> \<exists>e. close_topics env ts e0 = Some e"
proof (induction ts arbitrary: e0)
  case (Cons x ts)
  obtain name t where x: "x = (name, t)" by (cases x)
  have "\<forall>p. Some p \<in> set (tp_partitions t) \<longrightarrow> part_inv b p" using Cons.prems x by simp
  then obtain e where "close_partitions env name 0 (tp_partitions t) e0 = Some e" using close_partitions_total by blast
  then show ?case using Cons x by auto
qed simp

lemma TopicManager_Close_total:
  assumes "tm_ok tm"
  shows "\<exists>e. TopicManager_Close env tm = Some (e, tm\<lparr>tm_topics := []\<rparr>)"
proof -
  have d: "distinct (map fst (tm_topics tm))" using assms by (simp add: tm_ok_def)
  have "part_inv (tm_localBrokerID tm) p" if nt: "(name, t) \<in> set (tm_topics tm)" and sp: "Some p \<in> set (tp_partitions t)" for name t p
  proof -
    obtain i where "i < length (tp_partitions t)" "tp_partitions t ! i = Some p" using sp by (auto simp: in_set_conv_nth)
    then have "slot tm name i = Some p" using map_of_is_SomeI [OF d nt] by (simp add: slot_def)
    then show ?thesis using assms by (simp add: tm_ok_def)
  qed
  then show ?thesis using close_topics_total [of "tm_topics tm" "tm_localBrokerID tm" env None] by (auto simp: TopicManager_Close_def)
qed

section \<open>Starting and shutting down\<close>

lemma NewFetchManager_fresh: "manager_ok (NewFetchManager i)" "\<not> fm_stopped (NewFetchManager i)" "fm_brokerID (NewFetchManager i) = i"
  by (simp_all add: manager_ok_new) (simp_all add: NewFetchManager_def)

lemma Reconcile_assigned:
  assumes "tm_ok tm" and "tm_localBrokerID tm = i" and "opens env (tm_logConfig tm)" and "controller_inv uni s" and "indices_fit s"
  shows "\<exists>r tm'. Reconcile env (PartitionsForBroker s i) i tm = Some (r, tm') \<and> tm_ok tm' \<and> same_settings tm tm' \<and>
    (r = Inr () \<longrightarrow> (\<forall>topic j epoch. leads tm' topic j epoch \<longleftrightarrow>
       (\<exists>q. GetPartition s topic j = Some q \<and> pt_LeaderBrokerID q = i \<and> pt_LeaderEpoch q = epoch)))"
proof -
  note k = keys_distinct [OF assms(4,5), of i]
  obtain r tm' where r: "Reconcile env (PartitionsForBroker s i) i tm = Some (r, tm')" "tm_ok tm'" "same_settings tm tm'"
    using Reconcile_rep [OF assms(1,3), of "PartitionsForBroker s i"] k assms(2) by auto
  then show ?thesis using leads_iff [OF assms(1,3,4,5)] assms(2) by auto
qed

lemma FM_Start_fresh:
  assumes "tm_ok tm" and "tm_localBrokerID tm = i" and "opens env (tm_logConfig tm)" and "controller_inv uni s" and "indices_fit s"
  shows "\<exists>r fm tm'. FM_Start env s s' (NewFetchManager i) tm = Some (r, fm, tm') \<and> tm_ok tm' \<and> same_settings tm tm' \<and>
    (r = Inr () \<longrightarrow> manager_ok fm \<and> fm_started fm \<and> \<not> fm_stopped fm \<and>
       (\<forall>topic j epoch. leads tm' topic j epoch \<longleftrightarrow> (\<exists>q. GetPartition s topic j = Some q \<and> pt_LeaderBrokerID q = i \<and> pt_LeaderEpoch q = epoch)))"
proof -
  obtain x tm' where x: "Reconcile env (PartitionsForBroker s i) i tm = Some (x, tm')" "tm_ok tm'" "same_settings tm tm'"
      "x = Inr () \<longrightarrow> (\<forall>topic j epoch. leads tm' topic j epoch \<longleftrightarrow> (\<exists>q. GetPartition s topic j = Some q \<and> pt_LeaderBrokerID q = i \<and> pt_LeaderEpoch q = epoch))"
    using Reconcile_assigned [OF assms] by blast
  obtain fm where fm: "Reassign s' tm' (NewFetchManager i) = Some (Inr (), fm)" "manager_ok fm" "same_manager (NewFetchManager i) fm"
    using Reassign_ok [OF NewFetchManager_fresh(1,2)] by blast
  have st: "\<not> fm_stopped fm" "\<not> fm_started fm" using fm(3) by (simp_all add: same_manager_def NewFetchManager_def)
  show ?thesis
  proof (cases x)
    case (Inl e)
    then show ?thesis using x by (simp add: FM_Start_def refresh_def NewFetchManager_fresh(3))
  next
    case (Inr u)
    have "manager_ok (fm\<lparr>fm_started := True\<rparr>)" using fm(2) by (simp add: manager_ok_def)
    then show ?thesis using Inr x fm st by (simp add: FM_Start_def refresh_def NewFetchManager_fresh(3))
  qed
qed

lemma UnfenceBroker_performed:
  assumes "\<forall>c. json_law js c" and "UnfenceBroker js uni raft i epoch s = (None, s')"
  shows "\<exists>mid info logs. GetBroker mid i = Some info \<and> \<not> bi_Fenced info \<and> bi_BrokerEpoch info = epoch \<and> s' = run js uni mid logs"
proof -
  let ?c = "UnfencePayload \<lparr>ub_BrokerID = i, ub_BrokerEpoch = epoch\<rparr>"
  obtain r where r: "Node_Apply js uni raft (command_type ?c) ?c s = (r, s')" "translateLeaderError r = None"
    using assms(2) by (cases "Node_Apply js uni raft CommandUnfenceBroker ?c s") (simp add: UnfenceBroker_def)
  then have "r = None" by (cases r) (simp_all split: if_splits)
  then obtain before index after mid where m: "perform uni (run js uni s before) index ?c = (None, mid)" "s' = run js uni mid after"
    using Node_Apply_performed [of js ?c uni raft s s'] assms(1) r(1) by blast
  then have "\<exists>info. GetBroker mid i = Some info \<and> \<not> bi_Fenced info \<and> bi_BrokerEpoch info = epoch"
    by (auto simp: unfence_broker_def GetBroker_def update_conv split: option.splits if_splits)
  then show ?thesis using m(2) by blast
qed

lemma inv_adapter:
  assumes "upper_law uni" and "controller_inv uni s"
  shows "controller_inv uni (snd (RegisterBroker js uni raft i inc es s))" "controller_inv uni (snd (UnfenceBroker js uni raft i epoch s))"
  using inv_Node_Apply [OF assms] by (simp_all add: RegisterBroker_def UnfenceBroker_def map_prod_def split: prod.split)

lemma snd_adapter: "\<exists>logs. snd (RegisterBroker js uni raft i inc es s) = run js uni s logs"
proof -
  have "\<exists>logs. s' = run js uni s logs" if "Node_Apply js uni raft t c s = (r, s')" for t c r s'
  proof (cases "EncodeCommand js t c")
    case (Inl e)
    then show ?thesis using that by (intro exI [of _ "[]"]) (simp add: Node_Apply_def run_def)
  next
    case (Inr data)
    show ?thesis
    proof (cases "raft data")
      case (RaftFailed e logs)
      then show ?thesis using that Inr by (auto simp: Node_Apply_def)
    next
      case (RaftApplied before index after)
      have "s' = run js uni s (before @ \<lparr>rl_Index = index, rl_Data = data\<rparr> # after)"
        using that Inr RaftApplied by (simp add: Node_Apply_def run_def split: prod.splits)
      then show ?thesis by blast
    qed
  qed
  then show ?thesis by (simp add: RegisterBroker_def map_prod_def split: prod.split)
qed

lemma run_run: "run js uni (run js uni s a) b = run js uni s (a @ b)"
  by (simp add: run_def)

text \<open>A broker after a successful start, and after one that failed.\<close>

definition started :: "JsonCodec \<Rightarrow> (gostring \<Rightarrow> gostring) \<Rightarrow> Broker \<Rightarrow> bool" where
  "started js uni b \<longleftrightarrow> (\<exists>fm. bk_fetchManager b = Some fm \<and> manager_ok fm \<and> fm_started fm \<and> \<not> fm_stopped fm) \<and>
     (\<exists>read mid info logs. controller_inv uni read \<and>
        (\<forall>topic j epoch. leads (hd_topics (bk_handler b)) topic j epoch \<longleftrightarrow>
           (\<exists>q. GetPartition read topic j = Some q \<and> pt_LeaderBrokerID q = bc_BrokerID (bk_config b) \<and> pt_LeaderEpoch q = epoch)) \<and>
        GetBroker mid (bc_BrokerID (bk_config b)) = Some info \<and> \<not> bi_Fenced info \<and> hd_controller (bk_handler b) = Some (run js uni mid logs))"

definition broker_ok_state :: "(gostring \<Rightarrow> gostring) \<Rightarrow> Broker \<Rightarrow> bool" where
  "broker_ok_state uni b \<longleftrightarrow> tm_ok (hd_topics (bk_handler b)) \<and> tm_localBrokerID (hd_topics (bk_handler b)) = bc_BrokerID (bk_config b) \<and>
     (\<forall>s. hd_controller (bk_handler b) = Some s \<longrightarrow> controller_inv uni s)"

lemma reconcile_and_unfence_ok:
  assumes u: "upper_law (be_uni env)" and js: "\<forall>c. json_law (be_js env) c" and inv: "controller_inv (be_uni env) s"
    and tm: "tm_ok (hd_topics (bk_handler b))" "tm_localBrokerID (hd_topics (bk_handler b)) = bc_BrokerID (bk_config b)"
    and op: "\<forall>k. opens (be_topics env k) (tm_logConfig (hd_topics (bk_handler b)))"
    and fit: "\<forall>logs. indices_fit (run (be_js env) (be_uni env) s logs)" and nf: "bk_fetchManager b = None"
  shows "\<exists>r b'. reconcile_and_unfence env epoch s b = Some (r, b') \<and> broker_ok_state (be_uni env) b' \<and> bk_server b' = bk_server b \<and>
    (if r = None then started (be_js env) (be_uni env) b' else bk_fetchManager b' = None)"
proof -
  let ?run = "run (be_js env) (be_uni env)" and ?i = "bc_BrokerID (bk_config b)" and ?tm = "hd_topics (bk_handler b)"
  define s0 where "s0 = ?run s (be_meanwhile env 1)"
  define s1 where "s1 = ?run s0 (be_meanwhile env 2)"
  define s2 where "s2 = ?run s1 (be_meanwhile env 3)"
  have iv: "controller_inv (be_uni env) s0" "controller_inv (be_uni env) s1" "controller_inv (be_uni env) s2"
    unfolding s0_def s1_def s2_def using inv_run [OF u] inv by blast+
  have ft: "indices_fit s0" "indices_fit s1" using fit unfolding s0_def s1_def run_run by blast+
  obtain x tm1 where x: "Reconcile (be_topics env 0) (PartitionsForBroker s0 ?i) ?i ?tm = Some (x, tm1)" "tm_ok tm1" "same_settings ?tm tm1"
    using Reconcile_assigned [OF tm op [rule_format] iv(1) ft(1)] by blast
  have ws: "broker_ok_state (be_uni env) (with_state s' tm' b)" "bk_server (with_state s' tm' b) = bk_server b" "bk_fetchManager (with_state s' tm' b) = None"
    if "controller_inv (be_uni env) s'" "tm_ok tm'" "same_settings ?tm tm'" for s' tm'
    using that tm(2) nf by (simp_all add: broker_ok_state_def with_state_def same_settings_def)
  have bf: "broker_ok_state (be_uni env) (c\<lparr>bk_fetchManager := m\<rparr>) = broker_ok_state (be_uni env) c" for c m by (simp add: broker_ok_state_def)
  show ?thesis
  proof (cases x)
    case (Inl e)
    then show ?thesis using x ws [OF iv(1) x(2,3)] by (simp add: reconcile_and_unfence_def s0_def [symmetric] Let_def del: One_nat_def)
  next
    case (Inr v)
    have t1: "tm_localBrokerID tm1 = ?i" "opens (be_topics env 1) (tm_logConfig tm1)" using x(3) tm(2) op by (simp_all add: same_settings_def)
    obtain y fm tm2 where y: "FM_Start (be_topics env 1) s1 s2 (NewFetchManager ?i) tm1 = Some (y, fm, tm2)" "tm_ok tm2" "same_settings tm1 tm2"
        "y = Inr () \<longrightarrow> manager_ok fm \<and> fm_started fm \<and> \<not> fm_stopped fm \<and>
         (\<forall>topic j epoch. leads tm2 topic j epoch \<longleftrightarrow> (\<exists>q. GetPartition s1 topic j = Some q \<and> pt_LeaderBrokerID q = ?i \<and> pt_LeaderEpoch q = epoch))"
      using FM_Start_fresh [OF x(2) t1 iv(2) ft(2)] by blast
    have ss: "same_settings ?tm tm2" using same_settings_trans [OF x(3) y(3)] .
    obtain z s3 where z: "UnfenceBroker (be_js env) (be_uni env) (be_unfence env) ?i epoch s2 = (z, s3)" by fastforce
    have iv3: "controller_inv (be_uni env) s3" using inv_adapter(2) [OF u iv(3)] z by (metis snd_conv)
    have eq: "reconcile_and_unfence env epoch s b = (case y of
          Inl err \<Rightarrow> Some (Some (FetchManagerFailed err), (with_state s2 tm2 b)\<lparr>bk_fetchManager := None\<rparr>)
        | Inr _ \<Rightarrow> (case z of
            Some err \<Rightarrow> map_option (\<lambda>_. (Some (UnfenceFailed err), (with_state s3 tm2 b)\<lparr>bk_fetchManager := None\<rparr>)) (FM_Stop fm)
          | None \<Rightarrow> Some (None, (with_state s3 tm2 b)\<lparr>bk_fetchManager := Some fm\<rparr>)))"
      using x(1) y(1) z Inr by (simp add: reconcile_and_unfence_def s0_def [symmetric] s1_def [symmetric] s2_def [symmetric] Let_def del: One_nat_def split: sum.split option.split)
    show ?thesis
    proof (cases y)
      case (Inl e)
      then show ?thesis using eq ws [OF iv(3) y(2) ss] bf by simp
    next
      case (Inr v)
      then have fm: "manager_ok fm" "fm_started fm" "\<not> fm_stopped fm" using y(4) by auto
      show ?thesis
      proof (cases z)
        case (Some e)
        obtain fm' where "FM_Stop fm = Some fm'" using Stop_ok [OF fm(1)] by blast
        then show ?thesis using eq Inr Some ws [OF iv3 y(2) ss] bf by simp
      next
        case None
        obtain mid info logs where m: "GetBroker mid ?i = Some info" "\<not> bi_Fenced info" "s3 = ?run mid logs"
          using UnfenceBroker_performed [OF js] z None by blast
        have "started (be_js env) (be_uni env) ((with_state s3 tm2 b)\<lparr>bk_fetchManager := Some fm\<rparr>)"
          unfolding started_def using fm m iv(2) y(4) Inr
          by (intro conjI exI [of _ fm] exI [of _ s1] exI [of _ mid] exI [of _ info] exI [of _ logs]) (simp_all add: with_state_def)
        then show ?thesis using eq Inr None ws [OF iv3 y(2) ss] bf by simp
      qed
    qed
  qed
qed

lemma Broker_Start_ok:
  assumes u: "upper_law (be_uni env)" and js: "\<forall>c. json_law (be_js env) c" and ok: "broker_ok_state (be_uni env) b"
    and s: "hd_controller (bk_handler b) = Some s" and op: "\<forall>k. opens (be_topics env k) (tm_logConfig (hd_topics (bk_handler b)))"
    and fit: "\<forall>logs. indices_fit (run (be_js env) (be_uni env) s logs)" and nf: "bk_fetchManager b = None"
  shows "\<exists>r b'. Broker_Start env b = Some (r, b') \<and> broker_ok_state (be_uni env) b' \<and> srv_closing (bk_server b') = srv_closing (bk_server b) \<and>
    (if r = None then started (be_js env) (be_uni env) b' \<and> srv_serving (bk_server b')
     else bk_fetchManager b' = None \<and> srv_serving (bk_server b') = srv_serving (bk_server b))"
proof -
  let ?run = "run (be_js env) (be_uni env)"
  have inv: "controller_inv (be_uni env) s" and tm: "tm_ok (hd_topics (bk_handler b))" "tm_localBrokerID (hd_topics (bk_handler b)) = bc_BrokerID (bk_config b)"
    using ok s by (simp_all add: broker_ok_state_def)
  have ws: "broker_ok_state (be_uni env) (with_state s' (hd_topics (bk_handler b)) b)" if "controller_inv (be_uni env) s'" for s'
    using that tm by (simp add: broker_ok_state_def with_state_def)
  have "\<exists>r b'. registerAndReconcile env s b = Some (r, b') \<and> broker_ok_state (be_uni env) b' \<and> bk_server b' = bk_server b \<and>
    (if r = None then started (be_js env) (be_uni env) b' else bk_fetchManager b' = None)"
  proof (cases "listenerEndpoint (srv_addr (bk_server b)) (bc_Host (bk_config b))")
    case None
    then show ?thesis using ok nf by (simp add: registerAndReconcile_def)
  next
    case (Some hp)
    obtain host port where hp: "hp = (host, port)" by (cases hp)
    obtain x s1 where x: "RegisterBroker (be_js env) (be_uni env) (be_register env) (bc_BrokerID (bk_config b)) (bk_incarnationID b) (own_endpoints host port) s = (x, s1)"
      by fastforce
    have i1: "controller_inv (be_uni env) s1" using inv_adapter(1) [OF u inv] x by (metis snd_conv)
    obtain logs where l1: "s1 = ?run s logs" using snd_adapter x by (metis snd_conv)
    define s2 where "s2 = ?run s1 (be_meanwhile env 0)"
    have i2: "controller_inv (be_uni env) s2" unfolding s2_def by (rule inv_run [OF u i1])
    have f2: "\<forall>logs. indices_fit (?run s2 logs)" using fit unfolding s2_def l1 run_run by blast
    show ?thesis
    proof (cases x)
      case err: (Some e)
      then show ?thesis using Some hp x ws [OF i1] nf by (simp add: registerAndReconcile_def with_state_def)
    next
      case None
      show ?thesis
      proof (cases "GetBroker s2 (bc_BrokerID (bk_config b))")
        case g: None
        then show ?thesis using Some hp x None ws [OF i2] nf by (simp add: registerAndReconcile_def s2_def [symmetric] with_state_def)
      next
        case (Some info)
        have "registerAndReconcile env s b = reconcile_and_unfence env (bi_BrokerEpoch info) s2 b"
          using \<open>listenerEndpoint _ _ = Some hp\<close> hp x None Some by (simp add: registerAndReconcile_def s2_def [symmetric])
        then show ?thesis using reconcile_and_unfence_ok [OF u js i2 tm op f2 nf] by simp
      qed
    qed
  qed
  then obtain r b1 where b1: "registerAndReconcile env s b = Some (r, b1)" "broker_ok_state (be_uni env) b1" "bk_server b1 = bk_server b"
      "if r = None then started (be_js env) (be_uni env) b1 else bk_fetchManager b1 = None" by blast
  have "started (be_js env) (be_uni env) (b1\<lparr>bk_server := x\<rparr>) = started (be_js env) (be_uni env) b1"
    "broker_ok_state (be_uni env) (b1\<lparr>bk_server := x\<rparr>) = broker_ok_state (be_uni env) b1" for x by (simp_all add: started_def broker_ok_state_def)
  then show ?thesis using b1 s by (cases r) (simp_all add: Broker_Start_def Let_def)
qed

lemma Broker_Shutdown_ok:
  assumes ok: "broker_ok_state uni b" and fm: "\<forall>fm. bk_fetchManager b = Some fm \<longrightarrow> manager_ok fm" and cl: "\<not> srv_closing (bk_server b)"
  shows "\<exists>r b'. Broker_Shutdown env b = Some (r, b') \<and> srv_closing (bk_server b') \<and> \<not> srv_serving (bk_server b') \<and> tm_topics (hd_topics (bk_handler b')) = [] \<and>
    (\<forall>fm. bk_fetchManager b = Some fm \<longrightarrow> (\<exists>fm'. bk_fetchManager b' = Some fm' \<and> fm_workers fm' = [] \<and>
       (\<forall>l w. map_of (fm_workers fm) l = Some w \<longrightarrow> stopped_worker w \<in> set (fm_retired fm'))))"
proof -
  obtain e where e: "TopicManager_Close env (hd_topics (bk_handler b)) = Some (e, (hd_topics (bk_handler b))\<lparr>tm_topics := []\<rparr>)"
    using TopicManager_Close_total ok unfolding broker_ok_state_def by blast
  show ?thesis
  proof (cases "bk_fetchManager b")
    case None
    then show ?thesis using e cl by (simp add: Broker_Shutdown_def Server_Shutdown_def)
  next
    case (Some m)
    obtain m' where m': "FM_Stop m = Some m'" "fm_workers m' = []" "set (fm_retired m') = set (fm_retired m) \<union> stopped_worker ` snd ` set (fm_workers m)"
      using Stop_ok [of m] fm Some by blast
    have "stopped_worker w \<in> set (fm_retired m')" if "map_of (fm_workers m) l = Some w" for l w
      using m'(3) map_of_SomeD [OF that] by force
    then show ?thesis using Some e cl m'(1,2) by (simp add: Broker_Shutdown_def Server_Shutdown_def)
  qed
qed

text \<open>A new broker; an attempt that fails closes the topics and the listener it has opened.\<close>

lemma NewBroker_ok:
  assumes op: "opens (bo_topics io) (bc_LogConfig config)" and d: "\<And>es topic. bo_entries io = Some es \<Longrightarrow> distinct (map fst (dirs_of topic es))"
    and ctrl: "\<forall>s. ctrl = Some s \<longrightarrow> controller_inv uni s"
  shows "\<exists>r tm srv. NewBroker io config ctrl = Some (r, tm, srv) \<and>
    (case r of
       Inl _ \<Rightarrow> (\<forall>t. tm = Some t \<longrightarrow> tm_topics t = []) \<and> (\<forall>x. srv = Some x \<longrightarrow> srv_closing x)
     | Inr b \<Rightarrow> broker_ok_state uni b \<and> bk_fetchManager b = None \<and> \<not> srv_closing (bk_server b) \<and> \<not> srv_serving (bk_server b) \<and>
         0 < sint (srv_maxReqBytes (bk_server b)) \<and> hd_controller (bk_handler b) = ctrl \<and> tm_logConfig (hd_topics (bk_handler b)) = bc_LogConfig config)"
proof -
  let ?c = "applyBrokerDefaults config"
  have c: "bc_BrokerID ?c = bc_BrokerID config" "bc_LogConfig ?c = bc_LogConfig config" by (simp_all add: applyBrokerDefaults_def Let_def)
  show ?thesis
  proof (cases "bo_mkdirFails io \<or> bo_entries io = None")
    case True
    then have "\<exists>e. NewTopicManager (bo_topics io) (bo_mkdirFails io) (bo_entries io) (bc_BrokerID ?c) (bc_LogConfig ?c) = Some (Inl e)"
      by (auto simp: NewTopicManager_def recoverFromDisk_def)
    then show ?thesis by (auto simp: NewBroker_def Let_def)
  next
    case False
    then obtain es where es: "bo_entries io = Some es" "\<not> bo_mkdirFails io" by auto
    obtain tm where tm: "NewTopicManager (bo_topics io) False (Some es) (bc_BrokerID config) (bc_LogConfig config) = Some (Inr tm)" "tm_ok tm" "tm_localBrokerID tm = bc_BrokerID config"
        and lc: "tm_logConfig tm = bc_LogConfig config"
      using NewTopicManager_rep [OF op d [OF es(1)]] by blast
    obtain e where e: "TopicManager_Close (bo_topics io) tm = Some (e, tm\<lparr>tm_topics := []\<rparr>)" using TopicManager_Close_total [OF tm(2)] by blast
    show ?thesis
    proof (cases "NewServer (bo_listen io) (gostr '':'' @ fmt_d (sint (bc_Port ?c))) (bc_MaxRequestBytes ?c)")
      case None
      then show ?thesis using tm(1) es c e by (simp add: NewBroker_def Let_def)
    next
      case (Some srv)
      then have srv: "\<not> srv_closing srv" "\<not> srv_serving srv" "0 < sint (srv_maxReqBytes srv)" by (auto simp: NewServer_def)
      show ?thesis
      proof (cases "generateIncarnationID (bo_random io)")
        case None
        then show ?thesis using tm(1) es c e Some srv by (simp add: NewBroker_def Server_Shutdown_def Let_def)
      next
        case inc: (Some inc)
        then show ?thesis using tm es c Some srv ctrl lc by (simp add: NewBroker_def NewHandler_def broker_ok_state_def Let_def)
      qed
    qed
  qed
qed

end
