(* ===== verification/Spec2Isabelle.thy ===== *)
theory Spec2Isabelle
  imports Api Fetch Produce ListOffsets Metadata OffsetsForLeaderEpoch RecordBatch ControllerRuns PartitionFetch TopicsLife ServerLoop HandlerFlow Cluster BrokerLife
begin

text \<open>
  A model of a Kafka-compatible message broker (Go, under \<open>src/\<close>) and its properties.

  \<^bold>\<open>The program.\<close>  A cluster has a controller, a Raft state machine that knows the brokers, topics, partition
  assignments and epochs, and brokers that keep a replica of the partitions assigned to them.  A broker opens its topics
  and a listener, registers, reconciles its replicas with the assignments, starts fetchers for the partitions it follows,
  unfences itself and serves the Kafka protocol: produce requests append to the log of a partition it leads, fetch
  requests of consumers read up to the high watermark, those of followers up to the end of the log.  A log is a
  sequence of segment files with sparse offset indices and a history of leader epochs; a follower that has
  diverged uses the history of its leader to find where to cut its log.

  \<^bold>\<open>Theories and sources.\<close>  Each definition bears the name of the Go function or type it translates, or a name with a
  prefix where several types have a method of that name (\<open>Partition_AppendRaw\<close>, \<open>Client_Fetch\<close>, \<open>FM_Stop\<close>).

  \<^item> \<open>Prelude\<close>, \<open>Varint\<close>, \<open>GoText\<close>, \<open>Files\<close>: machine integers, \<open>encoding/binary\<close>, \<open>strconv\<close>, \<open>strings\<close>,
    \<open>bufio\<close> and files, as far as the program uses them.
  \<^item> \<open>Wire\<close>, \<open>Reader\<close>: \<open>protocol/encoder.go\<close> and \<open>decoder.go\<close>; the locale \<open>codec\<close> is the contract of a
    field that can be written and read back, \<open>reader\<close> that of a decoder that does not panic.  \<open>Api\<close>, \<open>Fetch\<close>, \<open>Produce\<close>,
    \<open>ListOffsets\<close>, \<open>Metadata\<close>, \<open>OffsetsForLeaderEpoch\<close>, \<open>RecordBatch\<close>: the messages, which
    interpret these locales for every field, array and body.
  \<^item> \<open>EpochCache\<close>, \<open>Checkpoint\<close>, \<open>Index\<close>, \<open>RawBatch\<close>, \<open>BatchCodec\<close>, \<open>Segment\<close>, \<open>SegmentRep\<close>: the files of
    \<open>internal/log\<close>; \<open>seg_rep\<close> relates a segment to the list of its batches.  \<open>Log\<close>, \<open>LogRep\<close>, \<open>LogAppend\<close>, \<open>LogTruncate\<close>,
    \<open>LogOpen\<close>: a log; \<open>log_rep\<close> relates it to its batches, segment by segment.  The locale \<open>segment_append\<close> is what the two
    ways to append to a segment share.
  \<^item> \<open>Purgatory\<close>, \<open>Partition\<close>, \<open>PartitionRep\<close>, \<open>PartitionSteps\<close>, \<open>PartitionFetch\<close>: \<open>broker/partition.go\<close> and
    \<open>partition_raw.go\<close>; \<open>part_ok\<close> is the invariant, \<open>partition_step\<close> the step relation of a replica in use.
  \<^item> \<open>Controller\<close>, \<open>ControllerSafety\<close>, \<open>ControllerRuns\<close>: \<open>controller/fsm.go\<close>; \<open>controller_inv\<close> is the
    invariant.  \<open>ControllerNode\<close>: \<open>node.go\<close>, \<open>cluster_node.go\<close>, \<open>leader_adapter.go\<close>.
  \<^item> \<open>Topics\<close>, \<open>TopicsRep\<close>, \<open>TopicsLife\<close>: \<open>topic_manager.go\<close>.  \<open>FetchStream\<close>, \<open>Handler\<close>, \<open>HandlerRep\<close>,
    \<open>HandlerFlow\<close>: \<open>fetch_stream.go\<close> and \<open>handler.go\<close>; the locale \<open>filling\<close> is the loop over the topics and partitions of a request.
  \<^item> \<open>Server\<close>, \<open>ServerLoop\<close>: \<open>internal/server\<close>, one connection.
  \<^item> \<open>ReplicaClient\<close>, \<open>FetchManager\<close>, \<open>ManagerRep\<close>: \<open>replica_client.go\<close> and \<open>fetch_manager.go\<close>.  \<open>Divergence\<close> and
    \<open>ReconcileRep\<close> are about two histories that part; the locale \<open>epoch_source\<close> is what a follower needs of a leader's answers.
    \<open>Cluster\<close> joins the client of a follower to the server and the handler of its leader and interprets the locale on them.
  \<^item> \<open>BrokerLife\<close>: \<open>broker.go\<close>, \<open>config.go\<close> and the listener of \<open>server.go\<close>.

  \<^bold>\<open>Conventions.\<close>  Go's \<open>intN\<close> and \<open>uintN\<close> are words of that width; file positions and Go's \<open>int\<close> are \<^typ>\<open>int\<close>, with the wrap-around
  written out where input can reach it.  Strings and slices of bytes are lists of bytes, a nil slice is \<^const>\<open>None\<close>, a map is an association
  list.  An error is a value of a sum or option type; a panic is \<^const>\<open>None\<close> at the outermost level.  The results of the
  file system and of the network, the clock, contexts, random bytes, the Raft library, \<open>encoding/json\<close>, the Unicode tables and what other goroutines
  do between two steps are arguments (\<open>LogIO\<close>, \<open>TopicEnv\<close>, \<open>RequestEnv\<close>, \<open>Conn\<close>, \<open>Attempt\<close>,
  \<open>FetchEnv\<close>, \<open>RaftOutcome\<close>, \<open>BrokerEnv\<close>); laws on them are named hypotheses (\<open>json_law\<close>, \<open>upper_law\<close>).

  \<^bold>\<open>What is shown.\<close>  The sections below follow the components.
  \<^item> Protocol: what is encoded is decoded again in every version; the decoders of Produce, Fetch,
    ListOffsets and Metadata requests do not panic, while a flexible header can make the parser panic; corrupt batches are refused.
  \<^item> Controller: every reachable state is valid, a leader epoch has one leader, snapshots restore the state, refused commands change nothing.
  \<^item> Storage: appends, reads and truncation of a log act on its list of batches; recovery after a crash keeps exactly the complete
    batches; the checkpoint of the epochs is replaced atomically.
  \<^item> Partitions: the watermark stays inside the log, acknowledged records are on every in-sync replica, waiting producers are
    answered, consumers read only below the watermark, a follower that appends what it fetches holds a prefix of its leader's log.
  \<^item> Topics, handler, connections: local roles are those the controller assigned, two brokers that reconciled with the controller do not lead a
    partition in the same epoch, a request other than OffsetsForLeaderEpoch version 4 that the logs have room for is answered or refused without a panic, a consumer reads what a producer was told is stored, answers come in order.
  \<^item> Followers: reconciliation leaves the longest common prefix of the two logs, and one round of a worker makes a diverged follower replicate
    its leader, with all layers between them; the workers of a manager are those the metadata asks for; no connection leaks.
  \<^item> The life of a broker: a started broker is unfenced, leads what it was given and fetches; failed attempts leave nothing open.

  \<^bold>\<open>Bounds.\<close>  Recursions follow the data or have a termination proof.  The one counter is the code's own: reconciliation
  gives up after 32 questions, and 32 are shown to be enough for a follower that knows at most 32 epochs.  The waits of
  a long poll and of \<open>WaitForLeader\<close> are counted in polls until the timer fires.  Hypotheses such as \<open>pair_small\<close>, \<open>append_fits\<close> or \<open>readable\<close>
  keep sizes where the code's 32-bit index fields and 63-bit wire offsets are exact.

  \<^bold>\<open>Not modelled.\<close>  \<open>cmd/broker/main.go\<close> (flags, logging, signals); \<open>sendfile_fallback.go\<close>, which replaces \<open>sendFileRange\<close> where there is no
  sendfile; the ticker loops \<open>FetchManager.run\<close> and \<open>leaderFetchWorker.run\<close>, which only repeat \<open>refresh\<close> and \<open>fetchOnce\<close>; that
  \<open>Server.Shutdown\<close> waits for its connections; log output.  Locks have no counterpart: an operation under a lock is one step, and
  where the code gives up a lock inside an operation the interference is an argument.  The fetchers that already run while a starting broker
  waits to be unfenced are not interleaved with that wait.
\<close>

section \<open>Example values\<close>

text \<open>Concrete values on which the statements are instantiated.\<close>

definition example_batch :: Batch where
  "example_batch =
     \<lparr>b_FirstOffset = 5, b_Attributes = 0, b_FirstTimestamp = 1000, b_MaxTimestamp = 1001,
      b_LastOffsetDelta = 1,
      b_Messages = [\<lparr>m_Key = None, m_Value = Some [0x68, 0x69], m_Timestamp = 1000\<rparr>,
                    \<lparr>m_Key = Some [], m_Value = None, m_Timestamp = 1001\<rparr>]\<rparr>"

lemma length_example_batch_body: "length (batch_body example_batch) < 240"
proof -
  note u = length_put_varint_le
  show ?thesis
    using u [of 0] u [of 1] u [of "- 1"] u [of 2]
      u [of "word_of_nat (length (record_body 1000 (0, \<lparr>m_Key = None, m_Value = Some [0x68, 0x69], m_Timestamp = 1000\<rparr>)))"]
      u [of "word_of_nat (length (record_body 1000 (1, \<lparr>m_Key = Some [], m_Value = None, m_Timestamp = 1001\<rparr>)))"]
    by (simp add: batch_body_def batch_records_def example_batch_def record_bytes_def)
      (simp add: record_body_def field_bytes_def)
qed

lemma example_batch_ok: "batch_ok example_batch"
  using length_example_batch_body by (simp add: batch_ok_def ok_len_def) (simp add: example_batch_def)

definition example_fetch_request :: FetchRequest where
  "example_fetch_request =
     \<lparr>fr_ReplicaID = 2, fr_MaxWaitMs = 500, fr_MinBytes = 1, fr_MaxBytes = 1048576, fr_IsolationLevel = 0,
      fr_SessionID = 0, fr_SessionEpoch = - 1,
      fr_Topics = [\<lparr>frt_Name = [0x74],
        frt_Partitions = [\<lparr>frp_Index = 0, frp_CurrentLeaderEpoch = 3, frp_FetchOffset = 42,
          frp_LogStartOffset = 0, frp_MaxBytes = 65536\<rparr>]\<rparr>],
      fr_ForgottenTopics = [], fr_RackID = []\<rparr>"

definition example_fetch_response :: FetchResponse where
  "example_fetch_response =
     \<lparr>fs_ThrottleTimeMs = 0, fs_ErrorCode = 0, fs_SessionID = 0,
      fs_Topics = [\<lparr>fst_Name = [0x74],
        fst_Partitions = [\<lparr>fsp_Index = 0, fsp_ErrorCode = 0, fsp_HighWatermark = 42,
          fsp_LastStableOffset = 42, fsp_LogStartOffset = 0, fsp_PreferredReadReplica = - 1,
          fsp_Records = Some [1, 2, 3]\<rparr>]\<rparr>]\<rparr>"

definition example_ofle_request :: OFLERequest where
  "example_ofle_request =
     \<lparr>or_ReplicaID = 2,
      or_Topics = [\<lparr>ort_Name = [0x74],
        ort_Partitions = [\<lparr>orp_Index = 0, orp_CurrentLeaderEpoch = 3, orp_LeaderEpoch = 2\<rparr>]\<rparr>]\<rparr>"

definition example_produce_request :: ProduceRequest where
  "example_produce_request =
     \<lparr>pr_TransactionalID = None, pr_Acks = - 1, pr_TimeoutMs = 1000,
      pr_Topics = [\<lparr>prt_Name = [0x74], prt_Partitions = [\<lparr>prp_Index = 0, prp_Records = Some [1, 2]\<rparr>]\<rparr>]\<rparr>"

definition example_endpoint :: BrokerEndpoint where
  "example_endpoint = \<lparr>ep_Name = gostr ''PLAINTEXT'', ep_Host = gostr ''h'', ep_Port = 9092, ep_SecurityProtocol = 0\<rparr>"

definition example_broker :: "i32 \<Rightarrow> bool \<Rightarrow> BrokerInfo" where
  "example_broker i fenced = \<lparr>bi_ID = i, bi_IncarnationID = gostr ''a'', bi_BrokerEpoch = 7,
     bi_Endpoints = [example_endpoint], bi_Fenced = fenced\<rparr>"

definition example_key :: TopicPartitionKey where
  "example_key = \<lparr>tk_Topic = gostr ''t'', tk_Partition = 0\<rparr>"

definition example_state :: controllerState where
  "example_state = \<lparr>cs_Brokers = [(1, example_broker 1 False), (2, example_broker 2 False)],
     cs_Topics = [(gostr ''t'', \<lparr>ts_Name = gostr ''t''\<rparr>)],
     cs_Partitions = [(example_key, \<lparr>pt_LeaderBrokerID = 1, pt_LeaderEpoch = 0, pt_PartitionEpoch = 0,
        pt_Replicas = [1, 2], pt_ISR = [1, 2]\<rparr>)]\<rparr>"

definition example_update :: UpdatePartitionCommand where
  "example_update = \<lparr>up_Topic = gostr ''t'', up_Partition = 0, up_ExpectedPartitionEpoch = 0,
     up_LeaderBrokerID = 2, up_Replicas = [1, 2], up_ISR = [2], up_AllowUncleanElection = False\<rparr>"

text \<open>A codec that knows one command and one snapshot.\<close>

definition example_codec :: "Payload \<Rightarrow> snapshotData \<Rightarrow> JsonCodec" where
  "example_codec c d = \<lparr>
     js_envelope = (\<lambda>raw. if raw = [1] then Some \<lparr>ce_Version = 1, ce_Type = command_type c, ce_Payload = [2]\<rparr> else None),
     js_register = (\<lambda>raw. case c of RegisterPayload x \<Rightarrow> Some x | _ \<Rightarrow> None),
     js_unfence = (\<lambda>raw. case c of UnfencePayload x \<Rightarrow> Some x | _ \<Rightarrow> None),
     js_create = (\<lambda>raw. case c of CreatePayload x \<Rightarrow> Some x | _ \<Rightarrow> None),
     js_update = (\<lambda>raw. case c of UpdatePayload x \<Rightarrow> Some x | _ \<Rightarrow> None),
     js_snapshot = (\<lambda>raw. if raw = [3] then Some d else None),
     js_put_snapshot = (\<lambda>x. if x = d then Some [3] else None),
     js_put_payload = (\<lambda>x. if x = c then Some [2] else None),
     js_put_envelope = (\<lambda>e. if e = \<lparr>ce_Version = 1, ce_Type = command_type c, ce_Payload = [2]\<rparr> then Some [1] else None)\<rparr>"

lemma example_codec_law: "json_law (example_codec c d) c"
  by (cases c) (simp_all add: json_law_def example_codec_def CommandEnvelopeVersion1_def)

lemma example_encoded: "EncodeCommand (example_codec c d) (command_type c) c = Inr [1]"
  by (simp add: EncodeCommand_def example_codec_def CommandEnvelopeVersion1_def)

lemma example_data_codec:
  "fromSnapshotData id d = Inr s \<Longrightarrow> Restore (example_codec c d) id s0 (Some [3]) = (None, s)"
  by (simp add: Restore_def example_codec_def)

lemma example_endpoints_ok: "endpoints_ok id [example_endpoint]"
proof -
  have "ToUpper id (TrimSpace (gostr ''PLAINTEXT'')) = gostr ''PLAINTEXT''" "TrimSpace (gostr ''h'') = gostr ''h''"
    by (code_simp, code_simp)
  then show ?thesis
    by (simp add: endpoints_ok_def endpoint_ok_def example_endpoint_def SecurityProtocolPlaintext_def gostr_def)
qed

lemma example_state_inv: "controller_inv id example_state"
proof -
  have idx: "indices (cs_Partitions example_state) (gostr ''t'') = word_of_nat ` {..<1}"
    by (auto simp: indices_def example_state_def example_key_def)
  have "contiguous (indices (cs_Partitions example_state) (gostr ''t''))"
    unfolding contiguous_def idx by (intro exI [of _ 1]) simp
  then show ?thesis
    by (simp add: controller_inv_def example_state_def brokers_inv_def topics_inv_def broker_ok_def example_broker_def
        example_endpoints_ok partition_ok_def assignment_ok_def registered_def active_iff example_key_def gostr_def)
qed

definition example_history :: LeaderEpochCache where
  "example_history = \<lparr>lec_entries = [\<lparr>ee_Epoch = 1, ee_StartOffset = 0\<rparr>, \<lparr>ee_Epoch = 4, ee_StartOffset = 10\<rparr>]\<rparr>"

lemma example_history_built: "built example_history"
proof -
  have 1: "Assign NewLeaderEpochCache 1 0 = Inr (True, \<lparr>lec_entries = [\<lparr>ee_Epoch = 1, ee_StartOffset = 0\<rparr>]\<rparr>)"
    by (simp add: Assign_def NewLeaderEpochCache_def)
  have 2: "Assign \<lparr>lec_entries = [\<lparr>ee_Epoch = 1, ee_StartOffset = 0\<rparr>]\<rparr> 4 10 = Inr (True, example_history)"
    by (simp add: Assign_def example_history_def)
  from built.assign [OF built.assign [OF built.new 1] 2] show ?thesis .
qed

definition all_well :: ReadFault where "all_well = \<lparr>rf_open = False, rf_read = None\<rparr>"

definition example_index :: Index where
  "example_index =
     \<lparr>ix_mmap = concat (map entry_bytes [(0, 0), (10, 4200)]) @ replicate 24 0, ix_baseOffset = 100, ix_size = 24, ix_maxBytes = 48\<rparr>"

lemma example_index_rep: "idx_rep example_index [(0, 0), (10, 4200)]"
  by (simp add: idx_rep_def example_index_def be32_def be64_def)

definition example_stored :: bytes where
  "example_stored = encodeBatch (example_batch\<lparr>b_FirstOffset := 0\<rparr>) 3"

lemma example_stored_ok: "raw_ok example_stored" "hdr_base example_stored = 0" "hdr_epoch example_stored = 3" "records example_stored = 2"
  "hdr_lod example_stored = 1"
proof -
  have "batch_body (example_batch\<lparr>b_FirstOffset := 0\<rparr>) = batch_body example_batch"
    by (simp add: batch_body_def batch_records_def)
  then have "batch_ok (example_batch\<lparr>b_FirstOffset := 0\<rparr>)" using example_batch_ok by (simp add: batch_ok_def)
  then show "raw_ok example_stored"
    unfolding example_stored_def by (rule raw_ok_encodeBatch) (simp_all add: example_batch_def)
  show "hdr_base example_stored = 0" "hdr_epoch example_stored = 3" "records example_stored = 2"
    "hdr_lod example_stored = 1"
    by (simp_all add: example_stored_def records_def hdr_encoded example_batch_def)
qed

lemma example_batches_ok: "batches_ok 0 [example_stored]"
  by (simp add: batches_ok_def example_stored_ok)

definition example_segment :: Segment where
  "example_segment = \<lparr>sg_file = example_stored, sg_baseOffset = 0, sg_nextOffset = 2,
     sg_currentSize = int (length example_stored), sg_maxSize = 1000000\<rparr>"

lemma example_segment_rep: "seg_rep example_segment [example_stored]"
  using example_batches_ok by (simp add: seg_rep_def example_segment_def example_stored_ok)

lemma length_example_stored: "length example_stored < 261"
proof -
  have "batch_body (example_batch\<lparr>b_FirstOffset := 0\<rparr>) = batch_body example_batch"
    by (simp add: batch_body_def batch_records_def)
  then show ?thesis using length_example_batch_body by (simp add: example_stored_def encodeBatch_eq length_EncodeRecordBatch)
qed

definition example_pair :: segmentPair where
  "example_pair = \<lparr>sp_segment = example_segment, sp_index = \<lparr>ix_mmap = replicate 24 0, ix_baseOffset = 0, ix_size = 12, ix_maxBytes = 24\<rparr>,
     sp_bytesSinceIndex = 0\<rparr>"

definition example_log :: Log where
  "example_log = \<lparr>lg_config = \<lparr>lc_MaxSegmentBytes = 1000000, lc_MaxIndexBytes = 24, lc_IndexIntervalBytes = 4096, lc_MaxMessageBytes = 1000\<rparr>,
     lg_active = example_pair, lg_sealed = [], lg_files = \<lparr>lf_log = (\<lambda>_. None), lf_index = (\<lambda>_. None)\<rparr>,
     lg_epochCache = NewLeaderEpochCache, lg_dirty = False, lg_fs = (\<lambda>_. None), lg_path = []\<rparr>"

lemma example_small: "pair_small [example_stored]" "pair_small [example_stored, example_stored]"
  using length_example_stored example_stored_ok(4) by (simp_all add: pair_small_def)

lemma example_pair_rep: "pair_rep example_pair [example_stored]"
proof -
  have e: "concat (map entry_bytes [entry_of [example_stored] 0]) = replicate 12 0"
    by (simp add: entry_of_def entry_bytes_def) (code_simp)
  have "idx_rep (sp_index example_pair) [entry_of [example_stored] 0]"
    using e by (simp add: idx_rep_def example_pair_def)
  moreover have "index_ok [example_stored] [entry_of [example_stored] 0]"
    unfolding index_ok_def by (intro exI [of _ "[0]"]) simp
  ultimately have "\<exists>es. idx_rep (sp_index example_pair) es \<and> index_ok [example_stored] es" by blast
  then show ?thesis
    using example_segment_rep example_small(1) by (simp add: pair_rep_def example_pair_def example_segment_def)
qed

lemma example_log_rep: "log_rep example_log [[example_stored]]" "OldestOffset example_log = 0" "NextOffset example_log = 2"
  using example_pair_rep
  by (simp_all add: log_rep_def OldestOffset_def NextOffset_def pairs_def example_log_def config_ok_def files_clean_def example_pair_def example_segment_def)

lemma example_log_config: "lc_MaxMessageBytes (lg_config example_log) = 1000"
  by (simp add: example_log_def)

lemma example_scannable: "scannable example_stored"
  using example_stored_ok by (simp add: scannable_def)

lemma log_io_ok_facts [simp]: "\<not> io_faulty log_io_ok" "removals_ok log_io_ok" "\<not> li_truncate log_io_ok"
  by (simp_all add: io_faulty_def log_io_ok_def removals_ok_def pair_io_ok_def)

lemma example_rebuildable: "rebuildable example_log [[example_stored]]"
  by (simp add: rebuildable_def pairs_def example_log_def example_pair_def)

definition example_empty_log :: Log where
  "example_empty_log = example_log\<lparr>lg_active := \<lparr>sp_segment = \<lparr>sg_file = [], sg_baseOffset = 0, sg_nextOffset = 0, sg_currentSize = 0, sg_maxSize = 1000000\<rparr>,
     sp_index = \<lparr>ix_mmap = replicate 24 0, ix_baseOffset = 0, ix_size = 0, ix_maxBytes = 24\<rparr>, sp_bytesSinceIndex = 0\<rparr>\<rparr>"

lemma example_empty_log_rep: "log_rep example_empty_log [[]]" "OldestOffset example_empty_log = 0" "NextOffset example_empty_log = 0"
proof -
  have "idx_rep \<lparr>ix_mmap = replicate 24 0, ix_baseOffset = 0, ix_size = 0, ix_maxBytes = 24\<rparr> []" by (simp add: idx_rep_def)
  moreover have "index_ok [] []" by (simp add: index_ok_def)
  ultimately show "log_rep example_empty_log [[]]"
    by (auto simp: log_rep_def pair_rep_def seg_rep_def OldestOffset_def pairs_def example_empty_log_def example_log_def config_ok_def files_clean_def
        pair_small_def batches_ok_def)
qed (simp_all add: example_empty_log_def example_log_def OldestOffset_def NextOffset_def)

lemma example_empty_only: "log_rep example_empty_log bss \<Longrightarrow> bss = [[]]"
  by (cases bss; cases "tl bss"; cases "hd bss")
    (auto simp: log_rep_def pairs_def pair_rep_def seg_rep_def example_empty_log_def example_log_def batches_ok_def dest: raw_ok_length)

lemma example_append_fits: "append_fits example_empty_log example_stored"
proof -
  have "pair_small ds \<and> total_records ds = 2" if "example_stored = concat ds" "list_all scannable ds" for ds
    using scannable_unique [OF that(2), of "[example_stored]"] that(1) example_scannable example_small(1) example_stored_ok(4) by simp
  then show ?thesis by (auto simp: append_fits_def example_empty_log_rep(3) dest!: example_empty_only)
qed

definition example_leader :: Partition where
  "example_leader = (NewPartition [] 0 1 example_log)\<lparr>pt_isLeader := True, pt_leaderEpoch := 4, pt_leaderID := 1,
     pt_isr := [\<lparr>ie_BrokerID = 1, ie_LEO = 0\<rparr>, \<lparr>ie_BrokerID = 2, ie_LEO = 0\<rparr>]\<rparr>"

definition example_waiting :: Partition where
  "example_waiting = snd (add_waiter 2 example_leader)"

definition example_follower :: Partition where
  "example_follower = (NewPartition [] 0 2 example_empty_log)\<lparr>pt_leaderEpoch := 4, pt_leaderID := 1\<rparr>"

lemma example_leader_sel [simp]: "pt_isLeader example_leader" "\<not> pt_closed example_leader" "pt_log example_leader = example_log"
    "pt_highWatermark example_leader = 0" "LEO example_leader = 2" "ISRSnapshot example_leader = [1, 2]" "pt_localBrokerID example_leader = 1"
    "pt_allocated example_leader = 0" "pt_isr example_leader \<noteq> []"
  by (simp_all add: example_leader_def NewPartition_def LEO_def example_log_rep(2,3) ISRSnapshot_def)

lemma example_leader_ok: "part_ok example_leader [[example_stored]]"
  using part_ok_new [OF example_log_rep(1), of "[]" 0 1] by (simp add: part_ok_def example_leader_def waiting_def LEO_def)

lemma example_waiting_ok:
  "part_ok example_waiting [[example_stored]]" "0 \<in> waiting example_waiting" "\<not> completed example_waiting 0 None"
  "pt_isLeader example_waiting" "\<not> pt_closed example_waiting" "ISRSnapshot example_waiting = [1, 2]" "pt_localBrokerID example_waiting = 1"
  "pt_isr example_waiting \<noteq> []" "LEO example_waiting = 2"
proof -
  obtain q where q: "add_waiter 2 example_leader = (0, q)" "part_ok q [[example_stored]]" "waiting q = insert 0 (waiting example_leader)"
      "quiet example_leader q" "q = example_leader\<lparr>pt_purgatory := pt_purgatory q, pt_allocated := Suc 0\<rparr>"
    using add_waiter_rep [OF example_leader_ok, of 2] by auto
  have e: "example_waiting = q" using q(1) by (simp add: example_waiting_def)
  show "part_ok example_waiting [[example_stored]]" "0 \<in> waiting example_waiting" using e q(2,3) by simp_all
  show "\<not> completed example_waiting 0 None"
    using e q(4) by (auto simp: quiet_def completed_def outcome_def example_leader_def NewPartition_def)
  show "pt_isLeader example_waiting" "\<not> pt_closed example_waiting" "ISRSnapshot example_waiting = [1, 2]" "pt_localBrokerID example_waiting = 1"
    "pt_isr example_waiting \<noteq> []" "LEO example_waiting = 2"
    unfolding e by (subst q(5); simp add: ISRSnapshot_def LEO_def example_leader_def NewPartition_def example_log_rep(3))+
qed

lemma example_replicates: "replicates example_follower [[]] example_leader [[example_stored]]" "LEO example_follower = 0"
    "pt_log example_follower = example_empty_log"
  using part_ok_new [OF example_empty_log_rep(1), of "[]" 0 2] example_leader_ok
  by (simp_all add: replicates_def part_ok_def example_follower_def waiting_def LEO_def NewPartition_def example_log_rep(2) example_empty_log_rep(2,3))

definition example_env :: TopicEnv where
  "example_env = \<lparr>te_dir = (\<lambda>_. \<lparr>pd_io = open_io_ok, pd_names = [], pd_files = \<lparr>lf_log = (\<lambda>_. None), lf_index = (\<lambda>_. None)\<rparr>, pd_fs = (\<lambda>_. None)\<rparr>),
     te_log = (\<lambda>_. log_io_ok), te_close = (\<lambda>_ _. pair_io_ok), te_remove = (\<lambda>_. False)\<rparr>"

definition example_config :: LogConfig where
  "example_config = \<lparr>lc_MaxSegmentBytes = 0, lc_MaxIndexBytes = 0, lc_IndexIntervalBytes = 0, lc_MaxMessageBytes = 0\<rparr>"

definition example_manager :: TopicManager where
  "example_manager = \<lparr>tm_localBrokerID = 1, tm_logConfig = example_config, tm_topics = []\<rparr>"

lemma example_open:
  obtains l where "open_log example_env example_config dir = Some (Inr l)" "log_rep l [[]]" "NextOffset l = 0" "lec_entries (lg_epochCache l) = []"
proof -
  have "config_ok (applyDefaults example_config)"
    by (simp add: example_config_def applyDefaults_def config_ok_def defaultMaxSegmentBytes_def defaultMaxIndexBytes_def)
  from NewLog_fresh [OF this, of "\<lambda>_. None" "dir @ gostr ''/leader-epoch-checkpoint''"] show thesis
    using that by (auto simp: open_log_def example_env_def Let_def)
qed

lemma example_opens: "opens example_env example_config"
  unfolding opens_def by (intro allI) (rule example_open, fastforce)

lemma example_manager_ok: "tm_ok example_manager" "tm_localBrokerID example_manager = 1" "tm_logConfig example_manager = example_config"
  by (simp_all add: tm_ok_def slot_def example_manager_def)

lemma example_fit: "indices_fit example_state"
  by (simp add: indices_fit_def example_state_def example_key_def)

lemma example_reconciled: "\<exists>tm'. Reconcile example_env (PartitionsForBroker example_state 1) 1 example_manager = Some (Inr (), tm')"
proof -
  define pm where "pm = partitionMetadata example_key \<lparr>pt_LeaderBrokerID = 1, pt_LeaderEpoch = 0, pt_PartitionEpoch = 0, pt_Replicas = [1, 2], pt_ISR = [1, 2]\<rparr>"
  have pms: "PartitionsForBroker example_state 1 = [pm]"
    by (simp add: PartitionsForBroker_def sortPartitionMetadata_def example_state_def containsInt32_def pm_def)
  have sel: "pm_Topic pm = gostr ''t''" "pm_Partition pm = 0" "pm_LeaderBrokerID pm = 1" "pm_LeaderEpoch pm = 0"
    by (simp_all add: pm_def partitionMetadata_def example_key_def)
  obtain l where l: "open_log example_env example_config (partitionDir (gostr ''t'') 0) = Some (Inr l)" "NextOffset l = 0" "lec_entries (lg_epochCache l) = []"
    by (rule example_open)
  let ?p = "NewPartition (gostr ''t'') 0 1 l"
  obtain p' where m: "MakeLeader log_io_ok 0 (pm_ISR pm) (HighWatermark ?p) ?p = Some (Inr (), p')"
    using MakeLeader_first [of ?p 0] l(2,3) by (auto simp: NewPartition_def LEO_def)
  have "te_log example_env dir = log_io_ok" for dir by (simp add: example_env_def)
  moreover have "assign_role log_io_ok 1 pm ?p = Some (Inr (), p')"
    using m sel by (simp add: assign_role_def) (simp add: Assignment_def NewPartition_def)
  ultimately show ?thesis using l(1) unfolding pms
    by (simp add: Reconcile_def local_partition_def make_slot_def sel example_manager_def Let_def)
qed

definition example_request_env :: RequestEnv where
  "example_request_env = \<lparr>re_io = (\<lambda>_. log_io_ok), re_expired = (\<lambda>_. False), re_done = (\<lambda>_ _ _. None), re_start = 0, re_clock = int,
     re_others = (\<lambda>_ tm. tm), re_topics = example_env\<rparr>"

definition example_handler :: Handler where
  "example_handler = NewHandler example_manager 1 (gostr ''localhost'') 9092 None"

lemma example_opens_within: "opens_within 1000 example_env example_config"
proof -
  have "\<exists>r. open_log example_env example_config dir = Some r \<and> (\<forall>l. r = Inr l \<longrightarrow> (\<exists>bss. log_rep l bss \<and> (\<forall>b\<in>set (concat bss). length b \<le> 1000)))" for dir
  proof -
    obtain l where "open_log example_env example_config dir = Some (Inr l)" "log_rep l [[]]" by (rule example_open)
    then show ?thesis by (intro exI [of _ "Inr l"]) (auto intro!: exI [of _ "[[]]"])
  qed
  then show ?thesis by (simp add: opens_within_def)
qed

lemma example_served: "served 1000 example_manager"
  using example_manager_ok(1) by (simp add: served_def slot_def example_manager_def)

lemma example_ready: "ready 1000 example_request_env example_handler"
proof -
  have "\<exists>n. t \<le> int n" for t by (intro exI [of _ "nat t"]) simp
  then show ?thesis using example_served example_opens_within example_manager_ok(3)
    by (simp add: ready_def example_request_env_def example_handler_def NewHandler_def)
qed

definition example_alone :: Partition where
  "example_alone = (NewPartition (gostr ''t'') 0 1 example_log)\<lparr>pt_isLeader := True, pt_leaderEpoch := 4, pt_leaderID := 1,
     pt_isr := [\<lparr>ie_BrokerID = 1, ie_LEO = 0\<rparr>]\<rparr>"

definition example_topics :: TopicManager where
  "example_topics = example_manager\<lparr>tm_topics := [(gostr ''t'', \<lparr>tp_name = gostr ''t'', tp_partitions = [Some example_alone]\<rparr>)]\<rparr>"

definition example_produce :: ProduceRequestPartition where
  "example_produce = \<lparr>prp_Index = 0, prp_Records = Some example_stored\<rparr>"

lemma example_alone_sel [simp]: "pt_isLeader example_alone" "\<not> pt_closed example_alone" "pt_log example_alone = example_log"
    "pt_localBrokerID example_alone = 1" "LEO example_alone = 2" "pt_leaderEpoch example_alone = 4"
    "pt_isr example_alone = [\<lparr>ie_BrokerID = 1, ie_LEO = 0\<rparr>]"
  by (simp_all add: example_alone_def NewPartition_def LEO_def example_log_rep(3))

lemma example_alone_ok: "part_ok example_alone [[example_stored]]"
  using part_ok_new [OF example_log_rep(1), of "gostr ''t''" 0 1] by (simp add: part_ok_def example_alone_def waiting_def LEO_def)

lemma example_weighs: "weighs 1000 (\<lambda>_. 1000) example_produce"
proof -
  have "total_records ds + length example_stored \<le> 1000" if ds: "example_stored = concat ds" "list_all scannable ds" for ds
  proof -
    have "ds = [example_stored]" using scannable_unique [OF ds(2), of "[example_stored]"] ds(1) example_scannable by simp
    then show ?thesis using length_example_stored example_stored_ok(4) by simp
  qed
  then show ?thesis using length_example_stored by (auto simp: weighs_def records_of_def example_produce_def)
qed

lemma example_topics_slot: "slot example_topics topic i = (if topic = gostr ''t'' \<and> i = 0 then Some example_alone else None)"
  by (simp add: slot_def example_topics_def example_manager_def)

lemma example_room: "roomy 1000 (1000 + 0) example_topics"
proof -
  have "part_room 1000 1000 example_alone" unfolding part_room_def
    using example_alone_ok length_example_stored example_stored_ok(4) by (intro exI [of _ "[[example_stored]]"]) simp
  moreover have "tm_ok example_topics" unfolding tm_ok_def example_topics_slot
    using example_alone_ok by (auto simp: part_inv_def example_topics_def example_manager_def)
  ultimately show ?thesis by (simp add: roomy_def example_topics_slot)
qed

lemma example_get: "TM_GetPartition example_topics (gostr ''t'') (prp_Index example_produce) = Inr example_alone"
  by (simp add: TM_GetPartition_slot example_topics_slot example_produce_def)

lemma example_produced:
  "\<exists>resp pending tm' n'. produce_partition example_request_env 1 0 (gostr ''t'') example_produce (example_topics, 0) = Some ((resp, pending), tm', n') \<and>
     psp_BaseOffset resp = 2"
proof -
  have sm: "pair_small (last [[example_stored]] @ [example_stored])" using example_small(2) by simp
  have ov: "recordBatchOverhead \<le> length example_stored" using raw_ok_length [of example_stored] example_stored_ok by (simp add: recordBatchOverhead_def)
  have "\<exists>r l. AppendRaw log_io_ok (concat [example_stored]) 4 example_log = Some (r, l) \<and> same_log example_log l \<and>
    (case r of
       Inl _ \<Rightarrow> io_faulty log_io_ok \<and> (\<exists>bss'. log_rep l bss' \<and> concat bss' = concat [[example_stored]])
     | Inr (off, lod) \<Rightarrow> off = NextOffset example_log \<and> unat lod + 1 = total_records [example_stored] \<and>
         (\<exists>bss'. log_rep l bss' \<and> concat bss' = concat [[example_stored]] @ stamp_all (unat off) 4 [example_stored]))"
    by (rule AppendRaw_rep [OF example_log_rep(1) _ _ _ _ sm])
      (use example_scannable example_log_config length_example_stored example_log_rep(3) example_stored_ok(4) in simp_all)
  then have "\<exists>lod l. AppendRaw log_io_ok example_stored 4 example_log = Some (Inr (2, lod), l)"
    by (elim exE conjE) (auto simp: example_log_rep(3) split: sum.splits prod.splits)
  then obtain lod l where l: "AppendRaw log_io_ok example_stored 4 example_log = Some (Inr (2, lod), l)" by blast
  have pr: "part_room 1000 (1000 + 0) example_alone" using example_room by (simp add: roomy_def example_topics_slot)
  obtain r p' where r: "Partition_AppendRaw log_io_ok True example_stored 1 example_alone = Some (r, p')"
    using append_keeps_room [OF pr example_weighs, of log_io_ok True 1] by (auto simp: records_of_def example_produce_def)
  then have "\<exists>a. r = Inr a \<and> ar_FirstOffset a = 2" using l ov
    by (auto simp: Partition_AppendRaw_def AcksNone_def AcksLeader_def AcksAll_def await_hw_def Let_def split: option.splits)
  moreover have "example_stored \<noteq> []" using ov by (auto simp: recordBatchOverhead_def)
  ultimately show ?thesis using r example_get by (auto simp: produce_partition_def example_request_env_def example_produce_def AcksAll_def Let_def)
qed

definition example_fetch :: FetchRequest where
  "example_fetch = \<lparr>fr_ReplicaID = - 1, fr_MaxWaitMs = 5, fr_MinBytes = 1, fr_MaxBytes = 100, fr_IsolationLevel = 0, fr_SessionID = 0,
     fr_SessionEpoch = - 1, fr_Topics = [\<lparr>frt_Name = gostr ''t'', frt_Partitions = [fetch_at 0 0 50]\<rparr>], fr_ForgottenTopics = [], fr_RackID = []\<rparr>"

definition example_stream :: fetchStreamResponse where
  "example_stream = \<lparr>ss_throttleTimeMs = 0, ss_errorCode = 0, ss_sessionID = 0, ss_topics = [\<lparr>st_name = gostr ''t'', st_partitions =
     [\<lparr>sm_index = 0, sm_errorCode = 0, sm_highWatermark = 2, sm_lastStableOffset = 2, sm_logStartOffset = 0, sm_preferredReadReplica = - 1,
       sm_recordsSize = 2, sm_ranges = [\<lparr>rr_File = [1, 2, 3, 4], rr_Offset = 1, rr_Length = 2\<rparr>]\<rparr>]\<rparr>]\<rparr>"

definition example_echo :: "(unit, nat) RequestHandler" where
  "example_echo header body n = Some (Inr (Some (BytesResponse [1, 2])), n + 1)"

definition example_requests :: "(RequestHeader \<times> bytes) list" where
  "example_requests = [(\<lparr>rh_APIKey = 3, rh_APIVersion = 1, rh_CorrelationID = 7, rh_ClientID = None\<rparr>, [5]),
     (\<lparr>rh_APIKey = 3, rh_APIVersion = 1, rh_CorrelationID = 8, rh_ClientID = None\<rparr>, [])]"

lemma example_echo_ok: "responses_ok example_echo"
  by (auto simp: responses_ok_def example_echo_def)

lemma example_requests_ok: "list_all (request_ok 1000) example_requests"
  by (simp add: example_requests_def request_ok_def request_message_def request_header_bytes_def) code_simp

lemma example_answers: "answers example_echo example_requests 0 =
    Some (map (\<lambda>(h, _). response_frame h [1, 2]) example_requests, 2)"
  by (simp add: example_requests_def example_echo_def)

definition example_later :: bytes where
  "example_later = stamp 0 5 example_stored"

lemma example_later_ok: "raw_ok example_later" "hdr_base example_later = 0" "hdr_epoch example_later = 5" "records example_later = 2"
    "length example_later = length example_stored" "example_stored \<noteq> example_later"
proof -
  have l: "16 \<le> length example_stored" using raw_ok_16 [OF example_stored_ok(1)] .
  have b: "batches_ok 0 (stamp_all 0 5 [example_stored])" using stamp_all_ok [of "[example_stored]" 0 5] example_stored_ok(1,4) by simp
  then show "raw_ok example_later" by (simp add: batches_ok_def example_later_def)
  show "hdr_base example_later = 0" "hdr_epoch example_later = 5" using l by (simp_all add: example_later_def hdr_stamp)
  show "records example_later = 2" "length example_later = length example_stored" using l example_stored_ok(4) by (simp_all add: example_later_def)
  then show "example_stored \<noteq> example_later" using example_stored_ok(3) \<open>hdr_epoch example_later = 5\<close> by auto
qed

definition example_replica_log :: "bytes \<Rightarrow> i32 \<Rightarrow> Log" where
  "example_replica_log b e = example_log\<lparr>lg_active := example_pair\<lparr>sp_segment := example_segment\<lparr>sg_file := b\<rparr>\<rparr>,
     lg_epochCache := \<lparr>lec_entries = [\<lparr>ee_Epoch = e, ee_StartOffset = 0\<rparr>]\<rparr>\<rparr>"

lemma example_replica_sel [simp]:
  "OldestOffset (example_replica_log b e) = 0" "NextOffset (example_replica_log b e) = 2"
  "lec_entries (lg_epochCache (example_replica_log b e)) = [\<lparr>ee_Epoch = e, ee_StartOffset = 0\<rparr>]"
  by (simp_all add: example_replica_log_def OldestOffset_def NextOffset_def example_log_def example_pair_def example_segment_def)

lemma example_replica_rep:
  assumes "raw_ok b" and "hdr_base b = 0" and "records b = 2" and "length b = length example_stored"
  shows "log_rep (example_replica_log b e) [[b]]" "rebuildable (example_replica_log b e) [[b]]"
proof -
  have e: "concat (map entry_bytes [entry_of [b] 0]) = replicate 12 0" by (simp add: entry_of_def entry_bytes_def) (code_simp)
  have "idx_rep (sp_index example_pair) [entry_of [b] 0]" using e by (simp add: idx_rep_def example_pair_def)
  moreover have "index_ok [b] [entry_of [b] 0]" unfolding index_ok_def by (intro exI [of _ "[0]"]) simp
  ultimately have "\<exists>es. idx_rep (sp_index example_pair) es \<and> index_ok [b] es" by blast
  moreover have "seg_rep (example_segment\<lparr>sg_file := b\<rparr>) [b]" using assms by (simp add: seg_rep_def example_segment_def batches_ok_def)
  moreover have "pair_small [b]" using assms(3,4) length_example_stored by (simp add: pair_small_def)
  ultimately have "pair_rep (example_pair\<lparr>sp_segment := example_segment\<lparr>sg_file := b\<rparr>\<rparr>) [b]"
    by (simp add: pair_rep_def example_pair_def example_segment_def)
  then show "log_rep (example_replica_log b e) [[b]]"
    by (simp add: log_rep_def OldestOffset_def pairs_def example_replica_log_def example_log_def config_ok_def files_clean_def example_pair_def example_segment_def)
  show "rebuildable (example_replica_log b e) [[b]]"
    by (simp add: rebuildable_def pairs_def example_replica_log_def example_log_def example_pair_def)
qed

definition example_new_leader :: Partition where
  "example_new_leader = (NewPartition (gostr ''t'') 0 1 (example_replica_log example_later 5))\<lparr>pt_isLeader := True, pt_leaderEpoch := 5, pt_leaderID := 1,
     pt_isr := [\<lparr>ie_BrokerID = 1, ie_LEO = 0\<rparr>, \<lparr>ie_BrokerID = 2, ie_LEO = 0\<rparr>]\<rparr>"

definition example_old_leader :: Partition where
  "example_old_leader = (NewPartition (gostr ''t'') 0 2 (example_replica_log example_stored 3))\<lparr>pt_leaderEpoch := 5, pt_leaderID := 1\<rparr>"

definition example_holding :: "i32 \<Rightarrow> Partition \<Rightarrow> TopicManager" where
  "example_holding i q = \<lparr>tm_localBrokerID = i, tm_logConfig = example_config, tm_topics = [(gostr ''t'', \<lparr>tp_name = gostr ''t'', tp_partitions = [Some q]\<rparr>)]\<rparr>"

definition example_worker :: leaderFetchWorker where
  "example_worker = setPartitions [((gostr ''t'', 0), \<lparr>ap_partition = (gostr ''t'', 0), ap_leaderEpoch = 5\<rparr>)] (newLeaderFetchWorker 2 1 (gostr ''a:1''))"

definition example_fetch_env :: "Handler FetchEnv" where
  "example_fetch_env = \<lparr>ve_reconcileIO = (\<lambda>_ _. log_io_ok), ve_appendIO = (\<lambda>_. log_io_ok), ve_ask = remote_epochs 1000 example_request_env,
     ve_fetch = remote_fetch 1000 example_request_env, ve_others = (\<lambda>_ s. s)\<rparr>"

definition example_leader_handler :: Handler where
  "example_leader_handler = NewHandler (example_holding 1 example_new_leader) 1 (gostr ''localhost'') 9092 None"

lemma example_replicas_ok: "part_ok example_new_leader [[example_later]]" "part_ok example_old_leader [[example_stored]]"
  using part_ok_new [OF example_replica_rep(1) [OF example_later_ok(1,2,4,5)], of "gostr ''t''" 0 1 5]
    part_ok_new [OF example_replica_rep(1) [OF example_stored_ok(1,2,4) refl], of "gostr ''t''" 0 2 3]
  by (simp_all add: part_ok_def example_new_leader_def example_old_leader_def waiting_def LEO_def)

lemma example_replicas_sel [simp]:
  "pt_log example_new_leader = example_replica_log example_later 5" "pt_log example_old_leader = example_replica_log example_stored 3"
  "LEO example_new_leader = 2" "LEO example_old_leader = 2" "\<not> pt_isLeader example_old_leader" "pt_leaderEpoch example_old_leader = 5"
  by (simp_all add: example_new_leader_def example_old_leader_def NewPartition_def LEO_def)

lemma example_leads_for: "leads_for 1000 (gostr ''t'', 0) 5 example_new_leader (NewReplicaClient True, example_leader_handler)"
  by (simp add: leads_for_def idle_client_def NewReplicaClient_def ok_str_def gostr_def example_leader_handler_def NewHandler_def example_holding_def
      TM_GetPartition_def epochs_ok_def)
    (simp add: example_new_leader_def NewPartition_def)

lemma example_reconcilable: "reconcilable (example_replica_log example_stored 3) [example_stored] (example_replica_log example_later 5) [example_later]"
  using example_stored_ok example_later_ok
  by (auto simp: reconcilable_def cached_def epochs_ok_def batches_match_def same_lineage_def overlapping_def Cons_eq_append_conv epochs_rise_def Let_def)

lemma example_aligned: "aligned [\<lparr>ee_Epoch = 5, ee_StartOffset = 0\<rparr>] 2 [example_stored] 0"
proof -
  have "boundary [example_stored] 0 2" unfolding boundary_def by (intro exI [of _ "[example_stored]"] exI [of _ "[]"]) (simp add: example_stored_ok(4))
  moreover have "boundary [example_stored] 0 0" unfolding boundary_def by (intro exI [of _ "[]"] exI [of _ "[example_stored]"]) simp
  ultimately show ?thesis by (auto simp: aligned_def)
qed

lemma example_readable: "readable [[example_later]]"
  using length_example_stored example_later_ok(4,5) by (simp add: readable_def)

lemma example_cuts: "cuts_ok log_io_ok" "li_checkpoint log_io_ok = no_fault"
  by (simp add: cuts_ok_def) (simp add: log_io_ok_def)

definition example_start_codec :: JsonCodec where
  "example_start_codec =
     (let reg = \<lparr>rb_ID = 1, rb_IncarnationID = gostr ''00'', rb_Endpoints = own_endpoints (gostr ''h'') 9092\<rparr>;
          unf = \<lparr>ub_BrokerID = 1, ub_BrokerEpoch = 7\<rparr>;
          renv = \<lparr>ce_Version = CommandEnvelopeVersion1, ce_Type = CommandRegisterBroker, ce_Payload = [1]\<rparr>;
          uenv = \<lparr>ce_Version = CommandEnvelopeVersion1, ce_Type = CommandUnfenceBroker, ce_Payload = [2]\<rparr>
      in \<lparr>js_envelope = (\<lambda>b. if b = [1] then Some renv else if b = [2] then Some uenv else None),
         js_register = (\<lambda>b. if b = [1] then Some reg else None), js_unfence = (\<lambda>b. if b = [2] then Some unf else None),
         js_create = (\<lambda>_. None), js_update = (\<lambda>_. None), js_snapshot = (\<lambda>_. None), js_put_snapshot = (\<lambda>_. None),
         js_put_payload = (\<lambda>c. if c = RegisterPayload reg then Some [1] else if c = UnfencePayload unf then Some [2] else None),
         js_put_envelope = (\<lambda>e. if e = renv then Some [1] else if e = uenv then Some [2] else None)\<rparr>)"

lemma example_start_law: "json_law example_start_codec c"
  by (auto simp: json_law_def example_start_codec_def Let_def split: if_splits)

lemma example_start_partitions: "cs_Partitions (run example_start_codec uni s logs) = cs_Partitions s"
proof (induction logs arbitrary: s)
  case (Cons l logs)
  have "cs_Partitions (snd (Apply example_start_codec uni s (Some l))) = cs_Partitions s"
    by (auto simp: Apply_def applyRegisterBroker_def applyUnfenceBroker_def register_broker_def unfence_broker_def example_start_codec_def command_types_distinct Let_def
        split: option.splits sum.splits)
  then show ?case using Cons.IH by (simp add: run_Cons)
qed (simp add: run_def)

definition example_broker_env :: BrokerEnv where
  "example_broker_env = \<lparr>be_js = example_start_codec, be_uni = id, be_register = (\<lambda>_. RaftApplied [] 7 []), be_unfence = (\<lambda>_. RaftApplied [] 8 []),
     be_meanwhile = (\<lambda>_. []), be_topics = (\<lambda>_. example_env)\<rparr>"

definition example_new_broker :: Broker where
  "example_new_broker = \<lparr>bk_config = \<lparr>bc_BrokerID = 1, bc_Host = gostr ''h'', bc_Port = 9092, bc_LogDir = gostr ''d'', bc_LogConfig = example_config, bc_MaxRequestBytes = 1000\<rparr>,
     bk_handler = NewHandler example_manager 1 (gostr ''h'') 9092 (Some newControllerState),
     bk_server = \<lparr>srv_addr = gostr ''[::]:9092'', srv_maxReqBytes = 1000, srv_closing = False, srv_serving = False\<rparr>, bk_incarnationID = gostr ''00'', bk_fetchManager = None\<rparr>"

lemma example_own_endpoint: "own_endpoints (gostr ''h'') 9092 = [example_endpoint]"
  by (simp add: own_endpoints_def example_endpoint_def SecurityProtocolPlaintext_def)

lemma example_listener: "listenerEndpoint (gostr ''[::]:9092'') (gostr ''h'') = Some (gostr ''h'', 9092)"
proof -
  have "gostr ''[::]:9092'' = JoinHostPort (gostr ''::'') (fmt_d (uint (9092 :: u16)))"
    by (simp add: JoinHostPort_def fmt_d_def dec_nat.simps [of 9092] dec_nat.simps [of 909] dec_nat.simps [of 90] dec_nat.simps [of 9] digit_def gostr_def)
  moreover have "bare (gostr ''::'')" by (simp add: bare_def gostr_def)
  ultimately show ?thesis using listenerEndpoint_Join [of "gostr ''::''" 9092 "gostr ''h''"] by simp
qed

lemma example_registers:
  "\<exists>s. RegisterBroker example_start_codec id (\<lambda>_. RaftApplied [] 7 []) 1 (gostr ''00'') (own_endpoints (gostr ''h'') 9092) newControllerState = (None, s) \<and>
     GetBroker s 1 = Some (example_broker 1 True\<lparr>bi_IncarnationID := gostr ''00''\<rparr>) \<and> cs_Partitions s = []"
proof -
  let ?c = "RegisterPayload \<lparr>rb_ID = 1, rb_IncarnationID = gostr ''00'', rb_Endpoints = own_endpoints (gostr ''h'') 9092\<rparr>"
  have e: "EncodeCommand example_start_codec (command_type ?c) ?c = Inr [1]" by (simp add: EncodeCommand_def example_start_codec_def Let_def)
  have ne: "gostr ''00'' \<noteq> []" by (simp add: gostr_def)
  have "perform id newControllerState 7 ?c = (None, newControllerState\<lparr>cs_Brokers := [(1, example_broker 1 True\<lparr>bi_IncarnationID := gostr ''00''\<rparr>)]\<rparr>)"
    using normalizeEndpoints_fixed [OF example_endpoints_ok] ne by (simp add: register_broker_def newControllerState_def example_own_endpoint example_broker_def)
  then have "RegisterBroker example_start_codec id (\<lambda>_. RaftApplied [] 7 []) 1 (gostr ''00'') (own_endpoints (gostr ''h'') 9092) newControllerState =
      (None, newControllerState\<lparr>cs_Brokers := [(1, example_broker 1 True\<lparr>bi_IncarnationID := gostr ''00''\<rparr>)]\<rparr>)"
    using Apply_encoded [OF example_start_law e, of id newControllerState 7] e by (simp add: RegisterBroker_def Node_Apply_def run_def)
  then show ?thesis by (simp add: GetBroker_def newControllerState_def)
qed

lemma example_starts: "\<exists>b. Broker_Start example_broker_env example_new_broker = Some (None, b)"
proof -
  obtain s where s: "RegisterBroker example_start_codec id (\<lambda>_. RaftApplied [] 7 []) 1 (gostr ''00'') (own_endpoints (gostr ''h'') 9092) newControllerState = (None, s)"
      "GetBroker s 1 = Some (example_broker 1 True\<lparr>bi_IncarnationID := gostr ''00''\<rparr>)" "cs_Partitions s = []"
    using example_registers by blast
  have p: "PartitionsForBroker s 1 = []" using s(3) by (simp add: PartitionsForBroker_def sortPartitionMetadata_def)
  have r: "Reconcile example_env [] 1 example_manager = Some (Inr (), example_manager)" by (simp add: Reconcile_def example_manager_def)
  have f: "\<exists>fm. FM_Start example_env s s (NewFetchManager 1) example_manager = Some (Inr (), fm, example_manager)"
    using p r by (simp add: FM_Start_def refresh_def Reassign_def NewFetchManager_def)
  let ?c = "UnfencePayload \<lparr>ub_BrokerID = 1, ub_BrokerEpoch = 7\<rparr>"
  have e: "EncodeCommand example_start_codec (command_type ?c) ?c = Inr [2]"
    by (simp add: EncodeCommand_def example_start_codec_def command_types_distinct Let_def)
  have u: "\<exists>s'. UnfenceBroker example_start_codec id (\<lambda>_. RaftApplied [] 8 []) 1 7 s = (None, s')"
    using Apply_encoded [OF example_start_law e, of id s 8] e s(2)
    by (simp add: UnfenceBroker_def Node_Apply_def run_def unfence_broker_def GetBroker_def example_broker_def)
  have "\<exists>b. registerAndReconcile example_broker_env newControllerState example_new_broker = Some (None, b)"
    using s p r f u by (auto simp: registerAndReconcile_def reconcile_and_unfence_def example_broker_env_def example_new_broker_def NewHandler_def example_listener
        run_def example_broker_def)
  then show ?thesis by (auto simp: Broker_Start_def example_new_broker_def NewHandler_def)
qed

section \<open>Record batches\<close>

text \<open>C37: reading any concatenation of encoded batches gives back exactly those batches, with no error.\<close>

theorem record_batches_roundtrip:
  assumes "list_all (\<lambda>(b, _). batch_ok b) xs"
    and "fits (concat (map (\<lambda>(b, e). EncodeRecordBatch b e) xs))"
  shows "DecodeRecordBatch (concat (map (\<lambda>(b, e). EncodeRecordBatch b e) xs)) = Some (map fst xs, None)"
  using decode_batches_encoded [of xs "[]" "[]"] assms by (simp add: DecodeRecordBatch_def)

theorem record_batches_roundtrip_witness:
  "DecodeRecordBatch (EncodeRecordBatch example_batch 3 @ EncodeRecordBatch example_batch 4) =
     Some ([example_batch, example_batch], None)"
  using record_batches_roundtrip [of "[(example_batch, 3), (example_batch, 4)]"] length_example_batch_body
  by (simp add: example_batch_ok fits_def length_EncodeRecordBatch)

text \<open>Replacing one byte of the body of an encoded batch by another always makes the decoder report a checksum mismatch.\<close>

theorem corrupted_batch_refused:
  assumes "batch_ok b" and "fits (EncodeRecordBatch b epoch @ rest)"
    and "i < length (batch_body b)" and "w \<noteq> batch_body b ! i"
  shows "decodeOneRecordBatch ((EncodeRecordBatch b epoch)[21 + i := w] @ rest) = Some (Inl CrcMismatch)"
proof -
  let ?xs = "take i (batch_body b)" and ?ys = "drop (Suc i) (batch_body b)"
  have body: "batch_body b = ?xs @ batch_body b ! i # ?ys"
    using assms(3) by (simp add: id_take_nth_drop)
  have "(EncodeRecordBatch b epoch)[21 + i := w] =
      batch_prefix b epoch @ be32 (crc32c (batch_body b)) @ (?xs @ w # ?ys)"
    using assms(3) by (simp add: EncodeRecordBatch_bytes list_update_append upd_conv_take_nth_drop)
  then show ?thesis
    using decodeOneRecordBatch_corrupt [OF assms(1) body assms(4,2)] by simp
qed

theorem corrupted_batch_refused_witness:
  "decodeOneRecordBatch ((EncodeRecordBatch example_batch 3)[21 + 1 := 7] @ []) = Some (Inl CrcMismatch)"
proof -
  have "1 < length (batch_body example_batch)" "batch_body example_batch ! 1 \<noteq> 7"
    by (simp_all add: batch_body_def example_batch_def be16_def)
  then show ?thesis
    using corrupted_batch_refused [of example_batch 3 "[]" 1 7] length_example_batch_body example_batch_ok
    by (simp add: fits_def length_EncodeRecordBatch)
qed

section \<open>Messages\<close>

text \<open>C40: on every body the Produce, Fetch, ListOffsets and Metadata decoders return a value or an error; none of them panics.\<close>

theorem request_decoders_never_panic:
  assumes "fits body"
  shows "DecodeProduceRequest body v \<noteq> None \<and> DecodeFetchRequest body v \<noteq> None \<and>
    DecodeListOffsetsRequest body v \<noteq> None \<and> DecodeMetadataRequest body v \<noteq> None \<and>
    DecodeFetchResponse body v \<noteq> None"
  using r_produce_request.no_panic [OF assms] r_fetch_request.no_panic [OF assms, of v]
    r_list_offsets_request.no_panic [OF assms, of v] r_metadata_request.no_panic [OF assms, of v]
    r_fetch_response.no_panic [OF assms, of v]
  by (auto simp: DecodeProduceRequest_def DecodeFetchRequest_def DecodeListOffsetsRequest_def
      DecodeMetadataRequest_def DecodeFetchResponse_def)

theorem request_decoders_never_panic_witness:
  "DecodeProduceRequest [255, 255, 0] 3 \<noteq> None \<and> DecodeFetchRequest [255, 255, 0] 3 \<noteq> None"
  using request_decoders_never_panic [of "[255, 255, 0]" 3] by (simp add: fits_def)

text \<open>An ApiVersions v3 header whose single tagged field announces the size \<open>2 ^ 64 - 100\<close> makes the parser panic, whatever follows.\<close>

theorem flexible_header_panics:
  assumes "length rest < 2 ^ 31"
  shows "ParseRequestHeader (be16 APIKeyApiVersions @ be16 3 @ be32 c @ be16 (- 1) @
    put_uvarint 1 @ put_uvarint 0 @ put_uvarint (- 100) @ rest) = None"
proof (rule ParseRequestHeader_panics)
  note u = length_put_uvarint [of 1] length_put_uvarint [of 0] length_put_uvarint [of "- 100"]
  show "RequestHeaderVersion APIKeyApiVersions 3 = 2"
    by (simp add: RequestHeaderVersion_def)
  show "fits (be16 APIKeyApiVersions @ be16 3 @ be32 c @ be16 (- 1) @
    put_uvarint 1 @ put_uvarint 0 @ put_uvarint (- 100) @ rest)"
    using assms u by (simp add: fits_def)
  have "sint (- 100 :: u64) = - 100"
    by simp
  then show "int (length (be16 APIKeyApiVersions @ be16 3 @ be32 c @ be16 (- 1) @
    put_uvarint 1 @ put_uvarint 0 @ put_uvarint (- 100))) + sint (- 100 :: u64) < 0"
    using u by simp
qed

theorem flexible_header_panics_witness:
  "ParseRequestHeader (be16 APIKeyApiVersions @ be16 3 @ be32 1 @ be16 (- 1) @
    put_uvarint 1 @ put_uvarint 0 @ put_uvarint (- 100) @ []) = None"
  by (rule flexible_header_panics) simp

text \<open>The broker reads Produce requests, and a client reads Produce and Metadata responses, as the version tables at the head of the source files say.\<close>

theorem client_messages_agree:
  assumes "produce_request_ok req" and "fits (pr_bytes req)"
    and "produce_response_ok resp" and "fits (EncodeProduceResponse resp v)"
    and "metadata_response_ok md" and "fits (EncodeMetadataResponse md v)"
  shows "DecodeProduceRequest (pr_bytes req) v = Some (Inr req) \<and>
    map_option fst (client_ProduceResponse v (NewDecoder (EncodeProduceResponse resp v))) =
      Some (produce_response_view v resp) \<and>
    map_option fst (client_MetadataResponse v (NewDecoder (EncodeMetadataResponse md v))) =
      Some (metadata_response_view v md)"
  using assms produce_request.get_put_new [of req "[]"] produce_response.get_put_new [of resp v "[]"]
    metadata_response.get_put_new [of md v "[]"]
  by (simp add: DecodeProduceRequest_def EncodeProduceResponse_bytes EncodeMetadataResponse_bytes)

theorem client_messages_agree_witness:
  "DecodeProduceRequest (pr_bytes example_produce_request) 8 = Some (Inr example_produce_request)"
proof -
  let ?p = "\<lparr>ps_Topics = [], ps_ThrottleTime = 0\<rparr>"
  let ?m = "\<lparr>ms_ThrottleTimeMs = 0, ms_Brokers = [], ms_ClusterID = None, ms_ControllerID = 1, ms_Topics = []\<rparr>"
  have "produce_request_ok example_produce_request" "fits (pr_bytes example_produce_request)"
    by (simp_all add: example_produce_request_def produce_request_ok_def prt_ok_def prp_ok_def ok_nstr_def ok_nbytes_def
        ok_bytes_def ok_len_def ok_str_def fits_def pr_bytes_def prt_bytes_def prp_bytes_def array_bytes_def nstr_bytes_def
        str_bytes_def nbytes_bytes_def)
  moreover have "produce_response_ok ?p" "fits (EncodeProduceResponse ?p 8)"
    "metadata_response_ok ?m" "fits (EncodeMetadataResponse ?m 8)"
    by (simp_all add: produce_response_ok_def metadata_response_ok_def ok_len_def ok_nstr_def fits_def
        EncodeProduceResponse_bytes EncodeMetadataResponse_bytes ps_bytes_def ms_bytes_def array_bytes_def bytes_if_def
        nstr_bytes_def)
  ultimately show ?thesis
    using client_messages_agree [of example_produce_request ?p 8 ?m] by simp
qed

text \<open>A message that starts with an encoded request header is parsed into that header and the bytes that follow it, and a message that starts with a response header into its correlation id and the bytes that follow it.\<close>

theorem request_header_roundtrip:
  assumes "ok_nstr client"
    and "fits (Bytes (PutRawBytes (EncodeRequestHeader NewEncoder key version corr client) body))"
    and "fits (Bytes (PutRawBytes (WriteResponseHeader NewEncoder corr key version) body))"
  shows "ParseRequestHeader (Bytes (PutRawBytes (EncodeRequestHeader NewEncoder key version corr client) body)) =
      Some (Inr (\<lparr>rh_APIKey = key, rh_APIVersion = version, rh_CorrelationID = corr, rh_ClientID = client\<rparr>, body)) \<and>
    ParseResponseHeader (Bytes (PutRawBytes (WriteResponseHeader NewEncoder corr key version) body)) key version =
      Some (Inr (corr, body))"
  using assms ParseRequestHeader_bytes [of client key version corr body]
    ParseResponseHeader_bytes [of corr key version body]
  by (simp add: Bytes_def put_bytes)

theorem request_header_roundtrip_witness:
  "ParseRequestHeader (Bytes (PutRawBytes (EncodeRequestHeader NewEncoder 18 2 7 (Some [0x61])) [1, 2])) =
     Some (Inr (\<lparr>rh_APIKey = 18, rh_APIVersion = 2, rh_CorrelationID = 7, rh_ClientID = Some [0x61]\<rparr>, [1, 2]))"
  using request_header_roundtrip [of "Some [0x61]" 18 2 7 "[1, 2]"]
  by (simp add: ok_nstr_def ok_str_def Bytes_def put_bytes fits_def request_header_bytes_def
      response_header_bytes_def bytes_if_def nstr_bytes_def str_bytes_def RequestHeaderVersion_def
      ResponseHeaderVersion_def api_keys)

text \<open>OffsetsForLeaderEpoch requests and responses are decoded to what was encoded, in the classic and in the flexible encoding.\<close>

theorem leader_epoch_messages_roundtrip:
  assumes "ofle_request_ok r" and "fits (EncodeOffsetsForLeaderEpochRequest r v)"
    and "ofle_response_ok s" and "fits (EncodeOffsetsForLeaderEpochResponse s v)"
  shows "DecodeOffsetsForLeaderEpochRequest (EncodeOffsetsForLeaderEpochRequest r v) v =
      Some (Inr (ofle_request_view v r)) \<and>
    DecodeOffsetsForLeaderEpochResponse (EncodeOffsetsForLeaderEpochResponse s v) v = Some (Inr s)"
  using assms ofle_request.get_put_new [of r v "[]"] ofle_response.get_put_new [of s v "[]"]
  by (simp add: DecodeOffsetsForLeaderEpochRequest_def EncodeOFLERequest_bytes
      DecodeOffsetsForLeaderEpochResponse_def EncodeOFLEResponse_bytes)

theorem leader_epoch_messages_roundtrip_witness:
  "DecodeOffsetsForLeaderEpochRequest (EncodeOffsetsForLeaderEpochRequest example_ofle_request 4) 4 =
      Some (Inr example_ofle_request)"
proof -
  let ?s = "\<lparr>os_ThrottleTimeMs = 0, os_Topics = []\<rparr>"
  have u: "length (put_uvarint x) < 11" for x
    using length_put_uvarint [of x] by simp
  have "ofle_request_ok example_ofle_request" "ofle_response_ok ?s"
    "ofle_request_view 4 example_ofle_request = example_ofle_request"
    by (simp_all add: example_ofle_request_def ofle_request_ok_def ofle_response_ok_def ort_ok_def ok_len_def ok_str_def
        ofle_request_view_def)
  moreover have "fits (EncodeOffsetsForLeaderEpochRequest example_ofle_request 4)"
    "fits (EncodeOffsetsForLeaderEpochResponse ?s 4)"
    using u [of 0] u [of 1] u [of 2] u [of 3] by (simp_all add: example_ofle_request_def fits_def EncodeOFLERequest_bytes
        EncodeOFLEResponse_bytes or_bytes_def os_bytes_def ort_bytes_def orp_bytes_def ofle_array_bytes_def
        ofle_len_bytes_def ofle_str_bytes_def cstr_bytes_def tag_bytes_def bytes_if_def)
  ultimately show ?thesis
    using leader_epoch_messages_roundtrip [of example_ofle_request 4 ?s] by simp
qed

text \<open>In every version, a Fetch response that was encoded is decoded to the same response, up to the fields the version lacks, with null records read as empty.\<close>

theorem fetch_response_roundtrip:
  assumes "fetch_response_ok r" and "fits (EncodeFetchResponse r v)"
  shows "DecodeFetchResponse (EncodeFetchResponse r v) v = Some (Inr (fetch_response_view v r))"
  using assms fetch_response.get_put_new [of r v "[]"]
  by (simp add: DecodeFetchResponse_def EncodeFetchResponse_bytes)

theorem fetch_response_roundtrip_witness:
  "DecodeFetchResponse (EncodeFetchResponse example_fetch_response 11) 11 = Some (Inr example_fetch_response)"
proof -
  have "fetch_response_ok example_fetch_response" "fits (EncodeFetchResponse example_fetch_response 11)"
    "fetch_response_view 11 example_fetch_response = example_fetch_response"
    by (simp_all add: example_fetch_response_def fetch_response_ok_def fst_ok_def fsp_ok_def ok_nbytes_def ok_bytes_def
        ok_len_def ok_str_def fits_def EncodeFetchResponse_bytes fs_bytes_def fst_bytes_def fsp_bytes_def array_bytes_def
        bytes_if_def str_bytes_def nbytes_bytes_def fetch_response_view_def fst_view_def fsp_view_def)
  then show ?thesis using fetch_response_roundtrip [of example_fetch_response 11] by simp
qed

text \<open>In every version, a Fetch request that was encoded is decoded to the same request, up to the fields the version lacks.\<close>

theorem fetch_request_roundtrip:
  assumes "fetch_request_ok r" and "fits (EncodeFetchRequest r v)"
  shows "DecodeFetchRequest (EncodeFetchRequest r v) v = Some (Inr (fetch_request_view v r))"
  using assms fetch_request.get_put_new [of r v "[]"]
  by (simp add: DecodeFetchRequest_def EncodeFetchRequest_bytes)

theorem fetch_request_roundtrip_witness:
  "DecodeFetchRequest (EncodeFetchRequest example_fetch_request 11) 11 = Some (Inr example_fetch_request)"
proof -
  have "fetch_request_ok example_fetch_request" "fits (EncodeFetchRequest example_fetch_request 11)"
    "fetch_request_view 11 example_fetch_request = example_fetch_request"
    by (simp_all add: example_fetch_request_def fetch_request_ok_def frt_ok_def fft_ok_def ok_len_def ok_str_def
        fits_def EncodeFetchRequest_bytes fr_bytes_def frt_bytes_def frp_bytes_def fft_bytes_def array_bytes_def
        bytes_if_def str_bytes_def fetch_request_view_def frt_view_def frp_view_def)
  then show ?thesis using fetch_request_roundtrip [of example_fetch_request 11] by simp
qed

section \<open>Controller\<close>

text \<open>C2: every reachable state of the controller satisfies the invariant: valid assignments with the leader in an unfenced ISR, contiguous partitions for each topic, valid registrations.\<close>

theorem controller_states_valid:
  assumes "upper_law uni" and "reachable js uni s"
  shows "controller_inv uni s"
  using reachable_inv assms by blast

theorem controller_states_valid_witness:
  "controller_inv id (snd (Apply (example_codec (UpdatePayload example_update) (toSnapshotData newControllerState)) id
     newControllerState (Some \<lparr>rl_Index = 5, rl_Data = [1]\<rparr>)))"
  by (rule controller_states_valid [OF upper_law_id reachable.apply_log [OF reachable.start]]) (rule prod.collapse [symmetric])

text \<open>C3: if a partition has the same leader epoch before and after a run of log entries, it has the same leader, so two leaders never share an epoch.\<close>

theorem one_leader_per_leader_epoch:
  assumes "upper_law uni" and "reachable js uni s" and "GetPartition s topic i = Some p"
    and "length logs < 2 ^ 32" and "GetPartition (run js uni s logs) topic i = Some q"
    and "pt_LeaderEpoch q = pt_LeaderEpoch p"
  shows "pt_LeaderBrokerID q = pt_LeaderBrokerID p"
  using one_leader_per_epoch [OF assms(1) reachable_inv [OF assms(2,1)] _ assms(4) _ assms(6)] assms(3,5)
  by (simp add: GetPartition_def)

theorem one_leader_per_leader_epoch_witness:
  "pt_LeaderBrokerID (the (GetPartition (run (example_codec (UpdatePayload example_update) (toSnapshotData example_state)) id
      example_state [\<lparr>rl_Index = 5, rl_Data = [9]\<rparr>]) (gostr ''t'') 0)) = 1"
proof -
  let ?js = "example_codec (UpdatePayload example_update) (toSnapshotData example_state)"
  let ?p = "\<lparr>pt_LeaderBrokerID = 1, pt_LeaderEpoch = 0, pt_PartitionEpoch = 0, pt_Replicas = [1, 2], pt_ISR = [1, 2]\<rparr>"
  have "epochs_nonneg example_state" by (simp add: epochs_nonneg_def example_state_def)
  then obtain s' where s': "fromSnapshotData id (toSnapshotData example_state) = Inr s'" "same_maps example_state s'"
    using fromSnapshotData_toSnapshotData [OF example_state_inv] by blast
  have r: "reachable ?js id s'"
    by (rule reachable.restore [OF reachable.start]) (rule example_data_codec [OF s'(1)])
  have g: "GetPartition s' (gostr ''t'') 0 = Some ?p" "GetPartition example_state (gostr ''t'') 0 = Some ?p"
    using s'(2) by (simp_all add: same_maps_def GetPartition_def example_state_def example_key_def)
  have same: "run ?js id s [\<lparr>rl_Index = 5, rl_Data = [9]\<rparr>] = s" for s
    by (simp add: run_def Apply_def example_codec_def)
  show ?thesis
    using one_leader_per_leader_epoch [OF upper_law_id r g(1), of "[\<lparr>rl_Index = 5, rl_Data = [9]\<rparr>]" ?p]
    by (simp add: same g)
qed

text \<open>C39: restoring what Persist wrote for a snapshot of a reachable state gives the same broker, topic and partition maps.\<close>

theorem snapshot_restores_state:
  assumes "upper_law uni" and "reachable js uni s" and "epochs_nonneg s"
    and "\<And>raw. js_put_snapshot js (toSnapshotData s) = Some raw \<Longrightarrow> js_snapshot js raw = Some (toSnapshotData s)"
    and "Persist js (Snapshot s) sink = Inr raw"
  shows "\<exists>s'. Restore js uni s0 (Some raw) = (None, s') \<and> same_maps s s'"
  by (rule Persist_Restore [OF reachable_inv [OF assms(2,1)] assms(3-5)])

theorem snapshot_restores_state_witness:
  "\<exists>s'. Restore (example_codec (UpdatePayload example_update) (toSnapshotData newControllerState)) id example_state (Some [3]) =
     (None, s') \<and> same_maps newControllerState s'"
proof (rule snapshot_restores_state [OF upper_law_id reachable.start])
  show "Persist (example_codec (UpdatePayload example_update) (toSnapshotData newControllerState)) (Snapshot newControllerState)
      \<lparr>sk_stored = None, sk_writeErr = False, sk_closeErr = False\<rparr> = Inr [3]"
    by (simp add: Persist_def Snapshot_def deepCopy_def copy_map_def newControllerState_def example_codec_def)
qed (simp_all add: epochs_nonneg_def newControllerState_def example_codec_def)

text \<open>After any run, an unfenced registration is still there and a registration with another incarnation is refused.\<close>

theorem unfenced_broker_cannot_return:
  assumes "GetBroker s i = Some b" and "\<not> bi_Fenced b"
    and "json_law js (RegisterPayload cmd)" and "EncodeCommand js CommandRegisterBroker (RegisterPayload cmd) = Inr data"
    and "rb_ID cmd = i" and "rb_IncarnationID cmd \<noteq> bi_IncarnationID b"
  shows "GetBroker (run js uni s logs) i = Some b \<and>
    (\<exists>err. Apply js uni (run js uni s logs) (Some \<lparr>rl_Index = idx, rl_Data = data\<rparr>) = (Some err, run js uni s logs))"
proof -
  let ?s = "run js uni s logs"
  have b: "map_of (cs_Brokers ?s) i = Some b"
    using run_unfenced_same assms(1,2) by (simp add: GetBroker_def)
  have "Apply js uni ?s (Some \<lparr>rl_Index = idx, rl_Data = data\<rparr>) = register_broker uni ?s cmd idx"
    using Apply_encoded [OF assms(3), of data] assms(4) by simp
  with register_unfenced_refused [OF b assms(2,5)] assms(6) b show ?thesis by (simp add: GetBroker_def)
qed

theorem unfenced_broker_cannot_return_witness:
  "let c = RegisterPayload \<lparr>rb_ID = 1, rb_IncarnationID = gostr ''b'', rb_Endpoints = [example_endpoint]\<rparr>;
       js = example_codec c (toSnapshotData example_state) in
   \<exists>err. Apply js id example_state (Some \<lparr>rl_Index = 9, rl_Data = [1]\<rparr>) = (Some err, example_state)"
proof -
  let ?cmd = "\<lparr>rb_ID = 1, rb_IncarnationID = gostr ''b'', rb_Endpoints = [example_endpoint]\<rparr>"
  let ?js = "example_codec (RegisterPayload ?cmd) (toSnapshotData example_state)"
  have "GetBroker example_state 1 = Some (example_broker 1 False)" by (simp add: GetBroker_def example_state_def)
  from unfenced_broker_cannot_return [OF this _ example_codec_law, of ?cmd _ _ id "[]" 9] show ?thesis
    using example_encoded [of "RegisterPayload ?cmd"] by (simp add: Let_def run_def example_broker_def gostr_def)
qed

text \<open>In every reachable state, PartitionsForBroker returns exactly the partitions replicated on the broker, in order.\<close>

theorem broker_partitions_exact:
  assumes "upper_law uni" and "reachable js uni s"
  shows "(m \<in> set (PartitionsForBroker s b) \<longleftrightarrow>
      GetPartitionMetadata s (pm_Topic m) (pm_Partition m) = Some m \<and> b \<in> set (pm_Replicas m)) \<and>
    sorted (map metadata_key (PartitionsForBroker s b))"
  using PartitionsForBroker_exact PartitionsForBroker_sorted reachable_inv [OF assms(2,1)]
  by (simp add: controller_inv_def)

theorem broker_partitions_exact_witness:
  "sorted (map metadata_key (PartitionsForBroker newControllerState 1))"
  using broker_partitions_exact [OF upper_law_id reachable.start] by blast

text \<open>An entry or a snapshot that is answered with an error leaves the controller state unchanged.\<close>

theorem refused_command_changes_nothing:
  assumes "Apply js uni s log = (Some err, s') \<or> Restore js uni s snap = (Some err, s')"
  shows "s' = s"
  using assms Apply_refused Restore_cases by force

theorem refused_command_changes_nothing_witness:
  "\<exists>err. Apply (example_codec (UpdatePayload example_update) (toSnapshotData example_state)) id newControllerState
      (Some \<lparr>rl_Index = 5, rl_Data = [1]\<rparr>) = (Some err, newControllerState)"
proof -
  let ?js = "example_codec (UpdatePayload example_update) (toSnapshotData example_state)"
  let ?r = "Apply ?js id newControllerState (Some \<lparr>rl_Index = 5, rl_Data = [1]\<rparr>)"
  have "?r = (Some (PartitionMissing (gostr ''t'') 0), snd ?r)"
    using Apply_encoded [OF example_codec_law example_encoded, of "UpdatePayload example_update"]
    by (simp add: update_partition_def example_update_def newControllerState_def)
  from this refused_command_changes_nothing [OF disjI1, OF this] show ?thesis by (intro exI) simp
qed

text \<open>An encoded and committed UpdatePartition command is a compare-and-set on the partition epoch with a clean-election guard.\<close>

theorem partition_update_is_compare_and_set:
  assumes "json_law js (UpdatePayload cmd)" and "EncodeCommand js CommandUpdatePartition (UpdatePayload cmd) = Inr data"
  shows "Apply js uni s (Some \<lparr>rl_Index = idx, rl_Data = data\<rparr>) = (None, s') \<longleftrightarrow>
    (\<exists>c. GetPartition s (up_Topic cmd) (up_Partition cmd) = Some c \<and>
      up_ExpectedPartitionEpoch cmd = pt_PartitionEpoch c \<and>
      assignment_ok (cs_Brokers s) (up_LeaderBrokerID cmd) (up_Replicas cmd) (up_ISR cmd) \<and>
      (up_LeaderBrokerID cmd = pt_LeaderBrokerID c \<or> up_LeaderBrokerID cmd \<in> set (pt_ISR c) \<or> up_AllowUncleanElection cmd) \<and>
      s' = s\<lparr>cs_Partitions := AList.update (update_key cmd)
        \<lparr>pt_LeaderBrokerID = up_LeaderBrokerID cmd,
         pt_LeaderEpoch = (if up_LeaderBrokerID cmd \<noteq> pt_LeaderBrokerID c then pt_LeaderEpoch c + 1 else pt_LeaderEpoch c),
         pt_PartitionEpoch = pt_PartitionEpoch c + 1, pt_Replicas = up_Replicas cmd, pt_ISR = up_ISR cmd\<rparr>
        (cs_Partitions s)\<rparr>)"
  using Apply_encoded [OF assms(1), of data uni s idx] assms(2) by (simp add: update_partition_accepts GetPartition_def update_key_def)

theorem partition_update_is_compare_and_set_witness:
  "Apply (example_codec (UpdatePayload example_update) (toSnapshotData example_state)) id example_state
     (Some \<lparr>rl_Index = 5, rl_Data = [1]\<rparr>) =
   (None, example_state\<lparr>cs_Partitions := [(example_key, \<lparr>pt_LeaderBrokerID = 2, pt_LeaderEpoch = 1, pt_PartitionEpoch = 1,
        pt_Replicas = [1, 2], pt_ISR = [2]\<rparr>)]\<rparr>)"
proof -
  have "assignment_ok (cs_Brokers example_state) 2 [1, 2] [2]"
    by (simp add: assignment_ok_def example_state_def example_broker_def registered_def active_iff)
  then show ?thesis
    using example_encoded [of "UpdatePayload example_update"]
    by (subst partition_update_is_compare_and_set [OF example_codec_law])
      (auto simp: example_update_def example_state_def GetPartition_def example_key_def update_key_def)
qed

section \<open>Leader epochs\<close>

text \<open>C18: in every file-system state a checkpoint write passes through, reading gives the old result or the new entries, and after success it gives the new entries.\<close>

theorem checkpoint_crash_safe:
  assumes "Checkpoint_Write fs path entries fault = (err, states)" and "length entries < 2 ^ 63"
  shows "(\<forall>st\<in>set states. st path = fs path \<or>
       (snd (the (st path)) \<and> Checkpoint_Read st path all_well = Inr entries)) \<and>
     (err = None \<longrightarrow> snd (the (hd states path)) \<and> Checkpoint_Read (hd states) path all_well = Inr entries)"
proof -
  have read: "Checkpoint_Read st path all_well = Inr entries" if "st path = Some (checkpoint_text entries, True)"
    and "list_all entry_ok entries" for st
    using read_lines_text [OF that(2) assms(2)] that(1) by (simp add: Checkpoint_Read_def all_well_def)
  have "list_all entry_ok entries" if "st \<in> set states" "st path \<noteq> fs path" for st
    using Checkpoint_Write_changed [OF assms(1) that] .
  then show ?thesis
    using Checkpoint_Write_states [OF assms(1)] Checkpoint_Write_done [of fs path entries fault states] assms(1) read
    by fastforce
qed

theorem checkpoint_crash_safe_witness:
  "Checkpoint_Read (hd (snd (Checkpoint_Write Map.empty [7] (Entries example_history) no_fault))) [7] all_well =
     Inr (Entries example_history)"
proof -
  have "fst (Checkpoint_Write Map.empty [7] (Entries example_history) no_fault) = None"
    by (simp add: Checkpoint_Write_def no_fault_def Entries_def example_history_def Let_def)
  then show ?thesis
    using checkpoint_crash_safe [of Map.empty "[7]" "Entries example_history" no_fault, OF prod.collapse [symmetric]]
    by (simp add: Entries_def example_history_def)
qed

text \<open>Histories stay strictly increasing in both columns, and looking up the start offset of an assignment returns the assigned epoch.\<close>

theorem epoch_history_monotone:
  assumes "built c" and "Assign c epoch start = Inr (changed, c')"
  shows "epochs_ok (Entries c') \<and> EpochForOffset c' start = Some epoch"
  using epochs_ok_Assign [OF built_ok] Assign_lookup [OF built_ok] assms by (simp add: Entries_def)

theorem epoch_history_monotone_witness:
  "EpochForOffset \<lparr>lec_entries = [\<lparr>ee_Epoch = 1, ee_StartOffset = 0\<rparr>, \<lparr>ee_Epoch = 2, ee_StartOffset = 7\<rparr>]\<rparr> 7 = Some 2"
proof -
  have "Assign example_history 2 7 =
      Inr (True, \<lparr>lec_entries = [\<lparr>ee_Epoch = 1, ee_StartOffset = 0\<rparr>, \<lparr>ee_Epoch = 2, ee_StartOffset = 7\<rparr>]\<rparr>)"
    by (simp add: Assign_def example_history_def)
  from epoch_history_monotone [OF example_history_built this] show ?thesis by blast
qed

text \<open>For every history built by assignments and truncations, EndOffsetFor computes the reference definition of the end of an epoch.\<close>

theorem epoch_end_is_reference:
  assumes "built c"
  shows "EndOffsetFor c r leo = Some (end_reference (Entries c) r leo)"
  using EndOffsetFor_reference [OF built_ok [OF assms]] by (simp add: Entries_def)

theorem epoch_end_is_reference_witness:
  "EndOffsetFor example_history 3 99 = Some (Some \<lparr>eo_Epoch = 1, eo_EndOffset = 10\<rparr>)"
  using epoch_end_is_reference [OF example_history_built, of 3 99]
  by (simp add: end_reference_def Entries_def example_history_def)

section \<open>The offset index\<close>

text \<open>Closing and reopening an index keeps its entries, and Write then appends one entry unless the index is full.\<close>

theorem index_close_open_roundtrip:
  assumes "idx_rep idx es" and "(0, 0) \<notin> set (tl es)" and "0 < ix_maxBytes idx"
  shows "\<exists>idx'. NewIndex (Index_Close idx) baseOffset (ix_maxBytes idx) False = Inr idx' \<and> idx_rep idx' es \<and>
    (\<not> Index_IsFull idx' \<longrightarrow> (\<exists>idx''. Index_Write idx' offset filePos = Inr idx'' \<and>
       idx_rep idx'' (es @ [(ucast (offset - baseOffset), word_of_int filePos)])))"
proof -
  obtain idx' where "NewIndex (Index_Close idx) baseOffset (ix_maxBytes idx) False = Inr idx'" "ix_baseOffset idx' = baseOffset" "idx_rep idx' es"
    using reopen [OF assms(1) _ assms(3)] assms(2) by blast
  then show ?thesis using idx_rep_Write [of idx' es offset filePos] by blast
qed

theorem index_close_open_roundtrip_witness:
  "\<exists>idx'. NewIndex (Index_Close example_index) 100 48 False = Inr idx' \<and> idx_rep idx' [(0, 0), (10, 4200)]"
  using index_close_open_roundtrip [OF example_index_rep, of 100 0 0] by (auto simp: example_index_def)

text \<open>The binary search of Lookup agrees with a linear search for the last entry at or below the target.\<close>

theorem index_lookup_is_linear_search:
  assumes "idx_rep idx es" and "sorted (map fst es)" and "es \<noteq> []" and "ix_baseOffset idx \<le> offset"
  shows "Lookup idx offset =
    Inr (sint (snd (es ! (length (takeWhile (\<lambda>e. fst e \<le> ucast (offset - ix_baseOffset idx)) es) - 1))))"
  using Lookup_linear [OF assms] by (simp add: last_le_def)

theorem index_lookup_is_linear_search_witness:
  "Lookup example_index 105 = Inr 0 \<and> Lookup example_index 117 = Inr 4200"
  using index_lookup_is_linear_search [OF example_index_rep, of 105] index_lookup_is_linear_search [OF example_index_rep, of 117]
  by (simp add: example_index_def)

section \<open>Segments\<close>

text \<open>C17: opening a segment file that ends in a torn write keeps exactly the complete batches, on disk and in the counters.\<close>

theorem segment_crash_recovery:
  assumes "batches_ok (unat baseOffset) bs" and "raw_ok b" and "n < length b"
  shows "\<exists>s. NewSegment io_ok (concat bs @ take n b) baseOffset maxSize = Some (Inr s) \<and> sg_file s = concat bs \<and>
    sg_nextOffset s = baseOffset + word_of_nat (total_records bs) \<and> seg_rep s bs"
proof -
  have "torn (take n b)" using assms(2,3) by (auto simp: torn_def)
  then obtain s where s: "NewSegment io_ok (concat bs @ take n b) baseOffset maxSize = Some (Inr s)" "sg_baseOffset s = baseOffset"
    "sg_file s = concat bs" "seg_rep s bs"
    using NewSegment_recovers [OF assms(1), of "take n b" maxSize] by blast
  then have "sg_nextOffset s = baseOffset + word_of_nat (total_records bs)"
    using assms(1) by (simp add: seg_rep_def batches_ok_def word_unat_eq_iff unat_add_nat)
  with s show ?thesis by blast
qed

theorem segment_crash_recovery_witness:
  "\<exists>s. NewSegment io_ok (example_stored @ take 50 example_stored) 0 1000000 = Some (Inr s) \<and> sg_file s = example_stored \<and> sg_nextOffset s = 2"
  using segment_crash_recovery [of 0 "[example_stored]" example_stored 50 1000000] example_batches_ok example_stored_ok
    raw_ok_length [OF example_stored_ok(1)]
  by auto

text \<open>C36: AppendRawBatches implements appending the stamped batches to the list of batches, all or nothing.\<close>

theorem segment_append_refines:
  assumes "seg_rep s bs" and "list_all raw_ok ds" and "unat (sg_nextOffset s) + total_records ds < 2 ^ 64"
  shows "\<exists>r s'. AppendRawBatches fault s (concat ds) (bounds_from 0 ds) epoch = Some (r, s') \<and>
    (case r of
       Inl e \<Rightarrow> seg_rep s' bs \<and> (e = ErrSegmentFull \<or> fault \<noteq> None)
     | Inr (off, pos, n) \<Rightarrow> off = sg_nextOffset s \<and> pos = int (length (concat bs)) \<and> unat n = total_records ds \<and>
         seg_rep s' (bs @ stamp_all (unat (sg_nextOffset s)) epoch ds))"
proof (cases "fits_segment s (length (concat ds))")
  case False
  then show ?thesis using AppendRawBatches_full [OF False] assms(1) by (simp add: AppendRawBatches_def)
next
  case True
  have n: "unat (word_of_nat (total_records ds) :: u64) = total_records ds" using assms(3) by (intro unat_word_of_nat) simp
  obtain s' where ok: "AppendRawBatches None s (concat ds) (bounds_from 0 ds) epoch =
      Some (Inr (sg_nextOffset s, sg_currentSize s, word_of_nat (total_records ds)), s')"
    "seg_rep s' (bs @ stamp_all (unat (sg_nextOffset s)) epoch ds)"
    using AppendRawBatches_rep [OF assms True] by blast
  show ?thesis
  proof (cases fault)
    case None
    then show ?thesis using ok n seg_size [OF assms(1)] by simp
  next
    case (Some k)
    then obtain s'' where "AppendRawBatches fault s (concat ds) (bounds_from 0 ds) epoch = Some (Inl OtherError, s'')"
      using AppendRawBatches_fault [OF ok(1)] by blast
    then show ?thesis using Some appendRawBatches_error [OF assms(1)] unfolding AppendRawBatches_def by fastforce
  qed
qed

theorem segment_append_refines_witness:
  "\<exists>r s'. AppendRawBatches None example_segment (concat [example_stored]) (bounds_from 0 [example_stored]) 7 = Some (r, s')"
  using segment_append_refines [OF example_segment_rep, of "[example_stored]" None 7] example_stored_ok
  by (fastforce simp: example_segment_def)

text \<open>ReadRawBatchAt at a batch boundary returns a nonempty sequence of whole batches that starts there; beyond the first batch it stays in the budget.\<close>

theorem segment_read_returns_whole_batches:
  assumes "seg_rep s (xs @ y # ys)"
  shows "\<exists>zs rest. y # ys = y # zs @ rest \<and>
    ReadRawBatchAt s (int (length (concat xs))) maxBytes = Some (concat (y # zs), offset_after (last (y # zs))) \<and>
    (zs = [] \<or> int (length (concat (y # zs))) \<le> sint maxBytes) \<and>
    (rest = [] \<or> int (length (concat (y # zs))) + int (length (hd rest)) > sint maxBytes)"
proof -
  let ?r = "sint maxBytes - int (length y)"
  have ys: "list_all raw_ok ys" using assms by (simp add: seg_rep_def batches_ok_def)
  obtain rest where rest: "ys = fetch_more ?r ys @ rest" using fetch_more_prefix by blast
  moreover have "fetch_more ?r ys = [] \<or> int (length (concat (fetch_more ?r ys))) \<le> ?r"
    using fetch_more_none [OF ys] fetch_more_size [of ?r ys] by fastforce
  moreover have "rest = [] \<or> int (length (concat (fetch_more ?r ys))) + int (length (hd rest)) > ?r"
    using fetch_more_maximal [OF rest] by auto
  ultimately show ?thesis
    using ReadRawBatchAt_rep [OF assms, of maxBytes]
    by (intro exI [of _ "fetch_more ?r ys"] exI [of _ rest]) auto
qed

theorem segment_read_returns_whole_batches_witness:
  "ReadRawBatchAt example_segment 0 (- 1) = Some (example_stored, offset_after example_stored)"
  using segment_read_returns_whole_batches [of example_segment "[]" example_stored "[]" "- 1"] example_segment_rep by auto

text \<open>ScanRawBatches accepts exactly the concatenations of valid batches and returns the bounds of the unique split.\<close>

theorem scan_accepts_exactly_batch_sequences:
  "scanRawBatches data = Inr bounds \<longleftrightarrow>
     (\<exists>!bs. data = concat bs \<and> list_all scannable bs \<and> bounds = bounds_from 0 bs)"
  unfolding scanRawBatches_iff using scannable_unique by (metis (mono_tags, lifting))

text \<open>The storage encoder equals the protocol encoder, its size computation is exact, its output validates and its decoder inverts it.\<close>

theorem internal_codec_agrees:
  assumes "batch_ok b" and "b_Messages b \<noteq> []" and "b_LastOffsetDelta b = word_of_nat (length (b_Messages b) - 1)"
  shows "encodeBatch b epoch = EncodeRecordBatch b epoch \<and>
    encodedBatchSize b = int (length (encodeBatch b epoch)) \<and>
    validateRawBatch (encodeBatch b epoch) = Inr (encodedBatchSize b, b_LastOffsetDelta b) \<and>
    decodeBatch (encodeBatch b epoch) = Some (Inr b)"
  using encodeBatch_eq [of b epoch] encodedBatchSize_length [of b epoch] decodeBatch_encodeBatch [OF assms(1), of epoch]
    validateRawBatch_append [OF raw_ok_encodeBatch [OF assms], of epoch "[]"] hdr_encoded(7) [of b epoch]
  by auto

theorem internal_codec_agrees_witness:
  "decodeBatch (encodeBatch example_batch 3) = Some (Inr example_batch)"
proof -
  have "b_Messages example_batch \<noteq> []" "b_LastOffsetDelta example_batch = word_of_nat (length (b_Messages example_batch) - 1)"
    by (simp_all add: example_batch_def)
  from internal_codec_agrees [OF example_batch_ok this, of 3] show ?thesis by blast
qed

text \<open>The zero-copy read returns a range of the file with exactly the bytes the copying read returns.\<close>

theorem zero_copy_read_is_copying_read:
  assumes "sg_currentSize s \<le> int (length (sg_file s))"
  shows "case ReadRawBatchAt s pos maxBytes of
      None \<Rightarrow> ReadRawRangesAt s pos maxBytes = None
    | Some (res, upTo) \<Rightarrow> (\<exists>r. ReadRawRangesAt s pos maxBytes = Some \<lparr>rw_Ranges = [r], rw_Bytes = int (length res), rw_FetchedUpTo = upTo\<rparr> \<and>
        ReadAt (rr_File r) (rr_Offset r) (nat (rr_Length r)) = Some res)"
  using ReadRawRangesAt_eq(1) [OF assms, of pos maxBytes] ReadRawRangesAt_eq(2) [OF assms, of pos maxBytes]
  by (auto split: option.split)

theorem zero_copy_read_is_copying_read_witness:
  "\<exists>r. ReadRawRangesAt example_segment 0 100 = Some r \<and> rw_FetchedUpTo r = 2"
proof -
  have "ReadRawBatchAt example_segment 0 100 = Some (example_stored, 2)"
    using ReadRawBatchAt_rep [of example_segment "[]" example_stored "[]" 100] example_segment_rep example_stored_ok
    by (simp add: offset_after_def)
  then show ?thesis
    using zero_copy_read_is_copying_read [of example_segment 0 100] by (auto simp: example_segment_def)
qed

section \<open>Logs\<close>





text \<open>C19: AppendReplicaRaw appends the accepted prefix of the fetched batches unchanged and records the epochs they start.\<close>

theorem replica_append_refines:
  assumes "log_rep l bss" and "list_all scannable ds" and "ds \<noteq> []" and "pair_small (last bss @ ds)"
    and "acc = takeWhile (\<lambda>d. sint (hdr_epoch d) \<le> sint fetchEpoch) ds"
  shows "\<exists>r l'. AppendReplicaRaw io (concat ds) fetchEpoch l = Some (r, l') \<and> OldestOffset l' = OldestOffset l \<and>
    (case r of
       Inl _ \<Rightarrow> (\<exists>bss'. log_rep l' bss' \<and> concat bss' = concat bss)
     | Inr n \<Rightarrow> unat n = total_records acc \<and> (\<exists>bss'. log_rep l' bss' \<and> concat bss' = concat bss @ acc) \<and>
         (acc \<noteq> [] \<longrightarrow> replay_loop (lg_epochCache l) (epoch_changes None acc) = Inr (lg_epochCache l')))"
  using AppendReplicaRaw_rep [OF assms, of io] by blast

theorem replica_append_refines_witness:
  "\<exists>r l'. AppendReplicaRaw log_io_ok (concat [example_stored]) 3 example_log = Some (r, l') \<and> OldestOffset l' = 0"
  using replica_append_refines [OF example_log_rep(1), of "[example_stored]" "[example_stored]" 3 log_io_ok] example_stored_ok(3) example_scannable example_small(2) example_log_rep(2)
  by fastforce



text \<open>C30: ReadRaw returns the batch with the offset and following whole batches for every offset of the log, and fails for every other one.\<close>

theorem log_read_finds_every_offset:
  assumes "log_rep l bss"
  shows "(\<forall>as b cs. concat bss = as @ b # cs \<longrightarrow> unat (OldestOffset l) + total_records as \<le> unat offset \<longrightarrow>
      unat offset < unat (OldestOffset l) + total_records as + records b \<longrightarrow>
      (\<exists>zs rest upTo. cs = zs @ rest \<and> ReadRaw l offset maxBytes = Some (concat (b # zs), upTo) \<and>
         unat upTo = unat (OldestOffset l) + total_records (as @ b # zs) \<and>
         (zs = [] \<or> int (length (concat (b # zs))) \<le> sint maxBytes))) \<and>
    (offset < OldestOffset l \<or> NextOffset l \<le> offset \<longrightarrow> ReadRaw l offset maxBytes = None)"
  using ReadRaw_rep [OF assms, of _ _ _ offset maxBytes] ReadRaw_outside [OF assms, of offset maxBytes] by blast

theorem log_read_finds_every_offset_witness:
  "ReadRaw example_log 1 100 = Some (example_stored, 2) \<and> ReadRaw example_log 2 100 = None"
proof -
  note r = log_read_finds_every_offset [OF example_log_rep(1), of _ 100]
  have "\<exists>zs rest upTo. [] = zs @ rest \<and> ReadRaw example_log 1 100 = Some (concat (example_stored # zs), upTo) \<and>
      unat upTo = unat (OldestOffset example_log) + total_records ([] @ example_stored # zs) \<and>
      (zs = [] \<or> int (length (concat (example_stored # zs))) \<le> sint (100 :: i32))"
    using r [of 1, THEN conjunct1, rule_format, of "[]" example_stored "[]"] example_log_rep(2) example_stored_ok(4) by simp
  then show ?thesis
    using r [of 2] example_stored_ok(4) by (auto simp: example_log_rep(2,3) word_unat_eq_iff)
qed

text \<open>NewLog restores the history of the checkpoint up to the end of the recovered log.\<close>

theorem log_reopens_with_checkpoint:
  assumes "on_disk (lf_log files) (applyDefaults config) (unat (hd offsets)) offsets bss" and "offsets \<noteq> []" and "[] \<notin> set (butlast bss)"
    and "\<forall>b. b \<notin> set offsets \<longrightarrow> lf_log files b = None"
    and "mset names = mset (map segment_name offsets)" and "config_ok (applyDefaults config)"
    and "fs path = Some (checkpoint_text es, s)" and "epochs_ok es"
    and "\<forall>e\<in>set es. unat (ee_StartOffset e) < 2 ^ 63" and "length es < 2 ^ 63"
    and "es \<noteq> []" and "unat (ee_StartOffset (hd es)) \<le> unat (hd offsets) + total_records (concat bss)"
  shows "\<exists>l. NewLog open_io_ok names files fs path config = Some (Inr l) \<and> log_rep l bss \<and> OldestOffset l = hd offsets \<and>
    lec_entries (lg_epochCache l) = takeWhile (\<lambda>e. unat (ee_StartOffset e) \<le> unat (hd offsets) + total_records (concat bss)) es"
  by (rule NewLog_checkpoint) (rule assms)+

theorem log_reopens_with_checkpoint_witness:
  "\<exists>l. NewLog open_io_ok [segment_name 0] \<lparr>lf_log = [0 \<mapsto> example_stored], lf_index = (\<lambda>_. None)\<rparr>
      [[] \<mapsto> (checkpoint_text [\<lparr>ee_Epoch = 3, ee_StartOffset = 0\<rparr>, \<lparr>ee_Epoch = 4, ee_StartOffset = 9\<rparr>], True)] []
      \<lparr>lc_MaxSegmentBytes = 0, lc_MaxIndexBytes = 0, lc_IndexIntervalBytes = 0, lc_MaxMessageBytes = 0\<rparr> = Some (Inr l) \<and>
    log_rep l [[example_stored]] \<and> lec_entries (lg_epochCache l) = [\<lparr>ee_Epoch = 3, ee_StartOffset = 0\<rparr>]"
proof -
  let ?files = "\<lparr>lf_log = [0 \<mapsto> example_stored], lf_index = (\<lambda>_. None)\<rparr> :: LogFiles"
  let ?c = "\<lparr>lc_MaxSegmentBytes = 0, lc_MaxIndexBytes = 0, lc_IndexIntervalBytes = 0, lc_MaxMessageBytes = 0\<rparr>"
  let ?es = "[\<lparr>ee_Epoch = 3, ee_StartOffset = 0\<rparr>, \<lparr>ee_Epoch = 4, ee_StartOffset = 9\<rparr>]"
  have c: "lc_MaxIndexBytes (applyDefaults ?c) = 2 ^ 20" "config_ok (applyDefaults ?c)"
    by (simp_all add: applyDefaults_def config_ok_def defaultMaxSegmentBytes_def defaultMaxIndexBytes_def)
  have "\<exists>l. NewLog open_io_ok [segment_name 0] ?files [[] \<mapsto> (checkpoint_text ?es, True)] [] ?c = Some (Inr l) \<and>
    log_rep l [[example_stored]] \<and> OldestOffset l = hd [0] \<and>
    lec_entries (lg_epochCache l) = takeWhile (\<lambda>e. unat (ee_StartOffset e) \<le> unat (hd [0 :: u64]) + total_records (concat [[example_stored]])) ?es"
    by (rule log_reopens_with_checkpoint)
      (use c example_batches_ok example_small(1) in \<open>auto simp: epochs_ok_def entry_lt_def\<close>)
  then show ?thesis using example_stored_ok(4) by auto
qed

section \<open>Partitions\<close>



text \<open>C7: a round of fetching and appending keeps the log of a follower a prefix of the log of its leader.\<close>

theorem follower_stays_a_prefix:
  assumes "replicates f bsf p bsl" and "0 \<le> sint replicaID" and "FetchRaw (LEO f) replicaID maxBytes p = Some (Inr x, p')"
    and "data = (case fr_Records x of None \<Rightarrow> [] | Some d \<Rightarrow> d)" and "append_fits (pt_log f) data"
  shows "\<exists>r f' bsf'. AppendFromLeader io data fetchEpoch (fr_HighWatermark x) f = Some (r, f') \<and> replicates f' bsf' p' bsl \<and>
    LEO f \<le> LEO f' \<and> HighWatermark f' \<le> max (HighWatermark f) (HighWatermark p')"
  using replication_step [OF assms, of io fetchEpoch] unfolding HighWatermark_def by blast

theorem follower_stays_a_prefix_witness:
  "\<exists>x p' r f' bsf'. FetchRaw 0 2 100 example_leader = Some (Inr x, p') \<and> fr_Records x = Some example_stored \<and>
     AppendFromLeader log_io_ok example_stored 4 (fr_HighWatermark x) example_follower = Some (r, f') \<and>
     replicates f' bsf' p' [[example_stored]]"
proof -
  have "ReadRaw example_log 0 100 = Some (example_stored, 2)"
    using ReadRaw_rep [OF example_log_rep(1), of "[]" example_stored "[]" 0 100] example_stored_ok(4)
    by (auto simp: example_log_rep(2) word_unat_eq_iff)
  moreover obtain p' where "updateFollowerLEO 2 0 example_leader = Some p'" using updateFollowerLEO_sound [OF example_leader_ok] by blast
  ultimately obtain x where x: "FetchRaw 0 2 100 example_leader = Some (Inr x, p')" "fr_Records x = Some example_stored"
    by (simp add: FetchRaw_def example_log_rep(2,3))
  have "\<exists>r f' bsf'. AppendFromLeader log_io_ok example_stored 4 (fr_HighWatermark x) example_follower = Some (r, f') \<and>
      replicates f' bsf' p' [[example_stored]] \<and> LEO example_follower \<le> LEO f' \<and>
      HighWatermark f' \<le> max (HighWatermark example_follower) (HighWatermark p')"
    by (rule follower_stays_a_prefix [OF example_replicates(1), of 2 100])
      (use x example_append_fits in \<open>simp_all add: example_replicates(2,3)\<close>)
  then show ?thesis using x by blast
qed



text \<open>C15: a consumer fetch never returns a batch above the high watermark, and what it returns is a run of whole batches from the wanted offset.\<close>

theorem consumers_read_committed_batches:
  assumes "part_ok p bss" and "pt_isLeader p" and "\<not> pt_closed p" and "sint replicaID < 0"
    and "OldestOffset (pt_log p) \<le> off" and "off \<le> LEO p"
  shows "\<exists>x zs as rest. FetchRaw off replicaID maxBytes p = Some (Inr x, p) \<and>
    fr_Records x = (if zs = [] then None else Some (concat zs)) \<and> fr_HighWatermark x = HighWatermark p \<and>
    concat bss = as @ zs @ rest \<and> (\<forall>z\<in>set zs. offset_after z \<le> HighWatermark p) \<and>
    (zs \<noteq> [] \<longrightarrow> unat (OldestOffset (pt_log p)) + total_records as \<le> unat off \<and>
       unat off < unat (OldestOffset (pt_log p)) + total_records as + records (hd zs))"
  using FetchRaw_consumer [OF assms, of maxBytes] unfolding committed_from_def HighWatermark_def by blast

theorem consumers_read_committed_batches_witness:
  "\<exists>x. FetchRaw 1 (- 1) 100 example_leader = Some (Inr x, example_leader) \<and> fr_HighWatermark x = 0"
  using consumers_read_committed_batches [OF example_leader_ok, of "- 1" 1 100]
  by (auto simp: example_log_rep(2) HighWatermark_def)

text \<open>C16: when all in-sync followers fetch at the end of the log, every waiting request is acknowledged.\<close>

theorem followers_fetching_acknowledge:
  assumes "part_ok p bss" and "pt_isLeader p" and "\<not> pt_closed p" and "is \<noteq> []" and "\<forall>i\<in>set is. 0 \<le> sint i"
    and "distinct (ISRSnapshot p)" and "pt_isr p \<noteq> []" and "set (ISRSnapshot p) \<subseteq> insert (pt_localBrokerID p) (set is)"
  shows "\<exists>p'. fetch_all is maxBytes p = Some p' \<and> HighWatermark p' = LEO p \<and> waiting p' = {} \<and> (\<forall>e\<in>waiting p. completed p' e None)"
  using followers_acknowledge [OF assms] unfolding HighWatermark_def by blast

theorem followers_fetching_acknowledge_witness:
  "\<exists>p'. fetch_all [2] 100 example_waiting = Some p' \<and> HighWatermark p' = 2 \<and> completed p' 0 None"
  using followers_fetching_acknowledge [OF example_waiting_ok(1), of "[2]" 100] example_waiting_ok by auto



section \<open>Topics\<close>

text \<open>C1: brokers that reconciled with two states of the same controller run do not lead a partition in the same epoch unless they are the same broker.\<close>

theorem no_two_leaders_in_an_epoch:
  assumes "upper_law uni" and "controller_inv uni s" and "length logs < 2 ^ 32"
    and "indices_fit s" and "indices_fit (run js uni s logs)" and "tm_ok tm1" and "tm_ok tm2"
    and "opens env1 (tm_logConfig tm1)" and "opens env2 (tm_logConfig tm2)"
    and "Reconcile env1 (PartitionsForBroker s (tm_localBrokerID tm1)) (tm_localBrokerID tm1) tm1 = Some (Inr (), tm1')"
    and "Reconcile env2 (PartitionsForBroker (run js uni s logs) (tm_localBrokerID tm2)) (tm_localBrokerID tm2) tm2 = Some (Inr (), tm2')"
    and "leads tm1' topic i epoch" and "leads tm2' topic i epoch"
  shows "tm_localBrokerID tm1 = tm_localBrokerID tm2"
  by (rule no_split_brain [OF assms(1,2) inv_run [OF assms(1,2)] assms(3-13)])

theorem no_two_leaders_in_an_epoch_witness:
  "\<exists>tm'. leads tm' (gostr ''t'') 0 0 \<and> tm_localBrokerID example_manager = 1 \<and>
     Reconcile example_env (PartitionsForBroker (run (example_codec (UpdatePayload example_update) (toSnapshotData example_state)) id example_state []) 1) 1
       example_manager = Some (Inr (), tm')"
proof -
  let ?js = "example_codec (UpdatePayload example_update) (toSnapshotData example_state)"
  have run: "run ?js id example_state [] = example_state" by (simp add: run_def)
  obtain tm' where r: "Reconcile example_env (PartitionsForBroker example_state (tm_localBrokerID example_manager)) (tm_localBrokerID example_manager)
      example_manager = Some (Inr (), tm')"
    using example_reconciled example_manager_ok(2) by auto
  have op: "opens example_env (tm_logConfig example_manager)" using example_opens example_manager_ok(3) by simp
  have l: "leads tm' (gostr ''t'') 0 0"
    using leads_iff [OF example_manager_ok(1) op example_state_inv example_fit r, of "gostr ''t''" 0 0] example_manager_ok(2)
    by (simp add: GetPartition_def example_state_def example_key_def)
  have "tm_localBrokerID example_manager = tm_localBrokerID example_manager"
    by (rule no_two_leaders_in_an_epoch [where uni = id and s = example_state and js = ?js and logs = "[]", unfolded run,
          OF upper_law_id example_state_inv _ example_fit example_fit example_manager_ok(1) example_manager_ok(1) op op r r l l]) simp
  then show ?thesis using l r run example_manager_ok(2) by auto
qed

text \<open>C4: after Reconcile a broker leads a partition in an epoch if and only if the controller says so.\<close>

theorem reconcile_gives_assigned_roles:
  assumes "tm_ok tm" and "opens env (tm_logConfig tm)" and "controller_inv uni s" and "indices_fit s"
    and "Reconcile env (PartitionsForBroker s (tm_localBrokerID tm)) (tm_localBrokerID tm) tm = Some (Inr (), tm')"
  shows "tm_ok tm' \<and> (\<forall>topic i epoch. leads tm' topic i epoch \<longleftrightarrow>
    (\<exists>q. GetPartition s topic i = Some q \<and> pt_LeaderBrokerID q = tm_localBrokerID tm \<and> pt_LeaderEpoch q = epoch))"
proof -
  note k = keys_distinct [OF assms(3,4), of "tm_localBrokerID tm"]
  have "tm_ok tm'" using Reconcile_rep [OF assms(1,2) conjunct2 [OF k] conjunct1 [OF k]] assms(5) by auto
  then show ?thesis using leads_iff [OF assms] by blast
qed

theorem reconcile_gives_assigned_roles_witness:
  "\<exists>tm'. Reconcile example_env (PartitionsForBroker example_state 1) 1 example_manager = Some (Inr (), tm') \<and> leads tm' (gostr ''t'') 0 0"
proof -
  obtain tm' where r: "Reconcile example_env (PartitionsForBroker example_state 1) 1 example_manager = Some (Inr (), tm')"
    using example_reconciled by blast
  have "leads tm' (gostr ''t'') 0 0"
    using reconcile_gives_assigned_roles [OF example_manager_ok(1) _ example_state_inv example_fit, of example_env tm'] r example_opens example_manager_ok(2,3)
    by (simp add: GetPartition_def example_state_def example_key_def)
  then show ?thesis using r by blast
qed



text \<open>CreateTopic adds a whole topic or changes nothing.\<close>

theorem create_topic_all_or_nothing:
  assumes "tm_ok tm" and "opens env (tm_logConfig tm)"
  shows "\<exists>r tm' removed. CreateTopic env name n lead tm = Some (r, tm', removed) \<and> tm_ok tm' \<and>
    (case r of
       Inl _ \<Rightarrow> tm' = tm
     | Inr _ \<Rightarrow> validateTopicName name \<and> 0 < n \<and> map_of (tm_topics tm) name = None \<and> removed = [] \<and>
         PartitionCount tm' name = Inr (nat n) \<and>
         (\<forall>i<nat n. \<exists>p. slot tm' name i = Some p \<and> created env tm name lead i p) \<and>
         (\<forall>topic i. topic \<noteq> name \<longrightarrow> slot tm' topic i = slot tm topic i))"
proof -
  obtain r tm' removed where r: "CreateTopic env name n lead tm = Some (r, tm', removed)" "tm_ok tm'"
    "case r of
       Inl _ \<Rightarrow> tm' = tm
     | Inr _ \<Rightarrow> validateTopicName name \<and> 0 < n \<and> map_of (tm_topics tm) name = None \<and> removed = [] \<and>
         PartitionCount tm' name = Inr (nat n) \<and>
         (\<forall>i. slot tm' name i = None \<or> (\<exists>p. slot tm' name i = Some p \<and> created env tm name lead i p)) \<and>
         (\<forall>i<nat n. slot tm' name i \<noteq> None) \<and> (\<forall>topic i. topic \<noteq> name \<longrightarrow> slot tm' topic i = slot tm topic i)"
    using CreateTopic_rep [OF assms] by blast
  have all: "\<exists>p. slot tm' name i = Some p \<and> created env tm name lead i p" if "r = Inr u" "i < nat n" for u i
    using r(3) that by (simp del: not_None_eq) metis
  show ?thesis using r all by (cases r) auto
qed

theorem create_topic_all_or_nothing_witness:
  "\<exists>r tm' removed. CreateTopic example_env (gostr ''t'') 2 True example_manager = Some (r, tm', removed) \<and> tm_ok tm'"
  using create_topic_all_or_nothing [OF example_manager_ok(1), of example_env "gostr ''t''" 2 True] example_opens example_manager_ok(3) by auto

section \<open>Requests\<close>



text \<open>C11: what was produced is what is fetched at the base offset of the answer.\<close>

theorem produced_records_are_fetched:
  assumes "roomy B (cost x + k) tm" and "weighs B cost x"
    and "produce_partition env acks timeoutMs name x (tm, n) = Some ((resp, pending), tm', n')" and "0 \<le> sint (psp_BaseOffset resp)"
    and "TM_GetPartition tm name (prp_Index x) = Inr p"
    and "pt_isr p \<noteq> []" and "\<forall>e\<in>set (pt_isr p). ie_BrokerID e = pt_localBrokerID p" and "sint replicaID < 0"
  shows "\<exists>ds zs rest r s. records_of x = concat ds \<and> list_all scannable ds \<and>
    stamp_all (unat (psp_BaseOffset resp)) (LeaderEpoch p) ds = zs @ rest \<and> zs \<noteq> [] \<and>
    fetch_partition replicaID name (fetch_at (prp_Index x) (psp_BaseOffset resp) maxBytes) (new_pass tm' budget) = Some (r, s) \<and>
    sm_errorCode r = 0 \<and> sm_records r = concat zs"
  by (rule produce_visible [OF assms])

theorem produced_records_are_fetched_witness:
  "\<exists>resp pending tm' n' r s. produce_partition example_request_env 1 0 (gostr ''t'') example_produce (example_topics, 0) = Some ((resp, pending), tm', n') \<and>
     fetch_partition (- 1) (gostr ''t'') (fetch_at (prp_Index example_produce) (psp_BaseOffset resp) 100) (new_pass tm' 100) = Some (r, s) \<and> sm_errorCode r = 0 \<and> sm_records r \<noteq> []"
proof -
  obtain resp pending tm' n' where P: "produce_partition example_request_env 1 0 (gostr ''t'') example_produce (example_topics, 0) = Some ((resp, pending), tm', n')"
    and b: "psp_BaseOffset resp = 2" using example_produced by blast
  have b0: "0 \<le> sint (psp_BaseOffset resp)" using b by simp
  obtain ds zs rest r s where f: "records_of example_produce = concat ds" "list_all scannable ds" "stamp_all (unat (psp_BaseOffset resp)) (LeaderEpoch example_alone) ds = zs @ rest" "zs \<noteq> []"
    "fetch_partition (- 1) (gostr ''t'') (fetch_at (prp_Index example_produce) (psp_BaseOffset resp) 100) (new_pass tm' 100) = Some (r, s)" "sm_errorCode r = 0" "sm_records r = concat zs"
    using produced_records_are_fetched [OF example_room example_weighs P b0 example_get, of "- 1" 100 100] by auto
  have "list_all raw_ok ds" using scannable_raw [OF f(2)] .
  then have "map length (zs @ rest) = map length ds" using stamp_all_lengths f(3) by metis
  moreover obtain z zs' where "zs = z # zs'" using f(4) by (cases zs) auto
  ultimately have "length z \<in> set (map length ds)" by (cases ds) auto
  then have "z \<noteq> []" using \<open>list_all raw_ok ds\<close> raw_ok_length by (fastforce simp: list_all_iff)
  then have "sm_records r \<noteq> []" using f(7) \<open>zs = z # zs'\<close> by simp
  then show ?thesis using P f(5,6) by blast
qed

text \<open>C32: encodeFetchStreamResponse and EncodeFetchResponse send the same bytes.\<close>

theorem stream_is_plain_response:
  assumes "stream_ok r"
  shows "\<exists>resp. encodeFetchStreamResponse r v = Some resp \<and> resp_ok resp \<and> resp_data resp = EncodeFetchResponse (plain_response r) v \<and>
    BodySize resp = int (length (EncodeFetchResponse (plain_response r) v))"
proof -
  obtain resp where r: "encodeFetchStreamResponse r v = Some resp" "resp_ok resp" "resp_data resp = EncodeFetchResponse (plain_response r) v"
    using encodeFetchStreamResponse_bytes [OF assms] by blast
  have "BodySize resp = int (length (resp_data resp))" by (rule BodySize_data [OF r(2)])
  then show ?thesis using r by auto
qed

theorem stream_is_plain_response_witness:
  "\<exists>resp. encodeFetchStreamResponse example_stream 11 = Some resp \<and> resp_data resp = EncodeFetchResponse (plain_response example_stream) 11 \<and>
     sm_records (hd (st_partitions (hd (ss_topics example_stream)))) = [2, 3]"
proof -
  have "stream_ok example_stream" by (simp add: stream_ok_def sm_ok_def range_fits_def example_stream_def)
  from stream_is_plain_response [OF this, of 11] show ?thesis by (auto simp: example_stream_def sm_records_def range_bytes_def)
qed

text \<open>C33: the records of a fetch response stay within MaxBytes or the size of a single batch.\<close>

theorem fetch_within_budget:
  assumes "served B tm" and "B < 2 ^ 31"
  shows "\<exists>resp s. fetchOnePass req tm = Some (resp, s) \<and> fp_totalBytes s = stream_size resp \<and>
    stream_size resp \<le> max (sint (fr_MaxBytes req)) (int B) \<and> stream_ok resp"
  using fetchOnePass_ok [OF assms, of req] by blast

theorem fetch_within_budget_witness:
  "\<exists>resp s. fetchOnePass example_fetch example_topics = Some (resp, s) \<and> stream_size resp \<le> 1000"
  using fetch_within_budget [OF roomy_served [OF example_room], of example_fetch] by (auto simp: example_fetch_def)

text \<open>C34: the loop of a long poll ends at the latest at the first look at the clock after the deadline.\<close>

theorem long_poll_returns:
  assumes "served B tm" and "B < 2 ^ 31" and "\<forall>k tm. served B tm \<longrightarrow> served B (others k tm)" and "deadline \<le> clock n"
  shows "\<exists>resp tm'. fetch_loop clock others req deadline 0 tm = Some (resp, tm') \<and> served B tm' \<and> stream_ok resp \<and>
    map st_name (ss_topics resp) = map frt_Name (fr_Topics req)"
proof -
  obtain resp tm' where r: "fetch_loop clock others req deadline 0 tm = Some (resp, tm')" "served B tm'" "stream_ok resp"
      "list_all2 fetched_topic (fr_Topics req) (ss_topics resp)"
    using fetch_loop_returns [OF assms(2), of others tm deadline clock 0 n req] assms(1,3,4) by auto
  have "map st_name (ss_topics resp) = map frt_Name (fr_Topics req)"
    using r(4) by (auto simp: list_all2_conv_all_nth fetched_topic_def intro: nth_equalityI)
  then show ?thesis using r by blast
qed

theorem long_poll_returns_witness:
  "\<exists>resp tm'. fetch_loop int (\<lambda>_ tm. tm) example_fetch 5000000 0 example_topics = Some (resp, tm') \<and> served 1000 tm'"
  using long_poll_returns [OF roomy_served [OF example_room], of "\<lambda>_ tm. tm" 5000000 int 5000000 example_fetch] by auto

text \<open>C35: the metadata of a topic lists exactly the partitions of the controller with their leaders and replicas.\<close>

theorem metadata_reports_controller_state:
  assumes "controller_inv uni s"
  shows "case GetPartition s topic i of
      None \<Rightarrow> (\<forall>r\<in>set (mt_Partitions (controller_topic_metadata (by_topic [] (AllPartitions s)) topic)). mp_PartitionIndex r \<noteq> i)
    | Some q \<Rightarrow> \<lparr>mp_ErrorCode = 0, mp_PartitionIndex = i, mp_LeaderID = pt_LeaderBrokerID q, mp_LeaderEpoch = pt_LeaderEpoch q,
        mp_ReplicaNodes = pt_Replicas q, mp_ISRNodes = pt_ISR q, mp_OfflineReplicas = []\<rparr>
        \<in> set (mt_Partitions (controller_topic_metadata (by_topic [] (AllPartitions s)) topic))"
  by (rule controller_topic_exact [OF assms])

theorem metadata_reports_controller_state_witness:
  "\<lparr>mp_ErrorCode = 0, mp_PartitionIndex = 0, mp_LeaderID = 1, mp_LeaderEpoch = 0, mp_ReplicaNodes = [1, 2], mp_ISRNodes = [1, 2], mp_OfflineReplicas = []\<rparr>
     \<in> set (mt_Partitions (controller_topic_metadata (by_topic [] (AllPartitions example_state)) (gostr ''t'')))"
  using metadata_reports_controller_state [OF example_state_inv, of "gostr ''t''" 0] by (simp add: GetPartition_def example_state_def example_key_def)

section \<open>Connections\<close>

text \<open>C28: the requests of a connection are answered in order, each in a frame with its own correlation id.\<close>

theorem connection_answers_in_order:
  assumes "list_all (request_ok n) rs" and "responses_ok handle" and "smooth c" and "answers handle rs h = Some (fs, h')"
  shows "serve n handle None (concat (map request_frame rs)) c h = Some (c\<lparr>cn_out := cn_out c @ concat fs\<rparr>, h')"
  by (rule serve_answers [OF assms])

theorem connection_answers_in_order_witness:
  "serve 1000 example_echo None (concat (map request_frame example_requests)) \<lparr>cn_out = [], cn_tcp = True, cn_writes = [], cn_sends = []\<rparr> 0 =
     Some (\<lparr>cn_out = concat (map (\<lambda>(h, _). response_frame h [1, 2]) example_requests), cn_tcp = True, cn_writes = [], cn_sends = []\<rparr>, 2)"
  using connection_answers_in_order [OF example_requests_ok example_echo_ok _ example_answers,
      of "\<lparr>cn_out = [], cn_tcp = True, cn_writes = [], cn_sends = []\<rparr>"] by (simp add: smooth_def)

text \<open>C38: with any outcome of the calls of the network the bytes sent are a beginning of the answers.\<close>

theorem client_reads_prefix_of_answers:
  assumes "list_all (request_ok n) rs" and "responses_ok handle" and "honest c" and "answers handle rs h = Some (fs, h')"
  shows "\<exists>c' h''. serve n handle closing (concat (map request_frame rs)) c h = Some (c', h'') \<and>
    (\<exists>k. cn_out c' = cn_out c @ take k (concat fs))"
  by (rule serve_prefix [OF assms])

theorem client_reads_prefix_of_answers_witness:
  "\<exists>c' h''. serve 1000 example_echo (Some 5) (concat (map request_frame example_requests))
     \<lparr>cn_out = [], cn_tcp = False, cn_writes = [WriteFails 3], cn_sends = [Interrupted, Sent 2]\<rparr> 0 = Some (c', h'') \<and>
     (\<exists>k. cn_out c' = take k (concat (map (\<lambda>(h, _). response_frame h [1, 2]) example_requests)))"
  using client_reads_prefix_of_answers [OF example_requests_ok example_echo_ok _ example_answers,
      of "\<lparr>cn_out = [], cn_tcp = False, cn_writes = [WriteFails 3], cn_sends = [Interrupted, Sent 2]\<rparr>" "Some 5"] by (simp add: honest_def)

section \<open>Followers\<close>











section \<open>The life of a broker\<close>





text \<open>C25: the address of a listener goes through registration, metadata and the fetch manager unchanged.\<close>

theorem followers_dial_the_address_registered:
  assumes "bare host" and "listenerEndpoint (JoinHostPort host (fmt_d (uint p))) adv = Some (h, q)"
    and "register_broker uni s \<lparr>rb_ID = i, rb_IncarnationID = inc, rb_Endpoints = own_endpoints h q\<rparr> index = (None, s1)"
    and "GetBroker s1 i = Some info" and "unfence_broker s1 \<lparr>ub_BrokerID = i, ub_BrokerEpoch = bi_BrokerEpoch info\<rparr> = (None, s2)"
    and "bare (TrimSpace h)"
  shows "q = p \<and> h = (if host = [] \<or> host = gostr ''::'' \<or> host = gostr ''0.0.0.0'' then adv else host) \<and>
    (\<exists>addr. leader_addr s2 i = Some addr \<and> SplitHostPort addr = Some (TrimSpace h, fmt_d (uint p)) \<and> ParseUint16 (fmt_d (uint p)) = Some p)"
proof -
  have hq: "q = p" "h = (if host = [] \<or> host = gostr ''::'' \<or> host = gostr ''0.0.0.0'' then adv else host)"
    using assms(2) listenerEndpoint_Join [OF assms(1), of p adv] by simp_all
  have "bi_Endpoints info = own_endpoints (TrimSpace h) q" using registered_endpoint [OF assms(3)] assms(4) by auto
  moreover have "GetBroker s2 i = Some (info\<lparr>bi_Fenced := False\<rparr>)"
    using assms(4,5) by (auto simp: unfence_broker_def GetBroker_def update_conv)
  ultimately have "leader_addr s2 i = Some (JoinHostPort (TrimSpace h) (fmt_d (uint q)))"
    using leader_addr_own [of s2 i "info\<lparr>bi_Fenced := False\<rparr>" "TrimSpace h" q] by simp
  then show ?thesis using hq SplitHostPort_Join [OF assms(6) port_text(1,2)] port_text(3) by simp
qed

theorem followers_dial_the_address_registered_witness:
  "\<exists>s1 s2 info addr. register_broker id newControllerState \<lparr>rb_ID = 1, rb_IncarnationID = gostr ''00'', rb_Endpoints = own_endpoints (gostr ''h'') 9092\<rparr> 7 = (None, s1) \<and>
     GetBroker s1 1 = Some info \<and> unfence_broker s1 \<lparr>ub_BrokerID = 1, ub_BrokerEpoch = bi_BrokerEpoch info\<rparr> = (None, s2) \<and>
     leader_addr s2 1 = Some addr \<and> SplitHostPort addr = Some (gostr ''h'', fmt_d 9092)"
proof -
  let ?host = "gostr ''::''"
  have b: "bare ?host" "bare (gostr ''h'')" by (simp_all add: bare_def gostr_def)
  have t: "TrimSpace (gostr ''h'') = gostr ''h''" by code_simp
  have l: "listenerEndpoint (JoinHostPort ?host (fmt_d (uint (9092 :: u16)))) (gostr ''h'') = Some (gostr ''h'', 9092)"
    using listenerEndpoint_Join [OF b(1), of 9092 "gostr ''h''"] by simp
  have n: "normalizeEndpoints id (own_endpoints (gostr ''h'') 9092) = Inr [example_endpoint]"
    using normalizeEndpoints_fixed [OF example_endpoints_ok] by (simp add: example_own_endpoint)
  have ne: "gostr ''00'' \<noteq> []" by (simp add: gostr_def)
  define s1 where "s1 = snd (register_broker id newControllerState \<lparr>rb_ID = 1, rb_IncarnationID = gostr ''00'', rb_Endpoints = own_endpoints (gostr ''h'') 9092\<rparr> 7)"
  have r: "register_broker id newControllerState \<lparr>rb_ID = 1, rb_IncarnationID = gostr ''00'', rb_Endpoints = own_endpoints (gostr ''h'') 9092\<rparr> 7 = (None, s1)"
    using n ne by (simp add: s1_def register_broker_def newControllerState_def)
  obtain info where i: "GetBroker s1 1 = Some info" using registered_endpoint [OF r] by blast
  then obtain s2 where u: "unfence_broker s1 \<lparr>ub_BrokerID = 1, ub_BrokerEpoch = bi_BrokerEpoch info\<rparr> = (None, s2)"
    by (simp add: unfence_broker_def GetBroker_def)
  show ?thesis using followers_dial_the_address_registered [OF b(1) l r i u] b(2) t r i u by auto
qed

text \<open>C26: resources and bootstrap of a controller node.\<close>

theorem controller_node_leaves_nothing_open:
  "(case op_result (NewClusterNode io cfg servers) of
      Inl _ \<Rightarrow> mset (op_closed (NewClusterNode io cfg servers)) = mset (op_opened (NewClusterNode io cfg servers))
    | Inr n \<Rightarrow> op_closed (NewClusterNode io cfg servers) = [] \<and>
        (\<exists>err closed n'. Node_Shutdown raftErr closeErr n = (err, closed, n') \<and> mset closed = mset (op_opened (NewClusterNode io cfg servers)) \<and>
           (\<forall>r c. Node_Shutdown r c n' = (err, [], n')))) \<and>
   (\<forall>conf. op_bootstrapped (NewClusterNode io cfg servers) = Some conf \<longrightarrow> conf = servers \<and> ra_hasState (io_raft io) = Some False \<and>
      (\<exists>s. List.find (\<lambda>s. sv_ID s = cc_LocalID cfg) servers = Some s \<and> sv_Suffrage s = Voter \<and> sv_Address s = io_localAddr io))"
proof (rule conjI, goal_cases)
  case 1
  show ?case
  proof (cases "op_result (NewClusterNode io cfg servers)")
    case (Inl e)
    then show ?thesis using NewClusterNode_closes [of io cfg servers] by simp
  next
    case (Inr n)
    then have n: "op_closed (NewClusterNode io cfg servers) = []" "\<not> nd_shutdownOnce n" "mset (close_all (nd_closers n)) = mset (op_opened (NewClusterNode io cfg servers))"
      using NewClusterNode_closes [of io cfg servers] by simp_all
    then show ?thesis using Inr Shutdown_once [OF n(2), of raftErr closeErr] by auto
  qed
next
  case 2
  then show ?case using bootstrapped_when [of io cfg servers] find_local_None by blast
qed

theorem controller_node_leaves_nothing_open_witness:
  "let io = \<lparr>io_mkdirFails = False, io_storeFails = False, io_snapshotsFail = False, io_resolveFails = False, io_transportFails = False, io_localAddr = [1],
        io_raft = \<lparr>ra_hasState = Some False, ra_bootstrapFails = False, ra_newFails = False\<rparr>\<rparr>;
      cfg = \<lparr>cc_LocalID = [2], cc_BindAddr = [3], cc_AdvertiseAddr = [], cc_DataDir = [4], cc_TransportMaxPool = 0, cc_TransportTimeout = 0\<rparr>;
      servers = [\<lparr>sv_ID = [2], sv_Address = [1], sv_Suffrage = Voter\<rparr>]
   in op_bootstrapped (NewClusterNode io cfg servers) = Some servers \<and> ra_hasState (io_raft io) = Some False"
proof -
  let ?io = "\<lparr>io_mkdirFails = False, io_storeFails = False, io_snapshotsFail = False, io_resolveFails = False, io_transportFails = False, io_localAddr = [1],
        io_raft = \<lparr>ra_hasState = Some False, ra_bootstrapFails = False, ra_newFails = False\<rparr>\<rparr>"
  let ?cfg = "\<lparr>cc_LocalID = [2], cc_BindAddr = [3], cc_AdvertiseAddr = [], cc_DataDir = [4], cc_TransportMaxPool = 0, cc_TransportTimeout = 0\<rparr>"
  let ?servers = "[\<lparr>sv_ID = [2], sv_Address = [1], sv_Suffrage = Voter\<rparr>]"
  have b: "op_bootstrapped (NewClusterNode ?io ?cfg ?servers) = Some ?servers"
    by (simp add: NewClusterNode_def newNode_def validateLocalBootstrapServer_def defaultTransportMaxPool_def defaultTransportTimeout_def)
  show ?thesis using controller_node_leaves_nothing_open [of ?io ?cfg ?servers False "\<lambda>_. False"] b unfolding Let_def by blast
qed



end
